(* ===== verification/Prelude.thy ===== *)
theory Prelude
  imports Complex_Main
begin

text \<open>
  What the component theories share: results with an error value (a Python exception as the
  left injection of a sum), loops that stop at the first exception, database tables as lists
  of rows with conditional updates and their row counts, and the fencing argument that every
  lease of the program rests on, stated once as a locale.

  Instants are integers (microseconds since the epoch), as are durations: a Python
  \<open>datetime\<close> or \<open>timedelta\<close> has exactly that resolution. A string is a \<open>char list\<close>.
\<close>

named_theorems result_simps "when a computation with exceptions succeeds"

type_synonym instant = int

section \<open>Results\<close>

fun and_then :: "'e + 'a \<Rightarrow> ('a \<Rightarrow> 'e + 'b) \<Rightarrow> 'e + 'b" where
  "and_then (Inl e) f = Inl e"
| "and_then (Inr x) f = f x"

definition ensure :: "bool \<Rightarrow> 'e \<Rightarrow> 'e + unit" where
  "ensure b e = (if b then Inr () else Inl e)"

definition of_option :: "'e \<Rightarrow> 'a option \<Rightarrow> 'e + 'a" where
  "of_option e m = (case m of None \<Rightarrow> Inl e | Some x \<Rightarrow> Inr x)"

definition is_ok :: "'e + 'a \<Rightarrow> bool" where
  "is_ok m = (case m of Inl _ \<Rightarrow> False | Inr _ \<Rightarrow> True)"

text \<open>A Python \<open>for\<close> loop over a list whose body may raise: left to right, stopping at the
  first exception, with the loop-carried variables as the accumulator.\<close>

fun fold_res :: "('a \<Rightarrow> 's \<Rightarrow> 'e + 's) \<Rightarrow> 'a list \<Rightarrow> 's \<Rightarrow> 'e + 's" where
  "fold_res f [] s = Inr s"
| "fold_res f (x # xs) s = and_then (f x s) (fold_res f xs)"

text \<open>A list comprehension whose element expression may raise.\<close>

fun map_res :: "('a \<Rightarrow> 'e + 'b) \<Rightarrow> 'a list \<Rightarrow> 'e + 'b list" where
  "map_res f [] = Inr []"
| "map_res f (x # xs) = and_then (f x) (\<lambda>y. and_then (map_res f xs) (\<lambda>ys. Inr (y # ys)))"

text \<open>Congruence rules, so that a recursive function may call itself in the body of such a loop.\<close>

lemma fold_res_cong [fundef_cong]:
  assumes "xs = ys" and "s = t" and "\<And>x u. x \<in> set ys \<Longrightarrow> f x u = g x u"
  shows "fold_res f xs s = fold_res g ys t"
proof -
  have "fold_res f ys u = fold_res g ys u" for u
    using assms(3)
  proof (induction ys arbitrary: u)
    case (Cons y ys)
    then have "fold_res f ys = fold_res g ys" by (simp add: fun_eq_iff)
    with Cons.prems show ?case by simp
  qed simp
  with assms(1,2) show ?thesis by simp
qed

lemma map_res_cong [fundef_cong]:
  assumes "xs = ys" and "\<And>x. x \<in> set ys \<Longrightarrow> f x = g x"
  shows "map_res f xs = map_res g ys"
proof -
  have "map_res f ys = map_res g ys" using assms(2) by (induction ys) auto
  with assms(1) show ?thesis by simp
qed

section \<open>Tables\<close>

text \<open>A database table is the list of its rows. \<open>UPDATE ... WHERE p\<close> changes the rows that
  satisfy \<open>p\<close>; the driver's row count is the number of rows matched.\<close>

definition update_where :: "('r \<Rightarrow> bool) \<Rightarrow> ('r \<Rightarrow> 'r) \<Rightarrow> 'r list \<Rightarrow> 'r list" where
  "update_where p f rows = map (\<lambda>r. if p r then f r else r) rows"

definition row_count :: "('r \<Rightarrow> bool) \<Rightarrow> 'r list \<Rightarrow> nat" where
  "row_count p rows = length (filter p rows)"

section \<open>Laws of results\<close>

lemma and_then_Inr [result_simps]:
  "and_then m f = Inr y \<longleftrightarrow> (\<exists>x. m = Inr x \<and> f x = Inr y)"
  by (cases m) auto

lemma ensure_Inr [result_simps]: "ensure b e = Inr u \<longleftrightarrow> b"
  by (auto simp: ensure_def)

lemma ensure_Inl [simp]: "ensure b e = Inl e' \<longleftrightarrow> \<not> b \<and> e' = e"
  by (auto simp: ensure_def)

lemma ensure_True [simp]: "ensure True e = Inr ()"
  by (simp add: ensure_def)

lemma ensure_False [simp]: "ensure False e = Inl e"
  by (simp add: ensure_def)

lemma of_option_Inr [result_simps]: "of_option e m = Inr x \<longleftrightarrow> m = Some x"
  by (auto simp: of_option_def split: option.splits)

lemma of_option_simps [simp]: "of_option e None = Inl e" "of_option e (Some x) = Inr x"
  by (simp_all add: of_option_def)

lemma is_ok_simps [simp]: "\<not> is_ok (Inl e)" "is_ok (Inr x)"
  by (simp_all add: is_ok_def)

lemma is_ok_iff: "is_ok m \<longleftrightarrow> (\<exists>x. m = Inr x)"
  by (cases m) auto

text \<open>An invariant of the loop body is an invariant of the loop.\<close>

lemma fold_res_invariant:
  assumes "fold_res f xs s = Inr s'" and "P s"
    and "\<And>x s s'. x \<in> set xs \<Longrightarrow> P s \<Longrightarrow> f x s = Inr s' \<Longrightarrow> P s'"
  shows "P s'"
  using assms
proof (induction xs arbitrary: s)
  case Nil
  then show ?case by simp
next
  case (Cons x xs)
  then obtain t where t: "f x s = Inr t" "fold_res f xs t = Inr s'"
    by (auto simp: result_simps)
  with Cons.prems have "P t" by auto
  with t(2) show ?case
    using Cons.prems(3) by (intro Cons.IH [OF t(2)]) auto
qed

lemma fold_res_append:
  "fold_res f (xs @ ys) s = and_then (fold_res f xs s) (fold_res f ys)"
proof (induction xs arbitrary: s)
  case (Cons x xs)
  then show ?case by (cases "f x s") auto
qed simp

lemma map_res_Inr_length: "map_res f xs = Inr ys \<Longrightarrow> length ys = length xs"
  by (induction xs arbitrary: ys) (auto simp: result_simps)

lemma map_res_Inr_iff:
  "map_res f xs = Inr ys \<longleftrightarrow> list_all2 (\<lambda>x y. f x = Inr y) xs ys"
  by (induction xs arbitrary: ys) (auto simp: result_simps list_all2_Cons1)

lemma map_res_mem:
  "map_res f xs = Inr ys \<Longrightarrow> y \<in> set ys \<Longrightarrow> \<exists>x \<in> set xs. f x = Inr y"
  by (induction xs arbitrary: ys) (auto simp: result_simps)

section \<open>Laws of tables\<close>

lemma find_unique:
  assumes "x \<in> set xs" and "p x" and "\<And>y. y \<in> set xs \<Longrightarrow> p y \<Longrightarrow> y = x"
  shows "find p xs = Some x"
  using assms
proof (induction xs)
  case (Cons y ys)
  show ?case
  proof (cases "p y")
    case True
    then have "y = x" by (intro Cons.prems(3)) simp_all
    with True show ?thesis by simp
  next
    case False
    have "find p ys = Some x"
    proof (rule Cons.IH [OF _ Cons.prems(2)])
      show "x \<in> set ys" using Cons.prems(1,2) False by auto
      show "\<And>z. z \<in> set ys \<Longrightarrow> p z \<Longrightarrow> z = x" by (rule Cons.prems(3)) simp_all
    qed
    with False show ?thesis by simp
  qed
qed simp

lemma row_count_0_iff: "row_count p rows = 0 \<longleftrightarrow> (\<forall>r \<in> set rows. \<not> p r)"
  by (auto simp: row_count_def filter_empty_conv)

lemma update_where_none: "row_count p rows = 0 \<Longrightarrow> update_where p f rows = rows"
  by (auto simp: row_count_0_iff update_where_def intro: map_idI)

lemma set_update_where:
  "set (update_where p f rows) = {if p r then f r else r | r. r \<in> set rows}"
  by (auto simp: update_where_def)

lemma in_update_whereE:
  assumes "r' \<in> set (update_where p f rows)"
  obtains r where "r \<in> set rows" "p r" "r' = f r" | "r' \<in> set rows" "\<not> p r'"
  using assms by (auto simp: update_where_def split: if_splits)

lemma map_key_update_where:
  "(\<And>r. k (f r) = k r) \<Longrightarrow> map k (update_where p f rows) = map k rows"
  by (auto simp: update_where_def)

lemma row_count_key_le_1:
  assumes "distinct (map k rows)" and "\<And>r. p r \<Longrightarrow> k r = v"
  shows "row_count p rows \<le> 1"
  using assms
proof (induction rows)
  case (Cons r rows)
  show ?case
  proof (cases "p r")
    case True
    then have "k r = v" using Cons.prems(2) by blast
    moreover have "k r \<notin> k ` set rows"
      using Cons.prems(1) by simp
    ultimately have "\<forall>s \<in> set rows. \<not> p s"
      using Cons.prems(2) by (metis imageI)
    then have "row_count p rows = 0" by (simp add: row_count_0_iff)
    with True show ?thesis by (simp add: row_count_def)
  next
    case False
    then show ?thesis using Cons by (simp add: row_count_def)
  qed
qed (simp add: row_count_def)

lemma row_count_1E:
  assumes "row_count p rows = 1"
  obtains pre r post where "rows = pre @ r # post" "p r"
    "\<forall>s \<in> set pre \<union> set post. \<not> p s"
proof -
  from assms obtain r where "filter p rows = [r]"
    unfolding row_count_def by (cases "filter p rows") auto
  then obtain pre post where "rows = pre @ r # post" "p r"
    "filter p pre = []" "filter p post = []"
    by (auto simp: filter_eq_Cons_iff dest!: filter_eq_ConsD)
  then show thesis
    by (intro that) (auto simp: filter_empty_conv)
qed

lemma row_count_key_1_iff:
  assumes "distinct (map k rows)" and "\<And>r. p r \<Longrightarrow> k r = v"
  shows "row_count p rows = 1 \<longleftrightarrow> (\<exists>r \<in> set rows. p r)"
  using row_count_key_le_1 [of k rows p v] row_count_0_iff [of p rows] assms
  by (metis One_nat_def le_Suc_eq le_zero_eq not_one_le_zero)

section \<open>Fencing\<close>

text \<open>
  A lease is safe when each resource carries a counter that no step lowers, a token names the
  value of the counter at which it was issued, and holding the token requires the counter to
  be that value. The locale is what a provider of leases promises; its lemma is what the
  holder of a superseded token suffers: nothing it does can be accepted again.
\<close>

locale fenced_lease =
  fixes step :: "'s \<Rightarrow> 's \<Rightarrow> bool"
    and counter :: "'s \<Rightarrow> 'id \<Rightarrow> 'n::linorder option"
    and holds :: "'tok \<Rightarrow> instant \<Rightarrow> 's \<Rightarrow> bool"
    and token_id :: "'tok \<Rightarrow> 'id"
    and token_no :: "'tok \<Rightarrow> 'n"
  assumes counter_mono:
    "step s t \<Longrightarrow> counter s i = Some n \<Longrightarrow> \<exists>m. counter t i = Some m \<and> n \<le> m"
    and holds_counter: "holds c now s \<Longrightarrow> counter s (token_id c) = Some (token_no c)"
begin

lemma counter_mono_star:
  assumes "step\<^sup>*\<^sup>* s t" and "counter s i = Some n"
  shows "\<exists>m. counter t i = Some m \<and> n \<le> m"
  using assms
proof (induction rule: rtranclp_induct)
  case (step t u)
  then obtain m where m: "counter t i = Some m" "n \<le> m" by blast
  from counter_mono [OF step.hyps(2) m(1)] m(2) show ?case by (auto intro: order_trans)
qed simp

lemma superseded_forever:
  assumes "counter s (token_id c) = Some n" and "token_no c < n" and "step\<^sup>*\<^sup>* s t"
  shows "\<not> holds c now t"
proof
  assume "holds c now t"
  then have "counter t (token_id c) = Some (token_no c)" by (rule holds_counter)
  with counter_mono_star [OF assms(3,1)] assms(2) show False by auto
qed

lemma holders_agree:
  assumes "holds c now s" and "holds d now' s" and "token_id c = token_id d"
  shows "token_no c = token_no d"
  using holds_counter [OF assms(1)] holds_counter [OF assms(2)] assms(3) by simp

end

section \<open>Stores that keep what they accepted\<close>

text \<open>
  A store with an invariant, operations applied one after the other, and a description of which
  operation may remove which item. Whatever the sequence of operations, an item stays until an
  operation of the sequence may remove it.
\<close>

locale retained_store =
  fixes inv :: "'s \<Rightarrow> bool"
    and holds_item :: "'s \<Rightarrow> 'i \<Rightarrow> bool"
    and apply_to :: "'o \<Rightarrow> 's \<Rightarrow> 's"
    and removes :: "'o \<Rightarrow> 'i \<Rightarrow> bool"
  assumes inv_apply: "inv s \<Longrightarrow> inv (apply_to op s)"
    and retain: "inv s \<Longrightarrow> holds_item s i \<Longrightarrow> \<not> removes op i \<Longrightarrow> holds_item (apply_to op s) i"
begin

lemma inv_run: "inv s \<Longrightarrow> inv (fold apply_to ops s)"
  by (induction ops arbitrary: s) (simp_all add: inv_apply)

lemma retained:
  "inv s \<Longrightarrow> holds_item s i \<Longrightarrow> \<forall>op \<in> set ops. \<not> removes op i \<Longrightarrow> holds_item (fold apply_to ops s) i"
  by (induction ops arbitrary: s) (simp_all add: inv_apply retain)

lemma removed_by_some_op:
  assumes "inv s" and "holds_item s i" and "\<not> holds_item (fold apply_to ops s) i"
  shows "\<exists>op \<in> set ops. removes op i"
  using retained [OF assms(1,2), of ops] assms(3) by blast

end

section \<open>Loops over items with different keys\<close>

text \<open>
  A loop that treats one item after the other, each under its own key: what one step needs and what
  it achieves is not disturbed by a step under another key. Then the loop achieves it for every
  item, whatever the order, and leaves alone whatever is observed under the other keys.
\<close>

locale keyed_loop =
  fixes key :: "'x \<Rightarrow> 'k" and step :: "'x \<Rightarrow> 's \<Rightarrow> 'e + 's" and inv :: "'s \<Rightarrow> bool" and rel :: "'s \<Rightarrow> 's \<Rightarrow> bool"
    and ready :: "'x \<Rightarrow> 's \<Rightarrow> bool" and settled :: "'x \<Rightarrow> 's \<Rightarrow> bool" and seen :: "'k \<Rightarrow> 's \<Rightarrow> 'o"
  assumes rel_refl: "inv s \<Longrightarrow> rel s s" and rel_trans: "rel s t \<Longrightarrow> rel t u \<Longrightarrow> rel s u"
    and step_ok: "inv s \<Longrightarrow> ready x s \<Longrightarrow> step x s = Inr t \<Longrightarrow> inv t \<and> rel s t \<and> settled x t"
    and step_frame: "inv s \<Longrightarrow> ready x s \<Longrightarrow> step x s = Inr t \<Longrightarrow> key y \<noteq> key x \<Longrightarrow>
      (ready y s \<longrightarrow> ready y t) \<and> (settled y s \<longrightarrow> settled y t)"
    and step_unseen: "inv s \<Longrightarrow> ready x s \<Longrightarrow> step x s = Inr t \<Longrightarrow> k \<noteq> key x \<Longrightarrow> seen k t = seen k s"
begin

lemma settled_stays:
  "inv s \<Longrightarrow> \<forall>x \<in> set xs. ready x s \<Longrightarrow> distinct (map key xs) \<Longrightarrow> key y \<notin> key ` set xs \<Longrightarrow> settled y s \<Longrightarrow>
     fold_res step xs s = Inr t \<Longrightarrow> settled y t"
proof (induction xs arbitrary: s)
  case (Cons x xs)
  then obtain u where u: "step x s = Inr u" "fold_res step xs u = Inr t" by (auto simp: result_simps)
  have *: "key z \<noteq> key x" if "z \<in> set xs" for z using imageI [OF that, of key] Cons.prems(3) by auto
  then have "\<forall>z \<in> set xs. ready z u" using step_frame [OF Cons.prems(1) _ u(1)] Cons.prems(2) by simp
  moreover have "settled y u" "inv u"
    using step_frame [OF Cons.prems(1) _ u(1), of y] step_ok [OF Cons.prems(1) _ u(1)] Cons.prems by auto
  ultimately show ?case using Cons.IH [of u] Cons.prems(3,4) u(2) by simp
qed simp

lemma run:
  assumes "inv s" "\<forall>x \<in> set xs. ready x s" "distinct (map key xs)" "fold_res step xs s = Inr t"
  shows "inv t" "rel s t" "\<forall>x \<in> set xs. settled x t" "k \<notin> key ` set xs \<Longrightarrow> seen k t = seen k s"
proof -
  have "inv t \<and> rel s t \<and> (\<forall>x \<in> set xs. settled x t) \<and> (k \<notin> key ` set xs \<longrightarrow> seen k t = seen k s)"
    using assms
  proof (induction xs arbitrary: s)
    case Nil
    then show ?case by (simp add: rel_refl)
  next
    case (Cons x xs)
    then obtain u where u: "step x s = Inr u" "fold_res step xs u = Inr t" by (auto simp: result_simps)
    have x: "key z \<noteq> key x" if "z \<in> set xs" for z using imageI [OF that, of key] Cons.prems(3) by auto
    have rx: "ready x s" using Cons.prems(2) by simp
    note ok = step_ok [OF Cons.prems(1) rx u(1)]
    have r: "\<forall>z \<in> set xs. ready z u" using step_frame [OF Cons.prems(1) rx u(1)] x Cons.prems(2) by simp
    have "settled x t" using settled_stays [of u xs x t] r ok Cons.prems(3) u(2) by auto
    with Cons.IH [of u] r ok Cons.prems(3) u(2) step_unseen [OF Cons.prems(1) rx u(1), of k] rel_trans show ?case by auto
  qed
  then show "inv t" "rel s t" "\<forall>x \<in> set xs. settled x t" "k \<notin> key ` set xs \<Longrightarrow> seen k t = seen k s" by blast+
qed

end

text \<open>A loop whose body cannot raise.\<close>

lemma fold_res_total: "fold_res (\<lambda>x s. Inr (f x s)) xs s = Inr (fold f xs s)"
  by (induction xs arbitrary: s) simp_all

end
