(* ===== verification/Jobs.thy ===== *)
theory Jobs
  imports Prelude
begin

text \<open>
  The durable data-refresh queue of \<open>src/app/services/job_service.py\<close> over the table of
  \<open>src/app/models/job.py\<close>: jobs are queued, claimed under a lease, worked on by a handler
  that reports progress and publishes behind a fence, and finished, failed or reclaimed.

  The table is the list of its rows. Every operation below is one database session of the
  source: it reads the whole table and commits or rolls back as a unit. The clock readings of
  an operation are its arguments, so nothing assumes that processes agree on the time. A
  handler is code of other services and enters as the sequence of callbacks it makes and the
  way it ends. Progress is a rational: the code only compares and stores the floats it gets.
\<close>

section \<open>Rows, claims, services\<close>

datatype job_status = Queued | Running | Succeeded | Failed

definition ACTIVE_JOB_STATUSES :: "job_status list" where
  "ACTIVE_JOB_STATUSES = [Queued, Running]"

record job =
  job_id :: string
  operation :: string
  status :: job_status
  progress :: rat
  progress_note :: "string option"
  created_at :: instant
  started_at :: "instant option"
  finished_at :: "instant option"
  error_summary :: "string option"
  request_id :: "string option"
  lease_owner :: "string option"
  lease_expires_at :: "instant option"
  heartbeat_at :: "instant option"
  attempt_count :: nat

type_synonym job_table = "job list"

datatype ClaimedJob = ClaimedJob (cj_job_id: string) (cj_owner: string) (cj_attempt_count: nat)

definition fencing_token :: "ClaimedJob \<Rightarrow> nat" where
  "fencing_token c = cj_attempt_count c"

datatype duplicate_detail = ActiveJob string | DatabaseConstraint

datatype job_error =
    InvalidInputError string
  | DuplicateOperationError string duplicate_detail
  | ResourceNotFoundError string
  | OperationFailedError
  | OtherAppError string
  | StaleLeaseError
  | ResultCountError
  | RuntimeError string
  | IntegrityError

definition KNOWN_REFRESH_OPERATIONS :: "string list" where
  "KNOWN_REFRESH_OPERATIONS =
     [''update_database'', ''player_pbp'', ''opponent_pbp'', ''fetch_players_with_teams'',
      ''fetch_players'']"

definition DEFAULT_FAILURE_SUMMARY :: string where
  "DEFAULT_FAILURE_SUMMARY = ''The data refresh operation could not complete.''"

definition MAX_REFRESH_ATTEMPTS :: nat where
  "MAX_REFRESH_ATTEMPTS = 3"

definition EXHAUSTED_ATTEMPTS_SUMMARY :: string where
  "EXHAUSTED_ATTEMPTS_SUMMARY =
     ''The data refresh stopped responding 3 times and was not retried.''"

text \<open>The public message of an application error; every other exception has none.\<close>

fun public_message :: "job_error \<Rightarrow> string option" where
  "public_message (InvalidInputError m) = Some m"
| "public_message (DuplicateOperationError _ _) =
     Some ''An identical operation is already running or queued.''"
| "public_message (ResourceNotFoundError _) = Some ''The requested job was not found.''"
| "public_message OperationFailedError = Some ''The requested operation could not be completed.''"
| "public_message (OtherAppError m) = Some m"
| "public_message StaleLeaseError = None"
| "public_message ResultCountError = None"
| "public_message (RuntimeError _) = None"
| "public_message IntegrityError = None"

definition failure_summary :: "job_error \<Rightarrow> string" where
  "failure_summary e =
     (case public_message e of Some m \<Rightarrow> m | None \<Rightarrow> DEFAULT_FAILURE_SUMMARY)"

text \<open>The service object of one process. \<open>pool\<close> is the work handed to the executor and not
  yet started; durations are in microseconds.\<close>

record job_service =
  svc_owner :: string
  svc_handlers :: "string list"
  lease_us :: int
  worker_limit :: int
  submitted :: int
  pool :: "ClaimedJob list"
  dispatch_on_startup :: bool
  start_poller :: bool
  poller :: bool
  svc_shutdown :: bool
  dispatcher_pid :: "int option"

definition mk_service ::
  "string \<Rightarrow> string list \<Rightarrow> int \<Rightarrow> int \<Rightarrow> bool \<Rightarrow> bool \<Rightarrow> job_service" where
  "mk_service owner handlers lease max_workers on_startup with_poller =
     \<lparr>svc_owner = owner, svc_handlers = handlers, lease_us = max lease 100000,
      worker_limit = max max_workers 1, submitted = 0, pool = [],
      dispatch_on_startup = on_startup, start_poller = with_poller, poller = False,
      svc_shutdown = False, dispatcher_pid = None\<rparr>"

definition handler_for :: "job_service \<Rightarrow> string \<Rightarrow> bool" where
  "handler_for svc op = (op \<in> set (svc_handlers svc))"

section \<open>Starting and reading a job\<close>

definition active_job :: "string \<Rightarrow> job_table \<Rightarrow> job option" where
  "active_job op tbl =
     find (\<lambda>j. operation j = op \<and> status j \<in> set ACTIVE_JOB_STATUSES) tbl"

definition queued_row :: "string \<Rightarrow> string \<Rightarrow> instant \<Rightarrow> string option \<Rightarrow> job" where
  "queued_row jid op now rid =
     \<lparr>job_id = jid, operation = op, status = Queued, progress = 0, progress_note = None,
      created_at = now, started_at = None, finished_at = None, error_summary = None,
      request_id = rid, lease_owner = None, lease_expires_at = None, heartbeat_at = None,
      attempt_count = 0\<rparr>"

text \<open>The insert is refused by the primary key and by the partial unique index on the
  operation of active jobs.\<close>

definition insert_job :: "job \<Rightarrow> job_table \<Rightarrow> job_error + job_table" where
  "insert_job row tbl =
     (if \<exists>j \<in> set tbl. job_id j = job_id row then Inl IntegrityError
      else if status row \<in> set ACTIVE_JOB_STATUSES \<and>
        (\<exists>j \<in> set tbl. operation j = operation row \<and> status j \<in> set ACTIVE_JOB_STATUSES)
      then Inl IntegrityError
      else Inr (tbl @ [row]))"

definition check_start :: "job_service \<Rightarrow> string \<Rightarrow> job_table \<Rightarrow> job_error + unit" where
  "check_start svc op tbl =
     (if op \<notin> set KNOWN_REFRESH_OPERATIONS
      then Inl (InvalidInputError ''Unsupported data refresh operation.'')
      else if \<not> handler_for svc op
      then Inl (InvalidInputError ''The data refresh operation is unavailable.'')
      else case active_job op tbl of
        Some j \<Rightarrow> Inl (DuplicateOperationError op (ActiveJob (job_id j)))
      | None \<Rightarrow> Inr ())"

definition add_job ::
  "string \<Rightarrow> string \<Rightarrow> instant \<Rightarrow> string option \<Rightarrow> job_table \<Rightarrow> job_error + job_table" where
  "add_job jid op now rid tbl =
     (case insert_job (queued_row jid op now rid) tbl of
        Inl _ \<Rightarrow> Inl (DuplicateOperationError op DatabaseConstraint)
      | Inr tbl' \<Rightarrow> Inr tbl')"

definition get_job :: "string \<Rightarrow> job_table \<Rightarrow> job_error + job" where
  "get_job jid tbl =
     (case find (\<lambda>j. job_id j = jid) tbl of
        None \<Rightarrow> Inl (ResourceNotFoundError jid)
      | Some j \<Rightarrow> Inr j)"

section \<open>Claiming\<close>

definition stale_running :: "instant \<Rightarrow> job \<Rightarrow> bool" where
  "stale_running now j \<longleftrightarrow> status j = Running \<and>
     (case lease_expires_at j of None \<Rightarrow> True | Some t \<Rightarrow> t \<le> now)"

definition claimable :: "instant \<Rightarrow> job \<Rightarrow> bool" where
  "claimable now j \<longleftrightarrow> status j = Queued \<or> stale_running now j"

definition exhaust_row :: "instant \<Rightarrow> job \<Rightarrow> job" where
  "exhaust_row now j =
     j\<lparr>status := Failed, finished_at := Some now,
       error_summary := Some EXHAUSTED_ATTEMPTS_SUMMARY, lease_owner := None,
       lease_expires_at := None, heartbeat_at := None\<rparr>"

definition claim_row :: "job_service \<Rightarrow> instant \<Rightarrow> job \<Rightarrow> job" where
  "claim_row svc now j =
     j\<lparr>status := Running,
       started_at := (case started_at j of None \<Rightarrow> Some now | Some t \<Rightarrow> Some t),
       lease_owner := Some (svc_owner svc), lease_expires_at := Some (now + lease_us svc),
       heartbeat_at := Some now, attempt_count := attempt_count j + 1,
       progress_note := Some ''Running''\<rparr>"

text \<open>\<open>_claim\<close>. \<open>up\<close> is whether the database answers (an \<open>OperationalError\<close> otherwise, which
  leaves the table as it was).\<close>

definition claim ::
  "bool \<Rightarrow> job_service \<Rightarrow> string \<Rightarrow> instant \<Rightarrow> job_table
     \<Rightarrow> (job_error + ClaimedJob option) \<times> job_table" where
  "claim up svc jid now tbl =
     (if \<not> up then (Inr None, tbl)
      else
        let exhausted = (\<lambda>j. job_id j = jid \<and> stale_running now j
                              \<and> MAX_REFRESH_ATTEMPTS \<le> attempt_count j);
            tbl1 = update_where exhausted (exhaust_row now) tbl;
            condition = (\<lambda>j. job_id j = jid \<and> claimable now j);
            tbl2 = update_where condition (claim_row svc now) tbl1
        in if row_count exhausted tbl = 1 then (Inr None, tbl1)
           else if row_count condition tbl1 \<noteq> 1 then (Inr None, tbl)
           else case filter (\<lambda>j. job_id j = jid \<and> status j = Running
                                  \<and> lease_owner j = Some (svc_owner svc)) tbl2 of
                  [j] \<Rightarrow> (Inr (Some (ClaimedJob jid (svc_owner svc) (attempt_count j))), tbl2)
                | _ \<Rightarrow> (Inl ResultCountError, tbl))"

section \<open>The owner's operations\<close>

definition owned_lease_condition :: "ClaimedJob \<Rightarrow> instant \<Rightarrow> job \<Rightarrow> bool" where
  "owned_lease_condition c now j \<longleftrightarrow>
     job_id j = cj_job_id c \<and> status j = Running \<and> lease_owner j = Some (cj_owner c)
     \<and> attempt_count j = cj_attempt_count c
     \<and> (case lease_expires_at j of None \<Rightarrow> False | Some t \<Rightarrow> now < t)"

definition owned_job :: "ClaimedJob \<Rightarrow> instant \<Rightarrow> job_table \<Rightarrow> job option" where
  "owned_job c now tbl = find (owned_lease_condition c now) tbl"

definition renew_row :: "job_service \<Rightarrow> instant \<Rightarrow> job \<Rightarrow> job" where
  "renew_row svc now j = j\<lparr>lease_expires_at := Some (now + lease_us svc), heartbeat_at := Some now\<rparr>"

definition renew_lease ::
  "job_service \<Rightarrow> ClaimedJob \<Rightarrow> instant \<Rightarrow> job_table \<Rightarrow> bool \<times> job_table" where
  "renew_lease svc c now tbl =
     (row_count (owned_lease_condition c now) tbl = 1,
      update_where (owned_lease_condition c now) (renew_row svc now) tbl)"

text \<open>\<open>_update_owned\<close>: an update that must hit exactly one row.\<close>

definition update_owned ::
  "ClaimedJob \<Rightarrow> instant \<Rightarrow> (job \<Rightarrow> job) \<Rightarrow> job_table \<Rightarrow> job_error + job_table" where
  "update_owned c now f tbl =
     (if row_count (owned_lease_condition c now) tbl = 1
      then Inr (update_where (owned_lease_condition c now) f tbl)
      else Inl StaleLeaseError)"

definition bound_progress :: "rat \<Rightarrow> rat" where
  "bound_progress p = max 0 (min p 1)"

definition progress_row :: "job_service \<Rightarrow> instant \<Rightarrow> rat \<Rightarrow> string option \<Rightarrow> job \<Rightarrow> job" where
  "progress_row svc now p note j =
     j\<lparr>progress := (if progress j < bound_progress p then bound_progress p else progress j),
       progress_note := note, heartbeat_at := Some now,
       lease_expires_at := Some (now + lease_us svc)\<rparr>"

definition update_owned_progress ::
  "job_service \<Rightarrow> ClaimedJob \<Rightarrow> instant \<Rightarrow> rat \<Rightarrow> string option \<Rightarrow> job_table
     \<Rightarrow> job_error + job_table" where
  "update_owned_progress svc c now p note tbl = update_owned c now (progress_row svc now p note) tbl"

definition publication_fence ::
  "job_service \<Rightarrow> ClaimedJob \<Rightarrow> instant \<Rightarrow> job_table \<Rightarrow> job_error + job_table" where
  "publication_fence svc c now tbl = update_owned c now (renew_row svc now) tbl"

definition finish_row :: "instant \<Rightarrow> job \<Rightarrow> job" where
  "finish_row ts j =
     j\<lparr>status := Succeeded, finished_at := Some ts, progress := 1,
       progress_note := Some ''Completed'', lease_owner := None, lease_expires_at := None,
       heartbeat_at := None, error_summary := None\<rparr>"

text \<open>\<open>_finish\<close> reads the clock twice: for \<open>finished_at\<close>, and for the lease condition.\<close>

definition finish :: "ClaimedJob \<Rightarrow> instant \<Rightarrow> instant \<Rightarrow> job_table \<Rightarrow> job_error + job_table" where
  "finish c ts now tbl = update_owned c now (finish_row ts) tbl"

definition fail_row :: "instant \<Rightarrow> string \<Rightarrow> job \<Rightarrow> job" where
  "fail_row ts summary j =
     j\<lparr>status := Failed, finished_at := Some ts, error_summary := Some summary,
       lease_owner := None, lease_expires_at := None, heartbeat_at := None\<rparr>"

text \<open>\<open>_fail\<close> swallows the refusal of a lost lease.\<close>

definition fail :: "ClaimedJob \<Rightarrow> job_error \<Rightarrow> instant \<Rightarrow> instant \<Rightarrow> job_table \<Rightarrow> job_table" where
  "fail c e ts now tbl =
     (case update_owned c now (fail_row ts (failure_summary e)) tbl of
        Inl _ \<Rightarrow> tbl
      | Inr tbl' \<Rightarrow> tbl')"

text \<open>\<open>update_progress\<close>, the public entry: owner-checked when an owner is given (and not
  empty), unchecked otherwise.\<close>

definition update_job :: "string \<Rightarrow> (job \<Rightarrow> job) \<Rightarrow> job_table \<Rightarrow> job_table" where
  "update_job jid f tbl = update_where (\<lambda>j. job_id j = jid) f tbl"

definition update_progress ::
  "job_service \<Rightarrow> string \<Rightarrow> rat \<Rightarrow> string option \<Rightarrow> string option \<Rightarrow> nat option \<Rightarrow> instant
     \<Rightarrow> job_table \<Rightarrow> job_error + job_table" where
  "update_progress svc jid p note owner attempt now tbl =
     (if owner \<noteq> None \<and> owner \<noteq> Some []
      then (case attempt of
              None \<Rightarrow> Inl StaleLeaseError
            | Some a \<Rightarrow> update_owned_progress svc (ClaimedJob jid (the owner) a) now p note tbl)
      else Inr (update_job jid (\<lambda>j. j\<lparr>progress := bound_progress p, progress_note := note\<rparr>) tbl))"

text \<open>The heartbeat thread: one beat per interval until the job ends (the end of the list) or
  the lease is lost. A beat whose database call fails is skipped.\<close>

fun heartbeat_loop ::
  "job_service \<Rightarrow> ClaimedJob \<Rightarrow> (instant \<times> bool) list \<Rightarrow> job_table \<Rightarrow> job_table" where
  "heartbeat_loop svc c [] tbl = tbl"
| "heartbeat_loop svc c ((now, up) # beats) tbl =
     (if \<not> up then heartbeat_loop svc c beats tbl
      else case renew_lease svc c now tbl of
             (True, tbl') \<Rightarrow> heartbeat_loop svc c beats tbl'
           | (False, tbl') \<Rightarrow> tbl')"

section \<open>Running a claim\<close>

datatype handler_call = Report instant rat "string option" | Publish instant

datatype handler_end = Returned bool | Raised job_error

text \<open>A handler that does not catch what its callbacks raise.\<close>

fun run_handler ::
  "job_service \<Rightarrow> ClaimedJob \<Rightarrow> handler_call list \<Rightarrow> handler_end \<Rightarrow> job_table
     \<Rightarrow> handler_end \<times> job_table" where
  "run_handler svc c [] end_with tbl = (end_with, tbl)"
| "run_handler svc c (Report now p note # calls) end_with tbl =
     (case update_owned_progress svc c now p note tbl of
        Inl e \<Rightarrow> (Raised e, tbl)
      | Inr tbl' \<Rightarrow> run_handler svc c calls end_with tbl')"
| "run_handler svc c (Publish now # calls) end_with tbl =
     (case publication_fence svc c now tbl of
        Inl e \<Rightarrow> (Raised e, tbl)
      | Inr tbl' \<Rightarrow> run_handler svc c calls end_with tbl')"

text \<open>\<open>_run_claimed\<close>. \<open>t0\<close> is the reading of the ownership check, \<open>(a, b)\<close> the readings of
  \<open>_finish\<close> and \<open>(a', b')\<close> those of \<open>_fail\<close>; a returned \<open>False\<close> is a failure.\<close>

definition run_claimed ::
  "job_service \<Rightarrow> ClaimedJob \<Rightarrow> instant \<Rightarrow> handler_call list \<Rightarrow> handler_end
     \<Rightarrow> instant \<times> instant \<Rightarrow> instant \<times> instant \<Rightarrow> job_table \<Rightarrow> job_table" where
  "run_claimed svc c t0 calls end_with fin bad tbl =
     (case owned_job c t0 tbl of
        None \<Rightarrow> tbl
      | Some j \<Rightarrow>
          (if \<not> handler_for svc (operation j)
           then fail c (RuntimeError ''No registered handler for refresh operation'')
                  (fst bad) (snd bad) tbl
           else case run_handler svc c calls end_with tbl of
                  (Raised e, tbl') \<Rightarrow> fail c e (fst bad) (snd bad) tbl'
                | (Returned False, tbl') \<Rightarrow> fail c OperationFailedError (fst bad) (snd bad) tbl'
                | (Returned True, tbl') \<Rightarrow>
                    (case finish c (fst fin) (snd fin) tbl' of
                       Inl e \<Rightarrow> fail c e (fst bad) (snd bad) tbl'
                     | Inr tbl'' \<Rightarrow> tbl'')))"

section \<open>Dispatching\<close>

definition available_capacity :: "job_service \<Rightarrow> int" where
  "available_capacity svc = max (worker_limit svc - submitted svc) 0"

definition release_slot :: "job_service \<Rightarrow> job_service" where
  "release_slot svc = svc\<lparr>submitted := max (submitted svc - 1) 0\<rparr>"

text \<open>\<open>_submit_claimed\<close> to the service's own thread pool, which refuses work once shut down.\<close>

definition submit_claimed :: "ClaimedJob \<Rightarrow> job_service \<Rightarrow> (job_error + unit) \<times> job_service" where
  "submit_claimed c svc =
     (let svc1 = svc\<lparr>submitted := submitted svc + 1\<rparr>
      in if svc_shutdown svc
         then (Inl (RuntimeError ''cannot schedule new futures after shutdown''), release_slot svc1)
         else (Inr (), svc1\<lparr>pool := pool svc1 @ [c]\<rparr>))"

definition candidates :: "instant \<Rightarrow> nat \<Rightarrow> job_table \<Rightarrow> string list" where
  "candidates now capacity tbl =
     take capacity (map job_id (sort_key created_at (filter (claimable now) tbl)))"

fun dispatch_loop ::
  "bool \<Rightarrow> instant \<Rightarrow> string list \<Rightarrow> nat \<Rightarrow> job_service \<Rightarrow> job_table
     \<Rightarrow> (job_error + nat) \<times> job_service \<times> job_table" where
  "dispatch_loop up now [] n svc tbl = (Inr n, svc, tbl)"
| "dispatch_loop up now (jid # jids) n svc tbl =
     (case claim up svc jid now tbl of
        (Inl e, tbl1) \<Rightarrow> (Inl e, svc, tbl1)
      | (Inr None, tbl1) \<Rightarrow> dispatch_loop up now jids n svc tbl1
      | (Inr (Some c), tbl1) \<Rightarrow>
          (case submit_claimed c svc of
             (Inl e, svc1) \<Rightarrow> (Inl e, svc1, tbl1)
           | (Inr _, svc1) \<Rightarrow> dispatch_loop up now jids (n + 1) svc1 tbl1))"

definition dispatch_once ::
  "bool \<Rightarrow> instant \<Rightarrow> int option \<Rightarrow> job_service \<Rightarrow> job_table
     \<Rightarrow> (job_error + nat) \<times> job_service \<times> job_table" where
  "dispatch_once up now limit svc tbl =
     (let capacity = (case limit of None \<Rightarrow> available_capacity svc
                      | Some l \<Rightarrow> min (available_capacity svc) (max l 0))
      in if capacity \<le> 0 then (Inr 0, svc, tbl)
         else if \<not> up then (Inr 0, svc, tbl)
         else dispatch_loop up now (candidates now (nat capacity) tbl) 0 svc tbl)"

text \<open>\<open>start\<close>: the checks, the insert, and a dispatch whose exception reaches the caller.\<close>

definition start ::
  "bool \<Rightarrow> string \<Rightarrow> string \<Rightarrow> instant \<Rightarrow> instant \<Rightarrow> string option \<Rightarrow> job_service \<Rightarrow> job_table
     \<Rightarrow> (job_error + job) \<times> job_service \<times> job_table" where
  "start up jid op now now' rid svc tbl =
     (case check_start svc op tbl of
        Inl e \<Rightarrow> (Inl e, svc, tbl)
      | Inr _ \<Rightarrow>
          (case add_job jid op now rid tbl of
             Inl e \<Rightarrow> (Inl e, svc, tbl)
           | Inr tbl1 \<Rightarrow>
               (case dispatch_once up now' None svc tbl1 of
                  (Inl e, svc2, tbl2) \<Rightarrow> (Inl e, svc2, tbl2)
                | (Inr _, svc2, tbl2) \<Rightarrow> (Inr (queued_row jid op now rid), svc2, tbl2))))"

text \<open>\<open>start_dispatcher\<close> in process \<open>pid\<close>; a dispatch refused by the database is only logged.\<close>

definition start_dispatcher ::
  "bool \<Rightarrow> int \<Rightarrow> string \<Rightarrow> instant \<Rightarrow> job_service \<Rightarrow> job_table
     \<Rightarrow> (job_error + unit) \<times> job_service \<times> job_table" where
  "start_dispatcher up pid owner now svc tbl =
     (if dispatcher_pid svc = Some pid then (Inr (), svc, tbl)
      else if dispatcher_pid svc \<noteq> None
      then (Inl (RuntimeError ''The data refresh dispatcher was started before fork''), svc, tbl)
      else
        let svc1 = svc\<lparr>dispatcher_pid := Some pid, svc_owner := owner\<rparr>;
            (r, svc2, tbl2) = (if dispatch_on_startup svc1 then dispatch_once up now None svc1 tbl
                               else (Inr 0, svc1, tbl))
        in case r of
             Inl (RuntimeError m) \<Rightarrow> (Inl (RuntimeError m), svc2, tbl2)
           | _ \<Rightarrow> (Inr (), (if start_poller svc2 then svc2\<lparr>poller := True\<rparr> else svc2), tbl2))"

definition shutdown_service :: "job_service \<Rightarrow> job_service" where
  "shutdown_service svc = (if svc_shutdown svc then svc else svc\<lparr>svc_shutdown := True\<rparr>)"

section \<open>Steps of the whole system\<close>

text \<open>Any number of processes share the table; each step is one of their database sessions, at
  whatever time their own clock shows.\<close>

inductive job_step :: "job_table \<Rightarrow> job_table \<Rightarrow> bool" where
  step_add: "add_job jid op now rid tbl = Inr tbl' \<Longrightarrow> job_step tbl tbl'"
| step_claim: "claim up svc jid now tbl = (r, tbl') \<Longrightarrow> job_step tbl tbl'"
| step_renew: "renew_lease svc c now tbl = (b, tbl') \<Longrightarrow> job_step tbl tbl'"
| step_progress: "update_owned_progress svc c now p note tbl = Inr tbl' \<Longrightarrow> job_step tbl tbl'"
| step_fence: "publication_fence svc c now tbl = Inr tbl' \<Longrightarrow> job_step tbl tbl'"
| step_finish: "finish c ts now tbl = Inr tbl' \<Longrightarrow> job_step tbl tbl'"
| step_fail: "fail c e ts now tbl = tbl' \<Longrightarrow> job_step tbl tbl'"

inductive job_reachable :: "job_table \<Rightarrow> bool" where
  reach_empty: "job_reachable []"
| reach_step: "job_reachable tbl \<Longrightarrow> job_step tbl tbl' \<Longrightarrow> job_reachable tbl'"

text \<open>What a row of each status carries.\<close>

definition wf_job :: "job \<Rightarrow> bool" where
  "wf_job j \<longleftrightarrow> 0 \<le> progress j \<and> progress j \<le> 1 \<and>
     (case status j of
        Queued \<Rightarrow> attempt_count j = 0 \<and> started_at j = None \<and> finished_at j = None
          \<and> lease_owner j = None \<and> lease_expires_at j = None \<and> heartbeat_at j = None
      | Running \<Rightarrow> 1 \<le> attempt_count j \<and> attempt_count j \<le> MAX_REFRESH_ATTEMPTS
          \<and> started_at j \<noteq> None \<and> finished_at j = None \<and> lease_owner j \<noteq> None
          \<and> lease_expires_at j \<noteq> None \<and> heartbeat_at j \<noteq> None
      | _ \<Rightarrow> 1 \<le> attempt_count j \<and> attempt_count j \<le> MAX_REFRESH_ATTEMPTS
          \<and> started_at j \<noteq> None \<and> finished_at j \<noteq> None \<and> lease_owner j = None
          \<and> lease_expires_at j = None \<and> heartbeat_at j = None)"

definition is_active :: "job \<Rightarrow> bool" where
  "is_active j \<longleftrightarrow> status j \<in> set ACTIVE_JOB_STATUSES"

definition wf_jobs :: "job_table \<Rightarrow> bool" where
  "wf_jobs tbl \<longleftrightarrow> distinct (map job_id tbl)
     \<and> distinct (map operation (filter is_active tbl)) \<and> (\<forall>j \<in> set tbl. wf_job j)"


section \<open>The table as a map from job ids to rows\<close>

definition row_of :: "job_table \<Rightarrow> string \<Rightarrow> job option" where
  "row_of tbl jid = find (\<lambda>j. job_id j = jid) tbl"

lemmas row_defs = exhaust_row_def claim_row_def renew_row_def progress_row_def finish_row_def
  fail_row_def

lemma row_ids [simp]:
  "job_id (exhaust_row t j) = job_id j" "job_id (claim_row svc t j) = job_id j"
  "job_id (renew_row svc t j) = job_id j" "job_id (progress_row svc t p n j) = job_id j"
  "job_id (finish_row t j) = job_id j" "job_id (fail_row t m j) = job_id j"
  by (simp_all add: row_defs)

lemma row_operations [simp]:
  "operation (exhaust_row t j) = operation j" "operation (claim_row svc t j) = operation j"
  "operation (renew_row svc t j) = operation j" "operation (progress_row svc t p n j) = operation j"
  "operation (finish_row t j) = operation j" "operation (fail_row t m j) = operation j"
  by (simp_all add: row_defs)

lemma row_attempts [simp]:
  "attempt_count (exhaust_row t j) = attempt_count j"
  "attempt_count (claim_row svc t j) = Suc (attempt_count j)"
  "attempt_count (renew_row svc t j) = attempt_count j"
  "attempt_count (progress_row svc t p n j) = attempt_count j"
  "attempt_count (finish_row t j) = attempt_count j"
  "attempt_count (fail_row t m j) = attempt_count j"
  by (simp_all add: row_defs)

lemma row_of_Nil [simp]: "row_of [] jid = None"
  by (simp add: row_of_def)

lemma row_of_Cons: "row_of (j # tbl) jid = (if job_id j = jid then Some j else row_of tbl jid)"
  by (simp add: row_of_def)

lemma row_of_append:
  "row_of (tbl @ tbl') jid = (case row_of tbl jid of None \<Rightarrow> row_of tbl' jid | Some j \<Rightarrow> Some j)"
  by (induction tbl) (auto simp: row_of_Cons)

lemma row_of_SomeD: "row_of tbl jid = Some j \<Longrightarrow> j \<in> set tbl \<and> job_id j = jid"
  by (induction tbl) (auto simp: row_of_Cons split: if_splits)

lemma row_of_None_iff: "row_of tbl jid = None \<longleftrightarrow> jid \<notin> job_id ` set tbl"
  by (induction tbl) (auto simp: row_of_Cons)

lemma row_of_in: "distinct (map job_id tbl) \<Longrightarrow> j \<in> set tbl \<Longrightarrow> row_of tbl (job_id j) = Some j"
  by (induction tbl) (auto simp: row_of_Cons)

lemma row_of_update:
  assumes "\<And>j. job_id (f j) = job_id j"
  shows "row_of (update_where p f tbl) jid
         = map_option (\<lambda>j. if p j then f j else j) (row_of tbl jid)"
  by (induction tbl) (auto simp: row_of_Cons update_where_def assms)

lemma row_count_keyed:
  assumes "distinct (map job_id tbl)"
  shows "row_count (\<lambda>j. job_id j = jid \<and> p j) tbl = 1
         \<longleftrightarrow> (\<exists>j. row_of tbl jid = Some j \<and> p j)"
proof -
  have "row_count (\<lambda>j. job_id j = jid \<and> p j) tbl = 1
        \<longleftrightarrow> (\<exists>j \<in> set tbl. job_id j = jid \<and> p j)"
    by (rule row_count_key_1_iff [OF assms, where v = jid]) simp
  then show ?thesis
    using row_of_in [OF assms] by (auto dest: row_of_SomeD)
qed

lemma row_count_keyed_0:
  assumes "distinct (map job_id tbl)"
    and "\<not> (\<exists>j. row_of tbl jid = Some j \<and> p j)"
  shows "row_count (\<lambda>j. job_id j = jid \<and> p j) tbl = 0"
  using assms row_of_in [OF assms(1)] by (auto simp: row_count_0_iff)

text \<open>On a table with distinct ids the conditional updates are map updates.\<close>

lemma update_owned_eq:
  assumes "distinct (map job_id tbl)"
  shows "update_owned c now f tbl =
    (case row_of tbl (cj_job_id c) of
       Some j \<Rightarrow> if owned_lease_condition c now j
                then Inr (update_where (owned_lease_condition c now) f tbl)
                else Inl StaleLeaseError
     | None \<Rightarrow> Inl StaleLeaseError)"
proof -
  have *: "owned_lease_condition c now = (\<lambda>j. job_id j = cj_job_id c \<and> owned_lease_condition c now j)"
    by (auto simp: owned_lease_condition_def)
  show ?thesis
    unfolding update_owned_def
    by (subst (1) *, subst row_count_keyed [OF assms]) (auto split: option.splits)
qed

lemma claim_stale_eq:
  assumes "distinct (map job_id tbl)" and "row_of tbl jid = Some j"
    and "stale_running now j" and "MAX_REFRESH_ATTEMPTS \<le> attempt_count j"
  shows "claim True svc jid now tbl =
    (Inr None, update_where (\<lambda>j. job_id j = jid \<and> stale_running now j
       \<and> MAX_REFRESH_ATTEMPTS \<le> attempt_count j) (exhaust_row now) tbl)"
proof -
  have "row_count (\<lambda>j. job_id j = jid \<and> stale_running now j
       \<and> MAX_REFRESH_ATTEMPTS \<le> attempt_count j) tbl = 1"
    using assms by (subst row_count_keyed) auto
  then show ?thesis by (simp add: claim_def Let_def)
qed

lemma claim_other_eq:
  assumes "distinct (map job_id tbl)"
    and "\<not> (\<exists>j. row_of tbl jid = Some j \<and> stale_running now j
            \<and> MAX_REFRESH_ATTEMPTS \<le> attempt_count j)"
    and "\<not> (\<exists>j. row_of tbl jid = Some j \<and> claimable now j)"
  shows "claim True svc jid now tbl = (Inr None, tbl)"
proof -
  have 0: "row_count (\<lambda>j. job_id j = jid \<and> stale_running now j
       \<and> MAX_REFRESH_ATTEMPTS \<le> attempt_count j) tbl = 0"
    using assms by (intro row_count_keyed_0) auto
  have "row_count (\<lambda>j. job_id j = jid \<and> claimable now j) tbl = 0"
    using assms by (intro row_count_keyed_0) auto
  with 0 show ?thesis by (simp add: claim_def Let_def update_where_none)
qed

lemma filter_keyed:
  assumes "distinct (map job_id tbl)" and "row_of tbl jid = Some j" and "p j"
  shows "filter (\<lambda>j. job_id j = jid \<and> p j) tbl = [j]"
  using assms
proof (induction tbl)
  case (Cons i tbl)
  show ?case
  proof (cases "job_id i = jid")
    case True
    with Cons.prems have "i = j" and "jid \<notin> job_id ` set tbl"
      by (auto simp: row_of_Cons)
    then have "\<forall>k \<in> set tbl. job_id k \<noteq> jid" by auto
    note this and \<open>i = j\<close>
    with True \<open>p j\<close> show ?thesis by (simp add: filter_empty_conv)
  next
    case False
    with Cons show ?thesis by (simp add: row_of_Cons)
  qed
qed simp

lemma claim_fresh_eq:
  assumes d: "distinct (map job_id tbl)" and j: "row_of tbl jid = Some j"
    and "claimable now j" and n: "\<not> (stale_running now j \<and> MAX_REFRESH_ATTEMPTS \<le> attempt_count j)"
  shows "claim True svc jid now tbl =
    (Inr (Some (ClaimedJob jid (svc_owner svc) (Suc (attempt_count j)))),
     update_where (\<lambda>j. job_id j = jid \<and> claimable now j) (claim_row svc now) tbl)"
proof -
  let ?tbl = "update_where (\<lambda>j. job_id j = jid \<and> claimable now j) (claim_row svc now) tbl"
  have 0: "row_count (\<lambda>j. job_id j = jid \<and> stale_running now j
       \<and> MAX_REFRESH_ATTEMPTS \<le> attempt_count j) tbl = 0"
    using d j n by (intro row_count_keyed_0) auto
  have 1: "row_count (\<lambda>j. job_id j = jid \<and> claimable now j) tbl = 1"
    using d j assms(3) by (subst row_count_keyed) auto
  have row: "row_of ?tbl jid = Some (claim_row svc now j)"
    using j assms(3) row_of_SomeD [OF j] by (simp add: row_of_update)
  have "map job_id ?tbl = map job_id tbl"
    by (rule map_key_update_where) simp
  with d have d2: "distinct (map job_id ?tbl)" by simp
  have "filter (\<lambda>j. job_id j = jid \<and> status j = Running
          \<and> lease_owner j = Some (svc_owner svc)) ?tbl = [claim_row svc now j]"
    by (rule filter_keyed [OF d2 row]) (simp add: claim_row_def)
  with 0 1 show ?thesis by (simp add: claim_def Let_def update_where_none)
qed

lemma claim_cases:
  assumes "distinct (map job_id tbl)"
  obtains (none) "claim up svc jid now tbl = (Inr None, tbl)"
      "up \<Longrightarrow> \<not> (\<exists>j. row_of tbl jid = Some j \<and> claimable now j)"
  | (exhausted) j where "row_of tbl jid = Some j" "stale_running now j"
      "MAX_REFRESH_ATTEMPTS \<le> attempt_count j"
      "claim up svc jid now tbl =
        (Inr None, update_where (\<lambda>j. job_id j = jid \<and> stale_running now j
           \<and> MAX_REFRESH_ATTEMPTS \<le> attempt_count j) (exhaust_row now) tbl)"
  | (claimed) j where "row_of tbl jid = Some j" "claimable now j"
      "\<not> (stale_running now j \<and> MAX_REFRESH_ATTEMPTS \<le> attempt_count j)"
      "claim up svc jid now tbl =
        (Inr (Some (ClaimedJob jid (svc_owner svc) (Suc (attempt_count j)))),
         update_where (\<lambda>j. job_id j = jid \<and> claimable now j) (claim_row svc now) tbl)"
proof (cases up)
  case False
  then show thesis by (intro none) (simp_all add: claim_def)
next
  case up: True
  show thesis
  proof (cases "\<exists>j. row_of tbl jid = Some j \<and> claimable now j")
    case True
    then obtain j where j: "row_of tbl jid = Some j" "claimable now j" by blast
    show thesis
    proof (cases "stale_running now j \<and> MAX_REFRESH_ATTEMPTS \<le> attempt_count j")
      case True
      with up j claim_stale_eq [OF assms j(1)] show thesis by (intro exhausted) auto
    next
      case False
      with up claim_fresh_eq [OF assms j False] show thesis by (intro claimed [OF j]) auto
    qed
  next
    case False
    then have "\<not> (\<exists>j. row_of tbl jid = Some j \<and> stale_running now j
        \<and> MAX_REFRESH_ATTEMPTS \<le> attempt_count j)"
      by (auto simp: claimable_def)
    from claim_other_eq [OF assms this False] up have "claim up svc jid now tbl = (Inr None, tbl)"
      by simp
    from none [OF this False] show thesis .
  qed
qed


section \<open>Every step keeps the table well formed\<close>

lemma distinct_active_update:
  assumes "distinct (map operation (filter is_active tbl))"
    and "\<And>j. operation (g j) = operation j" and "\<And>j. is_active (g j) \<Longrightarrow> is_active j"
  shows "distinct (map operation (filter is_active (map g tbl)))"
  using assms
proof (induction tbl)
  case (Cons j tbl)
  have "operation ` {i \<in> set (map g tbl). is_active i} \<subseteq> operation ` {i \<in> set tbl. is_active i}"
    using Cons.prems(2,3) by (auto intro: rev_image_eqI)
  with Cons show ?case by (auto split: if_splits)
qed simp

lemma wf_jobs_update:
  assumes "wf_jobs tbl" and "\<And>j. job_id (f j) = job_id j"
    and "\<And>j. operation (f j) = operation j"
    and "\<And>j. j \<in> set tbl \<Longrightarrow> wf_job j \<Longrightarrow> p j \<Longrightarrow> wf_job (f j)"
    and "\<And>j. p j \<Longrightarrow> is_active j"
  shows "wf_jobs (update_where p f tbl)"
proof -
  have "distinct (map operation (filter is_active (update_where p f tbl)))"
    unfolding update_where_def
    using assms by (intro distinct_active_update) (auto simp: wf_jobs_def split: if_splits)
  moreover have "map job_id (update_where p f tbl) = map job_id tbl"
    using assms(2) by (rule map_key_update_where)
  ultimately show ?thesis
    using assms by (auto simp: wf_jobs_def elim!: in_update_whereE)
qed

lemma owned_active: "owned_lease_condition c now j \<Longrightarrow> is_active j"
  by (simp add: owned_lease_condition_def is_active_def ACTIVE_JOB_STATUSES_def)

lemma claimable_active: "claimable now j \<Longrightarrow> is_active j"
  by (auto simp: claimable_def stale_running_def is_active_def ACTIVE_JOB_STATUSES_def)

lemma bound_progress_range: "0 \<le> bound_progress p" "bound_progress p \<le> 1"
  by (simp_all add: bound_progress_def)

lemma owned_rows_wf:
  assumes "wf_job j" and "owned_lease_condition c now j"
  shows "wf_job (renew_row svc t j)" "wf_job (progress_row svc t p n j)"
    "wf_job (finish_row t j)" "wf_job (fail_row t m j)"
  using assms bound_progress_range [of p]
  by (auto simp: wf_job_def row_defs owned_lease_condition_def)

lemma exhaust_row_wf: "wf_job j \<Longrightarrow> stale_running now j \<Longrightarrow> wf_job (exhaust_row t j)"
  by (auto simp: wf_job_def row_defs stale_running_def)

lemma claim_row_wf:
  "wf_job j \<Longrightarrow> claimable now j \<Longrightarrow> \<not> (stale_running now j \<and> MAX_REFRESH_ATTEMPTS \<le> attempt_count j)
   \<Longrightarrow> wf_job (claim_row svc t j)"
  by (auto simp: wf_job_def row_defs claimable_def stale_running_def MAX_REFRESH_ATTEMPTS_def
      split: option.splits)

lemma update_owned_wf:
  assumes "wf_jobs tbl" and "update_owned c now f tbl = Inr tbl'"
    and "\<And>j. job_id (f j) = job_id j" and "\<And>j. operation (f j) = operation j"
    and "\<And>j. wf_job j \<Longrightarrow> owned_lease_condition c now j \<Longrightarrow> wf_job (f j)"
  shows "wf_jobs tbl'"
proof -
  from assms(2) have tbl': "tbl' = update_where (owned_lease_condition c now) f tbl"
    by (auto simp: update_owned_def split: if_splits)
  show ?thesis
    unfolding tbl' by (rule wf_jobs_update) (use assms owned_active in auto)
qed

lemma renew_lease_wf: "wf_jobs tbl \<Longrightarrow> wf_jobs (snd (renew_lease svc c now tbl))"
  by (auto simp: renew_lease_def intro!: wf_jobs_update intro: owned_rows_wf owned_active)

lemma update_owned_progress_wf:
  "wf_jobs tbl \<Longrightarrow> update_owned_progress svc c now p n tbl = Inr tbl' \<Longrightarrow> wf_jobs tbl'"
  unfolding update_owned_progress_def by (erule (1) update_owned_wf) (auto intro: owned_rows_wf)

lemma publication_fence_wf:
  "wf_jobs tbl \<Longrightarrow> publication_fence svc c now tbl = Inr tbl' \<Longrightarrow> wf_jobs tbl'"
  unfolding publication_fence_def by (erule (1) update_owned_wf) (auto intro: owned_rows_wf)

lemma finish_wf: "wf_jobs tbl \<Longrightarrow> finish c ts now tbl = Inr tbl' \<Longrightarrow> wf_jobs tbl'"
  unfolding finish_def by (erule (1) update_owned_wf) (auto intro: owned_rows_wf)

lemma fail_wf: "wf_jobs tbl \<Longrightarrow> wf_jobs (fail c e ts now tbl)"
  unfolding fail_def
  by (auto split: sum.splits intro: update_owned_wf [OF _ _ _ _ owned_rows_wf(4)])

lemma claim_wf:
  assumes "wf_jobs tbl"
  shows "wf_jobs (snd (claim up svc jid now tbl))"
proof -
  from assms have "distinct (map job_id tbl)" by (simp add: wf_jobs_def)
  then show ?thesis
  proof (cases rule: claim_cases [where up = up and svc = svc and jid = jid and now = now])
    case none
    with assms show ?thesis by simp
  next
    case (exhausted j)
    have "wf_jobs (update_where (\<lambda>j. job_id j = jid \<and> stale_running now j
           \<and> MAX_REFRESH_ATTEMPTS \<le> attempt_count j) (exhaust_row now) tbl)"
      by (rule wf_jobs_update [OF assms])
        (auto intro: exhaust_row_wf claimable_active [of now] simp: claimable_def)
    with exhausted show ?thesis by simp
  next
    case (claimed j)
    have "wf_jobs (update_where (\<lambda>j. job_id j = jid \<and> claimable now j) (claim_row svc now) tbl)"
    proof (rule wf_jobs_update [OF assms])
      fix i assume i: "i \<in> set tbl" "wf_job i" "job_id i = jid \<and> claimable now i"
      with \<open>distinct (map job_id tbl)\<close> claimed(1) have "i = j"
        by (metis option.inject row_of_in)
      with i claimed show "wf_job (claim_row svc now i)" by (auto intro: claim_row_wf)
    qed (auto intro: claimable_active)
    with claimed show ?thesis by simp
  qed
qed

lemma insert_job_wf:
  assumes "wf_jobs tbl" and "insert_job row tbl = Inr tbl'" and "wf_job row"
  shows "wf_jobs tbl'"
proof -
  from assms(2) have tbl': "tbl' = tbl @ [row]" and new: "job_id row \<notin> job_id ` set tbl"
    and act: "is_active row \<Longrightarrow> operation row \<notin> operation ` {j \<in> set tbl. is_active j}"
    by (auto simp: insert_job_def is_active_def split: if_splits)
  with assms(1,3) show ?thesis by (auto simp: wf_jobs_def)
qed

lemma add_job_wf: "wf_jobs tbl \<Longrightarrow> add_job jid op now rid tbl = Inr tbl' \<Longrightarrow> wf_jobs tbl'"
  by (auto simp: add_job_def wf_job_def queued_row_def split: sum.splits
      dest!: insert_job_wf [of tbl "queued_row jid op now rid"])

lemma job_step_wf: "job_step tbl tbl' \<Longrightarrow> wf_jobs tbl \<Longrightarrow> wf_jobs tbl'"
proof (induction rule: job_step.induct)
  case (step_claim up svc jid now tbl r tbl')
  then show ?case using claim_wf [of tbl up svc jid now] by simp
next
  case (step_renew svc c now tbl b tbl')
  then show ?case using renew_lease_wf [of tbl svc c now] by simp
qed (auto intro: add_job_wf update_owned_progress_wf publication_fence_wf finish_wf fail_wf)

lemma job_steps_wf: "job_step\<^sup>*\<^sup>* tbl tbl' \<Longrightarrow> wf_jobs tbl \<Longrightarrow> wf_jobs tbl'"
  by (induction rule: rtranclp_induct) (auto intro: job_step_wf)

lemma job_reachable_wf_jobs: "job_reachable tbl \<Longrightarrow> wf_jobs tbl"
proof (induction rule: job_reachable.induct)
  case reach_empty
  show ?case by (simp add: wf_jobs_def)
qed (rule job_step_wf)

section \<open>Fencing\<close>

definition attempts :: "job_table \<Rightarrow> string \<Rightarrow> nat option" where
  "attempts tbl jid = map_option attempt_count (row_of tbl jid)"

definition holds_lease :: "ClaimedJob \<Rightarrow> instant \<Rightarrow> job_table \<Rightarrow> bool" where
  "holds_lease c now tbl \<longleftrightarrow> wf_jobs tbl \<and> (\<exists>j \<in> set tbl. owned_lease_condition c now j)"

lemma attempts_update:
  assumes "\<And>j. job_id (f j) = job_id j" and "\<And>j. attempt_count j \<le> attempt_count (f j)"
    and "attempts tbl jid = Some n"
  shows "\<exists>m. attempts (update_where p f tbl) jid = Some m \<and> n \<le> m"
proof -
  from assms(3) obtain j where j: "row_of tbl jid = Some j" "n = attempt_count j"
    by (auto simp: attempts_def)
  then have "row_of (update_where p f tbl) jid = Some (if p j then f j else j)"
    by (simp add: row_of_update assms(1))
  with j(2) assms(2) [of j] show ?thesis by (simp add: attempts_def)
qed

lemma attempts_update_owned:
  assumes "update_owned c now f tbl = Inr tbl'"
    and "\<And>j. job_id (f j) = job_id j" and "\<And>j. attempt_count j \<le> attempt_count (f j)"
    and "attempts tbl jid = Some n"
  shows "\<exists>m. attempts tbl' jid = Some m \<and> n \<le> m"
  using assms attempts_update [of f] by (auto simp: update_owned_def split: if_splits)

lemma attempts_claim:
  assumes "attempts tbl i = Some n"
  shows "\<exists>m. attempts (snd (claim up svc jid now tbl)) i = Some m \<and> n \<le> m"
proof -
  let ?ex = "\<lambda>j. job_id j = jid \<and> stale_running now j \<and> MAX_REFRESH_ATTEMPTS \<le> attempt_count j"
  obtain k where k: "attempts (update_where ?ex (exhaust_row now) tbl) i = Some k" "n \<le> k"
    using attempts_update [OF _ _ assms, of "exhaust_row now" ?ex] by auto
  obtain m where "attempts (update_where (\<lambda>j. job_id j = jid \<and> claimable now j)
      (claim_row svc now) (update_where ?ex (exhaust_row now) tbl)) i = Some m" "k \<le> m"
    using attempts_update [OF _ _ k(1), of "claim_row svc now"] by auto
  with k assms show ?thesis
    by (auto simp: claim_def Let_def split: list.splits intro: le_trans)
qed

lemma attempts_step:
  "job_step tbl tbl' \<Longrightarrow> attempts tbl jid = Some n \<Longrightarrow> \<exists>m. attempts tbl' jid = Some m \<and> n \<le> m"
proof (induction rule: job_step.induct)
  case (step_add j op now rid tbl tbl')
  then show ?case
    by (auto simp: add_job_def insert_job_def attempts_def row_of_append
        split: sum.splits if_splits)
next
  case (step_claim up svc j now tbl r tbl')
  then show ?case using attempts_claim [of tbl jid n up svc j now] by simp
next
  case (step_renew svc c now tbl b tbl')
  then show ?case
    using attempts_update [OF _ _ step_renew(2), of "renew_row svc now"]
    by (auto simp: renew_lease_def)
next
  case (step_fail c e ts now tbl tbl')
  then show ?case
    by (auto simp: fail_def split: sum.splits
        dest!: attempts_update_owned [where jid = jid and n = n])
qed (auto simp: update_owned_progress_def publication_fence_def finish_def
    dest!: attempts_update_owned [where jid = jid and n = n])

lemma holds_lease_attempts:
  assumes "holds_lease c now tbl"
  shows "attempts tbl (cj_job_id c) = Some (cj_attempt_count c)"
proof -
  from assms obtain j where "j \<in> set tbl" "distinct (map job_id tbl)"
    and j: "owned_lease_condition c now j"
    by (auto simp: holds_lease_def wf_jobs_def)
  then have "row_of tbl (job_id j) = Some j" by (intro row_of_in)
  with j show ?thesis by (simp add: attempts_def owned_lease_condition_def)
qed

interpretation job_lease: fenced_lease job_step attempts holds_lease cj_job_id cj_attempt_count
  by unfold_locales (blast intro: attempts_step, rule holds_lease_attempts)


section \<open>What the operations do, through the map\<close>

lemma wf_distinct: "wf_jobs tbl \<Longrightarrow> distinct (map job_id tbl)"
  by (simp add: wf_jobs_def)

lemma wf_row: "wf_jobs tbl \<Longrightarrow> row_of tbl jid = Some j \<Longrightarrow> wf_job j \<and> job_id j = jid"
  by (auto simp: wf_jobs_def dest: row_of_SomeD)

lemma not_holding_update_owned:
  assumes "wf_jobs tbl" and "\<not> holds_lease c now tbl"
  shows "update_owned c now f tbl = Inl StaleLeaseError"
  using assms row_count_0_iff [of "owned_lease_condition c now" tbl]
  by (auto simp: update_owned_def holds_lease_def)

lemma not_holding_renew:
  assumes "wf_jobs tbl" and "\<not> holds_lease c now tbl"
  shows "renew_lease svc c now tbl = (False, tbl)"
  using assms row_count_0_iff [of "owned_lease_condition c now" tbl]
  by (auto simp: renew_lease_def holds_lease_def update_where_none)

lemma not_holding_owned_job:
  assumes "wf_jobs tbl" and "\<not> holds_lease c now tbl"
  shows "owned_job c now tbl = None"
  using assms by (auto simp: owned_job_def holds_lease_def find_None_iff)

lemma claim_row_of:
  assumes "wf_jobs tbl" and "0 < lease_us svc" and "claim up svc jid now tbl = (r, tbl')"
  shows "\<exists>q. r = Inr q"
    and "i \<noteq> jid \<Longrightarrow> row_of tbl' i = row_of tbl i"
    and "up \<Longrightarrow> row_of tbl' jid = Some j \<Longrightarrow> \<not> claimable now j"
proof -
  note d = wf_distinct [OF assms(1)]
  have "(\<exists>q. r = Inr q) \<and> (i \<noteq> jid \<longrightarrow> row_of tbl' i = row_of tbl i)
        \<and> (up \<longrightarrow> row_of tbl' jid = Some j \<longrightarrow> \<not> claimable now j)"
    using d
  proof (cases rule: claim_cases [where up = up and svc = svc and jid = jid and now = now])
    case none
    then show ?thesis using assms(3) by auto
  next
    case (exhausted k)
    then show ?thesis
      using assms(3)
      by (cases "row_of tbl i")
        (auto simp: row_of_update claimable_def stale_running_def row_defs dest: row_of_SomeD)
  next
    case (claimed k)
    then show ?thesis
      using assms(2,3)
      by (cases "row_of tbl i")
        (auto simp: row_of_update claimable_def stale_running_def row_defs dest: row_of_SomeD)
  qed
  then show "\<exists>q. r = Inr q" and "i \<noteq> jid \<Longrightarrow> row_of tbl' i = row_of tbl i"
    and "up \<Longrightarrow> row_of tbl' jid = Some j \<Longrightarrow> \<not> claimable now j"
    by blast+
qed

lemma claim_Some_row:
  assumes "wf_jobs tbl" and "claim up svc jid now tbl = (Inr (Some c), tbl')"
  shows "\<exists>j. row_of tbl jid = Some j \<and> claimable now j
    \<and> c = ClaimedJob jid (svc_owner svc) (Suc (attempt_count j))
    \<and> row_of tbl' jid = Some (claim_row svc now j) \<and> attempt_count j < MAX_REFRESH_ATTEMPTS"
  using wf_distinct [OF assms(1)]
proof (cases rule: claim_cases [where up = up and svc = svc and jid = jid and now = now])
  case (claimed j)
  have "attempt_count j < MAX_REFRESH_ATTEMPTS"
    using claimed wf_row [OF assms(1) claimed(1)]
    by (auto simp: claimable_def wf_job_def MAX_REFRESH_ATTEMPTS_def)
  with claimed show ?thesis
    using assms(2) wf_row [OF assms(1) claimed(1)] by (auto simp: row_of_update)
qed (use assms(2) in auto)

lemma superseded_not_holding:
  assumes "job_reachable tbl" and c: "claim up svc jid now tbl = (Inr (Some c), t1)"
    and "job_step\<^sup>*\<^sup>* t1 t2" and d: "claim up' svc' jid now' t2 = (Inr (Some d), t3)"
    and "job_step\<^sup>*\<^sup>* t3 t4"
  shows "cj_attempt_count c < cj_attempt_count d \<and> wf_jobs t4 \<and> (\<forall>t. \<not> holds_lease c t t4)"
proof -
  have wf: "wf_jobs tbl" using assms(1) by (rule job_reachable_wf_jobs)
  have wf1: "wf_jobs t1" using claim_wf [OF wf, of up svc jid now] c by simp
  have wf2: "wf_jobs t2" using job_steps_wf [OF assms(3) wf1] .
  have wf3: "wf_jobs t3" using claim_wf [OF wf2, of up' svc' jid now'] d by simp
  have wf4: "wf_jobs t4" using job_steps_wf [OF assms(5) wf3] .
  from claim_Some_row [OF wf c] have c1: "cj_job_id c = jid" "attempts t1 jid = Some (cj_attempt_count c)"
    by (auto simp: attempts_def)
  from job_lease.counter_mono_star [OF assms(3) c1(2)] obtain m
    where m: "attempts t2 jid = Some m" "cj_attempt_count c \<le> m" by blast
  from claim_Some_row [OF wf2 d] m(1) have d3: "attempts t3 jid = Some (Suc m)" "cj_attempt_count d = Suc m"
    by (auto simp: attempts_def)
  have "\<not> holds_lease c t t4" for t
    using d3 m by (intro job_lease.superseded_forever [OF _ _ assms(5)]) (auto simp: c1(1))
  with m d3 wf4 show ?thesis by simp
qed

section \<open>Properties\<close>

text \<open>
  C23. Every table that the processes can reach from the empty one, whatever their clocks show
  and however their sessions interleave, is well formed: job ids are distinct, at most one
  active job exists per operation, a queued job has no attempt and no lease, a running job has
  between one and three attempts and a complete lease, a finished one has no lease and a
  finishing time, and progress stays between 0 and 1.
\<close>

theorem jobs_invariant: "job_reachable tbl \<Longrightarrow> wf_jobs tbl"
  by (rule job_reachable_wf_jobs)

definition demo_service :: job_service where
  "demo_service = mk_service ''w1'' [''fetch_players''] 60000000 2 True True"

lemma demo_add: "add_job ''j1'' ''fetch_players'' 10 None [] =
  Inr [queued_row ''j1'' ''fetch_players'' 10 None]"
  by (simp add: add_job_def insert_job_def)

definition demo_running :: job_table where
  "demo_running = [claim_row demo_service 20 (queued_row ''j1'' ''fetch_players'' 10 None)]"

lemma demo_claim: "claim True demo_service ''j1'' 20 [queued_row ''j1'' ''fetch_players'' 10 None] =
  (Inr (Some (ClaimedJob ''j1'' ''w1'' 1)), demo_running)"
  by (simp add: claim_def Let_def update_where_def row_count_def stale_running_def claimable_def
      queued_row_def claim_row_def demo_running_def demo_service_def mk_service_def)

lemma demo_queued_reachable: "job_reachable [queued_row ''j1'' ''fetch_players'' 10 None]"
  by (rule reach_step [OF reach_empty step_add [OF demo_add]])

lemma demo_running_reachable: "job_reachable demo_running"
  by (rule reach_step [OF demo_queued_reachable step_claim [OF demo_claim]])

theorem jobs_invariant_witness: "job_reachable demo_running \<and> wf_jobs demo_running"
  using jobs_invariant [OF demo_running_reachable] demo_running_reachable by simp

text \<open>
  C24. Fencing. When a job that some worker claimed is later claimed again (its lease had run
  out), the second claim carries a larger token, and from then on the first worker is shut out
  for good: in every later table its lease renewal fails, its progress reports, its publication
  fence and its completion are refused with a stale-lease error, its failure report changes
  nothing, and starting its work again changes nothing.
\<close>

theorem superseded_claim_fenced:
  assumes "job_reachable tbl" and c: "claim up svc jid now tbl = (Inr (Some c), t1)"
    and "job_step\<^sup>*\<^sup>* t1 t2" and d: "claim up' svc' jid now' t2 = (Inr (Some d), t3)"
    and "job_step\<^sup>*\<^sup>* t3 t4"
  shows "fencing_token c < fencing_token d
    \<and> renew_lease s c at1 t4 = (False, t4)
    \<and> update_owned_progress s c at1 p note t4 = Inl StaleLeaseError
    \<and> publication_fence s c at1 t4 = Inl StaleLeaseError
    \<and> finish c at1 at2 t4 = Inl StaleLeaseError
    \<and> fail c e at1 at2 t4 = t4
    \<and> run_claimed s c at1 calls end_with fin bad t4 = t4"
proof -
  note sup = superseded_not_holding [OF assms]
  then have wf4: "wf_jobs t4" and lost: "\<And>t. \<not> holds_lease c t t4" by blast+
  note refused = not_holding_update_owned [OF wf4 lost]
  show ?thesis
    using sup not_holding_renew [OF wf4 lost] not_holding_owned_job [OF wf4 lost]
    by (simp add: update_owned_progress_def publication_fence_def finish_def fail_def
        run_claimed_def refused fencing_token_def)
qed

definition demo_service2 :: job_service where
  "demo_service2 = mk_service ''w2'' [''fetch_players''] 60000000 2 True True"

definition demo_reclaimed :: job_table where
  "demo_reclaimed = map (claim_row demo_service2 90000000) demo_running"

lemma demo_reclaim: "claim True demo_service2 ''j1'' 90000000 demo_running =
  (Inr (Some (ClaimedJob ''j1'' ''w2'' 2)), demo_reclaimed)"
  by (simp add: claim_def Let_def update_where_def row_count_def stale_running_def claimable_def
      queued_row_def claim_row_def demo_running_def demo_service_def demo_service2_def
      mk_service_def demo_reclaimed_def MAX_REFRESH_ATTEMPTS_def)

theorem superseded_claim_fenced_witness:
  "claim True demo_service ''j1'' 20 [queued_row ''j1'' ''fetch_players'' 10 None] =
     (Inr (Some (ClaimedJob ''j1'' ''w1'' 1)), demo_running)
   \<and> claim True demo_service2 ''j1'' 90000000 demo_running =
     (Inr (Some (ClaimedJob ''j1'' ''w2'' 2)), demo_reclaimed)
   \<and> finish (ClaimedJob ''j1'' ''w1'' 1) 90000001 90000002 demo_reclaimed = Inl StaleLeaseError"
  using demo_claim demo_reclaim
    superseded_claim_fenced [OF demo_queued_reachable demo_claim rtranclp.rtrancl_refl
      demo_reclaim rtranclp.rtrancl_refl]
  by simp


text \<open>
  Each successful claim is one of at most three attempts, goes to a job that was queued or
  whose lease had run out, is owned by the claiming process until exactly the lease length has
  passed, and takes the only active job of its operation.
\<close>

theorem claim_takes_bounded_lease:
  assumes "job_reachable tbl" and c: "claim up svc jid now tbl = (Inr (Some c), tbl')"
  shows "1 \<le> fencing_token c \<and> fencing_token c \<le> MAX_REFRESH_ATTEMPTS
    \<and> (\<exists>j \<in> set tbl. job_id j = jid \<and> claimable now j)
    \<and> (\<exists>j. row_of tbl' jid = Some j
        \<and> (\<forall>t. owned_lease_condition c t j \<longleftrightarrow> t < now + lease_us svc)
        \<and> (\<forall>i \<in> set tbl'. is_active i \<longrightarrow> operation i = operation j \<longrightarrow> i = j))"
proof -
  have wf: "wf_jobs tbl" using assms(1) by (rule job_reachable_wf_jobs)
  have wf': "wf_jobs tbl'" using claim_wf [OF wf, of up svc jid now] c by simp
  from claim_Some_row [OF wf c] obtain j where j: "row_of tbl jid = Some j" "claimable now j"
      "c = ClaimedJob jid (svc_owner svc) (Suc (attempt_count j))"
      "row_of tbl' jid = Some (claim_row svc now j)" "attempt_count j < MAX_REFRESH_ATTEMPTS"
    by blast
  let ?j = "claim_row svc now j"
  have act: "is_active ?j" by (simp add: is_active_def ACTIVE_JOB_STATUSES_def claim_row_def)
  have "\<forall>i \<in> set tbl'. is_active i \<longrightarrow> operation i = operation ?j \<longrightarrow> i = ?j"
  proof (intro ballI impI)
    fix i assume i: "i \<in> set tbl'" "is_active i" "operation i = operation ?j"
    moreover have "?j \<in> set tbl'" using j(4) by (auto dest: row_of_SomeD)
    moreover have "inj_on operation (set (filter is_active tbl'))"
      using wf' by (simp add: wf_jobs_def distinct_map)
    ultimately show "i = ?j" using act inj_onD [of operation _ i ?j] by simp
  qed
  moreover have "\<forall>t. owned_lease_condition c t ?j \<longleftrightarrow> t < now + lease_us svc"
    using j wf_row [OF wf j(1)] by (simp add: owned_lease_condition_def claim_row_def)
  ultimately show ?thesis
    using j row_of_SomeD [OF j(1)] by (auto simp: fencing_token_def)
qed

theorem claim_takes_bounded_lease_witness:
  "claim True demo_service ''j1'' 20 [queued_row ''j1'' ''fetch_players'' 10 None] =
     (Inr (Some (ClaimedJob ''j1'' ''w1'' 1)), demo_running)
   \<and> (\<exists>j. row_of demo_running ''j1'' = Some j
        \<and> (\<forall>t. owned_lease_condition (ClaimedJob ''j1'' ''w1'' 1) t j \<longleftrightarrow> t < 20 + lease_us demo_service))"
  using demo_claim claim_takes_bounded_lease [OF demo_queued_reachable demo_claim] by blast

text \<open>Each operation changes one row; a job that has ended is matched by none of them.\<close>

definition is_ended :: "job \<Rightarrow> bool" where
  "is_ended j \<longleftrightarrow> status j = Succeeded \<or> status j = Failed"

lemma ended_not_active: "is_ended j \<Longrightarrow> \<not> is_active j"
  by (auto simp: is_ended_def is_active_def ACTIVE_JOB_STATUSES_def)

lemma update_keeps_ended:
  assumes "row_of tbl i = Some j" and "is_ended j" and "\<And>j. job_id (f j) = job_id j"
    and "\<And>j. p j \<Longrightarrow> is_active j"
  shows "row_of (update_where p f tbl) i = Some j"
  using assms ended_not_active [OF assms(2)] by (auto simp: row_of_update)

lemma update_owned_keeps_ended:
  assumes "update_owned c now f tbl = Inr tbl'" and "\<And>j. job_id (f j) = job_id j"
    and "row_of tbl i = Some j" and "is_ended j"
  shows "row_of tbl' i = Some j"
  using assms owned_active
  by (auto simp: update_owned_def split: if_splits intro!: update_keeps_ended)

lemma claim_keeps_ended:
  assumes "row_of tbl i = Some j" and "is_ended j" and "wf_jobs tbl"
  shows "row_of (snd (claim up svc jid now tbl)) i = Some j"
  using wf_distinct [OF assms(3)]
proof (cases rule: claim_cases [where up = up and svc = svc and jid = jid and now = now])
  case (exhausted k)
  then show ?thesis
    using claimable_active [of now]
    by (auto simp: claimable_def intro!: update_keeps_ended [OF assms(1,2)])
next
  case (claimed k)
  then show ?thesis
    using claimable_active [of now] by (auto intro!: update_keeps_ended [OF assms(1,2)])
qed (use assms in auto)

lemma job_step_keeps_ended:
  assumes "job_step tbl tbl'" and "wf_jobs tbl" and "row_of tbl i = Some j" and "is_ended j"
  shows "row_of tbl' i = Some j"
  using assms
proof (induction rule: job_step.induct)
  case (step_claim up svc jid now tbl r tbl')
  then show ?case using claim_keeps_ended [of tbl i j up svc jid now] by simp
next
  case (step_renew svc c now tbl b tbl')
  then show ?case
    using update_keeps_ended [of tbl i j "renew_row svc now" "owned_lease_condition c now"]
      owned_active by (auto simp: renew_lease_def)
next
  case (step_fail c e ts now tbl tbl')
  then show ?case
    by (auto simp: fail_def split: sum.splits intro: update_owned_keeps_ended)
next
  case (step_add jid op now rid tbl tbl')
  then show ?case
    by (auto simp: add_job_def insert_job_def row_of_append split: sum.splits if_splits)
qed (auto simp: update_owned_progress_def publication_fence_def finish_def
    intro: update_owned_keeps_ended)

text \<open>
  A job that has succeeded or failed is final: no later step of any process changes its row.
\<close>

theorem ended_job_is_final:
  assumes "job_reachable tbl" and "job_step\<^sup>*\<^sup>* tbl tbl'" and "row_of tbl jid = Some j"
    and "status j = Succeeded \<or> status j = Failed"
  shows "row_of tbl' jid = Some j"
  using assms(2)
proof (induction rule: rtranclp_induct)
  case base
  show ?case by (rule assms(3))
next
  case (step t u)
  have "wf_jobs t" using job_steps_wf [OF step.hyps(1)] job_reachable_wf_jobs [OF assms(1)] by blast
  from job_step_keeps_ended [OF step.hyps(2) this step.IH] assms(4) show ?case
    by (simp add: is_ended_def)
qed

definition demo_done :: job_table where
  "demo_done = map (finish_row 30) demo_running"

lemma demo_finish: "finish (ClaimedJob ''j1'' ''w1'' 1) 30 31 demo_running = Inr demo_done"
  by (simp add: finish_def update_owned_def row_count_def update_where_def owned_lease_condition_def
      demo_running_def demo_done_def claim_row_def queued_row_def demo_service_def mk_service_def)

lemma demo_done_reachable: "job_reachable demo_done"
  by (rule reach_step [OF demo_running_reachable step_finish [OF demo_finish]])

theorem ended_job_is_final_witness:
  "row_of demo_done ''j1'' = Some (hd demo_done) \<and> status (hd demo_done) = Succeeded
   \<and> row_of (snd (claim True demo_service2 ''j1'' 90000000 demo_done)) ''j1'' = Some (hd demo_done)"
proof -
  have h: "row_of demo_done ''j1'' = Some (hd demo_done)" "status (hd demo_done) = Succeeded"
    by (simp_all add: demo_done_def demo_running_def row_of_Cons queued_row_def finish_row_def)
  have "job_step demo_done (snd (claim True demo_service2 ''j1'' 90000000 demo_done))"
    by (rule step_claim) (rule surjective_pairing)
  then have "job_step\<^sup>*\<^sup>* demo_done (snd (claim True demo_service2 ''j1'' 90000000 demo_done))"
    by (rule r_into_rtranclp)
  from ended_job_is_final [OF demo_done_reachable this h(1)] h
  show ?thesis by simp
qed


text \<open>A run is timely when every clock reading comes before the lease, as last extended, ends.\<close>

fun timely :: "int \<Rightarrow> instant \<Rightarrow> handler_call list \<Rightarrow> instant \<Rightarrow> bool" where
  "timely lease ends [] t = (t < ends)"
| "timely lease ends (Report now p note # calls) t = (now < ends \<and> timely lease (now + lease) calls t)"
| "timely lease ends (Publish now # calls) t = (now < ends \<and> timely lease (now + lease) calls t)"

definition leased_until :: "ClaimedJob \<Rightarrow> instant \<Rightarrow> job \<Rightarrow> bool" where
  "leased_until c ends j \<longleftrightarrow> job_id j = cj_job_id c \<and> status j = Running
     \<and> lease_owner j = Some (cj_owner c) \<and> attempt_count j = cj_attempt_count c
     \<and> lease_expires_at j = Some ends"

lemma leased_until_owned: "leased_until c ends j \<Longrightarrow> owned_lease_condition c now j \<longleftrightarrow> now < ends"
  by (simp add: leased_until_def owned_lease_condition_def)

lemma update_owned_leased:
  assumes "wf_jobs tbl" and "row_of tbl (cj_job_id c) = Some j" and "leased_until c ends j"
    and "now < ends" and "\<And>j. job_id (f j) = job_id j"
  shows "\<exists>tbl'. update_owned c now f tbl = Inr tbl' \<and> row_of tbl' (cj_job_id c) = Some (f j)"
  using assms leased_until_owned [OF assms(3), of now]
  by (auto simp: update_owned_eq [OF wf_distinct] row_of_update)

lemma run_handler_timely:
  assumes "wf_jobs tbl" and "row_of tbl (cj_job_id c) = Some j" and "leased_until c ends j"
    and "timely (lease_us svc) ends calls t"
  shows "\<exists>tbl' j' ends'. run_handler svc c calls end_with tbl = (end_with, tbl') \<and> wf_jobs tbl'
    \<and> row_of tbl' (cj_job_id c) = Some j' \<and> leased_until c ends' j' \<and> t < ends'"
  using assms
proof (induction svc c calls end_with tbl arbitrary: j ends rule: run_handler.induct)
  case (1 svc c end_with tbl)
  then show ?case by auto
next
  case (2 svc c now p msg calls end_with tbl)
  then have now: "now < ends" and rest: "timely (lease_us svc) (now + lease_us svc) calls t" by simp_all
  from update_owned_leased [OF "2.prems"(1-3) now, of "progress_row svc now p msg"]
  obtain u where u: "update_owned_progress svc c now p msg tbl = Inr u"
      "row_of u (cj_job_id c) = Some (progress_row svc now p msg j)"
    by (auto simp: update_owned_progress_def)
  have "leased_until c (now + lease_us svc) (progress_row svc now p msg j)"
    using "2.prems"(3) by (simp add: leased_until_def progress_row_def)
  from "2.IH" [OF u(1) update_owned_progress_wf [OF "2.prems"(1) u(1)] u(2) this rest]
  show ?case by (simp add: u(1))
next
  case (3 svc c now calls end_with tbl)
  then have now: "now < ends" and rest: "timely (lease_us svc) (now + lease_us svc) calls t" by simp_all
  from update_owned_leased [OF "3.prems"(1-3) now, of "renew_row svc now"]
  obtain u where u: "publication_fence svc c now tbl = Inr u"
      "row_of u (cj_job_id c) = Some (renew_row svc now j)"
    by (auto simp: publication_fence_def)
  have "leased_until c (now + lease_us svc) (renew_row svc now j)"
    using "3.prems"(3) by (simp add: leased_until_def renew_row_def)
  from "3.IH" [OF u(1) publication_fence_wf [OF "3.prems"(1) u(1)] u(2) this rest]
  show ?case by (simp add: u(1))
qed

lemma owned_job_leased:
  assumes "wf_jobs tbl" and "row_of tbl (cj_job_id c) = Some j" and "leased_until c ends j" and "t < ends"
  shows "owned_job c t tbl = Some j"
proof -
  have "owned_lease_condition c t j" using assms by (simp add: leased_until_owned)
  moreover have "i = j" if "i \<in> set tbl" "owned_lease_condition c t i" for i
    using that assms(2) row_of_in [OF wf_distinct [OF assms(1)], of i]
    by (simp add: owned_lease_condition_def)
  ultimately show ?thesis
    using row_of_SomeD [OF assms(2)] unfolding owned_job_def by (intro find_unique) auto
qed

text \<open>
  C25. A run that keeps its lease records its outcome: if every callback and the final update of
  a claimed job with a registered handler happen before the lease (extended by each callback)
  ends, then a handler that returns leaves its job succeeded with full progress, and one that
  returns False or raises leaves it failed with the summary of the error; the lease is given up
  in both cases.
\<close>

theorem timely_run_is_recorded:
  assumes "job_reachable tbl" and "row_of tbl (cj_job_id c) = Some j" and "leased_until c ends j"
    and "t0 < ends" and "handler_for svc (operation j)"
    and "timely (lease_us svc) ends calls (if end_with = Returned True then snd fin else snd bad)"
  shows "\<exists>j'. row_of (run_claimed svc c t0 calls end_with fin bad tbl) (cj_job_id c) = Some j'
    \<and> lease_owner j' = None
    \<and> (case end_with of
         Returned True \<Rightarrow> status j' = Succeeded \<and> progress j' = 1 \<and> finished_at j' = Some (fst fin)
       | Returned False \<Rightarrow> status j' = Failed \<and> finished_at j' = Some (fst bad)
           \<and> error_summary j' = Some (failure_summary OperationFailedError)
       | Raised e \<Rightarrow> status j' = Failed \<and> finished_at j' = Some (fst bad)
           \<and> error_summary j' = Some (failure_summary e))"
proof -
  have wf: "wf_jobs tbl" using assms(1) by (rule job_reachable_wf_jobs)
  from run_handler_timely [OF wf assms(2,3,6)] obtain u k ends'
    where u: "run_handler svc c calls end_with tbl = (end_with, u)" "wf_jobs u"
      "row_of u (cj_job_id c) = Some k" "leased_until c ends' k"
      "(if end_with = Returned True then snd fin else snd bad) < ends'" by metis
  have start: "owned_job c t0 tbl = Some j" by (rule owned_job_leased [OF wf assms(2-4)])
  note upd = update_owned_leased [OF u(2-4)]
  have failed: "\<exists>j'. row_of (fail c e (fst bad) (snd bad) u) (cj_job_id c) = Some j'
      \<and> lease_owner j' = None \<and> status j' = Failed \<and> finished_at j' = Some (fst bad)
      \<and> error_summary j' = Some (failure_summary e)" if "end_with \<noteq> Returned True" for e
    using upd [of "snd bad" "fail_row (fst bad) (failure_summary e)"] u(5) that
    by (auto simp: fail_def fail_row_def)
  have finished: "\<exists>v. finish c (fst fin) (snd fin) u = Inr v
      \<and> row_of v (cj_job_id c) = Some (finish_row (fst fin) k)" if "end_with = Returned True"
    using upd [of "snd fin" "finish_row (fst fin)"] u(5) that by (auto simp: finish_def)
  show ?thesis
  proof (cases end_with)
    case (Returned b)
    with finished failed [of OperationFailedError] start u(1) assms(5) show ?thesis
      by (cases b) (auto simp: run_claimed_def finish_row_def)
  next
    case (Raised e)
    with failed [of e] start u(1) assms(5) show ?thesis by (auto simp: run_claimed_def)
  qed
qed

theorem timely_run_is_recorded_witness:
  "\<exists>j'. row_of (run_claimed demo_service (ClaimedJob ''j1'' ''w1'' 1) 25
        [Report 30 (1/2) None, Publish 40] (Returned True) (50, 51) (52, 53) demo_running) ''j1''
      = Some j' \<and> status j' = Succeeded \<and> progress j' = 1"
proof -
  let ?j = "claim_row demo_service 20 (queued_row ''j1'' ''fetch_players'' 10 None)"
  have 1: "row_of demo_running (cj_job_id (ClaimedJob ''j1'' ''w1'' 1)) = Some ?j"
    by (simp add: demo_running_def row_of_Cons queued_row_def)
  have 2: "leased_until (ClaimedJob ''j1'' ''w1'' 1) 60000020 ?j"
    by (simp add: leased_until_def claim_row_def queued_row_def demo_service_def mk_service_def)
  have 3: "handler_for demo_service (operation ?j)"
    by (simp add: handler_for_def demo_service_def mk_service_def queued_row_def)
  have 4: "timely (lease_us demo_service) 60000020 [Report 30 (1/2) None, Publish 40]
      (if Returned True = Returned True then snd (50, 51) else snd (52::int, 53::int))"
    by (simp add: demo_service_def mk_service_def)
  from timely_run_is_recorded [OF demo_running_reachable 1 2 _ 3 4, of 25] show ?thesis by auto
qed

text \<open>The loop of a dispatch: each listed job is left unclaimable, the others as they were.\<close>

lemma dispatch_loop_effect:
  assumes "wf_jobs tbl" and "0 < lease_us svc" and "\<not> svc_shutdown svc"
  shows "\<exists>m svc' tbl'. dispatch_loop True now jids n svc tbl = (Inr (n + m), svc', tbl')
    \<and> m \<le> length jids \<and> submitted svc' = submitted svc + int m
    \<and> worker_limit svc' = worker_limit svc \<and> wf_jobs tbl'
    \<and> (\<forall>i. i \<notin> set jids \<longrightarrow> row_of tbl' i = row_of tbl i)
    \<and> (\<forall>i \<in> set jids. \<forall>j. row_of tbl' i = Some j \<longrightarrow> \<not> claimable now j)"
  using assms
proof (induction jids arbitrary: n svc tbl)
  case (Cons jid jids)
  obtain r u where cl: "claim True svc jid now tbl = (r, u)" by fastforce
  note row = claim_row_of [OF Cons.prems(1,2) cl]
  have wfu: "wf_jobs u" using claim_wf [OF Cons.prems(1), of True svc jid now] cl by simp
  from row(1) obtain q where q: "r = Inr q" by blast
  show ?case
  proof (cases q)
    case None
    from Cons.IH [OF wfu Cons.prems(2,3), of n] obtain m s' t' where
      "dispatch_loop True now jids n svc u = (Inr (n + m), s', t')" "m \<le> length jids"
      "submitted s' = submitted svc + int m" "worker_limit s' = worker_limit svc" "wf_jobs t'"
      "\<forall>i. i \<notin> set jids \<longrightarrow> row_of t' i = row_of u i"
      "\<forall>i \<in> set jids. \<forall>j. row_of t' i = Some j \<longrightarrow> \<not> claimable now j" by blast
    with None q cl row(2,3) show ?thesis
      by (intro exI [of _ m] exI [of _ s'] exI [of _ t']) auto
  next
    case (Some c)
    let ?s = "svc\<lparr>submitted := submitted svc + 1, pool := pool svc @ [c]\<rparr>"
    from Cons.IH [OF wfu, of ?s "n + 1"] Cons.prems(2,3) obtain m s' t' where
      "dispatch_loop True now jids (n + 1) ?s u = (Inr (n + 1 + m), s', t')" "m \<le> length jids"
      "submitted s' = submitted svc + 1 + int m" "worker_limit s' = worker_limit svc" "wf_jobs t'"
      "\<forall>i. i \<notin> set jids \<longrightarrow> row_of t' i = row_of u i"
      "\<forall>i \<in> set jids. \<forall>j. row_of t' i = Some j \<longrightarrow> \<not> claimable now j" by auto
    with Some q cl row(2,3) Cons.prems(3) show ?thesis
      by (intro exI [of _ "m + 1"] exI [of _ s'] exI [of _ t'])
        (auto simp: submit_claimed_def Let_def)
  qed
qed auto

lemma all_candidates:
  assumes "length (filter (claimable now) tbl) \<le> n"
  shows "set (candidates now n tbl) = job_id ` {j \<in> set tbl. claimable now j}"
  using assms by (simp add: candidates_def)

text \<open>
  A dispatch never takes more work than the process has free slots, and one with enough
  slots drains the queue: after it no job is queued, and no running job has an expired lease,
  at the time of the dispatch (each was given a new attempt or, after the last, failed).
\<close>

theorem dispatch_drains_queue:
  assumes "job_reachable tbl" and "0 < lease_us svc" and "\<not> svc_shutdown svc"
    and "dispatch_once True now None svc tbl = (r, svc', tbl')"
  shows "(\<exists>m. r = Inr m \<and> submitted svc' = submitted svc + int m)
    \<and> (submitted svc \<le> worker_limit svc \<longrightarrow> submitted svc' \<le> worker_limit svc')
    \<and> (int (length (filter (claimable now) tbl)) \<le> available_capacity svc
        \<longrightarrow> (\<forall>j \<in> set tbl'. \<not> claimable now j))"
proof -
  have wf: "wf_jobs tbl" using assms(1) by (rule job_reachable_wf_jobs)
  let ?n = "nat (available_capacity svc)"
  from dispatch_loop_effect [OF wf assms(2,3), of now "candidates now ?n tbl" 0] obtain m s t where
    L: "dispatch_loop True now (candidates now ?n tbl) 0 svc tbl = (Inr m, s, t)"
      "m \<le> length (candidates now ?n tbl)" "submitted s = submitted svc + int m"
      "worker_limit s = worker_limit svc" "wf_jobs t"
      "\<forall>i. i \<notin> set (candidates now ?n tbl) \<longrightarrow> row_of t i = row_of tbl i"
      "\<forall>i \<in> set (candidates now ?n tbl). \<forall>j. row_of t i = Some j \<longrightarrow> \<not> claimable now j"
    by auto
  show ?thesis
  proof (cases "available_capacity svc \<le> 0")
    case True
    with assms(4) show ?thesis
      by (auto simp: dispatch_once_def filter_empty_conv available_capacity_def)
  next
    case False
    then have eq: "r = Inr m" "svc' = s" "tbl' = t"
      using assms(4) L(1) by (simp_all add: dispatch_once_def)
    have "int m \<le> available_capacity svc" using L(2) False by (auto simp: candidates_def)
    then have slots: "submitted svc \<le> worker_limit svc \<longrightarrow> submitted s \<le> worker_limit s"
      using L(3,4) by (auto simp: available_capacity_def)
    have "\<not> claimable now j" if all: "int (length (filter (claimable now) tbl)) \<le> available_capacity svc"
      and j: "j \<in> set t" for j
    proof
      assume cl: "claimable now j"
      have rj: "row_of t (job_id j) = Some j" using row_of_in [OF wf_distinct [OF L(5)] j] .
      with L(7) cl have out: "job_id j \<notin> set (candidates now ?n tbl)" by blast
      with L(6) rj have "j \<in> set tbl" by (auto dest: row_of_SomeD)
      with out cl all_candidates [of now tbl ?n] all show False by (auto simp: le_nat_iff)
    qed
    with eq L(3) slots show ?thesis by auto
  qed
qed

theorem dispatch_drains_queue_witness:
  "\<exists>r s t. dispatch_once True 20 None demo_service [queued_row ''j1'' ''fetch_players'' 10 None] = (r, s, t)
     \<and> (\<forall>j \<in> set t. \<not> claimable 20 j)"
proof -
  obtain r s t where d: "dispatch_once True 20 None demo_service
      [queued_row ''j1'' ''fetch_players'' 10 None] = (r, s, t)" by (metis prod_cases3)
  have "0 < lease_us demo_service" "\<not> svc_shutdown demo_service"
    "int (length (filter (claimable 20) [queued_row ''j1'' ''fetch_players'' 10 None]))
       \<le> available_capacity demo_service"
    by (simp_all add: demo_service_def mk_service_def available_capacity_def)
  with d dispatch_drains_queue [OF demo_queued_reachable _ _ d] show ?thesis by blast
qed

end
