(* ===== verification/Publisher.thy ===== *)
theory Publisher
  imports Jobs
begin

text \<open>
  The atomic multi-table publication of \<open>src/app/services/table_publisher.py\<close>: frames are
  staged under unique names, the caller's fence runs, and all names are swapped, in one
  transaction. The database is the live tables together with the job table the fence writes to.
  A frame is any value. The random part of a staging name is the argument \<open>uid\<close>; the code takes
  twelve hexadecimal digits of a fresh UUID.
\<close>

record 'f database =
  tables :: "string \<rightharpoonup> 'f"
  jobs :: job_table

datatype publication_error =
    InvalidTableName string
  | RetiredTable string
  | CallbackError job_error
  | MissingTable string

definition RETIRED_LEGACY_RANKING_TABLES :: "string list" where
  "RETIRED_LEGACY_RANKING_TABLES =
     [''general_opponent_stats'', ''catch_and_shoot'', ''pullups'', ''less_than_10_ft'',
      ''team_play_types'', ''processed_team_assists'']"

definition refuse_retired_table :: "string \<Rightarrow> publication_error + unit" where
  "refuse_retired_table name =
     ensure (name \<notin> set RETIRED_LEGACY_RANKING_TABLES) (RetiredTable name)"

definition identifier_start :: "char \<Rightarrow> bool" where
  "identifier_start c \<longleftrightarrow> c \<in> set ''ABCDEFGHIJKLMNOPQRSTUVWXYZabcdefghijklmnopqrstuvwxyz_''"

definition identifier_rest :: "char \<Rightarrow> bool" where
  "identifier_rest c \<longleftrightarrow> identifier_start c \<or> c \<in> set ''0123456789''"

definition safe_identifier :: "string \<Rightarrow> bool" where
  "safe_identifier s = (case s of [] \<Rightarrow> False | c # cs \<Rightarrow> identifier_start c \<and> list_all identifier_rest cs)"

definition validate_identifier :: "string \<Rightarrow> publication_error + string" where
  "validate_identifier name =
     (if \<not> safe_identifier name then Inl (InvalidTableName name)
      else and_then (refuse_retired_table name) (\<lambda>_. Inr name))"

definition staging_name :: "(string \<Rightarrow> string) \<Rightarrow> string \<Rightarrow> string" where
  "staging_name uid name = ''__staging_'' @ name @ ''_'' @ uid name"

definition stage_frame :: "string \<Rightarrow> 'f \<Rightarrow> 'f database \<Rightarrow> 'f database" where
  "stage_frame name frame db = db\<lparr>tables := (tables db)(name \<mapsto> frame)\<rparr>"

text \<open>\<open>DROP TABLE IF EXISTS target\<close>, then \<open>ALTER TABLE staging RENAME TO target\<close>.\<close>

definition swap_table :: "string \<Rightarrow> string \<Rightarrow> 'f database \<Rightarrow> publication_error + 'f database" where
  "swap_table staging target db =
     (let dropped = (tables db)(target := None)
      in case dropped staging of
           None \<Rightarrow> Inl (MissingTable staging)
         | Some f \<Rightarrow> Inr (db\<lparr>tables := (dropped(staging := None))(target \<mapsto> f)\<rparr>))"

fun swap_all ::
  "(string \<Rightarrow> string) \<Rightarrow> string list \<Rightarrow> 'f database \<Rightarrow> publication_error + 'f database" where
  "swap_all uid [] db = Inr db"
| "swap_all uid (t # ts) db = and_then (swap_table (staging_name uid t) t db) (swap_all uid ts)"

text \<open>A fence or a completion runs on the transaction's connection; here it writes the job
  table.\<close>

definition run_callback ::
  "(job_table \<Rightarrow> job_error + job_table) option \<Rightarrow> 'f database \<Rightarrow> publication_error + 'f database" where
  "run_callback cb db =
     (case cb of
        None \<Rightarrow> Inr db
      | Some f \<Rightarrow> (case f (jobs db) of Inl e \<Rightarrow> Inl (CallbackError e) | Inr js \<Rightarrow> Inr (db\<lparr>jobs := js\<rparr>)))"

definition transaction ::
  "(string \<Rightarrow> string) \<Rightarrow> (string \<times> 'f) list \<Rightarrow> (job_table \<Rightarrow> job_error + job_table) option
     \<Rightarrow> (job_table \<Rightarrow> job_error + job_table) option \<Rightarrow> 'f database \<Rightarrow> publication_error + 'f database" where
  "transaction uid targets fence completion db =
     and_then (run_callback fence (fold (\<lambda>(t, f). stage_frame (staging_name uid t) f) targets db))
       (\<lambda>db1. and_then (swap_all uid (map fst targets) db1) (run_callback completion))"

text \<open>\<open>_cleanup_staging\<close>: the drops take effect where the driver commits DDL by itself.\<close>

definition cleanup_staging :: "bool \<Rightarrow> string list \<Rightarrow> 'f database \<Rightarrow> 'f database" where
  "cleanup_staging ddl_commits names db =
     (if ddl_commits then db\<lparr>tables := fold (\<lambda>n m. m(n := None)) names (tables db)\<rparr> else db)"

text \<open>\<open>publish\<close>: the result, and the database afterwards.\<close>

definition publish ::
  "bool \<Rightarrow> (string \<Rightarrow> string) \<Rightarrow> (string \<times> 'f) list \<Rightarrow> (job_table \<Rightarrow> job_error + job_table) option
     \<Rightarrow> (job_table \<Rightarrow> job_error + job_table) option \<Rightarrow> 'f database
     \<Rightarrow> (publication_error + unit) \<times> 'f database" where
  "publish ddl_commits uid frames fence completion db =
     (if frames = [] then (Inr (), db)
      else case map_res (\<lambda>(t, f). and_then (validate_identifier t) (\<lambda>t. Inr (t, f))) frames of
             Inl e \<Rightarrow> (Inl e, db)
           | Inr targets \<Rightarrow>
               (case transaction uid targets fence completion db of
                  Inl e \<Rightarrow> (Inl e, cleanup_staging ddl_commits (map (staging_name uid \<circ> fst) targets) db)
                | Inr db' \<Rightarrow> (Inr (), db')))"

section \<open>Staging and swapping\<close>

lemma staging_name_inj:
  assumes "\<forall>t. length (uid t) = 12" and "staging_name uid s = staging_name uid t"
  shows "s = t"
proof -
  from assms(2) have eq: "s @ ''_'' @ uid s = t @ ''_'' @ uid t" by (simp add: staging_name_def)
  then have "length s = length t" using assms(1) arg_cong [OF eq, of length] by simp
  with eq show ?thesis by simp
qed

lemma staging_name_eq_iff:
  assumes "\<forall>t. length (uid t) = 12"
  shows "staging_name uid s = staging_name uid t \<longleftrightarrow> s = t"
  using staging_name_inj [OF assms] by blast

lemma staged_jobs:
  "jobs (fold (\<lambda>(t, f). stage_frame (staging_name uid t) f) targets db) = jobs db"
  by (induction targets arbitrary: db) (auto simp: stage_frame_def)

lemma staged_tables:
  assumes "\<forall>t. length (uid t) = 12" and "distinct (map fst targets)"
  shows "tables (fold (\<lambda>(t, f). stage_frame (staging_name uid t) f) targets db) =
    (\<lambda>n. if n \<in> staging_name uid ` fst ` set targets
         then map_of (map (\<lambda>(t, f). (staging_name uid t, f)) targets) n else tables db n)"
  using assms(2)
proof (induction targets arbitrary: db)
  case (Cons a targets)
  obtain t f where a: "a = (t, f)" by fastforce
  have "staging_name uid t \<notin> staging_name uid ` fst ` set targets"
    using Cons.prems a staging_name_eq_iff [OF assms(1)] by auto
  with Cons.IH [of "stage_frame (staging_name uid t) f db"] Cons.prems show ?case
    by (auto simp: a stage_frame_def fun_eq_iff)
qed simp

lemma map_of_staged:
  assumes "\<forall>t. length (uid t) = 12"
  shows "map_of (map (\<lambda>(t, f). (staging_name uid t, f)) targets) (staging_name uid t) = map_of targets t"
  by (induction targets) (simp_all add: staging_name_eq_iff [OF assms] split_beta)

lemma swap_all_effect:
  assumes "\<forall>t. length (uid t) = 12" and "distinct ts"
    and "\<And>t. t \<in> set ts \<Longrightarrow> tables db (staging_name uid t) = Some (F t)"
    and "\<And>s t. s \<in> set ts \<Longrightarrow> t \<in> set ts \<Longrightarrow> staging_name uid s \<noteq> t"
  shows "\<exists>db'. swap_all uid ts db = Inr db' \<and> jobs db' = jobs db
    \<and> tables db' = (\<lambda>n. if n \<in> set ts then Some (F n)
          else if n \<in> staging_name uid ` set ts then None else tables db n)"
  using assms(2-)
proof (induction ts arbitrary: db)
  case (Cons t ts)
  let ?s = "staging_name uid t"
  let ?db = "db\<lparr>tables := ((tables db)(t := None, ?s := None))(t \<mapsto> F t)\<rparr>"
  have ne: "?s \<noteq> t" using Cons.prems(3) by simp
  then have step: "swap_table ?s t db = Inr ?db"
    using Cons.prems(2) by (simp add: swap_table_def Let_def)
  have "tables ?db (staging_name uid u) = Some (F u)" if "u \<in> set ts" for u
  proof -
    have "u \<noteq> t" using that Cons.prems(1) by auto
    then have "staging_name uid u \<noteq> ?s" using staging_name_inj [OF assms(1)] by blast
    moreover have "staging_name uid u \<noteq> t" using that Cons.prems(3) by simp
    ultimately show ?thesis using that Cons.prems(2) by simp
  qed
  from Cons.IH [of ?db, OF _ this] Cons.prems obtain db' where
    "swap_all uid ts ?db = Inr db'" "jobs db' = jobs db"
    "tables db' = (\<lambda>n. if n \<in> set ts then Some (F n)
          else if n \<in> staging_name uid ` set ts then None else tables ?db n)"
    by auto
  with step ne Cons.prems show ?case
    by (intro exI [of _ db']) (auto simp: fun_eq_iff)
qed (auto simp: fun_eq_iff)

lemma cleanup_live:
  "n \<notin> set names \<Longrightarrow> tables (cleanup_staging ddl names db) n = tables db n"
  "jobs (cleanup_staging ddl names db) = jobs db"
proof -
  have "n \<notin> set names \<Longrightarrow> fold (\<lambda>n m. m(n := None)) names m n = m n" for m :: "string \<rightharpoonup> 'a"
    by (induction names arbitrary: m) auto
  then show "n \<notin> set names \<Longrightarrow> tables (cleanup_staging ddl names db) n = tables db n"
    by (simp add: cleanup_staging_def)
qed (simp add: cleanup_staging_def)

lemma validated_same:
  "map_res (\<lambda>(t, f). and_then (validate_identifier t) (\<lambda>t. Inr (t, f))) frames = Inr targets
   \<Longrightarrow> targets = frames"
  by (induction frames arbitrary: targets)
    (auto simp: result_simps validate_identifier_def split: if_splits)

lemma publish_failed:
  assumes "publish ddl uid frames fence completion db = (Inl e, db')"
  shows "jobs db' = jobs db
    \<and> (\<forall>n. n \<notin> staging_name uid ` fst ` set frames \<longrightarrow> tables db' n = tables db n)"
  using assms cleanup_live(1) [of _ "map (staging_name uid \<circ> fst) frames" ddl db] cleanup_live(2)
  by (auto simp: publish_def image_image split: if_splits sum.splits dest!: validated_same)

text \<open>
  C26. Publication is all or nothing. If the staging names are new (a fresh UUID of the length
  the code takes), then after \<open>publish\<close> either an error was raised and every live table and the
  job table are what they were, or every named table is the frame that was given for it, every
  other table is untouched, no staging table is left, and the job table is what the fence and
  then the completion made of it.
\<close>

theorem publish_all_or_nothing:
  assumes "\<forall>t. length (uid t) = 12" and "distinct (map fst frames)"
    and "\<And>t u. t \<in> fst ` set frames \<Longrightarrow> u \<in> fst ` set frames \<union> dom (tables db)
          \<Longrightarrow> staging_name uid t \<noteq> u"
    and "publish ddl uid frames fence completion db = (r, db')"
  shows "case r of
      Inl e \<Rightarrow> jobs db' = jobs db
        \<and> (\<forall>n. n \<notin> staging_name uid ` fst ` set frames \<longrightarrow> tables db' n = tables db n)
    | Inr _ \<Rightarrow> tables db' = (tables db ++ map_of frames)
        \<and> (frames \<noteq> [] \<longrightarrow> (\<exists>js. (case fence of None \<Rightarrow> Inr (jobs db) | Some f \<Rightarrow> f (jobs db)) = Inr js
            \<and> (case completion of None \<Rightarrow> Inr js | Some f \<Rightarrow> f js) = Inr (jobs db')))"
proof (cases r)
  case (Inl e)
  with publish_failed [of ddl uid frames fence completion db e db'] assms(4) show ?thesis by auto
next
  case (Inr x)
  show ?thesis
  proof (cases "frames = []")
    case True
    with Inr assms(4) show ?thesis by (auto simp: publish_def)
  next
    case False
    with Inr assms(4) have "transaction uid frames fence completion db = Inr db'"
      by (auto simp: publish_def split: sum.splits dest!: validated_same)
    then obtain d1 d2 where d: "run_callback fence
          (fold (\<lambda>(t, f). stage_frame (staging_name uid t) f) frames db) = Inr d1"
        "swap_all uid (map fst frames) d1 = Inr d2" "run_callback completion d2 = Inr db'"
      by (auto simp: transaction_def result_simps)
    note st = staged_tables [OF assms(1,2), of db] staged_jobs [where uid = uid and targets = frames and db = db]
    have d1: "tables d1 = tables (fold (\<lambda>(t, f). stage_frame (staging_name uid t) f) frames db)"
      and js: "(case fence of None \<Rightarrow> Inr (jobs db) | Some f \<Rightarrow> f (jobs db)) = Inr (jobs d1)"
      using d(1) st(2) by (auto simp: run_callback_def split: option.splits sum.splits)
    have "tables d1 (staging_name uid t) = Some (the (map_of frames t))" if "t \<in> set (map fst frames)" for t
      using that map_of_eq_None_iff [of frames t] map_of_staged [OF assms(1), of frames t]
      by (auto simp: d1 st(1))
    from swap_all_effect [OF assms(1,2) this] assms(3) d(2)
    have d2: "jobs d2 = jobs d1" "tables d2 = (\<lambda>n. if n \<in> fst ` set frames then Some (the (map_of frames n))
          else if n \<in> staging_name uid ` fst ` set frames then None else tables d1 n)"
      by auto
    have fin: "tables db' = tables d2" "(case completion of None \<Rightarrow> Inr (jobs d2) | Some f \<Rightarrow> f (jobs d2)) = Inr (jobs db')"
      using d(3) by (auto simp: run_callback_def split: option.splits sum.splits)
    have "tables db' n = (tables db ++ map_of frames) n" for n
    proof (cases "n \<in> fst ` set frames")
      case True
      then obtain f where "map_of frames n = Some f" using map_of_eq_None_iff [of frames n] by auto
      with True show ?thesis by (simp add: fin(1) d2(2))
    next
      case out: False
      then have "map_of frames n = None" by (simp add: map_of_eq_None_iff)
      moreover have "tables db n = None" if "n \<in> staging_name uid ` fst ` set frames"
      proof -
        from that obtain t where "n = staging_name uid t" "t \<in> fst ` set frames" by blast
        with assms(3) [of t n] show ?thesis by blast
      qed
      ultimately show ?thesis using out by (auto simp: fin(1) d2(2) d1 st(1) map_add_def)
    qed
    with fin(2) [unfolded d2(1)] js Inr show ?thesis by auto
  qed
qed

definition demo_database :: "nat database" where
  "demo_database = \<lparr>tables = [''players'' \<mapsto> 1], jobs = []\<rparr>"

lemma demo_publish: "publish True (\<lambda>_. ''0123456789ab'') [(''players'', 2), (''teams'', 3)] None None demo_database
  = (Inr (), \<lparr>tables = [''players'' \<mapsto> 2, ''teams'' \<mapsto> 3], jobs = []\<rparr>)"
  by (simp add: publish_def transaction_def validate_identifier_def safe_identifier_def
      identifier_start_def identifier_rest_def refuse_retired_table_def
      RETIRED_LEGACY_RANKING_TABLES_def run_callback_def stage_frame_def swap_table_def
      staging_name_def demo_database_def fun_eq_iff)

theorem publish_all_or_nothing_witness:
  "tables (snd (publish True (\<lambda>_. ''0123456789ab'') [(''players'', 2), (''teams'', 3)] None None demo_database))
   = (tables demo_database ++ map_of [(''players'', 2), (''teams'', 3)])"
proof -
  have a: "distinct (map fst [(''players'', 2::nat), (''teams'', 3)])" by simp
  have b: "staging_name (\<lambda>_. ''0123456789ab'') t \<noteq> u"
    if "t \<in> fst ` set [(''players'', 2::nat), (''teams'', 3)]"
      "u \<in> fst ` set [(''players'', 2::nat), (''teams'', 3)] \<union> dom (tables demo_database)" for t u
    using that by (auto simp: staging_name_def demo_database_def)
  from publish_all_or_nothing [OF _ a b demo_publish] show ?thesis
    by (simp add: demo_publish)
qed

text \<open>
  C27. A worker whose claim was superseded cannot publish: with its fence, \<open>publish\<close> of valid
  table names is refused with the stale-lease error and no live table changes.
\<close>

theorem superseded_worker_cannot_publish:
  assumes "job_reachable tbl" and "claim up svc jid now tbl = (Inr (Some c), t1)"
    and "job_step\<^sup>*\<^sup>* t1 t2" and "claim up' svc' jid now' t2 = (Inr (Some d), t3)"
    and "job_step\<^sup>*\<^sup>* t3 (jobs db)"
    and "frames \<noteq> []" and "\<forall>(t, f) \<in> set frames. validate_identifier t = Inr t"
  shows "\<exists>db'. publish ddl uid frames (Some (publication_fence s c time)) completion db
      = (Inl (CallbackError StaleLeaseError), db') \<and> jobs db' = jobs db
    \<and> (\<forall>n. n \<notin> staging_name uid ` fst ` set frames \<longrightarrow> tables db' n = tables db n)"
proof -
  have lost: "\<not> holds_lease c time (jobs db)" and wf: "wf_jobs (jobs db)"
    using superseded_not_holding [OF assms(1-5)] by blast+
  have stale: "publication_fence s c time (jobs db) = Inl StaleLeaseError"
    by (simp add: publication_fence_def not_holding_update_owned [OF wf lost])
  have ok: "map_res (\<lambda>(t, f). and_then (validate_identifier t) (\<lambda>t. Inr (t, f))) frames = Inr frames"
    using assms(7) by (induction frames) auto
  have "transaction uid frames (Some (publication_fence s c time)) completion db
      = Inl (CallbackError StaleLeaseError)"
    by (simp add: transaction_def run_callback_def staged_jobs stale)
  with ok assms(6) obtain db' where
    db': "publish ddl uid frames (Some (publication_fence s c time)) completion db
      = (Inl (CallbackError StaleLeaseError), db')" by (auto simp: publish_def)
  with publish_failed [OF db'] show ?thesis by blast
qed

definition demo_database2 :: "nat database" where
  "demo_database2 = \<lparr>tables = [''players'' \<mapsto> 1], jobs = demo_reclaimed\<rparr>"

theorem superseded_worker_cannot_publish_witness:
  "fst (publish True (\<lambda>_. ''0123456789ab'') [(''players'', 2)]
      (Some (publication_fence demo_service (ClaimedJob ''j1'' ''w1'' 1) 90000005)) None demo_database2)
   = Inl (CallbackError StaleLeaseError)"
proof -
  have "validate_identifier ''players'' = Inr ''players''"
    by (simp add: validate_identifier_def safe_identifier_def identifier_start_def
        identifier_rest_def refuse_retired_table_def RETIRED_LEGACY_RANKING_TABLES_def)
  moreover have "job_step\<^sup>*\<^sup>* demo_reclaimed (jobs demo_database2)"
    by (simp add: demo_database2_def)
  ultimately show ?thesis
    using superseded_worker_cannot_publish [OF demo_queued_reachable demo_claim
      rtranclp.rtrancl_refl demo_reclaim, of demo_database2 "[(''players'', 2)]" True
      "\<lambda>_. ''0123456789ab''" demo_service 90000005 None] by auto
qed

end
