(* ===== verification/Pyvalue.thy ===== *)
theory Pyvalue
  imports Prelude "HOL-Library.List_Lexorder" "HOL-Library.Char_ord" "HOL-Library.Log_Nat"
begin

text \<open>
  The Python values the components read: parsed JSON documents with the operations the source
  applies to them (\<open>d.get(k)\<close>, \<open>d[k]\<close>, truth value, iteration, \<open>int\<close>, \<open>str\<close>, \<open>==\<close>), and
  double-precision arithmetic as far as the clocks need it.

  A JSON number here is an integer; the fields the modelled code reads carry no fractional
  numbers. A character is a code point below 256. A dictionary is the list of its entries in
  insertion order, each key once.
\<close>

section \<open>Values\<close>

datatype json =
    JNull
  | JBool bool
  | JInt int
  | JStr string
  | JList "json list"
  | JObj "(string \<times> json) list"

datatype py_exn = KeyError string | TypeError | ValueError | AttributeError | OverflowError

definition is_mapping :: "json \<Rightarrow> bool" where
  "is_mapping v = (case v of JObj _ \<Rightarrow> True | _ \<Rightarrow> False)"

text \<open>\<open>d.get(k)\<close> on a value that is known to be a mapping; anything else has no such attribute.\<close>

definition get_key :: "json \<Rightarrow> string \<Rightarrow> json" where
  "get_key v k =
     (case v of JObj kvs \<Rightarrow> (case map_of kvs k of None \<Rightarrow> JNull | Some x \<Rightarrow> x) | _ \<Rightarrow> JNull)"

definition py_get :: "json \<Rightarrow> string \<Rightarrow> py_exn + json" where
  "py_get v k = (if is_mapping v then Inr (get_key v k) else Inl AttributeError)"

definition py_item :: "json \<Rightarrow> string \<Rightarrow> py_exn + json" where
  "py_item v k =
     (case v of JObj kvs \<Rightarrow> (case map_of kvs k of None \<Rightarrow> Inl (KeyError k) | Some x \<Rightarrow> Inr x)
      | _ \<Rightarrow> Inl TypeError)"

definition has_key :: "json \<Rightarrow> string \<Rightarrow> bool" where
  "has_key v k = (case v of JObj kvs \<Rightarrow> map_of kvs k \<noteq> None | _ \<Rightarrow> False)"

fun py_truth :: "json \<Rightarrow> bool" where
  "py_truth JNull = False"
| "py_truth (JBool b) = b"
| "py_truth (JInt i) = (i \<noteq> 0)"
| "py_truth (JStr s) = (s \<noteq> [])"
| "py_truth (JList xs) = (xs \<noteq> [])"
| "py_truth (JObj kvs) = (kvs \<noteq> [])"

definition py_or :: "json \<Rightarrow> json \<Rightarrow> json" where
  "py_or a b = (if py_truth a then a else b)"

fun py_iter :: "json \<Rightarrow> py_exn + json list" where
  "py_iter (JList xs) = Inr xs"
| "py_iter (JStr s) = Inr (map (\<lambda>c. JStr [c]) s)"
| "py_iter (JObj kvs) = Inr (map (JStr \<circ> fst) kvs)"
| "py_iter _ = Inl TypeError"

text \<open>Equality: \<open>True == 1\<close>, and dictionaries are equal whatever their order.\<close>

primrec canon :: "json \<Rightarrow> json" where
  "canon JNull = JNull"
| "canon (JBool b) = JInt (if b then 1 else 0)"
| "canon (JInt i) = JInt i"
| "canon (JStr s) = JStr s"
| "canon (JList xs) = JList (map canon xs)"
| "canon (JObj kvs) = JObj (sort_key fst (map (map_prod id canon) kvs))"

definition py_eq :: "json \<Rightarrow> json \<Rightarrow> bool" where
  "py_eq a b \<longleftrightarrow> canon a = canon b"

section \<open>Text\<close>

definition is_digit :: "char \<Rightarrow> bool" where
  "is_digit c \<longleftrightarrow> 48 \<le> (of_char c :: nat) \<and> (of_char c :: nat) \<le> 57"

definition digit_value :: "char \<Rightarrow> nat" where
  "digit_value c = of_char c - 48"

definition digit_char :: "nat \<Rightarrow> char" where
  "digit_char n = char_of (48 + n)"

fun show_nat :: "nat \<Rightarrow> string" where
  "show_nat n = (if n < 10 then [digit_char n] else show_nat (n div 10) @ [digit_char (n mod 10)])"

declare show_nat.simps [simp del]

definition show_int :: "int \<Rightarrow> string" where
  "show_int i = (if i < 0 then ''-'' @ show_nat (nat (- i)) else show_nat (nat i))"

definition nat_of_digits :: "string \<Rightarrow> nat" where
  "nat_of_digits s = foldl (\<lambda>n c. 10 * n + digit_value c) 0 s"

definition is_space :: "char \<Rightarrow> bool" where
  "is_space c \<longleftrightarrow> (of_char c :: nat) \<in> {9, 10, 11, 12, 13, 28, 29, 30, 31, 32, 133, 160}"

definition strip :: "string \<Rightarrow> string" where
  "strip s = rev (dropWhile is_space (rev (dropWhile is_space s)))"

text \<open>\<open>int(text)\<close>: surrounding white space, a sign, and digits with single underscores between.\<close>

fun int_digits :: "string \<Rightarrow> string option" where
  "int_digits [] = None"
| "int_digits [c] = (if is_digit c then Some [c] else None)"
| "int_digits (c # d # s) =
     (if \<not> is_digit c then None
      else map_option (Cons c) (int_digits (if d = CHR ''_'' then s else d # s)))"

definition int_of_text :: "string \<Rightarrow> int option" where
  "int_of_text text =
     (case strip text of
        [] \<Rightarrow> None
      | c # s \<Rightarrow>
          (if c = CHR ''-'' then map_option (\<lambda>ds. - int (nat_of_digits ds)) (int_digits s)
           else if c = CHR ''+'' then map_option (\<lambda>ds. int (nat_of_digits ds)) (int_digits s)
           else map_option (\<lambda>ds. int (nat_of_digits ds)) (int_digits (c # s))))"

fun py_int :: "json \<Rightarrow> py_exn + int" where
  "py_int (JInt i) = Inr i"
| "py_int (JBool b) = Inr (if b then 1 else 0)"
| "py_int (JStr s) = of_option ValueError (int_of_text s)"
| "py_int _ = Inl TypeError"

text \<open>\<open>repr\<close> of a string, and \<open>str\<close>.\<close>

definition hex_digit :: "nat \<Rightarrow> char" where
  "hex_digit n = (if n < 10 then char_of (48 + n) else char_of (87 + n))"

definition printable :: "char \<Rightarrow> bool" where
  "printable c \<longleftrightarrow> (let n = of_char c :: nat in 32 \<le> n \<and> n \<le> 126 \<or> 161 \<le> n \<and> n \<noteq> 173)"

definition repr_char :: "char \<Rightarrow> char \<Rightarrow> string" where
  "repr_char q c =
     (let n = of_char c :: nat; backslash = CHR 0x5C
      in if c = q \<or> c = backslash then [backslash, c]
         else if n = 9 then backslash # ''t'' else if n = 10 then backslash # ''n''
         else if n = 13 then backslash # ''r''
         else if printable c then [c]
         else backslash # ''x'' @ [hex_digit (n div 16), hex_digit (n mod 16)])"

definition repr_str :: "string \<Rightarrow> string" where
  "repr_str s =
     (let single = CHR 0x27; double = CHR 0x22;
          q = (if single \<in> set s \<and> double \<notin> set s then double else single)
      in q # concat (map (repr_char q) s) @ [q])"

definition join :: "string \<Rightarrow> string list \<Rightarrow> string" where
  "join sep xs = (case xs of [] \<Rightarrow> [] | y # ys \<Rightarrow> y @ concat (map (\<lambda>z. sep @ z) ys))"

primrec py_repr :: "json \<Rightarrow> string" where
  "py_repr JNull = ''None''"
| "py_repr (JBool b) = (if b then ''True'' else ''False'')"
| "py_repr (JInt i) = show_int i"
| "py_repr (JStr s) = repr_str s"
| "py_repr (JList xs) = ''['' @ join '', '' (map py_repr xs) @ '']''"
| "py_repr (JObj kvs) = ''{'' @ join '', '' (map (\<lambda>(k, r). repr_str k @ '': '' @ r)
     (map (map_prod id py_repr) kvs)) @ ''}''"

definition py_str :: "json \<Rightarrow> string" where
  "py_str v = (case v of JStr s \<Rightarrow> s | _ \<Rightarrow> py_repr v)"

definition lower_char :: "char \<Rightarrow> char" where
  "lower_char c =
     (let n = of_char c :: nat
      in if 65 \<le> n \<and> n \<le> 90 \<or> 192 \<le> n \<and> n \<le> 222 \<and> n \<noteq> 215 then char_of (n + 32) else c)"

definition lower :: "string \<Rightarrow> string" where
  "lower s = map lower_char s"

fun starts_with :: "string \<Rightarrow> string \<Rightarrow> bool" where
  "starts_with [] s = True"
| "starts_with (c # p) [] = False"
| "starts_with (c # p) (d # s) = (c = d \<and> starts_with p s)"

text \<open>\<open>p in s\<close>, and \<open>s.split(sep, 1)\<close> at the first occurrence.\<close>

fun contains :: "string \<Rightarrow> string \<Rightarrow> bool" where
  "contains p [] = (p = [])"
| "contains p (c # s) = (starts_with p (c # s) \<or> contains p s)"

fun split_once :: "string \<Rightarrow> string \<Rightarrow> (string \<times> string) option" where
  "split_once sep [] = None"
| "split_once sep (c # s) =
     (if starts_with sep (c # s) then Some ([], drop (length sep) (c # s))
      else map_option (\<lambda>(a, b). (c # a, b)) (split_once sep s))"

text \<open>\<open>str.casefold\<close>. The micro sign folds to a letter outside the range of the model and is kept.\<close>

definition casefold :: "string \<Rightarrow> string" where
  "casefold s = concat (map (\<lambda>c. if (of_char c :: nat) = 223 then ''ss'' else [lower_char c]) s)"

text \<open>\<open>json.dumps(value, sort_keys=True, separators=(",", ":"), ensure_ascii=False)\<close>, and the UTF-8
  bytes of a text.\<close>

definition json_char :: "char \<Rightarrow> string" where
  "json_char c =
     (let n = of_char c :: nat; backslash = CHR 0x5C
      in if n = 34 \<or> n = 92 then [backslash, c]
         else if n = 8 then backslash # ''b'' else if n = 9 then backslash # ''t''
         else if n = 10 then backslash # ''n'' else if n = 12 then backslash # ''f''
         else if n = 13 then backslash # ''r''
         else if n < 32 then backslash # ''u00'' @ [hex_digit (n div 16), hex_digit (n mod 16)]
         else [c])"

definition json_str :: "string \<Rightarrow> string" where
  "json_str s = CHR 0x22 # concat (map json_char s) @ [CHR 0x22]"

primrec json_dumps :: "json \<Rightarrow> string" where
  "json_dumps JNull = ''null''"
| "json_dumps (JBool b) = (if b then ''true'' else ''false'')"
| "json_dumps (JInt i) = show_int i"
| "json_dumps (JStr s) = json_str s"
| "json_dumps (JList xs) = ''['' @ join '','' (map json_dumps xs) @ '']''"
| "json_dumps (JObj kvs) = ''{'' @ join '','' (map (\<lambda>(k, r). json_str k @ '':'' @ r)
     (sort_key fst (map (map_prod id json_dumps) kvs))) @ ''}''"

definition utf8 :: "string \<Rightarrow> nat list" where
  "utf8 s = concat (map (\<lambda>c. let n = of_char c in if n < 128 then [n] else [192 + n div 64, 128 + n mod 64]) s)"

text \<open>The value that reading such a text gives: every object with its keys in order.\<close>

primrec sort_json :: "json \<Rightarrow> json" where
  "sort_json JNull = JNull"
| "sort_json (JBool b) = JBool b"
| "sort_json (JInt i) = JInt i"
| "sort_json (JStr s) = JStr s"
| "sort_json (JList xs) = JList (map sort_json xs)"
| "sort_json (JObj kvs) = JObj (sort_key fst (map (map_prod id sort_json) kvs))"

section \<open>Doubles\<close>

text \<open>Rounding to the nearest integer, ties to even, and to the nearest number with a 53-bit
  significand. Exponents are not bounded below: a clock that small rounds to zero either way.\<close>

definition round_even :: "rat \<Rightarrow> int" where
  "round_even x =
     (let f = \<lfloor>x\<rfloor>; r = x - of_int f
      in if r < 1 / 2 then f else if 1 / 2 < r then f + 1 else if even f then f else f + 1)"

definition fl_exponent :: "rat \<Rightarrow> int" where
  "fl_exponent q =
     (let (p, d) = quotient_of q; e = bitlen p - bitlen d - 53
      in if 2 ^ 53 \<le> q / 2 powi e then e + 1 else e)"

definition fl :: "rat \<Rightarrow> rat" where
  "fl q = (if q = 0 then 0
           else let e = fl_exponent q in of_int (round_even (q / 2 powi e)) * 2 powi e)"

text \<open>A rounded result of \<open>2 ^ 1024\<close> or more is an infinity: the leading bit of \<open>q\<close> has the
  place \<open>fl_exponent q + 52\<close>.\<close>

definition fl_overflows :: "rat \<Rightarrow> bool" where
  "fl_overflows q \<longleftrightarrow> q \<noteq> 0 \<and> 1024 \<le> fl_exponent q + 52"

section \<open>Laws\<close>

lemma get_key_JObj [simp]:
  "get_key (JObj kvs) k = (case map_of kvs k of None \<Rightarrow> JNull | Some x \<Rightarrow> x)"
  by (simp add: get_key_def)

lemma is_mapping_JObj [simp]: "is_mapping (JObj kvs)"
  by (simp add: is_mapping_def)

lemma is_mapping_simps [simp]:
  "\<not> is_mapping JNull" "\<not> is_mapping (JBool b)" "\<not> is_mapping (JInt i)" "\<not> is_mapping (JStr s)"
  "\<not> is_mapping (JList xs)"
  by (simp_all add: is_mapping_def)

lemma is_mapping_iff: "is_mapping v \<longleftrightarrow> (\<exists>kvs. v = JObj kvs)"
  by (cases v) auto

lemma round_even_int [simp]: "round_even (of_int i) = i"
  by (simp add: round_even_def Let_def)

lemma round_even_error: "\<bar>of_int (round_even x) - x\<bar> \<le> 1 / 2"
proof -
  let ?r = "x - of_int \<lfloor>x\<rfloor>"
  have "0 \<le> ?r" "?r < 1" using floor_correct [of x] by linarith+
  then show ?thesis unfolding round_even_def Let_def abs_if by (auto; linarith)
qed

lemma round_even_near:
  assumes "\<bar>x - of_int i\<bar> < 1 / 2"
  shows "round_even x = i"
proof -
  have "\<bar>of_int (round_even x) - of_int i\<bar> < (1 :: rat)"
    using round_even_error [of x] assms by linarith
  then have "of_int \<bar>round_even x - i\<bar> < (1 :: rat)" by simp
  then have "\<bar>round_even x - i\<bar> < 1" by (simp only: of_int_less_1_iff)
  then show ?thesis by simp
qed

lemma fl_exponent_range:
  assumes "0 < q"
  shows "2 ^ 52 \<le> q / 2 powi (fl_exponent q)"
proof -
  obtain p d where pd: "quotient_of q = (p, d)" by fastforce
  have d: "0 < d" using quotient_of_denom_pos [OF pd] .
  have q: "q = of_int p / of_int d" using quotient_of_div [OF pd] .
  have p: "0 < p" using assms d by (simp add: q zero_less_divide_iff)
  let ?e = "bitlen p - bitlen d - 53"
  have "2 ^ nat (bitlen p - 1) \<le> p" using bitlen_bounds [OF p] by simp
  then have "of_int (2 ^ nat (bitlen p - 1)) \<le> (of_int p :: rat)" by (simp only: of_int_le_iff)
  moreover have "0 \<le> bitlen p - 1"
    using p bitlen_nonneg [of p] bitlen_eq_zero_iff [of p] by linarith
  ultimately have P: "2 powi (bitlen p - 1) \<le> (of_int p :: rat)" by (simp add: power_int_def)
  have "d < 2 ^ nat (bitlen d)" using bitlen_bounds [OF d] by simp
  then have "(of_int d :: rat) < of_int (2 ^ nat (bitlen d))" by (simp only: of_int_less_iff)
  then have D: "(of_int d :: rat) < 2 powi (bitlen d)"
    using bitlen_nonneg [of d] by (simp add: power_int_def)
  have "2 powi (52 + ?e) * of_int d \<le> 2 powi (52 + ?e) * (2 powi (bitlen d) :: rat)"
    using D by (intro mult_left_mono) auto
  also have "\<dots> = 2 powi (bitlen p - 1)" by (simp flip: power_int_add)
  also have "\<dots> \<le> of_int p" by (rule P)
  finally have "2 powi (52 + ?e) \<le> q" using d by (simp add: q field_simps)
  moreover have "2 powi (52 + ?e) = 2 ^ 52 * (2 powi ?e :: rat)"
    by (subst power_int_add) simp_all
  ultimately have "2 ^ 52 * 2 powi ?e \<le> q" by (simp only:)
  then have low: "2 ^ 52 \<le> q / 2 powi ?e" by (subst pos_le_divide_eq) simp_all
  show ?thesis
  proof (cases "2 ^ 53 \<le> q / 2 powi ?e")
    case True
    then have "2 ^ 52 \<le> q / 2 powi ?e / 2" by simp
    also have "q / 2 powi ?e / 2 = q / 2 powi (?e + 1)"
      by (subst power_int_add) simp_all
    finally show ?thesis using True by (simp add: fl_exponent_def pd)
  next
    case False
    with low show ?thesis by (simp add: fl_exponent_def pd)
  qed
qed

lemma fl_error:
  assumes "0 \<le> q"
  shows "\<bar>fl q - q\<bar> \<le> q / 2 ^ 53"
proof (cases "q = 0")
  case True
  then show ?thesis by (simp add: fl_def)
next
  case False
  define e where "e = fl_exponent q"
  define x where "x = q / 2 powi e"
  have pos: "(0 :: rat) < 2 powi e" by simp
  have q: "q = x * 2 powi e" by (simp add: x_def)
  have "2 ^ 52 \<le> x" using fl_exponent_range [of q] assms False by (simp add: x_def e_def)
  then have "(1 / 2 :: rat) \<le> x / 2 ^ 53" by simp
  with round_even_error [of x] have "\<bar>of_int (round_even x) - x\<bar> \<le> x / 2 ^ 53" by linarith
  then have "\<bar>of_int (round_even x) - x\<bar> * 2 powi e \<le> x / 2 ^ 53 * 2 powi e"
    using pos by (intro mult_right_mono) auto
  moreover have "fl q - q = (of_int (round_even x) - x) * 2 powi e"
    using False by (simp add: fl_def Let_def e_def [symmetric] x_def left_diff_distrib)
  ultimately show ?thesis using pos by (simp add: abs_mult q)
qed

lemma fl_overflows_large:
  assumes "0 \<le> q" and "fl_overflows q"
  shows "2 ^ 1024 \<le> q"
proof -
  have e: "1024 \<le> fl_exponent q + 52" and q: "0 < q" using assms by (auto simp: fl_overflows_def)
  have "(2 :: rat) ^ 1024 = 2 powi 1024" by (simp add: power_int_def)
  also have "\<dots> \<le> 2 powi (52 + fl_exponent q)" using e by (intro power_int_increasing) auto
  also have "\<dots> = 2 ^ 52 * 2 powi (fl_exponent q)" by (subst power_int_add) simp_all
  also have "\<dots> \<le> q"
    using fl_exponent_range [OF q] by (subst (asm) pos_le_divide_eq) simp_all
  finally show ?thesis .
qed

lemma fl_nonneg: "0 \<le> q \<Longrightarrow> 0 \<le> fl q"
proof -
  assume q: "0 \<le> q"
  have "q / 2 ^ 53 \<le> q" using q by simp
  with fl_error [OF q] show "0 \<le> fl q" by linarith
qed

section \<open>Laws of JSON text\<close>

lemma insort_key_map_prod:
  "insort_key fst (map_prod id f x) (map (map_prod id f) xs) = map (map_prod id f) (insort_key fst x xs)"
  by (induction xs) auto

lemma sort_key_map_prod: "sort_key fst (map (map_prod id f) xs) = map (map_prod id f) (sort_key fst xs)"
  by (induction xs) (simp_all add: insort_key_map_prod [unfolded id_def])

lemma sort_key_sorted: "sort_key fst (sort_key fst xs) = sort_key fst xs"
  by (simp add: sort_key_id_if_sorted)

lemma json_dumps_sort_json: "json_dumps (sort_json v) = json_dumps v"
proof (induction v)
  case (JList xs)
  then show ?case by (simp cong: map_cong)
next
  case (JObj kvs)
  have "map (map_prod id (\<lambda>v. json_dumps (sort_json v))) kvs = map (map_prod id json_dumps) kvs"
    using JObj by (fastforce simp: snds.simps)
  then have "sort_key fst (map (map_prod id json_dumps) (sort_key fst (map (map_prod id sort_json) kvs)))
      = sort_key fst (map (map_prod id json_dumps) kvs)"
    by (simp only: sort_key_map_prod [symmetric] map_map prod.map_comp comp_def id_apply sort_key_sorted)
      (simp only: sort_key_map_prod sort_key_sorted map_map prod.map_comp comp_def id_def)
  then show ?case by simp
qed simp_all

lemma map_of_sort_key:
  assumes "distinct (map fst xs)"
  shows "map_of (sort_key fst xs) = map_of xs"
proof (rule map_of_inject_set [THEN iffD2])
  show "distinct (map fst (sort_key fst xs))"
    using assms by (simp only: distinct_map distinct_sort set_sort)
qed (simp_all add: assms)

lemma get_key_sort_json:
  assumes "distinct (map fst kvs)"
  shows "get_key (sort_json (JObj kvs)) k = sort_json (get_key (JObj kvs) k)"
proof -
  have "distinct (map fst (map (map_prod id sort_json) kvs))" using assms by (simp add: comp_def)
  then have "map_of (sort_key fst (map (map_prod id sort_json) kvs)) k = map_of (map (map_prod id sort_json) kvs) k"
    by (simp only: map_of_sort_key)
  also have "\<dots> = map_option sort_json (map_of kvs k)" by (induction kvs) auto
  finally show ?thesis by (simp split: option.split)
qed

end
