(* ===== verification/Rotation.thy ===== *)
theory Rotation
  imports Pyvalue "HOL-Library.Product_Lexorder"
begin

text \<open>
  \<open>src/app/services/rotation_derivation.py\<close>: from a final box score and its play-by-play to
  every player's stints, or a rejection. The documents are JSON values; every exception of the
  source, the intended rejections and those Python raises on ill-typed documents, is an error
  value. Times are integer centiseconds, as in the source.
\<close>

section \<open>Data\<close>

definition CENTISECONDS :: int where "CENTISECONDS = 100"
definition REGULATION_PERIODS :: int where "REGULATION_PERIODS = 4"
definition REGULATION_PERIOD_CS :: int where "REGULATION_PERIOD_CS = 12 * 60 * CENTISECONDS"
definition OVERTIME_PERIOD_CS :: int where "OVERTIME_PERIOD_CS = 5 * 60 * CENTISECONDS"
definition ON_COURT :: nat where "ON_COURT = 5"
definition MINUTES_TOLERANCE_CS :: int where "MINUTES_TOLERANCE_CS = CENTISECONDS"
definition PERIOD_KEYS :: "string list" where "PERIOD_KEYS = [''Q1'', ''Q2'', ''Q3'', ''Q4'', ''OT'']"
definition REGULATION_END_CS :: int where "REGULATION_END_CS = REGULATION_PERIODS * REGULATION_PERIOD_CS"

lemmas rotation_constants = CENTISECONDS_def REGULATION_PERIODS_def REGULATION_PERIOD_CS_def
  OVERTIME_PERIOD_CS_def ON_COURT_def MINUTES_TOLERANCE_CS_def REGULATION_END_CS_def

datatype rejection =
    NoGame | DifferentGame | NotFinal | BadPeriodCount | NoActions | MissingTeam
  | OnBothRosters int | NoStatistics int | MalformedClock string
  | StarterCount string nat | LineupCount string nat | UnknownPlayer int | OutsideClock
  | LeftWhileOff int | EnteredWhileOn int | UnknownSubstitution | MinutesDisagree int int int
  | NobodyOnCourt string | CourtCount string int int | NoGameDate
  | PastLastPeriod int int | SegmentBackwards int int int | SegmentLineup int nat int

datatype rotation_error = RotationRejected rejection | Python py_exn

datatype Stint = Stint (in_period: int) (in_clock_cs: int) (out_period: int) (out_clock_cs: int)
  (stint_minutes_cs: int)

record PlayerRotation =
  pr_player_id :: int
  pr_name :: string
  pr_team_tricode :: string
  pr_started :: bool
  pr_minutes_cs :: int
  pr_closed :: bool
  pr_period_cs :: "(string \<times> int) list"
  pr_stints :: "Stint list"

record GameRotation =
  gr_game_id :: string
  gr_game_date :: string
  gr_home_tricode :: string
  gr_away_tricode :: string
  gr_periods :: int
  gr_players :: "PlayerRotation list"

definition py :: "py_exn + 'a \<Rightarrow> rotation_error + 'a" where
  "py m = (case m of Inl e \<Rightarrow> Inl (Python e) | Inr x \<Rightarrow> Inr x)"

definition reject :: "rejection \<Rightarrow> rotation_error + 'a" where
  "reject r = Inl (RotationRejected r)"

section \<open>The game clock\<close>

definition period_length_cs :: "int \<Rightarrow> int" where
  "period_length_cs p = (if p \<le> REGULATION_PERIODS then REGULATION_PERIOD_CS else OVERTIME_PERIOD_CS)"

definition period_start_cs :: "int \<Rightarrow> int" where
  "period_start_cs p = sum_list (map period_length_cs [1..p - 1])"

definition period_key :: "int \<Rightarrow> string" where
  "period_key p = (if p \<le> REGULATION_PERIODS then ''Q'' @ show_int p else ''OT'')"

text \<open>The groups of \<open>PT(?:(\d+)H)?(?:(\d+)M)?(?:(\d+(?:\.\d+)?)S)?\Z\<close>. A group is optional and
  can match in one way only, since a digit is none of its terminators.\<close>

definition unit_group :: "char \<Rightarrow> string \<Rightarrow> string option \<times> string" where
  "unit_group u s =
     (let ds = takeWhile is_digit s
      in case dropWhile is_digit s of
           c # r \<Rightarrow> if ds \<noteq> [] \<and> c = u then (Some ds, r) else (None, s)
         | [] \<Rightarrow> (None, s))"

definition seconds_group :: "string \<Rightarrow> (string \<times> string) option \<times> string" where
  "seconds_group s =
     (let ds = takeWhile is_digit s; r = dropWhile is_digit s
      in if ds = [] then (None, s)
         else case r of
           [] \<Rightarrow> (None, s)
         | c # r1 \<Rightarrow>
             (if c = CHR ''S'' then (Some (ds, []), r1)
              else if c = CHR ''.'' then
                (let fs = takeWhile is_digit r1
                 in case dropWhile is_digit r1 of
                      d # r2 \<Rightarrow> if fs \<noteq> [] \<and> d = CHR ''S'' then (Some (ds, fs), r2) else (None, s)
                    | [] \<Rightarrow> (None, s))
              else (None, s)))"

definition clock_match ::
  "string \<Rightarrow> (string option \<times> string option \<times> (string \<times> string) option) option" where
  "clock_match s =
     (if \<not> starts_with ''PT'' s then None
      else let (h, s1) = unit_group (CHR ''H'') (drop 2 s);
               (m, s2) = unit_group (CHR ''M'') s1;
               (sec, s3) = seconds_group s2
           in if s3 = [] then Some (h, m, sec) else None)"

definition seconds_value :: "(string \<times> string) option \<Rightarrow> rat" where
  "seconds_value sec =
     (case sec of None \<Rightarrow> 0
      | Some (ds, fs) \<Rightarrow> of_nat (nat_of_digits ds) + of_nat (nat_of_digits fs) / 10 ^ length fs)"

definition digits_value :: "string option \<Rightarrow> int" where
  "digits_value g = (case g of None \<Rightarrow> 0 | Some ds \<Rightarrow> int (nat_of_digits ds))"

text \<open>\<open>round((int(hours or 0) * 3600 + int(minutes or 0) * 60 + float(seconds or 0)) * CENTISECONDS)\<close>
  in double precision.\<close>

definition clock_cs :: "int \<Rightarrow> rat \<Rightarrow> py_exn + int" where
  "clock_cs whole sec =
     (let total = fl (fl (of_int whole) + fl sec); x = fl (total * of_int CENTISECONDS)
      in if fl_overflows (fl (of_int whole)) \<or> fl_overflows (fl sec) \<or> fl_overflows total
            \<or> fl_overflows x
         then Inl OverflowError else Inr (round_even x))"

definition parse_clock_cs :: "json \<Rightarrow> rotation_error + int" where
  "parse_clock_cs v =
     (case clock_match (py_str v) of
        None \<Rightarrow> reject (MalformedClock (py_repr v))
      | Some (None, None, None) \<Rightarrow> reject (MalformedClock (py_repr v))
      | Some (h, m, sec) \<Rightarrow>
          py (clock_cs (digits_value h * 3600 + digits_value m * 60) (seconds_value sec)))"

definition clock_text :: "int \<Rightarrow> string" where
  "clock_text cs =
     (let seconds = cs div CENTISECONDS; r = show_int (seconds mod 60)
      in show_int (seconds div 60) @ '':'' @ (if length r < 2 then ''0'' @ r else r))"

section \<open>Reading the box score\<close>

text \<open>The dictionaries of the source as association lists in insertion order.\<close>

record roster =
  ro_teams :: "(int \<times> string) list"
  ro_names :: "(int \<times> string) list"
  ro_minutes :: "(int \<times> int) list"
  ro_starters :: "int list"
  ro_tricodes :: "string list"

definition empty_roster :: roster where
  "empty_roster = \<lparr>ro_teams = [], ro_names = [], ro_minutes = [], ro_starters = [], ro_tricodes = []\<rparr>"

definition on_roster :: "roster \<Rightarrow> int \<Rightarrow> bool" where
  "on_roster ro pid \<longleftrightarrow> pid \<in> fst ` set (ro_teams ro)"

definition read_player :: "string \<Rightarrow> json \<Rightarrow> roster \<Rightarrow> rotation_error + roster" where
  "read_player tricode player ro =
     and_then (py (and_then (py_item player ''personId'') py_int)) (\<lambda>pid.
       if on_roster ro pid then reject (OnBothRosters pid)
       else if \<not> is_mapping (get_key player ''statistics'') then reject (NoStatistics pid)
       else and_then (parse_clock_cs (get_key (get_key player ''statistics'') ''minutes'')) (\<lambda>minutes.
         Inr (ro\<lparr>ro_teams := ro_teams ro @ [(pid, tricode)],
                 ro_names := ro_names ro @ [(pid, py_str (py_or (get_key player ''name'') (JStr [])))],
                 ro_minutes := ro_minutes ro @ [(pid, minutes)],
                 ro_starters := (if py_str (get_key player ''starter'') = ''1''
                                 then ro_starters ro @ [pid] else ro_starters ro)\<rparr>)))"

definition read_team :: "json \<Rightarrow> string \<Rightarrow> roster \<Rightarrow> rotation_error + roster" where
  "read_team game side ro =
     (let team = get_key game side
      in if \<not> is_mapping team \<or> \<not> py_truth (get_key team ''teamTricode'') then reject MissingTeam
         else let tricode = py_str (get_key team ''teamTricode'')
              in and_then (py (py_iter (py_or (get_key team ''players'') (JList [])))) (\<lambda>players.
                   fold_res (read_player tricode) players
                     (ro\<lparr>ro_tricodes := ro_tricodes ro @ [tricode]\<rparr>)))"

definition read_roster :: "json \<Rightarrow> rotation_error + roster" where
  "read_roster game = fold_res (read_team game) [''homeTeam'', ''awayTeam''] empty_roster"

definition team_count :: "roster \<Rightarrow> string \<Rightarrow> int list \<Rightarrow> nat" where
  "team_count ro tricode ids = length (filter (\<lambda>p. map_of (ro_teams ro) p = Some tricode) ids)"

definition require_starters :: "roster \<Rightarrow> rotation_error + unit" where
  "require_starters ro =
     fold_res (\<lambda>t u. if team_count ro t (ro_starters ro) \<noteq> ON_COURT
                     then reject (StarterCount t (team_count ro t (ro_starters ro))) else Inr ())
       (ro_tricodes ro) ()"

section \<open>Replaying the substitutions\<close>

text \<open>A span is \<open>(began, at, in_period, in_clock, out_period, out_clock)\<close>. \<open>open_since\<close> maps a
  player on court to \<open>(began, in_period, in_clock)\<close>; \<open>spans\<close> lists closed spans with their
  player, in the order they were closed.\<close>

type_synonym span = "int \<times> int \<times> int \<times> int \<times> int \<times> int"

record court =
  open_since :: "(int \<times> int \<times> int \<times> int) list"
  spans :: "(int \<times> span) list"

definition on_court :: "court \<Rightarrow> int \<Rightarrow> bool" where
  "on_court co pid \<longleftrightarrow> pid \<in> fst ` set (open_since co)"

definition close_span :: "int \<Rightarrow> int \<Rightarrow> int \<Rightarrow> int \<Rightarrow> court \<Rightarrow> court" where
  "close_span pid at_cs period clock co =
     (case map_of (open_since co) pid of
        None \<Rightarrow> co
      | Some (began, ip, ic) \<Rightarrow>
          co\<lparr>open_since := filter (\<lambda>(p, _). p \<noteq> pid) (open_since co),
             spans := spans co @ [(pid, (began, at_cs, ip, ic, period, clock))]\<rparr>)"

text \<open>\<open>require_lineups\<close>; building its message reads \<open>action['actionType']\<close> when the action has
  a number.\<close>

definition require_lineups :: "roster \<Rightarrow> court \<Rightarrow> json \<Rightarrow> rotation_error + unit" where
  "require_lineups ro co action =
     fold_res (\<lambda>t u.
       let n = team_count ro t (map fst (open_since co))
       in if n \<noteq> ON_COURT
          then (if has_key action ''actionNumber''
                then and_then (py (py_item action ''actionType'')) (\<lambda>_. reject (LineupCount t n))
                else reject (LineupCount t n))
          else Inr ()) (ro_tricodes ro) ()"

definition substitute :: "roster \<Rightarrow> int \<Rightarrow> json \<Rightarrow> court \<Rightarrow> rotation_error + court" where
  "substitute ro periods action co =
     and_then (py (and_then (py_item action ''personId'') py_int)) (\<lambda>pid.
     and_then (py (and_then (py_item action ''period'') py_int)) (\<lambda>period.
     and_then (and_then (py (py_item action ''clock'')) parse_clock_cs) (\<lambda>clock.
       if \<not> on_roster ro pid then reject (UnknownPlayer pid)
       else if period < 1 \<or> periods < period \<or> period_length_cs period < clock then reject OutsideClock
       else
         let at_cs = period_start_cs period + period_length_cs period - clock;
             direction = get_key action ''subType''
         in if direction = JStr ''out'' then
              (if \<not> on_court co pid then reject (LeftWhileOff pid)
               else if 1 < period \<and> clock = period_length_cs period
               then Inr (close_span pid at_cs (period - 1) 0 co)
               else Inr (close_span pid at_cs period clock co))
            else if direction = JStr ''in'' then
              (if on_court co pid then reject (EnteredWhileOn pid)
               else Inr (co\<lparr>open_since := open_since co @ [(pid, at_cs, period, clock)]\<rparr>))
            else reject UnknownSubstitution)))"

definition replay_action :: "roster \<Rightarrow> int \<Rightarrow> json \<Rightarrow> court \<Rightarrow> rotation_error + court" where
  "replay_action ro periods action co =
     and_then (py (py_get action ''actionType'')) (\<lambda>kind.
       if kind \<noteq> JStr ''substitution''
       then and_then (require_lineups ro co action) (\<lambda>_. Inr co)
       else substitute ro periods action co)"

definition opening_court :: "roster \<Rightarrow> court" where
  "opening_court ro =
     \<lparr>open_since = map (\<lambda>p. (p, 0, 1, REGULATION_PERIOD_CS)) (ro_starters ro), spans = []\<rparr>"

definition close_all :: "int \<Rightarrow> int \<Rightarrow> court \<Rightarrow> court" where
  "close_all end_cs periods co =
     fold (\<lambda>p. close_span p end_cs periods 0) (map fst (open_since co)) co"

definition replay :: "roster \<Rightarrow> int \<Rightarrow> int \<Rightarrow> json list \<Rightarrow> rotation_error + court" where
  "replay ro periods end_cs actions =
     and_then (fold_res (replay_action ro periods) actions (opening_court ro)) (\<lambda>co.
     and_then (require_lineups ro co (JObj [])) (\<lambda>_. Inr (close_all end_cs periods co)))"

section \<open>Stints\<close>

text \<open>The loop of \<open>_merged_stints\<close>; \<open>acc\<close> is \<open>merged\<close>, last element first.\<close>

fun merge_push :: "span \<Rightarrow> span list \<Rightarrow> span list" where
  "merge_push (began, finish, ip, ic, op, oc) [] = [(began, finish, ip, ic, op, oc)]"
| "merge_push (began, finish, ip, ic, op, oc) ((b, f, ip', ic', op', oc') # acc) =
     (if f = began then (b, finish, ip', ic', op, oc) # acc
      else (began, finish, ip, ic, op, oc) # (b, f, ip', ic', op', oc') # acc)"

fun merge_loop :: "span list \<Rightarrow> span list \<Rightarrow> span list" where
  "merge_loop [] acc = rev acc"
| "merge_loop ((began, finish, r) # ss) acc =
     (if finish \<le> began then merge_loop ss acc
      else merge_loop ss (merge_push (began, finish, r) acc))"

definition merged_stints :: "span list \<Rightarrow> (int \<times> int \<times> Stint) list" where
  "merged_stints ss =
     map (\<lambda>(began, finish, ip, ic, op, oc). (began, finish, Stint ip ic op oc (finish - began)))
       (merge_loop (sort ss) [])"

definition spans_of :: "court \<Rightarrow> int \<Rightarrow> span list" where
  "spans_of co pid = map snd (filter (\<lambda>(p, _). p = pid) (spans co))"

definition add_overlap :: "int \<Rightarrow> int \<Rightarrow> int \<Rightarrow> (string \<Rightarrow> int) \<Rightarrow> (string \<Rightarrow> int)" where
  "add_overlap begins finish period m =
     (let overlap = min finish (period_start_cs period + period_length_cs period)
                    - max begins (period_start_cs period)
      in if 0 < overlap then m(period_key period := m (period_key period) + overlap) else m)"

definition period_split :: "int \<Rightarrow> (int \<times> int \<times> Stint) list \<Rightarrow> string \<Rightarrow> int" where
  "period_split periods stints =
     fold (\<lambda>(b, f, _). fold (add_overlap b f) [1..periods]) stints (\<lambda>_. 0)"

definition closed_game :: "(int \<times> int \<times> Stint) list \<Rightarrow> bool" where
  "closed_game stints = (\<exists>(b, f, s) \<in> set stints. b < REGULATION_END_CS \<and> REGULATION_END_CS \<le> f)"

definition player_rotation ::
  "roster \<Rightarrow> int \<Rightarrow> court \<Rightarrow> int \<Rightarrow> rotation_error + PlayerRotation \<times> (int \<times> int) list" where
  "player_rotation ro periods co pid =
     (let stints = merged_stints (spans_of co pid);
          total = sum_list (map (\<lambda>(_, _, s). stint_minutes_cs s) stints);
          box = the (map_of (ro_minutes ro) pid)
      in if MINUTES_TOLERANCE_CS < \<bar>total - box\<bar> then reject (MinutesDisagree pid total box)
         else Inr (\<lparr>pr_player_id = pid, pr_name = the (map_of (ro_names ro) pid),
                    pr_team_tricode = the (map_of (ro_teams ro) pid),
                    pr_started = (pid \<in> set (ro_starters ro)), pr_minutes_cs = box,
                    pr_closed = closed_game stints,
                    pr_period_cs = map (\<lambda>k. (k, period_split periods stints k)) PERIOD_KEYS,
                    pr_stints = map (\<lambda>(_, _, s). s) stints\<rparr>,
                   map (\<lambda>(b, f, _). (b, f)) stints))"

section \<open>Five on court\<close>

definition change :: "(int \<times> int) list \<Rightarrow> int \<Rightarrow> int" where
  "change intervals t =
     int (count_list (map fst intervals) t) - int (count_list (map snd intervals) t)"

definition moments :: "(int \<times> int) list \<Rightarrow> int list" where
  "moments intervals = sort (remdups (map fst intervals @ map snd intervals))"

fun check_counts :: "string \<Rightarrow> (int \<Rightarrow> int) \<Rightarrow> int list \<Rightarrow> int \<Rightarrow> rotation_error + unit" where
  "check_counts tricode ch [] n = Inr ()"
| "check_counts tricode ch (m # ms) n =
     (if n + ch m \<noteq> int ON_COURT then reject (CourtCount tricode (n + ch m) m)
      else check_counts tricode ch ms (n + ch m))"

definition require_five_on_court :: "string \<Rightarrow> (int \<times> int) list \<Rightarrow> int \<Rightarrow> rotation_error + unit" where
  "require_five_on_court tricode intervals end_cs =
     (let ms = moments intervals
      in if ms = [] \<or> hd ms \<noteq> 0 \<or> last ms \<noteq> end_cs then reject (NobodyOnCourt tricode)
         else check_counts tricode (change intervals) (butlast ms) 0)"

section \<open>The whole derivation\<close>

definition date_prefix :: "string \<Rightarrow> bool" where
  "date_prefix s \<longleftrightarrow> 10 \<le> length s
     \<and> (\<forall>i \<in> set [0, 1, 2, 3, 5, 6, 8, 9]. is_digit (s ! i)) \<and> s ! 4 = CHR ''-'' \<and> s ! 7 = CHR ''-''"

definition game_date :: "json \<Rightarrow> rotation_error + string" where
  "game_date game =
     (let tip = py_str (py_or (get_key game ''gameEt'') (JStr []))
      in if date_prefix tip then Inr (take 10 tip) else reject NoGameDate)"

text \<open>The checks before anything is read: the two games, their id, the status, the number of
  periods (an \<open>int\<close>; a \<open>bool\<close> is one, and below four) and the actions.\<close>

definition read_documents :: "json \<Rightarrow> json \<Rightarrow> rotation_error + json \<times> int \<times> json list" where
  "read_documents box pbp =
     (let game = get_key box ''game''; pbp_game = get_key pbp ''game''
      in if \<not> is_mapping game \<or> \<not> is_mapping pbp_game then reject NoGame
         else if py_str (get_key pbp_game ''gameId'') \<noteq> py_str (get_key game ''gameId'')
         then reject DifferentGame
         else if \<not> py_eq (get_key game ''gameStatus'') (JInt 3) then reject NotFinal
         else case get_key game ''period'' of
           JInt periods \<Rightarrow>
             (if periods < REGULATION_PERIODS then reject BadPeriodCount
              else case get_key pbp_game ''actions'' of
                     JList actions \<Rightarrow> Inr (game, periods, actions)
                   | _ \<Rightarrow> reject NoActions)
         | _ \<Rightarrow> reject BadPeriodCount)"

definition team_intervals ::
  "string \<Rightarrow> (PlayerRotation \<times> (int \<times> int) list) list \<Rightarrow> (int \<times> int) list" where
  "team_intervals tricode rs =
     concat (map (\<lambda>(r, ivs). if pr_team_tricode r = tricode then ivs else []) rs)"

definition game_end_cs :: "int \<Rightarrow> int" where
  "game_end_cs periods = period_start_cs periods + period_length_cs periods"

definition derive_rotation :: "json \<Rightarrow> json \<Rightarrow> rotation_error + GameRotation" where
  "derive_rotation box pbp =
     and_then (read_documents box pbp) (\<lambda>(game, periods, actions).
     and_then (read_roster game) (\<lambda>ro.
     and_then (require_starters ro) (\<lambda>_.
     and_then (replay ro periods (game_end_cs periods) actions) (\<lambda>co.
     and_then (map_res (player_rotation ro periods co) (sort (map fst (ro_teams ro)))) (\<lambda>rs.
     and_then (fold_res (\<lambda>t u. require_five_on_court t (team_intervals t rs) (game_end_cs periods))
                 (remdups (ro_tricodes ro)) ()) (\<lambda>_.
     and_then (game_date game) (\<lambda>date.
       Inr \<lparr>gr_game_id = py_str (get_key game ''gameId''), gr_game_date = date,
            gr_home_tricode = ro_tricodes ro ! 0, gr_away_tricode = ro_tricodes ro ! 1,
            gr_periods = periods, gr_players = map fst rs\<rparr>)))))))"


section \<open>Moments of the game\<close>

definition moment_cs :: "int \<Rightarrow> int \<Rightarrow> int" where
  "moment_cs period clock = period_start_cs period + period_length_cs period - clock"

lemma py_Inr [result_simps]: "py m = Inr x \<longleftrightarrow> m = Inr x"
  by (cases m) (auto simp: py_def)

lemma reject_neq [simp, result_simps]: "reject r \<noteq> Inr x" "Inr x \<noteq> reject r"
  by (simp_all add: reject_def)

lemma period_start_1 [simp]: "period_start_cs 1 = 0"
  by (simp add: period_start_cs_def)

lemma period_start_step:
  assumes "1 \<le> p"
  shows "period_start_cs (p + 1) = period_start_cs p + period_length_cs p"
proof -
  have "[1..p] = [1..p - 1] @ [p]" using assms by (simp add: upto_rec2)
  then show ?thesis by (simp add: period_start_cs_def)
qed

lemma period_length_pos: "0 < period_length_cs p"
  by (simp add: period_length_cs_def rotation_constants)

lemma period_start_mono:
  assumes "1 \<le> p" and "p \<le> q"
  shows "period_start_cs p \<le> period_start_cs q"
  using assms(2)
proof (induction q rule: int_ge_induct)
  case (step i)
  then show ?case using assms(1) period_start_step [of i] period_length_pos [of i] by simp
qed simp

lemma game_end_eq: "1 \<le> p \<Longrightarrow> game_end_cs p = period_start_cs (p + 1)"
  by (simp add: game_end_cs_def period_start_step)

section \<open>Counting coverage\<close>

definition covering :: "int \<Rightarrow> (int \<times> int) list \<Rightarrow> nat" where
  "covering t ivs = length (filter (\<lambda>(b, f). b \<le> t \<and> t < f) ivs)"

lemma covering_append [simp]: "covering t (xs @ ys) = covering t xs + covering t ys"
  by (simp add: covering_def)

lemma covering_Nil [simp]: "covering t [] = 0"
  by (simp add: covering_def)

lemma covering_Cons [simp]:
  "covering t ((b, f) # ivs) = (if b \<le> t \<and> t < f then Suc (covering t ivs) else covering t ivs)"
  by (simp add: covering_def)

lemma covering_difference:
  assumes "\<forall>(b, f) \<in> set ivs. b \<le> f"
  shows "int (covering t ivs) = int (length (filter (\<lambda>b. b \<le> t) (map fst ivs)))
    - int (length (filter (\<lambda>f. f \<le> t) (map snd ivs)))"
  using assms by (induction ivs) auto

lemma sum_change:
  assumes "set (map fst ivs) \<subseteq> S" and "set (map snd ivs) \<subseteq> S" and "finite S"
  shows "(\<Sum>x \<in> {x \<in> S. x \<le> t}. change ivs x)
    = int (length (filter (\<lambda>b. b \<le> t) (map fst ivs))) - int (length (filter (\<lambda>f. f \<le> t) (map snd ivs)))"
proof -
  have *: "(\<Sum>x \<in> {x \<in> S. x \<le> t}. count_list xs x) = length (filter (\<lambda>b. b \<le> t) xs)"
    if "set xs \<subseteq> S" for xs :: "int list"
    using that
  proof (induction xs)
    case (Cons a xs)
    have "(\<Sum>x \<in> {x \<in> S. x \<le> t}. count_list (a # xs) x)
        = (\<Sum>x \<in> {x \<in> S. x \<le> t}. count_list xs x) + (\<Sum>x \<in> {x \<in> S. x \<le> t}. if a = x then 1 else 0)"
      by (simp flip: sum.distrib) (rule sum.cong, auto)
    with Cons assms(3) show ?case by auto
  qed simp
  show ?thesis
    using * [OF assms(1)] * [OF assms(2)]
    by (simp add: change_def sum_subtractf flip: of_nat_sum)
qed

lemma check_counts_sound:
  assumes "check_counts tri ch ms n = Inr ()" and "sorted ms" and "distinct ms" and "m \<in> set ms"
  shows "n + (\<Sum>x \<in> {x \<in> set ms. x \<le> m}. ch x) = int ON_COURT"
  using assms
proof (induction tri ch ms n rule: check_counts.induct)
  case (2 tri ch a ms n)
  then have a: "n + ch a = int ON_COURT" and rest: "check_counts tri ch ms (n + ch a) = Inr ()"
    by (auto split: if_splits)
  show ?case
  proof (cases "m = a")
    case True
    then have "{x \<in> set (a # ms). x \<le> m} = {a}" using "2.prems"(2,3) by fastforce
    with a show ?thesis by simp
  next
    case False
    then have m: "m \<in> set ms" and le: "a \<le> m" using "2.prems"(2,4) by auto
    then have "{x \<in> set (a # ms). x \<le> m} = insert a {x \<in> set ms. x \<le> m}" by auto
    moreover have "a \<notin> {x \<in> set ms. x \<le> m}" using "2.prems"(3) by simp
    moreover have "n + ch a + (\<Sum>x \<in> {x \<in> set ms. x \<le> m}. ch x) = int ON_COURT"
      using "2.IH" [OF _ rest] a "2.prems"(2,3) m by simp
    ultimately show ?thesis by simp
  qed
qed simp

lemma require_five_sound:
  assumes ok: "require_five_on_court tri ivs end_cs = Inr ()" and wf: "\<forall>(b, f) \<in> set ivs. b \<le> f"
    and t: "0 \<le> t" "t < end_cs"
  shows "covering t ivs = ON_COURT"
proof -
  let ?ms = "moments ivs" and ?S = "set (moments ivs)"
  have S: "set (map fst ivs) \<subseteq> ?S" "set (map snd ivs) \<subseteq> ?S" by (auto simp: moments_def)
  have sd: "sorted ?ms" "distinct ?ms" by (simp_all add: moments_def)
  have ms: "?ms \<noteq> []" "hd ?ms = 0" "last ?ms = end_cs"
    and chk: "check_counts tri (change ivs) (butlast ?ms) 0 = Inr ()"
    using ok by (auto simp: require_five_on_court_def Let_def split: if_splits)
  have split: "?ms = butlast ?ms @ [end_cs]" using append_butlast_last_id [OF ms(1)] ms(3) by simp
  then have S_eq: "?S = insert end_cs (set (butlast ?ms))"
    by (metis list.simps(15) rotate1.simps(2) set_rotate1)
  define m where "m = Max {x \<in> ?S. x \<le> t}"
  have "0 \<in> {x \<in> ?S. x \<le> t}" using hd_in_set [OF ms(1)] ms(2) t(1) by simp
  then have m: "m \<in> {x \<in> ?S. x \<le> t}" unfolding m_def by (intro Max_in) auto
  then have mb: "m \<in> set (butlast ?ms)" using S_eq t(2) by auto
  have "{x \<in> ?S. x \<le> t} = {x \<in> set (butlast ?ms). x \<le> m}"
  proof (intro subset_antisym subsetI)
    fix x assume x: "x \<in> {x \<in> ?S. x \<le> t}"
    then have "x \<le> m" unfolding m_def by (intro Max_ge) auto
    with x show "x \<in> {x \<in> set (butlast ?ms). x \<le> m}" using S_eq t(2) by auto
  next
    fix x assume "x \<in> {x \<in> set (butlast ?ms). x \<le> m}"
    with m show "x \<in> {x \<in> ?S. x \<le> t}" by (auto dest: in_set_butlastD)
  qed
  moreover have "sorted (butlast ?ms)" "distinct (butlast ?ms)"
    using sd split by (metis sorted_append) (simp add: distinct_butlast sd)
  ultimately have "(\<Sum>x \<in> {x \<in> ?S. x \<le> t}. change ivs x) = int ON_COURT"
    using check_counts_sound [OF chk _ _ mb] by simp
  with sum_change [OF S, of t] covering_difference [OF wf, of t] show ?thesis by simp
qed

section \<open>Stints and spans\<close>

definition span_ok :: "span \<Rightarrow> bool" where
  "span_ok sp \<longleftrightarrow> (case sp of (b, f, ip, ic, op, oc) \<Rightarrow> b = moment_cs ip ic \<and> f = moment_cs op oc)"

definition court_ok :: "court \<Rightarrow> bool" where
  "court_ok co \<longleftrightarrow> (\<forall>(p, b, ip, ic) \<in> set (open_since co). b = moment_cs ip ic)
     \<and> (\<forall>(p, sp) \<in> set (spans co). span_ok sp)"

lemma close_span_ok:
  assumes "court_ok co" and "at_cs = moment_cs period clock"
  shows "court_ok (close_span pid at_cs period clock co)"
  using assms
  by (auto simp: close_span_def court_ok_def span_ok_def split: option.splits dest!: map_of_SomeD)

lemma fold_close_ok:
  "court_ok co \<Longrightarrow> at_cs = moment_cs period clock
   \<Longrightarrow> court_ok (fold (\<lambda>p. close_span p at_cs period clock) ps co)"
  by (induction ps arbitrary: co) (auto intro: close_span_ok)

lemma moment_previous_end: "1 < p \<Longrightarrow> moment_cs p (period_length_cs p) = moment_cs (p - 1) 0"
  using period_start_step [of "p - 1"] by (simp add: moment_cs_def)

lemma substitute_ok:
  assumes "court_ok co" and "substitute ro periods action co = Inr co'"
  shows "court_ok co'"
proof -
  have start: "court_ok (close_span pid (period_start_cs period) (period - 1) 0 co)" if "1 < period" for pid period
    using assms(1) moment_previous_end [OF that] by (intro close_span_ok) (simp_all add: moment_cs_def)
  have inside: "court_ok (close_span pid (period_start_cs period + period_length_cs period - clock) period clock co)"
    for pid period clock
    using assms(1) by (intro close_span_ok) (simp_all add: moment_cs_def)
  have enter: "court_ok (co\<lparr>open_since := open_since co @
      [(pid, period_start_cs period + period_length_cs period - clock, period, clock)]\<rparr>)" for pid period clock
    using assms(1) by (auto simp: court_ok_def moment_cs_def)
  from assms(2) start inside enter show ?thesis
    by (auto simp: substitute_def result_simps Let_def simp del: period_start_1 split: if_splits)
qed

lemma replay_action_ok:
  "court_ok co \<Longrightarrow> replay_action ro periods action co = Inr co' \<Longrightarrow> court_ok co'"
  by (auto simp: replay_action_def result_simps split: if_splits intro: substitute_ok)

lemma replay_ok:
  assumes "replay ro periods (game_end_cs periods) actions = Inr co"
  shows "court_ok co"
proof -
  from assms obtain c where c: "fold_res (replay_action ro periods) actions (opening_court ro) = Inr c"
    "co = close_all (game_end_cs periods) periods c"
    by (auto simp: replay_def result_simps)
  have "court_ok (opening_court ro)"
    by (auto simp: court_ok_def opening_court_def moment_cs_def period_length_cs_def rotation_constants)
  then have "court_ok c"
    by (rule fold_res_invariant [where P = court_ok, OF c(1)]) (blast intro: replay_action_ok)
  with c(2) show ?thesis
    by (auto simp: close_all_def game_end_cs_def moment_cs_def intro!: fold_close_ok)
qed

definition proper :: "span \<Rightarrow> bool" where
  "proper sp \<longleftrightarrow> span_ok sp \<and> fst sp < fst (snd sp)"

lemma merge_push_proper:
  "proper sp \<Longrightarrow> \<forall>sp \<in> set acc. proper sp \<Longrightarrow> \<forall>sp \<in> set (merge_push sp acc). proper sp"
  by (induction sp acc rule: merge_push.induct) (auto simp: proper_def span_ok_def)

lemma merge_loop_proper:
  "\<forall>sp \<in> set ss. span_ok sp \<Longrightarrow> \<forall>sp \<in> set acc. proper sp \<Longrightarrow> \<forall>sp \<in> set (merge_loop ss acc). proper sp"
proof (induction ss acc rule: merge_loop.induct)
  case (2 began finish r ss acc)
  show ?case
  proof (cases "finish \<le> began")
    case True
    with "2.IH"(1) "2.prems" show ?thesis by simp
  next
    case False
    then have "proper (began, finish, r)" using "2.prems"(1) by (simp add: proper_def)
    from merge_push_proper [OF this "2.prems"(2)] "2.IH"(2) [OF False] "2.prems"(1) False
    show ?thesis by simp
  qed
qed simp

text \<open>An output stint occupies the time from its entry to its exit, and lasts that long.\<close>

definition stint_interval :: "Stint \<Rightarrow> int \<times> int" where
  "stint_interval s = (moment_cs (in_period s) (in_clock_cs s), moment_cs (out_period s) (out_clock_cs s))"

lemma merged_stints_proper:
  assumes "\<forall>sp \<in> set ss. span_ok sp" and "(b, f, s) \<in> set (merged_stints ss)"
  shows "stint_interval s = (b, f) \<and> b < f \<and> stint_minutes_cs s = f - b"
proof -
  from assms(2) obtain sp where sp: "sp \<in> set (merge_loop (sort ss) [])"
    and eq: "(b, f, s) = (case sp of (began, finish, ip, ic, op, oc)
      \<Rightarrow> (began, finish, Stint ip ic op oc (finish - began)))"
    unfolding merged_stints_def set_map by (rule imageE)
  obtain began finish ip ic op oc where c: "sp = (began, finish, ip, ic, op, oc)"
    by (rule prod_cases6)
  have "\<forall>sp \<in> set (merge_loop (sort ss) []). proper sp"
    by (rule merge_loop_proper) (use assms(1) in simp_all)
  then have "proper sp" using sp by (rule bspec)
  then show ?thesis using eq by (simp add: c proper_def span_ok_def stint_interval_def)
qed

lemma spans_of_ok: "court_ok co \<Longrightarrow> \<forall>sp \<in> set (spans_of co pid). span_ok sp"
  by (auto simp: court_ok_def spans_of_def)

definition stint_covers :: "int \<Rightarrow> Stint \<Rightarrow> bool" where
  "stint_covers t s \<longleftrightarrow> fst (stint_interval s) \<le> t \<and> t < snd (stint_interval s)"

lemma player_rotation_intervals:
  assumes "court_ok co" and "player_rotation ro periods co pid = Inr (r, ivs)"
  shows "ivs = map stint_interval (pr_stints r)"
    and "\<forall>s \<in> set (pr_stints r). fst (stint_interval s) < snd (stint_interval s)
           \<and> stint_minutes_cs s = snd (stint_interval s) - fst (stint_interval s)"
    and "\<bar>sum_list (map stint_minutes_cs (pr_stints r)) - pr_minutes_cs r\<bar> \<le> MINUTES_TOLERANCE_CS"
proof -
  note ok = merged_stints_proper [OF spans_of_ok [OF assms(1)], of _ _ _ pid]
  show "ivs = map stint_interval (pr_stints r)"
    using assms(2) ok by (auto simp: player_rotation_def Let_def split: if_splits)
  show "\<forall>s \<in> set (pr_stints r). fst (stint_interval s) < snd (stint_interval s)
           \<and> stint_minutes_cs s = snd (stint_interval s) - fst (stint_interval s)"
    using assms(2) ok by (fastforce simp: player_rotation_def Let_def split: if_splits)
  show "\<bar>sum_list (map stint_minutes_cs (pr_stints r)) - pr_minutes_cs r\<bar> \<le> MINUTES_TOLERANCE_CS"
    using assms(2)
    by (auto simp: player_rotation_def Let_def o_def case_prod_unfold split: if_splits)
qed


section \<open>The roster\<close>

definition roster_ok :: "roster \<Rightarrow> bool" where
  "roster_ok ro \<longleftrightarrow> (\<forall>(p, t) \<in> set (ro_teams ro). t \<in> set (ro_tricodes ro))"

lemma read_player_ok:
  assumes "read_player tri player ro = Inr ro'"
  shows "ro_tricodes ro' = ro_tricodes ro"
    and "roster_ok ro \<Longrightarrow> tri \<in> set (ro_tricodes ro) \<Longrightarrow> roster_ok ro'"
  using assms by (auto simp: read_player_def result_simps roster_ok_def split: if_splits)

lemma read_team_ok:
  assumes "read_team game side ro = Inr ro'"
  shows "\<exists>tri. ro_tricodes ro' = ro_tricodes ro @ [tri]"
    and "roster_ok ro \<Longrightarrow> roster_ok ro'"
proof -
  from assms obtain tri players where
    f: "fold_res (read_player tri) players (ro\<lparr>ro_tricodes := ro_tricodes ro @ [tri]\<rparr>) = Inr ro'"
    by (auto simp: read_team_def result_simps Let_def split: if_splits)
  have tr: "ro_tricodes ro' = ro_tricodes ro @ [tri]"
    by (rule fold_res_invariant [where P = "\<lambda>r. ro_tricodes r = ro_tricodes ro @ [tri]", OF f])
      (auto dest: read_player_ok(1))
  then show "\<exists>tri. ro_tricodes ro' = ro_tricodes ro @ [tri]" by blast
  assume "roster_ok ro"
  then have "roster_ok ro' \<and> tri \<in> set (ro_tricodes ro')"
    by (intro fold_res_invariant [where P = "\<lambda>r. roster_ok r \<and> tri \<in> set (ro_tricodes r)", OF f])
      (simp add: roster_ok_def, blast, metis read_player_ok)
  then show "roster_ok ro'" by blast
qed

lemma read_roster_ok:
  assumes "read_roster game = Inr ro"
  shows "roster_ok ro \<and> (\<exists>h a. ro_tricodes ro = [h, a])"
proof -
  from assms obtain r1 where r: "read_team game ''homeTeam'' empty_roster = Inr r1"
    "read_team game ''awayTeam'' r1 = Inr ro"
    by (auto simp: read_roster_def result_simps)
  have "roster_ok empty_roster" by (simp add: roster_ok_def empty_roster_def)
  with read_team_ok [OF r(1)] read_team_ok [OF r(2)] show ?thesis by (auto simp: empty_roster_def)
qed

section \<open>What an accepted game satisfies\<close>

definition team_stints :: "GameRotation \<Rightarrow> string \<Rightarrow> Stint list" where
  "team_stints g tri = concat (map pr_stints (filter (\<lambda>p. pr_team_tricode p = tri) (gr_players g)))"

definition intervals_of :: "(PlayerRotation \<times> (int \<times> int) list) list \<Rightarrow> bool" where
  "intervals_of rs \<longleftrightarrow> (\<forall>(r, ivs) \<in> set rs. ivs = map stint_interval (pr_stints r))"

lemma team_intervals_stints:
  "intervals_of rs \<Longrightarrow> team_intervals tri rs
     = map stint_interval (concat (map pr_stints (filter (\<lambda>p. pr_team_tricode p = tri) (map fst rs))))"
  by (induction rs) (auto simp: team_intervals_def intervals_of_def)

lemma fold_res_unit_all:
  "fold_res (\<lambda>t u. f t) xs () = Inr () \<longleftrightarrow> (\<forall>x \<in> set xs. f x = Inr ())"
  by (induction xs) (auto simp: result_simps)

text \<open>The facts about the intermediate results that the properties use.\<close>

lemma derive_rotationE:
  assumes "derive_rotation box pbp = Inr g"
  obtains ro co where "court_ok co" "roster_ok ro"
    "ro_tricodes ro = [gr_home_tricode g, gr_away_tricode g]" "REGULATION_PERIODS \<le> gr_periods g"
    "\<And>p. p \<in> set (gr_players g) \<Longrightarrow>
       \<exists>pid ivs. pid \<in> fst ` set (ro_teams ro) \<and> player_rotation ro (gr_periods g) co pid = Inr (p, ivs)"
    "\<And>tri. tri \<in> set (ro_tricodes ro) \<Longrightarrow>
       require_five_on_court tri (map stint_interval (team_stints g tri)) (game_end_cs (gr_periods g)) = Inr ()"
proof -
  from assms obtain game periods actions ro co rs date where
    1: "read_documents box pbp = Inr (game, periods, actions)" and 2: "read_roster game = Inr ro"
    and 3: "replay ro periods (game_end_cs periods) actions = Inr co"
    and 4: "map_res (player_rotation ro periods co) (sort (map fst (ro_teams ro))) = Inr rs"
    and 5: "fold_res (\<lambda>t u. require_five_on_court t (team_intervals t rs) (game_end_cs periods))
                 (remdups (ro_tricodes ro)) () = Inr ()"
    and g: "g = \<lparr>gr_game_id = py_str (get_key game ''gameId''), gr_game_date = date,
            gr_home_tricode = ro_tricodes ro ! 0, gr_away_tricode = ro_tricodes ro ! 1,
            gr_periods = periods, gr_players = map fst rs\<rparr>"
    by (auto simp: derive_rotation_def result_simps)
  have co: "court_ok co" by (rule replay_ok [OF 3])
  have each: "\<exists>pid \<in> fst ` set (ro_teams ro). player_rotation ro periods co pid = Inr x" if "x \<in> set rs" for x
    using map_res_mem [OF 4 that] by simp
  have ivs: "intervals_of rs"
    using each player_rotation_intervals(1) [OF co] by (fastforce simp: intervals_of_def)
  have per: "REGULATION_PERIODS \<le> periods"
    using 1 by (auto simp: read_documents_def Let_def split: if_splits json.splits)
  obtain h a where ha: "ro_tricodes ro = [h, a]" and rok: "roster_ok ro"
    using read_roster_ok [OF 2] by blast
  show thesis
  proof (rule that [OF co rok])
    show "ro_tricodes ro = [gr_home_tricode g, gr_away_tricode g]" by (simp add: g ha)
    show "REGULATION_PERIODS \<le> gr_periods g" by (simp add: g per)
    show "\<exists>pid ivs. pid \<in> fst ` set (ro_teams ro) \<and> player_rotation ro (gr_periods g) co pid = Inr (p, ivs)"
      if p: "p \<in> set (gr_players g)" for p
    proof -
      from p obtain ivs where "(p, ivs) \<in> set rs" by (auto simp: g)
      with each [of "(p, ivs)"] show ?thesis by (auto simp: g)
    qed
    show "require_five_on_court tri (map stint_interval (team_stints g tri)) (game_end_cs (gr_periods g)) = Inr ()"
      if "tri \<in> set (ro_tricodes ro)" for tri
    proof -
      have "require_five_on_court tri (team_intervals tri rs) (game_end_cs periods) = Inr ()"
        using 5 that by (simp add: fold_res_unit_all)
      then show ?thesis
        unfolding team_intervals_stints [OF ivs] team_stints_def by (simp add: g)
    qed
  qed
qed

lemma accepted_stints:
  assumes "derive_rotation box pbp = Inr g" and "p \<in> set (gr_players g)" and "s \<in> set (pr_stints p)"
  shows "fst (stint_interval s) < snd (stint_interval s)
    \<and> stint_minutes_cs s = snd (stint_interval s) - fst (stint_interval s)"
  using assms player_rotation_intervals(2) by (elim derive_rotationE) (meson assms(2,3))

lemma accepted_team_check:
  assumes "derive_rotation box pbp = Inr g" and "tri \<in> {gr_home_tricode g, gr_away_tricode g}"
  shows "require_five_on_court tri (map stint_interval (team_stints g tri)) (game_end_cs (gr_periods g))
    = Inr ()"
  by (rule derive_rotationE [OF assms(1)]) (use assms(2) in auto)

lemma covering_stints:
  "covering t (map stint_interval ss) = length (filter (stint_covers t) ss)"
  by (induction ss) (auto simp: covering_def stint_covers_def)

text \<open>
  C28. An accepted rotation puts exactly five players of each team on court at every moment of
  the game: at every centisecond from tip-off to the end, exactly five of the team's stints,
  read as the time from their entry clock to their exit clock, are running.
\<close>

theorem accepted_rotation_five_on_court:
  assumes "derive_rotation box pbp = Inr g" and "tri \<in> {gr_home_tricode g, gr_away_tricode g}"
    and "0 \<le> t" and "t < game_end_cs (gr_periods g)"
  shows "length (filter (stint_covers t) (team_stints g tri)) = ON_COURT"
proof -
  note ok = accepted_team_check [OF assms(1,2)]
  have "fst (stint_interval s) \<le> snd (stint_interval s)" if "s \<in> set (team_stints g tri)" for s
    using accepted_stints [OF assms(1)] that by (force simp: team_stints_def)
  then have "\<forall>(b, f) \<in> set (map stint_interval (team_stints g tri)). b \<le> f" by (auto simp: split_beta)
  from require_five_sound [OF ok this assms(3,4)] show ?thesis by (simp add: covering_stints)
qed


section \<open>Clocks are read exactly\<close>

lemma fl_close:
  assumes "0 \<le> q"
  shows "q * (1 - 1 / 2 ^ 53) \<le> fl q \<and> fl q \<le> q * (1 + 1 / 2 ^ 53)"
proof -
  have "fl q - q \<le> q / 2 ^ 53" "q - fl q \<le> q / 2 ^ 53"
    using fl_error [OF assms] by (simp_all only: abs_le_iff minus_diff_eq)
  then show ?thesis by (simp only: right_diff_distrib distrib_left mult_1_right times_divide_eq_right) linarith
qed

text \<open>Three roundings of a total below \<open>2 ^ 40\<close> move it by less than half a unit.\<close>

lemma rounding_margin:
  fixes T x :: rat
  assumes "0 \<le> T" and "T \<le> 2 ^ 40"
    and "T * (1 - 1 / 2 ^ 53) ^ 3 \<le> x" and "x \<le> T * (1 + 1 / 2 ^ 53) ^ 3"
  shows "\<bar>x - T\<bar> < 1 / 2"
proof -
  have "T * ((1 + 1 / 2 ^ 53) ^ 3 - 1) \<le> 2 ^ 40 * ((1 + 1 / 2 ^ 53) ^ 3 - 1)"
    using assms(2) by (intro mult_right_mono) (simp_all add: power3_eq_cube)
  moreover have "2 ^ 40 * ((1 + 1 / 2 ^ 53) ^ 3 - 1) < (1 / 2 :: rat)" by (simp add: power3_eq_cube)
  moreover have "T * (1 - (1 - 1 / 2 ^ 53) ^ 3) \<le> 2 ^ 40 * (1 - (1 - 1 / 2 ^ 53) ^ 3)"
    using assms(2) by (intro mult_right_mono) (simp_all add: power3_eq_cube)
  moreover have "2 ^ 40 * (1 - (1 - 1 / 2 ^ 53) ^ 3) < (1 / 2 :: rat)" by (simp add: power3_eq_cube)
  ultimately show ?thesis
    using assms(3,4) unfolding abs_less_iff right_diff_distrib by linarith
qed

lemma fl_not_overflow:
  assumes "0 \<le> q" and "q < 2 ^ 100"
  shows "\<not> fl_overflows q"
proof
  assume "fl_overflows q"
  with assms(1) have "2 ^ 1024 \<le> q" by (rule fl_overflows_large)
  moreover have "(2 :: rat) ^ 100 < 2 ^ 1024" by (rule power_strict_increasing) simp_all
  ultimately show False using assms(2) by linarith
qed

lemma clock_cs_exact:
  assumes "0 \<le> whole" and "0 \<le> sec" and T: "(of_int whole + sec) * 100 = of_int t" and "t \<le> 2 ^ 40"
  shows "clock_cs whole sec = Inr t"
proof -
  define u where "u = (1 / 2 ^ 53 :: rat)"
  have u: "0 \<le> u" "u \<le> 1" by (simp_all add: u_def)
  define A where "A = of_int whole + sec"
  have A: "0 \<le> A" using assms(1,2) by (simp add: A_def)
  note w = fl_close [of "of_int whole", folded u_def] and s = fl_close [OF assms(2), folded u_def]
  have w0: "(0 :: rat) \<le> of_int whole" using assms(1) by simp
  define X where "X = fl (of_int whole) + fl sec"
  have X: "A * (1 - u) \<le> X" "X \<le> A * (1 + u)"
    using w [OF w0] s by (simp_all add: X_def A_def algebra_simps)
  have X0: "0 \<le> X" using fl_nonneg [OF w0] fl_nonneg [OF assms(2)] by (simp add: X_def)
  note x = fl_close [OF X0, folded u_def]
  have B: "A * (1 - u) ^ 2 \<le> fl X" "fl X \<le> A * (1 + u) ^ 2"
  proof -
    have "A * (1 - u) * (1 - u) \<le> X * (1 - u)" using X(1) u by (intro mult_right_mono) auto
    with x show "A * (1 - u) ^ 2 \<le> fl X" by (simp add: power2_eq_square mult.assoc)
    have "X * (1 + u) \<le> A * (1 + u) * (1 + u)" using X(2) u by (intro mult_right_mono) auto
    with x show "fl X \<le> A * (1 + u) ^ 2" by (simp add: power2_eq_square mult.assoc)
  qed
  have Y0: "0 \<le> fl X * 100" using fl_nonneg [OF X0] by simp
  note y = fl_close [OF Y0, folded u_def]
  have C: "of_int t * (1 - u) ^ 3 \<le> fl (fl X * 100)" "fl (fl X * 100) \<le> of_int t * (1 + u) ^ 3"
  proof -
    have t: "of_int t = A * 100" using T by (simp add: A_def)
    have "A * (1 - u) ^ 2 * 100 * (1 - u) \<le> fl X * 100 * (1 - u)" using B(1) u by (intro mult_right_mono) auto
    with y show "of_int t * (1 - u) ^ 3 \<le> fl (fl X * 100)"
      by (simp add: t power3_eq_cube power2_eq_square algebra_simps)
    have "fl X * 100 * (1 + u) \<le> A * (1 + u) ^ 2 * 100 * (1 + u)" using B(2) u by (intro mult_right_mono) auto
    with y show "fl (fl X * 100) \<le> of_int t * (1 + u) ^ 3"
      by (simp add: t power3_eq_cube power2_eq_square algebra_simps)
  qed
  have t0: "(0 :: rat) \<le> of_int t" and tb: "of_int t \<le> (2 :: rat) ^ 40"
    using A T assms(4) of_int_le_iff [of t "2 ^ 40", where 'a = rat] by (simp_all add: A_def flip: T)
  have "\<bar>fl (fl X * 100) - of_int t\<bar> < 1 / 2"
    by (rule rounding_margin [OF t0 tb C [unfolded u_def]])
  then have r: "round_even (fl (fl X * 100)) = t" by (rule round_even_near)
  have small: "A \<le> 2 ^ 40" using tb T A by (simp add: A_def flip: T)
  have mul: "A * (1 + u) ^ k \<le> 2 ^ 40 * 2 ^ k" for k
    using small A u by (intro mult_mono power_mono) auto
  have sum: "fl (of_int whole) + fl sec \<le> 2 ^ 40 * 2" using X(2) mul [of 1] by (simp add: X_def)
  have "\<not> fl_overflows (fl (of_int whole))"
    using fl_nonneg [OF w0] fl_nonneg [OF assms(2)] sum by (intro fl_not_overflow) auto
  moreover have "\<not> fl_overflows (fl sec)"
    using fl_nonneg [OF w0] fl_nonneg [OF assms(2)] sum by (intro fl_not_overflow) auto
  moreover have "\<not> fl_overflows (fl X)"
    using fl_nonneg [OF X0] B(2) mul [of 2] by (intro fl_not_overflow) auto
  moreover have "of_int t * (1 + u) ^ 3 \<le> 2 ^ 40 * 2 ^ 3"
    using t0 tb u by (intro mult_mono power_mono) auto
  then have "\<not> fl_overflows (fl (fl X * 100))"
    using fl_nonneg [OF Y0] C(2) by (intro fl_not_overflow) auto
  ultimately show ?thesis using r by (simp add: clock_cs_def Let_def X_def CENTISECONDS_def)
qed

lemma digit_prefix:
  assumes "list_all is_digit ds" and "\<not> is_digit c"
  shows "takeWhile is_digit (ds @ c # r) = ds" and "dropWhile is_digit (ds @ c # r) = c # r"
  using assms by (induction ds) auto

lemma clock_letters [simp]:
  "\<not> is_digit (CHR ''H'')" "\<not> is_digit (CHR ''M'')" "\<not> is_digit (CHR ''S'')" "\<not> is_digit (CHR ''.'')"
  by (simp_all add: is_digit_def)

lemma clock_match_full:
  assumes "list_all is_digit ms" "ms \<noteq> []" "list_all is_digit ss" "ss \<noteq> []" "list_all is_digit fs" "fs \<noteq> []"
  shows "clock_match (''PT'' @ ms @ ''M'' @ ss @ ''.'' @ fs @ ''S'') = Some (None, Some ms, Some (ss, fs))"
proof -
  let ?r = "ss @ CHR ''.'' # fs @ ''S''"
  have "unit_group (CHR ''H'') (ms @ CHR ''M'' # ?r) = (None, ms @ CHR ''M'' # ?r)"
    using assms(1) by (simp add: unit_group_def digit_prefix)
  moreover have "unit_group (CHR ''M'') (ms @ CHR ''M'' # ?r) = (Some ms, ?r)"
    using assms(1,2) by (simp add: unit_group_def digit_prefix)
  moreover have "seconds_group ?r = (Some (ss, fs), [])"
    using assms(3-6) by (simp add: seconds_group_def digit_prefix)
  ultimately show ?thesis by (simp add: clock_match_def)
qed

text \<open>
  A LiveData clock \<open>PT<m>M<s>.<cc>S\<close> with two decimals is read as exactly
  \<open>6000 m + 100 s + cc\<close> centiseconds, although the code computes in double precision: no
  clock of less than \<open>2 ^ 40\<close> centiseconds loses one to rounding.
\<close>

theorem parse_clock_exact:
  assumes "list_all is_digit ms" "ms \<noteq> []" "list_all is_digit ss" "ss \<noteq> []" "list_all is_digit fs"
    and "length fs = 2"
    and "6000 * nat_of_digits ms + 100 * nat_of_digits ss + nat_of_digits fs \<le> 2 ^ 40"
  shows "parse_clock_cs (JStr (''PT'' @ ms @ ''M'' @ ss @ ''.'' @ fs @ ''S''))
    = Inr (int (6000 * nat_of_digits ms + 100 * nat_of_digits ss + nat_of_digits fs))"
proof -
  have "fs \<noteq> []" using assms(6) by auto
  note m = clock_match_full [OF assms(1-5) this]
  let ?t = "6000 * nat_of_digits ms + 100 * nat_of_digits ss + nat_of_digits fs"
  have "clock_cs (int (nat_of_digits ms) * 60) (of_nat (nat_of_digits ss) + of_nat (nat_of_digits fs) / 100)
      = Inr (int ?t)"
  proof (rule clock_cs_exact)
    show "int ?t \<le> 2 ^ 40" using assms(7) by (metis of_nat_le_iff of_nat_numeral of_nat_power)
  qed (simp_all add: field_simps)
  with m assms(6) show ?thesis
    by (simp add: parse_clock_cs_def py_str_def digits_value_def seconds_value_def py_def)
qed

theorem parse_clock_exact_witness: "parse_clock_cs (JStr ''PT06M08.29S'') = Inr 36829"
proof -
  have "list_all is_digit ''06''" "list_all is_digit ''08''" "list_all is_digit ''29''"
    by (simp_all add: is_digit_def)
  moreover have "nat_of_digits ''06'' = 6" "nat_of_digits ''08'' = 8" "nat_of_digits ''29'' = 29"
    by (simp_all add: nat_of_digits_def digit_value_def)
  ultimately show ?thesis using parse_clock_exact [of "''06''" "''08''" "''29''"] by simp
qed

lemma parse_clock_examples:
  "parse_clock_cs (JStr ''PT48M00.00S'') = Inr 288000" "parse_clock_cs (JStr ''PT30M00.00S'') = Inr 180000"
  "parse_clock_cs (JStr ''PT18M00.00S'') = Inr 108000" "parse_clock_cs (JStr ''PT06M00.00S'') = Inr 36000"
  "parse_clock_cs (JStr ''PT12M00.00S'') = Inr 72000" "parse_clock_cs (JStr ''PT00M00.00S'') = Inr 0"
  "parse_clock_cs (JStr ''PT11M00.00S'') = Inr 66000"
  by (simp_all add: parse_clock_cs_def py_str_def clock_match_def unit_group_def seconds_group_def
      is_digit_def digits_value_def seconds_value_def nat_of_digits_def digit_value_def py_def Let_def
      clock_cs_exact [of _ _ "288000"] clock_cs_exact [of _ _ "180000"] clock_cs_exact [of _ _ "108000"]
      clock_cs_exact [of _ _ "36000"] clock_cs_exact [of _ _ "72000"] clock_cs_exact [of _ _ 0]
      clock_cs_exact [of _ _ "66000"])

text \<open>A small game: ten starters who play the whole of regulation, but for one substitution.\<close>

definition demo_player :: "int \<Rightarrow> string \<Rightarrow> string \<Rightarrow> json" where
  "demo_player pid starter minutes =
     JObj [(''personId'', JInt pid), (''name'', JStr ''P''), (''starter'', JStr starter),
           (''statistics'', JObj [(''minutes'', JStr minutes)])]"

definition demo_box :: json where
  "demo_box = JObj [(''game'', JObj
     [(''gameId'', JStr ''0022600101''), (''gameStatus'', JInt 3), (''period'', JInt 4),
      (''gameEt'', JStr ''2026-10-20T19:30:00Z''),
      (''homeTeam'', JObj [(''teamTricode'', JStr ''BOS''), (''teamId'', JInt 2), (''players'', JList
        (demo_player 11 ''0'' ''PT30M00.00S'' # demo_player 1 ''1'' ''PT18M00.00S''
          # map (\<lambda>i. demo_player i ''1'' ''PT48M00.00S'') [2, 3, 4, 5]))]),
      (''awayTeam'', JObj [(''teamTricode'', JStr ''NYK''), (''teamId'', JInt 3), (''players'', JList
        (map (\<lambda>i. demo_player i ''1'' ''PT48M00.00S'') [6, 7, 8, 9, 10]))])])]"

definition demo_substitution :: "int \<Rightarrow> string \<Rightarrow> json" where
  "demo_substitution pid direction =
     JObj [(''actionNumber'', JInt pid), (''actionType'', JStr ''substitution''), (''period'', JInt 2),
           (''clock'', JStr ''PT06M00.00S''), (''personId'', JInt pid), (''subType'', JStr direction)]"

definition demo_pbp :: json where
  "demo_pbp = JObj [(''game'', JObj [(''gameId'', JStr ''0022600101''), (''actions'', JList
     [JObj [(''actionNumber'', JInt 2), (''actionType'', JStr ''period''), (''subType'', JStr ''start''),
            (''period'', JInt 1), (''clock'', JStr ''PT12M00.00S'')],
      demo_substitution 1 ''out'', demo_substitution 11 ''in'',
      JObj [(''actionNumber'', JInt 12), (''actionType'', JStr ''period''), (''subType'', JStr ''end''),
            (''period'', JInt 4), (''clock'', JStr ''PT00M00.00S'')]])])]"

definition demo_roster :: roster where
  "demo_roster = \<lparr>ro_teams = map (\<lambda>i. (i, ''BOS'')) [11, 1, 2, 3, 4, 5] @ map (\<lambda>i. (i, ''NYK'')) [6, 7, 8, 9, 10],
     ro_names = map (\<lambda>i. (i, ''P'')) [11, 1, 2, 3, 4, 5, 6, 7, 8, 9, 10],
     ro_minutes = (11, 180000) # (1, 108000) # map (\<lambda>i. (i, 288000)) [2, 3, 4, 5, 6, 7, 8, 9, 10],
     ro_starters = [1, 2, 3, 4, 5, 6, 7, 8, 9, 10], ro_tricodes = [''BOS'', ''NYK'']\<rparr>"

lemma demo_read: "read_roster (get_key demo_box ''game'') = Inr demo_roster"
  by (simp add: read_roster_def read_team_def read_player_def demo_box_def demo_player_def demo_roster_def
      py_item_def py_def on_roster_def empty_roster_def py_or_def py_str_def parse_clock_examples Let_def)

definition demo_court :: court where
  "demo_court = \<lparr>open_since = [],
     spans = (1, 0, 108000, 1, 72000, 2, 36000)
       # map (\<lambda>i. (i, 0, 288000, 1, 72000, 4, 0)) [2, 3, 4, 5, 6, 7, 8, 9, 10]
       @ [(11, 108000, 288000, 2, 36000, 4, 0)]\<rparr>"

lemma demo_periods: "period_start_cs 2 = 72000" "period_start_cs 3 = 144000" "period_start_cs 4 = 216000"
  "period_length_cs 1 = 72000" "period_length_cs 2 = 72000" "period_length_cs 3 = 72000"
  "period_length_cs 4 = 72000" "game_end_cs 4 = 288000"
  by code_simp+

lemma demo_documents: "read_documents demo_box demo_pbp =
  Inr (get_key demo_box ''game'', 4, case get_key (get_key demo_pbp ''game'') ''actions'' of JList xs \<Rightarrow> xs)"
  by (simp add: read_documents_def demo_box_def demo_pbp_def py_eq_def REGULATION_PERIODS_def)

lemma demo_replay: "replay demo_roster 4 (game_end_cs 4)
    (case get_key (get_key demo_pbp ''game'') ''actions'' of JList xs \<Rightarrow> xs) = Inr demo_court"
  by (simp add: demo_periods replay_def replay_action_def substitute_def require_lineups_def
      opening_court_def close_all_def close_span_def on_court_def on_roster_def team_count_def
      demo_pbp_def demo_substitution_def demo_roster_def demo_court_def py_get_def py_item_def
      py_def has_key_def parse_clock_examples Let_def ON_COURT_def REGULATION_PERIOD_CS_def CENTISECONDS_def)

definition demo_rotation :: "int \<Rightarrow> string \<Rightarrow> bool \<Rightarrow> (int \<times> int \<times> int \<times> int \<times> int \<times> int) \<Rightarrow> PlayerRotation \<times> (int \<times> int) list" where
  "demo_rotation pid tri st = (\<lambda>(b, f, ip, ic, op, oc).
     (\<lparr>pr_player_id = pid, pr_name = ''P'', pr_team_tricode = tri, pr_started = st, pr_minutes_cs = f - b,
       pr_closed = closed_game [(b, f, Stint ip ic op oc (f - b))],
       pr_period_cs = map (\<lambda>k. (k, period_split 4 [(b, f, Stint ip ic op oc (f - b))] k)) PERIOD_KEYS,
       pr_stints = [Stint ip ic op oc (f - b)]\<rparr>, [(b, f)]))"

definition demo_rotations :: "(PlayerRotation \<times> (int \<times> int) list) list" where
  "demo_rotations =
     demo_rotation 1 ''BOS'' True (0, 108000, 1, 72000, 2, 36000)
     # map (\<lambda>i. demo_rotation i ''BOS'' True (0, 288000, 1, 72000, 4, 0)) [2, 3, 4, 5]
     @ map (\<lambda>i. demo_rotation i ''NYK'' True (0, 288000, 1, 72000, 4, 0)) [6, 7, 8, 9, 10]
     @ [demo_rotation 11 ''BOS'' False (108000, 288000, 2, 36000, 4, 0)]"

lemma demo_players:
  "map_res (player_rotation demo_roster 4 demo_court) (sort (map fst (ro_teams demo_roster))) = Inr demo_rotations"
proof -
  have "sort (map fst (ro_teams demo_roster)) = [1, 2, 3, 4, 5, 6, 7, 8, 9, 10, 11]"
    by (simp add: demo_roster_def)
  then show ?thesis
    by (simp add: player_rotation_def demo_court_def demo_roster_def spans_of_def merged_stints_def
        Let_def MINUTES_TOLERANCE_CS_def CENTISECONDS_def demo_rotations_def demo_rotation_def)
qed

lemma demo_five:
  "require_five_on_court ''BOS'' (team_intervals ''BOS'' demo_rotations) 288000 = Inr ()"
  "require_five_on_court ''NYK'' (team_intervals ''NYK'' demo_rotations) 288000 = Inr ()"
  by (simp_all add: team_intervals_def demo_rotations_def demo_rotation_def require_five_on_court_def
      moments_def change_def Let_def ON_COURT_def)

lemma demo_starters: "require_starters demo_roster = Inr ()"
  by (simp add: require_starters_def demo_roster_def team_count_def ON_COURT_def)

lemma demo_date: "is_ok (game_date (get_key demo_box ''game''))"
  by (simp add: game_date_def demo_box_def py_or_def py_str_def date_prefix_def is_digit_def Let_def)

lemma demo_accepted: "is_ok (derive_rotation demo_box demo_pbp)"
proof -
  obtain d where "game_date (get_key demo_box ''game'') = Inr d" using demo_date by (auto simp: is_ok_iff)
  moreover have "remdups (ro_tricodes demo_roster) = [''BOS'', ''NYK'']" by (simp add: demo_roster_def)
  ultimately show ?thesis
    using demo_periods(8) by (simp add: derive_rotation_def demo_documents demo_read demo_starters
        demo_replay [unfolded demo_periods(8)] demo_players demo_five)
qed

theorem accepted_rotation_five_on_court_witness:
  "\<exists>g. derive_rotation demo_box demo_pbp = Inr g
     \<and> length (filter (stint_covers 0) (team_stints g (gr_home_tricode g))) = 5"
proof -
  from demo_accepted obtain g where g: "derive_rotation demo_box demo_pbp = Inr g"
    by (auto simp: is_ok_iff)
  then have "REGULATION_PERIODS \<le> gr_periods g" by (rule derive_rotationE)
  then have "0 < game_end_cs (gr_periods g)"
    using period_start_mono [of 1 "gr_periods g"] period_length_pos [of "gr_periods g"]
    by (simp add: game_end_cs_def REGULATION_PERIODS_def)
  with g accepted_rotation_five_on_court [OF g, of "gr_home_tricode g" 0] show ?thesis
    by (auto simp: ON_COURT_def)
qed

section \<open>Minutes\<close>

lemma moments_range:
  assumes "require_five_on_court tri ivs end_cs = Inr ()" and "(b, f) \<in> set ivs"
  shows "0 \<le> b \<and> f \<le> end_cs"
proof -
  have ms: "moments ivs \<noteq> []" "hd (moments ivs) = 0" "last (moments ivs) = end_cs"
    using assms(1) by (auto simp: require_five_on_court_def Let_def split: if_splits)
  have "sorted (moments ivs)" by (simp add: moments_def)
  moreover have "b \<in> set (moments ivs)" "f \<in> set (moments ivs)"
    using assms(2) by (force simp: moments_def)+
  ultimately show ?thesis
    using ms by (metis append_butlast_last_id hd_Cons_tl list.set_cases order_refl set_ConsD sorted_append
        sorted_simps(2) Un_iff set_append empty_iff empty_set list.set_intros(1))
qed

definition key_sum :: "(string \<Rightarrow> int) \<Rightarrow> int" where
  "key_sum m = sum_list (map m PERIOD_KEYS)"

lemma period_key_mem:
  assumes "1 \<le> p"
  shows "period_key p \<in> set PERIOD_KEYS"
proof (cases "p \<le> 4")
  case True
  with assms have "p \<in> set [1, 2, 3, 4]" by auto
  moreover have "list_all (\<lambda>p. period_key p \<in> set PERIOD_KEYS) [1, 2, 3, 4]" by code_simp
  ultimately show ?thesis by (simp only: list_all_iff)
next
  case False
  then show ?thesis by (simp add: period_key_def PERIOD_KEYS_def REGULATION_PERIODS_def)
qed

lemma key_sum_update: "k \<in> set PERIOD_KEYS \<Longrightarrow> key_sum (m(k := m k + x)) = key_sum m + x"
  by (auto simp: key_sum_def PERIOD_KEYS_def)

lemma key_sum_periods:
  assumes "0 \<le> b" and "b \<le> f" and "0 \<le> n"
  shows "key_sum (fold (add_overlap b f) [1..n] m) = key_sum m + max 0 (min f (period_start_cs (n + 1)) - b)"
  using assms(3)
proof (induction n rule: int_ge_induct)
  case base
  then show ?case using assms by (simp add: max_def min_def)
next
  case (step n)
  have "[1..n + 1] = [1..n] @ [n + 1]" using step.hyps by (simp add: upto_rec2)
  moreover have "key_sum (add_overlap b f (n + 1) q)
      = key_sum q + max 0 (min f (period_start_cs (n + 1) + period_length_cs (n + 1)) - max b (period_start_cs (n + 1)))" for q
    using key_sum_update [OF period_key_mem, of "n + 1"] step.hyps
    by (auto simp: add_overlap_def Let_def)
  moreover have "period_start_cs (n + 1 + 1) = period_start_cs (n + 1) + period_length_cs (n + 1)"
    using step.hyps by (intro period_start_step) simp
  ultimately show ?case
    using step.IH period_length_pos [of "n + 1"] assms(1,2) by (simp add: max_def min_def)
qed

lemma period_split_sum:
  assumes "\<forall>(b, f, s) \<in> set stints. 0 \<le> b \<and> b \<le> f \<and> f \<le> game_end_cs n" and "1 \<le> n"
  shows "key_sum (period_split n stints) = sum_list (map (\<lambda>(b, f, s). f - b) stints)"
proof -
  have "key_sum (fold (\<lambda>(b, f, _). fold (add_overlap b f) [1..n]) stints m)
      = key_sum m + sum_list (map (\<lambda>(b, f, s). f - b) stints)" for m
    using assms(1)
  proof (induction stints arbitrary: m)
    case (Cons a stints)
    obtain b f s where a: "a = (b, f, s)" by (rule prod_cases3)
    have "key_sum (fold (add_overlap b f) [1..n] m) = key_sum m + (f - b)"
      using Cons.prems key_sum_periods [of b f n m] assms(2) game_end_eq [OF assms(2)] by (simp add: a)
    with Cons show ?case by (simp add: a)
  qed simp
  from this [of "\<lambda>_. 0"] show ?thesis by (simp add: period_split_def key_sum_def)
qed

lemma stint_in_game:
  assumes "derive_rotation box pbp = Inr g" and "p \<in> set (gr_players g)" and "s \<in> set (pr_stints p)"
    and "pr_team_tricode p \<in> {gr_home_tricode g, gr_away_tricode g}"
  shows "0 \<le> fst (stint_interval s) \<and> snd (stint_interval s) \<le> game_end_cs (gr_periods g)"
proof (rule moments_range [OF accepted_team_check [OF assms(1,4)]])
  show "(fst (stint_interval s), snd (stint_interval s))
      \<in> set (map stint_interval (team_stints g (pr_team_tricode p)))"
    using assms(2,3) by (auto simp: team_stints_def)
qed

text \<open>
  C29. For every player of an accepted rotation: he belongs to one of the two teams, his stints
  add up to his box-score minutes within one second, each stint lasts a positive time that is
  the distance between its entry and its exit, inside the game, and his minutes by period add
  up to exactly the minutes of his stints.
\<close>

theorem accepted_rotation_minutes:
  assumes g: "derive_rotation box pbp = Inr g" and p: "p \<in> set (gr_players g)"
  shows "pr_team_tricode p \<in> {gr_home_tricode g, gr_away_tricode g}
    \<and> \<bar>sum_list (map stint_minutes_cs (pr_stints p)) - pr_minutes_cs p\<bar> \<le> MINUTES_TOLERANCE_CS
    \<and> (\<forall>s \<in> set (pr_stints p). 0 < stint_minutes_cs s \<and> 0 \<le> fst (stint_interval s)
        \<and> snd (stint_interval s) = fst (stint_interval s) + stint_minutes_cs s
        \<and> snd (stint_interval s) \<le> game_end_cs (gr_periods g))
    \<and> sum_list (map snd (pr_period_cs p)) = sum_list (map stint_minutes_cs (pr_stints p))"
proof (rule derive_rotationE [OF g])
  fix ro co
  assume co: "court_ok co" and ro: "roster_ok ro" and tri: "ro_tricodes ro = [gr_home_tricode g, gr_away_tricode g]"
    and per: "REGULATION_PERIODS \<le> gr_periods g"
    and pl: "\<And>p. p \<in> set (gr_players g) \<Longrightarrow>
       \<exists>pid ivs. pid \<in> fst ` set (ro_teams ro) \<and> player_rotation ro (gr_periods g) co pid = Inr (p, ivs)"
  from pl [OF p] obtain pid ivs where pid: "pid \<in> fst ` set (ro_teams ro)"
    and pr: "player_rotation ro (gr_periods g) co pid = Inr (p, ivs)" by blast
  let ?st = "merged_stints (spans_of co pid)"
  from pid obtain t where t: "map_of (ro_teams ro) pid = Some t"
    by (metis map_of_eq_None_iff option.exhaust)
  with pr have "pr_team_tricode p = t" by (auto simp: player_rotation_def Let_def split: if_splits)
  moreover have "t \<in> set (ro_tricodes ro)" using ro map_of_SomeD [OF t] by (auto simp: roster_ok_def)
  ultimately have team: "pr_team_tricode p \<in> {gr_home_tricode g, gr_away_tricode g}" by (simp add: tri)
  note range = stint_in_game [OF g p _ team] and shape = accepted_stints [OF g p]
  have st: "pr_stints p = map (\<lambda>(_, _, s). s) ?st"
    and pc: "pr_period_cs p = map (\<lambda>k. (k, period_split (gr_periods g) ?st k)) PERIOD_KEYS"
    using pr by (auto simp: player_rotation_def Let_def split: if_splits)
  have ok: "stint_interval s = (b, f) \<and> b < f \<and> stint_minutes_cs s = f - b" if "(b, f, s) \<in> set ?st" for b f s
    by (rule merged_stints_proper [OF spans_of_ok [OF co] that])
  have "\<forall>(b, f, s) \<in> set ?st. 0 \<le> b \<and> b \<le> f \<and> f \<le> game_end_cs (gr_periods g)"
  proof (clarify)
    fix b f s assume m: "(b, f, s) \<in> set ?st"
    then have "s \<in> set (pr_stints p)" by (force simp: st)
    from range [OF this] ok [OF m] show "0 \<le> b \<and> b \<le> f \<and> f \<le> game_end_cs (gr_periods g)" by simp
  qed
  from period_split_sum [OF this] per have "sum_list (map snd (pr_period_cs p)) = sum_list (map (\<lambda>(b, f, s). f - b) ?st)"
    by (simp add: pc key_sum_def o_def REGULATION_PERIODS_def)
  also have "map (\<lambda>(b, f, s). f - b) ?st = map stint_minutes_cs (pr_stints p)"
    using ok by (auto simp: st)
  finally show ?thesis
    using team player_rotation_intervals(3) [OF co pr] range shape by fastforce
qed

theorem accepted_rotation_minutes_witness:
  "\<exists>g. derive_rotation demo_box demo_pbp = Inr g \<and> (\<forall>p \<in> set (gr_players g).
     sum_list (map snd (pr_period_cs p)) = sum_list (map stint_minutes_cs (pr_stints p)))"
proof -
  from demo_accepted obtain g where g: "derive_rotation demo_box demo_pbp = Inr g"
    by (auto simp: is_ok_iff)
  with accepted_rotation_minutes [OF g] show ?thesis by blast
qed

end
