(* ===== verification/Segments.thy ===== *)
theory Segments
  imports Rotation "HOL-Library.AList"
begin

text \<open>
  \<open>src/app/services/lineup_segments.py\<close>: both teams' lineup segments and what happened in them,
  for a game the rotation derivation accepted.

  The source keeps mutable segment objects that several structures share: the list of a team's
  segments, the segment current for each team, and, per action, the segments current at that
  action and at its foul. Here the objects live in a store (per team, the list of its segments)
  and a reference is an index into it; a \<open>lineups\<close> value maps a team to such an index.
\<close>

section \<open>Data\<close>

definition HEAVES_EXCLUDED_SEASON :: string where "HEAVES_EXCLUDED_SEASON = ''2026-27''"

definition COUNTS :: "string list" where
  "COUNTS = [''pts'', ''reb'', ''ast'', ''fg3m'', ''fga'', ''fg3a'', ''tov'', ''fta'']"

definition KEEPS_BALL :: "string list" where
  "KEEPS_BALL = [''flagrant'', ''away-from-play'', ''away from play'', ''inbound'', ''clear path'', ''clear-path'']"

definition LAST_SECONDS_CS :: int where "LAST_SECONDS_CS = 200"
definition AND_ONE_LOOKAHEAD :: nat where "AND_ONE_LOOKAHEAD = 7"
definition SHOTS :: "string list" where "SHOTS = [''2pt'', ''3pt'', ''heave'']"

record Segment =
  sg_team_id :: int
  sg_seg :: nat
  sg_players :: "int list"
  sg_duration_cs :: int
  sg_counts :: "(int \<times> (string \<times> int) list) list"
  sg_team_fga :: int
  sg_team_fta :: int
  sg_team_tov :: int
  sg_team_heaves :: int
  sg_off_poss :: int

record GameSegments =
  gs_game_id :: string
  gs_home_team_id :: int
  gs_away_team_id :: int
  gs_names :: "(int \<times> string) list"
  gs_segments :: "Segment list"

record Open =
  o_team_id :: int
  o_start_cs :: int
  o_players :: "int set"
  o_end_cs :: "int option"
  o_counts :: "(int \<times> (string \<times> int) list) list"
  o_team :: "(string \<times> int) list"
  o_off_poss :: int

definition new_open :: "int \<Rightarrow> int \<Rightarrow> int set \<Rightarrow> Open" where
  "new_open team start players =
     \<lparr>o_team_id = team, o_start_cs = start, o_players = players, o_end_cs = None, o_counts = [],
      o_team = [], o_off_poss = 0\<rparr>"

definition dict_get :: "('k \<times> 'v) list \<Rightarrow> 'k \<Rightarrow> 'v \<Rightarrow> 'v" where
  "dict_get d k v = (case map_of d k of None \<Rightarrow> v | Some x \<Rightarrow> x)"

definition count_stat :: "int \<Rightarrow> string \<Rightarrow> int \<Rightarrow> Open \<Rightarrow> Open" where
  "count_stat pid key value seg =
     (if pid \<in> o_players seg then
        let stats = dict_get (o_counts seg) pid []
        in seg\<lparr>o_counts := AList.update pid (AList.update key (dict_get stats key 0 + value) stats) (o_counts seg)\<rparr>
      else seg)"

definition count_team :: "string \<Rightarrow> Open \<Rightarrow> Open" where
  "count_team key seg = seg\<lparr>o_team := AList.update key (dict_get (o_team seg) key 0 + 1) (o_team seg)\<rparr>"

section \<open>Fouls and possessions\<close>

definition kind :: "json option \<Rightarrow> string" where
  "kind foul = (case foul of None \<Rightarrow> [] | Some f \<Rightarrow> lower (py_str (py_or (get_key f ''descriptor'') (JStr []))))"

definition keeps_ball :: "json option \<Rightarrow> bool" where
  "keeps_ball foul =
     (case foul of None \<Rightarrow> False
      | Some f \<Rightarrow> get_key f ''subType'' = JStr ''technical'' \<or> (\<exists>w \<in> set KEEPS_BALL. contains w (kind foul)))"

definition same_moment :: "json \<Rightarrow> json \<Rightarrow> py_exn + bool" where
  "same_moment a b =
     and_then (py_item a ''period'') (\<lambda>p. and_then (py_item b ''period'') (\<lambda>q.
       if \<not> py_eq p q then Inr False
       else and_then (py_item a ''clock'') (\<lambda>c. and_then (py_item b ''clock'') (\<lambda>d. Inr (py_eq c d)))))"

type_synonym lineups = "int \<rightharpoonup> nat"

text \<open>\<open>_technical_answered\<close>: the foul and its lineups, and the technicals left.\<close>

fun first_other_team ::
  "json \<Rightarrow> (json \<times> lineups) list \<Rightarrow> ((json \<times> lineups) \<times> (json \<times> lineups) list) option" where
  "first_other_team team [] = None"
| "first_other_team team ((foul, at_foul) # rest) =
     (if \<not> py_eq (get_key foul ''teamId'') team then Some ((foul, at_foul), rest)
      else map_option (\<lambda>(x, r). (x, (foul, at_foul) # r)) (first_other_team team rest))"

definition technical_answered ::
  "json \<Rightarrow> (json \<times> lineups) list \<Rightarrow> ((json \<times> lineups) \<times> (json \<times> lineups) list) option" where
  "technical_answered free_throw technicals =
     (if get_key free_throw ''subType'' \<noteq> JStr ''1 of 1'' then None
      else first_other_team (get_key free_throw ''teamId'') technicals)"

definition last_of_trip :: "json \<Rightarrow> bool" where
  "last_of_trip sub_type =
     (case split_once '' of '' (py_str (py_or sub_type (JStr []))) of
        None \<Rightarrow> False | Some (shot, trip) \<Rightarrow> shot = trip)"

definition is_type :: "json \<Rightarrow> string \<Rightarrow> bool" where
  "is_type action t \<longleftrightarrow> get_key action ''actionType'' = JStr t"

definition is_shot :: "json \<Rightarrow> bool" where
  "is_shot action \<longleftrightarrow> (\<exists>t \<in> set SHOTS. is_type action t)"

definition made :: "json \<Rightarrow> bool" where
  "made action \<longleftrightarrow> get_key action ''shotResult'' = JStr ''Made''"

definition scores :: "json \<Rightarrow> bool" where
  "scores action \<longleftrightarrow> is_type action ''freethrow'' \<or> is_shot action \<and> made action"

definition and_one_follows :: "json list \<Rightarrow> json option list \<Rightarrow> nat list \<Rightarrow> json \<Rightarrow> bool" where
  "and_one_follows actions answered following shot =
     (\<exists>i \<in> set following. let action = actions ! i in
        is_type action ''freethrow'' \<and> get_key action ''subType'' = JStr ''1 of 1''
        \<and> py_eq (get_key action ''clock'') (get_key shot ''clock'')
        \<and> py_eq (get_key action ''teamId'') (get_key shot ''teamId'')
        \<and> (\<not> keeps_ball (answered ! i) \<or> contains ''flagrant'' (kind (answered ! i))))"

definition int_or_0 :: "json \<Rightarrow> rotation_error + int" where
  "int_or_0 v = py (py_int (py_or v (JInt 0)))"

text \<open>The feed's own possession holder at each action, a defensive rebound keeping the previous.\<close>

fun feed_offense :: "json list \<Rightarrow> int \<Rightarrow> rotation_error + int list" where
  "feed_offense [] prev = Inr []"
| "feed_offense (action # actions) prev =
     and_then (int_or_0 (get_key action ''possession'')) (\<lambda>h.
       let holder = (if is_type action ''rebound'' \<and> get_key action ''subType'' = JStr ''defensive'' then prev else h)
       in and_then (feed_offense actions holder) (\<lambda>rest. Inr (holder # rest)))"

definition plays_of :: "json list \<Rightarrow> nat list" where
  "plays_of actions = filter (\<lambda>i. \<not> is_type (actions ! i) ''substitution'') [0..<length actions]"

text \<open>One round of the loop that finds possession ends: what it appends for the play at
  \<open>position\<close>.\<close>

definition possession_end ::
  "json list \<Rightarrow> (int \<rightharpoonup> int) \<Rightarrow> json option list \<Rightarrow> int list \<Rightarrow> nat \<Rightarrow> (nat \<times> int) list
     \<Rightarrow> rotation_error + (nat \<times> int) list" where
  "possession_end actions other answered offense position ends =
     (let plays = plays_of actions; index = plays ! position; action = actions ! index;
          sub_type = get_key action ''subType'';
          opp = (\<lambda>t. case other t of None \<Rightarrow> 0 | Some u \<Rightarrow> u)
      in and_then (int_or_0 (get_key action ''teamId'')) (\<lambda>team.
         if is_shot action \<and> made action then
           (let following = take AND_ONE_LOOKAHEAD (drop (position + 1) plays)
            in if \<not> and_one_follows actions answered following action
               then Inr (ends @ [(index, team)]) else Inr ends)
         else if is_type action ''rebound'' \<and> sub_type = JStr ''defensive'' then
           (if position = 0 \<or> \<not> (is_type (actions ! (plays ! (position - 1))) ''freethrow''
                 \<and> keeps_ball (answered ! (plays ! (position - 1))))
            then Inr (ends @ [(index, opp team)]) else Inr ends)
         else if is_type action ''turnover'' then Inr (ends @ [(index, team)])
         else if is_type action ''freethrow'' \<and> made action then
           (if last_of_trip sub_type \<and> \<not> keeps_ball (answered ! index)
            then Inr (ends @ [(index, team)]) else Inr ends)
         else if is_type action ''period'' \<and> sub_type = JStr ''end'' then
           (let in_period = filter (\<lambda>(at_i, h). py_eq (get_key (actions ! at_i) ''period'') (get_key action ''period'')) ends;
                holder = (if in_period \<noteq> [] then opp (snd (last in_period))
                          else if index \<noteq> 0 then offense ! (index - 1) else 0)
            in if holder \<noteq> 0 then Inr (ends @ [(index, holder)]) else Inr ends)
         else Inr ends))"

text \<open>The two-second rule over the ends with a holder.\<close>

fun counted_loop :: "json list \<Rightarrow> (nat \<times> int) list \<Rightarrow> nat option \<Rightarrow> rotation_error + (nat \<times> int) list" where
  "counted_loop actions [] last_end = Inr []"
| "counted_loop actions ((index, holder) # ends) last_end =
     (if holder = 0 then counted_loop actions ends last_end
      else
        let action = actions ! index
        in and_then
          (case last_end of
             None \<Rightarrow> Inr True
           | Some l \<Rightarrow>
               (if \<not> py_eq (get_key (actions ! l) ''period'') (get_key action ''period'') then Inr True
                else and_then (parse_clock_cs (get_key (actions ! l) ''clock'')) (\<lambda>started.
                     and_then (parse_clock_cs (get_key action ''clock'')) (\<lambda>now.
                       Inr (if now \<le> LAST_SECONDS_CS \<and> started \<le> LAST_SECONDS_CS
                            then (\<exists>between \<in> set [l + 1..<index + 1]. scores (actions ! between)) else True)))))
          (\<lambda>keep. and_then (counted_loop actions ends (Some index)) (\<lambda>rest.
             Inr (if keep then (index, holder) # rest else rest))))"

definition counted_possessions ::
  "json list \<Rightarrow> (int \<rightharpoonup> int) \<Rightarrow> json option list \<Rightarrow> rotation_error + (nat \<times> int) list" where
  "counted_possessions actions other answered =
     and_then (feed_offense actions 0) (\<lambda>offense.
     and_then (fold_res (possession_end actions other answered offense)
                 [0..<length (plays_of actions)] []) (\<lambda>ends.
       counted_loop actions ends None))"

section \<open>The replay\<close>

record replay_state =
  rs_on :: "int \<Rightarrow> int set"
  rs_segs :: "int \<Rightarrow> Open list"
  rs_changed :: "int \<Rightarrow> int"
  rs_period :: int
  rs_at_action :: "lineups list"
  rs_at_foul :: "lineups option list"
  rs_answered :: "json option list"
  rs_trip_foul :: "json option"
  rs_foul_lineups :: "lineups option"
  rs_technicals :: "(json \<times> lineups) list"

record sides =
  sd_home :: int
  sd_away :: int
  sd_team_of :: "(int \<times> int) list"
  sd_names :: "(int \<times> string) list"
  sd_on :: "int \<Rightarrow> int set"

definition both :: "sides \<Rightarrow> int list" where
  "both sd = [sd_home sd, sd_away sd]"

text \<open>The current segment of a team is its newest one.\<close>

definition current_ref :: "sides \<Rightarrow> replay_state \<Rightarrow> lineups" where
  "current_ref sd st = (\<lambda>t. if t \<in> set (both sd) then Some (length (rs_segs st t) - 1) else None)"

definition upd_seg :: "int \<Rightarrow> nat \<Rightarrow> (Open \<Rightarrow> Open) \<Rightarrow> replay_state \<Rightarrow> replay_state" where
  "upd_seg team i f st =
     st\<lparr>rs_segs := (rs_segs st)(team := (rs_segs st team)[i := f (rs_segs st team ! i)])\<rparr>"

definition open_segment :: "int \<Rightarrow> int \<Rightarrow> replay_state \<Rightarrow> replay_state" where
  "open_segment team start st =
     st\<lparr>rs_segs := (rs_segs st)(team := rs_segs st team @ [new_open team start (rs_on st team)])\<rparr>"

definition close_current :: "int \<Rightarrow> int \<Rightarrow> replay_state \<Rightarrow> replay_state" where
  "close_current team end_cs st = upd_seg team (length (rs_segs st team) - 1) (\<lambda>o'. o'\<lparr>o_end_cs := Some end_cs\<rparr>) st"

definition renew_segment :: "int \<Rightarrow> int \<Rightarrow> replay_state \<Rightarrow> replay_state" where
  "renew_segment team cs st = open_segment team cs (close_current team cs st)"

definition current_players :: "int \<Rightarrow> replay_state \<Rightarrow> int set" where
  "current_players team st = o_players (rs_segs st team ! (length (rs_segs st team) - 1))"

text \<open>\<open>_count\<close>: the segment is the one at the foul for a free throw that answers one.\<close>

definition count_updates :: "json \<Rightarrow> bool \<Rightarrow> int \<Rightarrow> rotation_error + (Open \<Rightarrow> Open)" where
  "count_updates action heave_shooters pid =
     (if is_type action ''heave'' \<and> \<not> (pid \<noteq> 0 \<and> heave_shooters) then Inr (count_team ''heave'')
      else if is_shot action \<and> pid \<noteq> 0 then
        (let three = \<not> is_type action ''2pt'';
             shot = count_team ''fga'' \<circ> count_stat pid ''fga'' 1;
             shot3 = (if three then count_stat pid ''fg3a'' 1 \<circ> shot else shot)
         in if made action then
              (let pts = count_stat pid ''pts'' (if three then 3 else 2) \<circ> shot3;
                   pts3 = (if three then count_stat pid ''fg3m'' 1 \<circ> pts else pts)
               in if py_truth (get_key action ''assistPersonId'')
                  then and_then (py (py_int (get_key action ''assistPersonId''))) (\<lambda>a.
                         Inr (count_stat a ''ast'' 1 \<circ> pts3))
                  else Inr pts3)
            else Inr shot3)
      else if is_type action ''freethrow'' then
        (let ft = count_team ''fta'' \<circ> count_stat pid ''fta'' 1
         in Inr (if made action then count_stat pid ''pts'' 1 \<circ> ft else ft))
      else if is_type action ''rebound'' then
        Inr (if pid \<noteq> 0 then count_stat pid ''reb'' 1 else id)
      else if is_type action ''turnover'' then
        Inr (if pid \<noteq> 0 then count_stat pid ''tov'' 1 \<circ> count_team ''tov'' else count_team ''tov'')
      else Inr id)"

definition count_action ::
  "json \<Rightarrow> lineups \<Rightarrow> lineups option \<Rightarrow> bool \<Rightarrow> replay_state \<Rightarrow> rotation_error + replay_state" where
  "count_action action at_lineups trip_lineups heave_shooters st =
     (let team_id = get_key action ''teamId''
      in if \<not> py_truth team_id then Inr st
         else and_then (py (py_int team_id)) (\<lambda>team.
           case (case trip_lineups of None \<Rightarrow> at_lineups | Some l \<Rightarrow> l) team of
             None \<Rightarrow> Inr st
           | Some i \<Rightarrow>
               and_then (int_or_0 (get_key action ''personId'')) (\<lambda>pid.
               and_then (count_updates action heave_shooters pid) (\<lambda>f.
                 Inr (upd_seg team i f st)))))"

definition log_action ::
  "lineups \<Rightarrow> lineups option \<Rightarrow> json option \<Rightarrow> replay_state \<Rightarrow> replay_state" where
  "log_action at_lineups trip foul st =
     st\<lparr>rs_at_action := rs_at_action st @ [at_lineups], rs_at_foul := rs_at_foul st @ [trip],
        rs_answered := rs_answered st @ [foul]\<rparr>"

definition advance_period :: "sides \<Rightarrow> int \<Rightarrow> replay_state \<Rightarrow> replay_state" where
  "advance_period sd p st =
     (if rs_period st < p
      then (fold (\<lambda>t. renew_segment t (period_start_cs p)) (both sd) st)\<lparr>rs_period := p\<rparr> else st)"

definition apply_substitution :: "sides \<Rightarrow> json \<Rightarrow> int \<Rightarrow> replay_state \<Rightarrow> rotation_error + replay_state" where
  "apply_substitution sd action moment st =
     and_then (py (and_then (py_item action ''personId'') py_int)) (\<lambda>pid.
     and_then (py (of_option (KeyError (show_int pid)) (map_of (sd_team_of sd) pid))) (\<lambda>team.
     and_then (py (py_item action ''subType'')) (\<lambda>sub_type.
       let on' = (if sub_type = JStr ''out'' then rs_on st team - {pid} else insert pid (rs_on st team))
       in Inr (log_action (current_ref sd st) None None
            (st\<lparr>rs_on := (rs_on st)(team := on'), rs_changed := (rs_changed st)(team := moment)\<rparr>)))))"

definition settle_lineups :: "sides \<Rightarrow> replay_state \<Rightarrow> replay_state" where
  "settle_lineups sd st =
     fold (\<lambda>t st. if rs_on st t \<noteq> current_players t st then renew_segment t (rs_changed st t) st else st)
       (both sd) st"

fun filter_res :: "('a \<Rightarrow> 'e + bool) \<Rightarrow> 'a list \<Rightarrow> 'e + 'a list" where
  "filter_res p [] = Inr []"
| "filter_res p (x # xs) =
     and_then (p x) (\<lambda>b. and_then (filter_res p xs) (\<lambda>ys. Inr (if b then x # ys else ys)))"

text \<open>What a play is charged to: the foul, its lineups, and the foul bookkeeping after it.\<close>

definition charge_foul ::
  "json \<Rightarrow> lineups \<Rightarrow> replay_state \<Rightarrow> json option \<times> lineups option \<times> replay_state" where
  "charge_foul action at_lineups st =
     (if is_type action ''foul'' \<and> get_key action ''subType'' = JStr ''technical'' then
        (None, None, if kind (Some action) \<noteq> ''double''
                     then st\<lparr>rs_technicals := rs_technicals st @ [(action, at_lineups)]\<rparr> else st)
      else if is_type action ''foul'' then
        (None, None, st\<lparr>rs_trip_foul := Some action, rs_foul_lineups := Some at_lineups\<rparr>)
      else if is_type action ''freethrow'' then
        (case technical_answered action (rs_technicals st) of
           Some ((foul, l), rest) \<Rightarrow> (Some foul, Some l, st\<lparr>rs_technicals := rest\<rparr>)
         | None \<Rightarrow> (rs_trip_foul st, rs_foul_lineups st, st))
      else (None, None, st))"

definition play_action :: "sides \<Rightarrow> bool \<Rightarrow> json \<Rightarrow> replay_state \<Rightarrow> rotation_error + replay_state" where
  "play_action sd heave_shooters action st0 =
     (let st1 = settle_lineups sd st0; at_lineups = current_ref sd st1
      in and_then (py (filter_res (\<lambda>(foul, _). same_moment foul action) (rs_technicals st1))) (\<lambda>techs.
         case charge_foul action at_lineups (st1\<lparr>rs_technicals := techs\<rparr>) of
           (foul, trip, st2) \<Rightarrow>
             count_action action at_lineups trip heave_shooters (log_action at_lineups trip foul st2)))"

definition segment_action :: "sides \<Rightarrow> int \<Rightarrow> bool \<Rightarrow> json \<Rightarrow> replay_state \<Rightarrow> rotation_error + replay_state" where
  "segment_action sd periods heave_shooters action st =
     and_then (py (and_then (py_item action ''period'') py_int)) (\<lambda>p.
       if periods < p then reject (PastLastPeriod p periods)
       else
         let st1 = advance_period sd p st
         in and_then (and_then (py (py_item action ''clock'')) parse_clock_cs) (\<lambda>clock.
              let moment = period_start_cs p + period_length_cs p - clock
              in if is_type action ''substitution'' then apply_substitution sd action moment st1
                 else play_action sd heave_shooters action st1))"

section \<open>The segments\<close>

definition read_side_player :: "int \<Rightarrow> json \<Rightarrow> sides \<Rightarrow> rotation_error + sides" where
  "read_side_player team player sd =
     and_then (py (and_then (py_item player ''personId'') py_int)) (\<lambda>pid.
       Inr (sd\<lparr>sd_team_of := AList.update pid team (sd_team_of sd),
               sd_names := AList.update pid (py_str (py_or (get_key player ''name'') (JStr []))) (sd_names sd),
               sd_on := (if py_str (get_key player ''starter'') = ''1''
                         then (sd_on sd)(team := insert pid (sd_on sd team)) else sd_on sd)\<rparr>))"

definition read_side :: "json \<Rightarrow> string \<Rightarrow> sides \<Rightarrow> rotation_error + int \<times> sides" where
  "read_side game side sd =
     and_then (py (py_item game side)) (\<lambda>team.
     and_then (py (and_then (py_item team ''teamId'') py_int)) (\<lambda>team_id.
     and_then (py (py_iter (py_or (get_key team ''players'') (JList [])))) (\<lambda>players.
     and_then (fold_res (read_side_player team_id) players (sd\<lparr>sd_on := (sd_on sd)(team_id := {})\<rparr>)) (\<lambda>sd'.
       Inr (team_id, sd')))))"

definition read_sides :: "json \<Rightarrow> rotation_error + sides" where
  "read_sides game =
     and_then (read_side game ''homeTeam''
       \<lparr>sd_home = 0, sd_away = 0, sd_team_of = [], sd_names = [], sd_on = (\<lambda>_. {})\<rparr>) (\<lambda>(home, sd1).
     and_then (read_side game ''awayTeam'' sd1) (\<lambda>(away, sd2).
       Inr (sd2\<lparr>sd_home := home, sd_away := away\<rparr>)))"

definition opening_state :: "sides \<Rightarrow> replay_state" where
  "opening_state sd =
     fold (\<lambda>t. open_segment t 0) (both sd)
       \<lparr>rs_on = sd_on sd, rs_segs = (\<lambda>_. []), rs_changed = (\<lambda>_. 0), rs_period = 1, rs_at_action = [],
        rs_at_foul = [], rs_answered = [], rs_trip_foul = None, rs_foul_lineups = None, rs_technicals = []\<rparr>"

definition require_forward :: "int \<Rightarrow> Open list \<Rightarrow> rotation_error + unit" where
  "require_forward team segs =
     fold_res (\<lambda>s u. if the (o_end_cs s) < o_start_cs s
                     then reject (SegmentBackwards team (o_start_cs s) (the (o_end_cs s))) else Inr ()) segs ()"

definition finish_game :: "sides \<Rightarrow> int \<Rightarrow> replay_state \<Rightarrow> rotation_error + replay_state" where
  "finish_game sd end_cs st =
     fold_res (\<lambda>t st. let st' = close_current t end_cs st
                      in and_then (require_forward t (rs_segs st' t)) (\<lambda>_. Inr st')) (both sd) st"

definition credit_possession :: "nat \<times> int \<Rightarrow> replay_state \<Rightarrow> rotation_error + replay_state" where
  "credit_possession possession st =
     (case possession of (index, offense) \<Rightarrow>
        let at_lineups = (case rs_at_foul st ! index of None \<Rightarrow> rs_at_action st ! index | Some l \<Rightarrow> l)
        in case at_lineups offense of
             None \<Rightarrow> Inl (Python (KeyError (show_int offense)))
           | Some i \<Rightarrow> Inr (upd_seg offense i (\<lambda>s. s\<lparr>o_off_poss := o_off_poss s + 1\<rparr>) st))"

definition segment_duration :: "Open \<Rightarrow> int" where
  "segment_duration s = the (o_end_cs s) - o_start_cs s"

definition is_kept :: "Open \<Rightarrow> bool" where
  "is_kept s \<longleftrightarrow> 0 < segment_duration s \<or> o_counts s \<noteq> [] \<or> o_team s \<noteq> [] \<or> o_off_poss s \<noteq> 0"

definition stored_segment :: "int \<Rightarrow> nat \<Rightarrow> Open \<Rightarrow> Segment" where
  "stored_segment team seq s =
     \<lparr>sg_team_id = team, sg_seg = seq, sg_players = sorted_list_of_set (o_players s),
      sg_duration_cs = segment_duration s,
      sg_counts = map (\<lambda>p. (p, map (\<lambda>k. (k, dict_get (dict_get (o_counts s) p []) k 0)) COUNTS))
                    (sorted_list_of_set (o_players s)),
      sg_team_fga = dict_get (o_team s) ''fga'' 0, sg_team_fta = dict_get (o_team s) ''fta'' 0,
      sg_team_tov = dict_get (o_team s) ''tov'' 0, sg_team_heaves = dict_get (o_team s) ''heave'' 0,
      sg_off_poss = o_off_poss s\<rparr>"

fun store_segments :: "int \<Rightarrow> nat \<Rightarrow> Open list \<Rightarrow> rotation_error + Segment list" where
  "store_segments team seq [] = Inr []"
| "store_segments team seq (s # segs) =
     (if \<not> is_kept s then store_segments team seq segs
      else if card (o_players s) \<noteq> ON_COURT
      then reject (SegmentLineup team (card (o_players s)) (o_start_cs s))
      else and_then (store_segments team (seq + 1) segs) (\<lambda>rest. Inr (stored_segment team seq s # rest)))"

definition game_actions :: "json \<Rightarrow> rotation_error + json list" where
  "game_actions pbp =
     and_then (py (and_then (and_then (py_item pbp ''game'') (\<lambda>g. py_item g ''actions'')) py_iter)) (\<lambda>raw.
       py (filter_res (\<lambda>a. and_then (py_item a ''actionType'') (\<lambda>t. Inr (t \<noteq> JStr ''game''))) raw))"

definition replay_segments ::
  "sides \<Rightarrow> int \<Rightarrow> bool \<Rightarrow> json list \<Rightarrow> rotation_error + replay_state" where
  "replay_segments sd periods heave_shooters actions =
     and_then (fold_res (segment_action sd periods heave_shooters) actions (opening_state sd)) (\<lambda>st.
     and_then (finish_game sd (game_end_cs periods) st) (\<lambda>st.
     and_then (counted_possessions actions [sd_home sd \<mapsto> sd_away sd, sd_away sd \<mapsto> sd_home sd] (rs_answered st)) (\<lambda>poss.
       fold_res credit_possession poss st)))"

definition derive_segments :: "json \<Rightarrow> json \<Rightarrow> string \<Rightarrow> rotation_error + GameSegments" where
  "derive_segments box pbp season =
     and_then (py (py_item box ''game'')) (\<lambda>game.
     and_then (py (and_then (py_item game ''period'') py_int)) (\<lambda>periods.
     and_then (game_actions pbp) (\<lambda>actions.
     and_then (read_sides game) (\<lambda>sd.
     and_then (replay_segments sd periods (HEAVES_EXCLUDED_SEASON \<le> season) actions) (\<lambda>st.
     and_then (map_res (\<lambda>t. store_segments t 0 (rs_segs st t)) (both sd)) (\<lambda>stored.
     and_then (py (py_item game ''gameId'')) (\<lambda>gid.
       Inr \<lparr>gs_game_id = py_str gid, gs_home_team_id = sd_home sd, gs_away_team_id = sd_away sd,
            gs_names = sd_names sd, gs_segments = concat stored\<rparr>)))))))"

section \<open>Tiling and references\<close>

text \<open>A team's segments tile the clock: the first opens at 0 and each closes where the next opens;
  only the last may still be open.\<close>

definition tiled :: "Open list \<Rightarrow> bool" where
  "tiled segs \<longleftrightarrow> segs \<noteq> [] \<and> o_start_cs (hd segs) = 0
     \<and> map o_end_cs (butlast segs) = map (Some \<circ> o_start_cs) (tl segs)"

definition valid_ref :: "sides \<Rightarrow> replay_state \<Rightarrow> lineups \<Rightarrow> bool" where
  "valid_ref sd st l \<longleftrightarrow> dom l = set (both sd) \<and> (\<forall>t i. l t = Some i \<longrightarrow> i < length (rs_segs st t))"

definition refs :: "replay_state \<Rightarrow> lineups set" where
  "refs st = set (rs_at_action st) \<union> \<Union> (set_option ` set (rs_at_foul st)) \<union> set_option (rs_foul_lineups st)
     \<union> snd ` set (rs_technicals st)"

definition wf_replay :: "sides \<Rightarrow> replay_state \<Rightarrow> bool" where
  "wf_replay sd st \<longleftrightarrow> (\<forall>t \<in> set (both sd). tiled (rs_segs st t)) \<and> (\<forall>l \<in> refs st. valid_ref sd st l)"

text \<open>A quantity of a team, summed over its segments.\<close>

definition team_total :: "(Open \<Rightarrow> int) \<Rightarrow> int \<Rightarrow> replay_state \<Rightarrow> int" where
  "team_total g t st = sum_list (map g (rs_segs st t))"

text \<open>Quantities that a fresh segment starts at zero and that closing a segment leaves alone.\<close>

definition tallied :: "(Open \<Rightarrow> int) \<Rightarrow> bool" where
  "tallied g \<longleftrightarrow> (\<forall>t s p. g (new_open t s p) = 0) \<and> (\<forall>o' e. g (o'\<lparr>o_end_cs := e\<rparr>) = g o')"

text \<open>What the parts of a step other than the bookkeeping keep: the state stays well-formed for
  every reference that was valid, and no total changes.\<close>

definition keeps :: "sides \<Rightarrow> replay_state \<Rightarrow> replay_state \<Rightarrow> bool" where
  "keeps sd st st' \<longleftrightarrow>
     ((\<forall>t \<in> set (both sd). tiled (rs_segs st t)) \<longrightarrow> (\<forall>t \<in> set (both sd). tiled (rs_segs st' t)))
     \<and> (\<forall>t. length (rs_segs st t) \<le> length (rs_segs st' t))
     \<and> (\<forall>g t. tallied g \<longrightarrow> team_total g t st' = team_total g t st) \<and> refs st' = refs st
     \<and> rs_at_action st' = rs_at_action st \<and> rs_at_foul st' = rs_at_foul st \<and> rs_answered st' = rs_answered st"

lemma keeps_refl: "keeps sd st st"
  by (simp add: keeps_def)

lemma keeps_trans: "keeps sd a b \<Longrightarrow> keeps sd b c \<Longrightarrow> keeps sd a c"
  unfolding keeps_def by (auto intro: order_trans)

lemma keeps_wf:
  assumes "keeps sd st st'" and "wf_replay sd st"
  shows "wf_replay sd st'"
  proof -
  have "i < length (rs_segs st' t)" if "l \<in> refs st'" "l t = Some i" for l t i
  proof -
    from assms that have "i < length (rs_segs st t)" by (auto simp: wf_replay_def valid_ref_def keeps_def)
    moreover from assms(1) have "length (rs_segs st t) \<le> length (rs_segs st' t)" by (simp add: keeps_def)
    ultimately show ?thesis by simp
  qed
  with assms show ?thesis by (simp add: keeps_def wf_replay_def valid_ref_def)
qed

lemma tiled_length: "tiled segs \<Longrightarrow> 0 < length segs"
  by (simp add: tiled_def)

lemma tiled_update_counts:
  assumes "o_start_cs (f (segs ! i)) = o_start_cs (segs ! i)" and "o_end_cs (f (segs ! i)) = o_end_cs (segs ! i)"
  shows "tiled (segs[i := f (segs ! i)]) = tiled segs"
proof (cases "i < length segs")
  case True
  let ?segs = "segs[i := f (segs ! i)]"
  have s: "map o_start_cs ?segs = map o_start_cs segs" and e: "map o_end_cs ?segs = map o_end_cs segs"
    using assms by (simp_all add: map_update list_update_same_conv True)
  have hd: "?segs \<noteq> [] \<Longrightarrow> o_start_cs (hd ?segs) = o_start_cs (hd segs)"
    using s by (metis hd_map list_update_nonempty)
  have tl: "map (Some \<circ> o_start_cs) (tl ?segs) = map (Some \<circ> o_start_cs) (tl segs)"
    using s by (metis map_map map_tl)
  have bl: "map o_end_cs (butlast ?segs) = map o_end_cs (butlast segs)"
    using e by (metis map_butlast)
  show ?thesis
    unfolding tiled_def using hd tl bl by auto
qed (simp add: list_update_beyond)

lemma tiled_close_last:
  "tiled (segs[length segs - 1 := (segs ! (length segs - 1))\<lparr>o_end_cs := e\<rparr>]) = tiled segs"
proof (cases segs rule: rev_cases)
  case (snoc xs x)
  then show ?thesis
    by (cases xs) (auto simp: tiled_def)
qed (simp add: tiled_def)

lemma tiled_renew:
  assumes "tiled segs"
  shows "tiled (segs[length segs - 1 := (segs ! (length segs - 1))\<lparr>o_end_cs := Some c\<rparr>] @ [new_open t c p])"
proof (cases segs rule: rev_cases)
  case (snoc xs x)
  with assms show ?thesis
    by (cases xs) (auto simp: tiled_def new_open_def butlast_append)
qed (use assms in \<open>simp add: tiled_def\<close>)

lemma sum_list_upd:
  "i < length xs \<Longrightarrow> sum_list (xs[i := v]) = sum_list xs + v - (xs ! i :: int)"
proof (induction xs arbitrary: i)
  case (Cons x xs)
  then show ?case by (cases i) simp_all
qed simp

lemma team_total_update:
  assumes "i < length (rs_segs st t)"
  shows "team_total g t (upd_seg t i f st) = team_total g t st + g (f (rs_segs st t ! i)) - g (rs_segs st t ! i)"
  using assms by (simp add: team_total_def upd_seg_def map_update sum_list_upd)

lemma team_total_update_other: "u \<noteq> t \<Longrightarrow> team_total g u (upd_seg t i f st) = team_total g u st"
  by (simp add: team_total_def upd_seg_def)

lemma refs_upd_seg [simp]: "refs (upd_seg t i f st) = refs st"
  by (simp add: refs_def upd_seg_def)

lemma keeps_renew: "keeps sd st (renew_segment t c st)"
proof (cases "rs_segs st t = []")
  case True
  then show ?thesis
    by (auto simp: keeps_def renew_segment_def close_current_def open_segment_def upd_seg_def refs_def
        team_total_def tallied_def tiled_def)
next
  case False
  then have "tallied g \<Longrightarrow> team_total g u (renew_segment t c st) = team_total g u st" for g u
    by (cases "u = t") (auto simp: renew_segment_def close_current_def open_segment_def upd_seg_def
        team_total_def tallied_def map_update sum_list_upd)
  then show ?thesis
    by (auto simp: keeps_def renew_segment_def close_current_def open_segment_def upd_seg_def refs_def
        intro: tiled_renew [unfolded One_nat_def])
qed

lemma keeps_fold:
  assumes "\<And>x st. keeps sd st (f x st)"
  shows "keeps sd st (fold f xs st)"
  using assms by (induction xs arbitrary: st) (auto intro: keeps_refl keeps_trans)

lemma keeps_advance: "keeps sd st (advance_period sd p st)"
proof -
  have "keeps sd st (fold (\<lambda>t. renew_segment t (period_start_cs p)) (both sd) st)"
    by (rule keeps_fold) (rule keeps_renew)
  moreover have "refs (st'\<lparr>rs_period := p\<rparr>) = refs st'" "team_total g t (st'\<lparr>rs_period := p\<rparr>) = team_total g t st'"
    for st' g t
    by (simp_all add: refs_def team_total_def)
  ultimately show ?thesis
    by (simp add: advance_period_def keeps_def)
qed

lemma keeps_settle: "keeps sd st (settle_lineups sd st)"
  unfolding settle_lineups_def by (rule keeps_fold) (simp add: keeps_renew keeps_refl)

lemma valid_current:
  assumes "wf_replay sd st"
  shows "valid_ref sd st (current_ref sd st)"
  using assms by (auto simp: wf_replay_def valid_ref_def current_ref_def tiled_def dom_def)


section \<open>One action\<close>

text \<open>The team an action is charged to, and the two team counts the feed has an action for.\<close>

definition action_team :: "json \<Rightarrow> int option" where
  "action_team a = (if py_truth (get_key a ''teamId'')
     then case py_int (get_key a ''teamId'') of Inl _ \<Rightarrow> None | Inr t \<Rightarrow> Some t else None)"

definition team_count_of :: "string \<Rightarrow> Open \<Rightarrow> int" where
  "team_count_of key s = dict_get (o_team s) key 0"

lemma tallied_counts: "tallied (team_count_of key)" "tallied o_off_poss"
  by (auto simp: tallied_def team_count_of_def new_open_def dict_get_def)

lemma count_stat_fields [simp]:
  "o_start_cs (count_stat p k v s) = o_start_cs s" "o_end_cs (count_stat p k v s) = o_end_cs s"
  "o_off_poss (count_stat p k v s) = o_off_poss s" "o_team (count_stat p k v s) = o_team s"
  "o_players (count_stat p k v s) = o_players s"
  by (simp_all add: count_stat_def Let_def)

lemma count_team_fields [simp]:
  "o_start_cs (count_team k s) = o_start_cs s" "o_end_cs (count_team k s) = o_end_cs s"
  "o_off_poss (count_team k s) = o_off_poss s" "o_counts (count_team k s) = o_counts s"
  "o_players (count_team k s) = o_players s"
  "team_count_of k' (count_team k s) = team_count_of k' s + (if k' = k then 1 else 0)"
  by (simp_all add: count_team_def team_count_of_def dict_get_def AList.update_conv')

lemma team_count_of_stat [simp]: "team_count_of k' (count_stat p k v s) = team_count_of k' s"
  by (simp add: team_count_of_def)

lemma is_type_unique: "is_type a s \<Longrightarrow> is_type a s' \<longleftrightarrow> s = s'"
  by (auto simp: is_type_def)

lemma count_updates_keeps:
  assumes "count_updates a hv pid = Inr f"
  shows "o_start_cs (f s) = o_start_cs s" "o_end_cs (f s) = o_end_cs s" "o_off_poss (f s) = o_off_poss s"
    "o_players (f s) = o_players s"
  using assms by (auto simp: count_updates_def Let_def result_simps split: if_splits)

lemma count_updates_team:
  assumes "count_updates a hv pid = Inr f"
  shows "team_count_of ''fta'' (f s) = team_count_of ''fta'' s + (if is_type a ''freethrow'' then 1 else 0)"
    and "team_count_of ''tov'' (f s) = team_count_of ''tov'' s + (if is_type a ''turnover'' then 1 else 0)"
  using assms
  by (auto simp: count_updates_def Let_def result_simps is_shot_def SHOTS_def is_type_unique split: if_splits)

text \<open>What a step adds: the counts of one action, on a state otherwise kept.\<close>

definition counted :: "sides \<Rightarrow> json \<Rightarrow> replay_state \<Rightarrow> replay_state \<Rightarrow> bool" where
  "counted sd a st st' \<longleftrightarrow>
     (\<forall>t \<in> set (both sd).
        team_total (team_count_of ''fta'') t st' = team_total (team_count_of ''fta'') t st
          + (if is_type a ''freethrow'' \<and> action_team a = Some t then 1 else 0)
        \<and> team_total (team_count_of ''tov'') t st' = team_total (team_count_of ''tov'') t st
          + (if is_type a ''turnover'' \<and> action_team a = Some t then 1 else 0)
        \<and> team_total o_off_poss t st' = team_total o_off_poss t st)"

lemma first_other_team_mem:
  "first_other_team team techs = Some ((foul, l), rest) \<Longrightarrow>
     (foul, l) \<in> set techs \<and> set rest \<subseteq> set techs"
proof (induction techs arbitrary: rest)
  case (Cons x techs)
  then show ?case by (cases x) (fastforce split: if_splits)
qed simp

lemma filter_res_subset: "filter_res p xs = Inr ys \<Longrightarrow> set ys \<subseteq> set xs"
  by (induction xs arbitrary: ys) (force simp: result_simps split: if_splits)+

lemma charge_foul_refs:
  assumes "charge_foul a l st = (foul, trip, st')"
  shows "rs_segs st' = rs_segs st" and "refs st' \<subseteq> insert l (refs st)" and "set_option trip \<subseteq> refs st"
    and "rs_at_action st' = rs_at_action st" and "rs_at_foul st' = rs_at_foul st"
    and "rs_answered st' = rs_answered st"
  using assms
  by (auto simp: charge_foul_def refs_def technical_answered_def image_iff
      split: if_splits option.splits prod.splits dest!: first_other_team_mem) force+

lemma count_action_wf:
  assumes st: "count_action a l trip hv st = Inr st'" and wf: "wf_replay sd st"
  shows "wf_replay sd st'"
proof -
  have tiled: "tiled (rs_segs (upd_seg t i f st) u) = tiled (rs_segs st u)"
    if "count_updates a hv pid = Inr f" for t i f u pid
    using count_updates_keeps [OF that] tiled_update_counts [of f "rs_segs st t" i] by (simp add: upd_seg_def)
  have "wf_replay sd (upd_seg t i f st)" if "count_updates a hv pid = Inr f" for t i f pid
    using wf tiled [OF that] by (auto simp: wf_replay_def valid_ref_def) (auto simp: upd_seg_def)
  with st wf show ?thesis
    by (auto simp: count_action_def Let_def result_simps split: if_splits option.splits)
qed

lemma count_action_counts:
  assumes st: "count_action a l trip hv st = Inr st'"
    and l: "valid_ref sd st (case trip of None \<Rightarrow> l | Some l' \<Rightarrow> l')"
  shows "counted sd a st st'"
proof (cases "py_truth (get_key a ''teamId'')")
  case False
  with st show ?thesis by (simp add: count_action_def counted_def action_team_def)
next
  case True
  with st obtain t where t: "py_int (get_key a ''teamId'') = Inr t"
    by (auto simp: count_action_def result_simps py_def split: sum.splits)
  show ?thesis
  proof (cases "(case trip of None \<Rightarrow> l | Some l' \<Rightarrow> l') t")
    case None
    with l have "t \<notin> set (both sd)" by (auto simp: valid_ref_def)
    with True t None st show ?thesis
      by (auto simp: count_action_def counted_def action_team_def py_def)
  next
    case (Some i)
    with True t st obtain f pid where f: "count_updates a hv pid = Inr f" and st': "st' = upd_seg t i f st"
      by (auto simp: count_action_def result_simps py_def)
    from Some l have i: "i < length (rs_segs st t)" by (auto simp: valid_ref_def)
    have "action_team a = Some t" using True t by (simp add: action_team_def)
    show ?thesis
      unfolding counted_def
    proof
      fix u
      show "team_total (team_count_of ''fta'') u st' = team_total (team_count_of ''fta'') u st
          + (if is_type a ''freethrow'' \<and> action_team a = Some u then 1 else 0)
        \<and> team_total (team_count_of ''tov'') u st' = team_total (team_count_of ''tov'') u st
          + (if is_type a ''turnover'' \<and> action_team a = Some u then 1 else 0)
        \<and> team_total o_off_poss u st' = team_total o_off_poss u st"
        using \<open>action_team a = Some t\<close>
        by (cases "u = t") (simp_all add: st' team_total_update [OF i] count_updates_team [OF f]
            count_updates_keeps [OF f] team_total_update_other)
    qed
  qed
qed


lemma same_segs:
  assumes "rs_segs st' = rs_segs st"
  shows "valid_ref sd st' l = valid_ref sd st l" and "team_total g t st' = team_total g t st"
    and "counted sd a st' st'' = counted sd a st st''"
  using assms by (simp_all add: valid_ref_def team_total_def counted_def)

lemma log_action_segs [simp]: "rs_segs (log_action l trip foul st) = rs_segs st"
  by (simp add: log_action_def)

lemma wf_log_action:
  assumes "wf_replay sd st" and "valid_ref sd st l" and "\<And>l'. trip = Some l' \<Longrightarrow> valid_ref sd st l'"
  shows "wf_replay sd (log_action l trip foul st)"
proof -
  have "refs (log_action l trip foul st) = refs st \<union> {l} \<union> set_option trip"
    by (auto simp: refs_def log_action_def)
  with assms show ?thesis by (auto simp: wf_replay_def same_segs [OF log_action_segs])
qed

lemma keeps_counted:
  assumes "keeps sd st st1" and "counted sd a st1 st'"
  shows "counted sd a st st'"
proof -
  have "team_total g t st1 = team_total g t st" if "tallied g" for g t
    using assms(1) that by (simp add: keeps_def)
  with assms(2) show ?thesis by (simp add: counted_def tallied_counts)
qed

lemma apply_substitution_step:
  assumes st: "apply_substitution sd a m st = Inr st'" and wf: "wf_replay sd st" and a: "is_type a ''substitution''"
  shows "wf_replay sd st' \<and> counted sd a st st' \<and> length (rs_at_action st') = Suc (length (rs_at_action st))
    \<and> length (rs_at_foul st') = Suc (length (rs_at_foul st)) \<and> length (rs_answered st') = Suc (length (rs_answered st))"
proof -
  from st obtain on' ch where st': "st' = log_action (current_ref sd st) None None (st\<lparr>rs_on := on', rs_changed := ch\<rparr>)"
    by (auto simp: apply_substitution_def result_simps Let_def)
  let ?st = "st\<lparr>rs_on := on', rs_changed := ch\<rparr>"
  have same: "rs_segs ?st = rs_segs st" and refs: "refs ?st = refs st" by (simp_all add: refs_def)
  have "wf_replay sd ?st" using wf by (simp add: wf_replay_def refs same_segs [OF same])
  then have "wf_replay sd st'"
    unfolding st' by (rule wf_log_action) (simp_all add: same_segs [OF same] valid_current [OF wf])
  moreover have "counted sd a st st'"
    using is_type_unique [OF a] by (simp add: counted_def st' team_total_def log_action_def)
  ultimately show ?thesis by (simp add: st' log_action_def)
qed

lemma count_action_log:
  assumes "count_action a l trip hv st = Inr st'"
  shows "rs_at_action st' = rs_at_action st" "rs_at_foul st' = rs_at_foul st" "rs_answered st' = rs_answered st"
  using assms by (auto simp: count_action_def result_simps upd_seg_def Let_def split: if_splits option.splits)

lemma play_action_step:
  assumes st: "play_action sd hv a st = Inr st'" and wf: "wf_replay sd st"
  shows "wf_replay sd st' \<and> counted sd a st st' \<and> length (rs_at_action st') = Suc (length (rs_at_action st))
    \<and> length (rs_at_foul st') = Suc (length (rs_at_foul st)) \<and> length (rs_answered st') = Suc (length (rs_answered st))"
proof -
  let ?l = "current_ref sd (settle_lineups sd st)" and ?st1 = "settle_lineups sd st"
  from st obtain techs
    where techs: "py (filter_res (\<lambda>(foul, _). same_moment foul a) (rs_technicals ?st1)) = Inr techs"
      and body: "(case charge_foul a ?l (?st1\<lparr>rs_technicals := techs\<rparr>) of (foul, trip, st2) \<Rightarrow>
             count_action a ?l trip hv (log_action ?l trip foul st2)) = Inr st'"
    by (auto simp: play_action_def Let_def result_simps)
  obtain foul trip st2 where cf: "charge_foul a ?l (?st1\<lparr>rs_technicals := techs\<rparr>) = (foul, trip, st2)"
    by (rule prod_cases3)
  with body have ca: "count_action a ?l trip hv (log_action ?l trip foul st2) = Inr st'" by simp
  have sub: "set techs \<subseteq> set (rs_technicals ?st1)"
    using techs by (auto simp: py_def split: sum.splits dest!: filter_res_subset)
  have wf1: "wf_replay sd ?st1" using keeps_wf [OF keeps_settle wf] .
  have refs1: "refs (?st1\<lparr>rs_technicals := techs\<rparr>) \<subseteq> refs ?st1" using sub by (auto simp: refs_def)
  note cf = charge_foul_refs [OF cf]
  have same: "rs_segs st2 = rs_segs ?st1" using cf(1) by simp
  have v: "valid_ref sd st2 ?l" by (simp add: same_segs [OF same] valid_current [OF wf1])
  have r: "valid_ref sd st2 l'" if "l' \<in> refs ?st1" for l'
    using wf1 that by (simp add: same_segs [OF same] wf_replay_def)
  then have trip: "valid_ref sd st2 l'" if "trip = Some l'" for l' using cf(3) refs1 that by auto
  have "wf_replay sd st2"
    using wf1 v r cf(2) refs1 by (auto simp: wf_replay_def same)
  then have "wf_replay sd (log_action ?l trip foul st2)" by (rule wf_log_action [OF _ v trip])
  moreover have "counted sd a (log_action ?l trip foul st2) st'"
    by (rule count_action_counts [OF ca]) (auto simp: same_segs [OF log_action_segs] v trip split: option.splits)
  then have "counted sd a ?st1 st'"
    using same_segs(3) [of "log_action ?l trip foul st2" ?st1] same by simp
  moreover have "length (rs_at_action st') = Suc (length (rs_at_action st))"
    "length (rs_at_foul st') = Suc (length (rs_at_foul st))" "length (rs_answered st') = Suc (length (rs_answered st))"
    using keeps_settle [of sd st] cf(4-6) by (simp_all add: count_action_log [OF ca] log_action_def keeps_def)
  ultimately show ?thesis
    using count_action_wf [OF ca] keeps_counted [OF keeps_settle] by blast
qed

lemma reject_if: "(if b then reject r else m) = Inr y \<longleftrightarrow> \<not> b \<and> m = Inr y"
  by (simp add: reject_def)

lemma segment_action_step:
  assumes st: "segment_action sd periods hv a st = Inr st'" and wf: "wf_replay sd st"
  shows "wf_replay sd st' \<and> counted sd a st st' \<and> length (rs_at_action st') = Suc (length (rs_at_action st))
    \<and> length (rs_at_foul st') = Suc (length (rs_at_foul st)) \<and> length (rs_answered st') = Suc (length (rs_answered st))"
proof -
  from st obtain p m
    where "(if is_type a ''substitution'' then apply_substitution sd a m (advance_period sd p st)
            else play_action sd hv a (advance_period sd p st)) = Inr st'"
    by (auto simp only: segment_action_def Let_def and_then_Inr reject_if)
  moreover have k: "keeps sd st (advance_period sd p st)" by (rule keeps_advance)
  ultimately have "wf_replay sd st' \<and> counted sd a (advance_period sd p st) st'
      \<and> length (rs_at_action st') = Suc (length (rs_at_action (advance_period sd p st)))
      \<and> length (rs_at_foul st') = Suc (length (rs_at_foul (advance_period sd p st)))
      \<and> length (rs_answered st') = Suc (length (rs_answered (advance_period sd p st)))"
    using apply_substitution_step play_action_step keeps_wf [OF k wf] by (auto split: if_splits)
  with k show ?thesis
    using keeps_counted [OF k] by (simp add: keeps_def)
qed

section \<open>The whole replay\<close>

definition plays_charged :: "string \<Rightarrow> int \<Rightarrow> json list \<Rightarrow> int" where
  "plays_charged ty t actions = int (length (filter (\<lambda>a. is_type a ty \<and> action_team a = Some t) actions))"

lemma replay_actions:
  assumes "fold_res (segment_action sd periods hv) actions st = Inr st'" and "wf_replay sd st"
  shows "wf_replay sd st'
    \<and> (\<forall>t \<in> set (both sd).
         team_total (team_count_of ''fta'') t st' = team_total (team_count_of ''fta'') t st + plays_charged ''freethrow'' t actions
       \<and> team_total (team_count_of ''tov'') t st' = team_total (team_count_of ''tov'') t st + plays_charged ''turnover'' t actions
       \<and> team_total o_off_poss t st' = team_total o_off_poss t st)
    \<and> length (rs_at_action st') = length (rs_at_action st) + length actions
    \<and> length (rs_at_foul st') = length (rs_at_foul st) + length actions
    \<and> length (rs_answered st') = length (rs_answered st) + length actions"
  using assms
proof (induction actions arbitrary: st)
  case Nil
  then show ?case by (simp add: plays_charged_def)
next
  case (Cons a actions)
  then obtain st1 where a: "segment_action sd periods hv a st = Inr st1"
    and rest: "fold_res (segment_action sd periods hv) actions st1 = Inr st'"
    by (auto simp: result_simps)
  note step = segment_action_step [OF a Cons.prems(2)]
  show ?case
    using Cons.IH [OF rest conjunct1 [OF step]] step by (simp add: counted_def plays_charged_def)
qed

lemma opening_state_wf:
  assumes "sd_home sd \<noteq> sd_away sd"
  shows "wf_replay sd (opening_state sd)" "rs_at_action (opening_state sd) = []" "rs_at_foul (opening_state sd) = []"
    "rs_answered (opening_state sd) = []"
    "t \<in> set (both sd) \<Longrightarrow> tallied g \<Longrightarrow> team_total g t (opening_state sd) = 0"
  using assms
  by (auto simp: opening_state_def both_def open_segment_def wf_replay_def tiled_def new_open_def refs_def
      team_total_def tallied_def)

text \<open>Closing the last segments at the game's end: every segment then runs forward.\<close>

lemma require_forward_Inr: "require_forward t segs = Inr u \<longleftrightarrow> (\<forall>s \<in> set segs. o_start_cs s \<le> the (o_end_cs s))"
  unfolding require_forward_def by (induction segs) (auto simp: result_simps reject_if)

definition over :: "int \<Rightarrow> Open list \<Rightarrow> bool" where
  "over e segs \<longleftrightarrow> tiled segs \<and> o_end_cs (last segs) = Some e \<and> (\<forall>s \<in> set segs. o_start_cs s \<le> the (o_end_cs s))"

lemma close_current_segs:
  "rs_segs (close_current t e st) = (rs_segs st)(t := (rs_segs st t)[length (rs_segs st t) - 1 :=
     (rs_segs st t ! (length (rs_segs st t) - 1))\<lparr>o_end_cs := Some e\<rparr>])"
  by (simp add: close_current_def upd_seg_def)

lemma last_close_current: "rs_segs st t \<noteq> [] \<Longrightarrow> o_end_cs (last (rs_segs (close_current t e st) t)) = Some e"
  by (simp add: close_current_segs last_list_update)

lemma keeps_close: "keeps sd st (close_current t e st)"
proof (cases "rs_segs st t = []")
  case False
  then have "tallied g \<Longrightarrow> team_total g u (close_current t e st) = team_total g u st" for g u
    by (cases "u = t") (auto simp: close_current_segs team_total_def tallied_def map_update sum_list_upd)
  moreover have "refs (close_current t e st) = refs st" by (simp add: close_current_def)
  ultimately show ?thesis
    by (auto simp: keeps_def close_current_segs tiled_close_last [unfolded One_nat_def])
      (simp_all add: close_current_def upd_seg_def)
qed (auto simp: keeps_def close_current_def upd_seg_def refs_def team_total_def tallied_def tiled_def)

lemma finish_game_over:
  assumes fin: "finish_game sd e st = Inr st'" and wf: "wf_replay sd st" and ha: "sd_home sd \<noteq> sd_away sd"
  shows "keeps sd st st'" and "\<forall>t \<in> set (both sd). over e (rs_segs st' t)"
proof -
  let ?h = "sd_home sd" and ?a = "sd_away sd"
  let ?st1 = "close_current ?h e st"
  from fin have st': "st' = close_current ?a e ?st1"
    and fw: "require_forward ?h (rs_segs ?st1 ?h) = Inr ()" "require_forward ?a (rs_segs st' ?a) = Inr ()"
    by (auto simp: finish_game_def both_def Let_def result_simps)
  show k: "keeps sd st st'" unfolding st' by (rule keeps_trans [OF keeps_close keeps_close])
  have wf1: "wf_replay sd ?st1" and wf': "wf_replay sd st'" using keeps_wf [OF keeps_close wf] keeps_wf [OF k wf] by auto
  have "rs_segs st ?h \<noteq> []" "rs_segs ?st1 ?a \<noteq> []"
    using wf wf1 by (auto simp: wf_replay_def tiled_def both_def)
  then have "o_end_cs (last (rs_segs ?st1 ?h)) = Some e" "o_end_cs (last (rs_segs st' ?a)) = Some e"
    unfolding st' by (simp_all add: last_close_current)
  moreover have h': "rs_segs st' ?h = rs_segs ?st1 ?h" using ha by (simp add: st' close_current_segs [of ?a])
  ultimately show "\<forall>t \<in> set (both sd). over e (rs_segs st' t)"
    using wf' fw unfolding over_def wf_replay_def require_forward_Inr by (simp add: both_def)
qed

text \<open>The segments of a finished game last the whole game, together.\<close>

lemma durations_telescope:
  assumes "segs \<noteq> []" and "map o_end_cs (butlast segs) = map (Some \<circ> o_start_cs) (tl segs)"
    and "o_end_cs (last segs) = Some e"
  shows "sum_list (map segment_duration segs) = e - o_start_cs (hd segs)"
  using assms
proof (induction segs)
  case (Cons s segs)
  show ?case
  proof (cases segs)
    case Nil
    with Cons.prems show ?thesis by (simp add: segment_duration_def)
  next
    case (Cons s' segs')
    with Cons.prems have "o_end_cs s = Some (o_start_cs s')" by simp
    moreover from Cons Cons.prems have "sum_list (map segment_duration segs) = e - o_start_cs (hd segs)"
      by (intro Cons.IH) simp_all
    ultimately show ?thesis using Cons by (simp add: segment_duration_def [of s])
  qed
qed simp

lemma over_durations: "over e segs \<Longrightarrow> sum_list (map segment_duration segs) = e"
  using durations_telescope by (simp add: over_def tiled_def)

section \<open>Possessions\<close>

lemma possession_end_index:
  assumes "possession_end actions other answered offense pos ends = Inr ends'" and "pos < length (plays_of actions)"
    and "\<forall>x \<in> set ends. fst x < length actions"
  shows "\<forall>x \<in> set ends'. fst x < length actions"
proof -
  have "plays_of actions ! pos \<in> set (plays_of actions)" using assms(2) by simp
  then have "plays_of actions ! pos < length actions" by (auto simp: plays_of_def)
  with assms(1,3) show ?thesis
    by (auto simp: possession_end_def Let_def result_simps split: if_splits)
qed

lemma counted_loop_subset:
  "counted_loop actions ends l = Inr poss \<Longrightarrow> set poss \<subseteq> set ends"
proof (induction actions ends l arbitrary: poss rule: counted_loop.induct)
  case (2 actions index holder ends l)
  show ?case
  proof (cases "holder = 0")
    case True
    with 2 show ?thesis by auto
  next
    case False
    with "2.prems" obtain keep rest where "counted_loop actions ends (Some index) = Inr rest"
      and "poss = (if keep then (index, holder) # rest else rest)"
      by (auto simp: result_simps Let_def)
    with 2(2) [OF False refl] show ?thesis by auto
  qed
qed simp_all

lemma counted_possessions_index:
  assumes "counted_possessions actions other answered = Inr poss" and "x \<in> set poss"
  shows "fst x < length actions"
proof -
  from assms(1) obtain offense ends
    where ends: "fold_res (possession_end actions other answered offense) [0..<length (plays_of actions)] [] = Inr ends"
      and loop: "counted_loop actions ends None = Inr poss"
    by (auto simp: counted_possessions_def result_simps)
  have "\<forall>x \<in> set ends. fst x < length actions"
    by (rule fold_res_invariant [OF ends, where P = "\<lambda>e. \<forall>x \<in> set e. fst x < length actions"])
      (auto intro: possession_end_index [rule_format])
  with counted_loop_subset [OF loop] assms(2) show ?thesis by auto
qed

text \<open>Crediting a possession changes nothing of a segment but its possession count.\<close>

definition same_spans :: "replay_state \<Rightarrow> replay_state \<Rightarrow> bool" where
  "same_spans st st' \<longleftrightarrow> (\<forall>t. map (\<lambda>s. s\<lparr>o_off_poss := 0\<rparr>) (rs_segs st' t) = map (\<lambda>s. s\<lparr>o_off_poss := 0\<rparr>) (rs_segs st t))
     \<and> rs_at_action st' = rs_at_action st \<and> rs_at_foul st' = rs_at_foul st"

lemma same_spans_length: "same_spans st st' \<Longrightarrow> length (rs_segs st' t) = length (rs_segs st t)"
  by (metis length_map same_spans_def)

definition logged_refs :: "sides \<Rightarrow> nat \<Rightarrow> replay_state \<Rightarrow> bool" where
  "logged_refs sd n st \<longleftrightarrow> length (rs_at_action st) = n \<and> length (rs_at_foul st) = n
     \<and> (\<forall>l \<in> set (rs_at_action st) \<union> \<Union> (set_option ` set (rs_at_foul st)). valid_ref sd st l)"

lemma same_spans_logged:
  assumes "same_spans st st'" and "logged_refs sd n st"
  shows "logged_refs sd n st'"
  using assms same_spans_length [OF assms(1)] unfolding logged_refs_def same_spans_def valid_ref_def by simp

lemma credit_possession_step:
  assumes c: "credit_possession (index, offense) st = Inr st'" and n: "logged_refs sd n st" and i: "index < n"
  shows "same_spans st st'" and "offense \<in> set (both sd)"
    and "team_total o_off_poss t st' = team_total o_off_poss t st + (if offense = t then 1 else 0)"
proof -
  let ?l = "case rs_at_foul st ! index of None \<Rightarrow> rs_at_action st ! index | Some l \<Rightarrow> l"
  from c obtain k where k: "?l offense = Some k"
    and st': "st' = upd_seg offense k (\<lambda>s. s\<lparr>o_off_poss := o_off_poss s + 1\<rparr>) st"
    by (auto simp: credit_possession_def Let_def split: option.splits)
  have "rs_at_foul st ! index \<in> set (rs_at_foul st)" "rs_at_action st ! index \<in> set (rs_at_action st)"
    using n i by (auto simp: logged_refs_def)
  then have "valid_ref sd st ?l"
    using n by (fastforce simp: logged_refs_def split: option.splits)
  with k have kl: "k < length (rs_segs st offense)" and "offense \<in> set (both sd)"
    by (auto simp: valid_ref_def)
  then show "offense \<in> set (both sd)" by simp
  show "same_spans st st'"
    using kl by (auto simp: same_spans_def st' upd_seg_def map_update intro!: list_update_same_conv [THEN iffD2])
  show "team_total o_off_poss t st' = team_total o_off_poss t st + (if offense = t then 1 else 0)"
    using team_total_update [OF kl] team_total_update_other [of t offense] by (cases "offense = t") (simp_all add: st')
qed

lemma same_spans_trans: "same_spans a b \<Longrightarrow> same_spans b c \<Longrightarrow> same_spans a c"
  by (simp add: same_spans_def)

lemma credit_possessions:
  assumes "fold_res credit_possession poss st = Inr st'" and "logged_refs sd n st"
    and "\<forall>x \<in> set poss. fst x < n"
  shows "same_spans st st' \<and> team_total o_off_poss t st' = team_total o_off_poss t st + int (length (filter (\<lambda>x. snd x = t) poss))"
  using assms
proof (induction poss arbitrary: st)
  case (Cons x poss)
  obtain index offense where x: "x = (index, offense)" by (cases x)
  with Cons.prems obtain st1 where c: "credit_possession (index, offense) st = Inr st1"
    and rest: "fold_res credit_possession poss st1 = Inr st'" and i: "index < n"
    by (auto simp: result_simps)
  note s = credit_possession_step [OF c Cons.prems(2) i]
  have "same_spans st1 st' \<and> team_total o_off_poss t st' = team_total o_off_poss t st1 + int (length (filter (\<lambda>x. snd x = t) poss))"
    using Cons.IH [OF rest same_spans_logged [OF s(1) Cons.prems(2)]] Cons.prems(3) by simp
  with s same_spans_trans show ?case by (auto simp: x)
qed (simp add: same_spans_def)

section \<open>The stored segments\<close>

lemma store_segments_sum:
  assumes "store_segments team seq segs = Inr ss" and "\<And>n s. g' (stored_segment team n s) = g s"
    and "\<And>s. s \<in> set segs \<Longrightarrow> \<not> is_kept s \<Longrightarrow> g s = (0 :: int)"
  shows "sum_list (map g' ss) = sum_list (map g segs)"
  using assms
proof (induction team seq segs arbitrary: ss rule: store_segments.induct)
  case (2 team seq s segs)
  show ?case
  proof (cases "is_kept s")
    case True
    with "2.prems"(1) obtain rest where rest: "store_segments team (seq + 1) segs = Inr rest"
      and "ss = stored_segment team seq s # rest"
      by (auto simp: result_simps reject_if)
    moreover have "card (o_players s) = ON_COURT" using "2.prems"(1) True by (auto simp: reject_def split: if_splits)
    ultimately show ?thesis using "2.IH"(2) True "2.prems"(2,3) by simp
  next
    case False
    with 2 show ?thesis by simp
  qed
qed simp

lemma store_segments_shape:
  assumes "store_segments team seq segs = Inr ss"
  shows "map sg_seg ss = [seq..<seq + length ss]"
    and "\<forall>x \<in> set ss. \<exists>n s. s \<in> set segs \<and> card (o_players s) = ON_COURT \<and> x = stored_segment team n s"
  using assms
proof (induction team seq segs arbitrary: ss rule: store_segments.induct)
  case (2 team seq s segs)
  {
    case 1
    with 2 show ?case
      by (auto simp: result_simps reject_if stored_segment_def upt_rec [of seq] split: if_splits)
  next
    case 2
    with "2.IH" show ?case
      by (fastforce simp: result_simps reject_if split: if_splits)
  }
qed simp_all

text \<open>What a successful derivation computed, step by step.\<close>

lemma derive_segmentsE:
  assumes "derive_segments box pbp season = Inr gs"
  obtains game periods actions sd st0 st1 poss st home away where
    "py_item box ''game'' = Inr game" "and_then (py_item game ''period'') py_int = Inr periods"
    "game_actions pbp = Inr actions" "read_sides game = Inr sd"
    "fold_res (segment_action sd periods (HEAVES_EXCLUDED_SEASON \<le> season)) actions (opening_state sd) = Inr st0"
    "finish_game sd (game_end_cs periods) st0 = Inr st1"
    "counted_possessions actions [sd_home sd \<mapsto> sd_away sd, sd_away sd \<mapsto> sd_home sd] (rs_answered st1) = Inr poss"
    "fold_res credit_possession poss st1 = Inr st"
    "store_segments (sd_home sd) 0 (rs_segs st (sd_home sd)) = Inr home"
    "store_segments (sd_away sd) 0 (rs_segs st (sd_away sd)) = Inr away"
    "gs_home_team_id gs = sd_home sd" "gs_away_team_id gs = sd_away sd" "gs_segments gs = home @ away"
proof -
  have py: "py m = Inr x \<longleftrightarrow> m = Inr x" for m :: "py_exn + 'a" and x by (simp add: py_def split: sum.splits)
  from assms obtain game periods actions sd st stored gid where
    s: "py (py_item box ''game'') = Inr game" "py (and_then (py_item game ''period'') py_int) = Inr periods"
    "game_actions pbp = Inr actions" "read_sides game = Inr sd"
    and r: "replay_segments sd periods (HEAVES_EXCLUDED_SEASON \<le> season) actions = Inr st"
    and m: "map_res (\<lambda>t. store_segments t 0 (rs_segs st t)) (both sd) = Inr stored"
    and gs: "gs = \<lparr>gs_game_id = py_str gid, gs_home_team_id = sd_home sd, gs_away_team_id = sd_away sd,
            gs_names = sd_names sd, gs_segments = concat stored\<rparr>"
    unfolding derive_segments_def and_then_Inr by (elim exE conjE) (simp only: Inr_inject, blast)
  from r obtain st0 st1 poss where
    t: "fold_res (segment_action sd periods (HEAVES_EXCLUDED_SEASON \<le> season)) actions (opening_state sd) = Inr st0"
    "finish_game sd (game_end_cs periods) st0 = Inr st1"
    "counted_possessions actions [sd_home sd \<mapsto> sd_away sd, sd_away sd \<mapsto> sd_home sd] (rs_answered st1) = Inr poss"
    "fold_res credit_possession poss st1 = Inr st"
    unfolding replay_segments_def and_then_Inr by blast
  from m obtain home away where u: "store_segments (sd_home sd) 0 (rs_segs st (sd_home sd)) = Inr home"
    "store_segments (sd_away sd) 0 (rs_segs st (sd_away sd)) = Inr away" "stored = [home, away]"
    by (auto simp: both_def result_simps)
  show thesis
    by (rule that [OF _ _ s(3,4) t u(1,2)]) (use s gs u(3) in \<open>simp_all add: py_def split: sum.splits\<close>)
qed


lemma same_spans_map:
  assumes "same_spans st st'" and "\<And>s. g (s\<lparr>o_off_poss := 0\<rparr>) = g s"
  shows "map g (rs_segs st' t) = map g (rs_segs st t)"
proof -
  have "map g (map (\<lambda>s. s\<lparr>o_off_poss := 0\<rparr>) (rs_segs st' t)) = map g (map (\<lambda>s. s\<lparr>o_off_poss := 0\<rparr>) (rs_segs st t))"
    using assms(1) by (simp only: same_spans_def)
  then show ?thesis by (simp add: assms(2) comp_def)
qed

text \<open>The quantities of a team, over its stored segments.\<close>

definition team_segments :: "GameSegments \<Rightarrow> int \<Rightarrow> Segment list" where
  "team_segments gs t = filter (\<lambda>s. sg_team_id s = t) (gs_segments gs)"

lemma store_segments_team: "store_segments team seq segs = Inr ss \<Longrightarrow> x \<in> set ss \<Longrightarrow> sg_team_id x = team"
  using store_segments_shape(2) by (fastforce simp: stored_segment_def)

lemma team_segments_stored:
  assumes d: "derive_segments box pbp season = Inr gs" and ha: "gs_home_team_id gs \<noteq> gs_away_team_id gs"
    and t: "t \<in> {gs_home_team_id gs, gs_away_team_id gs}"
  obtains game periods actions sd st0 st1 poss st where
    "py_item box ''game'' = Inr game" "and_then (py_item game ''period'') py_int = Inr periods"
    "game_actions pbp = Inr actions" "read_sides game = Inr sd"
    "fold_res (segment_action sd periods (HEAVES_EXCLUDED_SEASON \<le> season)) actions (opening_state sd) = Inr st0"
    "counted_possessions actions [sd_home sd \<mapsto> sd_away sd, sd_away sd \<mapsto> sd_home sd] (rs_answered st0) = Inr poss"
    "keeps sd st0 st1" "over (game_end_cs periods) (rs_segs st1 t)"
    "same_spans st1 st" "store_segments t 0 (rs_segs st t) = Inr (team_segments gs t)"
    "team_total (team_count_of ''fta'') t st1 = plays_charged ''freethrow'' t actions"
    "team_total (team_count_of ''tov'') t st1 = plays_charged ''turnover'' t actions"
    "team_total o_off_poss t st = int (length (filter (\<lambda>x. snd x = t) poss))"
    "sd_home sd = gs_home_team_id gs" "sd_away sd = gs_away_team_id gs"
proof (rule derive_segmentsE [OF d])
  fix game periods actions sd st0 st1 poss st home away
  assume s: "py_item box ''game'' = Inr game" "and_then (py_item game ''period'') py_int = Inr periods"
    "game_actions pbp = Inr actions" "read_sides game = Inr sd"
    and f: "fold_res (segment_action sd periods (HEAVES_EXCLUDED_SEASON \<le> season)) actions (opening_state sd) = Inr st0"
    and fin: "finish_game sd (game_end_cs periods) st0 = Inr st1"
    and c: "counted_possessions actions [sd_home sd \<mapsto> sd_away sd, sd_away sd \<mapsto> sd_home sd] (rs_answered st1) = Inr poss"
    and cr: "fold_res credit_possession poss st1 = Inr st"
    and h: "store_segments (sd_home sd) 0 (rs_segs st (sd_home sd)) = Inr home"
    and a: "store_segments (sd_away sd) 0 (rs_segs st (sd_away sd)) = Inr away"
    and gs: "gs_home_team_id gs = sd_home sd" "gs_away_team_id gs = sd_away sd" "gs_segments gs = home @ away"
  have ne: "sd_home sd \<noteq> sd_away sd" and tb: "t \<in> set (both sd)" using ha t gs by (auto simp: both_def)
  note open' = opening_state_wf [OF ne]
  note r = replay_actions [OF f open'(1)]
  note fg = finish_game_over [OF fin conjunct1 [OF r] ne]
  have wf1: "wf_replay sd st1" using keeps_wf [OF fg(1)] r by blast
  have k: "rs_answered st1 = rs_answered st0" and tot: "tallied g \<Longrightarrow> team_total g t st1 = team_total g t st0" for g
    using fg(1) by (simp_all add: keeps_def)
  have n: "logged_refs sd (length actions) st1"
    using r open' fg(1) wf1 by (auto simp: logged_refs_def keeps_def wf_replay_def refs_def)
  have cp: "same_spans st1 st \<and> team_total o_off_poss t st = team_total o_off_poss t st1 + int (length (filter (\<lambda>x. snd x = t) poss))"
    using credit_possessions [OF cr n] counted_possessions_index [OF c] by simp
  have "filter (\<lambda>s. sg_team_id s = sd_home sd) home = home" "filter (\<lambda>s. sg_team_id s = sd_away sd) home = []"
    "filter (\<lambda>s. sg_team_id s = sd_home sd) away = []" "filter (\<lambda>s. sg_team_id s = sd_away sd) away = away"
    using store_segments_team [OF h] store_segments_team [OF a] ne by (auto simp: filter_id_conv filter_empty_conv)
  then have st: "store_segments t 0 (rs_segs st t) = Inr (team_segments gs t)"
    using h a t gs by (auto simp: team_segments_def)
  show thesis
    by (rule that [OF s f _ fg(1) _ conjunct1 [OF cp] st])
      (use c k fg(2) tb r tot cp gs open'(5) in \<open>simp_all add: tallied_counts\<close>)
qed

text \<open>
  C30. The segments stored for a team last the whole game, exactly: for any accepted pair of
  documents naming two distinct teams, the durations of each team's stored segments are
  non-negative and add up to the length of the game's periods (overtimes included), whatever
  substitutions, period changes and zero-length segments the feed contains. Segments dropped
  because nothing happened in them are exactly of length zero.
\<close>
theorem segments_last_the_game:
  assumes d: "derive_segments box pbp season = Inr gs" and ha: "gs_home_team_id gs \<noteq> gs_away_team_id gs"
    and t: "t \<in> {gs_home_team_id gs, gs_away_team_id gs}"
  shows "\<exists>game periods. py_item box ''game'' = Inr game \<and> and_then (py_item game ''period'') py_int = Inr periods
     \<and> sum_list (map sg_duration_cs (team_segments gs t)) = game_end_cs periods
     \<and> (\<forall>s \<in> set (team_segments gs t). 0 \<le> sg_duration_cs s)"
proof (rule team_segments_stored [OF assms])
  fix game periods actions sd st0 st1 poss st
  assume s: "py_item box ''game'' = Inr game" "and_then (py_item game ''period'') py_int = Inr periods"
    and ov: "over (game_end_cs periods) (rs_segs st1 t)" and sp: "same_spans st1 st"
    and store: "store_segments t 0 (rs_segs st t) = Inr (team_segments gs t)"
  have dur: "map segment_duration (rs_segs st t) = map segment_duration (rs_segs st1 t)"
    by (rule same_spans_map [OF sp]) (simp add: segment_duration_def)
  have nn: "0 \<le> segment_duration x" if "x \<in> set (rs_segs st t)" for x
  proof -
    have "segment_duration x \<in> segment_duration ` set (rs_segs st1 t)"
      using that arg_cong [OF dur, of set] by auto
    with ov show ?thesis by (auto simp: over_def segment_duration_def)
  qed
  have "sum_list (map sg_duration_cs (team_segments gs t)) = sum_list (map segment_duration (rs_segs st t))"
    by (rule store_segments_sum [OF store]) (use nn in \<open>force simp: stored_segment_def is_kept_def\<close>)+
  moreover have "\<forall>s \<in> set (team_segments gs t). 0 \<le> sg_duration_cs s"
    using store_segments_shape(2) [OF store] nn by (fastforce simp: stored_segment_def)
  ultimately show ?thesis
    using s over_durations [OF ov] dur by auto
qed


text \<open>
  No event of the feed is lost or counted twice when it is charged to a segment: for each
  team of an accepted game, the team free-throw attempts of its stored segments add up to the
  number of free-throw actions of the feed with that team id, and the team turnovers to the
  number of turnover actions; free throws shot after a substitution are charged to the lineup at
  the foul, and still each is counted in exactly one segment.
\<close>
theorem team_counts_conserved:
  assumes d: "derive_segments box pbp season = Inr gs" and ha: "gs_home_team_id gs \<noteq> gs_away_team_id gs"
    and t: "t \<in> {gs_home_team_id gs, gs_away_team_id gs}"
  shows "\<exists>actions. game_actions pbp = Inr actions
     \<and> sum_list (map sg_team_fta (team_segments gs t)) = plays_charged ''freethrow'' t actions
     \<and> sum_list (map sg_team_tov (team_segments gs t)) = plays_charged ''turnover'' t actions"
proof (rule team_segments_stored [OF assms])
  fix game periods actions sd st0 st1 poss st
  assume a: "game_actions pbp = Inr actions" and sp: "same_spans st1 st"
    and store: "store_segments t 0 (rs_segs st t) = Inr (team_segments gs t)"
    and fta: "team_total (team_count_of ''fta'') t st1 = plays_charged ''freethrow'' t actions"
    and tov: "team_total (team_count_of ''tov'') t st1 = plays_charged ''turnover'' t actions"
  have same: "sum_list (map (team_count_of key) (rs_segs st t)) = team_total (team_count_of key) t st1" for key
  proof -
    have "map (team_count_of key) (rs_segs st t) = map (team_count_of key) (rs_segs st1 t)"
      by (rule same_spans_map [OF sp]) (simp add: team_count_of_def)
    then show ?thesis by (simp only: team_total_def)
  qed
  have "sum_list (map sg_team_fta (team_segments gs t)) = sum_list (map (team_count_of ''fta'') (rs_segs st t))"
    "sum_list (map sg_team_tov (team_segments gs t)) = sum_list (map (team_count_of ''tov'') (rs_segs st t))"
    by (rule store_segments_sum [OF store]; simp add: stored_segment_def team_count_of_def is_kept_def dict_get_def)+
  with a fta tov same show ?thesis by simp
qed

text \<open>
  C31. Every counted possession is credited to exactly one stored segment of the team that had
  the ball: for each team, the offensive possessions of its stored segments add up to the number
  of possessions that the possession rules count for it, over the fouls that the replay of the
  same actions found each free throw to answer.
\<close>
theorem possessions_conserved:
  assumes d: "derive_segments box pbp season = Inr gs" and ha: "gs_home_team_id gs \<noteq> gs_away_team_id gs"
    and t: "t \<in> {gs_home_team_id gs, gs_away_team_id gs}"
  shows "\<exists>game periods actions sd st poss. py_item box ''game'' = Inr game
     \<and> and_then (py_item game ''period'') py_int = Inr periods \<and> game_actions pbp = Inr actions
     \<and> read_sides game = Inr sd
     \<and> fold_res (segment_action sd periods (HEAVES_EXCLUDED_SEASON \<le> season)) actions (opening_state sd) = Inr st
     \<and> counted_possessions actions
          [gs_home_team_id gs \<mapsto> gs_away_team_id gs, gs_away_team_id gs \<mapsto> gs_home_team_id gs] (rs_answered st) = Inr poss
     \<and> sum_list (map sg_off_poss (team_segments gs t)) = int (length (filter (\<lambda>x. snd x = t) poss))"
proof (rule team_segments_stored [OF assms])
  fix game periods actions sd st0 st1 poss st
  assume s: "py_item box ''game'' = Inr game" "and_then (py_item game ''period'') py_int = Inr periods"
    "game_actions pbp = Inr actions" "read_sides game = Inr sd"
    "fold_res (segment_action sd periods (HEAVES_EXCLUDED_SEASON \<le> season)) actions (opening_state sd) = Inr st0"
    "counted_possessions actions [sd_home sd \<mapsto> sd_away sd, sd_away sd \<mapsto> sd_home sd] (rs_answered st0) = Inr poss"
    and gs: "sd_home sd = gs_home_team_id gs" "sd_away sd = gs_away_team_id gs"
    and store: "store_segments t 0 (rs_segs st t) = Inr (team_segments gs t)"
    and poss: "team_total o_off_poss t st = int (length (filter (\<lambda>x. snd x = t) poss))"
  have "sum_list (map sg_off_poss (team_segments gs t)) = sum_list (map o_off_poss (rs_segs st t))"
    by (rule store_segments_sum [OF store]) (simp_all add: stored_segment_def is_kept_def)
  with poss have "sum_list (map sg_off_poss (team_segments gs t)) = int (length (filter (\<lambda>x. snd x = t) poss))"
    by (simp only: team_total_def)
  with s show ?thesis unfolding gs by blast
qed

text \<open>
  The stored segments of a team are numbered 0, 1, 2, ... without gaps, and each names
  exactly five distinct players in ascending order, with one complete set of counts (every
  statistic of \<open>COUNTS\<close>, in order) for each of the five and for nobody else.
\<close>
theorem stored_segments_complete:
  assumes d: "derive_segments box pbp season = Inr gs" and ha: "gs_home_team_id gs \<noteq> gs_away_team_id gs"
    and t: "t \<in> {gs_home_team_id gs, gs_away_team_id gs}"
  shows "map sg_seg (team_segments gs t) = [0..<length (team_segments gs t)]
     \<and> (\<forall>s \<in> set (team_segments gs t). length (sg_players s) = 5 \<and> sorted_wrt (<) (sg_players s)
          \<and> map fst (sg_counts s) = sg_players s \<and> (\<forall>c \<in> set (sg_counts s). map fst (snd c) = COUNTS))"
proof (rule team_segments_stored [OF assms])
  fix game periods actions sd st0 st1 poss st
  assume store: "store_segments t 0 (rs_segs st t) = Inr (team_segments gs t)"
  have "length (sg_players x) = 5 \<and> sorted_wrt (<) (sg_players x)
          \<and> map fst (sg_counts x) = sg_players x \<and> (\<forall>c \<in> set (sg_counts x). map fst (snd c) = COUNTS)"
    if "card (o_players s) = ON_COURT" and "x = stored_segment t n s" for x n s
    using that by (auto simp: stored_segment_def ON_COURT_def comp_def)
  with store_segments_shape [OF store] show ?thesis by fastforce
qed

section \<open>An accepted game\<close>

text \<open>A game in which a substitution falls between a foul and its free throw.\<close>

definition demo_event :: "string \<Rightarrow> string \<Rightarrow> int \<Rightarrow> int \<Rightarrow> json" where
  "demo_event ty sub team pid =
     JObj [(''actionType'', JStr ty), (''subType'', JStr sub), (''period'', JInt 1), (''clock'', JStr ''PT06M00.00S''),
           (''teamId'', JInt team), (''personId'', JInt pid), (''shotResult'', JStr ''Made'')]"

lemma demo_event_keys [simp]:
  "get_key (demo_event ty sub team pid) ''actionType'' = JStr ty" "get_key (demo_event ty sub team pid) ''subType'' = JStr sub"
  "get_key (demo_event ty sub team pid) ''teamId'' = JInt team" "get_key (demo_event ty sub team pid) ''personId'' = JInt pid"
  "get_key (demo_event ty sub team pid) ''shotResult'' = JStr ''Made''" "get_key (demo_event ty sub team pid) ''possession'' = JNull"
  "get_key (demo_event ty sub team pid) ''period'' = JInt 1" "get_key (demo_event ty sub team pid) ''clock'' = JStr ''PT06M00.00S''"
  "get_key (demo_event ty sub team pid) ''descriptor'' = JNull"
  "py_item (demo_event ty sub team pid) ''actionType'' = Inr (JStr ty)"
  "py_item (demo_event ty sub team pid) ''period'' = Inr (JInt 1)" "py_item (demo_event ty sub team pid) ''subType'' = Inr (JStr sub)"
  "py_item (demo_event ty sub team pid) ''clock'' = Inr (JStr ''PT06M00.00S'')"
  "py_item (demo_event ty sub team pid) ''personId'' = Inr (JInt pid)"
  "is_type (demo_event ty sub team pid) ty' \<longleftrightarrow> ty = ty'"
  by (auto simp: demo_event_def py_item_def is_type_def)

definition demo_feed :: "json list" where
  "demo_feed =
     [demo_event ''foul'' ''personal'' 3 6, demo_event ''substitution'' ''out'' 2 1, demo_event ''substitution'' ''in'' 2 11,
      demo_event ''freethrow'' ''2 of 2'' 2 2, demo_event ''turnover'' ''lost ball'' 3 7]"

definition demo_feed_document :: json where
  "demo_feed_document = JObj [(''game'', JObj [(''actions'', JList demo_feed)])]"

definition demo_sides :: sides where
  "demo_sides = \<lparr>sd_home = 2, sd_away = 3,
     sd_team_of = map (\<lambda>i. (i, 2)) [11, 1, 2, 3, 4, 5] @ map (\<lambda>i. (i, 3)) [6, 7, 8, 9, 10],
     sd_names = map (\<lambda>i. (i, ''P'')) [11, 1, 2, 3, 4, 5, 6, 7, 8, 9, 10],
     sd_on = (\<lambda>_. {})(2 := {1, 2, 3, 4, 5}, 3 := {6, 7, 8, 9, 10})\<rparr>"

lemma demo_sides_read: "read_sides (get_key demo_box ''game'') = Inr demo_sides"
  by (simp add: read_sides_def read_side_def read_side_player_def demo_box_def demo_player_def demo_sides_def
      py_item_def py_def py_or_def py_str_def Let_def fun_eq_iff insert_commute)

lemma demo_sides_fields [simp]: "sd_home demo_sides = 2" "sd_away demo_sides = 3" "both demo_sides = [2, 3]"
  "map_of (sd_team_of demo_sides) 1 = Some 2" "map_of (sd_team_of demo_sides) 11 = Some 2"
  "sd_on demo_sides = (\<lambda>_. {})(2 := {1, 2, 3, 4, 5}, 3 := {6, 7, 8, 9, 10})"
  by (simp_all add: demo_sides_def both_def)

lemma demo_feed_actions: "game_actions demo_feed_document = Inr demo_feed"
proof -
  have doc: "and_then (py_item demo_feed_document ''game'') (\<lambda>g. py_item g ''actions'') = Inr (JList demo_feed)"
    by (simp add: demo_feed_document_def py_item_def)
  show ?thesis unfolding game_actions_def doc by (simp add: demo_feed_def py_def)
qed

lemma demo_lineup: "({11, 2, 3, 4, 5} :: int set) \<noteq> {1, 2, 3, 4, 5}"
proof -
  have "(11 :: int) \<in> {11, 2, 3, 4, 5}" "(11 :: int) \<notin> {1, 2, 3, 4, 5}" by simp_all
  then show ?thesis by blast
qed

lemma demo_clock: "py_int (JInt 1) = Inr 1" "parse_clock_cs (JStr ''PT06M00.00S'') = Inr 36000"
  "period_start_cs 1 = 0" "period_length_cs 1 = 72000" "game_end_cs 4 = 288000"
  by (simp_all add: parse_clock_examples demo_periods)

definition demo0 :: replay_state where "demo0 = opening_state demo_sides"

definition demo1 :: replay_state where
  "demo1 = log_action (current_ref demo_sides demo0) None None
     (demo0\<lparr>rs_trip_foul := Some (demo_event ''foul'' ''personal'' 3 6), rs_foul_lineups := Some (current_ref demo_sides demo0)\<rparr>)"

lemma demo0_fields [simp]:
  "rs_on demo0 2 = {1, 2, 3, 4, 5}" "rs_on demo0 3 = {6, 7, 8, 9, 10}" "rs_period demo0 = 1" "rs_technicals demo0 = []"
  "rs_segs demo0 2 = [new_open 2 0 {1, 2, 3, 4, 5}]" "rs_segs demo0 3 = [new_open 3 0 {6, 7, 8, 9, 10}]"
  "rs_at_action demo0 = []" "rs_at_foul demo0 = []" "rs_answered demo0 = []"
  by (simp_all add: demo0_def opening_state_def open_segment_def)

lemma new_open_players [simp]: "o_players (new_open t s p) = p"
  by (simp add: new_open_def)

lemma demo_refs [simp]: "current_ref demo_sides demo0 2 = Some 0" "current_ref demo_sides demo0 3 = Some 0"
  by (simp_all add: current_ref_def)

lemma no_technicals [simp]: "rs_technicals st = [] \<Longrightarrow> st\<lparr>rs_technicals := []\<rparr> = st"
  by (cases st) simp

lemma upd_seg_id [simp]: "upd_seg t i id st = st"
  by (cases st) (simp add: upd_seg_def)

lemmas demo_step_defs = segment_action_def Let_def py_def demo_clock advance_period_def play_action_def
  settle_lineups_def current_players_def charge_foul_def count_action_def count_updates_def int_or_0_def
  py_or_def is_shot_def SHOTS_def demo_sides_fields apply_substitution_def

lemma demo_step1: "segment_action demo_sides 4 True (demo_event ''foul'' ''personal'' 3 6) demo0 = Inr demo1"
  by (simp add: demo_step_defs demo1_def)

definition demo3 :: replay_state where
  "demo3 = (let st2 = log_action (current_ref demo_sides demo1) None None
       (demo1\<lparr>rs_on := (rs_on demo1)(2 := {2, 3, 4, 5}), rs_changed := (rs_changed demo1)(2 := 36000)\<rparr>)
     in log_action (current_ref demo_sides st2) None None
       (st2\<lparr>rs_on := (rs_on st2)(2 := {11, 2, 3, 4, 5}), rs_changed := (rs_changed st2)(2 := 36000)\<rparr>))"

lemma demo_step2:
  "fold_res (segment_action demo_sides 4 True)
     [demo_event ''substitution'' ''out'' 2 1, demo_event ''substitution'' ''in'' 2 11] demo1 = Inr demo3"
  by (simp add: demo_step_defs demo3_def demo1_def log_action_def)


definition demo_settled :: replay_state where "demo_settled = renew_segment 2 36000 demo3"

definition demo_free_throw :: "Open \<Rightarrow> Open" where
  "demo_free_throw = count_stat 2 ''pts'' 1 \<circ> (count_team ''fta'' \<circ> count_stat 2 ''fta'' 1)"

definition demo_turnover :: "Open \<Rightarrow> Open" where
  "demo_turnover = count_stat 7 ''tov'' 1 \<circ> count_team ''tov''"

definition demo4 :: replay_state where
  "demo4 = upd_seg 2 0 demo_free_throw (log_action (current_ref demo_sides demo_settled) (Some (current_ref demo_sides demo0))
     (Some (demo_event ''foul'' ''personal'' 3 6)) demo_settled)"

definition demo5 :: replay_state where
  "demo5 = upd_seg 3 0 demo_turnover (log_action (current_ref demo_sides demo4) None None demo4)"

lemma demo3_fields [simp]:
  "rs_on demo3 2 = {11, 2, 3, 4, 5}" "rs_on demo3 3 = {6, 7, 8, 9, 10}" "rs_period demo3 = 1" "rs_technicals demo3 = []"
  "rs_segs demo3 = rs_segs demo0" "rs_changed demo3 2 = 36000"
  "rs_trip_foul demo3 = Some (demo_event ''foul'' ''personal'' 3 6)"
  "rs_foul_lineups demo3 = Some (current_ref demo_sides demo0)"
  "length (rs_at_action demo3) = 3" "rs_at_foul demo3 = [None, None, None]" "rs_answered demo3 = [None, None, None]"
  by (simp_all add: demo3_def demo1_def log_action_def Let_def)

lemma demo_settled_fields [simp]:
  "rs_on demo_settled = rs_on demo3" "rs_period demo_settled = 1" "rs_technicals demo_settled = []"
  "rs_segs demo_settled 2 = [(new_open 2 0 {1, 2, 3, 4, 5})\<lparr>o_end_cs := Some 36000\<rparr>, new_open 2 36000 {11, 2, 3, 4, 5}]"
  "rs_segs demo_settled 3 = [new_open 3 0 {6, 7, 8, 9, 10}]"
  "rs_trip_foul demo_settled = rs_trip_foul demo3" "rs_foul_lineups demo_settled = rs_foul_lineups demo3"
  "rs_at_action demo_settled = rs_at_action demo3" "rs_at_foul demo_settled = rs_at_foul demo3"
  "rs_answered demo_settled = rs_answered demo3"
  by (simp_all add: demo_settled_def renew_segment_def open_segment_def close_current_def upd_seg_def)

lemma demo_settle: "settle_lineups demo_sides demo3 = demo_settled"
  by (simp add: settle_lineups_def current_players_def demo_lineup demo_settled_def [symmetric])

lemma demo_step3: "segment_action demo_sides 4 True (demo_event ''freethrow'' ''2 of 2'' 2 2) demo3 = Inr demo4"
  by (simp add: segment_action_def Let_def py_def demo_clock advance_period_def play_action_def demo_settle
      charge_foul_def technical_answered_def count_action_def count_updates_def int_or_0_def py_or_def is_shot_def
      SHOTS_def made_def demo4_def demo_free_throw_def)

lemma demo_open_players [simp]: "o_players (demo_free_throw s) = o_players s" "o_players (demo_turnover s) = o_players s"
  by (simp_all add: demo_free_throw_def demo_turnover_def)

lemma demo4_fields [simp]:
  "rs_on demo4 = rs_on demo3" "rs_period demo4 = 1" "rs_technicals demo4 = []"
  "rs_segs demo4 2 = [demo_free_throw ((new_open 2 0 {1, 2, 3, 4, 5})\<lparr>o_end_cs := Some 36000\<rparr>), new_open 2 36000 {11, 2, 3, 4, 5}]"
  "rs_segs demo4 3 = [new_open 3 0 {6, 7, 8, 9, 10}]"
  "length (rs_at_action demo4) = 4"
  "rs_at_foul demo4 = [None, None, None, Some (current_ref demo_sides demo0)]"
  "rs_answered demo4 = [None, None, None, Some (demo_event ''foul'' ''personal'' 3 6)]"
  by (simp_all add: demo4_def upd_seg_def log_action_def)

lemma demo_refs4 [simp]: "current_ref demo_sides demo4 3 = Some 0"
  by (simp add: current_ref_def)

lemma demo_step4: "segment_action demo_sides 4 True (demo_event ''turnover'' ''lost ball'' 3 7) demo4 = Inr demo5"
  by (simp add: segment_action_def Let_def py_def demo_clock advance_period_def play_action_def
      settle_lineups_def current_players_def charge_foul_def count_action_def count_updates_def int_or_0_def
      py_or_def is_shot_def SHOTS_def demo5_def demo_turnover_def)

lemma demo_replayed: "fold_res (segment_action demo_sides 4 True) demo_feed (opening_state demo_sides) = Inr demo5"
proof -
  have feed: "demo_feed = demo_event ''foul'' ''personal'' 3 6
     # [demo_event ''substitution'' ''out'' 2 1, demo_event ''substitution'' ''in'' 2 11]
     @ [demo_event ''freethrow'' ''2 of 2'' 2 2, demo_event ''turnover'' ''lost ball'' 3 7]"
    by (simp add: demo_feed_def)
  have "fold_res (segment_action demo_sides 4 True) [demo_event ''freethrow'' ''2 of 2'' 2 2,
      demo_event ''turnover'' ''lost ball'' 3 7] demo3 = Inr demo5"
    by (simp add: demo_step3 demo_step4)
  then show ?thesis
    unfolding feed demo0_def [symmetric] fold_res.simps(2) [of _ "demo_event ''foul'' ''personal'' 3 6"]
      demo_step1 and_then.simps fold_res_append demo_step2 .
qed

lemma demo_plays: "plays_of demo_feed = [0, 3, 4]"
  by (simp add: plays_of_def demo_feed_def upt_rec)

lemma demo_kind: "kind (Some (demo_event ty sub team pid)) = []"
  by (simp add: kind_def py_or_def py_str_def lower_def)

lemma demo_feed_nth: "demo_feed ! 0 = demo_event ''foul'' ''personal'' 3 6"
  "demo_feed ! 3 = demo_event ''freethrow'' ''2 of 2'' 2 2" "demo_feed ! 4 = demo_event ''turnover'' ''lost ball'' 3 7"
  by (simp_all add: demo_feed_def)

definition demo_answered :: "json option list" where
  "demo_answered = [None, None, None, Some (demo_event ''foul'' ''personal'' 3 6), None]"

lemma demo_trip: "last_of_trip (JStr ''2 of 2'')" "\<not> keeps_ball (demo_answered ! 3)"
  by code_simp (simp add: demo_answered_def keeps_ball_def demo_kind KEEPS_BALL_def)

lemma demo_ends:
  "possession_end demo_feed other demo_answered off 0 [] = Inr []"
  "possession_end demo_feed other demo_answered off 1 [] = Inr [(3, 2)]"
  "possession_end demo_feed other demo_answered off 2 [(3, 2)] = Inr [(3, 2), (4, 3)]"
  by (simp_all add: possession_end_def demo_plays demo_feed_nth demo_trip int_or_0_def py_or_def py_def Let_def
      is_shot_def SHOTS_def made_def)

lemma demo_counted: "counted_loop demo_feed [(3, 2), (4, 3)] None = Inr [(3, 2), (4, 3)]"
  by (simp add: demo_feed_nth demo_clock py_eq_def LAST_SECONDS_CS_def Let_def)

lemma demo_possessions: "counted_possessions demo_feed other demo_answered = Inr [(3, 2), (4, 3)]"
proof -
  have "feed_offense demo_feed 0 = Inr [0, 0, 0, 0, 0]"
    by (simp add: demo_feed_def int_or_0_def py_or_def py_def Let_def)
  moreover have "[0..<length (plays_of demo_feed)] = [0, 1, 2]" by (simp add: demo_plays upt_rec)
  ultimately show ?thesis
    unfolding counted_possessions_def
    by (simp only: and_then.simps fold_res.simps demo_ends demo_counted)
qed

definition demo_finished :: replay_state where
  "demo_finished = close_current 3 288000 (close_current 2 288000 demo5)"

definition demo_credited :: replay_state where
  "demo_credited = upd_seg 3 0 (\<lambda>s. s\<lparr>o_off_poss := o_off_poss s + 1\<rparr>)
     (upd_seg 2 0 (\<lambda>s. s\<lparr>o_off_poss := o_off_poss s + 1\<rparr>) demo_finished)"

lemma demo5_fields [simp]:
  "rs_segs demo5 2 = rs_segs demo4 2" "rs_segs demo5 3 = [demo_turnover (new_open 3 0 {6, 7, 8, 9, 10})]"
  "rs_at_foul demo5 = [None, None, None, Some (current_ref demo_sides demo0), None]"
  "rs_at_action demo5 ! 4 = current_ref demo_sides demo4" "rs_answered demo5 = demo_answered"
  by (simp_all add: demo5_def upd_seg_def log_action_def nth_append demo_answered_def)

lemma demo_count_ends [simp]: "o_end_cs (demo_free_throw s) = o_end_cs s" "o_start_cs (demo_free_throw s) = o_start_cs s"
  "o_end_cs (demo_turnover s) = o_end_cs s" "o_start_cs (demo_turnover s) = o_start_cs s"
  "o_start_cs (new_open t c p) = c" "o_end_cs (new_open t c p) = None"
  by (simp_all add: demo_free_throw_def demo_turnover_def new_open_def)

lemma demo_finished_fields [simp]:
  "rs_segs demo_finished 2 = [demo_free_throw ((new_open 2 0 {1, 2, 3, 4, 5})\<lparr>o_end_cs := Some 36000\<rparr>),
     (new_open 2 36000 {11, 2, 3, 4, 5})\<lparr>o_end_cs := Some 288000\<rparr>]"
  "rs_segs demo_finished 3 = [(demo_turnover (new_open 3 0 {6, 7, 8, 9, 10}))\<lparr>o_end_cs := Some 288000\<rparr>]"
  "rs_at_foul demo_finished = rs_at_foul demo5" "rs_at_action demo_finished = rs_at_action demo5"
  "rs_answered demo_finished = demo_answered"
  by (simp_all add: demo_finished_def close_current_def upd_seg_def)

lemma demo_game_over: "finish_game demo_sides 288000 demo5 = Inr demo_finished"
  by (simp add: finish_game_def require_forward_def close_current_segs Let_def demo_finished_def)

lemma demo_credit: "fold_res credit_possession [(3, 2), (4, 3)] demo_finished = Inr demo_credited"
  by (simp add: credit_possession_def demo_credited_def upd_seg_def)

lemma demo_store:
  "is_ok (store_segments 2 0 (rs_segs demo_credited 2))" "is_ok (store_segments 3 0 (rs_segs demo_credited 3))"
  by (simp_all add: demo_credited_def upd_seg_def is_kept_def segment_duration_def ON_COURT_def)

lemma demo_segments:
  obtains gs where "derive_segments demo_box demo_feed_document ''2026-27'' = Inr gs"
    and "gs_home_team_id gs = 2" and "gs_away_team_id gs = 3"
proof -
  have box: "py_item demo_box ''game'' = Inr (get_key demo_box ''game'')"
    "and_then (py_item (get_key demo_box ''game'') ''period'') py_int = Inr 4"
    "is_ok (py_item (get_key demo_box ''game'') ''gameId'')"
    by (simp_all add: demo_box_def py_item_def)
  then obtain gid where gid: "py_item (get_key demo_box ''game'') ''gameId'' = Inr gid" by (auto simp: is_ok_iff)
  have season: "(HEAVES_EXCLUDED_SEASON \<le> ''2026-27'') = True" by (simp add: HEAVES_EXCLUDED_SEASON_def)
  obtain h a where store: "store_segments 2 0 (rs_segs demo_credited 2) = Inr h"
    "store_segments 3 0 (rs_segs demo_credited 3) = Inr a"
    using demo_store by (auto simp: is_ok_iff)
  have "replay_segments demo_sides 4 True demo_feed = Inr demo_credited"
    by (simp add: replay_segments_def demo_replayed demo_clock demo_game_over demo_possessions demo_credit
        del: fold_res.simps)
  then have "derive_segments demo_box demo_feed_document ''2026-27'' = Inr
     \<lparr>gs_game_id = py_str gid, gs_home_team_id = 2, gs_away_team_id = 3, gs_names = sd_names demo_sides, gs_segments = h @ a\<rparr>"
    by (simp add: derive_segments_def box gid season demo_feed_actions demo_sides_read store py_def)
  then show thesis by (rule that) simp_all
qed

theorem segments_last_the_game_witness:
  "\<exists>gs. derive_segments demo_box demo_feed_document ''2026-27'' = Inr gs
     \<and> sum_list (map sg_duration_cs (team_segments gs 2)) = 288000"
proof (rule demo_segments)
  fix gs assume gs: "derive_segments demo_box demo_feed_document ''2026-27'' = Inr gs"
    and t: "gs_home_team_id gs = 2" "gs_away_team_id gs = 3"
  have "\<exists>game periods. py_item demo_box ''game'' = Inr game \<and> and_then (py_item game ''period'') py_int = Inr periods
     \<and> sum_list (map sg_duration_cs (team_segments gs 2)) = game_end_cs periods
     \<and> (\<forall>s \<in> set (team_segments gs 2). 0 \<le> sg_duration_cs s)"
    by (rule segments_last_the_game [OF gs]) (simp_all add: t)
  then have "sum_list (map sg_duration_cs (team_segments gs 2)) = game_end_cs 4"
    by (auto simp: demo_box_def py_item_def)
  with gs show ?thesis by (auto simp: demo_clock)
qed

theorem team_counts_conserved_witness:
  "\<exists>gs. derive_segments demo_box demo_feed_document ''2026-27'' = Inr gs
     \<and> sum_list (map sg_team_fta (team_segments gs 2)) = 1 \<and> sum_list (map sg_team_tov (team_segments gs 2)) = 0"
proof (rule demo_segments)
  fix gs assume gs: "derive_segments demo_box demo_feed_document ''2026-27'' = Inr gs"
    and t: "gs_home_team_id gs = 2" "gs_away_team_id gs = 3"
  have "\<exists>actions. game_actions demo_feed_document = Inr actions
     \<and> sum_list (map sg_team_fta (team_segments gs 2)) = plays_charged ''freethrow'' 2 actions
     \<and> sum_list (map sg_team_tov (team_segments gs 2)) = plays_charged ''turnover'' 2 actions"
    by (rule team_counts_conserved [OF gs]) (simp_all add: t)
  then have "sum_list (map sg_team_fta (team_segments gs 2)) = plays_charged ''freethrow'' 2 demo_feed"
    "sum_list (map sg_team_tov (team_segments gs 2)) = plays_charged ''turnover'' 2 demo_feed"
    by (auto simp: demo_feed_actions)
  moreover have "plays_charged ''freethrow'' 2 demo_feed = 1" "plays_charged ''turnover'' 2 demo_feed = 0"
    by (simp_all add: plays_charged_def demo_feed_def action_team_def)
  ultimately show ?thesis using gs by auto
qed

theorem possessions_conserved_witness:
  "\<exists>gs. derive_segments demo_box demo_feed_document ''2026-27'' = Inr gs
     \<and> sum_list (map sg_off_poss (team_segments gs 2)) = 1"
proof (rule demo_segments)
  fix gs assume gs: "derive_segments demo_box demo_feed_document ''2026-27'' = Inr gs"
    and t: "gs_home_team_id gs = 2" "gs_away_team_id gs = 3"
  have "\<exists>game periods actions sd st poss. py_item demo_box ''game'' = Inr game
     \<and> and_then (py_item game ''period'') py_int = Inr periods \<and> game_actions demo_feed_document = Inr actions
     \<and> read_sides game = Inr sd
     \<and> fold_res (segment_action sd periods (HEAVES_EXCLUDED_SEASON \<le> ''2026-27'')) actions (opening_state sd) = Inr st
     \<and> counted_possessions actions
          [gs_home_team_id gs \<mapsto> gs_away_team_id gs, gs_away_team_id gs \<mapsto> gs_home_team_id gs] (rs_answered st) = Inr poss
     \<and> sum_list (map sg_off_poss (team_segments gs 2)) = int (length (filter (\<lambda>x. snd x = 2) poss))"
    by (rule possessions_conserved [OF gs]) (simp_all add: t)
  then obtain game periods actions sd st poss where "py_item demo_box ''game'' = Inr game"
    "and_then (py_item game ''period'') py_int = Inr periods" "game_actions demo_feed_document = Inr actions"
    and sd: "read_sides game = Inr sd"
    and st: "fold_res (segment_action sd periods (HEAVES_EXCLUDED_SEASON \<le> ''2026-27'')) actions (opening_state sd) = Inr st"
    and poss: "counted_possessions actions
          [gs_home_team_id gs \<mapsto> gs_away_team_id gs, gs_away_team_id gs \<mapsto> gs_home_team_id gs] (rs_answered st) = Inr poss"
      "sum_list (map sg_off_poss (team_segments gs 2)) = int (length (filter (\<lambda>x. snd x = 2) poss))"
    by blast
  then have g: "game = get_key demo_box ''game''" and p: "periods = 4" and a: "actions = demo_feed"
    by (simp_all add: demo_box_def py_item_def demo_feed_actions) auto
  have "HEAVES_EXCLUDED_SEASON \<le> ''2026-27''" by (simp add: HEAVES_EXCLUDED_SEASON_def)
  with st sd have "st = demo5" by (simp add: g p a demo_sides_read demo_replayed)
  with poss show ?thesis using gs by (auto simp: a demo_possessions)
qed

theorem stored_segments_complete_witness:
  "\<exists>gs. derive_segments demo_box demo_feed_document ''2026-27'' = Inr gs
     \<and> map sg_seg (team_segments gs 2) = [0..<length (team_segments gs 2)]"
proof (rule demo_segments)
  fix gs assume gs: "derive_segments demo_box demo_feed_document ''2026-27'' = Inr gs"
    and t: "gs_home_team_id gs = 2" "gs_away_team_id gs = 3"
  from stored_segments_complete [OF gs, of 2] gs t show ?thesis by auto
qed

end
