(* ===== verification/Calendar.thy ===== *)
theory Calendar
  imports Pyvalue
begin

text \<open>
  The calendar of Python's \<open>datetime\<close>, as far as the program uses it: leap years, month lengths,
  the date of an instant in UTC, and the ISO text of an instant as
  \<open>value.isoformat().replace("+00:00", "Z")\<close> writes it, with the order of such texts.

  \<open>isoformat\<close> leaves the fraction out when the microseconds are zero. Two texts of the same
  second therefore do not compare as their instants do: \<open>.\<close> comes before \<open>Z\<close>.
\<close>

section \<open>Dates\<close>

definition leap_year :: "int \<Rightarrow> bool" where
  "leap_year y \<longleftrightarrow> y mod 4 = 0 \<and> (y mod 100 \<noteq> 0 \<or> y mod 400 = 0)"

definition month_days :: "int \<Rightarrow> int \<Rightarrow> int" where
  "month_days y m = (if m = 2 then (if leap_year y then 29 else 28) else if m \<in> {4, 6, 9, 11} then 30 else 31)"

definition days_before_year :: "int \<Rightarrow> int" where
  "days_before_year y = (y - 1) * 365 + (y - 1) div 4 - (y - 1) div 100 + (y - 1) div 400"

definition days_before_month :: "int \<Rightarrow> int \<Rightarrow> int" where
  "days_before_month y m = sum_list (map (month_days y) [1..m - 1])"

definition ymd2ord :: "int \<Rightarrow> int \<Rightarrow> int \<Rightarrow> int" where
  "ymd2ord y m d = days_before_year y + days_before_month y m + d"

lemma div_pred:
  assumes "0 < (k :: int)"
  shows "(y - 1) div k = y div k - (if y mod k = 0 then 1 else 0)"
proof (cases "y mod k = 0")
  case True
  then have "y - 1 = k * (y div k - 1) + (k - 1)" using mult_div_mod_eq [of k y] by (simp add: algebra_simps)
  then have "(y - 1) div k = y div k - 1" using assms by (intro int_div_pos_eq [of _ _ _ "k - 1"]) simp_all
  with True show ?thesis by simp
next
  case False
  moreover have "0 \<le> y mod k" "y mod k < k" using assms by simp_all
  moreover have "y - 1 = k * (y div k) + (y mod k - 1)" using mult_div_mod_eq [of k y] by simp
  ultimately have "(y - 1) div k = y div k" by (intro int_div_pos_eq [of _ _ _ "y mod k - 1"]) simp_all
  with False show ?thesis by simp
qed

lemma days_before_year_step:
  "days_before_year (y + 1) = days_before_year y + (if leap_year y then 366 else 365)"
proof -
  have "400 dvd y \<Longrightarrow> 100 dvd y" "100 dvd y \<Longrightarrow> 4 dvd y"
    by (rule dvd_trans [of _ 400], simp, assumption) (rule dvd_trans [of _ 100], simp, assumption)
  then have "y mod 400 = 0 \<Longrightarrow> y mod 100 = 0" "y mod 100 = 0 \<Longrightarrow> y mod 4 = 0"
    by (simp_all only: mod_eq_0_iff_dvd)
  then show ?thesis by (auto simp: days_before_year_def leap_year_def div_pred)
qed

lemma days_before_year_le: "1 \<le> y \<Longrightarrow> days_before_year y \<le> 366 * (y - 1)"
proof (induction y rule: int_ge_induct)
  case base
  show ?case by (simp add: days_before_year_def)
next
  case (step y)
  then show ?case using days_before_year_step [of y] by (simp split: if_splits)
qed

lemma days_before_year_mono: "y \<le> y' \<Longrightarrow> days_before_year y \<le> days_before_year y'"
proof (induction "nat (y' - y)" arbitrary: y')
  case (Suc n)
  then have "days_before_year y \<le> days_before_year (y' - 1)" by (intro Suc.hyps(1)) simp_all
  moreover have "days_before_year (y' - 1) \<le> days_before_year y'"
    using days_before_year_step [of "y' - 1"] by (simp split: if_splits)
  ultimately show ?case by simp
qed simp

lemma days_before_month_step: "1 \<le> m \<Longrightarrow> days_before_month y (m + 1) = days_before_month y m + month_days y m"
  by (simp add: days_before_month_def upto_rec2)

lemma month_days_pos: "28 \<le> month_days y m"
  by (simp add: month_days_def)

lemma days_before_month_mono: "1 \<le> m \<Longrightarrow> m \<le> m' \<Longrightarrow> days_before_month y m \<le> days_before_month y m'"
proof (induction "nat (m' - m)" arbitrary: m')
  case (Suc n)
  then have "days_before_month y m \<le> days_before_month y (m' - 1)" by (intro Suc.hyps(1)) simp_all
  moreover have "days_before_month y (m' - 1) \<le> days_before_month y m'"
    using days_before_month_step [of "m' - 1" y] month_days_pos [of y "m' - 1"] Suc by simp
  ultimately show ?case by simp
qed simp

lemma days_before_month_13: "days_before_month y 13 = (if leap_year y then 366 else 365)"
proof -
  have "[1..12 :: int] = [1, 2, 3, 4, 5, 6, 7, 8, 9, 10, 11, 12]" by (simp add: upto_rec1)
  then show ?thesis by (simp add: days_before_month_def month_days_def)
qed

definition valid_date :: "int \<Rightarrow> int \<Rightarrow> int \<Rightarrow> bool" where
  "valid_date y m d \<longleftrightarrow> 1 \<le> m \<and> m \<le> 12 \<and> 1 \<le> d \<and> d \<le> month_days y m"

lemma ymd2ord_year:
  assumes "valid_date y m d"
  shows "days_before_year y < ymd2ord y m d" and "ymd2ord y m d \<le> days_before_year (y + 1)"
proof -
  have "days_before_month y 1 = 0" by (simp add: days_before_month_def)
  then have "0 \<le> days_before_month y m"
    using days_before_month_mono [of 1 m y] assms by (simp add: valid_date_def)
  then show "days_before_year y < ymd2ord y m d" using assms by (simp add: ymd2ord_def valid_date_def)
  have "days_before_month y m + d \<le> days_before_month y (m + 1)"
    using days_before_month_step [of m y] assms by (simp add: valid_date_def)
  also have "\<dots> \<le> days_before_month y 13"
    using assms by (intro days_before_month_mono) (simp_all add: valid_date_def)
  finally show "ymd2ord y m d \<le> days_before_year (y + 1)"
    by (simp add: ymd2ord_def days_before_year_step days_before_month_13)
qed

lemma ymd2ord_strict:
  assumes "valid_date y m d" and "valid_date y' m' d'"
    and "y < y' \<or> y = y' \<and> (m < m' \<or> m = m' \<and> d < d')"
  shows "ymd2ord y m d < ymd2ord y' m' d'"
proof -
  consider "y < y'" | "y = y'" "m < m'" | "y = y'" "m = m'" "d < d'" using assms(3) by blast
  then show ?thesis
  proof cases
    case 1
    have "ymd2ord y m d \<le> days_before_year (y + 1)" using ymd2ord_year(2) [OF assms(1)] .
    also have "\<dots> \<le> days_before_year y'" using 1 by (intro days_before_year_mono) simp
    also have "\<dots> < ymd2ord y' m' d'" using ymd2ord_year(1) [OF assms(2)] .
    finally show ?thesis .
  next
    case 2
    have "days_before_month y m + d \<le> days_before_month y (m + 1)"
      using days_before_month_step [of m y] assms(1) by (simp add: valid_date_def)
    also have "\<dots> \<le> days_before_month y m'"
      using 2 assms(1) by (intro days_before_month_mono) (simp_all add: valid_date_def)
    finally show ?thesis using 2 assms(2) by (simp add: ymd2ord_def valid_date_def)
  qed (simp add: ymd2ord_def)
qed

section \<open>The date of a day number\<close>

function year_from :: "int \<Rightarrow> int \<Rightarrow> int" where
  "year_from n y = (if days_before_year (y + 1) < n then year_from n (y + 1) else y)"
  by pat_completeness auto

termination
  by (relation "measure (\<lambda>(n, y). nat (n - days_before_year y))")
    (auto simp: days_before_year_step split: if_splits)

function month_from :: "int \<Rightarrow> int \<Rightarrow> int \<Rightarrow> int" where
  "month_from y r m = (if m < 12 \<and> days_before_month y (m + 1) < r then month_from y r (m + 1) else m)"
  by pat_completeness auto

termination
  by (relation "measure (\<lambda>(y, r, m). nat (12 - m))") auto

declare year_from.simps [simp del] month_from.simps [simp del]

definition ord2ymd :: "int \<Rightarrow> int \<times> int \<times> int" where
  "ord2ymd n =
     (let y = year_from n ((n - 1) div 366 + 1); r = n - days_before_year y; m = month_from y r 1
      in (y, m, r - days_before_month y m))"

lemma year_from_bounds:
  assumes "days_before_year y < n"
  shows "days_before_year (year_from n y) < n \<and> n \<le> days_before_year (year_from n y + 1)"
  using assms
proof (induction n y rule: year_from.induct)
  case (1 n y)
  then show ?case by (simp add: year_from.simps [of n y])
qed

lemma month_from_bounds:
  assumes "1 \<le> m" and "m \<le> 12" and "days_before_month y m < r" and "r \<le> days_before_month y 13"
  shows "1 \<le> month_from y r m \<and> month_from y r m \<le> 12 \<and> days_before_month y (month_from y r m) < r
     \<and> r \<le> days_before_month y (month_from y r m + 1)"
  using assms
proof (induction y r m rule: month_from.induct)
  case (1 y r m)
  then show ?case by (cases "m = 12") (auto simp: month_from.simps [of y r])
qed

lemma ord2ymd:
  assumes "ord2ymd n = (y, m, d)" and "1 \<le> n"
  shows "valid_date y m d" and "ymd2ord y m d = n"
proof -
  let ?y0 = "(n - 1) div 366 + 1"
  have "days_before_year ?y0 \<le> 366 * (?y0 - 1)"
    using assms(2) by (intro days_before_year_le) (simp add: pos_imp_zdiv_nonneg_iff)
  also have "\<dots> < n" using mult_div_mod_eq [of 366 "n - 1"] pos_mod_sign [of 366 "n - 1"] by simp
  finally have yb: "days_before_year (year_from n ?y0) < n" "n \<le> days_before_year (year_from n ?y0 + 1)"
    using year_from_bounds by blast+
  let ?y = "year_from n ?y0"
  let ?r = "n - days_before_year ?y"
  have "days_before_month ?y 1 = 0" by (simp add: days_before_month_def)
  then have mb: "1 \<le> month_from ?y ?r 1 \<and> month_from ?y ?r 1 \<le> 12 \<and> days_before_month ?y (month_from ?y ?r 1) < ?r
     \<and> ?r \<le> days_before_month ?y (month_from ?y ?r 1 + 1)"
    using yb by (intro month_from_bounds) (simp_all add: days_before_year_step days_before_month_13)
  from assms(1) have eq: "y = ?y" "m = month_from ?y ?r 1" "d = ?r - days_before_month ?y m"
    by (auto simp: ord2ymd_def Let_def)
  show "valid_date y m d"
    using mb days_before_month_step [of m y] by (simp add: valid_date_def eq)
  show "ymd2ord y m d = n" by (simp add: ymd2ord_def eq)
qed

section \<open>Texts of fixed width\<close>

fun padded :: "nat \<Rightarrow> int \<Rightarrow> string" where
  "padded 0 n = []"
| "padded (Suc w) n = padded w (n div 10) @ [digit_char (nat (n mod 10))]"

lemma length_padded [simp]: "length (padded w n) = w"
  by (induction w arbitrary: n) simp_all

lemma append_less_iff:
  "length xs = length xs' \<Longrightarrow> xs @ ys < xs' @ ys' \<longleftrightarrow> xs < xs' \<or> xs = xs' \<and> ys < (ys' :: 'a :: linorder list)"
  by (induction xs xs' rule: list_induct2) auto

lemma digit_char_less: "a < 10 \<Longrightarrow> b < 10 \<Longrightarrow> digit_char a < digit_char b \<longleftrightarrow> a < b"
  by (simp add: digit_char_def less_char_def of_char_of)

lemma digit_char_eq: "a < 10 \<Longrightarrow> b < 10 \<Longrightarrow> digit_char a = digit_char b \<longleftrightarrow> a = b"
  using digit_char_less [of a b] digit_char_less [of b a] by (metis less_irrefl nat_neq_iff)

lemma div_mod_10_cases:
  "a < b \<longleftrightarrow> a div 10 < b div 10 \<or> a div 10 = b div 10 \<and> a mod 10 < (b mod 10 :: int)"
  "a = b \<longleftrightarrow> a div 10 = b div 10 \<and> a mod 10 = (b mod 10 :: int)"
proof -
  have ab: "a = a div 10 * 10 + a mod 10" "b = b div 10 * 10 + b mod 10" by simp_all
  have m: "0 \<le> a mod 10" "a mod 10 < 10" "0 \<le> b mod 10" "b mod 10 < 10" by simp_all
  consider "a div 10 < b div 10" | "a div 10 = b div 10" | "b div 10 < a div 10" by linarith
  then show "a < b \<longleftrightarrow> a div 10 < b div 10 \<or> a div 10 = b div 10 \<and> a mod 10 < b mod 10"
    using ab m by cases linarith+
  show "a = b \<longleftrightarrow> a div 10 = b div 10 \<and> a mod 10 = b mod 10" using ab by metis
qed

lemma padded_less_eq:
  assumes "0 \<le> a" and "a < 10 ^ w" and "0 \<le> b" and "b < 10 ^ w"
  shows "(padded w a < padded w b \<longleftrightarrow> a < b) \<and> (padded w a = padded w b \<longleftrightarrow> a = b)"
  using assms
proof (induction w arbitrary: a b)
  case (Suc w)
  have "x div 10 < 10 ^ w" if "x < 10 ^ Suc w" for x :: int
    using that div_mult_mod_eq [of x 10] pos_mod_sign [of 10 x] by simp
  with Suc have IH: "(padded w (a div 10) < padded w (b div 10) \<longleftrightarrow> a div 10 < b div 10)
      \<and> (padded w (a div 10) = padded w (b div 10) \<longleftrightarrow> a div 10 = b div 10)"
    by (intro Suc.IH) (simp_all add: pos_imp_zdiv_nonneg_iff)
  have d: "nat (a mod 10) < 10" "nat (b mod 10) < 10" using pos_mod_bound [of 10] by (simp_all add: nat_less_iff)
  have n: "nat (a mod 10) < nat (b mod 10) \<longleftrightarrow> a mod 10 < b mod 10" "nat (a mod 10) = nat (b mod 10) \<longleftrightarrow> a mod 10 = b mod 10"
    using pos_mod_sign [of 10 a] pos_mod_sign [of 10 b] by auto
  show ?case
    unfolding padded.simps div_mod_10_cases [of a b]
    by (auto simp: append_less_iff IH digit_char_less [OF d] digit_char_eq [OF d] n)
qed simp

section \<open>ISO text\<close>

definition EPOCH_ORDINAL :: int where "EPOCH_ORDINAL = 719163"

definition second_of :: "instant \<Rightarrow> int" where "second_of t = t div 1000000"
definition micro_of :: "instant \<Rightarrow> int" where "micro_of t = t mod 1000000"

text \<open>The date and time of day of a second since the epoch, in UTC.\<close>

definition utc_fields :: "int \<Rightarrow> (int \<times> int \<times> int) \<times> int \<times> int \<times> int" where
  "utc_fields s = (ord2ymd (s div 86400 + EPOCH_ORDINAL),
     s mod 86400 div 3600, s mod 86400 div 60 mod 60, s mod 86400 mod 60)"

definition second_text :: "int \<Rightarrow> string" where
  "second_text s =
     (case utc_fields s of ((y, m, d), h, mi, se) \<Rightarrow>
        padded 4 y @ ''-'' @ padded 2 m @ ''-'' @ padded 2 d @ ''T''
        @ padded 2 h @ '':'' @ padded 2 mi @ '':'' @ padded 2 se)"

definition iso :: "instant \<Rightarrow> string" where
  "iso t = second_text (second_of t) @ (if micro_of t = 0 then [] else ''.'' @ padded 6 (micro_of t)) @ ''Z''"

definition in_calendar :: "instant \<Rightarrow> bool" where
  "in_calendar t \<longleftrightarrow> 1 \<le> second_of t div 86400 + EPOCH_ORDINAL \<and> second_of t div 86400 + EPOCH_ORDINAL \<le> 3652059"

text \<open>How two such texts compare.\<close>

definition iso_before :: "instant \<Rightarrow> instant \<Rightarrow> bool" where
  "iso_before a b \<longleftrightarrow> second_of a < second_of b
     \<or> second_of a = second_of b \<and> micro_of a \<noteq> 0 \<and> (micro_of b = 0 \<or> micro_of a < micro_of b)"

lemma in_calendar_fields:
  assumes "in_calendar t" and "utc_fields (second_of t) = ((y, m, d), h, mi, se)"
  shows "valid_date y m d" and "1 \<le> y" and "y \<le> 9999"
    and "0 \<le> h" and "h < 24" and "0 \<le> mi" and "mi < 60" and "0 \<le> se" and "se < 60"
    and "second_of t = (ymd2ord y m d - EPOCH_ORDINAL) * 86400 + (3600 * h + 60 * mi + se)"
proof -
  let ?n = "second_of t div 86400 + EPOCH_ORDINAL" and ?r = "second_of t mod 86400"
  have o: "ord2ymd ?n = (y, m, d)" and r: "h = ?r div 3600" "mi = ?r div 60 mod 60" "se = ?r mod 60"
    using assms(2) by (simp_all only: utc_fields_def prod.inject)
  have n: "1 \<le> ?n" "?n \<le> 3652059" using assms(1) by (simp_all add: in_calendar_def)
  show v: "valid_date y m d" using ord2ymd [OF o n(1)] by simp
  have e: "ymd2ord y m d = ?n" using ord2ymd [OF o n(1)] by simp
  note yb = ymd2ord_year [OF v]
  show "1 \<le> y"
  proof (rule ccontr)
    assume "\<not> 1 \<le> y"
    then have "days_before_year (y + 1) \<le> days_before_year 1" by (intro days_before_year_mono) simp
    also have "\<dots> = 0" by (simp add: days_before_year_def)
    finally show False using yb(2) e n(1) by simp
  qed
  show "y \<le> 9999"
  proof (rule ccontr)
    assume "\<not> y \<le> 9999"
    then have "days_before_year 10000 \<le> days_before_year y" by (intro days_before_year_mono) simp
    moreover have "days_before_year 10000 = 3652059" by (simp add: days_before_year_def)
    ultimately show False using yb(1) e n(2) by simp
  qed
  have rb: "0 \<le> ?r" "?r < 86400" by simp_all
  show "0 \<le> h" "0 \<le> mi" "mi < 60" "0 \<le> se" "se < 60" using rb by (simp_all add: r pos_imp_zdiv_nonneg_iff)
  have r60: "?r = 60 * (?r div 60) + se" "?r div 60 = 60 * (?r div 60 div 60) + mi" by (simp_all add: r)
  have "?r div 60 div 60 = h" by (simp add: r zdiv_zmult2_eq [of 60 ?r 60, symmetric])
  with r60 have h: "?r = 3600 * h + 60 * mi + se" by simp
  show "h < 24" using h rb \<open>0 \<le> mi\<close> \<open>0 \<le> se\<close> by linarith
  show "second_of t = (ymd2ord y m d - EPOCH_ORDINAL) * 86400 + (3600 * h + 60 * mi + se)"
    using e h div_mult_mod_eq [of "second_of t" 86400] by simp
qed

lemma second_text_order:
  assumes "in_calendar a" and "in_calendar b"
  shows "second_text (second_of a) < second_text (second_of b) \<Longrightarrow> second_of a < second_of b"
    and "second_text (second_of a) = second_text (second_of b) \<Longrightarrow> second_of a = second_of b"
proof -
  obtain y m d h mi se where A: "utc_fields (second_of a) = ((y, m, d), h, mi, se)"
    by (cases "utc_fields (second_of a)") auto
  obtain y' m' d' h' mi' se' where B: "utc_fields (second_of b) = ((y', m', d'), h', mi', se')"
    by (cases "utc_fields (second_of b)") auto
  note fa = in_calendar_fields [OF assms(1) A] and fb = in_calendar_fields [OF assms(2) B]
  have "month_days y m \<le> 31" "month_days y' m' \<le> 31" by (simp_all add: month_days_def)
  then have md: "0 \<le> m" "m \<le> 12" "0 \<le> d" "d \<le> 31" "0 \<le> m'" "m' \<le> 12" "0 \<le> d'" "d' \<le> 31"
    using fa(1) fb(1) by (auto simp: valid_date_def)
  have P: "(padded 4 y < padded 4 y' \<longleftrightarrow> y < y') \<and> (padded 4 y = padded 4 y' \<longleftrightarrow> y = y')"
    "(padded 2 m < padded 2 m' \<longleftrightarrow> m < m') \<and> (padded 2 m = padded 2 m' \<longleftrightarrow> m = m')"
    "(padded 2 d < padded 2 d' \<longleftrightarrow> d < d') \<and> (padded 2 d = padded 2 d' \<longleftrightarrow> d = d')"
    "(padded 2 h < padded 2 h' \<longleftrightarrow> h < h') \<and> (padded 2 h = padded 2 h' \<longleftrightarrow> h = h')"
    "(padded 2 mi < padded 2 mi' \<longleftrightarrow> mi < mi') \<and> (padded 2 mi = padded 2 mi' \<longleftrightarrow> mi = mi')"
    "(padded 2 se < padded 2 se' \<longleftrightarrow> se < se') \<and> (padded 2 se = padded 2 se' \<longleftrightarrow> se = se')"
    using fa(2-9) fb(2-9) md by (intro padded_less_eq; simp)+
  have tx: "second_text (second_of a) = padded 4 y @ ''-'' @ padded 2 m @ ''-'' @ padded 2 d @ ''T''
        @ padded 2 h @ '':'' @ padded 2 mi @ '':'' @ padded 2 se"
    "second_text (second_of b) = padded 4 y' @ ''-'' @ padded 2 m' @ ''-'' @ padded 2 d' @ ''T''
        @ padded 2 h' @ '':'' @ padded 2 mi' @ '':'' @ padded 2 se'"
    by (simp_all add: second_text_def A B)
  show "second_of a = second_of b" if "second_text (second_of a) = second_text (second_of b)"
  proof -
    have "y = y' \<and> m = m' \<and> d = d' \<and> h = h' \<and> mi = mi' \<and> se = se'"
      using that unfolding tx by (simp add: append_eq_append_conv P)
    with fa(10) fb(10) show ?thesis by simp
  qed
  show "second_of a < second_of b" if "second_text (second_of a) < second_text (second_of b)"
  proof -
    let ?T = "3600 * h + 60 * mi + se" and ?T' = "3600 * h' + 60 * mi' + se'"
    have T: "0 \<le> ?T" "?T < 86400" "0 \<le> ?T'" "?T' < 86400" using fa(4-9) fb(4-9) by linarith+
    have "(y < y' \<or> y = y' \<and> (m < m' \<or> m = m' \<and> d < d'))
        \<or> (y = y' \<and> m = m' \<and> d = d') \<and> (h < h' \<or> h = h' \<and> (mi < mi' \<or> mi = mi' \<and> se < se'))"
      using that unfolding tx by (auto simp: append_less_iff P)
    then consider "ymd2ord y m d < ymd2ord y' m' d'" | "ymd2ord y m d = ymd2ord y' m' d'" "?T < ?T'"
      using ymd2ord_strict [OF fa(1) fb(1)] fa(4-9) fb(4-9) by auto
    then show ?thesis
    proof cases
      case 1
      then have "(ymd2ord y m d - EPOCH_ORDINAL + 1) * 86400 \<le> (ymd2ord y' m' d' - EPOCH_ORDINAL) * 86400"
        by (intro mult_right_mono) simp_all
      with T fa(10) fb(10) show ?thesis by (simp add: algebra_simps)
    qed (use fa(10) fb(10) in simp)
  qed
qed

lemma length_second_text: "length (second_text s) = 19"
  by (simp add: second_text_def split: prod.split)

lemma fraction_order:
  assumes "0 \<le> u" and "u < 1000000" and "0 \<le> v" and "v < 1000000"
  shows "(if u = 0 then [] else ''.'' @ padded 6 u) @ ''Z'' < (if v = 0 then [] else ''.'' @ padded 6 v) @ ''Z''
     \<longleftrightarrow> u \<noteq> 0 \<and> (v = 0 \<or> u < v)"
proof -
  have "CHR ''.'' < CHR ''Z''" "\<not> CHR ''Z'' < CHR ''.''" by (simp_all add: less_char_def)
  moreover have "(padded 6 u < padded 6 v \<longleftrightarrow> u < v) \<and> (padded 6 u = padded 6 v \<longleftrightarrow> u = v)"
    using assms by (intro padded_less_eq) simp_all
  ultimately show ?thesis by (auto simp: append_less_iff)
qed

text \<open>The order of the texts is the order of the seconds, and within a second the order of the
  fractions but with the full second last.\<close>

lemma iso_less_iff:
  assumes "in_calendar a" and "in_calendar b"
  shows "iso a < iso b \<longleftrightarrow> iso_before a b"
proof -
  note o = second_text_order [OF assms] second_text_order [OF assms(2,1)]
  have lt: "second_text (second_of a) < second_text (second_of b) \<longleftrightarrow> second_of a < second_of b"
    using o by (metis linorder_less_linear less_asym)
  have eq: "second_text (second_of a) = second_text (second_of b) \<longleftrightarrow> second_of a = second_of b"
    using o by auto
  have "iso a < iso b \<longleftrightarrow> second_of a < second_of b \<or> second_of a = second_of b
      \<and> (if micro_of a = 0 then [] else ''.'' @ padded 6 (micro_of a)) @ ''Z''
        < (if micro_of b = 0 then [] else ''.'' @ padded 6 (micro_of b)) @ ''Z''"
    unfolding iso_def by (subst append_less_iff) (simp_all only: length_second_text lt eq)
  also have "\<dots> \<longleftrightarrow> iso_before a b"
    by (subst fraction_order) (simp_all add: micro_of_def iso_before_def)
  finally show ?thesis .
qed

lemma instant_less_iff: "a < b \<longleftrightarrow> second_of a < second_of b \<or> second_of a = second_of b \<and> micro_of a < micro_of b"
proof -
  have ab: "a = second_of a * 1000000 + micro_of a" "b = second_of b * 1000000 + micro_of b"
    by (simp_all add: second_of_def micro_of_def)
  have m: "0 \<le> micro_of a" "micro_of a < 1000000" "0 \<le> micro_of b" "micro_of b < 1000000"
    by (simp_all add: micro_of_def)
  consider "second_of a < second_of b" | "second_of a = second_of b" | "second_of b < second_of a" by linarith
  then show ?thesis using ab m by cases linarith+
qed

text \<open>The text order and the time order differ only for an instant on the full second and
  another in the same second.\<close>

lemma iso_before_iff:
  "iso_before a b \<longleftrightarrow> (if second_of a = second_of b \<and> (micro_of a = 0 \<or> micro_of b = 0)
     then micro_of a \<noteq> 0 else a < b)"
  by (auto simp: iso_before_def instant_less_iff [of a b])

lemma iso_before_irrefl [simp]: "\<not> iso_before a a"
  by (simp add: iso_before_def)

lemma iso_before_total: "iso_before a b \<or> a = b \<or> iso_before b a"
proof -
  have "a = second_of a * 1000000 + micro_of a" "b = second_of b * 1000000 + micro_of b"
    by (simp_all add: second_of_def micro_of_def)
  then have "second_of a = second_of b \<and> micro_of a = micro_of b \<Longrightarrow> a = b" by simp
  then show ?thesis by (auto simp: iso_before_def)
qed

lemma iso_before_trans: "iso_before a b \<Longrightarrow> iso_before b c \<Longrightarrow> iso_before a c"
  by (auto simp: iso_before_def)

text \<open>An instant at least a second earlier has the smaller text, and a smaller text is less than
  a second later.\<close>

lemma iso_before_second: "a + 1000000 \<le> b \<Longrightarrow> iso_before a b"
proof -
  assume "a + 1000000 \<le> b"
  then have "(a + 1000000) div 1000000 \<le> b div 1000000" by (rule zdiv_mono1) simp
  then show ?thesis by (simp add: iso_before_def second_of_def)
qed

end
