(* ===== verification/Odds_Schedule.thy ===== *)
theory Odds_Schedule
  imports Calendar "HOL-Library.Product_Lexorder"
begin

text \<open>
  \<open>src/app/services/odds_schedule.py\<close>: which paid calls of the odds provider a beat makes, and
  how many credits the games ahead will need.

  The New York wall clock comes from the time-zone database, which is not part of the program:
  \<open>eastern tip days hour\<close>, the instant of \<open>hour\<close>:00 New York time \<open>days\<close> after the New York date
  of \<open>tip\<close>, is an argument of the schedule. The quotient of two durations is a double in the
  source and is rounded here as a double.
\<close>

section \<open>Constants and data\<close>

definition minutes :: "int \<Rightarrow> int" where "minutes m = m * (60 * 1000000)"

definition MARKET_CATEGORIES :: "(string \<times> string) list" where
  "MARKET_CATEGORIES =
     [(''player_points'', ''PTS''), (''player_rebounds'', ''REB''), (''player_assists'', ''AST''),
      (''player_threes'', ''3PM''), (''player_points_rebounds_assists'', ''PRA''), (''player_points_rebounds'', ''PR''),
      (''player_points_assists'', ''PA''), (''player_rebounds_assists'', ''RA'')]"

definition CALL_COST :: int where "CALL_COST = int (length MARKET_CATEGORIES)"
definition CLOSING_OPENS :: int where "CLOSING_OPENS = minutes 10"
definition CLOSING_CLOSES :: int where "CLOSING_CLOSES = minutes 5"
definition FINAL_OPENS :: int where "FINAL_OPENS = minutes 180"
definition HOURLY :: int where "HOURLY = minutes 60"
definition CADENCE_SLACK :: int where "CADENCE_SLACK = minutes 2"
definition TIER_REEVALUATION :: int where "TIER_REEVALUATION = minutes 60"
definition MIN_REMAINING_AFTER_CALL :: int where "MIN_REMAINING_AFTER_CALL = 1"

datatype Tier = NORMAL | DEGRADED | CLOSING | HALTED

definition TIER_ORDER :: "Tier list" where "TIER_ORDER = [NORMAL, DEGRADED, CLOSING, HALTED]"

type_synonym zone = "instant \<Rightarrow> int \<Rightarrow> int \<Rightarrow> instant"

record Window =
  w_kind :: string
  w_opens :: "instant \<Rightarrow> instant"
  w_closes :: "instant \<Rightarrow> instant"
  w_cadence :: "Tier \<rightharpoonup> int"
  w_once :: bool

definition WINDOWS :: "zone \<Rightarrow> Window list" where
  "WINDOWS eastern =
     [\<lparr>w_kind = ''closing'', w_opens = (\<lambda>tip. tip - CLOSING_OPENS), w_closes = (\<lambda>tip. tip - CLOSING_CLOSES),
       w_cadence = [NORMAL \<mapsto> 0, DEGRADED \<mapsto> 0, CLOSING \<mapsto> 0], w_once = True\<rparr>,
      \<lparr>w_kind = ''final'', w_opens = (\<lambda>tip. tip - FINAL_OPENS), w_closes = (\<lambda>tip. tip - CLOSING_OPENS),
       w_cadence = [NORMAL \<mapsto> HOURLY div 2, DEGRADED \<mapsto> HOURLY div 2], w_once = False\<rparr>,
      \<lparr>w_kind = ''day'', w_opens = (\<lambda>tip. eastern tip 0 10), w_closes = (\<lambda>tip. tip - FINAL_OPENS),
       w_cadence = [NORMAL \<mapsto> HOURLY], w_once = False\<rparr>,
      \<lparr>w_kind = ''night'', w_opens = (\<lambda>tip. eastern tip (-1) 22), w_closes = (\<lambda>tip. eastern tip 0 2),
       w_cadence = [NORMAL \<mapsto> HOURLY, DEGRADED \<mapsto> HOURLY], w_once = True\<rparr>]"

record Span =
  sp_window :: Window
  sp_opens :: instant
  sp_closes :: instant

fun spans_loop :: "instant \<Rightarrow> instant \<Rightarrow> Window list \<Rightarrow> Span list" where
  "spans_loop tip cutoff [] = []"
| "spans_loop tip cutoff (w # ws) =
     \<lparr>sp_window = w, sp_opens = w_opens w tip, sp_closes = min (w_closes w tip) cutoff\<rparr>
     # spans_loop tip (min cutoff (w_opens w tip)) ws"

definition tip_spans :: "zone \<Rightarrow> instant \<Rightarrow> Span list" where
  "tip_spans eastern tip = spans_loop tip tip (WINDOWS eastern)"

definition in_span :: "instant \<Rightarrow> Span \<Rightarrow> bool" where
  "in_span now s \<longleftrightarrow> sp_opens s \<le> now \<and> now < sp_closes s"

definition window_at :: "zone \<Rightarrow> instant \<Rightarrow> instant \<Rightarrow> Span option" where
  "window_at eastern tip now = find (in_span now) (tip_spans eastern tip)"

definition populated_in :: "Span \<Rightarrow> instant option \<Rightarrow> bool" where
  "populated_in s last_populated_at \<longleftrightarrow>
     w_once (sp_window s) \<and> (case last_populated_at of None \<Rightarrow> False | Some t \<Rightarrow> sp_opens s \<le> t)"

definition slots :: "Span \<Rightarrow> int \<Rightarrow> int" where
  "slots s cadence = \<lceil>fl (of_int (sp_closes s - sp_opens s) / of_int cadence)\<rceil>"

definition slot :: "Span \<Rightarrow> int \<Rightarrow> instant \<Rightarrow> int" where
  "slot s cadence now = min ((now + CADENCE_SLACK - sp_opens s) div cadence) (slots s cadence - 1)"

record GameClock =
  gc_commence_time :: instant
  gc_closing_done :: bool
  gc_last_populated_at :: "instant option"

record EventState =
  ev_id :: string
  ev_commence_time :: instant
  ev_last_poll_at :: "instant option"
  ev_closing_done :: bool
  ev_last_populated_at :: "instant option"

datatype PlannedCall = PlannedCall (pc_event_id: string) (pc_kind: string)

record CyclePlan =
  cp_tier :: Tier
  cp_tier_evaluated_at :: "instant option"
  cp_calls :: "PlannedCall list"

section \<open>Budget and tiers\<close>

text \<open>\<open>next_reset\<close> on UTC dates and times of day: year, month, day, microsecond of the day.\<close>

type_synonym utc_time = "int \<times> int \<times> int \<times> int"

definition reset_at :: "int \<Rightarrow> int \<Rightarrow> int \<Rightarrow> utc_time" where
  "reset_at reset_day y m = (y, m, min reset_day (month_days y m), 0)"

definition next_reset :: "utc_time \<Rightarrow> int \<Rightarrow> utc_time" where
  "next_reset now reset_day =
     (case now of (y, m, _) \<Rightarrow>
        let candidate = reset_at reset_day y m
        in if now < candidate then candidate
           else if m = 12 then reset_at reset_day (y + 1) 1 else reset_at reset_day y (m + 1))"

definition span_paid_calls :: "GameClock \<Rightarrow> instant \<Rightarrow> Tier \<Rightarrow> Span \<Rightarrow> int" where
  "span_paid_calls game now tier s =
     (case w_cadence (sp_window s) tier of
        None \<Rightarrow> 0
      | Some cadence \<Rightarrow>
          (if sp_closes s \<le> max (sp_opens s) now then 0
           else if w_once (sp_window s) then (if populated_in s (gc_last_populated_at game) then 0 else 1)
           else slots s cadence - max (slot s cadence now) 0))"

definition paid_calls :: "zone \<Rightarrow> GameClock \<Rightarrow> instant \<Rightarrow> Tier \<Rightarrow> int" where
  "paid_calls eastern game now tier =
     (if gc_closing_done game then 0
      else sum_list (map (span_paid_calls game now tier) (tip_spans eastern (gc_commence_time game))))"

definition budget_needs :: "zone \<Rightarrow> instant \<Rightarrow> GameClock list \<Rightarrow> int \<times> int \<times> int" where
  "budget_needs eastern now upcoming =
     (let need = (\<lambda>tier. CALL_COST * sum_list (map (\<lambda>game. paid_calls eastern game now tier) upcoming))
      in (need NORMAL, need DEGRADED, need CLOSING))"

definition target_tier :: "int option \<Rightarrow> int \<Rightarrow> int \<times> int \<times> int \<Rightarrow> Tier" where
  "target_tier remaining reserve needs =
     (case (remaining, needs) of
        (None, _) \<Rightarrow> NORMAL
      | (Some r, need_normal, need_degraded, need_closing) \<Rightarrow>
          (if r < CALL_COST + MIN_REMAINING_AFTER_CALL then HALTED
           else if need_normal \<le> r - reserve then NORMAL
           else if need_degraded \<le> r - reserve then DEGRADED
           else if need_closing \<le> r - MIN_REMAINING_AFTER_CALL then CLOSING
           else HALTED))"

definition tier_index :: "Tier \<Rightarrow> nat" where
  "tier_index t = length (takeWhile (\<lambda>u. u \<noteq> t) TIER_ORDER)"

definition step_tier :: "Tier \<Rightarrow> Tier \<Rightarrow> Tier" where
  "step_tier current target =
     (let here = tier_index current; there = tier_index target
      in if here = there then current
         else TIER_ORDER ! (if here < there then here + 1 else here - 1))"

definition evaluate_tier ::
  "instant \<Rightarrow> Tier \<Rightarrow> instant option \<Rightarrow> int option \<Rightarrow> int \<Rightarrow> int \<times> int \<times> int \<Rightarrow> Tier \<times> instant option" where
  "evaluate_tier now current evaluated_at remaining reserve needs =
     (if (case remaining of None \<Rightarrow> False | Some r \<Rightarrow> r < CALL_COST + MIN_REMAINING_AFTER_CALL)
      then (HALTED, Some now)
      else if (case evaluated_at of None \<Rightarrow> False | Some at_t \<Rightarrow> now - at_t < TIER_REEVALUATION) \<and> current \<noteq> HALTED
      then (current, evaluated_at)
      else (step_tier current (target_tier remaining reserve needs), Some now))"

section \<open>The plan of a beat\<close>

text \<open>Whether an event is due, and as which kind of call: the body of the planner's loop.\<close>

definition due_kind :: "zone \<Rightarrow> Tier \<Rightarrow> instant \<Rightarrow> EventState \<Rightarrow> string option" where
  "due_kind eastern tier now event =
     (if ev_closing_done event then None
      else case window_at eastern (ev_commence_time event) now of
        None \<Rightarrow> None
      | Some s \<Rightarrow>
          (case w_cadence (sp_window s) tier of
             None \<Rightarrow> None
           | Some cadence \<Rightarrow>
               (if populated_in s (ev_last_populated_at event) then None
                else if cadence = 0
                  \<or> (case ev_last_poll_at event of None \<Rightarrow> True
                      | Some t \<Rightarrow> t < sp_opens s + slot s cadence now * cadence - CADENCE_SLACK)
                then Some (w_kind (sp_window s)) else None)))"

definition due_events :: "zone \<Rightarrow> Tier \<Rightarrow> instant \<Rightarrow> EventState list \<Rightarrow> (EventState \<times> string) list" where
  "due_events eastern tier now events =
     sort_key (\<lambda>(event, kind). (kind \<noteq> ''closing'', ev_commence_time event, ev_id event))
       (concat (map (\<lambda>event. case due_kind eastern tier now event of None \<Rightarrow> [] | Some kind \<Rightarrow> [(event, kind)]) events))"

definition call_floor :: "int \<Rightarrow> string \<Rightarrow> int" where
  "call_floor reserve kind =
     (if kind = ''closing'' then MIN_REMAINING_AFTER_CALL else max reserve MIN_REMAINING_AFTER_CALL)"

fun spend :: "int \<Rightarrow> int option \<Rightarrow> (EventState \<times> string) list \<Rightarrow> PlannedCall list" where
  "spend reserve budget [] = []"
| "spend reserve budget ((event, kind) # due) =
     (if (case budget of None \<Rightarrow> True | Some b \<Rightarrow> call_floor reserve kind \<le> b - CALL_COST)
      then PlannedCall (ev_id event) kind # spend reserve (map_option (\<lambda>b. b - CALL_COST) budget) due
      else spend reserve budget due)"

definition plan_cycle ::
  "zone \<Rightarrow> instant \<Rightarrow> EventState list \<Rightarrow> GameClock list \<Rightarrow> Tier \<Rightarrow> instant option \<Rightarrow> int option \<Rightarrow> int
     \<Rightarrow> CyclePlan" where
  "plan_cycle eastern now events upcoming tier tier_evaluated_at remaining reserve =
     (case evaluate_tier now tier tier_evaluated_at remaining reserve (budget_needs eastern now upcoming) of
        (tier', evaluated_at) \<Rightarrow>
          \<lparr>cp_tier = tier', cp_tier_evaluated_at = evaluated_at,
           cp_calls = (if tier' = HALTED then []
                       else spend reserve remaining (due_events eastern tier' now events))\<rparr>)"

section \<open>A game polled beat after beat\<close>

text \<open>The beats of one game in one tier: when the beat plans, when its call completes, and whether
  the budget affords it. Every response is populated, as in the estimate.\<close>

definition game_of :: "EventState \<Rightarrow> GameClock" where
  "game_of e = \<lparr>gc_commence_time = ev_commence_time e, gc_closing_done = ev_closing_done e,
     gc_last_populated_at = ev_last_populated_at e\<rparr>"

definition after_call :: "string \<Rightarrow> instant \<Rightarrow> EventState \<Rightarrow> EventState" where
  "after_call kind completed e =
     e\<lparr>ev_last_poll_at := Some completed, ev_last_populated_at := Some completed,
       ev_closing_done := (ev_closing_done e \<or> kind = ''closing'')\<rparr>"

type_synonym beat = "instant \<times> instant \<times> bool"

fun planned_calls :: "zone \<Rightarrow> Tier \<Rightarrow> beat list \<Rightarrow> EventState \<Rightarrow> nat" where
  "planned_calls eastern tier [] e = 0"
| "planned_calls eastern tier ((t, completed, afforded) # beats) e =
     (case due_kind eastern tier t e of
        None \<Rightarrow> planned_calls eastern tier beats e
      | Some kind \<Rightarrow>
          (if afforded then Suc (planned_calls eastern tier beats (after_call kind completed e))
           else planned_calls eastern tier beats e))"

text \<open>Beats in order, from \<open>now\<close> on, each completing before the next one starts.\<close>

fun in_order :: "instant \<Rightarrow> beat list \<Rightarrow> bool" where
  "in_order now [] \<longleftrightarrow> True"
| "in_order now ((t, completed, _) # beats) \<longleftrightarrow> now \<le> t \<and> t \<le> completed \<and> in_order completed beats"

text \<open>What a span still admits: the slots neither past nor served by the last poll.\<close>

definition unserved :: "Span \<Rightarrow> int \<Rightarrow> instant option \<Rightarrow> int" where
  "unserved s cadence last_poll =
     (case last_poll of None \<Rightarrow> 0 | Some t \<Rightarrow> (t + CADENCE_SLACK - sp_opens s) div cadence + 1)"

definition admits :: "EventState \<Rightarrow> instant \<Rightarrow> Tier \<Rightarrow> Span \<Rightarrow> int" where
  "admits e now tier s =
     (case w_cadence (sp_window s) tier of
        None \<Rightarrow> 0
      | Some cadence \<Rightarrow>
          (if sp_closes s \<le> max (sp_opens s) now then 0
           else if w_once (sp_window s) then (if populated_in s (ev_last_populated_at e) then 0 else 1)
           else max 0 (slots s cadence - max (max (slot s cadence now) 0) (unserved s cadence (ev_last_poll_at e)))))"

definition all_admit :: "zone \<Rightarrow> EventState \<Rightarrow> instant \<Rightarrow> Tier \<Rightarrow> int" where
  "all_admit eastern e now tier =
     (if ev_closing_done e then 0 else sum_list (map (admits e now tier) (tip_spans eastern (ev_commence_time e))))"

definition paced :: "Span \<Rightarrow> bool" where
  "paced s \<longleftrightarrow> (\<forall>tier c. w_cadence (sp_window s) tier = Some c \<longrightarrow> 0 < c \<or> w_once (sp_window s) \<and> c = 0)"

lemma fl_pos: "0 < q \<Longrightarrow> 0 < fl q"
proof -
  assume q: "0 < q"
  then have "q / 2 ^ 53 < q" by simp
  with fl_error [of q] q show "0 < fl q" by linarith
qed

lemma slots_pos:
  assumes "sp_opens s < sp_closes s" and "0 < c"
  shows "1 \<le> slots s c"
proof -
  have "0 < fl (of_int (sp_closes s - sp_opens s) / of_int c)" using assms by (intro fl_pos) simp
  then have "0 < \<lceil>fl (of_int (sp_closes s - sp_opens s) / of_int c)\<rceil>" by simp
  then show ?thesis by (simp add: slots_def)
qed

lemma spans_windows: "s \<in> set (spans_loop tip cutoff ws) \<Longrightarrow> sp_window s \<in> set ws"
  by (induction ws arbitrary: cutoff) auto

lemma tip_spans_paced: "s \<in> set (tip_spans eastern tip) \<Longrightarrow> paced s"
proof -
  assume "s \<in> set (tip_spans eastern tip)"
  then have "sp_window s \<in> set (WINDOWS eastern)" unfolding tip_spans_def by (rule spans_windows)
  then show ?thesis
    by (auto simp: paced_def WINDOWS_def HOURLY_def minutes_def split: if_splits)
qed

lemma admits_nonneg: "0 \<le> admits e now tier s"
  by (simp add: admits_def split: option.split)

lemma admits_paid:
  assumes "paced s"
  shows "admits e now tier s \<le> span_paid_calls (game_of e) now tier s"
proof (cases "w_cadence (sp_window s) tier")
  case (Some c)
  show ?thesis
  proof (cases "sp_closes s \<le> max (sp_opens s) now \<or> w_once (sp_window s)")
    case False
    with Some assms have "0 < c" by (auto simp: paced_def)
    moreover from False have "sp_opens s < sp_closes s" by (auto simp: not_le)
    ultimately have "1 \<le> slots s c" by (intro slots_pos)
    moreover have "slot s c now \<le> slots s c - 1" by (simp add: slot_def)
    ultimately show ?thesis using False Some by (simp add: admits_def span_paid_calls_def)
  qed (use Some in \<open>auto simp: admits_def span_paid_calls_def game_of_def\<close>)
qed (simp add: admits_def span_paid_calls_def)

lemma slot_mono: "t \<le> t' \<Longrightarrow> 0 < c \<Longrightarrow> slot s c t \<le> slot s c t'"
  unfolding slot_def by (intro min.mono zdiv_mono1) simp_all

text \<open>Time passing, and a completed call, never add to what a span admits.\<close>

lemma admits_later:
  assumes "paced s" and "now \<le> t"
  shows "admits e t tier s \<le> admits e now tier s"
proof (cases "w_cadence (sp_window s) tier")
  case (Some c)
  then have "0 < c \<or> w_once (sp_window s)" using assms(1) by (auto simp: paced_def)
  with slot_mono [OF assms(2), of c s] Some assms(2) show ?thesis
    by (auto simp: admits_def)
qed (simp add: admits_def)

definition polled_by :: "EventState \<Rightarrow> instant \<Rightarrow> bool" where
  "polled_by e t \<longleftrightarrow> (\<forall>p \<in> set_option (ev_last_poll_at e) \<union> set_option (ev_last_populated_at e). p \<le> t)"

lemma polled_by_later: "polled_by e t \<Longrightarrow> t \<le> t' \<Longrightarrow> polled_by e t'"
  by (auto simp: polled_by_def)

lemma polled_by_after_call: "polled_by (after_call kind c e) c"
  by (simp add: polled_by_def after_call_def)

lemma unserved_mono: "t \<le> t' \<Longrightarrow> 0 < c \<Longrightarrow> unserved s c (Some t) \<le> unserved s c (Some t')"
  by (simp add: unserved_def zdiv_mono1)

lemma admits_after_call:
  assumes s: "paced s" and p: "polled_by e t" and c: "t \<le> done'"
  shows "admits (after_call kind done' e) done' tier s \<le> admits e t tier s"
proof (cases "w_cadence (sp_window s) tier")
  case (Some c)
  show ?thesis
  proof (cases "w_once (sp_window s)")
    case True
    with Some p c show ?thesis
      by (auto simp: admits_def after_call_def populated_in_def polled_by_def split: option.splits)
  next
    case False
    with Some s have c0: "0 < c" by (auto simp: paced_def)
    have "slot s c t \<le> slot s c done'" using c c0 by (rule slot_mono)
    moreover have "unserved s c (ev_last_poll_at e) \<le> max 0 (unserved s c (Some done'))"
    proof (cases "ev_last_poll_at e")
      case (Some q)
      with p c have "q \<le> done'" by (auto simp: polled_by_def)
      with unserved_mono [OF this c0, of s] Some show ?thesis by simp
    qed (simp add: unserved_def)
    ultimately show ?thesis using False Some c
      by (auto simp: admits_def after_call_def)
  qed
qed (simp add: admits_def)

lemma below_multiple: "a < k * c \<Longrightarrow> 0 < c \<Longrightarrow> a div c < (k :: int)"
proof (rule ccontr)
  assume a: "a < k * c" "0 < c" and "\<not> a div c < k"
  then have "k * c \<le> a div c * c" by (intro mult_right_mono) simp_all
  also have "\<dots> \<le> a" using div_mult_mod_eq [of a c] pos_mod_sign [OF a(2), of a] by linarith
  finally show False using a(1) by simp
qed

lemma admits_call:
  assumes s: "paced s" and p: "polled_by e t" and c: "t \<le> done'" and sp: "in_span t s"
    and cad: "w_cadence (sp_window s) tier = Some cadence" and np: "\<not> populated_in s (ev_last_populated_at e)"
    and due: "cadence = 0 \<or> (case ev_last_poll_at e of None \<Rightarrow> True
                  | Some q \<Rightarrow> q < sp_opens s + slot s cadence t * cadence - CADENCE_SLACK)"
  shows "admits (after_call kind done' e) done' tier s + 1 \<le> admits e t tier s"
proof (cases "w_once (sp_window s)")
  case True
  with cad np sp c show ?thesis
    by (auto simp: admits_def after_call_def populated_in_def in_span_def)
next
  case False
  with cad s have c0: "0 < cadence" by (auto simp: paced_def)
  let ?k = "slot s cadence t"
  have "1 \<le> slots s cadence" using sp c0 by (intro slots_pos) (auto simp: in_span_def)
  moreover have "0 \<le> (t + CADENCE_SLACK - sp_opens s) div cadence"
    using sp c0 by (intro pos_imp_zdiv_nonneg_iff [THEN iffD2]) (auto simp: in_span_def CADENCE_SLACK_def minutes_def)
  ultimately have k: "0 \<le> ?k" "?k \<le> slots s cadence - 1" "?k \<le> (t + CADENCE_SLACK - sp_opens s) div cadence"
    by (auto simp: slot_def)
  have "unserved s cadence (ev_last_poll_at e) \<le> ?k"
  proof (cases "ev_last_poll_at e")
    case (Some q)
    with due c0 have "q + CADENCE_SLACK - sp_opens s < ?k * cadence" by simp
    then have "(q + CADENCE_SLACK - sp_opens s) div cadence < ?k"
      using c0 by (rule below_multiple)
    with Some show ?thesis by (simp add: unserved_def)
  qed (use k in \<open>simp add: unserved_def\<close>)
  then have "admits e t tier s = slots s cadence - ?k"
    using False cad sp k by (simp add: admits_def in_span_def)
  moreover have "?k + 1 \<le> unserved s cadence (Some done')"
    using unserved_mono [OF c c0, of s] k(3) by (simp add: unserved_def)
  then have "admits (after_call kind done' e) done' tier s \<le> max 0 (slots s cadence - (?k + 1))"
    using False cad by (auto simp: admits_def after_call_def)
  ultimately show ?thesis using k(2) by simp
qed


lemma sum_list_strict:
  fixes f g :: "'a \<Rightarrow> int"
  assumes "\<And>x. x \<in> set xs \<Longrightarrow> f x \<le> g x" and "y \<in> set xs" and "f y + 1 \<le> g y"
  shows "sum_list (map f xs) + 1 \<le> sum_list (map g xs)"
  using assms
proof (induction xs)
  case (Cons x xs)
  have "sum_list (map f xs) \<le> sum_list (map g xs)" using Cons.prems(1) by (intro sum_list_mono) auto
  moreover have "y \<noteq> x \<Longrightarrow> sum_list (map f xs) + 1 \<le> sum_list (map g xs)"
    using Cons.prems by (intro Cons.IH) auto
  ultimately show ?case using Cons.prems(1) [of x] Cons.prems(3) by (cases "y = x") auto
qed simp

lemma after_call_time [simp]: "ev_commence_time (after_call kind c e) = ev_commence_time e"
  by (simp add: after_call_def)

lemma all_admit_after:
  assumes due: "due_kind eastern tier t e = Some kind" and p: "polled_by e t" and c: "t \<le> done'"
  shows "all_admit eastern (after_call kind done' e) done' tier + 1 \<le> all_admit eastern e t tier"
proof -
  let ?spans = "tip_spans eastern (ev_commence_time e)"
  from due obtain s cadence where nd: "\<not> ev_closing_done e" and w: "find (in_span t) ?spans = Some s"
    and cad: "w_cadence (sp_window s) tier = Some cadence" and np: "\<not> populated_in s (ev_last_populated_at e)"
    and d: "cadence = 0 \<or> (case ev_last_poll_at e of None \<Rightarrow> True
                  | Some q \<Rightarrow> q < sp_opens s + slot s cadence t * cadence - CADENCE_SLACK)"
    by (auto simp: due_kind_def window_at_def split: if_splits option.splits)
  from w have s: "s \<in> set ?spans" "in_span t s" by (auto simp: find_Some_iff in_set_conv_nth)
  have "sum_list (map (admits (after_call kind done' e) done' tier) ?spans) + 1 \<le> sum_list (map (admits e t tier) ?spans)"
    using s(1) admits_call [OF tip_spans_paced [OF s(1)] p c s(2) cad np d, of kind]
    by (intro sum_list_strict [of _ _ _ s]) (auto intro: admits_after_call [OF tip_spans_paced p c])
  moreover have "0 \<le> sum_list (map (admits (after_call kind done' e) done' tier) ?spans)"
    by (intro sum_list_nonneg) (auto simp: admits_nonneg)
  ultimately show ?thesis using nd by (simp add: all_admit_def)
qed

lemma all_admit_later:
  assumes "t \<le> t'"
  shows "all_admit eastern e t' tier \<le> all_admit eastern e t tier"
  using admits_later [OF tip_spans_paced assms, of _ eastern "ev_commence_time e" e tier]
  by (auto simp: all_admit_def intro: sum_list_mono)

lemma planned_le_admit:
  assumes "in_order now beats" and "polled_by e now"
  shows "int (planned_calls eastern tier beats e) \<le> all_admit eastern e now tier"
  using assms
proof (induction eastern tier beats e arbitrary: now rule: planned_calls.induct)
  case (1 eastern tier e)
  have "0 \<le> sum_list (map (admits e now tier) (tip_spans eastern (ev_commence_time e)))"
    by (intro sum_list_nonneg) (auto simp: admits_nonneg)
  then show ?case by (simp add: all_admit_def)
next
  case (2 eastern tier t c afforded beats e)
  from "2.prems" have o: "now \<le> t" "t \<le> c" "in_order c beats" by simp_all
  have p: "polled_by e t" "polled_by e c" using "2.prems"(2) o polled_by_later by auto
  have later: "all_admit eastern e c tier \<le> all_admit eastern e now tier"
    using o by (intro all_admit_later) simp
  show ?case
  proof (cases "due_kind eastern tier t e")
    case None
    with "2.IH"(1) [OF None o(3) p(2)] later show ?thesis by simp
  next
    case (Some kind)
    note call = all_admit_after [OF Some p(1) o(2)]
    have "all_admit eastern e t tier \<le> all_admit eastern e now tier" using o(1) by (rule all_admit_later)
    with call "2.IH"(2) [OF Some _ o(3) polled_by_after_call] "2.IH"(3) [OF Some _ o(3) p(2)] later Some
    show ?thesis by (cases afforded) auto
  qed
qed

lemma admit_le_paid: "all_admit eastern e now tier \<le> paid_calls eastern (game_of e) now tier"
  using admits_paid [OF tip_spans_paced, of _ eastern "ev_commence_time e" e now tier]
  by (auto simp: all_admit_def paid_calls_def game_of_def intro: sum_list_mono)

section \<open>The budget is enough\<close>

fun need_of :: "Tier \<Rightarrow> int \<times> int \<times> int \<Rightarrow> int" where
  "need_of NORMAL (a, b, c) = a"
| "need_of DEGRADED (a, b, c) = b"
| "need_of CLOSING (a, b, c) = c"
| "need_of HALTED (a, b, c) = 0"

text \<open>
  C32. The budget estimate never counts low: in any tier but \<open>HALTED\<close>, however the beats from
  \<open>now\<close> on fall and however long the calls take, the credits that the planner spends on the
  scheduled games when every response is populated are at most what \<open>budget_needs\<close> reserves for
  that tier. (A beat may also find its call not affordable; each beat of a game starts after the
  previous one completed, and the polls on record completed by \<open>now\<close>.)
\<close>
theorem budget_needs_cover:
  assumes "tier \<noteq> HALTED" and "\<forall>e \<in> set events. in_order now (beats e) \<and> polled_by e now"
  shows "CALL_COST * (\<Sum>e\<leftarrow>events. int (planned_calls eastern tier (beats e) e))
     \<le> need_of tier (budget_needs eastern now (map game_of events))"
proof -
  have "(\<Sum>e\<leftarrow>events. int (planned_calls eastern tier (beats e) e))
      \<le> (\<Sum>e\<leftarrow>events. paid_calls eastern (game_of e) now tier)"
    using assms(2) planned_le_admit admit_le_paid by (intro sum_list_mono) (meson order_trans)
  then have "CALL_COST * (\<Sum>e\<leftarrow>events. int (planned_calls eastern tier (beats e) e))
      \<le> CALL_COST * (\<Sum>e\<leftarrow>events. paid_calls eastern (game_of e) now tier)"
    by (intro mult_left_mono) (simp_all add: CALL_COST_def)
  also have "\<dots> = need_of tier (budget_needs eastern now (map game_of events))"
    using assms(1) by (cases tier) (simp_all add: budget_needs_def Let_def comp_def)
  finally show ?thesis .
qed

section \<open>The plan is affordable\<close>

lemma spend_floor:
  "spend reserve (Some b) due \<noteq> [] \<Longrightarrow>
     1 \<le> b - CALL_COST * int (length (spend reserve (Some b) due))"
proof (induction due arbitrary: b)
  case (Cons x due)
  obtain event kind where x: "x = (event, kind)" by (cases x)
  show ?case
  proof (cases "call_floor reserve kind \<le> b - CALL_COST")
    case True
    then have "1 \<le> b - CALL_COST" by (simp add: call_floor_def MIN_REMAINING_AFTER_CALL_def split: if_splits)
    with Cons.IH [of "b - CALL_COST"] True show ?thesis
      by (cases "spend reserve (Some (b - CALL_COST)) due = []") (simp_all add: x algebra_simps)
  next
    case False
    with Cons.IH [of b] Cons.prems show ?thesis by (simp add: x)
  qed
qed simp

lemma spend_kinds: "c \<in> set (spend reserve b due) \<Longrightarrow> \<exists>e. (e, pc_kind c) \<in> set due \<and> pc_event_id c = ev_id e"
  by (induction reserve b due rule: spend.induct) (auto split: if_splits option.splits)

lemma spend_reserve:
  assumes "sorted_wrt (\<lambda>x y. snd x \<noteq> ''closing'' \<longrightarrow> snd y \<noteq> ''closing'') due"
    and "\<exists>c \<in> set (spend reserve (Some b) due). pc_kind c \<noteq> ''closing''"
  shows "reserve \<le> b - CALL_COST * int (length (spend reserve (Some b) due))"
  using assms
proof (induction due arbitrary: b)
  case (Cons x due)
  obtain event kind where x: "x = (event, kind)" by (cases x)
  show ?case
  proof (cases "call_floor reserve kind \<le> b - CALL_COST")
    case True
    let ?rest = "spend reserve (Some (b - CALL_COST)) due"
    show ?thesis
    proof (cases "\<exists>c \<in> set ?rest. pc_kind c \<noteq> ''closing''")
      case more: True
      with Cons.IH [of "b - CALL_COST"] Cons.prems(1) True show ?thesis by (simp add: x algebra_simps)
    next
      case none: False
      with Cons.prems(2) True have k: "kind \<noteq> ''closing''" by (auto simp: x)
      with Cons.prems(1) have all: "\<forall>y \<in> set due. snd y \<noteq> ''closing''" by (simp add: x)
      have "?rest = []"
      proof (rule ccontr)
        assume "?rest \<noteq> []"
        then obtain c where c: "c \<in> set ?rest" by (cases ?rest) auto
        with spend_kinds [OF c] all have "pc_kind c \<noteq> ''closing''" by force
        with none c show False by blast
      qed
      with True k show ?thesis by (simp add: x call_floor_def)
    qed
  next
    case False
    with Cons.IH [of b] Cons.prems show ?thesis by (simp add: x)
  qed
qed simp

lemma spend_ids: "distinct (map (ev_id \<circ> fst) due) \<Longrightarrow> distinct (map pc_event_id (spend reserve b due))"
proof (induction reserve b due rule: spend.induct)
  case (2 reserve budget event kind due)
  have "pc_event_id c \<in> ev_id ` fst ` set due" if "c \<in> set (spend reserve b' due)" for b' c
    using spend_kinds [OF that] by (force simp: image_iff)
  with 2 show ?case by (force split: if_splits option.splits)
qed simp

lemma due_events_sorted:
  "sorted_wrt (\<lambda>x y. snd x \<noteq> ''closing'' \<longrightarrow> snd y \<noteq> ''closing'') (due_events eastern tier now events)"
proof -
  let ?key = "\<lambda>(event, kind). (kind \<noteq> ''closing'', ev_commence_time event, ev_id event)"
  have "sorted_wrt (\<lambda>x y. ?key x \<le> ?key y) (due_events eastern tier now events)"
    unfolding due_events_def using sorted_sort_key [of ?key] by (simp only: sorted_map)
  then show ?thesis
    by (rule sorted_wrt_mono_rel [rotated]) (auto simp: less_eq_prod_def)
qed

lemma due_events_mem:
  "(e, kind) \<in> set (due_events eastern tier now events) \<longleftrightarrow> e \<in> set events \<and> due_kind eastern tier now e = Some kind"
  by (auto simp: due_events_def split: option.splits)

lemma due_events_ids:
  assumes "distinct (map ev_id events)"
  shows "distinct (map (ev_id \<circ> fst) (due_events eastern tier now events))"
proof -
  let ?raw = "concat (map (\<lambda>event. case due_kind eastern tier now event of None \<Rightarrow> [] | Some kind \<Rightarrow> [(event, kind)]) events)"
  have sub: "set (map (ev_id \<circ> fst) (concat (map (\<lambda>event. case due_kind eastern tier now event of None \<Rightarrow> [] | Some kind \<Rightarrow> [(event, kind)]) es)))
      \<subseteq> ev_id ` set es" for es
    by (induction es) (auto split: option.splits)
  have "distinct (map (ev_id \<circ> fst) ?raw)"
    using assms
  proof (induction events)
    case (Cons e es)
    with sub [of es] show ?case by (cases "due_kind eastern tier now e") auto
  qed simp
  then show ?thesis
    by (simp only: due_events_def distinct_map distinct_sort set_sort)
qed

text \<open>No window is open at or after tip: the last one closes five minutes before.\<close>

lemma spans_close: "s \<in> set (spans_loop tip cutoff ws) \<Longrightarrow> sp_closes s \<le> cutoff"
proof (induction ws arbitrary: cutoff)
  case (Cons w ws)
  then show ?case by (auto dest: Cons.IH)
qed simp

lemma window_before_tip:
  assumes "window_at eastern tip now = Some s"
  shows "now < tip"
proof -
  have s: "s \<in> set (tip_spans eastern tip)" and i: "in_span now s"
    using assms by (auto simp: window_at_def find_Some_iff in_set_conv_nth)
  have "sp_closes s \<le> tip" using spans_close [OF s [unfolded tip_spans_def]] .
  with i show ?thesis by (simp add: in_span_def)
qed

lemma due_before_tip:
  "due_kind eastern tier now e = Some kind \<Longrightarrow> now < ev_commence_time e \<and> \<not> ev_closing_done e"
  by (auto simp: due_kind_def split: if_splits option.splits dest: window_before_tip)


lemma plan_calls:
  "cp_calls (plan_cycle eastern now events upcoming tier te remaining reserve) = [] \<or>
   (\<exists>tier'. cp_calls (plan_cycle eastern now events upcoming tier te remaining reserve)
      = spend reserve remaining (due_events eastern tier' now events))"
  by (auto simp: plan_cycle_def split: prod.split)

text \<open>
  C33. A beat never overspends: with \<open>r\<close> credits left, the calls it plans leave at least one
  credit, and leave the whole reserve as soon as one of them is not a closing snapshot. Every
  planned call is for an event of the beat that has not tipped off and has no closing snapshot
  yet, and no event is called twice.
\<close>
theorem plan_spends_within_quota:
  assumes "cp_calls (plan_cycle eastern now events upcoming tier te (Some r) reserve) = calls"
    and "distinct (map ev_id events)"
  shows "(calls \<noteq> [] \<longrightarrow> 1 \<le> r - CALL_COST * int (length calls))
     \<and> ((\<exists>c \<in> set calls. pc_kind c \<noteq> ''closing'') \<longrightarrow> reserve \<le> r - CALL_COST * int (length calls))
     \<and> (\<forall>c \<in> set calls. \<exists>e \<in> set events. ev_id e = pc_event_id c \<and> now < ev_commence_time e \<and> \<not> ev_closing_done e)
     \<and> distinct (map pc_event_id calls)"
proof (cases "calls = []")
  case False
  with assms(1) plan_calls obtain tier' where calls: "calls = spend reserve (Some r) (due_events eastern tier' now events)"
    by metis
  have "\<exists>e \<in> set events. ev_id e = pc_event_id c \<and> now < ev_commence_time e \<and> \<not> ev_closing_done e"
    if "c \<in> set calls" for c
    using spend_kinds [OF that [unfolded calls]] due_before_tip by (fastforce simp: due_events_mem)
  then show ?thesis
    using spend_floor spend_reserve [OF due_events_sorted] spend_ids [OF due_events_ids [OF assms(2)]]
    by (simp add: calls)
qed simp

text \<open>
  The tier follows the credits: while the quota and the needs stay as they are, three
  evaluations an hour apart reach the tier the credits support, from any tier; each evaluation
  moves at most one step, unless the quota is nearly empty, which halts at once.
\<close>
theorem tier_converges:
  assumes "\<forall>t0 \<in> set_option evaluated_at. t0 + TIER_REEVALUATION \<le> t1"
    and "t1 + TIER_REEVALUATION \<le> t2" and "t2 + TIER_REEVALUATION \<le> t3"
  shows "(let evaluate = (\<lambda>t (c, at_t). evaluate_tier t c at_t remaining reserve needs);
              once = evaluate t1 (current, evaluated_at); thrice = evaluate t3 (evaluate t2 once)
          in fst thrice = target_tier remaining reserve needs
             \<and> (\<bar>int (tier_index (fst once)) - int (tier_index current)\<bar> \<le> 1
                \<or> (\<exists>r. remaining = Some r \<and> r < CALL_COST + MIN_REMAINING_AFTER_CALL \<and> fst once = HALTED)))"
proof (cases "\<exists>r. remaining = Some r \<and> r < CALL_COST + MIN_REMAINING_AFTER_CALL")
  case True
  then show ?thesis by (auto simp: evaluate_tier_def target_tier_def Let_def split: prod.split)
next
  case False
  then have near: "(case remaining of None \<Rightarrow> False | Some r \<Rightarrow> r < CALL_COST + MIN_REMAINING_AFTER_CALL) = False"
    by (auto split: option.splits)
  have ev: "evaluate_tier t c at_t remaining reserve needs = (step_tier c (target_tier remaining reserve needs), Some t)"
    if "\<forall>t0 \<in> set_option at_t. t0 + TIER_REEVALUATION \<le> t" for t c at_t
    using that by (cases at_t) (auto simp: evaluate_tier_def near)
  have step: "step_tier (step_tier (step_tier a b) b) b = b" "\<bar>int (tier_index (step_tier a b)) - int (tier_index a)\<bar> \<le> 1" for a b
    by (cases a; cases b; simp add: step_tier_def tier_index_def TIER_ORDER_def Let_def)+
  show ?thesis using assms by (simp add: ev step)
qed

lemma reset_at_mono: "y < y' \<or> y = y' \<and> m < m' \<Longrightarrow> reset_at r y m \<le> reset_at r y' m'"
  by (auto simp: reset_at_def less_eq_prod_def)

text \<open>
  \<open>next_reset\<close> is the first reset after now: it lies strictly later, and no month's reset
  day (clamped to the length of the month) falls between the two.
\<close>
theorem next_reset_first:
  assumes "now = (y, m, rest)" and "1 \<le> m" and "m \<le> 12"
  shows "now < next_reset now reset_day
     \<and> (\<forall>y' m'. 1 \<le> m' \<and> m' \<le> 12 \<and> now < reset_at reset_day y' m' \<longrightarrow> next_reset now reset_day \<le> reset_at reset_day y' m')"
proof -
  have now: "now < reset_at reset_day y' m'" if "y < y' \<or> y = y' \<and> m < m'" for y' m'
    using that assms(1) by (auto simp: reset_at_def less_prod_def)
  have later: "y < y' \<or> y = y' \<and> m \<le> m'" if "now < reset_at reset_day y' m'" for y' m'
    using that assms(1) by (auto simp: reset_at_def less_prod_def)
  show ?thesis
  proof (cases "now < reset_at reset_day y m")
    case True
    have "reset_at reset_day y m \<le> reset_at reset_day y' m'" if "now < reset_at reset_day y' m'" for y' m'
      using later [OF that] reset_at_mono [of y y' m m'] by (cases "y = y' \<and> m = m'") auto
    with True show ?thesis by (simp add: next_reset_def assms(1))
  next
    case False
    let ?next = "if m = 12 then reset_at reset_day (y + 1) 1 else reset_at reset_day y (m + 1)"
    have "?next \<le> reset_at reset_day y' m'" if "1 \<le> m'" "m' \<le> 12" "now < reset_at reset_day y' m'" for y' m'
    proof -
      have "\<not> (y' = y \<and> m' = m)" using False that(3) by auto
      with later [OF that(3)] that(1,2) assms(2,3)
      have "if m = 12 then (y' = y + 1 \<and> m' = 1) \<or> (y + 1 < y' \<or> y + 1 = y' \<and> 1 < m')
            else (y' = y \<and> m' = m + 1) \<or> (y < y' \<or> y = y' \<and> m + 1 < m')" by auto
      then show ?thesis using reset_at_mono by (auto split: if_splits)
    qed
    moreover have "now < ?next" using now by simp
    ultimately show ?thesis using False by (simp add: next_reset_def assms(1) Let_def)
  qed
qed

section \<open>Sample evening\<close>

text \<open>A fixed offset of five hours in place of the zone, and a game at 19:00 UTC of day 1.\<close>

definition demo_zone :: zone where
  "demo_zone tip days hour =
     ((tip - minutes 300) div minutes 1440 + days) * minutes 1440 + minutes (60 * hour) + minutes 300"

definition demo_event_state :: EventState where
  "demo_event_state = \<lparr>ev_id = ''e1'', ev_commence_time = minutes 2580, ev_last_poll_at = None,
     ev_closing_done = False, ev_last_populated_at = None\<rparr>"


definition demo_beats :: "beat list" where
  "demo_beats = [(minutes 2570, minutes 2571, True), (minutes 2574, minutes 2574, True)]"

lemma demo_window:
  "window_at demo_zone (minutes 2580) (minutes 2570) = Some
     \<lparr>sp_window = WINDOWS demo_zone ! 0, sp_opens = minutes 2570, sp_closes = minutes 2575\<rparr>"
  by (simp add: window_at_def tip_spans_def WINDOWS_def in_span_def CLOSING_OPENS_def CLOSING_CLOSES_def minutes_def)

lemma demo_due: "due_kind demo_zone CLOSING (minutes 2570) demo_event_state = Some ''closing''"
  by (simp add: due_kind_def demo_event_state_def demo_window populated_in_def) (simp add: WINDOWS_def populated_in_def)

lemma demo_planned: "planned_calls demo_zone CLOSING demo_beats demo_event_state = 1"
proof -
  have "due_kind demo_zone CLOSING t (after_call ''closing'' c demo_event_state) = None" for t c
    by (simp add: due_kind_def after_call_def)
  then show ?thesis by (simp add: demo_beats_def demo_due)
qed

theorem budget_needs_cover_witness:
  "CALL_COST * int (planned_calls demo_zone CLOSING demo_beats demo_event_state) = 8
   \<and> 8 \<le> need_of CLOSING (budget_needs demo_zone (minutes 2569) [game_of demo_event_state])"
proof -
  have "CALL_COST * (\<Sum>e\<leftarrow>[demo_event_state]. int (planned_calls demo_zone CLOSING ((\<lambda>_. demo_beats) e) e))
     \<le> need_of CLOSING (budget_needs demo_zone (minutes 2569) (map game_of [demo_event_state]))"
    by (rule budget_needs_cover)
      (simp_all add: demo_beats_def demo_event_state_def polled_by_def minutes_def)
  then show ?thesis by (simp add: demo_planned CALL_COST_def MARKET_CATEGORIES_def)
qed

definition demo_plan :: CyclePlan where
  "demo_plan = plan_cycle demo_zone (minutes 2570) [demo_event_state] [] CLOSING (Some (minutes 2560)) (Some 9) 100"

lemma demo_plan_calls: "cp_calls demo_plan = [PlannedCall ''e1'' ''closing'']"
proof -
  have "evaluate_tier (minutes 2570) CLOSING (Some (minutes 2560)) (Some 9) 100 needs = (CLOSING, Some (minutes 2560))" for needs
    by (simp add: evaluate_tier_def CALL_COST_def MARKET_CATEGORIES_def MIN_REMAINING_AFTER_CALL_def
        TIER_REEVALUATION_def minutes_def)
  moreover have "due_events demo_zone CLOSING (minutes 2570) [demo_event_state] = [(demo_event_state, ''closing'')]"
    by (simp add: due_events_def demo_due)
  ultimately show ?thesis
    by (simp add: demo_plan_def plan_cycle_def call_floor_def CALL_COST_def MARKET_CATEGORIES_def
        MIN_REMAINING_AFTER_CALL_def demo_event_state_def)
qed

theorem plan_spends_within_quota_witness:
  "cp_calls demo_plan = [PlannedCall ''e1'' ''closing''] \<and> 1 \<le> 9 - CALL_COST * int (length (cp_calls demo_plan))"
  using plan_spends_within_quota [OF demo_plan_def [THEN arg_cong [where f = cp_calls], symmetric]]
  by (simp add: demo_plan_calls)

theorem tier_converges_witness:
  "fst (let evaluate = (\<lambda>t (c, at_t). evaluate_tier t c at_t (Some 100) 0 (500, 80, 40))
        in evaluate (minutes 180) (evaluate (minutes 120) (evaluate (minutes 60) (HALTED, None)))) = DEGRADED"
proof -
  have "fst (let evaluate = (\<lambda>t (c, at_t). evaluate_tier t c at_t (Some 100) 0 (500, 80, 40))
        in evaluate (minutes 180) (evaluate (minutes 120) (evaluate (minutes 60) (HALTED, None))))
      = target_tier (Some 100) 0 (500, 80, 40)"
    using tier_converges [of None "minutes 60" "minutes 120" "minutes 180" "Some 100" 0 "(500, 80, 40)" HALTED]
    by (simp add: minutes_def TIER_REEVALUATION_def Let_def)
  then show ?thesis by (simp add: target_tier_def CALL_COST_def MARKET_CATEGORIES_def MIN_REMAINING_AFTER_CALL_def)
qed

theorem next_reset_first_witness:
  "(2028, 1, 31, 5) < next_reset (2028, 1, 31, 5) 31 \<and> next_reset (2028, 1, 31, 5) 31 = (2028, 2, 29, 0)"
proof -
  have "(2028, 1, 31, 5) < next_reset (2028, 1, 31, 5) 31"
    using next_reset_first [of "(2028, 1, 31, 5)" 2028 1 "(31, 5)" 31] by simp
  moreover have "next_reset (2028, 1, 31, 5) 31 = (2028, 2, 29, 0)" by code_simp
  ultimately show ?thesis by blast
qed

end
