(* ===== verification/Reports.thy ===== *)
theory Reports
  imports Calendar
begin

text \<open>
  \<open>src/app/domain/report_document.py\<close>: the shape of a published report, the author's notes and
  edits, and what a reader sees of an edited report.

  The source returns plain dictionaries; here a validated report has a type of its own, one
  constructor per block type and one record per object, with an option for each key that a
  validated dictionary may lack. The order of the checks is the source's, so that a refusal names
  the same field.
\<close>

section \<open>Data\<close>

definition TOOLS :: "string list" where
  "TOOLS = [''query_game_logs'', ''get_on_off'', ''get_matchup'', ''get_rotation'', ''get_injuries'']"
definition TAGS :: "string list" where "TAGS = [''strong'', ''lean'', ''thin'', ''pass'', ''tipped'']"
definition LAYOUTS :: "string list" where "LAYOUTS = [''tiles'', ''rows'', ''list'']"
definition BLOCK_TYPES :: "string list" where
  "BLOCK_TYPES = [''heading'', ''paragraph'', ''list'', ''callout'', ''card'', ''cards'', ''spot'', ''table'',
     ''items'', ''sources'', ''tabs'']"
definition TONES :: "string list" where "TONES = [''warn'', ''plain'']"
definition CARD_BLOCKS :: "string list" where "CARD_BLOCKS = [''cards'', ''spot'', ''items'']"

definition MAX_CALLS :: nat where "MAX_CALLS = 48"
definition MAX_TABS :: nat where "MAX_TABS = 5"
definition MAX_ITEMS :: nat where "MAX_ITEMS = 60"
definition MAX_OPENING :: nat where "MAX_OPENING = 3"
definition MAX_BODY :: nat where "MAX_BODY = 6"
definition MAX_BULLETS :: nat where "MAX_BULLETS = 10"
definition MAX_ITEM_CARDS :: nat where "MAX_ITEM_CARDS = 8"
definition MAX_SOURCES :: nat where "MAX_SOURCES = 12"
definition MAX_BLOCKS :: nat where "MAX_BLOCKS = 120"
definition MAX_TAB_BLOCKS :: nat where "MAX_TAB_BLOCKS = 60"
definition MIN_GROUP_TABS :: nat where "MIN_GROUP_TABS = 2"
definition MAX_LIST_ITEMS :: nat where "MAX_LIST_ITEMS = 12"
definition MIN_ROW_CARDS :: nat where "MIN_ROW_CARDS = 2"
definition MAX_ROW_CARDS :: nat where "MAX_ROW_CARDS = 3"
definition MAX_TABLE_COLUMNS :: nat where "MAX_TABLE_COLUMNS = 6"
definition MAX_TABLE_ROWS :: nat where "MAX_TABLE_ROWS = 20"

definition TITLE_MAX :: nat where "TITLE_MAX = 120"
definition OPENING_MAX :: nat where "OPENING_MAX = 600"
definition SKILL_NAME_MAX :: nat where "SKILL_NAME_MAX = 60"
definition URL_MAX :: nat where "URL_MAX = 500"
definition FOOTNOTE_MAX :: nat where "FOOTNOTE_MAX = 300"
definition TAB_TITLE_MAX :: nat where "TAB_TITLE_MAX = 30"
definition SUBTITLE_MAX :: nat where "SUBTITLE_MAX = 240"
definition KEY_MAX :: nat where "KEY_MAX = 240"
definition BODY_MAX :: nat where "BODY_MAX = 1500"
definition BULLET_LABEL_MAX :: nat where "BULLET_LABEL_MAX = 80"
definition BULLET_TEXT_MAX :: nat where "BULLET_TEXT_MAX = 300"
definition WATCH_MAX :: nat where "WATCH_MAX = 500"
definition SOURCE_FACT_MAX :: nat where "SOURCE_FACT_MAX = 200"
definition NOTES_MAX :: nat where "NOTES_MAX = 2000"
definition LIST_ITEM_MAX :: nat where "LIST_ITEM_MAX = 300"
definition CALLOUT_TITLE_MAX :: nat where "CALLOUT_TITLE_MAX = 40"
definition CALLOUT_TEXT_MAX :: nat where "CALLOUT_TEXT_MAX = 1000"
definition TABLE_COLUMN_MAX :: nat where "TABLE_COLUMN_MAX = 40"
definition TABLE_CELL_MAX :: nat where "TABLE_CELL_MAX = 200"
definition SKILL_URL_PREFIX :: string where "SKILL_URL_PREFIX = ''https://courtai.app/''"

datatype report_error = InvalidInput (re_field: string) (re_problem: string) | FlatBody string

record Item =
  it_title :: string
  it_tag :: "string option"
  it_subtitle :: "string option"
  it_key :: "string option"
  it_body :: "string list"
  it_bullets :: "(string \<times> string) list"
  it_watch :: "string option"
  it_cards :: "string list"
  it_sources :: "(string \<times> string) list"

record Tab =
  tb_title :: string
  tb_layout :: string
  tb_items :: "Item list"

datatype block = Block (b_id: string) (b_content: content)
  and content =
    Heading string
  | Paragraph string "bool option"
  | ListBlock "string list" "bool option"
  | Callout "string option" string "string option"
  | CardBlock string
  | CardsBlock "string list"
  | Spot "string option" string "string option" "string option" "string list"
  | TableBlock "string list" "string list list"
  | ItemsBlock string "Item list"
  | SourcesBlock "(string \<times> string) list"
  | TabsBlock "(string \<times> block list) list"

datatype report_body = TabsBody "Tab list" | BlocksBody "block list"

record document =
  dc_title :: string
  dc_date :: "string option"
  dc_opening :: "string list"
  dc_skill :: "(string \<times> string option) option"
  dc_footnote :: "string option"
  dc_body :: report_body

record call =
  cl_id :: string
  cl_tool :: string
  cl_args :: json
  cl_structured :: json
  cl_meta :: "json option"
  cl_card :: string

datatype ReportOrigin = ASSISTANT | BUILDER

record PublishedReport =
  pr_document :: document
  pr_calls :: "call list"
  pr_cards :: "(string \<times> string) list"
  pr_show_author :: bool
  pr_listed :: bool
  pr_notes :: "string option"
  pr_origin :: ReportOrigin

section \<open>Checks of single values\<close>

type_synonym 'a checked = "report_error + 'a"

definition refuse :: "string \<Rightarrow> string \<Rightarrow> 'a checked" where
  "refuse field problem = Inl (InvalidInput field problem)"

definition at_index :: "string \<Rightarrow> nat \<Rightarrow> string" where
  "at_index field i = field @ ''['' @ show_nat i @ '']''"

definition at_key :: "string \<Rightarrow> string \<Rightarrow> string" where
  "at_key field k = field @ ''.'' @ k"

definition object_check :: "json \<Rightarrow> string \<Rightarrow> string list \<Rightarrow> json checked" where
  "object_check value field allowed =
     (case value of
        JObj kvs \<Rightarrow>
          (let unknown = filter (\<lambda>k. k \<notin> set allowed) (map fst kvs)
           in if unknown \<noteq> [] then refuse field (''has unknown keys ('' @ show_nat (length unknown) @ '')'') else Inr value)
      | _ \<Rightarrow> refuse field ''must be an object'')"

definition is_control :: "char \<Rightarrow> bool" where
  "is_control c \<longleftrightarrow> (let n = of_char c :: nat in n \<le> 8 \<or> 11 \<le> n \<and> n \<le> 31 \<or> 127 \<le> n \<and> n \<le> 159)"

definition text_check :: "json \<Rightarrow> string \<Rightarrow> nat \<Rightarrow> string checked" where
  "text_check value field maximum =
     (case value of
        JStr s \<Rightarrow>
          (if strip s = [] then refuse field ''must not be empty''
           else if maximum < length s then refuse field (''must be at most '' @ show_nat maximum @ '' characters'')
           else if list_ex is_control s then refuse field ''must not contain control characters''
           else Inr s)
      | _ \<Rightarrow> refuse field ''must be a string'')"

definition optional_text :: "json \<Rightarrow> string \<Rightarrow> string \<Rightarrow> nat \<Rightarrow> string option checked" where
  "optional_text source key field maximum =
     (if get_key source key = JNull then Inr None
      else and_then (text_check (get_key source key) field maximum) (\<lambda>s. Inr (Some s)))"

definition list_check :: "json \<Rightarrow> string \<Rightarrow> nat \<Rightarrow> nat \<Rightarrow> json list checked" where
  "list_check value field minimum maximum =
     (case value of
        JNull \<Rightarrow> (if minimum = 0 then Inr [] else refuse field ''must be a list'')
      | JList xs \<Rightarrow>
          (if length xs < minimum
           then refuse field (''must have at least '' @ show_nat minimum @ '' entr'' @ (if minimum = 1 then ''y'' else ''ies''))
           else if maximum < length xs then refuse field (''must have at most '' @ show_nat maximum @ '' entries'')
           else Inr xs)
      | _ \<Rightarrow> refuse field ''must be a list'')"

definition pair_check :: "json \<Rightarrow> string \<Rightarrow> (json \<times> json) checked" where
  "pair_check value field =
     (case value of JList [a, b] \<Rightarrow> Inr (a, b) | _ \<Rightarrow> refuse field ''must be a two-entry list'')"

text \<open>\<open>https?://[^\s/?#]+[^\s]*\<close>, ignoring case, on the whole text.\<close>

definition http_url :: "string \<Rightarrow> bool" where
  "http_url s =
     (let low = lower s;
          rest = (if starts_with ''https://'' low then Some (drop 8 s)
                  else if starts_with ''http://'' low then Some (drop 7 s) else None)
      in case rest of
           Some (c # cs) \<Rightarrow> \<not> is_space c \<and> c \<notin> set ''/?#'' \<and> list_all (\<lambda>d. \<not> is_space d) cs
         | _ \<Rightarrow> False)"

definition url_check :: "json \<Rightarrow> string \<Rightarrow> string checked" where
  "url_check value field =
     and_then (text_check value field URL_MAX) (\<lambda>url.
       if http_url url then Inr url else refuse field ''must be an http or https URL'')"

definition date_shape :: "string \<Rightarrow> bool" where
  "date_shape s \<longleftrightarrow> length s = 10 \<and> s ! 4 = CHR ''-'' \<and> s ! 7 = CHR ''-''
     \<and> list_all is_digit (take 4 s @ take 2 (drop 5 s) @ drop 8 s)"

definition real_date :: "string \<Rightarrow> bool" where
  "real_date s \<longleftrightarrow>
     (let y = int (nat_of_digits (take 4 s)); m = int (nat_of_digits (take 2 (drop 5 s)));
          d = int (nat_of_digits (drop 8 s))
      in 1 \<le> y \<and> valid_date y m d)"

definition date_check :: "json \<Rightarrow> string \<Rightarrow> string checked" where
  "date_check value field =
     (case value of
        JStr s \<Rightarrow> (if \<not> date_shape s then refuse field ''must be a YYYY-MM-DD date''
                   else if real_date s then Inr s else refuse field ''must be a valid date'')
      | _ \<Rightarrow> refuse field ''must be a YYYY-MM-DD date'')"

definition flag_check :: "json \<Rightarrow> string \<Rightarrow> string \<Rightarrow> bool option checked" where
  "flag_check source key field =
     (case get_key source key of
        JNull \<Rightarrow> Inr None | JBool b \<Rightarrow> Inr (Some b) | _ \<Rightarrow> refuse field ''must be true or false'')"

definition one_of :: "json \<Rightarrow> string list \<Rightarrow> string option" where
  "one_of value names = (case value of JStr s \<Rightarrow> (if s \<in> set names then Some s else None) | _ \<Rightarrow> None)"

definition choice_check :: "json \<Rightarrow> string \<Rightarrow> string list \<Rightarrow> string checked" where
  "choice_check value field names =
     (case one_of value names of
        Some s \<Rightarrow> Inr s | None \<Rightarrow> refuse field (''must be one of '' @ join '', '' names))"

definition optional_choice :: "json \<Rightarrow> string \<Rightarrow> string \<Rightarrow> string list \<Rightarrow> string option checked" where
  "optional_choice source key field names =
     (if get_key source key = JNull then Inr None
      else and_then (choice_check (get_key source key) field names) (\<lambda>s. Inr (Some s)))"

section \<open>Lists of values\<close>

text \<open>\<open>for index, x in enumerate(xs)\<close>, with a loop-carried state where the source has one.\<close>

fun enum_res :: "(nat \<Rightarrow> 'a \<Rightarrow> 'e + 'b) \<Rightarrow> nat \<Rightarrow> 'a list \<Rightarrow> 'e + 'b list" where
  "enum_res f i [] = Inr []"
| "enum_res f i (x # xs) = and_then (f i x) (\<lambda>y. and_then (enum_res f (i + 1) xs) (\<lambda>ys. Inr (y # ys)))"

fun enum_state :: "(nat \<Rightarrow> 'a \<Rightarrow> 's \<Rightarrow> 'e + 'b \<times> 's) \<Rightarrow> nat \<Rightarrow> 'a list \<Rightarrow> 's \<Rightarrow> 'e + 'b list \<times> 's" where
  "enum_state f i [] s = Inr ([], s)"
| "enum_state f i (x # xs) s =
     and_then (f i x s) (\<lambda>(y, s'). and_then (enum_state f (i + 1) xs s') (\<lambda>(ys, s''). Inr (y # ys, s'')))"

definition texts_check :: "json \<Rightarrow> string \<Rightarrow> nat \<Rightarrow> nat \<Rightarrow> nat \<Rightarrow> string list checked" where
  "texts_check value field minimum maximum text_max =
     and_then (list_check value field minimum maximum) (\<lambda>xs.
       enum_res (\<lambda>i x. text_check x (at_index field i) text_max) 0 xs)"

definition card_list :: "json \<Rightarrow> string \<Rightarrow> string set \<Rightarrow> nat \<Rightarrow> nat \<Rightarrow> string list checked" where
  "card_list value field call_ids minimum maximum =
     and_then (list_check value field minimum maximum) (\<lambda>xs.
       enum_res (\<lambda>i x. case x of
           JStr s \<Rightarrow> (if s \<in> call_ids then Inr s else refuse (at_index field i) ''must name a call in calls'')
         | _ \<Rightarrow> refuse (at_index field i) ''must name a call in calls'') 0 xs)"

definition source_entry :: "string \<Rightarrow> nat \<Rightarrow> json \<Rightarrow> (string \<times> string) checked" where
  "source_entry field i entry =
     and_then (pair_check entry (at_index field i)) (\<lambda>(fact, url).
     and_then (text_check fact (at_index (at_index field i) 0) SOURCE_FACT_MAX) (\<lambda>f.
     and_then (url_check url (at_index (at_index field i) 1)) (\<lambda>u. Inr (f, u))))"

definition sources_check :: "json \<Rightarrow> string \<Rightarrow> nat \<Rightarrow> (string \<times> string) list checked" where
  "sources_check value field minimum =
     and_then (list_check value field minimum MAX_SOURCES) (enum_res (source_entry field) 0)"

definition bullet_check :: "string \<Rightarrow> nat \<Rightarrow> json \<Rightarrow> (string \<times> string) checked" where
  "bullet_check field i bullet =
     and_then (pair_check bullet (at_index field i)) (\<lambda>(label, txt).
     and_then (text_check label (at_index (at_index field i) 0) BULLET_LABEL_MAX) (\<lambda>l.
     and_then (text_check txt (at_index (at_index field i) 1) BULLET_TEXT_MAX) (\<lambda>t. Inr (l, t))))"

section \<open>Items and tabs\<close>

definition ITEM_KEYS :: "string list" where
  "ITEM_KEYS = [''title'', ''tag'', ''subtitle'', ''key'', ''body'', ''bullets'', ''watch'', ''cards'', ''sources'']"

definition item_check :: "string set \<Rightarrow> string \<Rightarrow> json \<Rightarrow> Item checked" where
  "item_check call_ids field value =
     and_then (object_check value field ITEM_KEYS) (\<lambda>source.
     and_then (text_check (get_key source ''title'') (at_key field ''title'') TITLE_MAX) (\<lambda>title.
     and_then (optional_choice source ''tag'' (at_key field ''tag'') TAGS) (\<lambda>tag.
     and_then (optional_text source ''subtitle'' (at_key field ''subtitle'') SUBTITLE_MAX) (\<lambda>subtitle.
     and_then (optional_text source ''key'' (at_key field ''key'') KEY_MAX) (\<lambda>key.
     and_then (texts_check (get_key source ''body'') (at_key field ''body'') 0 MAX_BODY BODY_MAX) (\<lambda>body.
     and_then (and_then (list_check (get_key source ''bullets'') (at_key field ''bullets'') 0 MAX_BULLETS)
                 (enum_res (bullet_check (at_key field ''bullets'')) 0)) (\<lambda>bullets.
     and_then (optional_text source ''watch'' (at_key field ''watch'') WATCH_MAX) (\<lambda>watch.
     and_then (card_list (get_key source ''cards'') (at_key field ''cards'') call_ids 0 MAX_ITEM_CARDS) (\<lambda>cards.
     and_then (sources_check (get_key source ''sources'') (at_key field ''sources'') 0) (\<lambda>sources.
       Inr \<lparr>it_title = title, it_tag = tag, it_subtitle = subtitle, it_key = key, it_body = body,
            it_bullets = bullets, it_watch = watch, it_cards = cards, it_sources = sources\<rparr>))))))))))"

definition items_check :: "string set \<Rightarrow> string \<Rightarrow> json \<Rightarrow> Item list checked" where
  "items_check call_ids field value =
     and_then (list_check value field 0 MAX_ITEMS) (enum_res (\<lambda>i. item_check call_ids (at_index field i)) 0)"

definition tab_check :: "string set \<Rightarrow> string \<Rightarrow> json \<Rightarrow> Tab checked" where
  "tab_check call_ids field value =
     and_then (object_check value field [''title'', ''layout'', ''items'']) (\<lambda>source.
     and_then (text_check (get_key source ''title'') (at_key field ''title'') TAB_TITLE_MAX) (\<lambda>title.
     and_then (choice_check (get_key source ''layout'') (at_key field ''layout'') LAYOUTS) (\<lambda>layout.
     and_then (items_check call_ids (at_key field ''items'') (get_key source ''items'')) (\<lambda>items.
       Inr \<lparr>tb_title = title, tb_layout = layout, tb_items = items\<rparr>))))"

section \<open>Blocks\<close>

definition BLOCK_KEYS :: "string \<Rightarrow> string list" where
  "BLOCK_KEYS kind =
     (if kind = ''heading'' then [''text'']
      else if kind = ''paragraph'' then [''text'', ''lede'']
      else if kind = ''list'' then [''items'', ''ordered'']
      else if kind = ''callout'' then [''title'', ''text'', ''tone'']
      else if kind = ''card'' then [''card'']
      else if kind = ''cards'' then [''cards'']
      else if kind = ''spot'' then [''tag'', ''title'', ''subtitle'', ''key'', ''cards'']
      else if kind = ''table'' then [''columns'', ''rows'']
      else if kind = ''items'' then [''layout'', ''items'']
      else if kind = ''sources'' then [''sources'']
      else [''tabs''])"

text \<open>\<open>[a-z0-9-]{1,40}\<close> and \<open>[a-z0-9_-]{1,60}\<close> on the whole text.\<close>

definition is_lower :: "char \<Rightarrow> bool" where
  "is_lower c \<longleftrightarrow> 97 \<le> (of_char c :: nat) \<and> (of_char c :: nat) \<le> 122"

definition CALL_ID :: "string \<Rightarrow> bool" where
  "CALL_ID s \<longleftrightarrow> 1 \<le> length s \<and> length s \<le> 40 \<and> list_all (\<lambda>c. is_lower c \<or> is_digit c \<or> c = CHR ''-'') s"

definition CARD_NAME :: "string \<Rightarrow> bool" where
  "CARD_NAME s \<longleftrightarrow> 1 \<le> length s \<and> length s \<le> 60
     \<and> list_all (\<lambda>c. is_lower c \<or> is_digit c \<or> c = CHR ''_'' \<or> c = CHR ''-'') s"

definition id_check :: "json \<Rightarrow> string \<Rightarrow> (string \<Rightarrow> bool) \<Rightarrow> string \<Rightarrow> string checked" where
  "id_check value field shape problem =
     (case value of JStr s \<Rightarrow> (if shape s then Inr s else refuse field problem) | _ \<Rightarrow> refuse field problem)"

text \<open>
  What \<open>_block\<close> checks before it reads the block's own keys. The set \<open>ids\<close> is the list of the
  ids seen so far, each once, in the order they were added.
\<close>

definition block_head :: "bool \<Rightarrow> string \<Rightarrow> json \<Rightarrow> string list \<Rightarrow> (string \<times> string \<times> string list) checked" where
  "block_head nested field value ids =
     (if \<not> is_mapping value then refuse field ''must be an object''
      else and_then (choice_check (get_key value ''type'') (at_key field ''type'') BLOCK_TYPES) (\<lambda>kind.
        if kind = ''tabs'' \<and> nested then refuse (at_key field ''type'') ''must not be tabs inside tabs''
        else and_then (object_check value field (''id'' # ''type'' # BLOCK_KEYS kind)) (\<lambda>source.
          and_then (id_check (get_key source ''id'') (at_key field ''id'') CALL_ID
                      ''must be 1-40 characters of a-z, 0-9 and -'') (\<lambda>block_id.
            if block_id \<in> set ids then refuse (at_key field ''id'') ''must be unique across the report''
            else let ids' = ids @ [block_id]
              in if MAX_BLOCKS < length ids'
                 then refuse ''report.blocks''
                        (''must hold at most '' @ show_nat MAX_BLOCKS @ '' blocks, counting those inside tabs'')
                 else Inr (kind, block_id, ids')))))"

definition card_check :: "string set \<Rightarrow> string \<Rightarrow> json \<Rightarrow> content checked" where
  "card_check call_ids field source =
     (case get_key source ''card'' of
        JStr s \<Rightarrow> (if s \<in> call_ids then Inr (CardBlock s)
                   else refuse (at_key field ''card'') ''must name a call in calls'')
      | _ \<Rightarrow> refuse (at_key field ''card'') ''must name a call in calls'')"

definition spot_check :: "string set \<Rightarrow> string \<Rightarrow> json \<Rightarrow> content checked" where
  "spot_check call_ids field source =
     and_then (optional_choice source ''tag'' (at_key field ''tag'') TAGS) (\<lambda>tag.
     and_then (text_check (get_key source ''title'') (at_key field ''title'') TITLE_MAX) (\<lambda>title.
     and_then (optional_text source ''subtitle'' (at_key field ''subtitle'') SUBTITLE_MAX) (\<lambda>subtitle.
     and_then (optional_text source ''key'' (at_key field ''key'') KEY_MAX) (\<lambda>key.
     and_then (card_list (get_key source ''cards'') (at_key field ''cards'') call_ids 0 MAX_ITEM_CARDS) (\<lambda>cards.
       Inr (Spot tag title subtitle key cards))))))"

definition row_check :: "nat \<Rightarrow> string \<Rightarrow> json \<Rightarrow> string list checked" where
  "row_check columns field row =
     (case row of
        JList cells \<Rightarrow>
          (if length cells \<noteq> columns
           then refuse field (''must have '' @ show_nat columns @ '' cells, one per column'')
           else enum_res (\<lambda>i cell. text_check cell (at_index field i) TABLE_CELL_MAX) 0 cells)
      | _ \<Rightarrow> refuse field ''must be a list'')"

definition table_check :: "string \<Rightarrow> json \<Rightarrow> content checked" where
  "table_check field source =
     and_then (texts_check (get_key source ''columns'') (at_key field ''columns'') 1 MAX_TABLE_COLUMNS TABLE_COLUMN_MAX) (\<lambda>columns.
     and_then (list_check (get_key source ''rows'') (at_key field ''rows'') 1 MAX_TABLE_ROWS) (\<lambda>rows.
     and_then (enum_res (\<lambda>i. row_check (length columns) (at_index (at_key field ''rows'') i)) 0 rows) (\<lambda>cells.
       Inr (TableBlock columns cells))))"

text \<open>The branches of \<open>_block\<close> on the kinds that hold no blocks.\<close>

definition leaf_check :: "string set \<Rightarrow> string \<Rightarrow> string \<Rightarrow> json \<Rightarrow> content checked" where
  "leaf_check call_ids kind field source =
     (if kind = ''heading'' then
        and_then (text_check (get_key source ''text'') (at_key field ''text'') TITLE_MAX) (\<lambda>t. Inr (Heading t))
      else if kind = ''paragraph'' then
        and_then (text_check (get_key source ''text'') (at_key field ''text'') BODY_MAX) (\<lambda>t.
        and_then (flag_check source ''lede'' (at_key field ''lede'')) (\<lambda>lede. Inr (Paragraph t lede)))
      else if kind = ''list'' then
        and_then (texts_check (get_key source ''items'') (at_key field ''items'') 1 MAX_LIST_ITEMS LIST_ITEM_MAX) (\<lambda>xs.
        and_then (flag_check source ''ordered'' (at_key field ''ordered'')) (\<lambda>ordered. Inr (ListBlock xs ordered)))
      else if kind = ''callout'' then
        and_then (optional_text source ''title'' (at_key field ''title'') CALLOUT_TITLE_MAX) (\<lambda>title.
        and_then (text_check (get_key source ''text'') (at_key field ''text'') CALLOUT_TEXT_MAX) (\<lambda>t.
        and_then (optional_choice source ''tone'' (at_key field ''tone'') TONES) (\<lambda>tone. Inr (Callout title t tone))))
      else if kind = ''card'' then card_check call_ids field source
      else if kind = ''cards'' then
        and_then (card_list (get_key source ''cards'') (at_key field ''cards'') call_ids MIN_ROW_CARDS MAX_ROW_CARDS)
          (\<lambda>cards. Inr (CardsBlock cards))
      else if kind = ''spot'' then spot_check call_ids field source
      else if kind = ''table'' then table_check field source
      else if kind = ''items'' then
        and_then (choice_check (get_key source ''layout'') (at_key field ''layout'') LAYOUTS) (\<lambda>layout.
        and_then (items_check call_ids (at_key field ''items'') (get_key source ''items'')) (\<lambda>items.
          Inr (ItemsBlock layout items)))
      else and_then (sources_check (get_key source ''sources'') (at_key field ''sources'') 1)
             (\<lambda>sources. Inr (SourcesBlock sources)))"

text \<open>
  \<open>_block\<close> calls itself once: a block inside a group of tabs has \<open>nested=True\<close>, where the kind
  \<open>tabs\<close> is refused before the branch that recurses.
\<close>

definition nested_block :: "string set \<Rightarrow> string \<Rightarrow> json \<Rightarrow> string list \<Rightarrow> (block \<times> string list) checked" where
  "nested_block call_ids field value ids =
     and_then (block_head True field value ids) (\<lambda>(kind, block_id, ids').
     and_then (leaf_check call_ids kind field value) (\<lambda>content. Inr (Block block_id content, ids')))"

definition group_tab :: "string set \<Rightarrow> string \<Rightarrow> json \<Rightarrow> string list \<Rightarrow> ((string \<times> block list) \<times> string list) checked" where
  "group_tab call_ids field tab ids =
     and_then (object_check tab field [''title'', ''blocks'']) (\<lambda>source.
     and_then (text_check (get_key source ''title'') (at_key field ''title'') TAB_TITLE_MAX) (\<lambda>title.
     and_then (list_check (get_key source ''blocks'') (at_key field ''blocks'') 1 MAX_TAB_BLOCKS) (\<lambda>children.
     and_then (enum_state (\<lambda>i. nested_block call_ids (at_index (at_key field ''blocks'') i)) 0 children ids)
       (\<lambda>(blocks, ids'). Inr ((title, blocks), ids')))))"

definition block_check :: "string set \<Rightarrow> string \<Rightarrow> json \<Rightarrow> string list \<Rightarrow> (block \<times> string list) checked" where
  "block_check call_ids field value ids =
     and_then (block_head False field value ids) (\<lambda>(kind, block_id, ids').
       if kind = ''tabs'' then
         and_then (list_check (get_key value ''tabs'') (at_key field ''tabs'') MIN_GROUP_TABS MAX_TABS) (\<lambda>tabs.
         and_then (enum_state (\<lambda>i. group_tab call_ids (at_index (at_key field ''tabs'') i)) 0 tabs ids')
           (\<lambda>(groups, ids''). Inr (Block block_id (TabsBlock groups), ids'')))
       else and_then (leaf_check call_ids kind field value) (\<lambda>content. Inr (Block block_id content, ids')))"

section \<open>Documents, calls and cards\<close>

definition skill_check :: "json \<Rightarrow> (string \<times> string option) option checked" where
  "skill_check source =
     (if get_key source ''skill'' = JNull then Inr None
      else and_then (object_check (get_key source ''skill'') ''report.skill'' [''name'', ''url'']) (\<lambda>skill.
        and_then (text_check (get_key skill ''name'') ''report.skill.name'' SKILL_NAME_MAX) (\<lambda>name.
          if get_key skill ''url'' = JNull then Inr (Some (name, None))
          else and_then (url_check (get_key skill ''url'') ''report.skill.url'') (\<lambda>url.
            if starts_with SKILL_URL_PREFIX url then Inr (Some (name, Some url))
            else refuse ''report.skill.url'' (''must start with '' @ SKILL_URL_PREFIX)))))"

definition body_check :: "string set \<Rightarrow> json \<Rightarrow> report_body checked" where
  "body_check call_ids source =
     (if get_key source ''blocks'' \<noteq> JNull then
        and_then (list_check (get_key source ''blocks'') ''report.blocks'' 1 MAX_BLOCKS) (\<lambda>xs.
        and_then (enum_state (\<lambda>i. block_check call_ids (at_index ''report.blocks'' i)) 0 xs [])
          (\<lambda>(blocks, ids). Inr (BlocksBody blocks)))
      else
        and_then (list_check (get_key source ''tabs'') ''report.tabs'' 1 MAX_TABS) (\<lambda>xs.
        and_then (enum_res (\<lambda>i. tab_check call_ids (at_index ''report.tabs'' i)) 0 xs)
          (\<lambda>tabs. Inr (TabsBody tabs))))"

definition optional_date :: "json \<Rightarrow> string option checked" where
  "optional_date source =
     (if get_key source ''date'' = JNull then Inr None
      else and_then (date_check (get_key source ''date'') ''report.date'') (\<lambda>d. Inr (Some d)))"

definition DOCUMENT_KEYS :: "string list" where
  "DOCUMENT_KEYS = [''title'', ''date'', ''opening'', ''skill'', ''footnote'', ''tabs'', ''blocks'']"

definition document_check :: "json \<Rightarrow> string set \<Rightarrow> document checked" where
  "document_check value call_ids =
     and_then (object_check value ''report'' DOCUMENT_KEYS) (\<lambda>source.
       if (get_key source ''tabs'' = JNull) = (get_key source ''blocks'' = JNull)
       then refuse ''report'' ''must have exactly one of tabs or blocks''
       else and_then (text_check (get_key source ''title'') ''report.title'' TITLE_MAX) (\<lambda>title.
         and_then (optional_date source) (\<lambda>date.
         and_then (texts_check (get_key source ''opening'') ''report.opening'' 0 MAX_OPENING OPENING_MAX) (\<lambda>opening.
         and_then (skill_check source) (\<lambda>skill.
         and_then (optional_text source ''footnote'' ''report.footnote'' FOOTNOTE_MAX) (\<lambda>footnote.
         and_then (body_check call_ids source) (\<lambda>body.
           Inr \<lparr>dc_title = title, dc_date = date, dc_opening = opening, dc_skill = skill,
                dc_footnote = footnote, dc_body = body\<rparr>)))))))"

definition mapping_check :: "json \<Rightarrow> string \<Rightarrow> json checked" where
  "mapping_check value field = (if is_mapping value then Inr value else refuse field ''must be an object'')"

definition call_check :: "nat \<Rightarrow> json \<Rightarrow> string list \<Rightarrow> (call \<times> string list) checked" where
  "call_check i entry seen =
     (let field = at_index ''calls'' i
      in and_then (object_check entry field [''id'', ''tool'', ''args'', ''structured'', ''meta'', ''card'']) (\<lambda>source.
         and_then (id_check (get_key source ''id'') (at_key field ''id'') CALL_ID
                     ''must be 1-40 characters of a-z, 0-9 and -'') (\<lambda>call_id.
           if call_id \<in> set seen then refuse (at_key field ''id'') ''must be unique''
           else and_then (choice_check (get_key source ''tool'') (at_key field ''tool'') TOOLS) (\<lambda>tool.
             and_then (mapping_check (get_key source ''args'') (at_key field ''args'')) (\<lambda>args.
             and_then (mapping_check (get_key source ''structured'') (at_key field ''structured'')) (\<lambda>structured.
             and_then (if get_key source ''meta'' = JNull then Inr None
                       else and_then (mapping_check (get_key source ''meta'') (at_key field ''meta'')) (\<lambda>m. Inr (Some m)))
               (\<lambda>meta.
             and_then (id_check (get_key source ''card'') (at_key field ''card'') CARD_NAME
                         ''must be a card name of 1-60 characters of a-z, 0-9, _ and -'') (\<lambda>card.
               Inr (\<lparr>cl_id = call_id, cl_tool = tool, cl_args = args, cl_structured = structured,
                     cl_meta = meta, cl_card = card\<rparr>, seen @ [call_id])))))))))"

definition calls_check :: "json \<Rightarrow> call list checked" where
  "calls_check value =
     and_then (list_check value ''calls'' 0 MAX_CALLS) (\<lambda>xs.
     and_then (enum_state call_check 0 xs []) (\<lambda>(calls, seen). Inr calls))"

definition card_entry :: "string set \<Rightarrow> string \<times> json \<Rightarrow> (string \<times> string) checked" where
  "card_entry named = (\<lambda>(name, html).
     if name \<notin> named then refuse ''cards'' ''must hold only cards a call names''
     else case html of
         JStr s \<Rightarrow> (if strip s = [] then refuse ''cards'' ''must map each card name to its HTML'' else Inr (name, s))
       | _ \<Rightarrow> refuse ''cards'' ''must map each card name to its HTML'')"

definition cards_check :: "json \<Rightarrow> call list \<Rightarrow> (string \<times> string) list checked" where
  "cards_check value calls =
     (case value of
        JObj kvs \<Rightarrow>
          and_then (enum_res (\<lambda>i c. ensure (has_key value (cl_card c))
                      (InvalidInput (at_key (at_index ''calls'' i) ''card'') ''must name a card whose HTML is in cards''))
                     0 calls)
            (\<lambda>_. map_res (card_entry (cl_card ` set calls)) kvs)
      | _ \<Rightarrow> refuse ''cards'' ''must be an object'')"

section \<open>Notes and the publish body\<close>

definition notes_too_long :: report_error where "notes_too_long = FlatBody ''notes_too_long''"
definition notes_links :: report_error where "notes_links = FlatBody ''notes_links''"
definition invalid_edits :: report_error where "invalid_edits = FlatBody ''invalid_edits''"

definition NOTES_LINK :: "string \<Rightarrow> bool" where
  "NOTES_LINK s \<longleftrightarrow> contains ''http://'' (lower s) \<or> contains ''https://'' (lower s) \<or> contains ''www.'' (lower s)"

definition validate_notes :: "json \<Rightarrow> string option checked" where
  "validate_notes value =
     (case value of
        JNull \<Rightarrow> Inr None
      | JStr s \<Rightarrow>
          (if NOTES_MAX < length s then Inl notes_too_long
           else if strip s = [] then Inr None
           else if NOTES_LINK s then Inl notes_links
           else if list_ex is_control s then refuse ''notes'' ''must not contain control characters''
           else Inr (Some s))
      | _ \<Rightarrow> refuse ''notes'' ''must be a string'')"

definition origin_check :: "json \<Rightarrow> ReportOrigin checked" where
  "origin_check value =
     (if value = JStr ''assistant'' then Inr ASSISTANT
      else if value = JStr ''builder'' then Inr BUILDER
      else refuse ''origin'' ''must be assistant or builder'')"

text \<open>\<open>source.get(k, default)\<close> gives the default only for a missing key; an explicit null is kept.\<close>

definition get_default :: "json \<Rightarrow> string \<Rightarrow> json \<Rightarrow> json" where
  "get_default source k d = (if has_key source k then get_key source k else d)"

definition bool_check :: "json \<Rightarrow> string \<Rightarrow> bool checked" where
  "bool_check value field = (case value of JBool b \<Rightarrow> Inr b | _ \<Rightarrow> refuse field ''must be true or false'')"

definition PUBLISH_KEYS :: "string list" where
  "PUBLISH_KEYS = [''report'', ''calls'', ''cards'', ''show_author'', ''listed'', ''notes'', ''origin'']"

definition validate_publish_body :: "json \<Rightarrow> PublishedReport checked" where
  "validate_publish_body body =
     and_then (object_check body ''body'' PUBLISH_KEYS) (\<lambda>source.
     and_then (validate_notes (get_key source ''notes'')) (\<lambda>notes.
     and_then (calls_check (get_key source ''calls'')) (\<lambda>calls.
     and_then (document_check (get_key source ''report'') (cl_id ` set calls)) (\<lambda>document.
     and_then (cards_check (get_key source ''cards'') calls) (\<lambda>cards.
     and_then (bool_check (get_default source ''show_author'' (JBool False)) ''show_author'') (\<lambda>show_author.
     and_then (bool_check (get_default source ''listed'' (JBool False)) ''listed'') (\<lambda>listed.
     and_then (origin_check (get_default source ''origin'' (JStr ''assistant''))) (\<lambda>origin.
       Inr \<lparr>pr_document = document, pr_calls = calls, pr_cards = cards, pr_show_author = show_author,
            pr_listed = listed, pr_notes = notes, pr_origin = origin\<rparr>))))))))"

section \<open>Reading a document\<close>

lemma size_group: "g \<in> set gs \<Longrightarrow> size_list size (snd g) < size (TabsBlock gs)"
  by (induction gs) auto

fun walk :: "block list \<Rightarrow> block list" where
  "walk [] = []"
| "walk (Block i c # bs) =
     Block i c # (case c of TabsBlock gs \<Rightarrow> concat (map (\<lambda>g. walk (snd g)) gs) | _ \<Rightarrow> []) @ walk bs"

definition walk_blocks :: "document \<Rightarrow> block list" where
  "walk_blocks d = (case dc_body d of BlocksBody bs \<Rightarrow> walk bs | TabsBody _ \<Rightarrow> [])"

text \<open>\<open>list(dict.fromkeys(xs))\<close>: the first occurrence of each entry.\<close>

fun fromkeys :: "'a list \<Rightarrow> 'a list" where
  "fromkeys [] = []"
| "fromkeys (x # xs) = x # filter (\<lambda>y. y \<noteq> x) (fromkeys xs)"

definition block_cards :: "block \<Rightarrow> string list" where
  "block_cards b =
     (case b_content b of
        CardBlock c \<Rightarrow> [c]
      | CardsBlock cards \<Rightarrow> fromkeys cards
      | Spot _ _ _ _ cards \<Rightarrow> fromkeys cards
      | ItemsBlock _ items \<Rightarrow> fromkeys (concat (map it_cards items))
      | _ \<Rightarrow> [])"

definition shown_cards :: "document \<Rightarrow> string list" where
  "shown_cards d =
     (case dc_body d of
        BlocksBody bs \<Rightarrow> fromkeys (concat (map block_cards (walk_blocks d)))
      | TabsBody tabs \<Rightarrow> fromkeys (concat (map (\<lambda>t. concat (map it_cards (tb_items t))) tabs)))"

definition item_tags :: "Item list \<Rightarrow> (string \<times> string) list" where
  "item_tags items = concat (map (\<lambda>it. case it_tag it of Some g \<Rightarrow> [(g, it_title it)] | None \<Rightarrow> []) items)"

definition tagged :: "document \<Rightarrow> (string \<times> string) list" where
  "tagged d =
     (case dc_body d of
        TabsBody tabs \<Rightarrow> concat (map (\<lambda>t. item_tags (tb_items t)) tabs)
      | BlocksBody _ \<Rightarrow>
          concat (map (\<lambda>b. case b_content b of
              Spot (Some g) title _ _ _ \<Rightarrow> [(g, title)]
            | ItemsBlock _ items \<Rightarrow> item_tags items
            | _ \<Rightarrow> []) (walk_blocks d)))"

text \<open>
  The light formatting. A mark opens and closes around at least one character and no line break,
  and the shortest such group is taken: \<open>\*\*(.+?)\*\*\<close> and \<open>\*(.+?)\*\<close>.
\<close>

fun lazy_group :: "string \<Rightarrow> string \<Rightarrow> (string \<times> string) option" where
  "lazy_group close [] = None"
| "lazy_group close (c # s) =
     (if c = CHR 0x0A then None
      else if starts_with close s then Some ([c], drop (length close) s)
      else map_option (\<lambda>(g, r). (c # g, r)) (lazy_group close s))"

lemma lazy_group_shorter: "lazy_group close s = Some (g, r) \<Longrightarrow> length r < length s \<and> length g + length r \<le> length s"
  by (induction s arbitrary: g) (fastforce split: if_splits)+

function unmark :: "string \<Rightarrow> string \<Rightarrow> string" where
  "unmark mark [] = []"
| "unmark mark (c # s) =
     (if starts_with mark (c # s)
      then (case lazy_group mark (drop (length mark) (c # s)) of
              Some (g, r) \<Rightarrow> g @ unmark mark r
            | None \<Rightarrow> c # unmark mark s)
      else c # unmark mark s)"
  by pat_completeness auto

termination
proof (relation "measure (length \<circ> snd)")
  fix mark s g r and c :: char and p :: "string \<times> string"
  assume "lazy_group mark (drop (length mark) (c # s)) = Some p" "(g, r) = p"
  then show "((mark, r), (mark, c # s)) \<in> measure (length \<circ> snd)"
    using lazy_group_shorter [of mark "drop (length mark) (c # s)" g r] by auto
qed auto

text \<open>\<open>^- \<close> with \<open>re.MULTILINE\<close>, replaced by nothing; \<open>bol\<close> says that a line begins here.\<close>

fun drop_bullets :: "bool \<Rightarrow> string \<Rightarrow> string" where
  "drop_bullets bol [] = []"
| "drop_bullets bol (c # s) =
     (if bol \<and> starts_with ''- '' (c # s) then drop_bullets False (drop 1 s)
      else c # drop_bullets (c = CHR 0x0A) s)"

definition is_paragraph :: "block \<Rightarrow> bool" where
  "is_paragraph b = (case b_content b of Paragraph _ _ \<Rightarrow> True | _ \<Rightarrow> False)"

definition lede :: "document \<Rightarrow> string option" where
  "lede d =
     (let paragraphs = filter is_paragraph (walk_blocks d);
          marked = filter (\<lambda>b. case b_content b of Paragraph _ (Some True) \<Rightarrow> True | _ \<Rightarrow> False) paragraphs;
          chosen = (case marked of b # _ \<Rightarrow> Some b | [] \<Rightarrow> (case paragraphs of b # _ \<Rightarrow> Some b | [] \<Rightarrow> None))
      in case chosen of
           None \<Rightarrow> None
         | Some b \<Rightarrow> (case b_content b of
               Paragraph s _ \<Rightarrow> Some (unmark ''*'' (unmark ''**'' (drop_bullets True s)))
             | _ \<Rightarrow> None))"

section \<open>The dictionaries of validated values\<close>

text \<open>
  The dictionary the source returns for each value: an optional value that is absent is left out,
  a list is always there.
\<close>

definition slim :: "(string \<times> json) list \<Rightarrow> json" where
  "slim kvs = JObj (filter (\<lambda>kv. snd kv \<noteq> JNull) kvs)"

definition opt_json :: "('a \<Rightarrow> json) \<Rightarrow> 'a option \<Rightarrow> json" where
  "opt_json enc v = (case v of None \<Rightarrow> JNull | Some x \<Rightarrow> enc x)"

definition texts_json :: "string list \<Rightarrow> json" where "texts_json xs = JList (map JStr xs)"

definition pairs_json :: "(string \<times> string) list \<Rightarrow> json" where
  "pairs_json ps = JList (map (\<lambda>p. JList [JStr (fst p), JStr (snd p)]) ps)"

definition item_json :: "Item \<Rightarrow> json" where
  "item_json it = slim
     [(''title'', JStr (it_title it)), (''tag'', opt_json JStr (it_tag it)),
      (''subtitle'', opt_json JStr (it_subtitle it)), (''key'', opt_json JStr (it_key it)),
      (''body'', texts_json (it_body it)), (''bullets'', pairs_json (it_bullets it)),
      (''watch'', opt_json JStr (it_watch it)), (''cards'', texts_json (it_cards it)),
      (''sources'', pairs_json (it_sources it))]"

definition tab_json :: "Tab \<Rightarrow> json" where
  "tab_json t = slim [(''title'', JStr (tb_title t)), (''layout'', JStr (tb_layout t)),
     (''items'', JList (map item_json (tb_items t)))]"

definition kind_of :: "content \<Rightarrow> string" where
  "kind_of c =
     (case c of Heading _ \<Rightarrow> ''heading'' | Paragraph _ _ \<Rightarrow> ''paragraph'' | ListBlock _ _ \<Rightarrow> ''list''
      | Callout _ _ _ \<Rightarrow> ''callout'' | CardBlock _ \<Rightarrow> ''card'' | CardsBlock _ \<Rightarrow> ''cards''
      | Spot _ _ _ _ _ \<Rightarrow> ''spot'' | TableBlock _ _ \<Rightarrow> ''table'' | ItemsBlock _ _ \<Rightarrow> ''items''
      | SourcesBlock _ \<Rightarrow> ''sources'' | TabsBlock _ \<Rightarrow> ''tabs'')"

fun block_json :: "block \<Rightarrow> json" where
  "block_json (Block i c) = slim ([(''id'', JStr i), (''type'', JStr (kind_of c))] @
     (case c of
        Heading s \<Rightarrow> [(''text'', JStr s)]
      | Paragraph s f \<Rightarrow> [(''text'', JStr s), (''lede'', opt_json JBool f)]
      | ListBlock xs f \<Rightarrow> [(''items'', texts_json xs), (''ordered'', opt_json JBool f)]
      | Callout title s tone \<Rightarrow> [(''title'', opt_json JStr title), (''text'', JStr s), (''tone'', opt_json JStr tone)]
      | CardBlock s \<Rightarrow> [(''card'', JStr s)]
      | CardsBlock xs \<Rightarrow> [(''cards'', texts_json xs)]
      | Spot tag title subtitle key xs \<Rightarrow>
          [(''tag'', opt_json JStr tag), (''title'', JStr title), (''subtitle'', opt_json JStr subtitle),
           (''key'', opt_json JStr key), (''cards'', texts_json xs)]
      | TableBlock columns rows \<Rightarrow> [(''columns'', texts_json columns), (''rows'', JList (map texts_json rows))]
      | ItemsBlock layout items \<Rightarrow> [(''layout'', JStr layout), (''items'', JList (map item_json items))]
      | SourcesBlock xs \<Rightarrow> [(''sources'', pairs_json xs)]
      | TabsBlock gs \<Rightarrow>
          [(''tabs'', JList (map (\<lambda>g. slim [(''title'', JStr (fst g)),
                                           (''blocks'', JList (map block_json (snd g)))]) gs))]))"

definition skill_json :: "string \<times> string option \<Rightarrow> json" where
  "skill_json s = slim [(''name'', JStr (fst s)), (''url'', opt_json JStr (snd s))]"

definition document_json :: "document \<Rightarrow> json" where
  "document_json d = slim
     ([(''title'', JStr (dc_title d)), (''date'', opt_json JStr (dc_date d)),
       (''opening'', texts_json (dc_opening d)), (''skill'', opt_json skill_json (dc_skill d)),
       (''footnote'', opt_json JStr (dc_footnote d))] @
      (case dc_body d of
         BlocksBody bs \<Rightarrow> [(''blocks'', JList (map block_json bs))]
       | TabsBody ts \<Rightarrow> [(''tabs'', JList (map tab_json ts))]))"

definition call_json :: "call \<Rightarrow> json" where
  "call_json c = JObj [(''id'', JStr (cl_id c)), (''tool'', JStr (cl_tool c)), (''args'', cl_args c),
     (''structured'', cl_structured c), (''meta'', opt_json id (cl_meta c)), (''card'', JStr (cl_card c))]"

definition origin_json :: "ReportOrigin \<Rightarrow> json" where
  "origin_json g = JStr (case g of ASSISTANT \<Rightarrow> ''assistant'' | BUILDER \<Rightarrow> ''builder'')"

definition publish_json :: "PublishedReport \<Rightarrow> json" where
  "publish_json r = JObj
     [(''report'', document_json (pr_document r)), (''calls'', JList (map call_json (pr_calls r))),
      (''cards'', JObj (map (\<lambda>y. (fst y, JStr (snd y))) (pr_cards r))),
      (''show_author'', JBool (pr_show_author r)), (''listed'', JBool (pr_listed r)),
      (''notes'', opt_json JStr (pr_notes r)), (''origin'', origin_json (pr_origin r))]"

section \<open>Lemmas on the checks\<close>

lemma refuse_neq [simp]: "refuse f p \<noteq> Inr x" "(refuse f p = Inl e) = (e = InvalidInput f p)"
  by (auto simp: refuse_def)

lemma get_slim [simp]:
  "distinct (map fst kvs) \<Longrightarrow> get_key (slim kvs) k = (case map_of kvs k of None \<Rightarrow> JNull | Some v \<Rightarrow> v)"
proof -
  assume d: "distinct (map fst kvs)"
  have "map_of (filter (\<lambda>kv. snd kv \<noteq> JNull) kvs) k =
      (case map_of kvs k of None \<Rightarrow> None | Some v \<Rightarrow> if v = JNull then None else Some v)"
    using d by (induction kvs) (auto split: option.splits simp: map_of_eq_None_iff image_iff)
  then show ?thesis by (simp add: slim_def get_key_def split: option.splits)
qed

lemma is_mapping_slim [simp]: "is_mapping (slim kvs)"
  by (simp add: slim_def is_mapping_def)

lemma slim_neq [simp]: "slim kvs \<noteq> JNull"
  by (simp add: slim_def)

lemma object_slim [simp]:
  assumes "set (map fst kvs) \<subseteq> set allowed" shows "object_check (slim kvs) f allowed = Inr (slim kvs)"
  using assms by (force simp: object_check_def slim_def Let_def filter_empty_conv)

lemma object_JObj [simp]:
  assumes "set (map fst kvs) \<subseteq> set allowed" shows "object_check (JObj kvs) f allowed = Inr (JObj kvs)"
  using assms by (force simp: object_check_def Let_def filter_empty_conv)

lemma object_check_Inr: "object_check v f allowed = Inr s \<Longrightarrow> s = v \<and> is_mapping v"
  by (auto simp: object_check_def Let_def is_mapping_def split: json.splits if_splits)

lemma id_check_Inr [result_simps]: "id_check x f p m = Inr y \<longleftrightarrow> x = JStr y \<and> p y"
  by (auto simp: id_check_def split: json.splits)

lemma choice_check_Inr [result_simps]: "choice_check x f names = Inr y \<longleftrightarrow> x = JStr y \<and> y \<in> set names"
  by (auto simp: choice_check_def one_of_def split: json.splits)

lemma mapping_check_Inr [result_simps]: "mapping_check x f = Inr y \<longleftrightarrow> x = y \<and> is_mapping y"
  by (auto simp: mapping_check_def)

lemma text_json: "text_check v f m = Inr s \<Longrightarrow> text_check (JStr s) f' m = Inr s"
  by (auto simp: text_check_def split: json.splits if_splits)

lemma optional_text_json:
  assumes "optional_text v k f m = Inr x" "get_key w k = opt_json JStr x"
  shows "optional_text w k f' m = Inr x"
  using assms text_json by (auto simp: optional_text_def opt_json_def result_simps split: if_splits)

lemma choice_json: "choice_check v f names = Inr s \<Longrightarrow> choice_check (JStr s) f' names = Inr s"
  by (simp add: result_simps)

lemma optional_choice_json:
  assumes "optional_choice v k f names = Inr x" "get_key w k = opt_json JStr x"
  shows "optional_choice w k f' names = Inr x"
  using assms choice_json by (auto simp: optional_choice_def opt_json_def result_simps split: if_splits)

lemma flag_json:
  assumes "flag_check v k f = Inr x" "get_key w k = opt_json JBool x" shows "flag_check w k f' = Inr x"
  using assms by (auto simp: flag_check_def opt_json_def split: json.splits)

lemma url_json: "url_check v f = Inr s \<Longrightarrow> url_check (JStr s) f' = Inr s"
  using text_json by (auto simp: url_check_def result_simps split: if_splits)

lemma list_json:
  assumes "list_check v f m n = Inr xs" "length ys = length xs" shows "list_check (JList ys) f' m n = Inr ys"
  using assms by (auto simp: list_check_def split: json.splits if_splits)

lemma enum_res_json:
  assumes "enum_res f i xs = Inr ys" "\<And>i j x y. f i x = Inr y \<Longrightarrow> g j (enc y) = Inr y"
  shows "enum_res g j (map enc ys) = Inr ys \<and> length ys = length xs"
  using assms(1)
proof (induction xs arbitrary: i j ys)
  case (Cons x xs)
  then show ?case by (force simp: result_simps dest: assms(2))
qed simp

lemma checked_list_json:
  assumes "and_then (list_check v f m n) (enum_res p i) = Inr ys"
    "\<And>i j x y. p i x = Inr y \<Longrightarrow> q j (enc y) = Inr y"
  shows "and_then (list_check (JList (map enc ys)) f' m n) (enum_res q j) = Inr ys"
proof -
  obtain xs where xs: "list_check v f m n = Inr xs" and e: "enum_res p i xs = Inr ys"
    using assms(1) by (auto simp: result_simps)
  from enum_res_json [OF e, of q enc j] assms(2)
  have "enum_res q j (map enc ys) = Inr ys" "length (map enc ys) = length xs" by auto
  then show ?thesis using list_json [OF xs] by simp
qed

lemma texts_json_check:
  assumes "texts_check v f m n l = Inr ys" shows "texts_check (texts_json ys) f' m n l = Inr ys"
  using assms unfolding texts_check_def texts_json_def
  by (rule checked_list_json) (rule text_json)

lemma card_list_json:
  assumes "card_list v f ids m n = Inr ys" shows "card_list (texts_json ys) f' ids m n = Inr ys"
  using assms unfolding card_list_def texts_json_def
  by (rule checked_list_json) (auto split: json.splits if_splits)

lemma sources_json:
  assumes "sources_check v f m = Inr ys" shows "sources_check (pairs_json ys) f' m = Inr ys"
  using assms unfolding sources_check_def pairs_json_def
  by (rule checked_list_json)
    (auto simp: source_entry_def pair_check_def result_simps intro: text_json url_json)

lemma bullets_json:
  assumes "and_then (list_check v f 0 MAX_BULLETS) (enum_res (bullet_check g) 0) = Inr ys"
  shows "and_then (list_check (pairs_json ys) f' 0 MAX_BULLETS) (enum_res (bullet_check g') 0) = Inr ys"
  using assms unfolding pairs_json_def
  by (rule checked_list_json)
    (auto simp: bullet_check_def pair_check_def result_simps intro: text_json)

lemmas value_json = text_json optional_text_json choice_json optional_choice_json flag_json
  texts_json_check card_list_json sources_json bullets_json

lemma item_checkD:
  assumes "item_check ids f v = Inr it"
  shows "text_check (get_key v ''title'') (at_key f ''title'') TITLE_MAX = Inr (it_title it)"
    "optional_choice v ''tag'' (at_key f ''tag'') TAGS = Inr (it_tag it)"
    "optional_text v ''subtitle'' (at_key f ''subtitle'') SUBTITLE_MAX = Inr (it_subtitle it)"
    "optional_text v ''key'' (at_key f ''key'') KEY_MAX = Inr (it_key it)"
    "texts_check (get_key v ''body'') (at_key f ''body'') 0 MAX_BODY BODY_MAX = Inr (it_body it)"
    "and_then (list_check (get_key v ''bullets'') (at_key f ''bullets'') 0 MAX_BULLETS)
        (enum_res (bullet_check (at_key f ''bullets'')) 0) = Inr (it_bullets it)"
    "optional_text v ''watch'' (at_key f ''watch'') WATCH_MAX = Inr (it_watch it)"
    "card_list (get_key v ''cards'') (at_key f ''cards'') ids 0 MAX_ITEM_CARDS = Inr (it_cards it)"
    "sources_check (get_key v ''sources'') (at_key f ''sources'') 0 = Inr (it_sources it)"
proof -
  obtain v' where v: "object_check v f ITEM_KEYS = Inr v'" using assms by (auto simp: item_check_def result_simps)
  then have [simp]: "v' = v" using object_check_Inr by blast
  show "text_check (get_key v ''title'') (at_key f ''title'') TITLE_MAX = Inr (it_title it)"
    "optional_choice v ''tag'' (at_key f ''tag'') TAGS = Inr (it_tag it)"
    "optional_text v ''subtitle'' (at_key f ''subtitle'') SUBTITLE_MAX = Inr (it_subtitle it)"
    "optional_text v ''key'' (at_key f ''key'') KEY_MAX = Inr (it_key it)"
    "texts_check (get_key v ''body'') (at_key f ''body'') 0 MAX_BODY BODY_MAX = Inr (it_body it)"
    "and_then (list_check (get_key v ''bullets'') (at_key f ''bullets'') 0 MAX_BULLETS)
        (enum_res (bullet_check (at_key f ''bullets'')) 0) = Inr (it_bullets it)"
    "optional_text v ''watch'' (at_key f ''watch'') WATCH_MAX = Inr (it_watch it)"
    "card_list (get_key v ''cards'') (at_key f ''cards'') ids 0 MAX_ITEM_CARDS = Inr (it_cards it)"
    "sources_check (get_key v ''sources'') (at_key f ''sources'') 0 = Inr (it_sources it)"
    using assms unfolding item_check_def v by (auto simp: and_then_Inr)
qed

lemma item_json_check:
  assumes "item_check ids f v = Inr it" shows "item_check ids f' (item_json it) = Inr it"
proof -
  note d = item_checkD [OF assms] and [simp] = item_json_def ITEM_KEYS_def
  have k: "get_key (item_json it) ''tag'' = opt_json JStr (it_tag it)"
    "get_key (item_json it) ''subtitle'' = opt_json JStr (it_subtitle it)"
    "get_key (item_json it) ''key'' = opt_json JStr (it_key it)"
    "get_key (item_json it) ''watch'' = opt_json JStr (it_watch it)"
    by simp_all
  show ?thesis
    unfolding item_check_def
    using text_json [OF d(1)] optional_choice_json [OF d(2) k(1)] optional_text_json [OF d(3) k(2)]
      optional_text_json [OF d(4) k(3)] texts_json_check [OF d(5)] bullets_json [OF d(6)]
      optional_text_json [OF d(7) k(4)] card_list_json [OF d(8)] sources_json [OF d(9)]
    by simp
qed

lemma items_json_check:
  assumes "items_check ids f v = Inr its"
  shows "items_check ids f' (JList (map item_json its)) = Inr its"
  using assms unfolding items_check_def by (rule checked_list_json) (rule item_json_check)

lemma tab_json_check:
  assumes "tab_check ids f v = Inr t" shows "tab_check ids f' (tab_json t) = Inr t"
  using assms by (auto simp: tab_check_def tab_json_def result_simps intro: value_json items_json_check)

lemma table_json_check:
  assumes "table_check f v = Inr c" "get_key w ''columns'' = texts_json cols" "get_key w ''rows'' = JList (map texts_json rows)"
    "c = TableBlock cols rows"
  shows "table_check f' w = Inr c"
proof -
  let ?p = "\<lambda>f i. row_check (length cols) (at_index (at_key f ''rows'') i)"
  have row: "row_check n g (texts_json y) = Inr y" if rc: "row_check n f x = Inr y" for n f g x y
  proof -
    obtain xs where xs: "x = JList xs" "length xs = n"
      and e: "enum_res (\<lambda>i cell. text_check cell (at_index f i) TABLE_CELL_MAX) 0 xs = Inr y"
      using rc by (auto simp: row_check_def split: json.splits if_splits)
    have "enum_res (\<lambda>i cell. text_check cell (at_index g i) TABLE_CELL_MAX) 0 (map JStr y) = Inr y
        \<and> length y = length xs"
      by (rule enum_res_json [OF e]) (rule text_json)
    then show ?thesis using xs by (simp add: row_check_def texts_json_def)
  qed
  obtain xs where c: "texts_check (get_key v ''columns'') (at_key f ''columns'') 1 MAX_TABLE_COLUMNS TABLE_COLUMN_MAX = Inr cols"
    and l: "list_check (get_key v ''rows'') (at_key f ''rows'') 1 MAX_TABLE_ROWS = Inr xs"
    and e: "enum_res (?p f) 0 xs = Inr rows"
    using assms(1,4) by (auto simp: table_check_def result_simps)
  have "enum_res (?p f') 0 (map texts_json rows) = Inr rows \<and> length rows = length xs"
    by (rule enum_res_json [OF e]) (rule row)
  then show ?thesis
    using texts_json_check [OF c] list_json [OF l] assms(2-4) by (simp add: table_check_def)
qed

definition is_leaf :: "content \<Rightarrow> bool" where
  "is_leaf c = (case c of TabsBlock _ \<Rightarrow> False | _ \<Rightarrow> True)"

lemma leaf_kind:
  assumes "leaf_check ids kind f v = Inr c" "kind \<in> set BLOCK_TYPES" "kind \<noteq> ''tabs''"
  shows "kind_of c = kind" "is_leaf c"
proof -
  have "kind_of c = kind \<and> is_leaf c"
    using assms
    by (simp add: leaf_check_def BLOCK_TYPES_def)
      (elim disjE; force simp: card_check_def spot_check_def table_check_def kind_of_def is_leaf_def result_simps
          split: json.splits if_splits)
  then show "kind_of c = kind" "is_leaf c" by auto
qed

lemma leaf_json_check:
  assumes "leaf_check ids (kind_of c) f v = Inr c" "is_leaf c"
  shows "leaf_check ids (kind_of c) f' (block_json (Block i c)) = Inr c"
proof (cases c)
  case (TableBlock cols rows)
  have "table_check f v = Inr c" using assms TableBlock by (simp add: leaf_check_def kind_of_def)
  from table_json_check [OF this _ _ TableBlock]
  have "table_check f' (block_json (Block i c)) = Inr c" using TableBlock by (simp add: kind_of_def)
  then show ?thesis using TableBlock by (simp add: leaf_check_def kind_of_def)
next
  case (CardBlock s)
  then show ?thesis using assms
    by (auto simp: leaf_check_def kind_of_def card_check_def split: json.splits if_splits)
next
  case (Spot tag title subtitle key xs)
  then show ?thesis using assms
    by (auto simp: leaf_check_def kind_of_def spot_check_def result_simps intro: value_json)
qed (use assms in \<open>auto simp: leaf_check_def kind_of_def is_leaf_def result_simps
       intro: value_json items_json_check\<close>)

lemma block_headD:
  assumes "block_head nested f v ids = Inr (kind, i, ids')"
  shows "kind \<in> set BLOCK_TYPES" "kind = ''tabs'' \<longrightarrow> \<not> nested" "i \<notin> set ids" "ids' = ids @ [i]"
    "length ids' \<le> MAX_BLOCKS" "CALL_ID i"
  using assms
  by (auto simp: block_head_def result_simps Let_def split: if_splits)

lemma head_json:
  assumes "block_head nested f v ids = Inr (kind, i, ids')"
    "distinct (map fst kvs)" "set (map fst kvs) \<subseteq> {''id'', ''type''} \<union> set (BLOCK_KEYS kind)"
    "map_of kvs ''id'' = Some (JStr i)" "map_of kvs ''type'' = Some (JStr kind)"
  shows "block_head nested f' (slim kvs) ids = Inr (kind, i, ids')"
proof -
  note block_headD [OF assms(1)]
  moreover have "object_check (slim kvs) f' (''id'' # ''type'' # BLOCK_KEYS kind) = Inr (slim kvs)"
    by (rule object_slim) (use assms(3) in auto)
  ultimately show ?thesis
    using assms(2,4,5) by (auto simp add: block_head_def choice_check_def one_of_def id_check_def Let_def)
qed

lemma head_json_block:
  assumes "block_head nested f v ids = Inr (kind_of c, i, ids')"
  shows "block_head nested f' (block_json (Block i c)) ids = Inr (kind_of c, i, ids')"
  unfolding block_json.simps
  by (rule head_json [OF assms]) (cases c; simp add: kind_of_def BLOCK_KEYS_def)+

lemma nested_json:
  assumes "nested_block ids f v s = Inr (b, s')"
  shows "nested_block ids f' (block_json b) s = Inr (b, s')"
proof -
  obtain kind i c where h: "block_head True f v s = Inr (kind, i, s')" and l: "leaf_check ids kind f v = Inr c"
    and b: "b = Block i c"
    using assms by (auto simp: nested_block_def result_simps)
  have k: "kind_of c = kind" "is_leaf c" using leaf_kind [OF l] block_headD [OF h] by auto
  show ?thesis
    using head_json_block [of True f v s c i s' f'] leaf_json_check [of ids c f v f' i] h l k
    by (simp add: nested_block_def b del: block_json.simps)
qed

lemma enum_state_json:
  assumes "enum_state f i xs s = Inr (ys, s')"
    "\<And>i j x s y s'. f i x s = Inr (y, s') \<Longrightarrow> g j (enc y) s = Inr (y, s')"
  shows "enum_state g j (map enc ys) s = Inr (ys, s') \<and> length ys = length xs"
  using assms(1)
proof (induction xs arbitrary: i j ys s)
  case (Cons x xs)
  then show ?case by (force simp: result_simps dest: assms(2))
qed simp

lemma group_json:
  assumes "group_tab ids f v s = Inr (g, s')"
  shows "group_tab ids f' (slim [(''title'', JStr (fst g)), (''blocks'', JList (map block_json (snd g)))]) s = Inr (g, s')"
proof -
  obtain title bs xs where g: "g = (title, bs)"
    and t: "text_check (get_key v ''title'') (at_key f ''title'') TAB_TITLE_MAX = Inr title"
    and l: "list_check (get_key v ''blocks'') (at_key f ''blocks'') 1 MAX_TAB_BLOCKS = Inr xs"
    and e: "enum_state (\<lambda>i. nested_block ids (at_index (at_key f ''blocks'') i)) 0 xs s = Inr (bs, s')"
    using assms by (auto simp: group_tab_def result_simps dest!: object_check_Inr)
  have e': "enum_state (\<lambda>i. nested_block ids (at_index (at_key f' ''blocks'') i)) 0 (map block_json bs) s = Inr (bs, s')
      \<and> length bs = length xs"
    by (rule enum_state_json [OF e]) (rule nested_json)
  show ?thesis
    using text_json [OF t] list_json [OF l, of "map block_json bs"] e' by (simp add: group_tab_def g)
qed

lemma block_json_check:
  assumes "block_check ids f v s = Inr (b, s')" shows "block_check ids f' (block_json b) s = Inr (b, s')"
proof -
  obtain kind i u where h: "block_head False f v s = Inr (kind, i, u)"
    using assms by (auto simp: block_check_def result_simps)
  show ?thesis
  proof (cases "kind = ''tabs''")
    case True
    obtain xs gs where b: "b = Block i (TabsBlock gs)"
      and l: "list_check (get_key v ''tabs'') (at_key f ''tabs'') MIN_GROUP_TABS MAX_TABS = Inr xs"
      and e: "enum_state (\<lambda>j. group_tab ids (at_index (at_key f ''tabs'') j)) 0 xs u = Inr (gs, s')"
      using assms h True by (auto simp: block_check_def result_simps)
    let ?enc = "\<lambda>g. slim [(''title'', JStr (fst g)), (''blocks'', JList (map block_json (snd g)))]"
    have e': "enum_state (\<lambda>j. group_tab ids (at_index (at_key f' ''tabs'') j)) 0 (map ?enc gs) u = Inr (gs, s')
        \<and> length gs = length xs"
      by (rule enum_state_json [OF e]) (rule group_json)
    have "block_head False f' (block_json b) s = Inr (''tabs'', i, u)"
      using head_json_block [of False f v s "TabsBlock gs" i u] h True by (simp add: b kind_of_def del: block_json.simps)
    then show ?thesis using e' list_json [OF l, of "map ?enc gs"] by (simp add: block_check_def b kind_of_def)
  next
    case False
    obtain c where b: "b = Block i c" and l: "leaf_check ids kind f v = Inr c" and u: "u = s'"
      using assms h False by (auto simp: block_check_def result_simps)
    have k: "kind_of c = kind" "is_leaf c" using leaf_kind [OF l] block_headD [OF h] False by auto
    show ?thesis
      using head_json_block [of False f v s c i s' f'] leaf_json_check [of ids c f v f' i] h l k u False
      by (simp add: block_check_def b del: block_json.simps)
  qed
qed

lemma body_json:
  assumes "body_check ids v = Inr body"
    "(case body of
        BlocksBody bs \<Rightarrow> get_key w ''blocks'' = JList (map block_json bs)
      | TabsBody ts \<Rightarrow> get_key w ''blocks'' = JNull \<and> get_key w ''tabs'' = JList (map tab_json ts))"
  shows "body_check ids w = Inr body"
proof (cases "get_key v ''blocks'' = JNull")
  case True
  obtain ts where b: "body = TabsBody ts"
    and c: "and_then (list_check (get_key v ''tabs'') ''report.tabs'' 1 MAX_TABS)
      (enum_res (\<lambda>i. tab_check ids (at_index ''report.tabs'' i)) 0) = Inr ts"
    using assms(1) True by (auto simp: body_check_def result_simps)
  have "and_then (list_check (JList (map tab_json ts)) ''report.tabs'' 1 MAX_TABS)
      (enum_res (\<lambda>i. tab_check ids (at_index ''report.tabs'' i)) 0) = Inr ts"
    by (rule checked_list_json [OF c]) (rule tab_json_check)
  then show ?thesis using assms(2) b by (auto simp: body_check_def result_simps)
next
  case False
  obtain xs bs s where b: "body = BlocksBody bs"
    and l: "list_check (get_key v ''blocks'') ''report.blocks'' 1 MAX_BLOCKS = Inr xs"
    and e: "enum_state (\<lambda>i. block_check ids (at_index ''report.blocks'' i)) 0 xs [] = Inr (bs, s)"
    using assms(1) False by (auto simp: body_check_def result_simps)
  have "enum_state (\<lambda>i. block_check ids (at_index ''report.blocks'' i)) 0 (map block_json bs) [] = Inr (bs, s)
      \<and> length bs = length xs"
    by (rule enum_state_json [OF e]) (rule block_json_check)
  then show ?thesis using assms(2) b list_json [OF l, of "map block_json bs"] by (simp add: body_check_def)
qed

lemma skill_json_check:
  assumes "skill_check v = Inr x" "get_key w ''skill'' = opt_json skill_json x" shows "skill_check w = Inr x"
  using assms text_json url_json
  by (fastforce simp: skill_check_def opt_json_def skill_json_def result_simps split: if_splits)

lemma date_json_check:
  assumes "optional_date v = Inr x" "get_key w ''date'' = opt_json JStr x" shows "optional_date w = Inr x"
  using assms by (auto simp: optional_date_def opt_json_def result_simps date_check_def split: if_splits json.splits)

lemma document_checkD:
  assumes "document_check v ids = Inr d"
  shows "text_check (get_key v ''title'') ''report.title'' TITLE_MAX = Inr (dc_title d)"
    "optional_date v = Inr (dc_date d)"
    "texts_check (get_key v ''opening'') ''report.opening'' 0 MAX_OPENING OPENING_MAX = Inr (dc_opening d)"
    "skill_check v = Inr (dc_skill d)"
    "optional_text v ''footnote'' ''report.footnote'' FOOTNOTE_MAX = Inr (dc_footnote d)"
    "body_check ids v = Inr (dc_body d)"
proof -
  obtain v' where v: "object_check v ''report'' DOCUMENT_KEYS = Inr v'"
    using assms by (auto simp: document_check_def result_simps)
  then have [simp]: "v' = v" using object_check_Inr by blast
  show "text_check (get_key v ''title'') ''report.title'' TITLE_MAX = Inr (dc_title d)"
    "optional_date v = Inr (dc_date d)"
    "texts_check (get_key v ''opening'') ''report.opening'' 0 MAX_OPENING OPENING_MAX = Inr (dc_opening d)"
    "skill_check v = Inr (dc_skill d)"
    "optional_text v ''footnote'' ''report.footnote'' FOOTNOTE_MAX = Inr (dc_footnote d)"
    "body_check ids v = Inr (dc_body d)"
    using assms unfolding document_check_def v by (auto simp: and_then_Inr split: if_splits)
qed

lemma document_json_check:
  assumes "document_check v ids = Inr d" shows "document_check (document_json d) ids = Inr d"
proof -
  let ?w = "document_json d"
  note c = document_checkD [OF assms]
  have o: "object_check ?w ''report'' DOCUMENT_KEYS = Inr ?w"
    unfolding document_json_def by (rule object_slim) (cases "dc_body d"; simp add: DOCUMENT_KEYS_def)
  have k: "get_key ?w ''title'' = JStr (dc_title d)" "get_key ?w ''date'' = opt_json JStr (dc_date d)"
    "get_key ?w ''opening'' = texts_json (dc_opening d)" "get_key ?w ''skill'' = opt_json skill_json (dc_skill d)"
    "get_key ?w ''footnote'' = opt_json JStr (dc_footnote d)"
    "(get_key ?w ''tabs'' = JNull) \<noteq> (get_key ?w ''blocks'' = JNull)"
    "(case dc_body d of
        BlocksBody bs \<Rightarrow> get_key ?w ''blocks'' = JList (map block_json bs)
      | TabsBody ts \<Rightarrow> get_key ?w ''blocks'' = JNull \<and> get_key ?w ''tabs'' = JList (map tab_json ts))"
    unfolding document_json_def by (cases "dc_body d"; simp)+
  show ?thesis
    unfolding document_check_def
    using o k text_json [OF c(1)] date_json_check [OF c(2) k(2)] texts_json_check [OF c(3)]
      skill_json_check [OF c(4) k(4)] optional_text_json [OF c(5) k(5)] body_json [OF c(6) k(7)]
    by (simp only: and_then.simps if_False) (simp only: k(1,3) text_json [OF c(1)] texts_json_check [OF c(3)] and_then.simps, simp)
qed

lemma call_checkD:
  assumes "call_check i v s = Inr (c, s')"
  shows "CALL_ID (cl_id c)" "cl_id c \<notin> set s" "s' = s @ [cl_id c]" "cl_tool c \<in> set TOOLS"
    "is_mapping (cl_args c)" "is_mapping (cl_structured c)"
    "\<forall>m. cl_meta c = Some m \<longrightarrow> is_mapping m \<and> m \<noteq> JNull" "CARD_NAME (cl_card c)"
proof -
  define field where "field = at_index ''calls'' i"
  obtain v' where v: "object_check v field [''id'', ''tool'', ''args'', ''structured'', ''meta'', ''card''] = Inr v'"
    using assms by (auto simp: call_check_def Let_def result_simps field_def)
  have nn: "is_mapping JNull = False" by (simp add: is_mapping_def)
  show "CALL_ID (cl_id c)" "cl_id c \<notin> set s" "s' = s @ [cl_id c]" "cl_tool c \<in> set TOOLS"
    "is_mapping (cl_args c)" "is_mapping (cl_structured c)"
    "\<forall>m. cl_meta c = Some m \<longrightarrow> is_mapping m \<and> m \<noteq> JNull" "CARD_NAME (cl_card c)"
    using assms unfolding call_check_def Let_def field_def [symmetric] v
    by (auto simp: result_simps nn split: if_splits)
qed

lemma call_json_check:
  assumes "call_check i v s = Inr (c, s')" shows "call_check j (call_json c) s = Inr (c, s')"
proof -
  let ?w = "call_json c"
  note c = call_checkD [OF assms]
  have k: "get_key ?w ''id'' = JStr (cl_id c)" "get_key ?w ''tool'' = JStr (cl_tool c)"
    "get_key ?w ''args'' = cl_args c" "get_key ?w ''structured'' = cl_structured c"
    "get_key ?w ''meta'' = opt_json id (cl_meta c)" "get_key ?w ''card'' = JStr (cl_card c)"
    by (simp_all add: call_json_def get_key_def)
  have o: "object_check ?w f [''id'', ''tool'', ''args'', ''structured'', ''meta'', ''card''] = Inr ?w" for f
    by (simp add: call_json_def)
  have m: "(if opt_json id (cl_meta c) = JNull then Inr None
      else and_then (mapping_check (opt_json id (cl_meta c)) f) (\<lambda>m. Inr (Some m))) = Inr (cl_meta c)" for f
    using c(7) by (cases "cl_meta c") (auto simp: opt_json_def mapping_check_def)
  show ?thesis
    unfolding call_check_def Let_def o k m and_then.simps
    using c by (simp add: id_check_def choice_check_def one_of_def mapping_check_def)
qed

lemma card_entry_Inr: "card_entry ns kv = Inr y \<Longrightarrow> kv = (fst y, JStr (snd y)) \<and> strip (snd y) \<noteq> [] \<and> fst y \<in> ns"
  by (auto simp: card_entry_def split: prod.splits if_splits json.splits)

lemma card_entries_Inr:
  assumes "map_res (card_entry ns) kvs = Inr cards" shows "kvs = map (\<lambda>y. (fst y, JStr (snd y))) cards"
proof -
  have "list_all2 (\<lambda>x y. card_entry ns x = Inr y) kvs cards" using assms by (simp only: map_res_Inr_iff)
  then have "list_all2 (\<lambda>x y. x = (fst y, JStr (snd y))) kvs cards"
    by (rule list_all2_mono) (simp add: card_entry_Inr)
  then show ?thesis by (simp add: list_all2_conv_all_nth list_eq_iff_nth_eq)
qed

lemma cards_json_check:
  assumes "cards_check v calls = Inr cards"
  shows "v = JObj (map (\<lambda>y. (fst y, JStr (snd y))) cards)"
proof -
  obtain kvs where "v = JObj kvs" "map_res (card_entry (cl_card ` set calls)) kvs = Inr cards"
    using assms by (cases v) (auto simp: cards_check_def and_then_Inr)
  then show ?thesis using card_entries_Inr by blast
qed

lemma notes_json_check: "validate_notes v = Inr x \<Longrightarrow> validate_notes (opt_json JStr x) = Inr x"
  by (auto simp: validate_notes_def opt_json_def split: json.splits if_splits)

lemma publishD:
  assumes "validate_publish_body v = Inr r"
  shows "validate_notes (get_key v ''notes'') = Inr (pr_notes r)"
    "calls_check (get_key v ''calls'') = Inr (pr_calls r)"
    "document_check (get_key v ''report'') (cl_id ` set (pr_calls r)) = Inr (pr_document r)"
    "cards_check (get_key v ''cards'') (pr_calls r) = Inr (pr_cards r)"
proof -
  obtain v' where v: "object_check v ''body'' PUBLISH_KEYS = Inr v'"
    using assms by (auto simp: validate_publish_body_def result_simps)
  then have [simp]: "v' = v" using object_check_Inr by blast
  show "validate_notes (get_key v ''notes'') = Inr (pr_notes r)"
    "calls_check (get_key v ''calls'') = Inr (pr_calls r)"
    "document_check (get_key v ''report'') (cl_id ` set (pr_calls r)) = Inr (pr_document r)"
    "cards_check (get_key v ''cards'') (pr_calls r) = Inr (pr_cards r)"
    using assms unfolding validate_publish_body_def v by (auto simp: and_then_Inr)
qed

lemma calls_json_check:
  assumes "calls_check v = Inr calls" shows "calls_check (JList (map call_json calls)) = Inr calls"
proof -
  obtain xs s where l: "list_check v ''calls'' 0 MAX_CALLS = Inr xs"
    and e: "enum_state call_check 0 xs [] = Inr (calls, s)"
    using assms by (auto simp: calls_check_def result_simps)
  have "enum_state call_check 0 (map call_json calls) [] = Inr (calls, s) \<and> length calls = length xs"
    by (rule enum_state_json [OF e]) (rule call_json_check)
  then show ?thesis using list_json [OF l, of "map call_json calls"] by (simp add: calls_check_def)
qed

section \<open>What a validated report holds\<close>

lemma set_fromkeys [simp]: "set (fromkeys xs) = set xs"
  by (induction xs) auto

lemma distinct_fromkeys [simp]: "distinct (fromkeys xs)"
  by (induction xs) auto

lemma walk_Cons: "walk (b # bs) = walk [b] @ walk bs"
  by (cases b) simp

lemma walk_append: "walk (as @ bs) = walk as @ walk bs"
  by (induction as) (simp, metis append_Cons append_assoc walk_Cons)

lemma walk_concat: "walk bs = concat (map (\<lambda>b. walk [b]) bs)"
  by (induction bs) (simp, metis concat.simps(2) list.simps(9) walk_Cons)

lemma walk_leaf [simp]: "is_leaf c \<Longrightarrow> walk [Block i c] = [Block i c]"
  by (simp add: is_leaf_def split: content.splits)

lemma block_list_induct [case_names Nil Leaf Group]:
  assumes "P []" "\<And>i c bs. is_leaf c \<Longrightarrow> P bs \<Longrightarrow> P (Block i c # bs)"
    "\<And>i gs bs. (\<And>g. g \<in> set gs \<Longrightarrow> P (snd g)) \<Longrightarrow> P bs \<Longrightarrow> P (Block i (TabsBlock gs) # bs)"
  shows "P bs"
proof (induction bs rule: walk.induct)
  case (2 i c bs)
  then show ?case by (cases "is_leaf c"; cases c) (auto simp: is_leaf_def intro: assms)
qed (rule assms)

lemma walk_leaves: "\<forall>b \<in> set bs. is_leaf (b_content b) \<Longrightarrow> walk bs = bs"
proof (induction bs)
  case (Cons b bs)
  then have "walk [b] = [b]" by (cases b) (simp del: walk.simps)
  then show ?case using Cons by (simp add: walk_Cons [of b bs])
qed simp

lemma list_check_length: "list_check v f m n = Inr xs \<Longrightarrow> m \<le> length xs \<and> length xs \<le> n"
  by (auto simp: list_check_def split: json.splits if_splits)

lemma enum_res_all:
  assumes "enum_res f i xs = Inr ys" "\<And>i x y. f i x = Inr y \<Longrightarrow> P y"
  shows "(\<forall>y \<in> set ys. P y) \<and> length ys = length xs"
  using assms(1) by (induction xs arbitrary: i ys) (auto simp: result_simps dest: assms(2))

lemma card_list_known:
  assumes "card_list v f ids m n = Inr cs" shows "set cs \<subseteq> ids"
proof -
  let ?f = "\<lambda>i x. case x of
      JStr s \<Rightarrow> (if s \<in> ids then Inr s else refuse (at_index f i) ''must name a call in calls'')
    | _ \<Rightarrow> refuse (at_index f i) ''must name a call in calls''"
  obtain xs where xs: "enum_res ?f 0 xs = Inr cs" using assms by (auto simp: card_list_def and_then_Inr)
  have "(\<forall>y \<in> set cs. y \<in> ids) \<and> length cs = length xs"
    by (rule enum_res_all [OF xs]) (auto split: json.splits if_splits)
  then show ?thesis by blast
qed

lemma items_known:
  assumes "items_check ids f v = Inr its" shows "\<forall>it \<in> set its. set (it_cards it) \<subseteq> ids"
proof -
  obtain xs where "enum_res (\<lambda>i. item_check ids (at_index f i)) 0 xs = Inr its"
    using assms by (auto simp: items_check_def result_simps)
  from enum_res_all [OF this, of "\<lambda>it. set (it_cards it) \<subseteq> ids"]
  show ?thesis using item_checkD(8) card_list_known by blast
qed

lemma leaf_known:
  assumes "leaf_check ids kind f v = Inr c" shows "set (block_cards (Block i c)) \<subseteq> ids"
  using assms
  by (auto simp: leaf_check_def card_check_def spot_check_def table_check_def block_cards_def result_simps
      dest!: card_list_known items_known split: if_splits json.splits) blast

definition room :: "string list \<Rightarrow> bool" where
  "room s \<longleftrightarrow> distinct s \<and> length s \<le> MAX_BLOCKS \<and> list_all CALL_ID s"

lemma block_head_room:
  assumes "block_head nested f v s = Inr (kind, i, s')" "room s" shows "room s'"
  using assms(2) block_headD [OF assms(1)] by (simp add: room_def)

definition sound_block :: "string set \<Rightarrow> block \<Rightarrow> bool" where
  "sound_block ids b \<longleftrightarrow> (\<forall>x \<in> set (walk [b]). set (block_cards x) \<subseteq> ids) \<and>
     (\<forall>gs. b_content b = TabsBlock gs \<longrightarrow> MIN_GROUP_TABS \<le> length gs \<and> length gs \<le> MAX_TABS \<and>
        (\<forall>g \<in> set gs. 1 \<le> length (snd g) \<and> length (snd g) \<le> MAX_TAB_BLOCKS \<and>
           (\<forall>x \<in> set (snd g). is_leaf (b_content x))))"

lemma nested_sound:
  assumes "nested_block ids f v s = Inr (b, s')"
  shows "s' = s @ [b_id b] \<and> (sound_block ids b \<and> is_leaf (b_content b)) \<and> (room s \<longrightarrow> room s')"
proof -
  obtain kind i c where h: "block_head True f v s = Inr (kind, i, s')" and l: "leaf_check ids kind f v = Inr c"
    and b: "b = Block i c"
    using assms by (auto simp: nested_block_def result_simps)
  have k: "is_leaf c" using leaf_kind [OF l] block_headD [OF h] by auto
  then show ?thesis using leaf_known [OF l] block_headD [OF h] block_head_room [OF h] b
    by (auto simp: sound_block_def is_leaf_def)
qed

lemma enum_state_all:
  assumes "enum_state f i xs s = Inr (ys, s')"
    "\<And>i x s y s'. f i x s = Inr (y, s') \<Longrightarrow> s' = s @ g y \<and> P y \<and> (Q s \<longrightarrow> Q s')"
  shows "s' = s @ concat (map g ys) \<and> (\<forall>y \<in> set ys. P y) \<and> (Q s \<longrightarrow> Q s') \<and> length ys = length xs"
  using assms(1)
proof (induction xs arbitrary: i ys s)
  case (Cons x xs)
  then show ?case by (fastforce simp: result_simps dest: assms(2))
qed simp

lemma group_sound:
  assumes "group_tab ids f v s = Inr (g, s')"
  shows "s' = s @ map b_id (snd g) \<and>
    ((\<forall>b \<in> set (snd g). sound_block ids b \<and> is_leaf (b_content b)) \<and> 1 \<le> length (snd g) \<and> length (snd g) \<le> MAX_TAB_BLOCKS)
    \<and> (room s \<longrightarrow> room s')"
proof -
  obtain title bs xs w h where g: "g = (title, bs)"
    and l: "list_check w h 1 MAX_TAB_BLOCKS = Inr xs"
    and e: "enum_state (\<lambda>i. nested_block ids (at_index (at_key f ''blocks'') i)) 0 xs s = Inr (bs, s')"
    using assms by (auto simp: group_tab_def result_simps)
  have "s' = s @ concat (map (\<lambda>b. [b_id b]) bs) \<and> (\<forall>b \<in> set bs. sound_block ids b \<and> is_leaf (b_content b))
      \<and> (room s \<longrightarrow> room s') \<and> length bs = length xs"
    by (rule enum_state_all [OF e]) (rule nested_sound)
  moreover have "1 \<le> length xs \<and> length xs \<le> MAX_TAB_BLOCKS"
    using list_check_length [OF l] by simp
  moreover have "concat (map (\<lambda>b. [b_id b]) bs) = map b_id bs" by (induction bs) auto
  ultimately show ?thesis by (auto simp add: g)
qed

lemma block_sound:
  assumes "block_check ids f v s = Inr (b, s')"
  shows "s' = s @ map b_id (walk [b]) \<and> sound_block ids b \<and> (room s \<longrightarrow> room s')"
proof -
  obtain kind i u where h: "block_head False f v s = Inr (kind, i, u)"
    using assms by (auto simp: block_check_def result_simps)
  show ?thesis
  proof (cases "kind = ''tabs''")
    case True
    obtain xs gs where b: "b = Block i (TabsBlock gs)"
      and l: "list_check (get_key v ''tabs'') (at_key f ''tabs'') MIN_GROUP_TABS MAX_TABS = Inr xs"
      and e: "enum_state (\<lambda>j. group_tab ids (at_index (at_key f ''tabs'') j)) 0 xs u = Inr (gs, s')"
      using assms h True by (auto simp: block_check_def result_simps)
    let ?P = "\<lambda>g. (\<forall>b \<in> set (snd g). sound_block ids b \<and> is_leaf (b_content b)) \<and> 1 \<le> length (snd g)
        \<and> length (snd g) \<le> MAX_TAB_BLOCKS"
    have a: "s' = u @ concat (map (\<lambda>g. map b_id (snd g)) gs) \<and> (\<forall>g \<in> set gs. ?P g) \<and> (room u \<longrightarrow> room s')
        \<and> length gs = length xs"
      by (rule enum_state_all [OF e]) (rule group_sound)
    have w: "map (\<lambda>g. walk (snd g)) gs = map snd gs" using a walk_leaves by (auto intro!: map_cong)
    have "walk [b] = b # concat (map snd gs)" by (simp only: b walk.simps content.case w append_Nil2)
    moreover have "\<forall>g \<in> set gs. \<forall>x \<in> set (snd g). set (block_cards x) \<subseteq> ids"
    proof (intro ballI)
      fix g x assume "g \<in> set gs" "x \<in> set (snd g)"
      then have "sound_block ids x" "is_leaf (b_content x)" using a by auto
      then show "set (block_cards x) \<subseteq> ids" by (cases x) (auto simp: sound_block_def)
    qed
    ultimately have "sound_block ids b"
      using a list_check_length [OF l] by (auto simp: sound_block_def b block_cards_def)
    then show ?thesis
      using a block_headD [OF h] block_head_room [OF h] \<open>walk [b] = _\<close> by (auto simp add: b map_concat comp_def)
  next
    case False
    obtain c where b: "b = Block i c" and l: "leaf_check ids kind f v = Inr c" and u: "u = s'"
      using assms h False by (auto simp: block_check_def result_simps)
    have k: "is_leaf c" using leaf_kind [OF l] block_headD [OF h] False by auto
    then have "walk [b] = [b]" by (simp add: b del: walk.simps)
    then show ?thesis using leaf_known [OF l] block_headD [OF h] block_head_room [OF h] b u k
      by (auto simp: sound_block_def is_leaf_def simp del: walk.simps)
  qed
qed

lemma body_blocks_sound:
  assumes "body_check ids v = Inr (BlocksBody bs)"
  shows "room (map b_id (walk bs))" "\<forall>b \<in> set bs. sound_block ids b"
proof -
  obtain xs s where e: "enum_state (\<lambda>i. block_check ids (at_index ''report.blocks'' i)) 0 xs [] = Inr (bs, s)"
    using assms by (auto simp: body_check_def result_simps split: if_splits)
  have "s = [] @ concat (map (\<lambda>b. map b_id (walk [b])) bs) \<and> (\<forall>b \<in> set bs. sound_block ids b)
      \<and> (room [] \<longrightarrow> room s) \<and> length bs = length xs"
    by (rule enum_state_all [OF e]) (rule block_sound)
  moreover have "concat (map (\<lambda>b. map b_id (walk [b])) bs) = map b_id (walk bs)"
    by (subst walk_concat [of bs]) (simp only: map_concat map_map comp_def)
  ultimately show "room (map b_id (walk bs))" "\<forall>b \<in> set bs. sound_block ids b" by (auto simp: room_def)
qed

lemma body_tabs_known:
  assumes "body_check ids v = Inr (TabsBody ts)" shows "\<forall>t \<in> set ts. \<forall>it \<in> set (tb_items t). set (it_cards it) \<subseteq> ids"
proof -
  obtain xs where e: "enum_res (\<lambda>i. tab_check ids (at_index ''report.tabs'' i)) 0 xs = Inr ts"
    using assms by (auto simp: body_check_def and_then_Inr split: if_splits)
  have "(\<forall>t \<in> set ts. \<forall>it \<in> set (tb_items t). set (it_cards it) \<subseteq> ids) \<and> length ts = length xs"
    by (rule enum_res_all [OF e]) (auto simp: tab_check_def and_then_Inr dest!: items_known)
  then show ?thesis by blast
qed

lemma walk_in: "x \<in> set (walk bs) \<longleftrightarrow> (\<exists>b \<in> set bs. x \<in> set (walk [b]))"
  by (subst walk_concat) simp

lemma sound_group:
  assumes "\<forall>b \<in> set bs. sound_block ids b" "Block i (TabsBlock gs) \<in> set (walk bs)"
  shows "Block i (TabsBlock gs) \<in> set bs"
proof -
  obtain b where b: "b \<in> set bs" "Block i (TabsBlock gs) \<in> set (walk [b])" using assms(2) walk_in by metis
  have "Block i (TabsBlock gs) = b"
  proof (cases "is_leaf (b_content b)")
    case True
    then show ?thesis using b by (cases b) (simp del: walk.simps)
  next
    case False
    then obtain j hs where h: "b = Block j (TabsBlock hs)" by (cases b; cases "b_content b") (auto simp: is_leaf_def)
    then have l: "\<forall>g \<in> set hs. \<forall>x \<in> set (snd g). is_leaf (b_content x)"
      using assms(1) b(1) by (auto simp: sound_block_def)
    then have "map (\<lambda>g. walk (snd g)) hs = map snd hs" by (auto intro!: map_cong walk_leaves)
    then have "set (walk [b]) = insert b (set (concat (map snd hs)))" by (simp only: h walk.simps content.case) simp
    then have "Block i (TabsBlock gs) = b \<or> (\<exists>g \<in> set hs. Block i (TabsBlock gs) \<in> set (snd g))" using b(2) by auto
    moreover have "\<not> is_leaf (b_content (Block i (TabsBlock gs)))" by (simp add: is_leaf_def)
    ultimately show ?thesis using l by blast
  qed
  then show ?thesis using b by simp
qed

lemma document_sound:
  assumes "document_check v ids = Inr d"
  shows "set (shown_cards d) \<subseteq> ids" "room (map b_id (walk_blocks d))"
    "Block i (TabsBlock gs) \<in> set (walk_blocks d) \<Longrightarrow>
       MIN_GROUP_TABS \<le> length gs \<and> length gs \<le> MAX_TABS \<and>
        (\<forall>g \<in> set gs. 1 \<le> length (snd g) \<and> length (snd g) \<le> MAX_TAB_BLOCKS \<and> (\<forall>x \<in> set (snd g). is_leaf (b_content x)))"
proof -
  note b = document_checkD(6) [OF assms]
  show "set (shown_cards d) \<subseteq> ids"
  proof (cases "dc_body d")
    case (BlocksBody bs)
    then have "\<forall>x \<in> set (walk bs). set (block_cards x) \<subseteq> ids"
      using body_blocks_sound(2) [of ids v bs] b walk_in [of _ bs] by (metis sound_block_def)
    then show ?thesis using BlocksBody by (auto simp: shown_cards_def walk_blocks_def)
  next
    case (TabsBody ts)
    then show ?thesis using body_tabs_known [of ids v ts] b by (auto simp: shown_cards_def)
  qed
  show "room (map b_id (walk_blocks d))"
    using body_blocks_sound(1) [of ids v] b by (cases "dc_body d") (auto simp: walk_blocks_def room_def)
  assume g: "Block i (TabsBlock gs) \<in> set (walk_blocks d)"
  then obtain bs where bs: "dc_body d = BlocksBody bs" by (cases "dc_body d") (auto simp: walk_blocks_def)
  then have "\<forall>x \<in> set bs. sound_block ids x" using body_blocks_sound(2) [of ids v bs] b by simp
  then show "MIN_GROUP_TABS \<le> length gs \<and> length gs \<le> MAX_TABS \<and>
        (\<forall>g \<in> set gs. 1 \<le> length (snd g) \<and> length (snd g) \<le> MAX_TAB_BLOCKS \<and> (\<forall>x \<in> set (snd g). is_leaf (b_content x)))"
    using sound_group [of bs ids i gs] g bs by (auto simp: walk_blocks_def sound_block_def)
qed

lemma calls_sound:
  assumes "calls_check v = Inr calls"
  shows "distinct (map cl_id calls)" "length calls \<le> MAX_CALLS"
proof -
  obtain xs s where l: "list_check v ''calls'' 0 MAX_CALLS = Inr xs"
    and e: "enum_state call_check 0 xs [] = Inr (calls, s)"
    using assms by (auto simp: calls_check_def result_simps)
  have "s = [] @ concat (map (\<lambda>c. [cl_id c]) calls) \<and> (\<forall>c \<in> set calls. True) \<and> (distinct ([] :: string list) \<longrightarrow> distinct s)
      \<and> length calls = length xs"
    by (rule enum_state_all [OF e, where Q = distinct]) (use call_checkD(2,3) in fastforce)
  moreover have "concat (map (\<lambda>c. [cl_id c]) calls) = map cl_id calls" by (induction calls) auto
  ultimately show "distinct (map cl_id calls)" "length calls \<le> MAX_CALLS" using list_check_length [OF l] by auto
qed

lemma cards_sound:
  assumes "cards_check v calls = Inr cards"
  shows "fst ` set cards = cl_card ` set calls" "\<forall>c \<in> set cards. strip (snd c) \<noteq> []"
proof -
  obtain kvs us where v: "v = JObj kvs"
    and e: "enum_res (\<lambda>i c. ensure (has_key v (cl_card c))
          (InvalidInput (at_key (at_index ''calls'' i) ''card'') ''must name a card whose HTML is in cards'')) 0 calls = Inr us"
    and m: "map_res (card_entry (cl_card ` set calls)) kvs = Inr cards"
    using assms by (cases v) (auto simp: cards_check_def and_then_Inr)
  have k: "\<forall>c \<in> set calls. has_key v (cl_card c)" if "enum_res (\<lambda>i c. ensure (has_key v (cl_card c)) (p i)) j calls = Inr us" for p j us
    using that by (induction calls arbitrary: j us) (auto simp: result_simps)
  note h = k [OF e]
  have "fst ` set kvs = fst ` set cards" using card_entries_Inr [OF m] by (simp add: image_image)
  moreover have a: "\<forall>y \<in> set cards. fst y \<in> cl_card ` set calls \<and> strip (snd y) \<noteq> []"
    using map_res_mem [OF m] card_entry_Inr by blast
  moreover have "cl_card ` set calls \<subseteq> fst ` set kvs"
    using h v by (auto simp: has_key_def map_of_eq_None_iff split: option.splits)
  ultimately show "fst ` set cards = cl_card ` set calls" "\<forall>c \<in> set cards. strip (snd c) \<noteq> []" by auto
qed

section \<open>Published reports\<close>

definition demo_body :: json where
  "demo_body = JObj
     [(''report'', JObj
        [(''title'', JStr ''Tonight''), (''date'', JStr ''2025-02-28''), (''footnote'', JNull),
         (''blocks'', JList
            [JObj [(''id'', JStr ''intro''), (''type'', JStr ''paragraph''), (''text'', JStr ''- **Four** games''), (''lede'', JBool True)],
             JObj [(''id'', JStr ''row''), (''type'', JStr ''cards''), (''cards'', JList [JStr ''c1'', JStr ''c2''])],
             JObj [(''id'', JStr ''group''), (''type'', JStr ''tabs''), (''tabs'', JList
               [JObj [(''title'', JStr ''East''), (''blocks'', JList
                  [JObj [(''id'', JStr ''spot''), (''type'', JStr ''spot''), (''title'', JStr ''Over''), (''tag'', JStr ''lean''),
                         (''cards'', JList [JStr ''c2''])]])],
                JObj [(''title'', JStr ''West''), (''blocks'', JList
                  [JObj [(''id'', JStr ''one''), (''type'', JStr ''card''), (''card'', JStr ''c3'')]])]])]])]),
      (''calls'', JList
         [JObj [(''id'', JStr ''c1''), (''tool'', JStr ''get_matchup''), (''args'', JObj []), (''structured'', JObj []), (''card'', JStr ''matchup'')],
          JObj [(''id'', JStr ''c2''), (''tool'', JStr ''get_on_off''), (''args'', JObj []), (''structured'', JObj []), (''card'', JStr ''on_off'')],
          JObj [(''id'', JStr ''c3''), (''tool'', JStr ''get_on_off''), (''args'', JObj []), (''structured'', JObj []), (''meta'', JNull), (''card'', JStr ''on_off'')]]),
      (''cards'', JObj [(''matchup'', JStr ''<p>1</p>''), (''on_off'', JStr ''<p>2</p>'')]),
      (''notes'', JStr ''  '')]"

definition demo_report :: PublishedReport where
  "demo_report = (case validate_publish_body demo_body of Inr r \<Rightarrow> r | Inl _ \<Rightarrow>
     \<lparr>pr_document = \<lparr>dc_title = [], dc_date = None, dc_opening = [], dc_skill = None, dc_footnote = None, dc_body = TabsBody []\<rparr>,
      pr_calls = [], pr_cards = [], pr_show_author = False, pr_listed = False, pr_notes = None, pr_origin = ASSISTANT\<rparr>)"

lemma demo_report_ok: "is_ok (validate_publish_body demo_body)"
  by code_simp

lemma demo_report_Inr: "validate_publish_body demo_body = Inr demo_report"
  using demo_report_ok by (auto simp: demo_report_def is_ok_iff)

text \<open>
  C37. What \<open>validate_publish_body\<close> accepts. The calls have distinct ids and number at most 48;
  every card shown anywhere in the document names one of them; the HTML that is stored is exactly
  that of the cards the calls draw, and none of it is blank. A block document has at most 120
  blocks, those inside tabs counted, with ids that are distinct across the whole document and of
  the id shape; a group of tabs has two to five tabs of one to sixty blocks, none of them again a
  group.
\<close>

theorem published_report_sound:
  assumes "validate_publish_body body = Inr r"
  shows "(distinct (map cl_id (pr_calls r)) \<and> length (pr_calls r) \<le> 48) \<and>
    set (shown_cards (pr_document r)) \<subseteq> cl_id ` set (pr_calls r) \<and>
    fst ` set (pr_cards r) = cl_card ` set (pr_calls r) \<and> (\<forall>h \<in> set (pr_cards r). strip (snd h) \<noteq> []) \<and>
    (let ids = map b_id (walk_blocks (pr_document r)) in distinct ids \<and> length ids \<le> 120 \<and> list_all CALL_ID ids) \<and>
    (\<forall>i gs. Block i (TabsBlock gs) \<in> set (walk_blocks (pr_document r)) \<longrightarrow> 2 \<le> length gs \<and> length gs \<le> 5 \<and>
       (\<forall>g \<in> set gs. 1 \<le> length (snd g) \<and> length (snd g) \<le> 60 \<and> (\<forall>b \<in> set (snd g). is_leaf (b_content b))))"
proof -
  note p = publishD [OF assms]
  note d = document_sound [OF p(3)]
  have "\<forall>i gs. Block i (TabsBlock gs) \<in> set (walk_blocks (pr_document r)) \<longrightarrow> 2 \<le> length gs \<and> length gs \<le> 5 \<and>
       (\<forall>g \<in> set gs. 1 \<le> length (snd g) \<and> length (snd g) \<le> 60 \<and> (\<forall>b \<in> set (snd g). is_leaf (b_content b)))"
    using d(3) unfolding MIN_GROUP_TABS_def MAX_TABS_def MAX_TAB_BLOCKS_def by blast
  then show ?thesis
    using calls_sound [OF p(2)] d(1,2) cards_sound [OF p(4)]
    by (simp add: Let_def room_def MAX_CALLS_def MAX_BLOCKS_def)
qed

theorem published_report_sound_witness:
  "validate_publish_body demo_body = Inr demo_report \<and>
   set (shown_cards (pr_document demo_report)) \<subseteq> cl_id ` set (pr_calls demo_report)"
  using published_report_sound [OF demo_report_Inr] demo_report_Inr by blast

text \<open>
  The normal form is stable: the dictionaries the validator returns for an accepted body are
  accepted again and give the same report, so that a stored report can be sent back unchanged.
\<close>

theorem publish_roundtrip:
  assumes "validate_publish_body body = Inr r"
  shows "validate_publish_body (publish_json r) = Inr r"
proof -
  let ?w = "publish_json r"
  note p = publishD [OF assms]
  have k: "object_check ?w ''body'' PUBLISH_KEYS = Inr ?w" "get_key ?w ''notes'' = opt_json JStr (pr_notes r)"
    "get_key ?w ''calls'' = JList (map call_json (pr_calls r))"
    "get_key ?w ''report'' = document_json (pr_document r)"
    "get_key ?w ''cards'' = JObj (map (\<lambda>y. (fst y, JStr (snd y))) (pr_cards r))"
    "get_default ?w ''show_author'' (JBool False) = JBool (pr_show_author r)"
    "get_default ?w ''listed'' (JBool False) = JBool (pr_listed r)"
    "get_default ?w ''origin'' (JStr ''assistant'') = origin_json (pr_origin r)"
    by (simp_all add: publish_json_def PUBLISH_KEYS_def get_key_def get_default_def has_key_def)
  have "cards_check (JObj (map (\<lambda>y. (fst y, JStr (snd y))) (pr_cards r))) (pr_calls r) = Inr (pr_cards r)"
    using p(4) cards_json_check [OF p(4)] by simp
  moreover have "origin_check (origin_json (pr_origin r)) = Inr (pr_origin r)"
    by (cases "pr_origin r") (simp_all add: origin_check_def origin_json_def)
  ultimately show ?thesis
    unfolding validate_publish_body_def k(1) and_then.simps k(2-8)
    using notes_json_check [OF p(1)] calls_json_check [OF p(2)] document_json_check [OF p(3)]
    by (simp add: bool_check_def)
qed

theorem publish_roundtrip_witness:
  "validate_publish_body demo_body = Inr demo_report \<and> validate_publish_body (publish_json demo_report) = Inr demo_report"
  using publish_roundtrip [OF demo_report_Inr] demo_report_Inr by blast

end
