(* ===== verification/Report_Edits.thy ===== *)
theory Report_Edits
  imports Reports
begin

text \<open>
  \<open>src/app/domain/report_document.py\<close>, second half: the author's edits of a published report, how
  they are checked against it, and what a reader sees with the edits laid over it.
\<close>

section \<open>Edits\<close>

record item_edit =
  ie_tab :: nat
  ie_item :: nat
  ie_hidden :: bool
  ie_cards :: "string list"

record block_edit =
  be_id :: string
  be_hidden :: bool
  be_cards :: "string list option"

datatype edit_entries = ItemEdits "item_edit list" | BlockEdits "block_edit list"

record edits =
  ed_title :: string
  ed_notes :: "string option"
  ed_entries :: edit_entries

definition index_check :: "json \<Rightarrow> nat \<Rightarrow> nat checked" where
  "index_check value size_of =
     (case value of JInt i \<Rightarrow> (if 0 \<le> i \<and> i < int size_of then Inr (nat i) else Inl invalid_edits) | _ \<Rightarrow> Inl invalid_edits)"

text \<open>\<open>isinstance(cards, list)\<close>, every card a string among those the item was published with, no
  card twice.\<close>

fun card_texts :: "json list \<Rightarrow> string list option" where
  "card_texts [] = Some []"
| "card_texts (JStr s # xs) = map_option (Cons s) (card_texts xs)"
| "card_texts _ = None"

definition edit_cards :: "json \<Rightarrow> string list \<Rightarrow> string list checked" where
  "edit_cards value published =
     (case value of
        JList xs \<Rightarrow>
          (case card_texts xs of
             Some cards \<Rightarrow> (if set cards \<subseteq> set published \<and> distinct cards then Inr cards else Inl invalid_edits)
           | None \<Rightarrow> Inl invalid_edits)
      | _ \<Rightarrow> Inl invalid_edits)"

definition json_keys :: "json \<Rightarrow> string set" where
  "json_keys v = (case v of JObj kvs \<Rightarrow> fst ` set kvs | _ \<Rightarrow> {})"

definition item_edit_check :: "Tab list \<Rightarrow> json \<Rightarrow> item_edit list \<Rightarrow> item_edit list checked" where
  "item_edit_check tabs entry acc =
     (if \<not> is_mapping entry \<or> json_keys entry \<noteq> {''tab'', ''item'', ''hidden'', ''cards''} then Inl invalid_edits
      else and_then (index_check (get_key entry ''tab'') (length tabs)) (\<lambda>tab.
        and_then (index_check (get_key entry ''item'') (length (tb_items (tabs ! tab)))) (\<lambda>item.
          case get_key entry ''hidden'' of
            JBool hidden \<Rightarrow>
              (if (tab, item) \<in> (\<lambda>e. (ie_tab e, ie_item e)) ` set acc then Inl invalid_edits
               else and_then (edit_cards (get_key entry ''cards'') (it_cards (tb_items (tabs ! tab) ! item))) (\<lambda>cards.
                 Inr (acc @ [\<lparr>ie_tab = tab, ie_item = item, ie_hidden = hidden, ie_cards = cards\<rparr>])))
          | _ \<Rightarrow> Inl invalid_edits)))"

definition CARD_BLOCK :: "block \<Rightarrow> bool" where
  "CARD_BLOCK b = (case b_content b of CardsBlock _ \<Rightarrow> True | Spot _ _ _ _ _ \<Rightarrow> True | ItemsBlock _ _ \<Rightarrow> True | _ \<Rightarrow> False)"

definition block_edit_of :: "string \<Rightarrow> block \<Rightarrow> json \<Rightarrow> block_edit list \<Rightarrow> block_edit list checked" where
  "block_edit_of block_id block entry acc =
     (if block_id \<in> be_id ` set acc then Inl invalid_edits
      else case get_key entry ''hidden'' of
          JBool hidden \<Rightarrow>
            (if get_key entry ''cards'' = JNull
             then Inr (acc @ [\<lparr>be_id = block_id, be_hidden = hidden, be_cards = None\<rparr>])
             else if \<not> CARD_BLOCK block then Inl invalid_edits
             else and_then (edit_cards (get_key entry ''cards'') (block_cards block)) (\<lambda>cards.
               Inr (acc @ [\<lparr>be_id = block_id, be_hidden = hidden, be_cards = Some cards\<rparr>])))
        | _ \<Rightarrow> Inl invalid_edits)"

definition block_edit_check :: "block list \<Rightarrow> json \<Rightarrow> block_edit list \<Rightarrow> block_edit list checked" where
  "block_edit_check published entry acc =
     (if \<not> is_mapping entry \<or> \<not> ({''id'', ''hidden''} \<subseteq> json_keys entry \<and> json_keys entry \<subseteq> {''id'', ''hidden'', ''cards''})
      then Inl invalid_edits
      else case get_key entry ''id'' of
          JStr block_id \<Rightarrow>
            (case find (\<lambda>b. b_id b = block_id) (rev published) of
               None \<Rightarrow> Inl invalid_edits
             | Some block \<Rightarrow> block_edit_of block_id block entry acc)
        | _ \<Rightarrow> Inl invalid_edits)"

definition block_edits :: "json \<Rightarrow> document \<Rightarrow> block_edit list checked" where
  "block_edits value d =
     (case value of
        JNull \<Rightarrow> Inr []
      | JList xs \<Rightarrow> fold_res (block_edit_check (walk_blocks d)) xs []
      | _ \<Rightarrow> Inl invalid_edits)"

definition item_edits :: "json \<Rightarrow> Tab list \<Rightarrow> item_edit list checked" where
  "item_edits value tabs =
     (case value of
        JNull \<Rightarrow> Inr []
      | JList xs \<Rightarrow> fold_res (item_edit_check tabs) xs []
      | _ \<Rightarrow> Inl invalid_edits)"

definition validate_edits :: "json \<Rightarrow> document \<Rightarrow> edits checked" where
  "validate_edits body d =
     (case dc_body d of
        BlocksBody _ \<Rightarrow>
          and_then (object_check body ''body'' [''title'', ''notes'', ''blocks'']) (\<lambda>source.
          and_then (text_check (get_key source ''title'') ''title'' TITLE_MAX) (\<lambda>title.
          and_then (validate_notes (get_key source ''notes'')) (\<lambda>notes.
          and_then (block_edits (get_key source ''blocks'') d) (\<lambda>blocks.
            Inr \<lparr>ed_title = title, ed_notes = notes, ed_entries = BlockEdits blocks\<rparr>))))
      | TabsBody tabs \<Rightarrow>
          and_then (object_check body ''body'' [''title'', ''notes'', ''items'']) (\<lambda>source.
          and_then (text_check (get_key source ''title'') ''title'' TITLE_MAX) (\<lambda>title.
          and_then (validate_notes (get_key source ''notes'')) (\<lambda>notes.
          and_then (item_edits (get_key source ''items'') tabs) (\<lambda>items.
            Inr \<lparr>ed_title = title, ed_notes = notes, ed_entries = ItemEdits items\<rparr>)))))"

text \<open>
  Laying the edits over the published document. An override of the cards of a block that is not a
  card block cannot come from \<open>_block_edits\<close>; the source would add a key that nothing reads, and
  the block is left as it is here.
\<close>

definition override_cards :: "string list \<Rightarrow> content \<Rightarrow> content" where
  "override_cards kept c =
     (case c of
        ItemsBlock layout items \<Rightarrow>
          ItemsBlock layout (map (\<lambda>it. it\<lparr>it_cards := filter (\<lambda>card. card \<in> set (it_cards it)) kept\<rparr>) items)
      | CardsBlock _ \<Rightarrow> CardsBlock kept
      | Spot tag title subtitle key _ \<Rightarrow> Spot tag title subtitle key kept
      | _ \<Rightarrow> c)"

fun edited :: "(string \<Rightarrow> block_edit option) \<Rightarrow> block list \<Rightarrow> block list" where
  "edited overrides [] = []"
| "edited overrides (Block i c # bs) =
     (let override = overrides i;
          inner = (case c of TabsBlock gs \<Rightarrow> TabsBlock (map (\<lambda>g. (fst g, edited overrides (snd g))) gs) | _ \<Rightarrow> c);
          laid = (case override of
                    Some e \<Rightarrow> (case be_cards e of Some kept \<Rightarrow> override_cards kept inner | None \<Rightarrow> inner)
                  | None \<Rightarrow> inner)
      in if override \<noteq> None \<and> be_hidden (the override) then edited overrides bs
         else Block i laid # edited overrides bs)"

definition overrides_of :: "('e \<Rightarrow> 'k) \<Rightarrow> 'e list \<Rightarrow> 'k \<Rightarrow> 'e option" where
  "overrides_of key es = map_of (rev (map (\<lambda>e. (key e, e)) es))"

fun edited_items :: "(nat \<times> nat \<Rightarrow> item_edit option) \<Rightarrow> nat \<Rightarrow> nat \<Rightarrow> Item list \<Rightarrow> Item list" where
  "edited_items overrides t i [] = []"
| "edited_items overrides t i (it # its) =
     (case overrides (t, i) of
        None \<Rightarrow> it # edited_items overrides t (i + 1) its
      | Some e \<Rightarrow> (if ie_hidden e then edited_items overrides t (i + 1) its
                   else it\<lparr>it_cards := ie_cards e\<rparr> # edited_items overrides t (i + 1) its))"

fun edited_tabs :: "(nat \<times> nat \<Rightarrow> item_edit option) \<Rightarrow> nat \<Rightarrow> Tab list \<Rightarrow> Tab list" where
  "edited_tabs overrides t [] = []"
| "edited_tabs overrides t (tab # tabs) =
     tab\<lparr>tb_items := edited_items overrides t 0 (tb_items tab)\<rparr> # edited_tabs overrides (t + 1) tabs"

definition shown_document :: "document \<Rightarrow> edits option \<Rightarrow> py_exn + document" where
  "shown_document d edits =
     (case edits of
        None \<Rightarrow> Inr d
      | Some e \<Rightarrow>
          (case (dc_body d, ed_entries e) of
             (BlocksBody bs, BlockEdits es) \<Rightarrow>
               Inr (d\<lparr>dc_title := ed_title e, dc_body := BlocksBody (edited (overrides_of be_id es) bs)\<rparr>)
           | (TabsBody tabs, ItemEdits es) \<Rightarrow>
               Inr (d\<lparr>dc_title := ed_title e,
                      dc_body := TabsBody (edited_tabs (overrides_of (\<lambda>e. (ie_tab e, ie_item e)) es) 0 tabs)\<rparr>)
           | (BlocksBody _, ItemEdits _) \<Rightarrow> Inl (KeyError ''blocks'')
           | (TabsBody _, BlockEdits _) \<Rightarrow> Inl (KeyError ''items'')))"

definition apply_edits :: "document \<Rightarrow> call list \<Rightarrow> edits option \<Rightarrow> py_exn + document \<times> call list" where
  "apply_edits d calls edits =
     and_then (shown_document d edits) (\<lambda>shown.
       Inr (shown, filter (\<lambda>c. cl_id c \<in> set (shown_cards shown)) calls))"

section \<open>Edited reports\<close>

lemma overrides_ofD: "overrides_of key es k = Some e \<Longrightarrow> e \<in> set es \<and> key e = k"
  by (auto simp: overrides_of_def dest: map_of_SomeD)

lemma overrides_of_mem:
  assumes "distinct (map key es)" "e \<in> set es" shows "overrides_of key es (key e) = Some e"
proof -
  have "map fst (rev (map (\<lambda>e. (key e, e)) es)) = rev (map key es)" by (simp add: rev_map)
  then have "distinct (map fst (rev (map (\<lambda>e. (key e, e)) es)))" using assms(1) by (metis distinct_rev)
  then show ?thesis unfolding overrides_of_def using assms(2) by (intro map_of_is_SomeI) auto
qed

lemma edit_cards_Inr: "edit_cards v published = Inr cards \<Longrightarrow> set cards \<subseteq> set published \<and> distinct cards"
  by (auto simp: edit_cards_def split: json.splits option.splits if_splits)

definition good_block_edits :: "block list \<Rightarrow> block_edit list \<Rightarrow> bool" where
  "good_block_edits published es \<longleftrightarrow> distinct (map be_id es) \<and>
     (\<forall>e \<in> set es. \<exists>b \<in> set published. b_id b = be_id e \<and>
        (\<forall>kept. be_cards e = Some kept \<longrightarrow> CARD_BLOCK b \<and> set kept \<subseteq> set (block_cards b)))"

lemma find_SomeD: "find P xs = Some x \<Longrightarrow> x \<in> set xs \<and> P x"
  by (induction xs) (auto split: if_splits)

lemma block_edit_good:
  assumes "block_edit_check published entry acc = Inr es" "good_block_edits published acc"
  shows "good_block_edits published es"
proof -
  obtain bid b where f: "find (\<lambda>b. b_id b = bid) (rev published) = Some b"
    and rest: "block_edit_of bid b entry acc = Inr es"
    using assms(1) unfolding block_edit_check_def
    by (cases "get_key entry ''id''") (simp_all split: if_splits option.splits)
  have n: "bid \<notin> be_id ` set acc" using rest by (simp add: block_edit_of_def split: if_splits)
  obtain h where es: "es = acc @ [\<lparr>be_id = bid, be_hidden = h, be_cards = None\<rparr>] \<or>
      (\<exists>kept. CARD_BLOCK b \<and> set kept \<subseteq> set (block_cards b) \<and>
         es = acc @ [\<lparr>be_id = bid, be_hidden = h, be_cards = Some kept\<rparr>])"
    using rest n by (cases "get_key entry ''hidden''")
      (auto simp: block_edit_of_def and_then_Inr dest: edit_cards_Inr split: if_splits)
  have b: "b \<in> set published" "b_id b = bid" using f by (auto dest: find_SomeD)
  obtain e where e: "es = acc @ [e]" "be_id e = bid"
    "\<forall>kept. be_cards e = Some kept \<longrightarrow> CARD_BLOCK b \<and> set kept \<subseteq> set (block_cards b)"
    using es by auto
  then have "\<exists>b \<in> set published. b_id b = be_id e \<and>
      (\<forall>kept. be_cards e = Some kept \<longrightarrow> CARD_BLOCK b \<and> set kept \<subseteq> set (block_cards b))"
    using b by blast
  then show ?thesis using assms(2) n e by (simp add: good_block_edits_def)
qed

lemma block_edits_good:
  assumes "block_edits v d = Inr es" shows "good_block_edits (walk_blocks d) es"
proof -
  have "good_block_edits (walk_blocks d) es" if "fold_res (block_edit_check (walk_blocks d)) xs [] = Inr es" for xs
    by (rule fold_res_invariant [OF that]) (simp add: good_block_edits_def, rule block_edit_good)
  then show ?thesis using assms by (auto simp: block_edits_def good_block_edits_def split: json.splits)
qed

definition good_item_edits :: "Tab list \<Rightarrow> item_edit list \<Rightarrow> bool" where
  "good_item_edits tabs es \<longleftrightarrow> distinct (map (\<lambda>e. (ie_tab e, ie_item e)) es) \<and>
     (\<forall>e \<in> set es. ie_tab e < length tabs \<and> ie_item e < length (tb_items (tabs ! ie_tab e)) \<and>
        set (ie_cards e) \<subseteq> set (it_cards (tb_items (tabs ! ie_tab e) ! ie_item e)))"

lemma index_check_Inr: "index_check v n = Inr i \<Longrightarrow> i < n"
  by (auto simp: index_check_def split: json.splits if_splits)

lemma item_edit_good:
  assumes "item_edit_check tabs entry acc = Inr es" "good_item_edits tabs acc" shows "good_item_edits tabs es"
proof -
  obtain tab item where i: "index_check (get_key entry ''tab'') (length tabs) = Inr tab"
    "index_check (get_key entry ''item'') (length (tb_items (tabs ! tab))) = Inr item"
    and rest: "(case get_key entry ''hidden'' of
            JBool hidden \<Rightarrow>
              (if (tab, item) \<in> (\<lambda>e. (ie_tab e, ie_item e)) ` set acc then Inl invalid_edits
               else and_then (edit_cards (get_key entry ''cards'') (it_cards (tb_items (tabs ! tab) ! item))) (\<lambda>cards.
                 Inr (acc @ [\<lparr>ie_tab = tab, ie_item = item, ie_hidden = hidden, ie_cards = cards\<rparr>])))
          | _ \<Rightarrow> Inl invalid_edits) = Inr es"
    using assms(1) unfolding item_edit_check_def by (simp only: and_then_Inr split: if_splits) auto
  obtain hidden cards where h: "(tab, item) \<notin> (\<lambda>e. (ie_tab e, ie_item e)) ` set acc"
    "edit_cards (get_key entry ''cards'') (it_cards (tb_items (tabs ! tab) ! item)) = Inr cards"
    "es = acc @ [\<lparr>ie_tab = tab, ie_item = item, ie_hidden = hidden, ie_cards = cards\<rparr>]"
    using rest by (cases "get_key entry ''hidden''") (simp_all only: json.case and_then_Inr split: if_splits, auto)
  show ?thesis
    using assms(2) h(1) edit_cards_Inr [OF h(2)] i [THEN index_check_Inr] by (auto simp: good_item_edits_def h(3))
qed

lemma item_edits_good:
  assumes "item_edits v tabs = Inr es" shows "good_item_edits tabs es"
proof -
  have "good_item_edits tabs es" if "fold_res (item_edit_check tabs) xs [] = Inr es" for xs
    by (rule fold_res_invariant [OF that]) (simp add: good_item_edits_def, rule item_edit_good)
  then show ?thesis using assms by (auto simp: item_edits_def good_item_edits_def split: json.splits)
qed

lemma override_block_cards:
  assumes "CARD_BLOCK (Block i c)" "set kept \<subseteq> set (block_cards (Block i c))"
  shows "set (block_cards (Block i (override_cards kept c))) \<subseteq> set (block_cards (Block i c))"
  using assms by (auto simp: block_cards_def override_cards_def CARD_BLOCK_def split: content.splits)

lemma edited_walk:
  assumes "\<forall>b \<in> set (walk bs). \<forall>e kept. ov (b_id b) = Some e \<longrightarrow> be_cards e = Some kept \<longrightarrow>
      CARD_BLOCK b \<and> set kept \<subseteq> set (block_cards b)"
    "x \<in> set (walk (edited ov bs))"
  shows "\<exists>b \<in> set (walk bs). b_id x = b_id b \<and> set (block_cards x) \<subseteq> set (block_cards b) \<and>
      (\<forall>e. ov (b_id b) = Some e \<longrightarrow> \<not> be_hidden e)"
  using assms
proof (induction bs arbitrary: x rule: block_list_induct)
  case (Leaf i c bs)
  let ?laid = "case ov i of
      Some e \<Rightarrow> (case be_cards e of Some kept \<Rightarrow> override_cards kept c | None \<Rightarrow> c) | None \<Rightarrow> c"
  have w: "walk (Block i c # bs) = Block i c # walk bs" "walk (Block i ?laid # as) = Block i ?laid # walk as" for as
    using Leaf.hyps by (simp_all add: is_leaf_def override_cards_def split: content.splits option.splits)
  have ed: "edited ov (Block i c # bs) =
      (if ov i \<noteq> None \<and> be_hidden (the (ov i)) then edited ov bs else Block i ?laid # edited ov bs)"
    using Leaf.hyps by (simp add: is_leaf_def Let_def split: content.splits)
  show ?case
  proof (cases "x \<in> set (walk (edited ov bs))")
    case True
    then show ?thesis using Leaf.IH [OF _ True] Leaf.prems(1) w(1) by auto
  next
    case False
    then have x: "x = Block i ?laid" and h: "\<forall>e. ov i = Some e \<longrightarrow> \<not> be_hidden e"
      using Leaf.prems(2) unfolding ed by (auto simp add: w(2) simp del: walk.simps edited.simps split: if_splits)
    have "CARD_BLOCK (Block i c) \<and> set kept \<subseteq> set (block_cards (Block i c))"
      if "ov i = Some e" "be_cards e = Some kept" for e kept
      using Leaf.prems(1) that by (simp add: w(1))
    then have "set (block_cards x) \<subseteq> set (block_cards (Block i c))"
      unfolding x using override_block_cards [of i c] by (auto split: option.splits)
    then show ?thesis using h by (simp add: w(1) x)
  qed
next
  case (Group i gs bs)
  let ?gs = "map (\<lambda>g. (fst g, edited ov (snd g))) gs"
  have laid: "override_cards kept (TabsBlock ?gs) = TabsBlock ?gs" for kept by (simp add: override_cards_def)
  have ed: "edited ov (Block i (TabsBlock gs) # bs) =
      (if ov i \<noteq> None \<and> be_hidden (the (ov i)) then edited ov bs else Block i (TabsBlock ?gs) # edited ov bs)"
    by (simp add: Let_def laid split: option.splits)
  consider "x \<in> set (walk (edited ov bs))" | "x = Block i (TabsBlock ?gs)" "\<forall>e. ov i = Some e \<longrightarrow> \<not> be_hidden e"
    | g where "g \<in> set gs" "x \<in> set (walk (edited ov (snd g)))"
    using Group.prems(2) unfolding ed by (cases "ov i") (auto simp del: edited.simps split: if_splits)
  then show ?case
  proof cases
    case 1
    then show ?thesis using Group.IH(2) [OF _ 1] Group.prems(1) by auto
  next
    case 2
    then show ?thesis by (auto simp: block_cards_def)
  next
    case 3
    have "set (walk (snd g)) \<subseteq> set (walk (Block i (TabsBlock gs) # bs))" using 3(1) by auto
    then show ?thesis using Group.IH(1) [OF 3(1) _ 3(2)] Group.prems(1) by blast
  qed
qed simp

lemma edited_items_cards:
  assumes "\<And>k e. ov (t, i + k) = Some e \<Longrightarrow> k < length its \<Longrightarrow> set (ie_cards e) \<subseteq> set (it_cards (its ! k))"
    "it \<in> set (edited_items ov t i its)"
  shows "\<exists>it' \<in> set its. set (it_cards it) \<subseteq> set (it_cards it')"
  using assms
proof (induction its arbitrary: i)
  case (Cons a its)
  have tail: ?case if "it \<in> set (edited_items ov t (i + 1) its)"
  proof -
    have "\<exists>it' \<in> set its. set (it_cards it) \<subseteq> set (it_cards it')"
      by (rule Cons.IH [OF _ that]) (use Cons.prems(1) [of "Suc _"] in simp)
    then show ?thesis by auto
  qed
  show ?case using Cons.prems(2) Cons.prems(1) [of 0] tail by (auto split: option.splits if_splits)
qed simp

lemma edited_tabs_cards:
  assumes "\<And>k m e. ov (t + k, m) = Some e \<Longrightarrow> k < length tabs \<Longrightarrow> m < length (tb_items (tabs ! k)) \<Longrightarrow>
      set (ie_cards e) \<subseteq> set (it_cards (tb_items (tabs ! k) ! m))"
    "tab \<in> set (edited_tabs ov t tabs)" "it \<in> set (tb_items tab)"
  shows "\<exists>tab' \<in> set tabs. \<exists>it' \<in> set (tb_items tab'). set (it_cards it) \<subseteq> set (it_cards it')"
  using assms
proof (induction tabs arbitrary: t)
  case (Cons a tabs)
  show ?case
  proof (cases "tab \<in> set (edited_tabs ov (t + 1) tabs)")
    case True
    have "\<exists>tab' \<in> set tabs. \<exists>it' \<in> set (tb_items tab'). set (it_cards it) \<subseteq> set (it_cards it')"
      by (rule Cons.IH [OF _ True Cons.prems(3)]) (use Cons.prems(1) [of "Suc _"] in simp)
    then show ?thesis by auto
  next
    case False
    then have "it \<in> set (edited_items ov t 0 (tb_items a))" using Cons.prems(2,3) by auto
    then have "\<exists>it' \<in> set (tb_items a). set (it_cards it) \<subseteq> set (it_cards it')"
      by (rule edited_items_cards [rotated]) (use Cons.prems(1) [of 0] in simp)
    then show ?thesis by auto
  qed
qed simp

lemma validate_editsD:
  assumes "validate_edits v d = Inr e"
  shows "(\<exists>bs es. dc_body d = BlocksBody bs \<and> ed_entries e = BlockEdits es \<and> good_block_edits (walk_blocks d) es) \<or>
    (\<exists>ts es. dc_body d = TabsBody ts \<and> ed_entries e = ItemEdits es \<and> good_item_edits ts es)"
  using assms unfolding validate_edits_def
  by (cases "dc_body d") (auto simp: and_then_Inr dest: block_edits_good item_edits_good)

lemma block_override_good:
  assumes "good_block_edits published es" "distinct (map b_id published)" "b \<in> set published"
    "overrides_of be_id es (b_id b) = Some e" "be_cards e = Some kept"
  shows "CARD_BLOCK b \<and> set kept \<subseteq> set (block_cards b)"
proof -
  have e: "e \<in> set es" "be_id e = b_id b" using overrides_ofD [OF assms(4)] by auto
  then obtain b' where b': "b' \<in> set published" "b_id b' = be_id e" "CARD_BLOCK b'" "set kept \<subseteq> set (block_cards b')"
    using assms(1,5) unfolding good_block_edits_def by metis
  then have "b' = b" using assms(2,3) e(2) by (auto simp: distinct_map inj_on_def)
  then show ?thesis using b' by simp
qed

lemma shown_document_cards:
  assumes "validate_edits v d = Inr e" "distinct (map b_id (walk_blocks d))"
  shows "\<exists>d'. shown_document d (Some e) = Inr d' \<and> dc_title d' = ed_title e \<and> set (shown_cards d') \<subseteq> set (shown_cards d) \<and>
    (\<forall>es h. ed_entries e = BlockEdits es \<longrightarrow> h \<in> set es \<longrightarrow> be_hidden h \<longrightarrow> be_id h \<notin> b_id ` set (walk_blocks d'))"
proof -
  consider bs es where "dc_body d = BlocksBody bs" "ed_entries e = BlockEdits es" "good_block_edits (walk_blocks d) es"
    | ts es where "dc_body d = TabsBody ts" "ed_entries e = ItemEdits es" "good_item_edits ts es"
    using validate_editsD [OF assms(1)] by blast
  then show ?thesis
  proof cases
    case 1
    let ?ov = "overrides_of be_id es"
    have w: "walk_blocks d = walk bs" using 1 by (simp add: walk_blocks_def)
    have g: "\<forall>b \<in> set (walk bs). \<forall>e kept. ?ov (b_id b) = Some e \<longrightarrow> be_cards e = Some kept \<longrightarrow>
        CARD_BLOCK b \<and> set kept \<subseteq> set (block_cards b)"
      using block_override_good [OF 1(3) assms(2)] w by metis
    have c: "set (block_cards x) \<subseteq> (\<Union>b \<in> set (walk bs). set (block_cards b))"
      and h: "?ov (b_id x) = Some f \<Longrightarrow> \<not> be_hidden f" if "x \<in> set (walk (edited ?ov bs))" for x f
      using edited_walk [OF g that] by force+
    have "be_id f \<notin> b_id ` set (walk (edited ?ov bs))" if "f \<in> set es" "be_hidden f" for f
    proof -
      have "?ov (be_id f) = Some f" using overrides_of_mem [of be_id es f] 1(3) that(1) by (simp add: good_block_edits_def)
      then show ?thesis using h that(2) by (metis imageE)
    qed
    moreover have "(\<Union>x \<in> set (walk (edited ?ov bs)). set (block_cards x)) \<subseteq> (\<Union>b \<in> set (walk bs). set (block_cards b))"
      using c by blast
    ultimately show ?thesis using 1 by (simp add: shown_document_def shown_cards_def walk_blocks_def)
  next
    case 2
    let ?ov = "overrides_of (\<lambda>e. (ie_tab e, ie_item e)) es"
    have g: "set (ie_cards f) \<subseteq> set (it_cards (tb_items (ts ! k) ! m))" if "?ov (0 + k, m) = Some f" for k m f
      using overrides_ofD [OF that] 2(3) by (auto simp: good_item_edits_def)
    have "\<exists>t' \<in> set ts. \<exists>it' \<in> set (tb_items t'). set (it_cards it) \<subseteq> set (it_cards it')"
      if "t \<in> set (edited_tabs ?ov 0 ts)" "it \<in> set (tb_items t)" for t it
      using edited_tabs_cards [of ?ov 0 ts t it] g that by auto
    then show ?thesis using 2 by (fastforce simp: shown_document_def shown_cards_def)
  qed
qed

text \<open>
  C38. What a reader sees of an edited report. Edits that \<open>validate_edits\<close> accepts for a published
  report always apply. The reader gets the edited title and never a card that was not published;
  every card that is shown has its call, and no call is sent that no shown card names, in the
  published order; a block the edits hide is not among the blocks shown.
\<close>

theorem readers_see_valid_cards:
  assumes "validate_publish_body body = Inr r" "validate_edits edit_body (pr_document r) = Inr e"
  shows "\<exists>d cs. apply_edits (pr_document r) (pr_calls r) (Some e) = Inr (d, cs) \<and> dc_title d = ed_title e \<and>
    set (shown_cards d) \<subseteq> set (shown_cards (pr_document r)) \<and>
    cl_id ` set cs = set (shown_cards d) \<and>
    cs = filter (\<lambda>c. c \<in> set cs) (pr_calls r) \<and> distinct (map cl_id cs) \<and>
    (\<forall>es h. ed_entries e = BlockEdits es \<longrightarrow> h \<in> set es \<longrightarrow> be_hidden h \<longrightarrow> be_id h \<notin> b_id ` set (walk_blocks d))"
proof -
  note p = publishD [OF assms(1)]
  note s = document_sound [OF p(3)]
  have "distinct (map b_id (walk_blocks (pr_document r)))" using s(2) by (simp add: room_def)
  from shown_document_cards [OF assms(2) this] obtain d where d: "shown_document (pr_document r) (Some e) = Inr d"
    "dc_title d = ed_title e" "set (shown_cards d) \<subseteq> set (shown_cards (pr_document r))"
    "\<forall>es h. ed_entries e = BlockEdits es \<longrightarrow> h \<in> set es \<longrightarrow> be_hidden h \<longrightarrow> be_id h \<notin> b_id ` set (walk_blocks d)"
    by blast
  let ?cs = "filter (\<lambda>c. cl_id c \<in> set (shown_cards d)) (pr_calls r)"
  have "cl_id ` set ?cs = set (shown_cards d)" using d(3) s(1) by auto
  moreover have "?cs = filter (\<lambda>c. c \<in> set ?cs) (pr_calls r)" by (auto intro: filter_cong)
  moreover have "distinct (map cl_id ?cs)" using calls_sound(1) [OF p(2)] by (rule distinct_map_filter)
  ultimately show ?thesis using d by (auto simp: apply_edits_def)
qed

definition demo_edits :: json where
  "demo_edits = JObj [(''title'', JStr ''Tonight, short''), (''blocks'', JList
     [JObj [(''id'', JStr ''row''), (''hidden'', JBool False), (''cards'', JList [JStr ''c2''])],
      JObj [(''id'', JStr ''one''), (''hidden'', JBool True)]])]"

lemma demo_edits_ok: "is_ok (validate_edits demo_edits (pr_document demo_report))"
  by code_simp

theorem readers_see_valid_cards_witness:
  "\<exists>e d cs. validate_edits demo_edits (pr_document demo_report) = Inr e \<and>
     apply_edits (pr_document demo_report) (pr_calls demo_report) (Some e) = Inr (d, cs) \<and>
     cl_id ` set cs = set (shown_cards d)"
proof -
  obtain e where e: "validate_edits demo_edits (pr_document demo_report) = Inr e"
    using demo_edits_ok by (auto simp: is_ok_iff)
  show ?thesis using readers_see_valid_cards [OF demo_report_Inr e] e by blast
qed

section \<open>Refusals\<close>

text \<open>
  The fields a refusal may name: a top-level name of the schema, then keys of the schema and list
  indexes. Text of the caller has no way into such a path.
\<close>

definition SCHEMA_ROOTS :: "string list" where
  "SCHEMA_ROOTS = [''body'', ''notes'', ''calls'', ''cards'', ''report'', ''show_author'', ''listed'', ''origin'', ''title'',
     ''report.title'', ''report.date'', ''report.opening'', ''report.skill'', ''report.skill.name'', ''report.skill.url'',
     ''report.footnote'', ''report.tabs'', ''report.blocks'']"

definition SCHEMA_KEYS :: "string list" where
  "SCHEMA_KEYS = [''id'', ''type'', ''tool'', ''args'', ''structured'', ''meta'', ''card'', ''layout'', ''blocks'', ''tabs'', ''text'',
     ''lede'', ''items'', ''ordered'', ''tone'', ''columns'', ''rows''] @ ITEM_KEYS"

inductive schema_path :: "string \<Rightarrow> bool" where
  root: "f \<in> set SCHEMA_ROOTS \<Longrightarrow> schema_path f"
| key: "schema_path f \<Longrightarrow> k \<in> set SCHEMA_KEYS \<Longrightarrow> schema_path (at_key f k)"
| index: "schema_path f \<Longrightarrow> schema_path (at_index f i)"

definition refusal_shape :: "report_error \<Rightarrow> bool" where
  "refusal_shape e = (case e of
     InvalidInput f _ \<Rightarrow> schema_path f
   | FlatBody code \<Rightarrow> code \<in> {''notes_too_long'', ''notes_links'', ''invalid_edits''})"

definition shaped :: "'a checked \<Rightarrow> bool" where
  "shaped m \<longleftrightarrow> (case m of Inl e \<Rightarrow> refusal_shape e | Inr _ \<Rightarrow> True)"

lemma shaped_Inr [simp]: "shaped (Inr x)"
  by (simp add: shaped_def)

lemma shaped_refuse [simp]: "schema_path f \<Longrightarrow> shaped (refuse f p)"
  by (simp add: shaped_def refuse_def refusal_shape_def)

lemma shaped_flat [simp]: "shaped (Inl notes_too_long)" "shaped (Inl notes_links)" "shaped (Inl invalid_edits)"
  by (simp_all add: shaped_def refusal_shape_def notes_too_long_def notes_links_def invalid_edits_def)

lemma shaped_and_then [intro!]:
  assumes "shaped p" "\<And>x. p = Inr x \<Longrightarrow> shaped (q x)" shows "shaped (and_then p q)"
  using assms by (cases p) (auto simp: shaped_def)

lemma shaped_if [intro!]:
  "(b \<Longrightarrow> shaped p) \<Longrightarrow> (\<not> b \<Longrightarrow> shaped q) \<Longrightarrow> shaped (if b then p else q)"
  by simp

lemma shaped_enum_res [intro!]: "(\<And>i x. shaped (f i x)) \<Longrightarrow> shaped (enum_res f i xs)"
  by (induction xs arbitrary: i) auto

lemma shaped_enum_state [intro!]: "(\<And>i x s. shaped (f i x s)) \<Longrightarrow> shaped (enum_state f i xs s)"
proof (induction xs arbitrary: i s)
  case (Cons x xs)
  then show ?case by (auto split: prod.splits intro!: shaped_and_then)
qed simp

lemma shaped_fold_res [intro!]: "(\<And>x s. shaped (f x s)) \<Longrightarrow> shaped (fold_res f xs s)"
  by (induction xs arbitrary: s) auto

lemma shaped_map_res [intro!]: "(\<And>x. shaped (f x)) \<Longrightarrow> shaped (map_res f xs)"
  by (induction xs) auto

lemma key_path [simp]:
  assumes "schema_path f"
  shows "schema_path (at_index f i)" "k \<in> set SCHEMA_KEYS \<Longrightarrow> schema_path (at_key f k)"
  using assms by (auto intro: schema_path.intros)

lemma root_path [simp]: "f \<in> set SCHEMA_ROOTS \<Longrightarrow> schema_path f"
  by (rule schema_path.root)

lemma shaped_values [simp]:
  assumes "schema_path f"
  shows "shaped (object_check v f allowed)" "shaped (text_check v f m)" "shaped (optional_text v k f m)"
    "shaped (list_check v f i n)" "shaped (pair_check v f)" "shaped (url_check v f)" "shaped (date_check v f)"
    "shaped (flag_check v k f)" "shaped (choice_check v f names)" "shaped (optional_choice v k f names)"
    "shaped (id_check v f shape p)" "shaped (mapping_check v f)" "shaped (bool_check v f)"
    "shaped (texts_check v f i n m)" "shaped (card_list v f ids i n)"
  using assms
  by (auto simp: object_check_def text_check_def optional_text_def list_check_def pair_check_def url_check_def
      date_check_def flag_check_def choice_check_def optional_choice_def id_check_def mapping_check_def
      bool_check_def texts_check_def card_list_def Let_def split: json.splits option.splits list.splits)

lemma schema_keys [simp]:
  "''id'' \<in> set SCHEMA_KEYS"
  "''type'' \<in> set SCHEMA_KEYS"
  "''tool'' \<in> set SCHEMA_KEYS"
  "''args'' \<in> set SCHEMA_KEYS"
  "''structured'' \<in> set SCHEMA_KEYS"
  "''meta'' \<in> set SCHEMA_KEYS"
  "''card'' \<in> set SCHEMA_KEYS"
  "''layout'' \<in> set SCHEMA_KEYS"
  "''blocks'' \<in> set SCHEMA_KEYS"
  "''tabs'' \<in> set SCHEMA_KEYS"
  "''text'' \<in> set SCHEMA_KEYS"
  "''lede'' \<in> set SCHEMA_KEYS"
  "''items'' \<in> set SCHEMA_KEYS"
  "''ordered'' \<in> set SCHEMA_KEYS"
  "''tone'' \<in> set SCHEMA_KEYS"
  "''columns'' \<in> set SCHEMA_KEYS"
  "''rows'' \<in> set SCHEMA_KEYS"
  "''title'' \<in> set SCHEMA_KEYS"
  "''tag'' \<in> set SCHEMA_KEYS"
  "''subtitle'' \<in> set SCHEMA_KEYS"
  "''key'' \<in> set SCHEMA_KEYS"
  "''body'' \<in> set SCHEMA_KEYS"
  "''bullets'' \<in> set SCHEMA_KEYS"
  "''watch'' \<in> set SCHEMA_KEYS"
  "''cards'' \<in> set SCHEMA_KEYS"
  "''sources'' \<in> set SCHEMA_KEYS"
  by (simp_all add: SCHEMA_KEYS_def ITEM_KEYS_def)

lemma shaped_source [simp]: "schema_path f \<Longrightarrow> shaped (source_entry f i v)"
  by (auto simp: source_entry_def)

lemma shaped_bullet [simp]: "schema_path f \<Longrightarrow> shaped (bullet_check f i v)"
  by (auto simp: bullet_check_def)

lemma shaped_sources [simp]: "schema_path f \<Longrightarrow> shaped (sources_check v f i)"
  by (auto simp: sources_check_def)

lemma shaped_item [simp]: "schema_path f \<Longrightarrow> shaped (item_check ids f v)"
  unfolding item_check_def by (intro shaped_and_then shaped_enum_res; simp)

lemma shaped_items [simp]: "schema_path f \<Longrightarrow> shaped (items_check ids f v)"
  by (auto simp: items_check_def)

lemma shaped_tab [simp]: "schema_path f \<Longrightarrow> shaped (tab_check ids f v)"
  by (auto simp: tab_check_def)

lemma shaped_row [simp]: "schema_path f \<Longrightarrow> shaped (row_check n f v)"
  by (auto simp: row_check_def split: json.splits)

lemma shaped_table: "schema_path f \<Longrightarrow> shaped (table_check f v)"
  unfolding table_check_def by (intro shaped_and_then shaped_enum_res; simp)

lemma shaped_leaf [simp]:
  assumes "schema_path f" shows "shaped (leaf_check ids kind f v)"
proof -
  have "shaped (card_check ids f v)" "shaped (spot_check ids f v)"
    using assms by (auto simp: card_check_def spot_check_def split: json.splits)
  then show ?thesis using assms shaped_table [of f v]
    unfolding leaf_check_def by (intro shaped_if shaped_and_then; simp)
qed

lemma shaped_head [simp]: "schema_path f \<Longrightarrow> shaped (block_head nested f v ids)"
  by (auto simp: block_head_def Let_def SCHEMA_ROOTS_def)

lemma shaped_nested [simp]: "schema_path f \<Longrightarrow> shaped (nested_block ids f v s)"
  by (auto simp: nested_block_def)

lemma shaped_group [simp]: "schema_path f \<Longrightarrow> shaped (group_tab ids f v s)"
  by (auto simp: group_tab_def)

lemma shaped_block [simp]: "schema_path f \<Longrightarrow> shaped (block_check ids f v s)"
  by (auto simp: block_check_def)

lemma schema_roots [simp]:
  "schema_path ''body''" "schema_path ''notes''" "schema_path ''calls''" "schema_path ''cards''" "schema_path ''report''"
  "schema_path ''show_author''" "schema_path ''listed''" "schema_path ''origin''" "schema_path ''title''"
  "schema_path ''report.title''" "schema_path ''report.date''" "schema_path ''report.opening''" "schema_path ''report.skill''"
  "schema_path ''report.skill.name''" "schema_path ''report.skill.url''" "schema_path ''report.footnote''"
  "schema_path ''report.tabs''" "schema_path ''report.blocks''"
  by (simp_all add: SCHEMA_ROOTS_def)

lemma shaped_document [simp]: "shaped (document_check v ids)"
proof -
  have "shaped (body_check ids s)" "shaped (skill_check s)" "shaped (optional_date s)" for s
    by (auto simp: body_check_def skill_check_def optional_date_def)
  then show ?thesis by (auto simp: document_check_def)
qed

lemma shaped_calls [simp]: "shaped (calls_check v)"
proof -
  have "shaped (call_check i e s)" for i e s
    by (auto simp: call_check_def Let_def)
  then show ?thesis by (auto simp: calls_check_def)
qed

lemma shaped_cards [simp]: "shaped (cards_check v calls)"
proof -
  have "shaped (ensure b (InvalidInput (at_key (at_index ''calls'' i) ''card'') p))" for b i p
    by (cases b) (auto simp: shaped_def refusal_shape_def)
  then show ?thesis by (auto simp: cards_check_def card_entry_def split: json.splits)
qed

lemma shaped_notes [simp]: "shaped (validate_notes v)"
  by (auto simp: validate_notes_def split: json.splits)

lemma shaped_edit_lists [simp]: "shaped (block_edits v d)" "shaped (item_edits v tabs)"
proof -
  have c: "shaped (edit_cards w ps)" and i: "shaped (index_check w n)" for w ps n
    by (auto simp: edit_cards_def index_check_def split: json.splits option.splits)
  have "shaped (block_edit_check bs e acc)" for bs e acc
    using c by (auto simp: block_edit_check_def block_edit_of_def split: json.splits option.splits)
  then show "shaped (block_edits v d)" by (auto simp: block_edits_def split: json.splits)
  have "shaped (item_edit_check tabs e acc)" for e acc
    using c i by (auto simp: item_edit_check_def split: json.splits)
  then show "shaped (item_edits v tabs)" by (auto simp: item_edits_def split: json.splits)
qed

text \<open>
  Every refusal is one of two kinds: one of the three flat codes for notes and edits, or an
  \<open>invalid_input\<close> whose field is a path of schema keys and list indexes, never text of the caller.
  It holds of publishing and of editing, whatever the body.
\<close>

theorem refusals_name_schema_fields:
  "(case validate_publish_body body of Inl e \<Rightarrow> refusal_shape e | Inr _ \<Rightarrow> True) \<and>
   (case validate_edits edit_body d of Inl e \<Rightarrow> refusal_shape e | Inr _ \<Rightarrow> True)"
proof -
  have "shaped (origin_check v)" for v by (auto simp: origin_check_def)
  then have "shaped (validate_publish_body body)" by (auto simp: validate_publish_body_def)
  moreover have "shaped (validate_edits edit_body d)" by (auto simp: validate_edits_def split: report_body.splits)
  ultimately show ?thesis by (simp add: shaped_def)
qed

end
