(* ===== verification/Decimals.thy ===== *)
theory Decimals
  imports Calendar
begin

text \<open>
  Python's \<open>decimal.Decimal\<close> as far as the market domain uses it, and the part of
  \<open>src/app/domain/market_content.py\<close> that reads decimals off their own digits: the normalised
  numeric domain and the canonical token of a number.

  A finite decimal is a sign, a coefficient and an exponent; \<open>as_tuple\<close> gives the decimal digits of
  the coefficient, a single zero for zero.
\<close>

section \<open>Decimals\<close>

datatype Decimal = Finite bool nat int | Infinity bool | NaN

definition pow10 :: "int \<Rightarrow> rat" where "pow10 e = 10 powi e"

fun dec_value :: "Decimal \<Rightarrow> rat" where
  "dec_value (Finite s c e) = (if s then - 1 else 1) * of_nat c * pow10 e"
| "dec_value _ = 0"

definition is_finite :: "Decimal \<Rightarrow> bool" where
  "is_finite d = (case d of Finite _ _ _ \<Rightarrow> True | _ \<Rightarrow> False)"

definition digits_of :: "nat \<Rightarrow> nat list" where
  "digits_of c = map digit_value (show_nat c)"

definition NORMALIZED_DECIMAL_PLACE_LIMIT :: int where "NORMALIZED_DECIMAL_PLACE_LIMIT = 128"
definition MAX_EXACT_DIFFERENCE_SPAN :: int where
  "MAX_EXACT_DIFFERENCE_SPAN = 2 * NORMALIZED_DECIMAL_PLACE_LIMIT + 2"

datatype decimal_error = NumericDomainError string | TimeWindowDomainError string | TimeWindowPolicyError string
  | NotExact | DecimalSignal

definition decimal_places :: "nat \<Rightarrow> int \<Rightarrow> int \<times> int" where
  "decimal_places c e = (e + int (length (digits_of c)) - 1, e)"

definition normalized_decimal :: "Decimal \<Rightarrow> string \<Rightarrow> decimal_error + Decimal" where
  "normalized_decimal d field =
     (case d of
        Finite s c e \<Rightarrow>
          (let (highest, lowest) = decimal_places c e
           in if highest > NORMALIZED_DECIMAL_PLACE_LIMIT \<or> lowest < - NORMALIZED_DECIMAL_PLACE_LIMIT
              then Inl (NumericDomainError field) else Inr d)
      | _ \<Rightarrow> Inl (NumericDomainError field))"

section \<open>The canonical token\<close>

text \<open>The two loops: trailing zeroes raise the exponent, leading ones name nothing.\<close>

function drop_trailing :: "nat list \<Rightarrow> int \<Rightarrow> nat list \<times> int" where
  "drop_trailing ds e = (if ds \<noteq> [] \<and> last ds = 0 then drop_trailing (butlast ds) (e + 1) else (ds, e))"
  by pat_completeness auto

termination by (relation "measure (length \<circ> fst)") auto

declare drop_trailing.simps [simp del]

definition canonical_decimal :: "Decimal \<Rightarrow> py_exn + string" where
  "canonical_decimal d =
     (case d of
        Finite s c e \<Rightarrow>
          (let (trimmed, e') = drop_trailing (digits_of c) e;
               significant = dropWhile (\<lambda>x. x = 0) trimmed
           in if significant = [] then Inr ''0''
              else let coefficient = concat (map show_nat significant);
                       adjusted = e' + int (length coefficient) - 1
                   in Inr ((if s then ''-'' else []) @ coefficient @ ''E'' @ show_int adjusted))
      | _ \<Rightarrow> Inl ValueError)"

section \<open>Digits\<close>

lemma digit_value_char [simp]: "n < 10 \<Longrightarrow> digit_value (digit_char n) = n"
  by (simp add: digit_value_def digit_char_def)

lemma show_nat_small: "n < 10 \<Longrightarrow> show_nat n = [digit_char n]"
  by (subst show_nat.simps) simp

lemma show_nat_step: "10 \<le> n \<Longrightarrow> show_nat n = show_nat (n div 10) @ [digit_char (n mod 10)]"
  by (subst show_nat.simps) simp

lemma show_nat_digits: "list_all is_digit (show_nat n)"
proof (induction n rule: show_nat.induct)
  case (1 n)
  have d: "is_digit (digit_char k)" if "k < 10" for k using that by (simp add: is_digit_def digit_char_def)
  show ?case using 1 d by (cases "n < 10") (simp_all add: show_nat_small show_nat_step)
qed

lemma nat_of_digits_snoc: "nat_of_digits (s @ [c]) = 10 * nat_of_digits s + digit_value c"
  by (simp add: nat_of_digits_def)

lemma nat_of_digits_show [simp]: "nat_of_digits (show_nat n) = n"
proof (induction n rule: show_nat.induct)
  case (1 n)
  then show ?case
    by (cases "n < 10") (simp_all add: show_nat_small show_nat_step nat_of_digits_snoc, simp add: nat_of_digits_def)
qed

lemma show_nat_inj [simp]: "show_nat m = show_nat n \<longleftrightarrow> m = n"
  by (metis nat_of_digits_show)

lemma show_nat_nonempty [simp]: "show_nat n \<noteq> []"
  by (subst show_nat.simps) auto

lemma show_int_inj: "show_int i = show_int j \<Longrightarrow> i = j"
proof -
  have h: "hd (show_nat n) \<noteq> CHR ''-''" for n
  proof -
    have "is_digit (hd (show_nat n))" using show_nat_digits [of n] by (cases "show_nat n") auto
    then show ?thesis by (auto simp: is_digit_def)
  qed
  have n: "show_nat m \<noteq> CHR ''-'' # show_nat k" for m k using h [of m] by (metis list.sel(1))
  assume "show_int i = show_int j"
  then show ?thesis using n by (auto simp: show_int_def split: if_splits) (metis n)+
qed

lemma digits_of_small: "c < 10 \<Longrightarrow> digits_of c = [c]"
  by (simp add: digits_of_def show_nat_small)

lemma digits_of_step: "10 \<le> c \<Longrightarrow> digits_of c = digits_of (c div 10) @ [c mod 10]"
  by (simp add: digits_of_def show_nat_step)

lemma digits_of_head: "0 < c \<Longrightarrow> digits_of c \<noteq> [] \<and> hd (digits_of c) \<noteq> 0"
proof (induction c rule: less_induct)
  case (less c)
  show ?case
  proof (cases "c < 10")
    case False
    then have "digits_of (c div 10) \<noteq> [] \<and> hd (digits_of (c div 10)) \<noteq> 0" using less by auto
    then show ?thesis using False by (simp add: digits_of_step)
  qed (use less.prems in \<open>simp add: digits_of_small\<close>)
qed

lemma show_digits: "concat (map show_nat (digits_of c)) = show_nat c"
proof (induction c rule: less_induct)
  case (less c)
  show ?case
  proof (cases "c < 10")
    case False
    then show ?thesis using less [of "c div 10"] by (simp add: digits_of_step show_nat_step show_nat_small)
  qed (simp add: digits_of_small)
qed

lemma pow10_step: "pow10 (e + 1) = 10 * pow10 e"
  by (simp add: pow10_def power_int_add)

lemma drop_trailing_value:
  assumes "0 < c"
  shows "\<exists>c' e'. drop_trailing (digits_of c) e = (digits_of c', e') \<and> 0 < c' \<and> \<not> 10 dvd c' \<and>
    (of_nat c' * pow10 e' :: rat) = of_nat c * pow10 e"
  using assms
proof (induction c arbitrary: e rule: less_induct)
  case (less c)
  show ?case
  proof (cases "10 dvd c")
    case True
    then have c: "10 \<le> c" "c mod 10 = 0" "c = 10 * (c div 10)" using less.prems by auto
    then have "0 < c div 10" "c div 10 < c" by auto
    from less.IH [OF this(2,1), of "e + 1"] obtain c' e' where h: "drop_trailing (digits_of (c div 10)) (e + 1) = (digits_of c', e')"
      "0 < c'" "\<not> 10 dvd c'" "(of_nat c' * pow10 e' :: rat) = of_nat (c div 10) * pow10 (e + 1)" by blast
    have "drop_trailing (digits_of c) e = drop_trailing (digits_of (c div 10)) (e + 1)"
      using c by (subst drop_trailing.simps) (simp add: digits_of_step)
    moreover have "(of_nat (c div 10) * pow10 (e + 1) :: rat) = of_nat c * pow10 e"
      by (subst (2) c(3)) (simp add: pow10_step)
    ultimately show ?thesis using h by metis
  next
    case False
    then have "c mod 10 \<noteq> 0" by (simp add: mod_eq_0_iff_dvd)
    then have "last (digits_of c) \<noteq> 0" by (cases "c < 10") (simp_all add: digits_of_small digits_of_step)
    then have "drop_trailing (digits_of c) e = (digits_of c, e)" by (subst drop_trailing.simps) simp
    then show ?thesis using False less.prems by blast
  qed
qed

lemma canonical_zero: "canonical_decimal (Finite s 0 e) = Inr ''0''"
proof -
  have "drop_trailing (digits_of 0) e = ([], e + 1)"
    by (simp add: digits_of_small drop_trailing.simps [of "[0]"] drop_trailing.simps [of "[]"])
  then show ?thesis by (simp add: canonical_decimal_def)
qed

lemma canonical_nonzero:
  assumes "0 < c"
  obtains c' e' where "0 < c'" "\<not> 10 dvd c'" "(of_nat c' * pow10 e' :: rat) = of_nat c * pow10 e"
    "canonical_decimal (Finite s c e) =
       Inr ((if s then ''-'' else []) @ show_nat c' @ ''E'' @ show_int (e' + int (length (show_nat c')) - 1))"
proof -
  obtain c' e' where h: "drop_trailing (digits_of c) e = (digits_of c', e')" "0 < c'" "\<not> 10 dvd c'"
    "(of_nat c' * pow10 e' :: rat) = of_nat c * pow10 e"
    using drop_trailing_value [OF assms] by blast
  have "dropWhile (\<lambda>x. x = 0) (digits_of c') = digits_of c'" "digits_of c' \<noteq> []"
    using digits_of_head [OF h(2)] by (auto simp: dropWhile_eq_self_iff)
  moreover have "\<exists>x \<in> set (digits_of c'). 0 < x"
    using digits_of_head [OF h(2)] hd_in_set by blast
  ultimately have "canonical_decimal (Finite s c e) =
      Inr ((if s then ''-'' else []) @ show_nat c' @ ''E'' @ show_int (e' + int (length (show_nat c')) - 1))"
    by (auto simp add: canonical_decimal_def h(1) show_digits Let_def)
  then show thesis using that h by blast
qed

lemma pow10_pos [simp]: "0 < pow10 e" "pow10 e \<noteq> 0"
  by (simp_all add: pow10_def)

lemma normal_unique_le:
  assumes "(of_nat a * pow10 e :: rat) = of_nat b * pow10 f" "e \<le> f" "\<not> 10 dvd a"
  shows "a = b \<and> e = f"
proof -
  define k where "k = nat (f - e)"
  have "pow10 f = 10 ^ k * pow10 e"
    using assms(2) by (simp add: pow10_def k_def power_int_add [symmetric] power_int_def [of 10 "int _"] flip: power_int_of_nat)
  then have "(of_nat a :: rat) = of_nat b * 10 ^ k" using assms(1) by simp
  then have "(of_nat a :: rat) = of_nat (b * 10 ^ k)" by simp
  then have ab: "a = b * 10 ^ k" by (simp only: of_nat_eq_iff)
  have "k = 0"
  proof (rule ccontr)
    assume "k \<noteq> 0"
    then have "10 dvd a" using ab by (simp add: dvd_power)
    then show False using assms(3) by simp
  qed
  then show ?thesis using ab assms(2) by (simp add: k_def)
qed

lemma normal_unique:
  assumes "(of_nat a * pow10 e :: rat) = of_nat b * pow10 f" "\<not> 10 dvd a" "\<not> 10 dvd b"
  shows "a = b \<and> e = f"
  using normal_unique_le [OF assms(1)] normal_unique_le [OF assms(1) [symmetric]] assms(2,3) by (metis linear)

lemma token_split:
  assumes "show_nat a @ ''E'' @ x = show_nat b @ ''E'' @ y" shows "a = b \<and> x = y"
proof -
  have no: "CHR ''E'' \<notin> set (show_nat n)" for n
    using show_nat_digits [of n] by (auto simp: list_all_iff is_digit_def)
  have "takeWhile (\<lambda>c. c \<noteq> CHR ''E'') (show_nat a @ ''E'' @ x) = show_nat a" for a x
    using no [of a] by (subst takeWhile_append2) auto
  then have "show_nat a = show_nat b" using assms by metis
  then show ?thesis using assms by simp
qed

lemma canonical_sign:
  assumes "(if s then ''-'' else []) @ show_nat a @ x = (if s' then ''-'' else []) @ show_nat b @ y"
  shows "s = s' \<and> show_nat a @ x = show_nat b @ y"
proof -
  have h: "hd (show_nat n @ z) \<noteq> CHR ''-''" for n z
    using show_nat_digits [of n] by (cases "show_nat n") (auto simp: is_digit_def)
  then have "show_nat n @ z \<noteq> CHR ''-'' # z'" for n z z' by (metis list.sel(1))
  then show ?thesis using assms by (cases s; cases s') (auto, metis+)
qed

lemma token_nonzero:
  assumes "0 < c" shows "canonical_decimal (Finite s c e) \<noteq> Inr ''0''"
proof
  assume z: "canonical_decimal (Finite s c e) = Inr ''0''"
  obtain d f where "canonical_decimal (Finite s c e) =
      Inr ((if s then ''-'' else []) @ show_nat d @ ''E'' @ show_int (f + int (length (show_nat d)) - 1))"
    using canonical_nonzero [OF assms] by metis
  then have "CHR ''E'' \<in> set ''0''" using z by (metis Inr_inject in_set_conv_decomp append.assoc append_Cons)
  then show False by simp
qed

lemma canonical_token_exact:
  "canonical_decimal (Finite s c e) = canonical_decimal (Finite s' c' e') \<longleftrightarrow>
     dec_value (Finite s c e) = dec_value (Finite s' c' e')"
proof (cases "c = 0 \<or> c' = 0")
  case True
  then consider "c = 0" "c' = 0" | "c = 0" "0 < c'" | "0 < c" "c' = 0" by blast
  then show ?thesis
  proof cases
    case 1
    then show ?thesis by (simp add: canonical_zero)
  next
    case 2
    then show ?thesis using token_nonzero [OF 2(2), of s' e'] by (simp add: canonical_zero eq_commute [of "Inr _"])
  next
    case 3
    then show ?thesis using token_nonzero [OF 3(1), of s e] by (simp add: canonical_zero)
  qed
next
  case False
  obtain a f where a: "0 < a" "\<not> 10 dvd a" "(of_nat a * pow10 f :: rat) = of_nat c * pow10 e"
    "canonical_decimal (Finite s c e) =
       Inr ((if s then ''-'' else []) @ show_nat a @ ''E'' @ show_int (f + int (length (show_nat a)) - 1))"
    using canonical_nonzero [of c] False by (metis gr0I)
  obtain b g where b: "0 < b" "\<not> 10 dvd b" "(of_nat b * pow10 g :: rat) = of_nat c' * pow10 e'"
    "canonical_decimal (Finite s' c' e') =
       Inr ((if s' then ''-'' else []) @ show_nat b @ ''E'' @ show_int (g + int (length (show_nat b)) - 1))"
    using canonical_nonzero [of c'] False by (metis gr0I)
  have v: "dec_value (Finite s c e) = (if s then - 1 else 1) * (of_nat a * pow10 f)"
    "dec_value (Finite s' c' e') = (if s' then - 1 else 1) * (of_nat b * pow10 g)" using a b by simp_all
  have p: "0 < (of_nat a * pow10 f :: rat)" "0 < (of_nat b * pow10 g :: rat)" using a(1) b(1) by simp_all
  show ?thesis
  proof
    assume "canonical_decimal (Finite s c e) = canonical_decimal (Finite s' c' e')"
    then have t: "(if s then ''-'' else []) @ show_nat a @ ''E'' @ show_int (f + int (length (show_nat a)) - 1)
        = (if s' then ''-'' else []) @ show_nat b @ ''E'' @ show_int (g + int (length (show_nat b)) - 1)"
      unfolding a(4) b(4) by (rule Inr_inject)
    note u = canonical_sign [OF t]
    note w = token_split [OF u [THEN conjunct2]]
    then have "s = s' \<and> a = b \<and> f = g" using u show_int_inj [OF w [THEN conjunct2]] by simp
    then show "dec_value (Finite s c e) = dec_value (Finite s' c' e')" using v by (simp only: )
  next
    assume "dec_value (Finite s c e) = dec_value (Finite s' c' e')"
    then have "s = s'" "of_nat a * pow10 f = (of_nat b * pow10 g :: rat)" using v p by (auto split: if_splits)
    then show "canonical_decimal (Finite s c e) = canonical_decimal (Finite s' c' e')"
      using normal_unique [of a f b g] a b by simp
  qed
qed

text \<open>
  The canonical token is exact: two finite decimals have one token if and only if they are the
  same number, whatever scale or sign of zero each was written with.
\<close>

theorem canonical_decimal_exact:
  "canonical_decimal (Finite s c e) = canonical_decimal (Finite s' c' e') \<longleftrightarrow>
     dec_value (Finite s c e) = dec_value (Finite s' c' e')"
  by (rule canonical_token_exact)

end
