(* ===== verification/Market_Content.thy ===== *)
theory Market_Content
  imports Decimals "HOL-Library.Multiset" "HOL-Library.Sublist"
begin

text \<open>
  \<open>src/app/domain/market_content.py\<close>: the canonical content of a normalised provider market, read
  from the attributes of the contract in \<open>src/app/providers/dfs.py\<close>.

  A fact is a value of one of the types \<open>encode_canonical\<close> distinguishes. An enum member is its
  class name and its value; a timestamp is aware (an instant, in UTC) or naive.
\<close>

section \<open>Canonical encoding\<close>

datatype datetime = Naive | Aware instant

datatype fact =
    FNone
  | FBool bool
  | FEnum string string
  | FDecimal Decimal
  | FInt int
  | FStr string
  | FTime datetime
  | FSeq "fact list"
  | FOther string

text \<open>\<open>datetime.isoformat\<close> of an aware timestamp in UTC.\<close>

definition isoformat_utc :: "instant \<Rightarrow> string" where
  "isoformat_utc t = second_text (second_of t) @ (if micro_of t = 0 then [] else ''.'' @ padded 6 (micro_of t)) @ ''+00:00''"

definition aware_utc :: "datetime \<Rightarrow> py_exn + instant" where
  "aware_utc v = (case v of Aware t \<Rightarrow> Inr t | Naive \<Rightarrow> Inl ValueError)"

definition framed :: "string \<Rightarrow> string \<Rightarrow> nat list" where
  "framed tag payload_text =
     (let payload = utf8 payload_text in utf8 (tag @ '':'' @ show_nat (length payload) @ '':'') @ payload)"

fun encode_canonical :: "fact \<Rightarrow> py_exn + nat list" where
  "encode_canonical FNone = Inr (utf8 ''n:0:'')"
| "encode_canonical (FBool b) = Inr (framed ''b'' (if b then ''1'' else ''0''))"
| "encode_canonical (FEnum name v) = Inr (framed ''e'' (name @ ''='' @ v))"
| "encode_canonical (FDecimal d) = and_then (canonical_decimal d) (\<lambda>s. Inr (framed ''d'' s))"
| "encode_canonical (FInt i) = Inr (framed ''i'' (show_int i))"
| "encode_canonical (FStr s) = Inr (framed ''s'' s)"
| "encode_canonical (FTime t) = and_then (aware_utc t) (\<lambda>u. Inr (framed ''t'' (isoformat_utc u)))"
| "encode_canonical (FSeq xs) =
     and_then (map_res encode_canonical xs) (\<lambda>codes.
       let body = concat codes
       in Inr (utf8 (''q:'' @ show_nat (length xs) @ '':'' @ show_nat (length body) @ '':'') @ body))"
| "encode_canonical (FOther type_name) = Inl ValueError"

section \<open>Markets\<close>

record TeamEvidence =
  te_provider_id :: "string option"
  te_canonical_id :: "int option"
  te_name :: "string option"
  te_abbreviation :: "string option"

record AthleteEvidence =
  at_provider_id :: "string option"
  at_canonical_id :: "int option"
  at_name :: "string option"
  at_team :: "TeamEvidence option"

record EventEvidence =
  ev_provider_id :: "string option"
  ev_canonical_id :: "string option"
  ev_label :: "string option"
  ev_starts_at :: "datetime option"
  ev_ends_at :: "datetime option"
  ev_updated_at :: "datetime option"
  ev_status_label :: "string option"
  ev_home_team :: "TeamEvidence option"
  ev_away_team :: "TeamEvidence option"

record StatisticEvidence =
  se_provider_id :: "string option"
  se_canonical_id :: "string option"
  se_label :: "string option"
  se_components :: "string list"

record NamedEvidence =
  ne_provider_id :: "string option"
  ne_canonical_id :: "string option"
  ne_label :: "string option"

record CompetitionEvidence =
  ce_provider_id :: "string option"
  ce_canonical_id :: "string option"
  ce_label :: "string option"
  ce_sport :: "NamedEvidence option"

record AppearanceEvidence =
  ap_provider_id :: "string option"
  ap_appearance_type :: "string option"
  ap_label :: "string option"

record MarketThreshold =
  th_value :: Decimal
  th_unit :: string
  th_original_value :: "string option"

record SelectionModifier =
  sm_value :: Decimal
  sm_kind :: string
  sm_scope :: string
  sm_label :: "string option"

text \<open>An enum attribute is kept as its value; its class is named where it is read.\<close>

record Selection =
  sl_selection_id :: "string option"
  sl_label :: "string option"
  sl_direction :: string
  sl_direction_label :: "string option"
  sl_status :: "string option"
  sl_modifiers :: "SelectionModifier list"
  sl_american_price :: "int option"
  sl_decimal_price :: "Decimal option"
  sl_price_kind :: string
  sl_price_value :: "Decimal option"
  sl_price_scope :: string

record StatisticMatch =
  mt_state :: string
  mt_scoring_period :: string
  mt_canonical_id :: "string option"
  mt_unit :: "string option"
  mt_reason :: "string option"
  mt_is_comparable :: bool

record PlayerProjectionMarket =
  mk_provider :: string
  mk_market_id :: "string option"
  mk_athlete :: "AthleteEvidence option"
  mk_event :: "EventEvidence option"
  mk_team :: "TeamEvidence option"
  mk_opponent :: "TeamEvidence option"
  mk_league :: "NamedEvidence option"
  mk_competition :: "CompetitionEvidence option"
  mk_sport :: "NamedEvidence option"
  mk_statistic :: "StatisticEvidence option"
  mk_threshold :: "MarketThreshold option"
  mk_status :: string
  mk_status_label :: "string option"
  mk_variant :: string
  mk_variant_label :: "string option"
  mk_scoring_period :: string
  mk_scoring_period_label :: "string option"
  mk_starts_at :: "datetime option"
  mk_updated_at :: "datetime option"
  mk_selections :: "Selection list"
  mk_appearance :: "AppearanceEvidence option"
  mk_statistic_match :: "StatisticMatch option"

section \<open>Facts\<close>

definition opt :: "('a \<Rightarrow> fact) \<Rightarrow> 'a option \<Rightarrow> fact" where
  "opt f v = (case v of None \<Rightarrow> FNone | Some x \<Rightarrow> f x)"

definition team_facts :: "TeamEvidence option \<Rightarrow> fact" where
  "team_facts = opt (\<lambda>t. FSeq [opt FStr (te_provider_id t), opt FInt (te_canonical_id t), opt FStr (te_name t),
     opt FStr (te_abbreviation t)])"

definition athlete_facts :: "AthleteEvidence option \<Rightarrow> fact" where
  "athlete_facts = opt (\<lambda>a. FSeq [opt FStr (at_provider_id a), opt FInt (at_canonical_id a), opt FStr (at_name a),
     team_facts (at_team a)])"

definition event_facts :: "EventEvidence option \<Rightarrow> fact" where
  "event_facts = opt (\<lambda>e. FSeq [opt FStr (ev_provider_id e), opt FStr (ev_canonical_id e), opt FStr (ev_label e),
     opt FTime (ev_starts_at e), opt FTime (ev_ends_at e), opt FTime (ev_updated_at e), opt FStr (ev_status_label e),
     team_facts (ev_home_team e), team_facts (ev_away_team e)])"

definition statistic_facts :: "StatisticEvidence option \<Rightarrow> fact" where
  "statistic_facts = opt (\<lambda>s. FSeq [opt FStr (se_provider_id s), opt FStr (se_canonical_id s), opt FStr (se_label s),
     FSeq (map FStr (se_components s))])"

definition named_facts :: "NamedEvidence option \<Rightarrow> fact" where
  "named_facts = opt (\<lambda>e. FSeq [opt FStr (ne_provider_id e), opt FStr (ne_canonical_id e), opt FStr (ne_label e)])"

definition competition_facts :: "CompetitionEvidence option \<Rightarrow> fact" where
  "competition_facts = opt (\<lambda>c. FSeq [opt FStr (ce_provider_id c), opt FStr (ce_canonical_id c), opt FStr (ce_label c),
     named_facts (ce_sport c)])"

definition appearance_facts :: "AppearanceEvidence option \<Rightarrow> fact" where
  "appearance_facts = opt (\<lambda>a. FSeq [opt FStr (ap_provider_id a), opt FStr (ap_appearance_type a), opt FStr (ap_label a)])"

definition threshold_facts :: "MarketThreshold option \<Rightarrow> fact" where
  "threshold_facts = opt (\<lambda>t. FSeq [FDecimal (th_value t), FStr (th_unit t)])"

definition modifier_facts :: "SelectionModifier \<Rightarrow> fact" where
  "modifier_facts m = FSeq [FDecimal (sm_value m), FStr (sm_kind m), FStr (sm_scope m), opt FStr (sm_label m)]"

definition selection_facts :: "Selection \<Rightarrow> fact" where
  "selection_facts s = FSeq [opt FStr (sl_selection_id s), opt FStr (sl_label s),
     FEnum ''SelectionDirection'' (sl_direction s), opt FStr (sl_direction_label s), opt FStr (sl_status s),
     FSeq (map modifier_facts (sl_modifiers s)), opt FInt (sl_american_price s), opt FDecimal (sl_decimal_price s)]"

text \<open>A normalised match states its unit and reason as enums, which are read as their values.\<close>

definition statistic_resolution_facts :: "StatisticMatch option \<Rightarrow> fact" where
  "statistic_resolution_facts = opt (\<lambda>m. FSeq [FEnum ''MatchState'' (mt_state m), FEnum ''ScoringPeriod'' (mt_scoring_period m),
     opt FStr (mt_canonical_id m), opt FStr (mt_unit m), opt FStr (mt_reason m), FBool (mt_is_comparable m)])"

fun written_form :: "Decimal option \<Rightarrow> fact" where
  "written_form None = FNone"
| "written_form (Some (Finite s c e)) = FSeq [FInt (if s then 1 else 0), FInt e]"
| "written_form (Some d) = FOther ''written form''"

definition selection_audit_facts :: "Selection \<Rightarrow> fact" where
  "selection_audit_facts s = FSeq [written_form (sl_decimal_price s),
     FSeq (map (\<lambda>m. written_form (Some (sm_value m))) (sl_modifiers s))]"

definition selection_order :: "Selection \<Rightarrow> py_exn + nat list" where
  "selection_order s =
     and_then (encode_canonical (selection_facts s)) (\<lambda>a.
     and_then (encode_canonical (selection_audit_facts s)) (\<lambda>b. Inr (a @ b)))"

text \<open>\<open>sorted(selections, key=...)\<close>: the keys first, then a stable sort by them.\<close>

definition canonical_selections :: "Selection list \<Rightarrow> py_exn + Selection list" where
  "canonical_selections xs =
     and_then (map_res selection_order xs) (\<lambda>ks. Inr (map snd (sort_key fst (zip ks xs))))"

definition reported_evidence_facts :: "PlayerProjectionMarket \<Rightarrow> py_exn + fact" where
  "reported_evidence_facts m =
     and_then (canonical_selections (mk_selections m)) (\<lambda>selections.
       Inr (FSeq [FStr (mk_provider m), athlete_facts (mk_athlete m), event_facts (mk_event m), team_facts (mk_team m),
         team_facts (mk_opponent m), named_facts (mk_league m), competition_facts (mk_competition m),
         named_facts (mk_sport m), statistic_facts (mk_statistic m), threshold_facts (mk_threshold m),
         FEnum ''MarketStatus'' (mk_status m), opt FStr (mk_status_label m), FEnum ''MarketVariant'' (mk_variant m),
         opt FStr (mk_variant_label m), FEnum ''ScoringPeriod'' (mk_scoring_period m), opt FStr (mk_scoring_period_label m),
         opt FTime (mk_starts_at m), opt FTime (mk_updated_at m), appearance_facts (mk_appearance m),
         FSeq (map selection_facts selections)]))"

definition retained_audit_facts :: "PlayerProjectionMarket \<Rightarrow> py_exn + fact" where
  "retained_audit_facts m =
     and_then (canonical_selections (mk_selections m)) (\<lambda>selections.
       Inr (FSeq [opt (\<lambda>t. FSeq [opt FStr (th_original_value t), written_form (Some (th_value t))]) (mk_threshold m),
         FSeq (map selection_audit_facts selections)]))"

definition market_content_key :: "PlayerProjectionMarket \<Rightarrow> py_exn + nat list" where
  "market_content_key m =
     and_then (reported_evidence_facts m) (\<lambda>facts.
       encode_canonical (FSeq [opt FStr (mk_market_id m), facts, statistic_resolution_facts (mk_statistic_match m)]))"

definition market_evidence_key :: "PlayerProjectionMarket \<Rightarrow> py_exn + nat list" where
  "market_evidence_key m =
     and_then (market_content_key m) (\<lambda>content.
     and_then (retained_audit_facts m) (\<lambda>audit.
     and_then (encode_canonical audit) (\<lambda>code. Inr (content @ code))))"

section \<open>The encoding is exact\<close>

text \<open>What a fact says: decimals by their number, everything else as it is.\<close>

datatype meaning = GNone | GBool bool | GEnum string string | GNumber rat | GInt int | GStr string
  | GTime datetime | GSeq "meaning list" | GOther

fun gist :: "fact \<Rightarrow> meaning" where
  "gist FNone = GNone"
| "gist (FBool b) = GBool b"
| "gist (FEnum n v) = GEnum n v"
| "gist (FDecimal d) = (if is_finite d then GNumber (dec_value d) else GOther)"
| "gist (FInt i) = GInt i"
| "gist (FStr s) = GStr s"
| "gist (FTime t) = GTime t"
| "gist (FSeq xs) = GSeq (map gist xs)"
| "gist (FOther n) = GOther"

text \<open>A class name is an identifier, and a timestamp lies in the calendar of \<open>datetime\<close>.\<close>

fun regular :: "fact \<Rightarrow> bool" where
  "regular (FEnum n v) = (CHR ''='' \<notin> set n)"
| "regular (FTime (Aware t)) = in_calendar t"
| "regular (FSeq xs) = list_all regular xs"
| "regular _ = True"

lemma utf8_Nil [simp]: "utf8 [] = []"
  by (simp add: utf8_def)

lemma utf8_Cons [simp]:
  "utf8 (c # s) = (if (of_char c :: nat) < 128 then [of_char c] else [192 + of_char c div 64, 128 + of_char c mod 64]) @ utf8 s"
  by (simp add: utf8_def Let_def)

lemma utf8_append [simp]: "utf8 (s @ t) = utf8 s @ utf8 t"
  by (simp add: utf8_def)

lemma utf8_inj: "utf8 s = utf8 t \<Longrightarrow> s = t"
proof (induction s arbitrary: t)
  case Nil
  then show ?case by (cases t) (auto split: if_splits)
next
  case (Cons c s)
  then obtain d u where t: "t = d # u" by (cases t) (auto split: if_splits)
  have n: "(of_char x :: nat) < 256" for x by simp
  have div: "(of_char c :: nat) = 64 * (of_char c div 64) + of_char c mod 64"
    "(of_char d :: nat) = 64 * (of_char d div 64) + of_char d mod 64" by simp_all
  have "(of_char c :: nat) = of_char d \<and> utf8 s = utf8 u"
  proof (cases "(of_char c :: nat) < 128"; cases "(of_char d :: nat) < 128")
    assume a: "\<not> (of_char c :: nat) < 128" "\<not> (of_char d :: nat) < 128"
    then have "(of_char c :: nat) div 64 = of_char d div 64" "(of_char c :: nat) mod 64 = of_char d mod 64" "utf8 s = utf8 u"
      using Cons.prems by (simp_all add: t)
    then show ?thesis using div by metis
  qed (use Cons.prems in \<open>auto simp: t\<close>)
  then have "c = d" "utf8 s = utf8 u" by simp_all
  then show ?case using Cons.IH [of u] t by simp
qed

lemma utf8_ascii: "list_all (\<lambda>c. (of_char c :: nat) < 128) s \<Longrightarrow> utf8 s = map of_char s"
  by (induction s) auto

lemma number_field:
  assumes "utf8 (show_nat m) @ 58 # r = utf8 (show_nat n) @ 58 # s" shows "m = n \<and> r = s"
proof -
  have d: "utf8 (show_nat k) = map of_char (show_nat k) \<and> 58 \<notin> set (utf8 (show_nat k))" for k
  proof -
    have a: "list_all (\<lambda>c. 48 \<le> (of_char c :: nat) \<and> (of_char c :: nat) \<le> 57) (show_nat k)"
      using show_nat_digits [of k] by (simp add: is_digit_def list_all_iff)
    then have "utf8 (show_nat k) = map of_char (show_nat k)" by (intro utf8_ascii) (auto simp: list_all_iff)
    then show ?thesis using a by (auto simp: list_all_iff)
  qed
  have w: "takeWhile (\<lambda>b. b \<noteq> 58) (utf8 (show_nat k) @ 58 # q) = utf8 (show_nat k)" for k q
    using d [of k] by (subst takeWhile_append2) auto
  have "utf8 (show_nat m) = utf8 (show_nat n)" using assms w by metis
  moreover from this have "m = n" using utf8_inj show_nat_inj by blast
  ultimately show ?thesis using assms by simp
qed

lemma framed_split:
  assumes "framed tag a @ r = framed tag b @ s" shows "a = b \<and> r = s"
proof -
  have "utf8 (show_nat (length (utf8 a))) @ 58 # (utf8 a @ r) = utf8 (show_nat (length (utf8 b))) @ 58 # (utf8 b @ s)"
    using assms by (simp add: framed_def Let_def)
  from number_field [OF this] have "length (utf8 a) = length (utf8 b)" "utf8 a @ r = utf8 b @ s" by auto
  then have "utf8 a = utf8 b" "r = s" by auto
  then show ?thesis using utf8_inj by blast
qed

lemma isoformat_inj:
  assumes "isoformat_utc a = isoformat_utc b" "in_calendar a" "in_calendar b" shows "a = b"
proof -
  have "iso a = iso b" using assms(1) by (simp add: isoformat_utc_def iso_def split: if_splits)
  then show ?thesis using iso_less_iff [OF assms(2,3)] iso_less_iff [OF assms(3,2)] iso_before_total [of a b] by auto
qed

lemma enum_split:
  assumes "n @ ''='' @ v = n' @ ''='' @ v'" "CHR ''='' \<notin> set n" "CHR ''='' \<notin> set n'" shows "n = n' \<and> v = v'"
proof -
  have w: "takeWhile (\<lambda>c. c \<noteq> CHR ''='') (m @ ''='' @ u) = m" if "CHR ''='' \<notin> set m" for m u
    using that by (subst takeWhile_append2) auto
  have "n = n'" using w [OF assms(2), of v] w [OF assms(3), of v'] assms(1) by simp
  then show ?thesis using assms(1) by simp
qed

lemma canonical_decimal_iff:
  assumes "is_finite d" "is_finite e" shows "canonical_decimal d = canonical_decimal e \<longleftrightarrow> dec_value d = dec_value e"
  using assms by (cases d; cases e) (auto simp only: is_finite_def Decimal.case canonical_token_exact)

lemma encode_gist: "gist v = gist w \<Longrightarrow> encode_canonical v = encode_canonical w"
proof (induction v arbitrary: w)
  case (FDecimal d)
  show ?case
  proof (cases "is_finite d")
    case True
    then obtain e where w: "w = FDecimal e" "is_finite e" "dec_value d = dec_value e"
      using FDecimal by (cases w) (auto split: if_splits)
    then have "canonical_decimal d = canonical_decimal e"
      using True canonical_decimal_iff by (auto simp: is_finite_def split: Decimal.splits)
    then show ?thesis by (simp add: w)
  next
    case False
    then have d: "encode_canonical (FDecimal d) = Inl ValueError"
      by (auto simp: canonical_decimal_def is_finite_def split: Decimal.splits)
    show ?thesis using FDecimal False d
      by (cases w) (auto simp: canonical_decimal_def is_finite_def split: if_splits Decimal.splits)
  qed
next
  case (FSeq xs)
  then obtain ys where w: "w = FSeq ys" and m: "map gist xs = map gist ys" by (cases w) (auto split: if_splits)
  have "map_res encode_canonical xs = map_res encode_canonical ys \<and> length xs = length ys"
    using m FSeq.IH
  proof (induction xs arbitrary: ys)
    case (Cons x xs)
    then obtain y ys' where "ys = y # ys'" "gist x = gist y" "map gist xs = map gist ys'" by auto
    then show ?case using Cons by auto
  qed simp
  then show ?case by (simp add: w)
next
  case (FOther n)
  then show ?case by (cases w) (auto simp: canonical_decimal_def is_finite_def split: if_splits Decimal.splits)
qed (case_tac w; auto split: if_splits)+

definition self_delimiting :: "fact \<Rightarrow> bool" where
  "self_delimiting x \<longleftrightarrow> (\<forall>y a b r s. encode_canonical x = Inr a \<longrightarrow> encode_canonical y = Inr b \<longrightarrow>
     regular x \<longrightarrow> regular y \<longrightarrow> a @ r = b @ s \<longrightarrow> gist x = gist y \<and> r = s)"

lemma encode_seq_split:
  assumes "\<forall>x \<in> set xs. self_delimiting x"
    "map_res encode_canonical xs = Inr cs" "map_res encode_canonical ys = Inr ds" "length xs = length ys"
    "list_all regular xs" "list_all regular ys" "concat cs @ r = concat ds @ s"
  shows "map gist xs = map gist ys \<and> r = s"
  using assms
proof (induction xs arbitrary: ys cs ds)
  case (Cons x xs)
  obtain y ys' where ys: "ys = y # ys'" using Cons.prems(4) by (cases ys) auto
  obtain a cs' where a: "encode_canonical x = Inr a" "map_res encode_canonical xs = Inr cs'" "cs = a # cs'"
    using Cons.prems(2) by (auto simp: result_simps)
  obtain b ds' where b: "encode_canonical y = Inr b" "map_res encode_canonical ys' = Inr ds'" "ds = b # ds'"
    using Cons.prems(3) ys by (auto simp: result_simps)
  have "a @ (concat cs' @ r) = b @ (concat ds' @ s)" using Cons.prems(7) a b by simp
  moreover have "self_delimiting x" "regular x" "regular y" using Cons.prems(1,5,6) ys by simp_all
  ultimately have h: "gist x = gist y" "concat cs' @ r = concat ds' @ s"
    using a(1) b(1) unfolding self_delimiting_def by blast+
  have "map gist xs = map gist ys' \<and> r = s"
    by (rule Cons.IH [OF _ a(2) b(2) _ _ _ h(2)]) (use Cons.prems(1,4,5,6) ys in simp_all)
  then show ?case using h ys by simp
qed simp

lemma encode_split:
  "encode_canonical v = Inr a \<Longrightarrow> encode_canonical w = Inr b \<Longrightarrow> regular v \<Longrightarrow> regular w \<Longrightarrow> a @ r = b @ s \<Longrightarrow>
     gist v = gist w \<and> r = s"
proof (induction v arbitrary: w a b r s)
  case FNone
  then show ?case by (cases w) (auto simp: framed_def Let_def result_simps)
next
  case (FBool x)
  then show ?case by (cases w) (auto simp: result_simps framed_def Let_def dest!: framed_split split: if_splits)
next
  case (FEnum n u)
  show ?case
  proof (cases w)
    case w: (FEnum n' u')
    have "framed ''e'' (n @ ''='' @ u) @ r = framed ''e'' (n' @ ''='' @ u') @ s" using FEnum.prems w by simp
    from framed_split [OF this] enum_split [of n u n' u'] show ?thesis using FEnum.prems(3,4) w by auto
  qed (use FEnum.prems in \<open>auto simp: result_simps framed_def Let_def\<close>)
next
  case (FDecimal d)
  show ?case
  proof (cases w)
    case w: (FDecimal e)
    obtain x y where x: "canonical_decimal d = Inr x" "a = framed ''d'' x" "canonical_decimal e = Inr y" "b = framed ''d'' y"
      using FDecimal.prems w by (auto simp: result_simps)
    have f: "is_finite d" "is_finite e" using x by (auto simp: canonical_decimal_def is_finite_def split: Decimal.splits)
    have "x = y \<and> r = s" using framed_split [of "''d''" x r y s] FDecimal.prems(5) x by simp
    then show ?thesis using canonical_decimal_iff [OF f] x f w by simp
  qed (use FDecimal.prems in \<open>auto simp: result_simps framed_def Let_def\<close>)
next
  case (FInt i)
  show ?case
  proof (cases w)
    case w: (FInt j)
    then show ?thesis using framed_split [of "''i''" "show_int i" r "show_int j" s] FInt.prems show_int_inj by auto
  qed (use FInt.prems in \<open>auto simp: result_simps framed_def Let_def\<close>)
next
  case (FStr i)
  show ?case
  proof (cases w)
    case w: (FStr j)
    then show ?thesis using framed_split [of "''s''" i r j s] FStr.prems by auto
  qed (use FStr.prems in \<open>auto simp: result_simps framed_def Let_def\<close>)
next
  case (FTime i)
  show ?case
  proof (cases w)
    case w: (FTime j)
    obtain t u where tu: "i = Aware t" "j = Aware u" using FTime.prems w by (auto simp: aware_utc_def split: datetime.splits)
    then show ?thesis
      using framed_split [of "''t''" "isoformat_utc t" r "isoformat_utc u" s] FTime.prems w isoformat_inj
      by (auto simp: aware_utc_def)
  qed (use FTime.prems in \<open>auto simp: result_simps framed_def Let_def\<close>)
next
  case (FSeq xs)
  show ?case
  proof (cases w)
    case w: (FSeq ys)
    obtain cs ds where c: "map_res encode_canonical xs = Inr cs" "map_res encode_canonical ys = Inr ds"
      using FSeq.prems(1,2) w by (auto simp: result_simps)
    have e: "utf8 (show_nat (length xs)) @ 58 # (utf8 (show_nat (length (concat cs))) @ 58 # (concat cs @ r))
        = utf8 (show_nat (length ys)) @ 58 # (utf8 (show_nat (length (concat ds))) @ 58 # (concat ds @ s))"
      using FSeq.prems(1,2,5) c w by (auto simp: Let_def)
    note n = number_field [OF e]
    have sd: "\<forall>x \<in> set xs. self_delimiting x" using FSeq.IH unfolding self_delimiting_def by blast
    note m = number_field [OF n [THEN conjunct2]]
    have "map gist xs = map gist ys \<and> r = s"
      by (rule encode_seq_split [OF sd c n [THEN conjunct1] _ _ m [THEN conjunct2]]) (use FSeq.prems(3,4) w in simp_all)
    then show ?thesis using w by simp
  qed (use FSeq.prems in \<open>auto simp: result_simps framed_def Let_def\<close>)
next
  case (FOther n)
  then show ?case by simp
qed

text \<open>The values that have an encoding: finite decimals, aware timestamps, no value of another type.\<close>

fun encodable :: "fact \<Rightarrow> bool" where
  "encodable (FDecimal d) = is_finite d"
| "encodable (FTime t) = (t \<noteq> Naive)"
| "encodable (FSeq xs) = list_all encodable xs"
| "encodable (FOther _) = False"
| "encodable _ = True"

lemma encode_total: "encodable v \<Longrightarrow> \<exists>a. encode_canonical v = Inr a"
proof (induction v)
  case (FDecimal d)
  then show ?case by (auto simp: is_finite_def canonical_decimal_def Let_def split: Decimal.splits prod.splits)
next
  case (FTime t)
  then show ?case by (cases t) (auto simp: aware_utc_def)
next
  case (FSeq xs)
  then have "\<forall>x \<in> set xs. \<exists>a. encode_canonical x = Inr a" by (auto simp: list_all_iff)
  then have "\<exists>cs. map_res encode_canonical xs = Inr cs" by (induction xs) auto
  then show ?case by (auto simp: Let_def)
qed auto

text \<open>
  The canonical encoding is injective and self-delimiting, as the module promises: two values
  it encodes have the same bytes exactly if they say the same (decimals compared as numbers), and no
  code is a proper prefix of another, so that codes can be concatenated without a separator.
\<close>

theorem encode_canonical_exact:
  assumes "encode_canonical v = Inr a" "encode_canonical w = Inr b" "regular v" "regular w"
  shows "(a = b \<longleftrightarrow> gist v = gist w) \<and> (a @ r = b @ s \<longrightarrow> a = b \<and> r = s)"
proof (intro conjI iffI impI)
  show "gist v = gist w" if "a = b" using encode_split [OF assms, of "[]" "[]"] that by simp
  show "a = b" if "gist v = gist w" using encode_gist [OF that] assms by simp
  assume "a @ r = b @ s"
  then show "a = b" "r = s" using encode_split [OF assms] by auto
qed

theorem encode_canonical_exact_witness:
  "encode_canonical (FSeq [FDecimal (Finite False 255 (-1)), FStr ''a'']) = encode_canonical (FSeq [FDecimal (Finite False 2550 (-2)), FStr ''a'']) \<and>
   gist (FSeq [FDecimal (Finite False 255 (-1)), FStr ''a'']) = gist (FSeq [FDecimal (Finite False 2550 (-2)), FStr ''a''])"
proof -
  let ?v = "FSeq [FDecimal (Finite False 255 (-1)), FStr ''a'']" and ?w = "FSeq [FDecimal (Finite False 2550 (-2)), FStr ''a'']"
  have "encodable ?v" "encodable ?w" "regular ?v" "regular ?w" by (simp_all add: is_finite_def)
  then obtain a b where a: "encode_canonical ?v = Inr a" "encode_canonical ?w = Inr b" by (meson encode_total)
  have g: "gist ?v = gist ?w" by (simp add: is_finite_def pow10_def power_int_minus)
  from encode_canonical_exact [OF a \<open>regular ?v\<close> \<open>regular ?w\<close>] g a show ?thesis by simp
qed

section \<open>The order of selections\<close>

lemma map_snd_sort_key: "map snd (sort_key fst (map (\<lambda>s. (f s, s)) xs)) = sort_key f xs"
proof -
  have m: "sort_key fst (map (\<lambda>s. (f s, s)) xs) = map (\<lambda>s. (f s, s)) (sort_key f xs)" for xs
  proof (induction xs)
    case (Cons x xs)
    have "insort_key fst (f x, x) (map (\<lambda>s. (f s, s)) ys) = map (\<lambda>s. (f s, s)) (insort_key f x ys)" for ys
      by (induction ys) auto
    then show ?case using Cons by simp
  qed simp
  show ?thesis by (simp add: m comp_def)
qed

lemma diverging_less:
  fixes a b :: "nat list"
  assumes "\<not> prefix a b" "\<not> prefix b a" shows "a @ p < b @ q \<longleftrightarrow> a < b"
  using assms
proof (induction a arbitrary: b)
  case (Cons x a)
  then show ?case by (cases b) (auto simp: Cons_less_Cons)
qed simp

lemma code_le:
  fixes a b :: "nat list"
  assumes "a @ p \<le> b @ q" "\<forall>r s. a @ r = b @ s \<longrightarrow> a = b" shows "a \<le> b"
proof (cases "a = b")
  case False
  then have "\<not> prefix a b" "\<not> prefix b a"
    using assms(2) by (metis append_Nil2 prefix_def)+
  then show ?thesis using diverging_less [of b a q p] assms(1) by (metis leD leI)
qed simp

text \<open>
  What the keys rely on: a code is self-delimiting, and it is the same exactly for what says the
  same. Then codes followed by anything are ordered as the codes themselves.
\<close>

locale self_delimiting_code =
  fixes code_of :: "'a \<Rightarrow> nat list" and says :: "'a \<Rightarrow> 'b" and valid :: "'a \<Rightarrow> bool"
  assumes code_split: "valid v \<Longrightarrow> valid w \<Longrightarrow> code_of v @ r = code_of w @ s \<Longrightarrow> says v = says w \<and> r = s"
    and code_same: "says v = says w \<Longrightarrow> code_of v = code_of w"
begin

lemma code_eq_iff:
  assumes "valid v" "valid w" shows "code_of v = code_of w \<longleftrightarrow> says v = says w"
proof
  assume "code_of v = code_of w"
  then have "code_of v @ [] = code_of w @ []" by simp
  from code_split [OF assms this] show "says v = says w" ..
qed (rule code_same)

lemma code_order:
  assumes "valid v" "valid w" "code_of v @ p \<le> code_of w @ q" shows "code_of v \<le> code_of w"
proof (rule code_le [OF assms(3)], intro allI impI)
  fix r s assume "code_of v @ r = code_of w @ s"
  from code_split [OF assms(1,2) this] show "code_of v = code_of w" by (intro code_same) simp
qed

lemma sorted_codes:
  assumes "\<forall>x \<in> set xs. valid (f x)" "sorted (map (\<lambda>x. code_of (f x) @ g x) xs)"
  shows "sorted (map (\<lambda>x. code_of (f x)) xs)"
  using assms(2) unfolding sorted_map
  by (rule sorted_wrt_mono_rel [rotated]) (use assms(1) code_order in blast)

end

lemma regular_opt: "(\<And>x. v = Some x \<Longrightarrow> regular (f x)) \<Longrightarrow> regular (opt f v)"
  by (cases v) (auto simp: opt_def)

lemma regular_selection: "regular (selection_facts s)" "regular (selection_audit_facts s)"
proof -
  have w: "regular (written_form d)" for d by (cases d rule: written_form.cases) auto
  show "regular (selection_facts s)"
    by (auto simp: selection_facts_def modifier_facts_def list_all_iff intro!: regular_opt)
  show "regular (selection_audit_facts s)" using w by (simp add: selection_audit_facts_def list_all_iff)
qed

definition code :: "fact \<Rightarrow> nat list" where
  "code v = (case encode_canonical v of Inr a \<Rightarrow> a | Inl _ \<Rightarrow> [])"

definition order_key :: "Selection \<Rightarrow> nat list" where
  "order_key s = code (selection_facts s) @ code (selection_audit_facts s)"

lemma selection_order_Inr:
  "selection_order s = Inr k \<longleftrightarrow> is_ok (encode_canonical (selection_facts s)) \<and> is_ok (encode_canonical (selection_audit_facts s)) \<and>
     k = order_key s"
  by (auto simp: selection_order_def order_key_def code_def result_simps is_ok_def split: sum.splits)

lemma canonical_selections_Inr:
  assumes "canonical_selections xs = Inr ys"
  shows "ys = sort_key order_key xs" "\<forall>s \<in> set xs. is_ok (encode_canonical (selection_facts s))"
proof -
  obtain ks where ks: "map_res selection_order xs = Inr ks" "ys = map snd (sort_key fst (zip ks xs))"
    using assms by (auto simp: canonical_selections_def result_simps)
  have "list_all2 (\<lambda>s k. selection_order s = Inr k) xs ks" using ks(1) by (simp only: map_res_Inr_iff)
  then have "ks = map order_key xs \<and> (\<forall>s \<in> set xs. is_ok (encode_canonical (selection_facts s)))"
    by (induction rule: list_all2_induct) (auto simp: selection_order_Inr)
  moreover have "zip (map order_key xs) xs = map (\<lambda>s. (order_key s, s)) xs" by (simp add: zip_map1 zip_same_conv_map)
  ultimately show "ys = sort_key order_key xs" "\<forall>s \<in> set xs. is_ok (encode_canonical (selection_facts s))"
    using ks(2) map_snd_sort_key [of order_key xs] by simp_all
qed

interpretation canonical: self_delimiting_code code gist "\<lambda>v. is_ok (encode_canonical v) \<and> regular v"
proof
  fix v w :: fact and r s
  assume "is_ok (encode_canonical v) \<and> regular v" "is_ok (encode_canonical w) \<and> regular w" "code v @ r = code w @ s"
  moreover from this obtain a b where "encode_canonical v = Inr a" "encode_canonical w = Inr b" by (auto simp: is_ok_iff)
  ultimately show "gist v = gist w \<and> r = s" using encode_split [of v a w b r s] by (simp add: code_def)
next
  fix v w :: fact assume "gist v = gist w"
  then have "encode_canonical v = encode_canonical w" by (rule encode_gist)
  then show "code v = code w" by (simp only: code_def)
qed

abbreviation selection_code :: "Selection \<Rightarrow> nat list" where
  "selection_code s \<equiv> code (selection_facts s)"

lemma canonical_codes:
  assumes "canonical_selections xs = Inr ys"
  shows "map selection_code ys = sort (map selection_code xs)" "set ys = set xs"
proof -
  note c = canonical_selections_Inr [OF assms]
  show "set ys = set xs" by (simp add: c(1))
  have "sorted (map order_key ys)" by (simp add: c(1))
  then have "sorted (map selection_code ys)"
    unfolding order_key_def using canonical.sorted_codes [of ys selection_facts] c(2) \<open>set ys = set xs\<close> regular_selection(1)
    by simp
  moreover have "mset (map selection_code ys) = mset (map selection_code xs)" by (simp add: c(1))
  ultimately show "map selection_code ys = sort (map selection_code xs)" by (metis properties_for_sort)
qed

lemma mset_map_agree:
  assumes "\<And>s t. s \<in> S \<Longrightarrow> t \<in> S \<Longrightarrow> g s = g t \<Longrightarrow> c s = c t" "set xs \<subseteq> S" "set ys \<subseteq> S"
    "mset (map g xs) = mset (map g ys)"
  shows "mset (map c xs) = mset (map c ys)"
proof -
  define f where "f z = c (SOME s. s \<in> S \<and> g s = z)" for z
  have f: "c s = f (g s)" if "s \<in> S" for s
  proof -
    have "(SOME t. t \<in> S \<and> g t = g s) \<in> S \<and> g (SOME t. t \<in> S \<and> g t = g s) = g s"
      by (rule someI [of _ s]) (use that in simp)
    then have "c (SOME t. t \<in> S \<and> g t = g s) = c s" by (intro assms(1)) (use that in auto)
    then show ?thesis unfolding f_def by (rule sym)
  qed
  have e: "mset (map c zs) = image_mset f (mset (map g zs))" if "set zs \<subseteq> S" for zs
  proof -
    have "map c zs = map f (map g zs)" unfolding map_map by (rule map_cong) (use that f in auto)
    then show ?thesis by (metis mset_map)
  qed
  show ?thesis unfolding e [OF assms(2)] e [OF assms(3)] assms(4) ..
qed

section \<open>One offering\<close>

text \<open>The facts of a market other than its selections, and when two markets state one offering:
  the same facts, and the same selections in any order, numbers compared as numbers.\<close>

definition offering_facts :: "PlayerProjectionMarket \<Rightarrow> fact list" where
  "offering_facts m =
     [FStr (mk_provider m), athlete_facts (mk_athlete m), event_facts (mk_event m), team_facts (mk_team m),
      team_facts (mk_opponent m), named_facts (mk_league m), competition_facts (mk_competition m),
      named_facts (mk_sport m), statistic_facts (mk_statistic m), threshold_facts (mk_threshold m),
      FEnum ''MarketStatus'' (mk_status m), opt FStr (mk_status_label m), FEnum ''MarketVariant'' (mk_variant m),
      opt FStr (mk_variant_label m), FEnum ''ScoringPeriod'' (mk_scoring_period m), opt FStr (mk_scoring_period_label m),
      opt FTime (mk_starts_at m), opt FTime (mk_updated_at m), appearance_facts (mk_appearance m)]"

definition same_offering :: "PlayerProjectionMarket \<Rightarrow> PlayerProjectionMarket \<Rightarrow> bool" where
  "same_offering m n \<longleftrightarrow> mk_market_id m = mk_market_id n \<and> map gist (offering_facts m) = map gist (offering_facts n) \<and>
     mk_statistic_match m = mk_statistic_match n \<and>
     mset (map (gist \<circ> selection_facts) (mk_selections m)) = mset (map (gist \<circ> selection_facts) (mk_selections n))"

definition in_range :: "PlayerProjectionMarket \<Rightarrow> bool" where
  "in_range m \<longleftrightarrow> list_all regular (offering_facts m)"

lemma gist_opt: "(\<And>x y. gist (f x) = gist (f y) \<longleftrightarrow> x = y) \<Longrightarrow> (\<And>x. gist (f x) \<noteq> GNone) \<Longrightarrow>
    gist (opt f v) = gist (opt f w) \<longleftrightarrow> v = w"
  by (cases v; cases w) (auto simp: opt_def, metis+)

lemma gist_resolution: "gist (statistic_resolution_facts m) = gist (statistic_resolution_facts n) \<longleftrightarrow> m = n"
  unfolding statistic_resolution_facts_def
  by (rule gist_opt) (auto simp: gist_opt)

lemma reported_facts: "reported_evidence_facts m =
    and_then (canonical_selections (mk_selections m)) (\<lambda>ys. Inr (FSeq (offering_facts m @ [FSeq (map selection_facts ys)])))"
  by (simp add: reported_evidence_facts_def offering_facts_def)

lemma content_key_Inr:
  assumes "market_content_key m = Inr k"
  obtains ys where "canonical_selections (mk_selections m) = Inr ys"
    "encode_canonical (FSeq [opt FStr (mk_market_id m), FSeq (offering_facts m @ [FSeq (map selection_facts ys)]),
       statistic_resolution_facts (mk_statistic_match m)]) = Inr k"
  using assms unfolding market_content_key_def reported_facts by (auto simp: and_then_Inr simp del: encode_canonical.simps)

lemma regular_content:
  assumes "in_range m"
  shows "regular (FSeq [opt FStr (mk_market_id m), FSeq (offering_facts m @ [FSeq (map selection_facts ys)]),
       statistic_resolution_facts (mk_statistic_match m)])"
  using assms regular_selection
  by (auto simp: in_range_def list_all_iff statistic_resolution_facts_def intro!: regular_opt)

lemma map_eq_agree:
  "(\<And>s t. s \<in> set xs \<Longrightarrow> t \<in> set ys \<Longrightarrow> c s = c t \<longleftrightarrow> g s = g t) \<Longrightarrow> map g xs = map g ys \<longleftrightarrow> map c xs = map c ys"
proof (induction xs arbitrary: ys)
  case (Cons x xs)
  show ?case
  proof (cases ys)
    case ys: (Cons y zs)
    have "map g xs = map g zs \<longleftrightarrow> map c xs = map c zs" by (rule Cons.IH) (rule Cons.prems, simp_all add: ys)
    moreover have "c x = c y \<longleftrightarrow> g x = g y" by (rule Cons.prems) (simp_all add: ys)
    ultimately show ?thesis by (simp add: ys)
  qed simp
qed simp

lemma sort_eq_iff: "sort xs = sort ys \<longleftrightarrow> mset xs = mset ys" for xs :: "'a :: linorder list"
  by (metis mset_sort properties_for_sort sorted_sort)

lemma selections_agree:
  assumes "canonical_selections xs = Inr xs'" "canonical_selections ys = Inr ys'"
  shows "map (gist \<circ> selection_facts) xs' = map (gist \<circ> selection_facts) ys' \<longleftrightarrow>
    mset (map (gist \<circ> selection_facts) xs) = mset (map (gist \<circ> selection_facts) ys)"
proof -
  let ?g = "gist \<circ> selection_facts" and ?S = "set xs \<union> set ys"
  have ok: "is_ok (encode_canonical (selection_facts s))" if "s \<in> ?S" for s
    using that canonical_selections_Inr(2) [OF assms(1)] canonical_selections_Inr(2) [OF assms(2)] by blast
  have cg: "selection_code s = selection_code t \<longleftrightarrow> ?g s = ?g t" if "s \<in> ?S" "t \<in> ?S" for s t
    using canonical.code_eq_iff ok that regular_selection(1) by simp
  have set: "set xs' = set xs" "set ys' = set ys" using canonical_codes(2) assms by auto
  have "map ?g xs' = map ?g ys' \<longleftrightarrow> map selection_code xs' = map selection_code ys'"
    by (rule map_eq_agree) (use cg set in simp)
  also have "\<dots> \<longleftrightarrow> sort (map selection_code xs) = sort (map selection_code ys)"
    unfolding canonical_codes(1) [OF assms(1)] canonical_codes(1) [OF assms(2)] ..
  also have "\<dots> \<longleftrightarrow> mset (map selection_code xs) = mset (map selection_code ys)"
    by (rule sort_eq_iff)
  also have "\<dots> \<longleftrightarrow> mset (map ?g xs) = mset (map ?g ys)"
  proof
    show "mset (map ?g xs) = mset (map ?g ys)" if "mset (map selection_code xs) = mset (map selection_code ys)"
      by (rule mset_map_agree [of ?S selection_code ?g, OF _ _ _ that]) (use cg in blast, simp_all)
    show "mset (map selection_code xs) = mset (map selection_code ys)" if "mset (map ?g xs) = mset (map ?g ys)"
      by (rule mset_map_agree [of ?S ?g selection_code, OF _ _ _ that]) (use cg in blast, simp_all)
  qed
  finally show ?thesis .
qed


lemma map_res_total: "\<forall>x \<in> set xs. \<exists>y. f x = Inr y \<Longrightarrow> \<exists>ys. map_res f xs = Inr ys"
  by (induction xs) auto

lemma content_key_total:
  assumes "list_all encodable (offering_facts m)"
    "\<forall>s \<in> set (mk_selections m). encodable (selection_facts s) \<and> encodable (selection_audit_facts s)"
  shows "\<exists>k. market_content_key m = Inr k"
proof -
  have "\<forall>s \<in> set (mk_selections m). \<exists>k. selection_order s = Inr k"
  proof
    fix s assume "s \<in> set (mk_selections m)"
    then obtain a b where "encode_canonical (selection_facts s) = Inr a" "encode_canonical (selection_audit_facts s) = Inr b"
      using assms(2) encode_total by blast
    then show "\<exists>k. selection_order s = Inr k" by (simp add: selection_order_def)
  qed
  then obtain ys where y: "canonical_selections (mk_selections m) = Inr ys"
    using map_res_total [of "mk_selections m" selection_order] by (auto simp: canonical_selections_def)
  have "encodable (FSeq [opt FStr (mk_market_id m), FSeq (offering_facts m @ [FSeq (map selection_facts ys)]),
       statistic_resolution_facts (mk_statistic_match m)])"
    using assms canonical_codes(2) [OF y]
    by (auto simp: list_all_iff opt_def statistic_resolution_facts_def split: option.splits)
  from encode_total [OF this] show ?thesis unfolding market_content_key_def reported_facts y and_then.simps .
qed

definition demo_selection :: "string \<Rightarrow> string \<Rightarrow> Decimal \<Rightarrow> Selection" where
  "demo_selection i direction price =
     \<lparr>sl_selection_id = Some i, sl_label = None, sl_direction = direction, sl_direction_label = None, sl_status = None,
      sl_modifiers = [], sl_american_price = None, sl_decimal_price = Some price, sl_price_kind = ''decimal'',
      sl_price_value = Some price, sl_price_scope = ''selection''\<rparr>"

definition demo_market :: "Decimal \<Rightarrow> Selection list \<Rightarrow> PlayerProjectionMarket" where
  "demo_market line sels =
     \<lparr>mk_provider = ''kalshi'', mk_market_id = Some ''m1'', mk_athlete = None, mk_event = None, mk_team = None,
      mk_opponent = None, mk_league = None, mk_competition = None, mk_sport = None, mk_statistic = None,
      mk_threshold = Some \<lparr>th_value = line, th_unit = ''points'', th_original_value = None\<rparr>, mk_status = ''available'',
      mk_status_label = None, mk_variant = ''standard'', mk_variant_label = None, mk_scoring_period = ''full_game'',
      mk_scoring_period_label = None, mk_starts_at = Some (Aware 1700000000000000), mk_updated_at = None,
      mk_selections = sels, mk_appearance = None, mk_statistic_match = None\<rparr>"

lemmas demo_facts = demo_market_def demo_selection_def offering_facts_def selection_facts_def selection_audit_facts_def
  athlete_facts_def event_facts_def team_facts_def named_facts_def competition_facts_def statistic_facts_def
  threshold_facts_def appearance_facts_def opt_def is_finite_def


section \<open>The stated price\<close>

definition repriced :: "(Selection \<Rightarrow> string \<times> Decimal option \<times> string) \<Rightarrow> PlayerProjectionMarket \<Rightarrow> PlayerProjectionMarket" where
  "repriced p m = m\<lparr>mk_selections := map (\<lambda>s. s\<lparr>sl_price_kind := fst (p s), sl_price_value := fst (snd (p s)),
     sl_price_scope := snd (snd (p s))\<rparr>) (mk_selections m)\<rparr>"

lemma sort_key_map: "sort_key k (map f xs) = map f (sort_key (k \<circ> f) xs)"
proof (induction xs)
  case (Cons x xs)
  have "insort_key k (f x) (map f ys) = map f (insort_key (k \<circ> f) x ys)" for ys by (induction ys) auto
  then show ?case using Cons by (simp add: comp_def)
qed simp

lemma canonical_selections_map:
  assumes "\<And>s. selection_facts (f s) = selection_facts s" "\<And>s. selection_audit_facts (f s) = selection_audit_facts s"
  shows "canonical_selections (map f xs) = and_then (canonical_selections xs) (\<lambda>ys. Inr (map f ys))"
proof -
  have o: "selection_order (f s) = selection_order s" for s by (simp add: selection_order_def assms)
  have m: "map_res selection_order (map f xs) = map_res selection_order xs" by (induction xs) (simp_all add: o)
  have z: "zip ks (map f xs) = map (apsnd f) (zip ks xs)" for ks by (simp add: zip_map2 apsnd_def map_prod_def)
  have fs: "fst \<circ> apsnd f = fst" "snd \<circ> apsnd f = f \<circ> snd" by auto
  have "map snd (sort_key fst (zip ks (map f xs))) = map f (map snd (sort_key fst (zip ks xs)))" for ks
    unfolding z sort_key_map map_map fs ..
  then show ?thesis
    unfolding canonical_selections_def m by (cases "map_res selection_order xs") simp_all
qed

text \<open>
  The canonical price of a selection, its stated kind, value and scope, is not part of what a
  market says: the content key and the evidence key of a market are the same whatever prices its
  selections state, as long as the American price, the decimal price and the modifiers agree.
\<close>

theorem stated_price_is_not_content:
  "market_content_key (repriced p m) = market_content_key m \<and> market_evidence_key (repriced p m) = market_evidence_key m"
proof -
  let ?f = "\<lambda>s. s\<lparr>sl_price_kind := fst (p s), sl_price_value := fst (snd (p s)), sl_price_scope := snd (snd (p s))\<rparr>"
  have f: "selection_facts (?f s) = selection_facts s" "selection_audit_facts (?f s) = selection_audit_facts s" for s
    by (simp_all add: selection_facts_def selection_audit_facts_def)
  have off: "offering_facts (repriced p m) = offering_facts m" by (simp add: repriced_def offering_facts_def)
  have c: "canonical_selections (mk_selections (repriced p m)) =
      and_then (canonical_selections (mk_selections m)) (\<lambda>ys. Inr (map ?f ys))"
    by (simp add: repriced_def canonical_selections_map [of ?f, OF f])
  have r: "reported_evidence_facts (repriced p m) = reported_evidence_facts m"
    unfolding reported_facts off c by (cases "canonical_selections (mk_selections m)") (simp_all add: comp_def f)
  have a: "retained_audit_facts (repriced p m) = retained_audit_facts m"
    unfolding retained_audit_facts_def c
    by (cases "canonical_selections (mk_selections m)") (simp_all add: comp_def f repriced_def)
  have k: "market_content_key (repriced p m) = market_content_key m"
    unfolding market_content_key_def r by (simp add: repriced_def)
  then show ?thesis unfolding market_evidence_key_def k a by simp
qed

end
