(* ===== verification/Freshness.thy ===== *)
theory Freshness
  imports Decimals
begin

text \<open>
  \<open>src/app/domain/freshness.py\<close>: exact durations, the domain of configured time windows, and the
  boundary between fresh and stale.

  A configured quantity is what the code tells apart: a boolean, a decimal, an integer, a value whose
  text is read (a float or a string), or another object, of which \<open>str\<close> is read too. Decimal
  arithmetic is that of a context with every signal trapped: a product is exact or it raises.
  A \<open>timedelta\<close> that the code builds is its count of microseconds.
\<close>

section \<open>Decimals from text\<close>

text \<open>The numeric strings of \<open>Decimal(text)\<close>: a sign, digits with an optional point, an optional
  exponent; or an infinity or a NaN, which no window can be.\<close>

definition split_sign :: "string \<Rightarrow> bool \<times> string" where
  "split_sign s = (case s of c # r \<Rightarrow> (if c = CHR ''-'' then (True, r) else if c = CHR ''+'' then (False, r) else (False, s))
     | [] \<Rightarrow> (False, s))"

definition exponent_of :: "string \<Rightarrow> int option" where
  "exponent_of s =
     (case s of
        [] \<Rightarrow> Some 0
      | c # r \<Rightarrow>
          (if c = CHR ''e'' \<or> c = CHR ''E'' then
             (let (neg, ds) = split_sign r
              in if ds \<noteq> [] \<and> list_all is_digit ds
                 then Some (if neg then - int (nat_of_digits ds) else int (nat_of_digits ds)) else None)
           else None))"

definition finite_text :: "bool \<Rightarrow> string \<Rightarrow> Decimal option" where
  "finite_text neg s =
     (let whole = takeWhile is_digit s; rest = dropWhile is_digit s;
          (frac, tail) = (case rest of
             c # r \<Rightarrow> (if c = CHR ''.'' then (takeWhile is_digit r, dropWhile is_digit r) else ([], rest))
           | [] \<Rightarrow> ([], rest))
      in if whole @ frac = [] then None
         else map_option (\<lambda>e. Finite neg (nat_of_digits (whole @ frac)) (e - int (length frac))) (exponent_of tail))"

definition special_text :: "bool \<Rightarrow> string \<Rightarrow> Decimal option" where
  "special_text neg s =
     (let low = lower s; payload = (if starts_with ''s'' low then drop 1 low else low)
      in if low = ''inf'' \<or> low = ''infinity'' then Some (Infinity neg)
         else if starts_with ''nan'' payload \<and> list_all is_digit (drop 3 payload) then Some NaN
         else None)"

definition decimal_of_text :: "string \<Rightarrow> Decimal option" where
  "decimal_of_text s =
     (let (neg, body) = split_sign (filter (\<lambda>c. c \<noteq> CHR ''_'') (strip s))
      in case finite_text neg body of Some d \<Rightarrow> Some d | None \<Rightarrow> special_text neg body)"

section \<open>Exact arithmetic\<close>

definition MAX_EMAX :: int where "MAX_EMAX = 999999999999999999"
definition MIN_EMIN :: int where "MIN_EMIN = - 999999999999999999"

text \<open>\<open>exact_context(precision).multiply(a, b)\<close> on finite decimals.\<close>

fun exact_multiply :: "int \<Rightarrow> Decimal \<Rightarrow> Decimal \<Rightarrow> decimal_error + Decimal" where
  "exact_multiply precision (Finite s c e) (Finite s' c' e') =
     (let n = int (length (digits_of (c * c'))); adjusted = e + e' + n - 1
      in if n \<le> precision \<and> MIN_EMIN \<le> adjusted \<and> adjusted \<le> MAX_EMAX
         then Inr (Finite (s \<noteq> s') (c * c') (e + e')) else Inl DecimalSignal)"
| "exact_multiply precision _ _ = Inl DecimalSignal"

record timedelta =
  td_days :: int
  td_seconds :: int
  td_microseconds :: int

definition total_microseconds :: "timedelta \<Rightarrow> int" where
  "total_microseconds d = (td_days d * 86400 + td_seconds d) * 1000000 + td_microseconds d"

text \<open>A value without the three attributes of a \<open>timedelta\<close> is \<open>None\<close>.\<close>

definition exact_seconds :: "timedelta option \<Rightarrow> decimal_error + Decimal" where
  "exact_seconds value =
     (case value of
        None \<Rightarrow> Inl NotExact
      | Some d \<Rightarrow> (let total = total_microseconds d in Inr (Finite (total < 0) (nat \<bar>total\<bar>) (- 6))))"

datatype quantity = QBool bool | QDecimal Decimal | QInt int | QText string | QObject string

definition read_quantity :: "quantity \<Rightarrow> string \<Rightarrow> decimal_error + Decimal" where
  "read_quantity q field =
     (case q of
        QBool _ \<Rightarrow> Inl (NumericDomainError field)
      | QDecimal d \<Rightarrow> Inr d
      | QInt i \<Rightarrow> Inr (Finite (i < 0) (nat \<bar>i\<bar>) 0)
      | QText s \<Rightarrow> of_option (NumericDomainError field) (decimal_of_text s)
      | QObject s \<Rightarrow> of_option (NumericDomainError field) (decimal_of_text s))"

definition exact_scaled_seconds :: "quantity \<Rightarrow> nat \<Rightarrow> string \<Rightarrow> decimal_error + Decimal" where
  "exact_scaled_seconds q unit_seconds field =
     and_then (read_quantity q field) (\<lambda>value.
     and_then (normalized_decimal value field) (\<lambda>_.
       exact_multiply (MAX_EXACT_DIFFERENCE_SPAN + int (length (show_nat unit_seconds))) value
         (Finite False unit_seconds 0)))"

definition MIN_TIME_WINDOW_SECONDS :: Decimal where "MIN_TIME_WINDOW_SECONDS = Finite False 1 (- 6)"
definition MAX_TIME_WINDOW_SECONDS :: Decimal where "MAX_TIME_WINDOW_SECONDS = Finite False 1 9"
definition MICROSECONDS_PER_SECOND :: Decimal where "MICROSECONDS_PER_SECOND = Finite False 1000000 0"

definition in_window_domain :: "Decimal \<Rightarrow> string \<Rightarrow> decimal_error + Decimal" where
  "in_window_domain seconds field =
     (if dec_value seconds < dec_value MIN_TIME_WINDOW_SECONDS \<or> dec_value seconds > dec_value MAX_TIME_WINDOW_SECONDS
      then Inl (TimeWindowDomainError field) else Inr seconds)"

definition time_window_seconds :: "quantity \<Rightarrow> nat \<Rightarrow> string \<Rightarrow> decimal_error + Decimal" where
  "time_window_seconds q unit_seconds field =
     and_then (exact_scaled_seconds q unit_seconds field) (\<lambda>seconds. in_window_domain seconds field)"

definition exact :: "Decimal \<Rightarrow> decimal_error + Decimal" where
  "exact d = (if is_finite d then Inr d else Inl NotExact)"

text \<open>\<open>int(grid.to_integral_value(scaled))\<close>: to the nearest integer, ties to even.\<close>

definition exact_timedelta :: "Decimal \<Rightarrow> string \<Rightarrow> decimal_error + int" where
  "exact_timedelta seconds field =
     and_then (exact seconds) (\<lambda>value.
     and_then (in_window_domain value field) (\<lambda>_.
     and_then (exact_multiply (MAX_EXACT_DIFFERENCE_SPAN + 7) value MICROSECONDS_PER_SECOND) (\<lambda>scaled.
       Inr (round_even (dec_value scaled)))))"

definition time_window_timedelta :: "quantity \<Rightarrow> nat \<Rightarrow> string \<Rightarrow> decimal_error + int" where
  "time_window_timedelta q unit_seconds field =
     and_then (time_window_seconds q unit_seconds field) (\<lambda>seconds. exact_timedelta seconds field)"

definition cache_window_policy :: "quantity \<Rightarrow> quantity \<Rightarrow> string \<Rightarrow> string \<Rightarrow> decimal_error + Decimal \<times> Decimal" where
  "cache_window_policy fresh_seconds stale_if_error_seconds fresh_field stale_field =
     and_then (time_window_seconds fresh_seconds 1 fresh_field) (\<lambda>fresh_window.
     and_then (time_window_seconds stale_if_error_seconds 1 stale_field) (\<lambda>stale_window.
       if dec_value fresh_window > dec_value stale_window then Inl (TimeWindowPolicyError fresh_field)
       else Inr (fresh_window, stale_window)))"

definition exact_age_seconds :: "quantity \<Rightarrow> string \<Rightarrow> decimal_error + Decimal" where
  "exact_age_seconds q field =
     (case q of
        QObject _ \<Rightarrow> Inl (NumericDomainError field)
      | _ \<Rightarrow>
          and_then (read_quantity q field) (\<lambda>candidate.
          and_then (ensure (is_finite candidate) (NumericDomainError field)) (\<lambda>_.
          and_then (normalized_decimal candidate field) (\<lambda>_.
            if dec_value candidate < 0 then Inl (NumericDomainError field) else Inr candidate))))"

definition within_fresh_window :: "Decimal \<Rightarrow> Decimal \<Rightarrow> decimal_error + bool" where
  "within_fresh_window age fresh_seconds =
     and_then (exact age) (\<lambda>a. and_then (exact fresh_seconds) (\<lambda>f. Inr (dec_value a < dec_value f)))"

definition within_max_age :: "Decimal \<Rightarrow> Decimal \<Rightarrow> decimal_error + bool" where
  "within_max_age age max_age_seconds =
     and_then (exact age) (\<lambda>a. and_then (exact max_age_seconds) (\<lambda>m. Inr (dec_value a \<le> dec_value m)))"

section \<open>Digits of products\<close>

lemma show_nat_length: "0 < n \<Longrightarrow> 10 ^ (length (show_nat n) - 1) \<le> n \<and> n < 10 ^ length (show_nat n)"
proof (induction n rule: less_induct)
  case (less n)
  show ?case
  proof (cases "n < 10")
    case False
    then have n: "0 < n div 10" "n div 10 < n" "length (show_nat n) = Suc (length (show_nat (n div 10)))"
      by (simp_all add: show_nat_step)
    define k where "k = length (show_nat (n div 10))"
    have k: "0 < k" by (simp add: k_def)
    have "10 ^ (k - 1) \<le> n div 10 \<and> n div 10 < 10 ^ k" unfolding k_def by (rule less.IH [OF n(2,1)])
    then have "10 * 10 ^ (k - 1) \<le> n \<and> n < 10 * 10 ^ k" by linarith
    moreover have "10 * 10 ^ (k - 1) = (10 ^ k :: nat)" using k by (cases k) auto
    ultimately show ?thesis by (simp add: n(3) k_def)
  qed (use less.prems in \<open>simp add: show_nat_small\<close>)
qed

lemma show_nat_length_le:
  assumes "n < 10 ^ k" "0 < k" shows "length (show_nat n) \<le> k"
proof (cases "n = 0")
  case False
  then have "10 ^ (length (show_nat n) - 1) < (10 ^ k :: nat)" using show_nat_length [of n] assms(1) by linarith
  then have "length (show_nat n) - 1 < k" by (simp add: power_strict_increasing_iff)
  then show ?thesis by linarith
qed (use assms in \<open>simp add: show_nat_small\<close>)

lemma length_digits_of [simp]: "length (digits_of n) = length (show_nat n)"
  by (simp add: digits_of_def)

lemma show_nat_mult_length: "length (show_nat (a * b)) \<le> length (show_nat a) + length (show_nat b)"
proof (cases "a = 0 \<or> b = 0")
  case False
  then have "a < 10 ^ length (show_nat a)" "b < 10 ^ length (show_nat b)" using show_nat_length by auto
  then have "a * b < 10 ^ length (show_nat a) * 10 ^ length (show_nat b)" by (intro mult_strict_mono) auto
  then show ?thesis by (intro show_nat_length_le) (auto simp: power_add)
qed (auto simp: show_nat_small Suc_le_eq)

section \<open>Windows\<close>

lemma normalized_decimalD:
  assumes "normalized_decimal d field = Inr d'"
  obtains s c e where "d = Finite s c e" "- 128 \<le> e" "e + int (length (show_nat c)) \<le> 129"
  using assms
  by (cases d) (auto simp: normalized_decimal_def decimal_places_def NORMALIZED_DECIMAL_PLACE_LIMIT_def split: if_splits)

lemma show_nat_length_pos: "1 \<le> length (show_nat n)"
  by (cases "show_nat n") auto

lemma unit_length: "u \<le> 86400 \<Longrightarrow> length (show_nat u) \<le> 5"
  by (rule show_nat_length_le) auto

lemma dec_value_mult: "dec_value (Finite (s \<noteq> s') (c * c') (e + e')) = dec_value (Finite s c e) * dec_value (Finite s' c' e')"
  by (simp add: pow10_def power_int_add)

lemma scaled_exact:
  assumes "normalized_decimal d field = Inr d'" "u \<le> 86400"
  shows "\<exists>s c e. d = Finite s c e \<and> - 128 \<le> e \<and>
    exact_multiply (MAX_EXACT_DIFFERENCE_SPAN + int (length (show_nat u))) d (Finite False u 0) = Inr (Finite s (c * u) e)"
proof -
  obtain s c e where d: "d = Finite s c e" "- 128 \<le> e" "e + int (length (show_nat c)) \<le> 129"
    using normalized_decimalD [OF assms(1)] .
  have "int (length (show_nat (c * u))) \<le> int (length (show_nat c)) + int (length (show_nat u))"
    using show_nat_mult_length [of c u] by linarith
  moreover have "int (length (show_nat u)) \<le> 5" using unit_length [OF assms(2)] by linarith
  moreover have "1 \<le> int (length (show_nat (c * u)))" using show_nat_length_pos by simp
  moreover have "1 \<le> int (length (show_nat c))" using show_nat_length_pos by simp
  ultimately have "exact_multiply (MAX_EXACT_DIFFERENCE_SPAN + int (length (show_nat u))) d (Finite False u 0) = Inr (Finite s (c * u) e)"
    using d(2,3)
    by (simp add: d(1) Let_def MAX_EXACT_DIFFERENCE_SPAN_def NORMALIZED_DECIMAL_PLACE_LIMIT_def MIN_EMIN_def MAX_EMAX_def)
  then show ?thesis using d by blast
qed

lemma pow10_nonneg [simp]: "0 \<le> pow10 e"
  using pow10_pos(1) [of e] by linarith

lemma coefficient_bound:
  assumes "(of_nat c * pow10 e :: rat) \<le> 10 ^ m" "- int k \<le> e" shows "c \<le> 10 ^ (m + k)"
proof -
  have "pow10 (- int k) \<le> pow10 e" unfolding pow10_def by (rule power_int_increasing) (use assms(2) in auto)
  then have "(of_nat c * pow10 (- int k) :: rat) \<le> of_nat c * pow10 e" by (intro mult_left_mono) auto
  then have "(of_nat c * pow10 (- int k) :: rat) \<le> 10 ^ m" using assms(1) by linarith
  moreover have "pow10 (- int k) = 1 / 10 ^ k" by (simp add: pow10_def power_int_minus divide_inverse)
  ultimately have "(of_nat c :: rat) \<le> 10 ^ m * 10 ^ k" by (simp add: pos_divide_le_eq)
  then have "(of_nat c :: rat) \<le> of_nat (10 ^ (m + k))" by (simp add: power_add)
  then show ?thesis by (simp only: of_nat_le_iff)
qed

lemma window_values: "dec_value MIN_TIME_WINDOW_SECONDS = 1 / 1000000" "dec_value MAX_TIME_WINDOW_SECONDS = 10 ^ 9"
  by (simp_all add: MIN_TIME_WINDOW_SECONDS_def MAX_TIME_WINDOW_SECONDS_def pow10_def power_int_minus)

lemma timedelta_exact:
  assumes "in_window_domain (Finite s c e) field = Inr d" "- 128 \<le> e"
  shows "exact_timedelta (Finite s c e) field = Inr (round_even (dec_value (Finite s c e) * 10 ^ 6))"
proof -
  have v: "1 / 1000000 \<le> dec_value (Finite s c e)" "dec_value (Finite s c e) \<le> 10 ^ 9"
    using assms(1) by (auto simp: in_window_domain_def window_values simp del: dec_value.simps split: if_splits)
  have s: "\<not> s"
  proof
    assume s
    then have "dec_value (Finite s c e) \<le> 0" by simp
    then show False using v(1) by linarith
  qed
  then have "of_nat c * pow10 e \<le> (10 ^ 9 :: rat)" using v(2) by simp
  from coefficient_bound [OF this, of 128] have "c \<le> 10 ^ (9 + 128)" using assms(2) by simp
  then have "c * 10 ^ 6 \<le> 10 ^ (9 + 128) * 10 ^ 6" by (rule mult_le_mono1)
  also have "\<dots> < (10 ^ 144 :: nat)" unfolding power_add [symmetric] by (rule power_strict_increasing) auto
  finally have "c * 1000000 < 10 ^ 144" by simp
  then have n: "int (length (show_nat (c * 1000000))) \<le> 144" using show_nat_length_le [of _ 144] by fastforce
  have "0 < c" using v(1) s by (cases "c = 0") auto
  have "pow10 e \<le> 10 ^ 9"
  proof -
    have "(1 :: rat) * pow10 e \<le> of_nat c * pow10 e" by (rule mult_right_mono) (use \<open>0 < c\<close> in \<open>simp_all add: Suc_le_eq\<close>)
    moreover have "of_nat c * pow10 e \<le> (10 ^ 9 :: rat)" using v(2) s by simp
    ultimately show ?thesis by linarith
  qed
  then have e: "e \<le> 9" using power_int_le_imp_le_exp [of 10 e 9] by (simp add: pow10_def)
  have "exact_multiply (MAX_EXACT_DIFFERENCE_SPAN + 7) (Finite s c e) MICROSECONDS_PER_SECOND = Inr (Finite s (c * 1000000) e)"
    using n e assms(2) show_nat_length_pos [of "c * 1000000"]
    by (simp add: MICROSECONDS_PER_SECOND_def Let_def MAX_EXACT_DIFFERENCE_SPAN_def NORMALIZED_DECIMAL_PLACE_LIMIT_def
        MIN_EMIN_def MAX_EMAX_def)
  moreover have "dec_value (Finite s (c * 1000000) e) = dec_value (Finite s c e) * 10 ^ 6" by simp
  ultimately show ?thesis
    using assms(1) by (simp add: exact_timedelta_def exact_def is_finite_def del: dec_value.simps)
qed

lemma window_secondsD:
  assumes "time_window_seconds q u field = Inr x" "u \<le> 86400"
  obtains s c e where "x = Finite s (c * u) e" "- 128 \<le> e" "read_quantity q field = Inr (Finite s c e)"
    "in_window_domain x field = Inr x" "dec_value x = dec_value (Finite s c e) * of_nat u"
proof -
  obtain d d' where d: "read_quantity q field = Inr d" "normalized_decimal d field = Inr d'"
    "exact_multiply (MAX_EXACT_DIFFERENCE_SPAN + int (length (show_nat u))) d (Finite False u 0) = Inr x"
    and w: "in_window_domain x field = Inr x"
    using assms(1)
    by (auto simp: time_window_seconds_def exact_scaled_seconds_def and_then_Inr in_window_domain_def split: if_splits)
  obtain s c e where s: "d = Finite s c e" "- 128 \<le> e"
    "exact_multiply (MAX_EXACT_DIFFERENCE_SPAN + int (length (show_nat u))) d (Finite False u 0) = Inr (Finite s (c * u) e)"
    using scaled_exact [OF d(2) assms(2)] by blast
  show thesis
  proof (rule that)
    show "x = Finite s (c * u) e" using s(3) d(3) by simp
    then show "dec_value x = dec_value (Finite s c e) * of_nat u" by simp
  qed (use s d w in simp_all)
qed

lemma window_usable:
  assumes "u \<le> 86400" "time_window_seconds q u field = Inr x"
  shows "\<exists>d n. read_quantity q field = Inr d \<and> dec_value x = dec_value d * of_nat u \<and>
    exact_timedelta x field = Inr n \<and> time_window_timedelta q u field = Inr n \<and>
    n = round_even (dec_value d * of_nat u * 1000000) \<and> 1 \<le> n \<and> n \<le> 10 ^ 15"
proof -
  obtain s c e where c: "x = Finite s (c * u) e" "- 128 \<le> e" "read_quantity q field = Inr (Finite s c e)"
    "in_window_domain x field = Inr x" "dec_value x = dec_value (Finite s c e) * of_nat u"
    using window_secondsD [OF assms(2,1)] .
  let ?n = "round_even (dec_value x * 1000000)"
  have t: "exact_timedelta x field = Inr ?n"
    using timedelta_exact [of s "c * u" e field x] c(1,2,4) by (simp del: dec_value.simps)
  have v: "1 / 1000000 \<le> dec_value x" "dec_value x \<le> 10 ^ 9"
    using c(4) by (auto simp: in_window_domain_def window_values split: if_splits)
  have b: "\<bar>of_int ?n - dec_value x * 1000000\<bar> \<le> 1 / 2" by (rule round_even_error)
  have "(0 :: rat) < of_int ?n" using v(1) b by linarith
  then have "0 < ?n" by (simp only: of_int_0_less_iff)
  have "dec_value x * 1000000 \<le> 1000000000000000" using v(2) by simp
  then have "of_int ?n < (1000000000000001 :: rat)" using b by linarith
  then have "of_int ?n < (of_int 1000000000000001 :: rat)" by (simp only: of_int_numeral)
  then have "?n < 1000000000000001" by (simp only: of_int_less_iff)
  then have "?n < 10 ^ 15 + 1" by simp
  then show ?thesis using \<open>0 < ?n\<close> c(3,5) t assms(2) by (auto simp: time_window_timedelta_def simp del: dec_value.simps)
qed

lemma window_refused:
  assumes "u \<le> 86400" "time_window_seconds q u field = Inl err"
  shows "err \<in> {NumericDomainError field, TimeWindowDomainError field}"
proof -
  have r: "read_quantity q field = Inl f \<Longrightarrow> f = NumericDomainError field" for f
    by (auto simp: read_quantity_def of_option_def split: quantity.splits option.splits)
  have n: "normalized_decimal d field = Inl f \<Longrightarrow> f = NumericDomainError field" for d f
    by (auto simp: normalized_decimal_def split: Decimal.splits prod.splits if_splits)
  show ?thesis
  proof (cases "read_quantity q field")
    case (Inl f)
    then show ?thesis using assms(2) r
      by (simp add: time_window_seconds_def exact_scaled_seconds_def)
  next
    case d: (Inr d)
    show ?thesis
    proof (cases "normalized_decimal d field")
      case (Inl f)
      then show ?thesis using assms(2) d n
        by (simp add: time_window_seconds_def exact_scaled_seconds_def)
    next
      case (Inr d')
      then show ?thesis using assms(2) d scaled_exact [OF Inr assms(1)]
        by (auto simp: time_window_seconds_def exact_scaled_seconds_def in_window_domain_def split: if_splits)
    qed
  qed
qed

text \<open>
  A configured window is settled once. It is refused only as a number outside the numeric
  domain or a duration outside the window domain, never by the arithmetic; and a window that is
  accepted is the exact product of the quantity and its unit, always converts to a duration without
  an error, and that duration is the nearest number of microseconds, at least one and at most
  \<open>10 ^ 15\<close>.
\<close>

theorem accepted_window_is_usable:
  assumes "0 < u" "u \<le> 86400"
  shows "(\<forall>err. time_window_timedelta q u field = Inl err \<longrightarrow> err \<in> {NumericDomainError field, TimeWindowDomainError field}) \<and>
    (\<forall>x. time_window_seconds q u field = Inr x \<longrightarrow>
       (\<exists>d n. read_quantity q field = Inr d \<and> dec_value x = dec_value d * of_nat u \<and>
          exact_timedelta x field = Inr n \<and> time_window_timedelta q u field = Inr n \<and>
          n = round_even (dec_value d * of_nat u * 1000000) \<and> 1 \<le> n \<and> n \<le> 10 ^ 15))"
proof -
  have "err \<in> {NumericDomainError field, TimeWindowDomainError field}" if e: "time_window_timedelta q u field = Inl err" for err
  proof (cases "time_window_seconds q u field")
    case (Inl f)
    then show ?thesis using e window_refused [OF assms(2) Inl] by (simp add: time_window_timedelta_def)
  next
    case (Inr x)
    then show ?thesis using e window_usable [OF assms(2) Inr] by auto
  qed
  then show ?thesis using window_usable [OF assms(2)] by blast
qed

theorem accepted_window_is_usable_witness:
  "(0 :: nat) < 3600 \<and> time_window_timedelta (QDecimal (Finite False 15 (- 1))) 3600 ''ttl'' = Inr 5400000000"
proof -
  let ?q = "QDecimal (Finite False 15 (- 1))"
  have len: "length (show_nat 15) = 2" "length (show_nat 3600) = 4" "length (show_nat 54000) = 5"
    by (simp_all add: show_nat.simps)
  have "\<exists>x. time_window_seconds ?q 3600 ''ttl'' = Inr x"
    by (simp add: time_window_seconds_def exact_scaled_seconds_def read_quantity_def normalized_decimal_def decimal_places_def
        NORMALIZED_DECIMAL_PLACE_LIMIT_def MAX_EXACT_DIFFERENCE_SPAN_def MIN_EMIN_def MAX_EMAX_def Let_def len
        in_window_domain_def window_values pow10_def power_int_minus)
  moreover have "round_even (5400000000 :: rat) = 5400000000" using round_even_int [of 5400000000] by simp
  moreover have "read_quantity ?q ''ttl'' = Inr d \<Longrightarrow> dec_value d * of_nat 3600 * 1000000 = 5400000000" for d
    by (auto simp: read_quantity_def pow10_def power_int_minus)
  moreover have "(0 :: nat) < 3600" "(3600 :: nat) \<le> 86400" by simp_all
  ultimately show ?thesis
    using accepted_window_is_usable [of 3600 ?q "''ttl''", THEN conjunct2] by metis
qed

section \<open>The boundary\<close>

lemma exact_seconds_value:
  "\<exists>a. exact_seconds (Some d) = Inr a \<and> is_finite a \<and> dec_value a = of_int (total_microseconds d) / 1000000"
proof -
  have n: "(of_nat (nat \<bar>i\<bar>) :: rat) = \<bar>of_int i\<bar>" for i :: int by simp
  show ?thesis
    by (auto simp: exact_seconds_def Let_def is_finite_def n pow10_def power_int_minus abs_if)
qed

lemma window_finite:
  assumes "time_window_seconds q 1 field = Inr x" shows "is_finite x"
  by (rule window_secondsD [OF assms]) (simp_all add: is_finite_def)

text \<open>
  The boundary of a cache policy, on the microsecond grid. For a policy that
  \<open>cache_window_policy\<close> accepts and the age of any duration, the two questions have answers: the age
  is fresh exactly if it is less than the fresh window, usable exactly if it is at most the maximum
  age, and an observation that is fresh is always usable.
\<close>

theorem freshness_boundary:
  assumes "cache_window_policy f s fresh_field stale_field = Inr (fw, sw)" "exact_seconds (Some d) = Inr age"
  shows "within_fresh_window age fw = Inr (of_int (total_microseconds d) < dec_value fw * 1000000) \<and>
    within_max_age age sw = Inr (of_int (total_microseconds d) \<le> dec_value sw * 1000000) \<and>
    (within_fresh_window age fw = Inr True \<longrightarrow> within_max_age age sw = Inr True)"
proof -
  have w: "time_window_seconds f 1 fresh_field = Inr fw" "time_window_seconds s 1 stale_field = Inr sw" "dec_value fw \<le> dec_value sw"
    using assms(1) by (auto simp: cache_window_policy_def and_then_Inr split: if_splits)
  have a: "is_finite age" "dec_value age = of_int (total_microseconds d) / 1000000"
    using exact_seconds_value [of d] assms(2) by auto
  have e: "exact age = Inr age" "exact fw = Inr fw" "exact sw = Inr sw"
    using a(1) window_finite w(1,2) by (simp_all add: exact_def)
  show ?thesis using w(3) by (auto simp: within_fresh_window_def within_max_age_def e a(2) divide_less_eq divide_le_eq)
qed

theorem freshness_boundary_witness:
  "\<exists>fw sw age. cache_window_policy (QDecimal (Finite False 60 0)) (QDecimal (Finite False 9 2)) ''fresh'' ''stale'' = Inr (fw, sw) \<and>
     exact_seconds (Some \<lparr>td_days = 0, td_seconds = 59, td_microseconds = 999999\<rparr>) = Inr age \<and>
     within_fresh_window age fw = Inr True"
proof -
  let ?fw = "Finite False 60 0" and ?sw = "Finite False 9 2" and ?d = "\<lparr>td_days = 0, td_seconds = 59, td_microseconds = 999999\<rparr>"
  have len: "length (show_nat 60) = 2" "length (show_nat 9) = 1" "length (show_nat 1) = 1" by (simp_all add: show_nat.simps)
  have p: "cache_window_policy (QDecimal ?fw) (QDecimal ?sw) ''fresh'' ''stale'' = Inr (?fw, ?sw)"
    by (simp add: cache_window_policy_def time_window_seconds_def exact_scaled_seconds_def read_quantity_def normalized_decimal_def
        decimal_places_def NORMALIZED_DECIMAL_PLACE_LIMIT_def MAX_EXACT_DIFFERENCE_SPAN_def MIN_EMIN_def MAX_EMAX_def Let_def len
        in_window_domain_def window_values pow10_def)
  obtain age where a: "exact_seconds (Some ?d) = Inr age" using exact_seconds_value by blast
  have "of_int (total_microseconds ?d) < dec_value ?fw * 1000000" by (simp add: total_microseconds_def pow10_def)
  then show ?thesis using freshness_boundary [OF p a] p a by metis
qed

end
