(* ===== verification/Market_Contract.thy ===== *)
theory Market_Contract
  imports Market_Content Freshness
begin

text \<open>
  \<open>src/app/providers/dfs.py\<close>: the closed vocabularies of the market contract, and how a threshold, a
  modifier, a selection and a market are normalised when they are built.

  An argument that may be a member of an enum or a provider's label is a \<open>label_arg\<close>; a label is any
  JSON value, and only a text is read. The context variable that makes the decoding of archived
  documents lenient is an argument of the constructors that read it.
\<close>

section \<open>Vocabularies\<close>

datatype dfs_error = ContractValueError string | CoverageRecordMalformed string | MalformedProviderResponse string

datatype MarketVariant = STANDARD | ALTERNATE | PROMOTIONAL | UNKNOWN_VARIANT
datatype SelectionDirection = HIGHER | LOWER | UNKNOWN_DIRECTION
datatype PriceKind = AMERICAN | DECIMAL | MULTIPLIER | UNPRICED
datatype PriceScope = SELECTION_SCOPE | ENTRY_SCOPE
datatype ModifierKind = PAYOUT_MULTIPLIER | LINE_ADJUSTMENT | PROMO
datatype MarketStatus = AVAILABLE | SUSPENDED
datatype ScoringPeriod = FULL_GAME | FIRST_HALF | SECOND_HALF | FIRST_QUARTER | SECOND_QUARTER | UNKNOWN_PERIOD

fun variant_value :: "MarketVariant \<Rightarrow> string" where
  "variant_value STANDARD = ''standard''" | "variant_value ALTERNATE = ''alternate''"
| "variant_value PROMOTIONAL = ''promotional''" | "variant_value UNKNOWN_VARIANT = ''unknown''"

fun direction_value :: "SelectionDirection \<Rightarrow> string" where
  "direction_value HIGHER = ''higher''" | "direction_value LOWER = ''lower''" | "direction_value UNKNOWN_DIRECTION = ''unknown''"

fun price_kind_value :: "PriceKind \<Rightarrow> string" where
  "price_kind_value AMERICAN = ''american''" | "price_kind_value DECIMAL = ''decimal''"
| "price_kind_value MULTIPLIER = ''multiplier''" | "price_kind_value UNPRICED = ''unpriced''"

fun price_scope_value :: "PriceScope \<Rightarrow> string" where
  "price_scope_value SELECTION_SCOPE = ''selection''" | "price_scope_value ENTRY_SCOPE = ''entry''"

fun modifier_kind_value :: "ModifierKind \<Rightarrow> string" where
  "modifier_kind_value PAYOUT_MULTIPLIER = ''payout_multiplier''" | "modifier_kind_value LINE_ADJUSTMENT = ''line_adjustment''"
| "modifier_kind_value PROMO = ''promo''"

fun status_value :: "MarketStatus \<Rightarrow> string" where
  "status_value AVAILABLE = ''available''" | "status_value SUSPENDED = ''suspended''"

fun period_value :: "ScoringPeriod \<Rightarrow> string" where
  "period_value FULL_GAME = ''full_game''" | "period_value FIRST_HALF = ''first_half''"
| "period_value SECOND_HALF = ''second_half''" | "period_value FIRST_QUARTER = ''first_quarter''"
| "period_value SECOND_QUARTER = ''second_quarter''" | "period_value UNKNOWN_PERIOD = ''unknown''"

datatype 'e label_arg = Member 'e | Label json

text \<open>\<open>label.strip().casefold() if isinstance(label, str) else ""\<close>.\<close>

definition cleaned :: "json \<Rightarrow> string" where
  "cleaned v = (case v of JStr s \<Rightarrow> casefold (strip s) | _ \<Rightarrow> [])"

definition MODIFIER_KIND_LABELS :: "(string \<times> ModifierKind) list" where
  "MODIFIER_KIND_LABELS =
     [(''payout_multiplier'', PAYOUT_MULTIPLIER), (''payout multiplier'', PAYOUT_MULTIPLIER), (''multiplier'', PAYOUT_MULTIPLIER),
      (''payout'', PAYOUT_MULTIPLIER), (''line_adjustment'', LINE_ADJUSTMENT), (''line adjustment'', LINE_ADJUSTMENT),
      (''line'', LINE_ADJUSTMENT), (''promo'', PROMO), (''promotion'', PROMO), (''promotional'', PROMO)]"

definition normalize_modifier_kind :: "ModifierKind label_arg \<Rightarrow> dfs_error + ModifierKind" where
  "normalize_modifier_kind a =
     (case a of
        Member k \<Rightarrow> Inr k
      | Label v \<Rightarrow> of_option (CoverageRecordMalformed ''selection modifier kind'') (map_of MODIFIER_KIND_LABELS (cleaned v)))"

definition resolved_modifier_kind :: "bool \<Rightarrow> ModifierKind label_arg \<Rightarrow> dfs_error + string" where
  "resolved_modifier_kind lenient a =
     (if \<not> lenient then and_then (normalize_modifier_kind a) (\<lambda>k. Inr (modifier_kind_value k))
      else case a of
          Member k \<Rightarrow> Inr (modifier_kind_value k)
        | Label v \<Rightarrow>
            (case map_of MODIFIER_KIND_LABELS (cleaned v) of
               Some k \<Rightarrow> Inr (modifier_kind_value k)
             | None \<Rightarrow>
                 (case v of
                    JStr s \<Rightarrow> (if strip s \<noteq> [] then Inr (strip s)
                               else Inl (CoverageRecordMalformed ''selection modifier kind''))
                  | _ \<Rightarrow> Inl (CoverageRecordMalformed ''selection modifier kind''))))"

text \<open>A normalised label: the closed value and the label to retain, a JSON value.\<close>

definition VARIANT_LABELS :: "(string \<times> MarketVariant) list" where
  "VARIANT_LABELS =
     [(''standard'', STANDARD), (''default'', STANDARD), (''main'', STANDARD), (''balanced'', STANDARD),
      (''alternate'', ALTERNATE), (''alt'', ALTERNATE), (''demon'', ALTERNATE), (''goblin'', ALTERNATE),
      (''promotional'', PROMOTIONAL), (''promotion'', PROMOTIONAL), (''promo'', PROMOTIONAL)]"

definition normalize_market_variant :: "MarketVariant label_arg \<Rightarrow> MarketVariant \<times> json" where
  "normalize_market_variant a =
     (case a of
        Member m \<Rightarrow> (m, if m = UNKNOWN_VARIANT then JNull else JStr (variant_value m))
      | Label v \<Rightarrow> (case map_of VARIANT_LABELS (cleaned v) of Some m \<Rightarrow> (m, v) | None \<Rightarrow> (UNKNOWN_VARIANT, v)))"

definition DIRECTION_LABELS :: "(string \<times> SelectionDirection) list" where
  "DIRECTION_LABELS =
     [(''higher'', HIGHER), (''high'', HIGHER), (''over'', HIGHER), (''more'', HIGHER), (''more than'', HIGHER),
      (''greater'', HIGHER), (''greater than'', HIGHER), (''above'', HIGHER), (''lower'', LOWER), (''low'', LOWER),
      (''under'', LOWER), (''less'', LOWER), (''less than'', LOWER), (''below'', LOWER)]"

definition normalize_selection_direction :: "SelectionDirection label_arg \<Rightarrow> SelectionDirection \<times> json" where
  "normalize_selection_direction a =
     (case a of
        Member m \<Rightarrow> (m, if m = UNKNOWN_DIRECTION then JNull else JStr (direction_value m))
      | Label v \<Rightarrow> (case map_of DIRECTION_LABELS (cleaned v) of Some m \<Rightarrow> (m, v) | None \<Rightarrow> (UNKNOWN_DIRECTION, v)))"

definition STATUS_LABELS :: "(string \<times> MarketStatus) list" where
  "STATUS_LABELS =
     [(''available'', AVAILABLE), (''active'', AVAILABLE), (''open'', AVAILABLE), (''pre_game'', AVAILABLE),
      (''pre-game'', AVAILABLE), (''pregame'', AVAILABLE), (''suspended'', SUSPENDED), (''paused'', SUSPENDED)]"

definition normalize_market_status :: "MarketStatus label_arg \<Rightarrow> dfs_error + MarketStatus \<times> json" where
  "normalize_market_status a =
     (case a of
        Member m \<Rightarrow> Inr (m, JStr (status_value m))
      | Label v \<Rightarrow> and_then (of_option (ContractValueError ''market status'') (map_of STATUS_LABELS (cleaned v))) (\<lambda>m. Inr (m, v)))"

definition PERIOD_VALUES :: "(string \<times> ScoringPeriod) list" where
  "PERIOD_VALUES = map (\<lambda>p. (period_value p, p)) [FULL_GAME, FIRST_HALF, SECOND_HALF, FIRST_QUARTER, SECOND_QUARTER, UNKNOWN_PERIOD]"

definition PERIOD_LABELS :: "(string \<times> ScoringPeriod) list" where
  "PERIOD_LABELS =
     [(''full game'', FULL_GAME), (''game'', FULL_GAME), (''full'', FULL_GAME), (''first half'', FIRST_HALF),
      (''second half'', SECOND_HALF), (''first quarter'', FIRST_QUARTER), (''second quarter'', SECOND_QUARTER)]"

definition normalize_scoring_period :: "ScoringPeriod label_arg \<Rightarrow> ScoringPeriod \<times> json" where
  "normalize_scoring_period a =
     (case a of
        Member m \<Rightarrow> (m, if m = UNKNOWN_PERIOD then JNull else JStr (period_value m))
      | Label v \<Rightarrow>
          (case map_of PERIOD_VALUES (cleaned v) of
             Some m \<Rightarrow> (m, v)
           | None \<Rightarrow>
               (case map_of PERIOD_LABELS (map (\<lambda>c. if c = CHR ''-'' then CHR '' '' else c) (cleaned v)) of
                  Some m \<Rightarrow> (m, v) | None \<Rightarrow> (UNKNOWN_PERIOD, v))))"

definition resolve_scoring_period :: "ScoringPeriod label_arg \<Rightarrow> ScoringPeriod \<times> json" where
  "resolve_scoring_period a = (if a = Label JNull then (FULL_GAME, JNull) else normalize_scoring_period a)"

section \<open>Numbers\<close>

definition as_value_error :: "decimal_error + 'a \<Rightarrow> dfs_error + 'a" where
  "as_value_error m = (case m of Inl (NumericDomainError f) \<Rightarrow> Inl (ContractValueError f)
     | Inl _ \<Rightarrow> Inl (ContractValueError []) | Inr x \<Rightarrow> Inr x)"

definition decimal_value :: "quantity \<Rightarrow> string \<Rightarrow> dfs_error + Decimal" where
  "decimal_value q field = as_value_error (and_then (read_quantity q field) (\<lambda>d. normalized_decimal d field))"

text \<open>\<open>int(decimal)\<close> of a decimal without a fraction; \<open>digits[exponent:]\<close> are its last digits.\<close>

fun integral_of :: "Decimal \<Rightarrow> string \<Rightarrow> dfs_error + int" where
  "integral_of (Finite s c e) field =
     (if e < 0 \<and> list_ex (\<lambda>d. d \<noteq> 0) (drop (length (digits_of c) - nat (- e)) (digits_of c))
      then Inl (ContractValueError field)
      else let n = (if e < 0 then int (c div 10 ^ nat (- e)) else int c * 10 ^ nat e)
           in Inr (if s then - n else n))"
| "integral_of _ field = Inl (ContractValueError field)"

definition integral_value :: "quantity \<Rightarrow> string \<Rightarrow> dfs_error + int" where
  "integral_value q field = and_then (decimal_value q field) (\<lambda>d. integral_of d field)"

definition decimal_of_int :: "int \<Rightarrow> Decimal" where
  "decimal_of_int i = Finite (i < 0) (nat \<bar>i\<bar>) 0"

section \<open>Thresholds, modifiers and prices\<close>

definition stripped :: "json \<Rightarrow> string" where
  "stripped v = (case v of JStr s \<Rightarrow> strip s | _ \<Rightarrow> [])"

text \<open>\<open>value.strip() if isinstance(value, str) else None\<close>, then \<open>or None\<close>.\<close>

definition text_or_none :: "json \<Rightarrow> string option" where
  "text_or_none v = (if stripped v = [] then None else Some (stripped v))"

definition threshold_init :: "quantity \<Rightarrow> json \<Rightarrow> json \<Rightarrow> dfs_error + MarketThreshold" where
  "threshold_init value unit original =
     and_then (decimal_value value ''threshold value'') (\<lambda>d.
       if stripped unit = [] then Inl (ContractValueError ''threshold unit'')
       else case original of
           JNull \<Rightarrow> Inr \<lparr>th_value = d, th_unit = stripped unit, th_original_value = None\<rparr>
         | JStr s \<Rightarrow> Inr \<lparr>th_value = d, th_unit = stripped unit, th_original_value = Some s\<rparr>
         | _ \<Rightarrow> Inl (ContractValueError ''threshold original_value''))"

definition modifier_init :: "bool \<Rightarrow> quantity \<Rightarrow> ModifierKind label_arg \<Rightarrow> json \<Rightarrow> json \<Rightarrow> dfs_error + SelectionModifier" where
  "modifier_init lenient value kind scope label =
     and_then (decimal_value value ''selection modifier value'') (\<lambda>d.
     and_then (resolved_modifier_kind lenient kind) (\<lambda>k.
       if stripped scope = [] then Inl (ContractValueError ''selection modifier scope'')
       else case label of
           JNull \<Rightarrow> Inr \<lparr>sm_value = d, sm_kind = k, sm_scope = stripped scope, sm_label = None\<rparr>
         | JStr s \<Rightarrow> (if strip s = [] then Inl (ContractValueError ''selection modifier label'')
                     else Inr \<lparr>sm_value = d, sm_kind = k, sm_scope = stripped scope, sm_label = Some s\<rparr>)
         | _ \<Rightarrow> Inl (ContractValueError ''selection modifier label'')))"

definition price_enum :: "('e \<Rightarrow> string) \<Rightarrow> 'e list \<Rightarrow> 'e label_arg \<Rightarrow> string \<Rightarrow> dfs_error + 'e" where
  "price_enum name members a field =
     (case a of
        Member m \<Rightarrow> Inr m
      | Label (JStr s) \<Rightarrow> of_option (ContractValueError field) (find (\<lambda>m. name m = s) members)
      | Label _ \<Rightarrow> Inl (ContractValueError field))"

definition PRICE_KINDS :: "PriceKind list" where "PRICE_KINDS = [AMERICAN, DECIMAL, MULTIPLIER, UNPRICED]"
definition PRICE_SCOPES :: "PriceScope list" where "PRICE_SCOPES = [SELECTION_SCOPE, ENTRY_SCOPE]"

definition payouts_of :: "SelectionModifier list \<Rightarrow> SelectionModifier list" where
  "payouts_of modifiers = filter (\<lambda>m. sm_kind m = modifier_kind_value PAYOUT_MULTIPLIER) modifiers"

type_synonym price = "PriceKind \<times> Decimal option \<times> PriceScope"

definition derived_price :: "int option \<Rightarrow> Decimal option \<Rightarrow> SelectionModifier list \<Rightarrow> dfs_error + price" where
  "derived_price american_price decimal_price modifiers =
     (case american_price of
        Some i \<Rightarrow> Inr (AMERICAN, Some (decimal_of_int i), SELECTION_SCOPE)
      | None \<Rightarrow>
          (case decimal_price of
             Some d \<Rightarrow> Inr (DECIMAL, Some d, SELECTION_SCOPE)
           | None \<Rightarrow>
               (case payouts_of modifiers of
                  [] \<Rightarrow> Inr (UNPRICED, None, SELECTION_SCOPE)
                | [m] \<Rightarrow> Inr (MULTIPLIER, Some (sm_value m), ENTRY_SCOPE)
                | _ \<Rightarrow> Inl (CoverageRecordMalformed ''payout multiplier''))))"

definition stated_value :: "PriceKind \<Rightarrow> quantity \<Rightarrow> int option \<Rightarrow> Decimal option \<Rightarrow> SelectionModifier list \<Rightarrow> dfs_error + Decimal" where
  "stated_value kind q american_price decimal_price modifiers =
     (if kind = AMERICAN then
        and_then (integral_value q ''selection price_value'') (\<lambda>i.
          case american_price of
            Some a \<Rightarrow> (if i \<noteq> a then Inl (ContractValueError ''american_price'') else Inr (decimal_of_int i))
          | None \<Rightarrow> Inr (decimal_of_int i))
      else and_then (decimal_value q ''selection price_value'') (\<lambda>v.
        if kind = DECIMAL then
          (case decimal_price of
             Some d \<Rightarrow> (if dec_value v \<noteq> dec_value d then Inl (ContractValueError ''decimal_price'') else Inr v)
           | None \<Rightarrow> Inr v)
        else if dec_value v \<le> 0 then Inl (ContractValueError ''multiplier'')
        else case payouts_of modifiers of
            [m] \<Rightarrow> (if dec_value v \<noteq> dec_value (sm_value m) then Inl (ContractValueError ''payout multiplier'') else Inr v)
          | _ \<Rightarrow> Inr v))"

definition canonical_price ::
  "PriceKind label_arg \<Rightarrow> quantity option \<Rightarrow> PriceScope label_arg \<Rightarrow> int option \<Rightarrow> Decimal option \<Rightarrow> SelectionModifier list
     \<Rightarrow> dfs_error + price" where
  "canonical_price price_kind price_value price_scope american_price decimal_price modifiers =
     (if price_kind = Label JNull then
        (if price_value \<noteq> None \<or> price_scope \<noteq> Label JNull then Inl (ContractValueError ''price_kind'')
         else derived_price american_price decimal_price modifiers)
      else and_then (price_enum price_kind_value PRICE_KINDS price_kind ''price_kind'') (\<lambda>kind.
        and_then (if price_scope = Label JNull
                  then Inr (if kind = MULTIPLIER then ENTRY_SCOPE else SELECTION_SCOPE)
                  else price_enum price_scope_value PRICE_SCOPES price_scope ''price_scope'') (\<lambda>scope.
          if kind = UNPRICED then
            (if price_value \<noteq> None then Inl (ContractValueError ''price_value'') else Inr (kind, None, scope))
          else case price_value of
              None \<Rightarrow> Inl (ContractValueError ''price_value'')
            | Some q \<Rightarrow> and_then (stated_value kind q american_price decimal_price modifiers)
                (\<lambda>v. Inr (kind, Some v, scope)))))"

section \<open>Selections\<close>

text \<open>\<open>_optional_identifier\<close> and the check that follows it: only a text that is not blank is kept.\<close>

datatype id_arg = NoId | TextId string | IntId int | OtherId

definition optional_identifier :: "id_arg \<Rightarrow> string \<Rightarrow> dfs_error + string option" where
  "optional_identifier v field =
     (case v of
        NoId \<Rightarrow> Inr None
      | TextId s \<Rightarrow> (if strip s = [] then Inl (ContractValueError field) else Inr (Some s))
      | _ \<Rightarrow> Inl (ContractValueError field))"

record raw_selection =
  rs_selection_id :: id_arg
  rs_label :: json
  rs_direction :: "SelectionDirection label_arg"
  rs_direction_label :: "SelectionDirection label_arg"
  rs_status :: json
  rs_modifiers :: "SelectionModifier list"
  rs_american_price :: "quantity option"
  rs_decimal_price :: "quantity option"
  rs_price_kind :: "PriceKind label_arg"
  rs_price_value :: "quantity option"
  rs_price_scope :: "PriceScope label_arg"

text \<open>A member of the enum is itself a text, its value.\<close>

definition arg_json :: "('e \<Rightarrow> string) \<Rightarrow> 'e label_arg \<Rightarrow> json" where
  "arg_json name a = (case a of Member m \<Rightarrow> JStr (name m) | Label v \<Rightarrow> v)"

definition text_or_refuse :: "json \<Rightarrow> string \<Rightarrow> dfs_error + string option" where
  "text_or_refuse v field =
     (case v of JNull \<Rightarrow> Inr None | JStr s \<Rightarrow> Inr (Some s) | _ \<Rightarrow> Inl (ContractValueError field))"

definition opt_res :: "('a \<Rightarrow> 'e + 'b) \<Rightarrow> 'a option \<Rightarrow> 'e + 'b option" where
  "opt_res f v = (case v of None \<Rightarrow> Inr None | Some x \<Rightarrow> and_then (f x) (\<lambda>y. Inr (Some y)))"

definition selection_init :: "raw_selection \<Rightarrow> dfs_error + Selection" where
  "selection_init r =
     and_then (optional_identifier (rs_selection_id r) ''selection_id'') (\<lambda>selection_id.
     (let raw_direction = (if rs_direction_label r \<noteq> Label JNull then rs_direction_label r else rs_direction r);
          (direction, original) = normalize_selection_direction raw_direction;
          kept_label = (if rs_direction_label r \<noteq> Label JNull then arg_json direction_value (rs_direction_label r) else original)
      in and_then (text_or_refuse kept_label ''direction_label'') (\<lambda>direction_label.
         and_then (opt_res (\<lambda>q. integral_value q ''american_price'') (rs_american_price r)) (\<lambda>american_price.
         and_then (opt_res (\<lambda>q. decimal_value q ''decimal_price'') (rs_decimal_price r)) (\<lambda>decimal_price.
         and_then (canonical_price (rs_price_kind r) (rs_price_value r) (rs_price_scope r) american_price decimal_price
                     (rs_modifiers r)) (\<lambda>(kind, v, scope).
           Inr \<lparr>sl_selection_id = selection_id, sl_label = text_or_none (rs_label r), sl_direction = direction_value direction,
                sl_direction_label = direction_label, sl_status = text_or_none (rs_status r), sl_modifiers = rs_modifiers r,
                sl_american_price = american_price, sl_decimal_price = decimal_price, sl_price_kind = price_kind_value kind,
                sl_price_value = v, sl_price_scope = price_scope_value scope\<rparr>))))))"

definition is_priced :: "Selection \<Rightarrow> bool" where
  "is_priced s \<longleftrightarrow> sl_price_kind s \<noteq> price_kind_value UNPRICED"

section \<open>Markets\<close>

record raw_market =
  rm_provider :: json
  rm_market_id :: id_arg
  rm_status :: "MarketStatus label_arg"
  rm_status_label :: json
  rm_variant :: "MarketVariant label_arg"
  rm_variant_label :: json
  rm_scoring_period :: "ScoringPeriod label_arg"
  rm_scoring_period_label :: json

definition retained :: "json \<Rightarrow> json \<Rightarrow> json" where
  "retained given derived = (if given \<noteq> JNull then given else derived)"

definition one_price_form :: "Selection list \<Rightarrow> bool" where
  "one_price_form selections \<longleftrightarrow> card ((\<lambda>s. (sl_price_kind s, sl_price_scope s)) ` set (filter is_priced selections)) \<le> 1"

text \<open>
  The labels a market keeps are stored as they were given, whatever their type; the evidence and
  the selections have been built before. Timestamps are aware already.
\<close>

record market_labels =
  ml_provider :: string
  ml_market_id :: "string option"
  ml_status :: MarketStatus
  ml_status_label :: json
  ml_variant :: MarketVariant
  ml_variant_label :: json
  ml_scoring_period :: ScoringPeriod
  ml_scoring_period_label :: json
  ml_selections :: "Selection list"

definition market_init :: "bool \<Rightarrow> raw_market \<Rightarrow> Selection list \<Rightarrow> dfs_error + market_labels" where
  "market_init lenient r selections =
     (if cleaned (rm_provider r) = [] then Inl (ContractValueError ''market provider'')
      else and_then (optional_identifier (rm_market_id r) ''market_id'') (\<lambda>market_id.
        and_then (normalize_market_status (rm_status r)) (\<lambda>(status, status_original).
        (let (variant, variant_original) = normalize_market_variant (rm_variant r);
             (period, period_original) = resolve_scoring_period (rm_scoring_period r);
             period_label = (if rm_scoring_period_label r \<noteq> JNull then rm_scoring_period_label r
                             else case rm_scoring_period r of Label (JStr _) \<Rightarrow> period_original | _ \<Rightarrow> JNull)
         in if \<not> lenient \<and> \<not> one_price_form selections
            then Inl (MalformedProviderResponse ''market selections must state one price kind and scope'')
            else Inr \<lparr>ml_provider = cleaned (rm_provider r), ml_market_id = market_id, ml_status = status,
                      ml_status_label = retained (rm_status_label r) status_original, ml_variant = variant,
                      ml_variant_label = retained (rm_variant_label r) variant_original, ml_scoring_period = period,
                      ml_scoring_period_label = period_label, ml_selections = selections\<rparr>))))"

definition market_price_kind :: "Selection list \<Rightarrow> string" where
  "market_price_kind selections = (case filter is_priced selections of s # _ \<Rightarrow> sl_price_kind s | [] \<Rightarrow> price_kind_value UNPRICED)"

definition market_price_scope :: "Selection list \<Rightarrow> string" where
  "market_price_scope selections =
     (case filter is_priced selections of s # _ \<Rightarrow> sl_price_scope s | [] \<Rightarrow> price_scope_value SELECTION_SCOPE)"

section \<open>Building a selection again\<close>

definition member_of :: "('e \<Rightarrow> string) \<Rightarrow> 'e list \<Rightarrow> string \<Rightarrow> 'e label_arg" where
  "member_of name members s = (case find (\<lambda>m. name m = s) members of Some m \<Rightarrow> Member m | None \<Rightarrow> Label (JStr s))"

definition DIRECTIONS :: "SelectionDirection list" where "DIRECTIONS = [HIGHER, LOWER, UNKNOWN_DIRECTION]"

definition opt_text :: "string option \<Rightarrow> json" where
  "opt_text v = (case v of None \<Rightarrow> JNull | Some s \<Rightarrow> JStr s)"

text \<open>The arguments a selection is built from again: its own fields, as \<open>dataclasses.replace\<close> and the
  decoder of the snapshot cache pass them.\<close>

definition fields_of :: "Selection \<Rightarrow> raw_selection" where
  "fields_of s =
     \<lparr>rs_selection_id = (case sl_selection_id s of None \<Rightarrow> NoId | Some i \<Rightarrow> TextId i), rs_label = opt_text (sl_label s),
      rs_direction = member_of direction_value DIRECTIONS (sl_direction s),
      rs_direction_label = Label (opt_text (sl_direction_label s)), rs_status = opt_text (sl_status s),
      rs_modifiers = sl_modifiers s, rs_american_price = map_option QInt (sl_american_price s),
      rs_decimal_price = map_option QDecimal (sl_decimal_price s),
      rs_price_kind = member_of price_kind_value PRICE_KINDS (sl_price_kind s),
      rs_price_value = map_option QDecimal (sl_price_value s),
      rs_price_scope = member_of price_scope_value PRICE_SCOPES (sl_price_scope s)\<rparr>"

lemma dropWhile_rev_strip: "s = [] \<or> \<not> P (hd s) \<Longrightarrow> dropWhile P s = s"
  by (cases s) auto

lemma strip_strip [simp]: "strip (strip s) = strip s"
proof -
  define a where "a = dropWhile is_space s"
  define b where "b = rev (dropWhile is_space (rev a))"
  have b: "b = [] \<or> \<not> is_space (last b)"
    by (metis b_def dropWhile_eq_Nil_conv hd_dropWhile last_rev rev_is_Nil_conv)
  have "b = [] \<or> hd b = hd a"
  proof (cases b)
    case (Cons x xs)
    have "a = b @ rev (takeWhile is_space (rev a))" unfolding b_def by (metis rev_append rev_rev_ident takeWhile_dropWhile_id)
    then show ?thesis using Cons by (metis append_Cons list.sel(1))
  qed simp
  moreover have "a = [] \<or> \<not> is_space (hd a)" unfolding a_def by (metis hd_dropWhile)
  moreover have "b \<noteq> [] \<Longrightarrow> a \<noteq> []" unfolding b_def by auto
  ultimately have "b = [] \<or> \<not> is_space (hd b)" by metis
  then have "dropWhile is_space b = b" by (rule dropWhile_rev_strip)
  moreover have "dropWhile is_space (rev b) = rev b"
    by (rule dropWhile_rev_strip) (use b in \<open>auto simp: hd_rev\<close>)
  ultimately show ?thesis unfolding strip_def a_def [symmetric] b_def [symmetric] by simp
qed

lemma text_or_none_again [simp]: "text_or_none (opt_text (text_or_none v)) = text_or_none v"
  by (auto simp: text_or_none_def opt_text_def stripped_def split: json.splits)

lemma identifier_again:
  assumes "optional_identifier v f = Inr i"
  shows "optional_identifier (case i of None \<Rightarrow> NoId | Some x \<Rightarrow> TextId x) f' = Inr i"
  using assms by (cases v) (auto simp: optional_identifier_def split: if_splits)

lemma direction_members [simp]: "member_of direction_value DIRECTIONS (direction_value d) = Member d"
  by (cases d) (simp_all add: member_of_def DIRECTIONS_def)

lemma kind_members [simp]: "member_of price_kind_value PRICE_KINDS (price_kind_value k) = Member k"
  by (cases k) (simp_all add: member_of_def PRICE_KINDS_def)

lemma scope_members [simp]: "member_of price_scope_value PRICE_SCOPES (price_scope_value k) = Member k"
  by (cases k) (simp_all add: member_of_def PRICE_SCOPES_def)

lemma direction_label_again: "fst (normalize_selection_direction (Label (JStr (direction_value m)))) = m"
  by (cases m) (simp_all add: normalize_selection_direction_def cleaned_def strip_def casefold_def lower_char_def is_space_def
      Let_def DIRECTION_LABELS_def)

lemma direction_again:
  assumes "(d, orig) = normalize_selection_direction (if dl \<noteq> Label JNull then dl else da)"
    "text_or_refuse (if dl \<noteq> Label JNull then arg_json direction_value dl else orig) f = Inr kept"
  shows "normalize_selection_direction (if Label (opt_text kept) \<noteq> Label JNull then Label (opt_text kept) else Member d)
      = (d, if kept = None then JNull else opt_text kept)" "kept = None \<longrightarrow> d = UNKNOWN_DIRECTION"
proof -
  define a where "a = (if dl \<noteq> Label JNull then dl else da)"
  define j where "j = (if dl \<noteq> Label JNull then arg_json direction_value dl else orig)"
  have n: "normalize_selection_direction a = (d, orig)" using assms(1) by (simp add: a_def)
  have j: "text_or_refuse j f = Inr kept" using assms(2) by (simp add: j_def)
  have cases: "(\<exists>m. a = Member m \<and> d = m \<and> (j = JStr (direction_value m) \<or> j = JNull \<and> m = UNKNOWN_DIRECTION)) \<or> a = Label j"
    using n by (cases a) (auto simp: a_def j_def arg_json_def normalize_selection_direction_def split: option.splits if_splits)
  have lab: "normalize_selection_direction (Label (JStr l)) = (d, JStr l)"
    if "fst (normalize_selection_direction (Label (JStr l))) = d" for l
    using that by (auto simp: normalize_selection_direction_def split: option.splits)
  have "(normalize_selection_direction (if Label (opt_text kept) \<noteq> Label JNull then Label (opt_text kept) else Member d)
      = (d, if kept = None then JNull else opt_text kept)) \<and> (kept = None \<longrightarrow> d = UNKNOWN_DIRECTION)"
  proof (cases kept)
    case None
    then have "j = JNull" using j by (auto simp: text_or_refuse_def split: json.splits)
    moreover have "normalize_selection_direction (Label JNull) = (UNKNOWN_DIRECTION, JNull)"
      by (simp add: normalize_selection_direction_def cleaned_def DIRECTION_LABELS_def)
    ultimately have "d = UNKNOWN_DIRECTION" using cases n by auto
    then show ?thesis using None by (simp add: opt_text_def normalize_selection_direction_def)
  next
    case (Some l)
    then have jl: "j = JStr l" using j by (auto simp: text_or_refuse_def split: json.splits)
    have "fst (normalize_selection_direction (Label (JStr l))) = d"
      using cases n jl direction_label_again by auto
    then show ?thesis using Some lab by (simp add: opt_text_def)
  qed
  then show "normalize_selection_direction (if Label (opt_text kept) \<noteq> Label JNull then Label (opt_text kept) else Member d)
      = (d, if kept = None then JNull else opt_text kept)" "kept = None \<longrightarrow> d = UNKNOWN_DIRECTION" by blast+
qed

definition in_domain :: "Decimal \<Rightarrow> bool" where
  "in_domain d \<longleftrightarrow> normalized_decimal d [] = Inr d"

lemma normalized_decimal_iff: "normalized_decimal d f = Inr d' \<longleftrightarrow> d' = d \<and> in_domain d"
  by (auto simp: in_domain_def normalized_decimal_def split: Decimal.splits prod.splits if_splits)

lemma in_domain_Finite: "in_domain (Finite s c e) \<longleftrightarrow> - 128 \<le> e \<and> e + int (length (show_nat c)) \<le> 129"
  by (auto simp: in_domain_def normalized_decimal_def decimal_places_def NORMALIZED_DECIMAL_PLACE_LIMIT_def)

lemma in_domain_finite: "in_domain d \<Longrightarrow> \<exists>s c e. d = Finite s c e"
  by (cases d) (auto simp: in_domain_def normalized_decimal_def)

lemma decimal_value_Inr: "decimal_value q f = Inr d \<Longrightarrow> in_domain d"
  by (auto simp: decimal_value_def as_value_error_def normalized_decimal_iff and_then_Inr split: sum.splits decimal_error.splits)

lemma decimal_value_again: "in_domain d \<Longrightarrow> decimal_value (QDecimal d) f = Inr d"
  using normalized_decimal_iff [of d f d] by (simp add: decimal_value_def as_value_error_def read_quantity_def)

lemma integral_fits:
  assumes "integral_value q f = Inr i" shows "in_domain (decimal_of_int i)"
proof -
  obtain d where d: "decimal_value q f = Inr d" "integral_of d f = Inr i" using assms by (auto simp: integral_value_def and_then_Inr)
  obtain s c e where D: "d = Finite s c e" using in_domain_finite decimal_value_Inr [OF d(1)] by blast
  have b: "- 128 \<le> e" "e + int (length (show_nat c)) \<le> 129" using decimal_value_Inr [OF d(1)] by (auto simp: D in_domain_Finite)
  have c: "c < 10 ^ length (show_nat c)" using show_nat_length [of c] by (cases "c = 0") auto
  have i: "nat \<bar>i\<bar> = (if e < 0 then c div 10 ^ nat (- e) else c * 10 ^ nat e)"
    using d(2) by (auto simp: D Let_def nat_mult_distrib nat_power_eq split: if_splits)
  have "length (show_nat (nat \<bar>i\<bar>)) \<le> 129"
  proof (cases "e < 0")
    case True
    define k where "k = nat (- e)"
    have "length (show_nat c) \<le> 129 + k" using b True by (simp add: k_def)
    then have "c < 10 ^ (129 + k)" using c by (meson less_le_trans one_le_numeral power_increasing)
    then have "c div 10 ^ k < 10 ^ 129" by (simp only: power_add less_mult_imp_div_less)
    then show ?thesis using show_nat_length_le [of "c div 10 ^ k" 129] i True by (simp add: k_def)
  next
    case False
    have "c * 10 ^ nat e < 10 ^ length (show_nat c) * 10 ^ nat e" using c by simp
    then have "c * 10 ^ nat e < 10 ^ (length (show_nat c) + nat e)" by (simp only: power_add)
    moreover have "length (show_nat c) + nat e \<le> 129" using b False by linarith
    moreover have "0 < length (show_nat c) + nat e" by simp
    ultimately show ?thesis using show_nat_length_le [of "c * 10 ^ nat e" "length (show_nat c) + nat e"] i False by simp
  qed
  then show ?thesis by (simp add: decimal_of_int_def in_domain_Finite)
qed

lemma integral_again:
  assumes "in_domain (decimal_of_int i)"
  shows "integral_value (QDecimal (decimal_of_int i)) f = Inr i" "integral_value (QInt i) f = Inr i"
proof -
  have d: "decimal_value (QDecimal (decimal_of_int i)) f = Inr (decimal_of_int i)" "decimal_value (QInt i) f = Inr (decimal_of_int i)"
    using decimal_value_again [OF assms]
    by (simp_all add: decimal_value_def read_quantity_def decimal_of_int_def)
  show "integral_value (QDecimal (decimal_of_int i)) f = Inr i" "integral_value (QInt i) f = Inr i"
    unfolding integral_value_def d by (simp_all add: decimal_of_int_def Let_def)
qed

lemma canonical_price_fits:
  assumes "canonical_price pk pv ps ap dp ms = Inr (k, v, sc)"
    "\<forall>i. ap = Some i \<longrightarrow> in_domain (decimal_of_int i)" "\<forall>d. dp = Some d \<longrightarrow> in_domain d" "\<forall>m \<in> set ms. in_domain (sm_value m)"
  shows "k = UNPRICED \<and> v = None \<or>
    k = AMERICAN \<and> (\<exists>i. v = Some (decimal_of_int i) \<and> in_domain (decimal_of_int i) \<and> (\<forall>a. ap = Some a \<longrightarrow> a = i)) \<or>
    k = DECIMAL \<and> (\<exists>d. v = Some d \<and> in_domain d \<and> (\<forall>a. dp = Some a \<longrightarrow> dec_value d = dec_value a)) \<or>
    k = MULTIPLIER \<and> (\<exists>d. v = Some d \<and> in_domain d \<and> (\<forall>m. payouts_of ms = [m] \<longrightarrow> dec_value d = dec_value (sm_value m)))"
proof (cases "pk = Label JNull")
  case True
  then have d: "derived_price ap dp ms = Inr (k, v, sc)" using assms(1) by (simp add: canonical_price_def split: if_splits)
  have p: "m \<in> set ms" if "m \<in> set (payouts_of ms)" for m using that by (simp add: payouts_of_def)
  show ?thesis
    using d assms(2-4) p
    by (auto simp: derived_price_def split: option.splits list.splits)
next
  case False
  show ?thesis
  proof (cases "k = UNPRICED")
    case True
    then show ?thesis using assms(1) False
      by (auto simp: canonical_price_def and_then_Inr split: if_splits option.splits)
  next
    case unpriced: False
    obtain q x where q: "v = Some x" "stated_value k q ap dp ms = Inr x"
      using assms(1) False unpriced by (auto simp: canonical_price_def and_then_Inr split: if_splits option.splits)
    show ?thesis
    proof (cases "k = AMERICAN")
      case True
      then obtain i where i: "integral_value q ''selection price_value'' = Inr i" using q(2)
        by (auto simp: stated_value_def and_then_Inr)
      then show ?thesis using q True integral_fits [OF i]
        by (cases ap) (auto simp: stated_value_def split: if_splits)
    next
      case not_american: False
      obtain y where y: "decimal_value q ''selection price_value'' = Inr y" using q(2) not_american
        by (auto simp: stated_value_def and_then_Inr)
      show ?thesis using q unpriced not_american decimal_value_Inr [OF y]
        by (cases k) (auto simp: stated_value_def y split: option.splits if_splits list.splits)
    qed
  qed
qed

lemma canonical_price_again:
  assumes "k = UNPRICED \<and> v = None \<or>
    k = AMERICAN \<and> (\<exists>i. v = Some (decimal_of_int i) \<and> in_domain (decimal_of_int i) \<and> (\<forall>a. ap = Some a \<longrightarrow> a = i)) \<or>
    k = DECIMAL \<and> (\<exists>d. v = Some d \<and> in_domain d \<and> (\<forall>a. dp = Some a \<longrightarrow> dec_value d = dec_value a)) \<or>
    k = MULTIPLIER \<and> (\<exists>d. v = Some d \<and> in_domain d \<and> (\<forall>m. payouts_of ms = [m] \<longrightarrow> dec_value d = dec_value (sm_value m)))"
  shows "canonical_price (Member k) (map_option QDecimal v) (Member sc) ap dp ms =
    (if k = MULTIPLIER \<and> dec_value (the v) \<le> 0 then Inl (ContractValueError ''multiplier'') else Inr (k, v, sc))"
  using assms
proof (elim disjE conjE exE)
  fix i assume k: "k = AMERICAN" "v = Some (decimal_of_int i)" "in_domain (decimal_of_int i)" "\<forall>a. ap = Some a \<longrightarrow> a = i"
  then show ?thesis
    by (cases ap) (simp_all add: canonical_price_def price_enum_def stated_value_def integral_again)
next
  fix d assume k: "k = DECIMAL" "v = Some d" "in_domain d" "\<forall>a. dp = Some a \<longrightarrow> dec_value d = dec_value a"
  then show ?thesis
    by (cases dp) (simp_all add: canonical_price_def price_enum_def stated_value_def decimal_value_again)
next
  fix d assume k: "k = MULTIPLIER" "v = Some d" "in_domain d" "\<forall>m. payouts_of ms = [m] \<longrightarrow> dec_value d = dec_value (sm_value m)"
  then show ?thesis
    by (auto simp add: canonical_price_def price_enum_def stated_value_def decimal_value_again split: list.splits)
qed (simp add: canonical_price_def price_enum_def)

lemma modifier_in_domain: "modifier_init lenient q k sc lb = Inr m \<Longrightarrow> in_domain (sm_value m)"
  by (auto simp: modifier_init_def and_then_Inr dest: decimal_value_Inr split: if_splits json.splits)

lemma selection_initD:
  assumes "selection_init r = Inr s"
  obtains d orig k v sc where
    "optional_identifier (rs_selection_id r) ''selection_id'' = Inr (sl_selection_id s)"
    "(d, orig) = normalize_selection_direction (if rs_direction_label r \<noteq> Label JNull then rs_direction_label r else rs_direction r)"
    "text_or_refuse (if rs_direction_label r \<noteq> Label JNull then arg_json direction_value (rs_direction_label r) else orig)
       ''direction_label'' = Inr (sl_direction_label s)"
    "opt_res (\<lambda>q. integral_value q ''american_price'') (rs_american_price r) = Inr (sl_american_price s)"
    "opt_res (\<lambda>q. decimal_value q ''decimal_price'') (rs_decimal_price r) = Inr (sl_decimal_price s)"
    "canonical_price (rs_price_kind r) (rs_price_value r) (rs_price_scope r) (sl_american_price s) (sl_decimal_price s) (rs_modifiers r)
       = Inr (k, v, sc)"
    "sl_label s = text_or_none (rs_label r)" "sl_direction s = direction_value d" "sl_status s = text_or_none (rs_status r)"
    "sl_modifiers s = rs_modifiers r" "sl_price_kind s = price_kind_value k" "sl_price_value s = v" "sl_price_scope s = price_scope_value sc"
proof -
  obtain d orig where n: "normalize_selection_direction (if rs_direction_label r \<noteq> Label JNull then rs_direction_label r else rs_direction r) = (d, orig)"
    by (meson surj_pair)
  obtain x l i d' k v sc where h: "optional_identifier (rs_selection_id r) ''selection_id'' = Inr x"
    "text_or_refuse (if rs_direction_label r \<noteq> Label JNull then arg_json direction_value (rs_direction_label r) else orig)
       ''direction_label'' = Inr l"
    "opt_res (\<lambda>q. integral_value q ''american_price'') (rs_american_price r) = Inr i"
    "opt_res (\<lambda>q. decimal_value q ''decimal_price'') (rs_decimal_price r) = Inr d'"
    "canonical_price (rs_price_kind r) (rs_price_value r) (rs_price_scope r) i d' (rs_modifiers r) = Inr (k, v, sc)"
    "s = \<lparr>sl_selection_id = x, sl_label = text_or_none (rs_label r), sl_direction = direction_value d,
          sl_direction_label = l, sl_status = text_or_none (rs_status r), sl_modifiers = rs_modifiers r,
          sl_american_price = i, sl_decimal_price = d', sl_price_kind = price_kind_value k,
          sl_price_value = v, sl_price_scope = price_scope_value sc\<rparr>"
    using assms unfolding selection_init_def Let_def n
    by (simp only: and_then_Inr prod.case split_paired_Ex sum.inject) blast
  show thesis by (rule that [of d orig k v sc]) (use h n in simp_all)
qed

text \<open>
  C40. Building a selection again from its own fields, as a replacement of one field or a decoded
  snapshot does, gives the same selection, with one exception: a selection whose only price is a
  payout multiplier that is zero or negative. It is accepted when its price is derived from the
  modifier, and refused when the same price is stated.
\<close>

theorem selection_rebuilds:
  assumes "selection_init r = Inr s"
    "\<forall>m \<in> set (rs_modifiers r). \<exists>lenient q k sc lb. modifier_init lenient q k sc lb = Inr m"
  shows "selection_init (fields_of s) =
    (if sl_price_kind s = ''multiplier'' \<and> dec_value (the (sl_price_value s)) \<le> 0
     then Inl (ContractValueError ''multiplier'') else Inr s)"
proof -
  obtain d orig k v sc where h: "optional_identifier (rs_selection_id r) ''selection_id'' = Inr (sl_selection_id s)"
    "(d, orig) = normalize_selection_direction (if rs_direction_label r \<noteq> Label JNull then rs_direction_label r else rs_direction r)"
    "text_or_refuse (if rs_direction_label r \<noteq> Label JNull then arg_json direction_value (rs_direction_label r) else orig)
       ''direction_label'' = Inr (sl_direction_label s)"
    "opt_res (\<lambda>q. integral_value q ''american_price'') (rs_american_price r) = Inr (sl_american_price s)"
    "opt_res (\<lambda>q. decimal_value q ''decimal_price'') (rs_decimal_price r) = Inr (sl_decimal_price s)"
    "canonical_price (rs_price_kind r) (rs_price_value r) (rs_price_scope r) (sl_american_price s) (sl_decimal_price s) (rs_modifiers r)
       = Inr (k, v, sc)"
    "sl_label s = text_or_none (rs_label r)" "sl_direction s = direction_value d" "sl_status s = text_or_none (rs_status r)"
    "sl_modifiers s = rs_modifiers r" "sl_price_kind s = price_kind_value k" "sl_price_value s = v" "sl_price_scope s = price_scope_value sc"
    using selection_initD [OF assms(1)] .
  note dir = direction_again [OF h(2,3)]
  have ap: "\<forall>i. sl_american_price s = Some i \<longrightarrow> in_domain (decimal_of_int i)"
    using h(4) integral_fits by (cases "rs_american_price r") (auto simp: opt_res_def and_then_Inr)
  have dp: "\<forall>x. sl_decimal_price s = Some x \<longrightarrow> in_domain x"
    using h(5) decimal_value_Inr by (cases "rs_decimal_price r") (auto simp: opt_res_def and_then_Inr)
  have md: "\<forall>m \<in> set (rs_modifiers r). in_domain (sm_value m)" using assms(2) modifier_in_domain by blast
  have ap': "opt_res (\<lambda>q. integral_value q ''american_price'') (map_option QInt (sl_american_price s)) = Inr (sl_american_price s)"
    using ap integral_again(2) by (cases "sl_american_price s") (simp_all add: opt_res_def)
  have dp': "opt_res (\<lambda>q. decimal_value q ''decimal_price'') (map_option QDecimal (sl_decimal_price s)) = Inr (sl_decimal_price s)"
    using dp decimal_value_again by (cases "sl_decimal_price s") (simp_all add: opt_res_def)
  note price = canonical_price_again [OF canonical_price_fits [OF h(6) ap dp md], of sc]
  have kl: "text_or_refuse (if Label (opt_text (sl_direction_label s)) \<noteq> Label JNull
        then arg_json direction_value (Label (opt_text (sl_direction_label s)))
        else if sl_direction_label s = None then JNull else opt_text (sl_direction_label s)) ''direction_label'' = Inr (sl_direction_label s)"
    by (cases "sl_direction_label s") (simp_all add: text_or_refuse_def opt_text_def arg_json_def)
  have mult: "price_kind_value k = ''multiplier'' \<longleftrightarrow> k = MULTIPLIER" by (cases k) simp_all
  show ?thesis
    unfolding selection_init_def fields_of_def raw_selection.select_convs identifier_again [OF h(1)] and_then.simps
      h(8) direction_members dir(1) Let_def prod.case kl ap' dp' h(10-13) kind_members scope_members price mult h(7,9) text_or_none_again
    using h by (cases s) (auto simp: h)
qed

definition free_leg :: SelectionModifier where
  "free_leg = \<lparr>sm_value = Finite False 0 0, sm_kind = ''payout_multiplier'', sm_scope = ''selection'', sm_label = None\<rparr>"

definition free_selection :: raw_selection where
  "free_selection =
     \<lparr>rs_selection_id = TextId ''o'', rs_label = JNull, rs_direction = Member HIGHER, rs_direction_label = Label JNull,
      rs_status = JNull, rs_modifiers = [free_leg], rs_american_price = None, rs_decimal_price = None,
      rs_price_kind = Label JNull, rs_price_value = None, rs_price_scope = Label JNull\<rparr>"

text \<open>A payout multiplier of zero is accepted, and the accepted selection cannot be built again.\<close>

theorem selection_rebuilds_witness:
  "\<exists>s. selection_init free_selection = Inr s \<and> selection_init (fields_of s) = Inl (ContractValueError ''multiplier'')"
proof -
  have strip: "strip ''selection'' = ''selection''" "strip ''o'' = ''o''" by (simp_all add: strip_def is_space_def)
  have "modifier_init False (QInt 0) (Member PAYOUT_MULTIPLIER) (JStr ''selection'') JNull = Inr free_leg"
    by (simp add: modifier_init_def decimal_value_def as_value_error_def read_quantity_def normalized_decimal_def decimal_places_def
        NORMALIZED_DECIMAL_PLACE_LIMIT_def show_nat_small resolved_modifier_kind_def normalize_modifier_kind_def stripped_def strip
        free_leg_def)
  moreover have "set (rs_modifiers free_selection) = {free_leg}" by (simp add: free_selection_def)
  ultimately have m: "\<forall>m \<in> set (rs_modifiers free_selection). \<exists>lenient q k sc lb. modifier_init lenient q k sc lb = Inr m"
    by (metis singletonD)
  obtain s where s: "selection_init free_selection = Inr s" "sl_price_kind s = ''multiplier''" "sl_price_value s = Some (Finite False 0 0)"
    by (auto simp: selection_init_def free_selection_def optional_identifier_def strip normalize_selection_direction_def
        text_or_refuse_def opt_res_def canonical_price_def derived_price_def payouts_of_def free_leg_def)
  show ?thesis using selection_rebuilds [OF s(1) m] s by auto
qed

text \<open>
  A market states one price form. When the strict constructor accepts a market, all its priced
  selections have the same kind and scope, and these are the kind and scope the market reports.
\<close>

theorem market_states_one_price:
  assumes "market_init False r selections = Inr m" "s \<in> set (ml_selections m)" "is_priced s"
  shows "sl_price_kind s = market_price_kind (ml_selections m) \<and> sl_price_scope s = market_price_scope (ml_selections m)"
proof -
  let ?f = "\<lambda>s. (sl_price_kind s, sl_price_scope s)"
  have o: "one_price_form selections" "ml_selections m = selections"
    using assms(1)
    by (cases "normalize_market_variant (rm_variant r)"; cases "resolve_scoring_period (rm_scoring_period r)";
        auto simp: market_init_def and_then_Inr Let_def split: if_splits)+
  let ?p = "filter is_priced selections"
  have s: "s \<in> set ?p" using assms(2,3) o(2) by simp
  then obtain t ts where p: "?p = t # ts" by (cases ?p) auto
  have t: "t \<in> set ?p" by (simp add: p)
  have "card (?f ` set ?p) \<le> 1" using o(1) by (simp add: one_price_form_def)
  then have "?f s = ?f t" using s t by (metis (no_types, lifting) One_nat_def card_le_Suc0_iff_eq finite_imageI finite_set imageI)
  then show ?thesis unfolding o(2) market_price_kind_def market_price_scope_def p by simp
qed

theorem market_states_one_price_witness:
  "\<exists>m s. market_init False \<lparr>rm_provider = JStr ''kalshi'', rm_market_id = NoId, rm_status = Member AVAILABLE, rm_status_label = JNull,
       rm_variant = Member STANDARD, rm_variant_label = JNull, rm_scoring_period = Label JNull, rm_scoring_period_label = JNull\<rparr>
       [demo_selection ''o'' ''higher'' (Finite False 19 (- 1)), demo_selection ''u'' ''lower'' (Finite False 2 0)] = Inr m \<and>
     s \<in> set (ml_selections m) \<and> sl_price_kind s = market_price_kind (ml_selections m)"
proof -
  let ?o = "demo_selection ''o'' ''higher'' (Finite False 19 (- 1))" and ?u = "demo_selection ''u'' ''lower'' (Finite False 2 0)"
  let ?r = "\<lparr>rm_provider = JStr ''kalshi'', rm_market_id = NoId, rm_status = Member AVAILABLE, rm_status_label = JNull,
       rm_variant = Member STANDARD, rm_variant_label = JNull, rm_scoring_period = Label JNull, rm_scoring_period_label = JNull\<rparr>"
  have c: "cleaned (JStr ''kalshi'') = ''kalshi''"
    by (simp add: cleaned_def strip_def casefold_def lower_char_def is_space_def Let_def)
  have "one_price_form [?o, ?u]" by (simp add: one_price_form_def is_priced_def demo_selection_def)
  then obtain m where m: "market_init False ?r [?o, ?u] = Inr m" "ml_selections m = [?o, ?u]"
    by (auto simp: market_init_def c optional_identifier_def normalize_market_status_def normalize_market_variant_def
        resolve_scoring_period_def)
  have "?u \<in> set (ml_selections m)" "is_priced ?u" by (simp_all add: m is_priced_def demo_selection_def)
  then show ?thesis using market_states_one_price [OF m(1)] m by blast
qed

end
