(* ===== verification/Publications.thy ===== *)
theory Publications
  imports Calendar "HOL-Library.Product_Lexorder"
begin

text \<open>
  The publications of the collection control plane (\<open>services/collection_control.py\<close>, class
  \<open>PublicationService\<close>, with \<open>domain/publication_integrity.py\<close>,
  \<open>services/publication_authority.py\<close> and \<open>services/serving_season.py\<close>): versions of a stream's
  facts, the fenced pointer that names the version each stream serves, the history of the
  pointer's moves, and every operation that moves it. A composition advances a pointer or is held
  as a candidate; a correction withdraws the versions that rest on replaced evidence; a rollback
  restores the previous version as a clone; a family of streams is promoted or rolled back
  together; a season cutover moves every held stream to a new season and can be reverted; and a
  prune deletes the versions that can no longer serve.

  An operation runs in one database transaction: it is a function from the tables to a result and
  the tables afterwards, or to the error it raises, which leaves the tables as they were. The
  identifiers that \<open>uuid4\<close> draws are arguments. Identifiers are not empty, so an optional one
  that is present counts as true.
\<close>

section \<open>Tables\<close>

datatype control_error = ControlPlaneError (ce_reason: string) (ce_retry_after: "int option")

abbreviation refused :: "string \<Rightarrow> control_error + 'a" where
  "refused r \<equiv> Inl (ControlPlaneError r None)"

datatype version_status = CANDIDATE | ACTIVE | ROLLBACK | SUPERSEDED

record PublicationStream =
  ps_key :: string
  ps_provider :: string
  ps_completeness_rule :: string
  ps_enabled :: bool

record PublicationVersion =
  pv_id :: string
  pv_stream :: string
  pv_season :: string
  pv_cutoff :: instant
  pv_version :: int
  pv_status :: version_status
  pv_checksum :: string
  pv_payload :: string
  pv_manifest :: "string option"
  pv_catalog :: "string option"
  pv_catalog_checksum :: "string option"
  pv_created :: instant
  pv_reason :: "string option"
  pv_fence :: int

record PublicationObservation =
  po_publication :: string
  po_observation :: string
  po_role :: string
  po_slice :: "string option"

record PublicationPointer =
  pp_stream :: string
  pp_active :: "string option"
  pp_previous :: "string option"
  pp_fence :: int
  pp_updated :: instant

record PublicationPointerHistory =
  ph_stream :: string
  ph_publication :: string
  ph_season :: string
  ph_fence :: int
  ph_activated :: instant
  ph_revoked :: "instant option"
  ph_revoked_fence :: "int option"
  ph_retired :: "instant option"
  ph_retired_by :: "string option"

record PublicationActivation =
  pa_stream :: string
  pa_publication :: string
  pa_actor :: string
  pa_reason :: string
  pa_fence :: int

record CollectionManifest =
  cm_id :: string
  cm_status :: string
  cm_season :: string
  cm_cutoff :: instant
  cm_scopes :: "string list"
  cm_accepted_versions :: "int list"
  cm_catalog :: "string option"
  cm_catalog_checksum :: "string option"

record CatalogPublication =
  cp_id :: string
  cp_type :: string
  cp_season :: string
  cp_cutoff :: instant
  cp_complete :: bool
  cp_checksum :: string
  cp_payload :: string

record PublicationRepairGroupMember =
  gm_stream :: string
  gm_expected_publication :: string
  gm_expected_fence :: int

record PublicationRepairGroup =
  rg_id :: string
  rg_manifest :: string
  rg_season :: string
  rg_reason :: string
  rg_promoted :: "instant option"
  rg_members :: "PublicationRepairGroupMember list"

record CompositionJob =
  jb_stream :: string
  jb_manifest :: "string option"
  jb_status :: string
  jb_claimed_generation :: "int option"
  jb_last_error :: "string option"

text \<open>What a cutover records of each stream it moved, and the record itself: the audit event's
  details, from which a revert reads it back.\<close>

record MovedStream =
  mv_stream :: string
  mv_from :: string
  mv_from_previous :: "string option"
  mv_from_season :: string
  mv_to :: string
  mv_fence :: int

record CutoverRecord =
  cu_season :: string
  cu_moved :: "MovedStream list"
  cu_left_behind :: "(string \<times> string) list"
  cu_fences :: "(string \<times> int) list"
  cu_job :: string

datatype AuditEvent =
    SeasonCutoverAudit CutoverRecord
  | CutoverRevertAudit string
  | HeldAudit (ha_stream: string) (ha_reason: string) (ha_season: string) (ha_publication: string)
      (ha_job: "string option")

record control_db =
  db_streams :: "PublicationStream list"
  db_versions :: "PublicationVersion list"
  db_lineage :: "PublicationObservation list"
  db_projections :: "string list"
  db_pointers :: "PublicationPointer list"
  db_history :: "PublicationPointerHistory list"
  db_activations :: "PublicationActivation list"
  db_audits :: "AuditEvent list"
  db_scopes :: "(string \<times> json) list"
  db_manifests :: "CollectionManifest list"
  db_catalogs :: "CatalogPublication list"
  db_groups :: "PublicationRepairGroup list"
  db_jobs :: "CompositionJob list"

text \<open>
  What the operations consult and do not change: the digest, the Eastern date of an instant (its
  ordinal), the injected resolver of each team's governed games, the canonical ledger's verdict on
  a composition's evidence (\<open>_assert_ledger_provenance\<close>), the decoders of published payloads
  (the projection of the game logs, the read-side decoders, and the games and teams of the decoded
  game logs), the verdict on a parity artifact, and the comparison of rebound types with the
  traditional publication. The ledger, its parity evidence and the decoders are components of
  their own.
\<close>

record governance =
  gv_digest :: "string \<Rightarrow> string"
  gv_eastern_date :: "instant \<Rightarrow> int"
  gv_team_games :: "string \<Rightarrow> instant \<Rightarrow> string \<Rightarrow> string option \<times> string option \<times> string option
    \<Rightarrow> (int \<times> string list) list option"
  gv_ledger_accepts :: "string \<Rightarrow> instant \<Rightarrow> (string \<times> string option) list \<Rightarrow> string option \<Rightarrow> control_error option"
  gv_projects :: "string \<Rightarrow> string \<Rightarrow> bool"
  gv_decodes :: "string \<Rightarrow> string \<Rightarrow> string \<Rightarrow> (int \<times> string list) list option \<Rightarrow> bool"
  gv_log_rows :: "string \<Rightarrow> string \<Rightarrow> (string \<times> string) list"
  gv_parity :: "string \<Rightarrow> PublicationVersion \<Rightarrow> string \<Rightarrow> control_error option"
  gv_rebound_failures :: "string \<Rightarrow> string \<Rightarrow> string \<Rightarrow> bool"

definition get_stream :: "string \<Rightarrow> control_db \<Rightarrow> PublicationStream option" where
  "get_stream k db = find (\<lambda>s. ps_key s = k) (db_streams db)"

definition get_version :: "string \<Rightarrow> control_db \<Rightarrow> PublicationVersion option" where
  "get_version i db = find (\<lambda>v. pv_id v = i) (db_versions db)"

definition get_pointer :: "string \<Rightarrow> control_db \<Rightarrow> PublicationPointer option" where
  "get_pointer k db = find (\<lambda>p. pp_stream p = k) (db_pointers db)"

definition set_pointer :: "PublicationPointer \<Rightarrow> control_db \<Rightarrow> control_db" where
  "set_pointer p db = db\<lparr>db_pointers := update_where (\<lambda>q. pp_stream q = pp_stream p) (\<lambda>_. p) (db_pointers db)\<rparr>"

definition set_status :: "(PublicationVersion \<Rightarrow> bool) \<Rightarrow> version_status \<Rightarrow> control_db \<Rightarrow> control_db" where
  "set_status q st db = db\<lparr>db_versions := update_where q (\<lambda>v. v\<lparr>pv_status := st\<rparr>) (db_versions db)\<rparr>"

definition active_version :: "PublicationPointer \<Rightarrow> control_db \<Rightarrow> PublicationVersion option" where
  "active_version p db = (case pp_active p of None \<Rightarrow> None | Some i \<Rightarrow> get_version i db)"

text \<open>The latest cutoff first and, of one cutoff, the latest version.\<close>

definition newest_first :: "PublicationVersion list \<Rightarrow> PublicationVersion list" where
  "newest_first vs = rev (sort_key (\<lambda>v. (pv_cutoff v, pv_version v)) vs)"

definition latest_number :: "string \<Rightarrow> string \<Rightarrow> control_db \<Rightarrow> int" where
  "latest_number k season db =
     (case rev (sort (map pv_version (filter (\<lambda>v. pv_stream v = k \<and> pv_season v = season) (db_versions db)))) of
        [] \<Rightarrow> 0
      | n # _ \<Rightarrow> n)"

section \<open>Integrity and authority\<close>

definition publication_payload_checksum :: "governance \<Rightarrow> string \<Rightarrow> string" where
  "publication_payload_checksum gov payload = gv_digest gov payload"

definition publication_payload_matches_checksum :: "governance \<Rightarrow> string \<Rightarrow> string \<Rightarrow> bool" where
  "publication_payload_matches_checksum gov payload checksum \<longleftrightarrow> publication_payload_checksum gov payload = checksum"

definition manifest_authority :: "governance \<Rightarrow> CollectionManifest \<Rightarrow> control_db \<Rightarrow> (string \<times> string \<times> string) option" where
  "manifest_authority gov m db =
     (case (cm_catalog m, cm_catalog_checksum m) of
        (Some catalog_id, Some checksum) \<Rightarrow>
          (if ''canonical_game_ledger'' \<notin> set (cm_scopes m) \<or> 1 \<notin> set (cm_accepted_versions m) then None
           else case find (\<lambda>c. cp_id c = catalog_id) (db_catalogs db) of
             None \<Rightarrow> None
           | Some c \<Rightarrow>
               (if \<not> cp_complete c \<or> cp_type c \<noteq> ''event'' \<or> cp_season c \<noteq> cm_season m \<or> cp_cutoff c \<noteq> cm_cutoff m
                   \<or> cp_checksum c \<noteq> checksum
                   \<or> \<not> publication_payload_matches_checksum gov (cp_payload c) (cp_checksum c)
                then None else Some (cm_id m, cp_id c, cp_checksum c)))
      | _ \<Rightarrow> None)"

text \<open>\<open>verify_publication_authority\<close>; \<open>None\<close> is \<open>PublicationGovernanceUnavailable\<close>.\<close>

definition verify_publication_authority ::
  "governance \<Rightarrow> PublicationVersion \<Rightarrow> control_db \<Rightarrow> (string \<times> string \<times> string) option" where
  "verify_publication_authority gov v db =
     (case (pv_manifest v, pv_catalog v, pv_catalog_checksum v) of
        (Some mid, Some catalog, Some checksum) \<Rightarrow>
          (case find (\<lambda>m. cm_id m = mid) (db_manifests db) of
             None \<Rightarrow> None
           | Some m \<Rightarrow>
               (case manifest_authority gov m db of
                  None \<Rightarrow> None
                | Some (mid', catalog', checksum') \<Rightarrow>
                    (if pv_season v \<noteq> cm_season m \<or> pv_cutoff v \<noteq> cm_cutoff m \<or> catalog \<noteq> catalog' \<or> checksum \<noteq> checksum'
                     then None else Some (mid', catalog', checksum'))))
      | _ \<Rightarrow> None)"

definition composing_ledger_manifest ::
  "string \<Rightarrow> instant \<Rightarrow> string option \<Rightarrow> control_db \<Rightarrow> control_error + CollectionManifest" where
  "composing_ledger_manifest season cutoff manifest_id db =
     (case filter (\<lambda>m. case manifest_id of Some i \<Rightarrow> cm_id m = i | None \<Rightarrow> cm_season m = season \<and> cm_cutoff m = cutoff)
             (db_manifests db) of
        [m] \<Rightarrow>
          (if cm_season m \<noteq> season \<or> cm_cutoff m \<noteq> cutoff \<or> ''canonical_game_ledger'' \<notin> set (cm_scopes m)
              \<or> 1 \<notin> set (cm_accepted_versions m)
           then refused ''ledger_provenance_manifest_mismatch'' else Inr m)
      | _ \<Rightarrow> refused ''ledger_provenance_manifest_mismatch'')"

text \<open>The readiness rules: the streams of each family and how many games every team must have
  played before the family takes a season. A family without a number switches at the cutover.\<close>

record ReadinessRule =
  rr_family :: string
  rr_streams :: "string list"
  rr_min_team_games :: "nat option"

definition READINESS_RULES :: "ReadinessRule list" where
  "READINESS_RULES =
     [\<lparr>rr_family = ''game_logs'', rr_streams = [''player_game_logs'', ''player_per36''], rr_min_team_games = None\<rparr>,
      \<lparr>rr_family = ''player_diets'',
       rr_streams = [''grouped_shot_types'', ''exact_shot_zones'', ''player_assist_locations'', ''player_rebound_types''],
       rr_min_team_games = Some 10\<rparr>,
      \<lparr>rr_family = ''team_defense'',
       rr_streams = [''traditional_opponent_season'', ''grouped_shot_types_opponent_season'',
         ''exact_shot_zones_opponent_season'', ''synergy_play_types_opponent_season'', ''assist_locations_season'',
         ''rebound_types_season''],
       rr_min_team_games = Some 1\<rparr>,
      \<lparr>rr_family = ''synergy'', rr_streams = [''synergy_play_types''], rr_min_team_games = Some 10\<rparr>,
      \<lparr>rr_family = ''last_15'',
       rr_streams = [''traditional_opponent_l15'', ''grouped_shot_types_opponent_l15'', ''exact_shot_zones_opponent_l15'',
         ''assist_locations_l15'', ''rebound_types_l15''],
       rr_min_team_games = None\<rparr>]"

definition readiness_rule :: "string \<Rightarrow> ReadinessRule option" where
  "readiness_rule k = find (\<lambda>r. k \<in> set (rr_streams r)) READINESS_RULES"

definition NBA_TEAM_IDS :: "int list" where
  "NBA_TEAM_IDS = map (\<lambda>i. 1610612737 + i) [0..29]"

definition rule_holds :: "ReadinessRule \<Rightarrow> (int \<times> string list) list \<Rightarrow> bool" where
  "rule_holds r games =
     (case rr_min_team_games r of
        None \<Rightarrow> True
      | Some n \<Rightarrow> list_all (\<lambda>t. case map_of games t of None \<Rightarrow> False | Some ids \<Rightarrow> n \<le> length (remdups ids)) NBA_TEAM_IDS)"

definition readiness_rule_holds ::
  "governance \<Rightarrow> string \<Rightarrow> string \<Rightarrow> instant \<Rightarrow> string option \<times> string option \<times> string option \<Rightarrow> bool" where
  "readiness_rule_holds gov k season cutoff authority =
     (case readiness_rule k of
        None \<Rightarrow> True
      | Some r \<Rightarrow>
          (if rr_min_team_games r = None then True
           else case gv_team_games gov season cutoff ''season'' authority of
             None \<Rightarrow> False
           | Some games \<Rightarrow> rule_holds r games))"

section \<open>The pointer and its history\<close>

definition record_pointer_activation ::
  "PublicationPointer \<Rightarrow> PublicationVersion \<Rightarrow> instant \<Rightarrow> control_db \<Rightarrow> control_db" where
  "record_pointer_activation p v now db =
     db\<lparr>db_history := db_history db @
          [\<lparr>ph_stream = pp_stream p, ph_publication = pv_id v, ph_season = pv_season v, ph_fence = pp_fence p,
            ph_activated = now, ph_revoked = None, ph_revoked_fence = None, ph_retired = None, ph_retired_by = None\<rparr>]\<rparr>"

definition revoke_pointer_history :: "string \<Rightarrow> string list \<Rightarrow> instant \<Rightarrow> int \<Rightarrow> control_db \<Rightarrow> control_db" where
  "revoke_pointer_history k ids now fence db =
     db\<lparr>db_history := update_where (\<lambda>h. ph_stream h = k \<and> ph_publication h \<in> set ids \<and> ph_revoked h = None)
          (\<lambda>h. h\<lparr>ph_revoked := Some now, ph_revoked_fence := Some fence\<rparr>) (db_history db)\<rparr>"

text \<open>A publication that was activated and all of whose activations were withdrawn.\<close>

definition publication_withdrawn :: "string \<Rightarrow> control_db \<Rightarrow> bool" where
  "publication_withdrawn i db \<longleftrightarrow>
     list_ex (\<lambda>h. ph_publication h = i) (db_history db) \<and>
     \<not> list_ex (\<lambda>h. ph_publication h = i \<and> ph_revoked h = None) (db_history db)"

definition assert_rollback_target_not_revoked ::
  "string \<Rightarrow> PublicationVersion \<Rightarrow> control_db \<Rightarrow> control_error + unit" where
  "assert_rollback_target_not_revoked k target db =
     (let rows = filter (\<lambda>h. ph_stream h = k \<and> ph_publication h = pv_id target) (db_history db)
      in if rows \<noteq> [] \<and> list_all (\<lambda>h. ph_revoked h \<noteq> None) rows then refused ''rollback_unavailable'' else Inr ())"

definition record_rollback_history ::
  "PublicationPointer \<Rightarrow> PublicationVersion \<Rightarrow> PublicationVersion \<Rightarrow> PublicationVersion \<Rightarrow> instant \<Rightarrow> control_db
     \<Rightarrow> control_db" where
  "record_rollback_history p restored withdrawn source now db =
     (let (p', db1) = (if pv_season withdrawn = pv_season source
            then (p\<lparr>pp_previous := None\<rparr>, revoke_pointer_history (pp_stream p) [pv_id withdrawn] now (pp_fence p) db)
            else (p, db));
          db2 = db1\<lparr>db_history := update_where
            (\<lambda>h. ph_stream h = pp_stream p \<and> ph_publication h = pv_id source \<and> ph_retired h = None)
            (\<lambda>h. h\<lparr>ph_retired := Some now, ph_retired_by := Some (pv_id restored)\<rparr>) (db_history db1)\<rparr>
      in record_pointer_activation p' restored now (set_pointer p' db2))"

definition refuse_empty_league_publication :: "PublicationStream \<Rightarrow> json \<Rightarrow> control_error + unit" where
  "refuse_empty_league_publication s payload =
     (let rows = (if is_mapping payload then get_key payload ''rows'' else payload)
      in if ps_completeness_rule s = ''league_complete'' \<and> rows = JList [] then refused ''empty_publication'' else Inr ())"

definition PUBLISHED_SEASON_STREAM :: string where "PUBLISHED_SEASON_STREAM = ''player_game_logs''"

definition published_season :: "control_db \<Rightarrow> string option" where
  "published_season db =
     (case get_pointer PUBLISHED_SEASON_STREAM db of
        None \<Rightarrow> None
      | Some p \<Rightarrow> map_option pv_season (active_version p db))"

definition fence_of :: "string \<Rightarrow> control_db \<Rightarrow> int" where
  "fence_of k db = (case get_pointer k db of None \<Rightarrow> 0 | Some p \<Rightarrow> pp_fence p)"

definition cutover_reversible :: "CutoverRecord \<Rightarrow> control_db \<Rightarrow> bool" where
  "cutover_reversible c db \<longleftrightarrow>
     list_all (\<lambda>(k, fence). fence_of k db = fence) (cu_fences c)"

definition reversible_cutover_targets :: "control_db \<Rightarrow> string list" where
  "reversible_cutover_targets db =
     concat (map (\<lambda>a. case a of
         SeasonCutoverAudit c \<Rightarrow>
           (if cutover_reversible c db
            then concat (map (\<lambda>m. mv_from m # (case mv_from_previous m of None \<Rightarrow> [] | Some i \<Rightarrow> [i])) (cu_moved c))
            else [])
       | _ \<Rightarrow> []) (db_audits db))"

definition clip :: "nat \<Rightarrow> string \<Rightarrow> string" where "clip n s = take n s"

definition move_pointer_to_candidate ::
  "PublicationPointer \<Rightarrow> PublicationVersion \<Rightarrow> PublicationVersion option \<Rightarrow> string \<Rightarrow> string \<Rightarrow> instant \<Rightarrow> control_db
     \<Rightarrow> control_db" where
  "move_pointer_to_candidate p candidate current actor reason now db =
     (let p' = p\<lparr>pp_fence := pp_fence p + 1, pp_previous := map_option pv_id current,
                 pp_active := Some (pv_id candidate), pp_updated := now\<rparr>;
          db1 = db\<lparr>db_versions := update_where (\<lambda>v. pv_id v = pv_id candidate)
            (\<lambda>v. v\<lparr>pv_status := ACTIVE, pv_fence := pp_fence p'\<rparr>) (db_versions db)\<rparr>;
          db2 = (case current of
                   Some c \<Rightarrow> if pv_season c = pv_season candidate then set_status (\<lambda>v. pv_id v = pv_id c) SUPERSEDED db1 else db1
                 | None \<Rightarrow> db1);
          db3 = record_pointer_activation p' candidate now (set_pointer p' db2)
      in db3\<lparr>db_activations := db_activations db3 @
           [\<lparr>pa_stream = pp_stream p, pa_publication = pv_id candidate,
             pa_actor = clip 128 (if actor = [] then ''operator'' else actor), pa_reason = clip 255 (strip reason),
             pa_fence = pp_fence p'\<rparr>]\<rparr>)"

definition write_publication_projection ::
  "governance \<Rightarrow> PublicationVersion \<Rightarrow> control_db \<Rightarrow> control_error + control_db" where
  "write_publication_projection gov v db =
     (if pv_stream v \<noteq> PUBLISHED_SEASON_STREAM then Inr db
      else if gv_projects gov (pv_season v) (pv_payload v) then Inr (db\<lparr>db_projections := db_projections db @ [pv_id v]\<rparr>)
      else refused ''publication_payload_invalid'')"

section \<open>Corrections\<close>

text \<open>\<open>str(scope.get("game_id") or "")\<close> of an observation's stored scope; empty when the scope is
  not a mapping.\<close>

definition scope_game :: "json \<Rightarrow> string" where
  "scope_game scope = (if is_mapping scope then py_str (py_or (get_key scope ''game_id'') (JStr [])) else [])"

text \<open>The games a publication rests on, with the observation that is the evidence of each.\<close>

definition game_lineage :: "string \<Rightarrow> control_db \<Rightarrow> string \<rightharpoonup> string" where
  "game_lineage i db =
     map_of (rev (concat (map (\<lambda>r.
       if po_publication r \<noteq> i then []
       else case map_of (db_scopes db) (po_observation r) of
         None \<Rightarrow> []
       | Some scope \<Rightarrow> (if scope_game scope = [] then [] else [(scope_game scope, po_observation r)])) (db_lineage db))))"

definition rests_on_replaced :: "(string \<times> string) list \<Rightarrow> string \<Rightarrow> control_db \<Rightarrow> bool" where
  "rests_on_replaced sources i db \<longleftrightarrow>
     list_ex (\<lambda>(source, game). case game_lineage i db game of
         None \<Rightarrow> False
       | Some observation \<Rightarrow> map_of (rev (map (\<lambda>(s, g). (g, s)) sources)) game \<noteq> Some observation) sources"

text \<open>The versions of the season a correction must look at: what is served or could be, the rollback
  target, and whatever once served and was not withdrawn.\<close>

definition correctable :: "string \<Rightarrow> string \<Rightarrow> string \<Rightarrow> control_db \<Rightarrow> PublicationVersion \<Rightarrow> bool" where
  "correctable k season keep db v \<longleftrightarrow>
     pv_stream v = k \<and> pv_season v = season \<and> pv_id v \<noteq> keep \<and>
     (pv_status v = ACTIVE \<or> pv_status v = CANDIDATE \<or>
      (case get_pointer k db of None \<Rightarrow> False | Some p \<Rightarrow> pp_previous p = Some (pv_id v)) \<or>
      list_ex (\<lambda>h. ph_stream h = k \<and> ph_publication h = pv_id v \<and> ph_revoked h = None) (db_history db))"

definition withdraw_from_pointer :: "string list \<Rightarrow> instant \<Rightarrow> PublicationPointer \<Rightarrow> PublicationPointer" where
  "withdraw_from_pointer stale now p =
     (let p1 = (case pp_active p of
                  Some i \<Rightarrow> if i \<in> set stale then p\<lparr>pp_active := None, pp_fence := pp_fence p + 1, pp_updated := now\<rparr> else p
                | None \<Rightarrow> p)
      in if (case pp_previous p1 of None \<Rightarrow> False | Some i \<Rightarrow> i \<in> set stale) \<or> pp_active p1 = None
         then p1\<lparr>pp_previous := None\<rparr> else p1)"

definition invalidate_corrected_ledger_versions ::
  "string \<Rightarrow> string \<Rightarrow> (string \<times> string) list option \<Rightarrow> string \<Rightarrow> instant \<Rightarrow> control_db \<Rightarrow> control_db" where
  "invalidate_corrected_ledger_versions k season corrected keep now db =
     (let sources = filter (\<lambda>(source, game). source \<noteq> [] \<and> game \<noteq> []) (case corrected of None \<Rightarrow> [] | Some c \<Rightarrow> c);
          stale = map pv_id (filter (\<lambda>v. correctable k season keep db v \<and> rests_on_replaced sources (pv_id v) db) (db_versions db))
      in if stale = [] then db
         else
           let db1 = set_status (\<lambda>v. pv_id v \<in> set stale \<and> (pv_status v = ACTIVE \<or> pv_status v = CANDIDATE)) SUPERSEDED db
           in (case get_pointer k db1 of
                 None \<Rightarrow> revoke_pointer_history k stale now 0 db1
               | Some p \<Rightarrow>
                   let p' = withdraw_from_pointer stale now p
                   in revoke_pointer_history k stale now (pp_fence p') (set_pointer p' db1)))"

section \<open>Candidates\<close>

record Composition =
  co_stream :: string
  co_season :: string
  co_cutoff :: instant
  co_encoded :: string
  co_payload :: json
  co_expected_fence :: "int option"
  co_reason :: "string option"
  co_provenance_ids :: "string list"
  co_provenance :: "(string \<times> string option) list option"
  co_corrected :: "(string \<times> string) list option"
  co_authority :: "(string \<times> string \<times> string) option"
  co_manifest :: "string option"
  co_derive_fence :: bool
  co_discard :: bool
  co_pointer_expectation :: "(int \<times> string option) option"
  co_job :: "string option"

definition ledger_roles :: "string list" where "ledger_roles = [''completeness_evidence'', ''ledger_game'']"

definition publication_provenance_matches :: "string \<Rightarrow> (string \<times> string option) list \<Rightarrow> control_db \<Rightarrow> bool" where
  "publication_provenance_matches i provenance db =
     (let observed = map po_observation (filter (\<lambda>r. po_publication r = i \<and> po_role r \<in> set ledger_roles) (db_lineage db))
      in provenance \<noteq> [] \<and> set observed = set (map fst provenance) \<and>
         list_all (\<lambda>o'. case map_of (db_scopes db) o' of
             None \<Rightarrow> False
           | Some scope \<Rightarrow> is_mapping scope \<and>
               scope_game scope = (case map_of provenance o' of Some (Some g) \<Rightarrow> g | _ \<Rightarrow> [])) observed)"

definition authority_of :: "PublicationVersion \<Rightarrow> string option \<times> string option \<times> string option" where
  "authority_of v = (pv_manifest v, pv_catalog v, pv_catalog_checksum v)"

definition authority_columns :: "(string \<times> string \<times> string) option \<Rightarrow> string option \<times> string option \<times> string option" where
  "authority_columns a = (case a of None \<Rightarrow> (None, None, None) | Some (m, c, s) \<Rightarrow> (Some m, Some c, Some s))"

text \<open>The new row of a composition, and the rows that record what it rests on.\<close>

definition new_version ::
  "governance \<Rightarrow> string \<Rightarrow> Composition \<Rightarrow> (string option \<times> string option \<times> string option) \<Rightarrow> int \<Rightarrow> version_status \<Rightarrow> int
     \<Rightarrow> instant \<Rightarrow> PublicationVersion" where
  "new_version gov uid c authority number status fence now =
     \<lparr>pv_id = uid, pv_stream = co_stream c, pv_season = co_season c, pv_cutoff = co_cutoff c, pv_version = number,
      pv_status = status, pv_checksum = publication_payload_checksum gov (co_encoded c), pv_payload = co_encoded c,
      pv_manifest = fst authority, pv_catalog = fst (snd authority), pv_catalog_checksum = snd (snd authority),
      pv_created = now, pv_reason = co_reason c, pv_fence = fence\<rparr>"

definition evidence_rows :: "string \<Rightarrow> string \<Rightarrow> (string \<times> string option) list \<Rightarrow> PublicationObservation list" where
  "evidence_rows i role evidence =
     map (\<lambda>(observation, slice). \<lparr>po_publication = i, po_observation = observation, po_role = role, po_slice = slice\<rparr>)
       (sort_key fst evidence)"

definition add_version ::
  "governance \<Rightarrow> PublicationVersion \<Rightarrow> PublicationObservation list \<Rightarrow> control_db \<Rightarrow> control_error + control_db" where
  "add_version gov v evidence db =
     and_then (write_publication_projection gov v (db\<lparr>db_versions := db_versions db @ [v]\<rparr>)) (\<lambda>db1.
       Inr (db1\<lparr>db_lineage := db_lineage db1 @ evidence\<rparr>))"

text \<open>The candidates of one stream, season and cutoff that a new one replaces, the latest first.\<close>

definition replaceable :: "version_status list \<Rightarrow> Composition \<Rightarrow> control_db \<Rightarrow> PublicationVersion list" where
  "replaceable statuses c db =
     newest_first (filter (\<lambda>v. pv_stream v = co_stream c \<and> pv_season v = co_season c \<and> pv_cutoff v = co_cutoff c \<and>
       pv_status v \<in> set statuses) (db_versions db))"

definition supersede :: "PublicationVersion list \<Rightarrow> control_db \<Rightarrow> control_db" where
  "supersede vs db = set_status (\<lambda>v. pv_id v \<in> set (map pv_id vs)) SUPERSEDED db"

definition store_candidate ::
  "governance \<Rightarrow> string \<Rightarrow> Composition \<Rightarrow> instant \<Rightarrow> control_db \<Rightarrow> control_error + string \<times> control_db" where
  "store_candidate gov uid c now db =
     (let old = replaceable [CANDIDATE] c db;
          existing = (case old of [] \<Rightarrow> None | v # _ \<Rightarrow>
            if pv_checksum v = publication_payload_checksum gov (co_encoded c)
               \<and> authority_of v = authority_columns (co_authority c) then Some v else None)
      in case existing of
           Some v \<Rightarrow> Inr (pv_id v, db)
         | None \<Rightarrow>
             let db1 = supersede old db;
                 v = new_version gov uid c (authority_columns (co_authority c))
                       (latest_number (co_stream c) (co_season c) db1 + 1) CANDIDATE 0 now
             in and_then (add_version gov v (evidence_rows uid ''completeness_evidence''
                    (map (\<lambda>i. (i, None)) (co_provenance_ids c))) db1) (\<lambda>db2. Inr (uid, db2)))"

definition compose_inactive_ledger ::
  "governance \<Rightarrow> string \<Rightarrow> Composition \<Rightarrow> instant \<Rightarrow> control_db \<Rightarrow> control_error + string \<times> control_db" where
  "compose_inactive_ledger gov uid c now db =
     (let provenance = (case co_provenance c of None \<Rightarrow> [] | Some p \<Rightarrow> p) in
      case get_stream (co_stream c) db of
        None \<Rightarrow> refused ''inactive_ledger_stream_required''
      | Some s \<Rightarrow>
          if ps_provider s \<noteq> ''ledger'' then refused ''inactive_ledger_stream_required''
          else and_then (refuse_empty_league_publication s (co_payload c)) (\<lambda>_.
            case gv_ledger_accepts gov (co_season c) (co_cutoff c) provenance (co_manifest c) of
              Some e \<Rightarrow> Inl e
            | None \<Rightarrow>
                and_then (composing_ledger_manifest (co_season c) (co_cutoff c) (co_manifest c) db) (\<lambda>m.
                  let authority = (Some (cm_id m), cm_catalog m, cm_catalog_checksum m);
                      old = replaceable (if ps_enabled s then [CANDIDATE] else [CANDIDATE, ACTIVE]) c db;
                      existing = (case old of [] \<Rightarrow> None | v # _ \<Rightarrow>
                        if pv_checksum v = publication_payload_checksum gov (co_encoded c) \<and> authority_of v = authority
                           \<and> publication_provenance_matches (pv_id v) provenance db then Some v else None);
                      settle = (\<lambda>i db'. Inr (i, invalidate_corrected_ledger_versions (co_stream c) (co_season c)
                                  (co_corrected c) i now db'))
                  in case existing of
                       Some v \<Rightarrow> settle (pv_id v) db
                     | None \<Rightarrow>
                         let db1 = supersede old db;
                             v = new_version gov uid c authority
                                   (latest_number (co_stream c) (co_season c) db1 + 1) CANDIDATE 0 now
                         in and_then (add_version gov v (evidence_rows uid ''ledger_game'' provenance) db1) (settle uid))))"

section \<open>Composition\<close>

definition NBA_PUBLICATION_STREAM_KEYS :: "string list" where
  "NBA_PUBLICATION_STREAM_KEYS =
     [''synergy_play_types_opponent_season'', ''synergy_play_types_opponent_l15'', ''grouped_shot_types_opponent_season'',
      ''grouped_shot_types_opponent_l15'', ''exact_shot_zones_opponent_season'', ''exact_shot_zones_opponent_l15'']"

definition PLAYER_DIET_OBSERVATION_STREAM_KEYS :: "string list" where
  "PLAYER_DIET_OBSERVATION_STREAM_KEYS = [''grouped_shot_types'', ''synergy_play_types'', ''exact_shot_zones'']"

text \<open>Of the season's candidates only the latest stays one; the hold is audited.\<close>

definition hold_candidate ::
  "governance \<Rightarrow> string \<Rightarrow> PublicationStream \<Rightarrow> Composition \<Rightarrow> string \<Rightarrow> instant \<Rightarrow> control_db
     \<Rightarrow> control_error + string \<times> control_db" where
  "hold_candidate gov uid s c hold_reason now db =
     and_then
       (if ps_provider s = ''ledger'' \<and> co_provenance c \<noteq> None
        then compose_inactive_ledger gov uid
               (c\<lparr>co_reason := (case co_reason c of Some r \<Rightarrow> if r = [] then Some ''held ledger composition'' else Some r
                                 | None \<Rightarrow> Some ''held ledger composition'')\<rparr>) now db
        else store_candidate gov uid c now db)
       (\<lambda>(i, db1).
          let held = newest_first (filter (\<lambda>u. pv_stream u = co_stream c \<and> pv_season u = co_season c \<and> pv_status u = CANDIDATE)
                       (db_versions db1));
              db2 = supersede (tl held) db1
          in Inr (i, db2\<lparr>db_audits := db_audits db2 @
               [HeldAudit (co_stream c) hold_reason (co_season c) i (co_job c)]\<rparr>))"

definition same_composition :: "governance \<Rightarrow> Composition \<Rightarrow> PublicationVersion \<Rightarrow> control_db \<Rightarrow> bool" where
  "same_composition gov c v db \<longleftrightarrow>
     pv_season v = co_season c \<and> pv_cutoff v = co_cutoff c \<and>
     pv_checksum v = publication_payload_checksum gov (co_encoded c) \<and>
     (case co_provenance c of None \<Rightarrow> pv_reason v = co_reason c | Some p \<Rightarrow> publication_provenance_matches (pv_id v) p db) \<and>
     (case co_authority c of None \<Rightarrow> True | Some a \<Rightarrow> authority_of v = authority_columns (Some a))"

text \<open>The pointer a composition may advance: the one it expects, or a new one of generation 0.\<close>

definition claimed_pointer ::
  "Composition \<Rightarrow> int option \<Rightarrow> instant \<Rightarrow> control_db \<Rightarrow> control_error + PublicationPointer \<times> control_db" where
  "claimed_pointer c expected now db =
     (case get_pointer (co_stream c) db of
        None \<Rightarrow>
          (if co_pointer_expectation c \<notin> {None, Some (0, None)} then refused ''stale_composition''
           else if expected \<notin> {None, Some 0} then refused ''stale_composition''
           else let p = \<lparr>pp_stream = co_stream c, pp_active = None, pp_previous = None, pp_fence = 0, pp_updated = now\<rparr>
                in Inr (p, db\<lparr>db_pointers := db_pointers db @ [p]\<rparr>))
      | Some p \<Rightarrow>
          (case co_pointer_expectation c of
             Some e \<Rightarrow> (if (pp_fence p, pp_active p) \<noteq> e then refused ''stale_composition'' else Inr (p, db))
           | None \<Rightarrow>
               (case expected of
                  None \<Rightarrow> refused ''expected_fence_required''
                | Some f \<Rightarrow> (if pp_fence p \<noteq> f then refused ''stale_composition'' else Inr (p, db)))))"

text \<open>Why a bound stream may not take a composition by itself.\<close>

definition hold_reason ::
  "governance \<Rightarrow> Composition \<Rightarrow> PublicationPointer \<Rightarrow> control_db \<Rightarrow> string option" where
  "hold_reason gov c p db =
     (if co_discard c \<or> pp_active p = None then None
      else
        let active = active_version p db;
            active_season = map_option pv_season active;
            allowed_season = (case published_season db of None \<Rightarrow> active_season | Some s \<Rightarrow> Some s)
        in if Some (co_season c) \<noteq> allowed_season then Some ''season_held''
           else if co_stream c \<in> set (NBA_PUBLICATION_STREAM_KEYS @ PLAYER_DIET_OBSERVATION_STREAM_KEYS)
               \<and> (case active of None \<Rightarrow> False | Some v \<Rightarrow> pv_season v = co_season c \<and> co_cutoff c < pv_cutoff v)
             then Some ''earlier_cutoff''
           else if active_season \<noteq> Some (co_season c)
               \<and> \<not> readiness_rule_holds gov (co_stream c) (co_season c) (co_cutoff c) (authority_columns (co_authority c))
             then Some ''serving_season_not_ready''
           else None)"

text \<open>The advance itself: a new active version under the next generation.\<close>

definition advance_pointer ::
  "governance \<Rightarrow> string \<Rightarrow> Composition \<Rightarrow> PublicationPointer \<Rightarrow> instant \<Rightarrow> control_db
     \<Rightarrow> control_error + string \<times> control_db" where
  "advance_pointer gov uid c p now db =
     (let fence = pp_fence p + 1;
          v = new_version gov uid c (authority_columns (co_authority c)) (latest_number (co_stream c) (co_season c) db + 1)
                ACTIVE fence now
      in and_then (add_version gov v (evidence_rows uid ''completeness_evidence''
             (map (\<lambda>i. (i, None)) (co_provenance_ids c))) db) (\<lambda>db1.
           let db2 = set_status (\<lambda>u. pv_stream u = co_stream c \<and> pv_season u = co_season c \<and> pv_cutoff u = co_cutoff c \<and>
                       pv_id u \<noteq> uid \<and> (pv_status u = ACTIVE \<or> pv_status u = CANDIDATE)) SUPERSEDED db1;
               p' = p\<lparr>pp_previous := (if co_discard c then None else pp_active p), pp_active := Some uid, pp_fence := fence,
                      pp_updated := now\<rparr>;
               db3 = record_pointer_activation p' v now (set_pointer p' db2)
           in Inr (uid, invalidate_corrected_ledger_versions (co_stream c) (co_season c) (co_corrected c) uid now db3)))"

definition compose_claimed ::
  "governance \<Rightarrow> string \<Rightarrow> PublicationStream \<Rightarrow> Composition \<Rightarrow> int option \<Rightarrow> instant \<Rightarrow> control_db
     \<Rightarrow> control_error + string \<times> control_db" where
  "compose_claimed gov uid s c expected now db =
     and_then (claimed_pointer c expected now db) (\<lambda>(p, db1).
       case hold_reason gov c p db1 of
         Some r \<Rightarrow>
           and_then (hold_candidate gov uid s c r now db1) (\<lambda>(i, db2).
             Inr (i, if r = ''earlier_cutoff'' then set_status (\<lambda>u. pv_id u = i) SUPERSEDED db2 else db2))
       | None \<Rightarrow> advance_pointer gov uid c p now db1)"

definition compose_active ::
  "governance \<Rightarrow> string \<Rightarrow> Composition \<Rightarrow> instant \<Rightarrow> control_db \<Rightarrow> control_error + string \<times> control_db" where
  "compose_active gov uid c now db =
     (case get_stream (co_stream c) db of
        None \<Rightarrow> refused ''stream_unavailable''
      | Some s \<Rightarrow>
          if \<not> ps_enabled s then refused ''stream_unavailable''
          else and_then (refuse_empty_league_publication s (co_payload c)) (\<lambda>_.
            let pointer = get_pointer (co_stream c) db;
                expected = (if co_derive_fence c then Some (fence_of (co_stream c) db)
                            else co_expected_fence c);
                current = (case pointer of None \<Rightarrow> None | Some p \<Rightarrow> if co_discard c then None else active_version p db)
            in case (pointer, current) of
                 (Some p, Some v) \<Rightarrow>
                   (if same_composition gov c v db
                    then (if expected \<noteq> None \<and> expected \<noteq> Some (pp_fence p) then refused ''stale_composition''
                          else Inr (pv_id v, invalidate_corrected_ledger_versions (co_stream c) (co_season c) (co_corrected c)
                                 (pv_id v) now db))
                    else compose_claimed gov uid s c expected now db)
               | _ \<Rightarrow> compose_claimed gov uid s c expected now db))"

definition recompose_ledger_item ::
  "governance \<Rightarrow> (string \<Rightarrow> string) \<Rightarrow> instant \<Rightarrow> Composition \<Rightarrow> control_db \<Rightarrow> control_error + string \<times> control_db" where
  "recompose_ledger_item gov uid now c db =
     (case get_stream (co_stream c) db of
        None \<Rightarrow> refused ''stream_unavailable''
      | Some s \<Rightarrow>
          if ps_provider s \<noteq> ''ledger'' then refused ''stream_unavailable''
          else
            let provenance = (case co_provenance c of None \<Rightarrow> [] | Some p \<Rightarrow> p)
            in case gv_ledger_accepts gov (co_season c) (co_cutoff c) provenance (co_manifest c) of
                 Some e \<Rightarrow> Inl e
               | None \<Rightarrow>
                   if ps_enabled s
                   then compose_active gov (uid (co_stream c))
                          (c\<lparr>co_expected_fence := None, co_derive_fence := True, co_authority := None, co_discard := False,
                             co_pointer_expectation := None, co_provenance_ids := map fst provenance,
                             co_provenance := Some provenance\<rparr>) now db
                   else compose_inactive_ledger gov (uid (co_stream c)) (c\<lparr>co_provenance := Some provenance\<rparr>) now db)"

definition recompose_ledger_batch ::
  "governance \<Rightarrow> (string \<Rightarrow> string) \<Rightarrow> Composition list \<Rightarrow> instant \<Rightarrow> control_db \<Rightarrow> control_error + string list \<times> control_db" where
  "recompose_ledger_batch gov uid items now db =
     (if items = [] \<or> \<not> distinct (map co_stream items) then refused ''duplicate_publication_stream''
      else fold_res (\<lambda>c (ids, db1). and_then (recompose_ledger_item gov uid now c db1) (\<lambda>(i, db2). Inr (ids @ [i], db2)))
             (sort_key co_stream items) ([], db))"

section \<open>Rollback\<close>

definition COUPLED_PUBLICATION_STREAM_FAMILIES :: "string list list" where
  "COUPLED_PUBLICATION_STREAM_FAMILIES = [[''traditional_opponent_season'', ''traditional_opponent_l15'']]"

text \<open>The clone that restores a previous version, and the move of the pointer to it.\<close>

definition restored_version ::
  "string \<Rightarrow> PublicationVersion \<Rightarrow> PublicationVersion \<Rightarrow> string \<Rightarrow> int \<Rightarrow> instant \<Rightarrow> PublicationVersion" where
  "restored_version uid prior current reason fence now =
     prior\<lparr>pv_id := uid, pv_version := pv_version current + 1, pv_status := ROLLBACK, pv_created := now,
           pv_reason := Some (clip 255 (strip reason)), pv_fence := fence\<rparr>"

definition restore_previous ::
  "governance \<Rightarrow> string \<Rightarrow> PublicationPointer \<Rightarrow> PublicationVersion \<Rightarrow> PublicationVersion \<Rightarrow> string \<Rightarrow> instant \<Rightarrow> control_db
     \<Rightarrow> control_error + control_db" where
  "restore_previous gov uid p prior current reason now db =
     (let v = restored_version uid prior current reason (pp_fence p + 1) now;
          copies = map (\<lambda>r. r\<lparr>po_publication := uid\<rparr>) (filter (\<lambda>r. po_publication r = pv_id prior) (db_lineage db))
      in and_then (add_version gov v copies db) (\<lambda>db1.
           let db2 = set_status (\<lambda>u. pv_id u = pv_id current \<or> pv_id u = pv_id prior) SUPERSEDED db1;
               p' = p\<lparr>pp_fence := pp_fence p + 1, pp_previous := Some (pv_id current), pp_active := Some uid, pp_updated := now\<rparr>
           in Inr (record_rollback_history p' v current prior now (set_pointer p' db2))))"

definition rollback ::
  "governance \<Rightarrow> string \<Rightarrow> string \<Rightarrow> string \<Rightarrow> int option \<Rightarrow> instant \<Rightarrow> control_db \<Rightarrow> control_error + string \<times> control_db" where
  "rollback gov uid k reason expected_fence now db =
     (if length (strip reason) < 3 then refused ''reason_required''
      else if list_ex (\<lambda>family. k \<in> set family) COUPLED_PUBLICATION_STREAM_FAMILIES then refused ''publication_family_coupled''
      else case get_pointer k db of
        None \<Rightarrow> refused ''rollback_unavailable''
      | Some p \<Rightarrow>
          (case pp_previous p of
             None \<Rightarrow> refused ''rollback_unavailable''
           | Some previous \<Rightarrow>
               if expected_fence \<noteq> None \<and> expected_fence \<noteq> Some (pp_fence p) then refused ''stale_composition''
               else case (get_version previous db, active_version p db) of
                 (Some prior, Some current) \<Rightarrow>
                   and_then (assert_rollback_target_not_revoked k prior db) (\<lambda>_.
                     if \<not> publication_payload_matches_checksum gov (pv_payload prior) (pv_checksum prior)
                     then refused ''publication_checksum_mismatch''
                     else if k \<in> set NBA_PUBLICATION_STREAM_KEYS \<and> verify_publication_authority gov prior db = None
                     then refused ''publication_governance_unavailable''
                     else and_then (restore_previous gov uid p prior current reason now db) (\<lambda>db'. Inr (uid, db')))
               | _ \<Rightarrow> refused ''rollback_unavailable''))"

section \<open>Families of streams\<close>

record FamilyPromotion =
  fp_stream :: string
  fp_candidate :: string
  fp_expected_publication :: string
  fp_expected_fence :: int

text \<open>The checks the owning family injects: on one stream's payload, and on the whole family.\<close>

type_synonym payload_check = "string \<Rightarrow> string \<Rightarrow> control_error option"
type_synonym family_check = "(string \<times> PublicationVersion) list \<Rightarrow> control_error option"

definition checked :: "control_error option \<Rightarrow> control_error + unit" where
  "checked e = (case e of None \<Rightarrow> Inr () | Some e \<Rightarrow> Inl e)"

definition promotion_plan ::
  "governance \<Rightarrow> payload_check \<Rightarrow> FamilyPromotion \<Rightarrow> control_db
     \<Rightarrow> control_error + PublicationPointer \<times> PublicationVersion \<times> PublicationVersion" where
  "promotion_plan gov validate_payload item db =
     (case get_pointer (fp_stream item) db of
        None \<Rightarrow> refused ''stale_composition''
      | Some p \<Rightarrow>
          if pp_active p \<noteq> Some (fp_expected_publication item) \<or> pp_fence p \<noteq> fp_expected_fence item
          then refused ''stale_composition''
          else case (active_version p db, get_version (fp_candidate item) db) of
            (Some current, Some candidate) \<Rightarrow>
              if pv_stream candidate \<noteq> fp_stream item \<or> pv_status candidate \<noteq> CANDIDATE
                 \<or> pv_season candidate \<noteq> pv_season current \<or> pv_cutoff candidate \<noteq> pv_cutoff current
              then refused ''publication_candidate_invalid''
              else if pv_manifest current \<noteq> None \<and> authority_of candidate \<noteq> authority_of current
              then refused ''ledger_provenance_manifest_mismatch''
              else if \<not> publication_payload_matches_checksum gov (pv_payload candidate) (pv_checksum candidate)
              then refused ''publication_checksum_mismatch''
              else and_then (checked (validate_payload (fp_stream item) (pv_payload candidate))) (\<lambda>_.
                Inr (p, current, candidate))
          | _ \<Rightarrow> refused ''publication_candidate_invalid'')"

definition promote_publication_family ::
  "governance \<Rightarrow> FamilyPromotion list \<Rightarrow> string \<Rightarrow> string \<Rightarrow> payload_check \<Rightarrow> family_check \<Rightarrow> instant \<Rightarrow> control_db
     \<Rightarrow> control_error + string list \<times> control_db" where
  "promote_publication_family gov promotions actor reason validate_payload validate_family now db =
     (if promotions = [] then refused ''stream_unsupported''
      else if length (strip reason) < 3 then refused ''reason_required''
      else
        let ordered = sort_key fp_stream promotions
        in if \<not> distinct (map fp_stream ordered) then refused ''duplicate_publication_stream''
           else and_then (map_res (\<lambda>item. promotion_plan gov validate_payload item db) ordered) (\<lambda>plans.
             and_then (checked (validate_family (map (\<lambda>(p, current, candidate). (pp_stream p, candidate)) plans))) (\<lambda>_.
               Inr (map (\<lambda>(p, current, candidate). pv_id candidate) plans,
                    fold (\<lambda>(p, current, candidate). move_pointer_to_candidate p candidate (Some current) actor reason now)
                      plans db))))"

definition locked_window ::
  "(string \<times> int) list option \<Rightarrow> string \<Rightarrow> control_db \<Rightarrow> control_error + PublicationPointer \<times> PublicationVersion" where
  "locked_window expected_fences k db =
     (case get_pointer k db of
        None \<Rightarrow> refused ''rollback_unavailable''
      | Some p \<Rightarrow>
          if pp_active p = None then refused ''rollback_unavailable''
          else if (case expected_fences of None \<Rightarrow> False | Some fs \<Rightarrow> map_of fs k \<noteq> Some (pp_fence p))
          then refused ''stale_composition''
          else case active_version p db of
            None \<Rightarrow> refused ''rollback_unavailable''
          | Some current \<Rightarrow> Inr (p, current))"

definition rollback_plan ::
  "governance \<Rightarrow> payload_check \<Rightarrow> control_db \<Rightarrow> PublicationPointer \<times> PublicationVersion
     \<Rightarrow> control_error + PublicationPointer \<times> PublicationVersion \<times> PublicationVersion" where
  "rollback_plan gov validate_payload db window =
     (case window of (p, current) \<Rightarrow>
        case pp_previous p of
          None \<Rightarrow> refused ''rollback_unavailable''
        | Some i \<Rightarrow>
            (case get_version i db of
               None \<Rightarrow> refused ''rollback_unavailable''
             | Some prior \<Rightarrow>
                 and_then (assert_rollback_target_not_revoked (pp_stream p) prior db) (\<lambda>_.
                   if \<not> publication_payload_matches_checksum gov (pv_payload prior) (pv_checksum prior)
                   then refused ''publication_checksum_mismatch''
                   else and_then (checked (validate_payload (pp_stream p) (pv_payload prior))) (\<lambda>_.
                     Inr (p, prior, current)))))"

definition rollback_publication_family ::
  "governance \<Rightarrow> (string \<Rightarrow> string) \<Rightarrow> string list \<Rightarrow> string \<Rightarrow> (string \<times> int) list option \<Rightarrow> payload_check \<Rightarrow> family_check
     \<Rightarrow> instant \<Rightarrow> control_db \<Rightarrow> control_error + string list \<times> control_db" where
  "rollback_publication_family gov uid stream_keys reason expected_fences validate_payload validate_family now db =
     (let ordered = sort (remdups stream_keys)
      in if ordered = [] then refused ''stream_unsupported''
         else if length (strip reason) < 3 then refused ''reason_required''
         else and_then (map_res (\<lambda>k. locked_window expected_fences k db) ordered) (\<lambda>locked.
           let newest = last (sort (map (pv_season \<circ> snd) locked));
               moving = filter (\<lambda>w. pv_season (snd w) = newest) locked;
               staying = filter (\<lambda>w. pv_season (snd w) \<noteq> newest) locked
           in and_then (map_res (rollback_plan gov validate_payload db) moving) (\<lambda>plans.
             and_then (checked (validate_family (sort_key fst
                 (map (\<lambda>(p, prior, current). (pp_stream p, prior)) plans @ map (\<lambda>(p, current). (pp_stream p, current)) staying)))) (\<lambda>_.
               and_then (fold_res (\<lambda>(p, prior, current). restore_previous gov (uid (pp_stream p)) p prior current reason now) plans db)
                 (\<lambda>db'. Inr (map (\<lambda>(p, prior, current). uid (pp_stream p)) plans, db'))))))"

section \<open>Season cutover\<close>

definition coupled_left_behind :: "string list \<Rightarrow> (string \<times> string) list \<Rightarrow> (string \<times> string) list" where
  "coupled_left_behind moving left_behind =
     fold (\<lambda>family result.
       let members = filter (\<lambda>k. k \<in> set moving) family
       in if list_ex (\<lambda>k. k \<in> fst ` set result) members
          then result @ map (\<lambda>k. (k, ''publication_family_coupled'')) (filter (\<lambda>k. k \<notin> fst ` set result) members)
          else result) COUPLED_PUBLICATION_STREAM_FAMILIES left_behind"

text \<open>The games a ledger candidate records, by observation; \<open>None\<close> when one has no game.\<close>

definition candidate_ledger_lineage :: "string \<Rightarrow> control_db \<Rightarrow> (string \<times> string) list option" where
  "candidate_ledger_lineage i db =
     (let rows = filter (\<lambda>r. po_publication r = i \<and> po_role r \<in> set ledger_roles \<and> map_of (db_scopes db) (po_observation r) \<noteq> None)
                   (db_lineage db);
          game = (\<lambda>r. case po_slice r of
                    Some g \<Rightarrow> if g = [] then scope_game (the (map_of (db_scopes db) (po_observation r))) else g
                  | None \<Rightarrow> scope_game (the (map_of (db_scopes db) (po_observation r))))
      in if list_ex (\<lambda>r. game r = []) rows then None else Some (map (\<lambda>r. (po_observation r, game r)) rows))"

definition ends_with :: "string \<Rightarrow> string \<Rightarrow> bool" where
  "ends_with s suffix \<longleftrightarrow> drop (length s - length suffix) s = suffix"

definition assert_cutover_candidate ::
  "governance \<Rightarrow> PublicationStream \<Rightarrow> PublicationVersion \<Rightarrow> string \<Rightarrow> (string \<times> string \<times> string) option \<Rightarrow> control_db
     \<Rightarrow> control_error + unit" where
  "assert_cutover_candidate gov s candidate season authority db =
     (if \<not> publication_payload_matches_checksum gov (pv_payload candidate) (pv_checksum candidate)
      then refused ''publication_checksum_mismatch''
      else case verify_publication_authority gov candidate db of
        None \<Rightarrow> refused ''publication_governance_unavailable''
      | Some identity \<Rightarrow>
          if authority \<noteq> None \<and> authority \<noteq> Some identity then refused ''cutover_authority_mismatch''
          else case gv_team_games gov (pv_season candidate) (pv_cutoff candidate)
                      (if ends_with (ps_key s) ''_l15'' then ''l15'' else ''season'') (authority_columns (Some identity)) of
            None \<Rightarrow> refused ''publication_governance_unavailable''
          | Some expected \<Rightarrow>
              let governed = concat (map snd expected)
              in and_then
                (if ps_provider s \<noteq> ''ledger'' then Inr ()
                 else case candidate_ledger_lineage (pv_id candidate) db of
                   None \<Rightarrow> refused ''ledger_provenance_not_accepted''
                 | Some lineage \<Rightarrow>
                     (case gv_ledger_accepts gov (pv_season candidate) (pv_cutoff candidate)
                             (map (\<lambda>(o', g). (o', Some g)) lineage) (pv_manifest candidate) of
                        Some e \<Rightarrow> Inl e
                      | None \<Rightarrow> ensure (snd ` set lineage = set governed) (ControlPlaneError ''publication_game_set_mismatch'' None)))
                (\<lambda>_.
                  if \<not> gv_decodes gov (ps_key s) (pv_payload candidate) season (Some expected)
                  then refused ''publication_candidate_invalid''
                  else if ps_key s \<noteq> PUBLISHED_SEASON_STREAM then Inr ()
                  else
                    let rows = gv_log_rows gov season (pv_payload candidate)
                    in ensure (fst ` set rows = set governed \<and>
                         list_all (\<lambda>g. snd ` set (filter (\<lambda>r. fst r = g) rows) =
                           (show_int \<circ> fst) ` set (filter (\<lambda>e. g \<in> set (snd e)) expected)) governed)
                       (ControlPlaneError ''publication_game_set_mismatch'' None)))"

definition season_candidate_refusal ::
  "governance \<Rightarrow> PublicationStream \<Rightarrow> PublicationVersion \<Rightarrow> string \<Rightarrow> (string \<times> string \<times> string) option \<Rightarrow> control_db
     \<Rightarrow> string option" where
  "season_candidate_refusal gov s candidate season authority db =
     (if \<not> readiness_rule_holds gov (ps_key s) season (pv_cutoff candidate)
            (if pv_manifest candidate = None then (None, None, None) else authority_of candidate)
      then Some ''serving_season_not_ready''
      else case assert_cutover_candidate gov s candidate season authority db of
        Inl e \<Rightarrow> Some (ce_reason e)
      | Inr _ \<Rightarrow> None)"

record CutoverMove =
  cv_stream :: PublicationStream
  cv_pointer :: PublicationPointer
  cv_current :: PublicationVersion
  cv_candidate :: PublicationVersion

text \<open>The held candidate of the season a stream would move to: it must be bound, to another season.\<close>

definition cutover_move :: "string \<Rightarrow> control_db \<Rightarrow> PublicationStream \<Rightarrow> CutoverMove option" where
  "cutover_move season db s =
     (case get_pointer (ps_key s) db of
        None \<Rightarrow> None
      | Some p \<Rightarrow>
          (case active_version p db of
             None \<Rightarrow> None
           | Some current \<Rightarrow>
               if pv_season current = season then None
               else case newest_first (filter (\<lambda>v. pv_stream v = ps_key s \<and> pv_season v = season \<and> pv_status v = CANDIDATE)
                           (db_versions db)) of
                 [] \<Rightarrow> None
               | candidate # _ \<Rightarrow> Some \<lparr>cv_stream = s, cv_pointer = p, cv_current = current, cv_candidate = candidate\<rparr>))"

definition move_key :: "CutoverMove \<Rightarrow> string" where "move_key m = ps_key (cv_stream m)"

text \<open>The streams that would stay behind, in key order after the game logs, each with its reason.\<close>

definition left_behind_by_checks ::
  "governance \<Rightarrow> string \<Rightarrow> (string \<times> string \<times> string) option \<Rightarrow> CutoverMove list \<Rightarrow> control_db \<Rightarrow> (string \<times> string) list" where
  "left_behind_by_checks gov season authority moves db =
     concat (map (\<lambda>m. case season_candidate_refusal gov (cv_stream m) (cv_candidate m) season authority db of
         None \<Rightarrow> []
       | Some r \<Rightarrow> [(move_key m, r)]) moves)"

definition cutover_refusal ::
  "governance \<Rightarrow> CutoverMove list \<Rightarrow> string \<Rightarrow> (string \<times> int) list option \<Rightarrow> control_db
     \<Rightarrow> string option \<times> (string \<times> string) list" where
  "cutover_refusal gov moves season expected_fences db =
     (case find (\<lambda>m. move_key m = PUBLISHED_SEASON_STREAM) moves of
        None \<Rightarrow> (Some ''cutover_player_game_logs_candidate_required'', [])
      | Some logs \<Rightarrow>
          (if (case expected_fences of None \<Rightarrow> False
                 | Some fs \<Rightarrow> list_ex (\<lambda>m. map_of fs (move_key m) \<noteq> Some (pp_fence (cv_pointer m))) moves)
           then (Some ''stale_composition'', [])
           else case season_candidate_refusal gov (cv_stream logs) (cv_candidate logs) season None db of
             Some r \<Rightarrow> (Some r, [])
           | None \<Rightarrow>
               let authority = (case authority_of (cv_candidate logs) of (Some m, Some c, Some x) \<Rightarrow> Some (m, c, x) | _ \<Rightarrow> None);
                   others = sort_key move_key (filter (\<lambda>m. move_key m \<noteq> PUBLISHED_SEASON_STREAM) moves)
               in (None, coupled_left_behind (map move_key moves) (left_behind_by_checks gov season authority others db))))"

definition valid_season :: "string \<Rightarrow> bool" where
  "valid_season s \<longleftrightarrow>
     length s = 7 \<and> s ! 4 = CHR ''-'' \<and>
     (case (int_of_text (take 4 s), int_of_text (drop 5 s)) of
        (Some a, Some b) \<Rightarrow> a + 1 = 2000 + b
      | _ \<Rightarrow> False)"

definition moved_stream :: "CutoverMove \<Rightarrow> MovedStream" where
  "moved_stream m =
     \<lparr>mv_stream = move_key m, mv_from = pv_id (cv_current m), mv_from_previous = pp_previous (cv_pointer m),
      mv_from_season = pv_season (cv_current m), mv_to = pv_id (cv_candidate m), mv_fence = pp_fence (cv_pointer m) + 1\<rparr>"

text \<open>The plan a dry run reports: why a cutover would be refused, the moves it would make and the
  streams it would leave behind.\<close>

definition cutover_plan ::
  "governance \<Rightarrow> string \<Rightarrow> (string \<times> int) list option \<Rightarrow> control_db
     \<Rightarrow> string option \<times> CutoverMove list \<times> (string \<times> string) list" where
  "cutover_plan gov season expected_fences db =
     (let streams = sort_key ps_key (filter ps_enabled (db_streams db));
          moves = concat (map (\<lambda>s. case cutover_move season db s of None \<Rightarrow> [] | Some m \<Rightarrow> [m]) streams);
          (refusal, left) = cutover_refusal gov moves season expected_fences db
      in (refusal, filter (\<lambda>m. move_key m \<notin> fst ` set left) moves, left))"

text \<open>The operator action: the cutover, and its record in the audit log under the operator job.\<close>

definition cutover_season ::
  "governance \<Rightarrow> string \<Rightarrow> string \<Rightarrow> string \<Rightarrow> string \<Rightarrow> (string \<times> int) list option \<Rightarrow> string list \<Rightarrow> instant \<Rightarrow> control_db
     \<Rightarrow> control_error + CutoverRecord \<times> control_db" where
  "cutover_season gov job season actor reason expected_fences leave_behind now db =
     (if \<not> valid_season season then refused ''invalid_season''
      else if length (strip reason) < 3 then refused ''reason_required''
      else case cutover_plan gov season expected_fences db of
        (Some r, _, _) \<Rightarrow> refused r
      | (None, moves, left) \<Rightarrow>
          if set leave_behind \<noteq> fst ` set left then refused ''cutover_leave_behind_mismatch''
          else
            let db1 = fold (\<lambda>m. move_pointer_to_candidate (cv_pointer m) (cv_candidate m) (Some (cv_current m)) actor reason now)
                        moves db;
                record = \<lparr>cu_season = season, cu_moved = map moved_stream moves, cu_left_behind = sort_key fst left,
                          cu_fences = map (\<lambda>s. (ps_key s, fence_of (ps_key s) db1)) (sort_key ps_key (filter ps_enabled (db_streams db))),
                          cu_job = job\<rparr>
            in Inr (record, db1\<lparr>db_audits := db_audits db1 @ [SeasonCutoverAudit record]\<rparr>))"

definition cutover_record :: "string \<Rightarrow> string \<Rightarrow> control_db \<Rightarrow> CutoverRecord option" where
  "cutover_record season job db =
     find (\<lambda>c. cu_season c = season \<and> cu_job c = job)
       (concat (map (\<lambda>a. case a of SeasonCutoverAudit c \<Rightarrow> [c] | _ \<Rightarrow> []) (db_audits db)))"

definition intact_target :: "governance \<Rightarrow> string \<Rightarrow> string \<Rightarrow> control_db \<Rightarrow> bool" where
  "intact_target gov k i db =
     (case get_version i db of
        None \<Rightarrow> False
      | Some v \<Rightarrow> pv_stream v = k \<and> publication_payload_matches_checksum gov (pv_payload v) (pv_checksum v))"

definition revert_plan ::
  "governance \<Rightarrow> control_db \<Rightarrow> MovedStream \<Rightarrow> control_error + MovedStream \<times> PublicationPointer \<times> PublicationVersion" where
  "revert_plan gov db m =
     (case (get_pointer (mv_stream m) db, get_version (mv_to m) db) of
        (Some p, Some promoted) \<Rightarrow>
          (if pp_active p \<noteq> Some (mv_to m) \<or> pp_previous p \<noteq> Some (mv_from m) then refused ''cutover_superseded''
           else if \<not> list_all (\<lambda>i. intact_target gov (mv_stream m) i db)
                    (mv_from m # (case mv_from_previous m of None \<Rightarrow> [] | Some i \<Rightarrow> [i]))
           then refused ''cutover_restore_unavailable''
           else case get_version (mv_from m) db of
             None \<Rightarrow> refused ''cutover_restore_unavailable''
           | Some restored \<Rightarrow> Inr (m, p, restored))
      | _ \<Rightarrow> refused ''cutover_superseded'')"

definition revert_move :: "instant \<Rightarrow> MovedStream \<times> PublicationPointer \<times> PublicationVersion \<Rightarrow> control_db \<Rightarrow> control_db" where
  "revert_move now plan db =
     (case plan of (m, p, restored) \<Rightarrow>
        let p' = p\<lparr>pp_fence := pp_fence p + 1, pp_active := Some (pv_id restored), pp_previous := mv_from_previous m,
                   pp_updated := now\<rparr>;
            db1 = set_status (\<lambda>v. pv_id v = mv_to m) SUPERSEDED
                    (set_status (\<lambda>v. pv_id v = pv_id restored) ACTIVE (set_pointer p' db));
            db2 = revoke_pointer_history (mv_stream m) [mv_to m] now (pp_fence p') db1
        in record_pointer_activation p' restored now db2)"

definition revert_season_cutover ::
  "governance \<Rightarrow> string \<Rightarrow> string \<Rightarrow> string \<Rightarrow> instant \<Rightarrow> control_db \<Rightarrow> control_error + MovedStream list \<times> control_db" where
  "revert_season_cutover gov season job reason now db =
     (if length (strip reason) < 3 then refused ''reason_required''
      else case cutover_record season job db of
        None \<Rightarrow> refused ''cutover_not_found''
      | Some c \<Rightarrow>
          if cu_moved c = [] then refused ''cutover_not_found''
          else if \<not> cutover_reversible c db then refused ''cutover_superseded''
          else and_then (map_res (revert_plan gov db) (cu_moved c)) (\<lambda>plans.
            let db1 = fold (revert_move now) plans db
            in Inr (cu_moved c, db1\<lparr>db_audits := db_audits db1 @ [CutoverRevertAudit job]\<rparr>)))"

section \<open>Retention\<close>

definition AS_OF_DAILY_RETENTION_DAYS :: int where "AS_OF_DAILY_RETENTION_DAYS = 14"

definition day_us :: int where "day_us = 86400000000"

text \<open>The ISO year and week of a day: those of the week's Thursday (the ordinal 1 is a Monday).\<close>

definition iso_week :: "int \<Rightarrow> int \<times> int" where
  "iso_week ordinal =
     (let thursday = ordinal - (ordinal - 1) mod 7 + 3;
          year = fst (ord2ymd thursday)
      in (year, (thursday - ymd2ord year 1 1) div 7 + 1))"

definition retention_week :: "governance \<Rightarrow> instant \<Rightarrow> int \<times> int" where
  "retention_week gov cutoff = iso_week (gv_eastern_date gov cutoff)"

definition eligible :: "PublicationPointerHistory \<Rightarrow> bool" where
  "eligible h \<longleftrightarrow> ph_revoked h = None \<and> ph_retired h = None"

text \<open>The latest eligible activation of its stream and season, among those whose publication is
  still there.\<close>

definition season_latest :: "control_db \<Rightarrow> string \<Rightarrow> string \<Rightarrow> bool" where
  "season_latest db k i \<longleftrightarrow>
     list_ex (\<lambda>h. ph_stream h = k \<and> ph_publication h = i \<and> eligible h \<and>
       \<not> list_ex (\<lambda>n. ph_stream n = ph_stream h \<and> ph_season n = ph_season h \<and> ph_fence h < ph_fence n \<and> eligible n \<and>
           get_version (ph_publication n) db \<noteq> None) (db_history db)) (db_history db)"

definition serving_season :: "control_db \<Rightarrow> string \<Rightarrow> string option" where
  "serving_season db k = (case get_pointer k db of None \<Rightarrow> None | Some p \<Rightarrow> map_option pv_season (active_version p db))"

definition after_serving :: "control_db \<Rightarrow> PublicationVersion \<Rightarrow> bool" where
  "after_serving db v = (case serving_season db (pv_stream v) of None \<Rightarrow> False | Some s \<Rightarrow> s < pv_season v)"

text \<open>The versions of a later season an as-of read may still serve, and the newest of each week.\<close>

definition week_newest :: "governance \<Rightarrow> control_db \<Rightarrow> PublicationVersion list \<Rightarrow> PublicationVersion \<Rightarrow> bool" where
  "week_newest gov db vs v \<longleftrightarrow>
     (let servable = (\<lambda>u. after_serving db u \<and>
            (pv_status u = CANDIDATE \<or> pv_status u = SUPERSEDED \<and> \<not> publication_withdrawn (pv_id u) db));
          week = (\<lambda>u. (pv_stream u, pv_season u, retention_week gov (pv_cutoff u)));
          rivals = filter (\<lambda>u. servable u \<and> week u = week v) vs;
          best = fold (\<lambda>u b. case b of None \<Rightarrow> Some u
                         | Some w \<Rightarrow> if (pv_cutoff w, pv_version w) < (pv_cutoff u, pv_version u) then Some u else Some w) rivals None
      in map_option pv_id best = Some (pv_id v))"

datatype keep_reason = KeepActive | KeepPrevious | KeepCandidate | KeepSeasonLatest | KeepCutoverRestore | KeepAsOf

definition keep_reason_of ::
  "governance \<Rightarrow> instant \<Rightarrow> control_db \<Rightarrow> PublicationVersion list \<Rightarrow> PublicationVersion \<Rightarrow> keep_reason option" where
  "keep_reason_of gov now db vs v =
     (let pointer = get_pointer (pv_stream v) db
      in if (case pointer of None \<Rightarrow> False | Some p \<Rightarrow> pp_active p = Some (pv_id v)) then Some KeepActive
         else if (case pointer of None \<Rightarrow> False | Some p \<Rightarrow> pp_previous p = Some (pv_id v)) then Some KeepPrevious
         else if pv_status v = CANDIDATE then Some KeepCandidate
         else if season_latest db (pv_stream v) (pv_id v) then Some KeepSeasonLatest
         else if pv_id v \<in> set (reversible_cutover_targets db) then Some KeepCutoverRestore
         else if pv_status v = SUPERSEDED \<and> \<not> publication_withdrawn (pv_id v) db \<and> after_serving db v
             \<and> (now - AS_OF_DAILY_RETENTION_DAYS * day_us \<le> pv_cutoff v \<or> week_newest gov db vs v)
           then Some KeepAsOf
         else None)"

text \<open>Deleting a version takes its lineage rows and its projection with it.\<close>

definition delete_versions :: "string list \<Rightarrow> control_db \<Rightarrow> control_db" where
  "delete_versions doomed db =
     db\<lparr>db_versions := filter (\<lambda>v. pv_id v \<notin> set doomed) (db_versions db),
        db_lineage := filter (\<lambda>r. po_publication r \<notin> set doomed) (db_lineage db),
        db_projections := filter (\<lambda>i. i \<notin> set doomed) (db_projections db)\<rparr>"

definition prune_history ::
  "governance \<Rightarrow> string option \<Rightarrow> string option \<Rightarrow> instant \<Rightarrow> control_db \<Rightarrow> (nat \<times> keep_reason list) \<times> control_db" where
  "prune_history gov stream_key season now db =
     (let locked = filter (\<lambda>k. case stream_key of None \<Rightarrow> True | Some k' \<Rightarrow> k = k') (map ps_key (db_streams db));
          vs = filter (\<lambda>v. pv_stream v \<in> set locked \<and> (case season of None \<Rightarrow> True | Some s \<Rightarrow> pv_season v = s)) (db_versions db);
          reasons = map (\<lambda>v. (pv_id v, keep_reason_of gov now db vs v)) vs;
          doomed = map fst (filter (\<lambda>r. snd r = None) reasons)
      in ((length doomed, concat (map (\<lambda>r. case snd r of None \<Rightarrow> [] | Some k \<Rightarrow> [k]) reasons)), delete_versions doomed db))"

section \<open>Streams and their activation\<close>

text \<open>The streams the registry marks unavailable by contract.\<close>

definition never_scheduled :: "string list" where
  "never_scheduled = [''traditional_opponent'', ''assist_locations'', ''synergy_play_types_opponent_l15'', ''synergy:l15'']"

definition register_stream :: "PublicationStream \<Rightarrow> bool option \<Rightarrow> control_db \<Rightarrow> control_error + control_db" where
  "register_stream row enabled db =
     (if ps_key row = [] \<or> ps_provider row = [] then refused ''invalid_stream''
      else if ps_key row \<in> set never_scheduled \<and> enabled = Some True then refused ''stream_unavailable''
      else case get_stream (ps_key row) db of
        None \<Rightarrow> Inr (db\<lparr>db_streams := db_streams db @ [row\<lparr>ps_enabled := (enabled = Some True)\<rparr>]\<rparr>)
      | Some s \<Rightarrow>
          Inr (db\<lparr>db_streams := update_where (\<lambda>r. ps_key r = ps_key row)
                 (\<lambda>r. row\<lparr>ps_enabled := (case enabled of None \<Rightarrow> ps_enabled r | Some b \<Rightarrow> b)\<rparr>) (db_streams db)\<rparr>))"

definition parity_streams :: "string list" where
  "parity_streams = [''player_game_logs'', ''traditional_opponent'', ''traditional_opponent_season'', ''traditional_opponent_l15'',
     ''assist_locations_season'', ''assist_locations_l15'', ''player_per36'']"

record Activation =
  ac_stream :: string
  ac_reason :: string
  ac_actor :: string
  ac_season :: "string option"
  ac_cutoff :: "instant option"
  ac_expected_games :: "(int \<times> string list) list option"
  ac_artifact :: "string option"
  ac_candidate :: "string option"
  ac_require_candidate :: bool
  ac_expected_traditional :: "string option"

text \<open>The candidate an activation names, with every check it must pass.\<close>

definition named_candidate ::
  "governance \<Rightarrow> Activation \<Rightarrow> string \<Rightarrow> control_db
     \<Rightarrow> control_error + PublicationVersion \<times> (int \<times> string list) list option" where
  "named_candidate gov a i db =
     (case get_version i db of
        None \<Rightarrow> refused ''publication_candidate_invalid''
      | Some v \<Rightarrow>
          if pv_stream v \<noteq> ac_stream a
             \<or> \<not> (pv_status v = CANDIDATE \<or> ac_stream a \<in> set parity_streams \<and> pv_status v = ACTIVE)
          then refused ''publication_candidate_invalid''
          else if \<not> publication_payload_matches_checksum gov (pv_payload v) (pv_checksum v)
          then refused ''publication_checksum_mismatch''
          else if (case ac_season a of None \<Rightarrow> False | Some s \<Rightarrow> pv_season v \<noteq> s)
                 \<or> (case ac_cutoff a of None \<Rightarrow> False | Some t \<Rightarrow> pv_cutoff v \<noteq> t)
          then refused ''publication_candidate_invalid''
          else if ac_stream a \<notin> set NBA_PUBLICATION_STREAM_KEYS then Inr (v, ac_expected_games a)
          else case verify_publication_authority gov v db of
            None \<Rightarrow> refused ''publication_governance_unavailable''
          | Some authority \<Rightarrow>
              (case gv_team_games gov (pv_season v) (pv_cutoff v)
                      (if ends_with (ac_stream a) ''_l15'' then ''l15'' else ''season'') (authority_columns (Some authority)) of
                 None \<Rightarrow> refused ''publication_governance_unavailable''
               | Some games \<Rightarrow> Inr (v, Some games)))"

definition parity_check :: "governance \<Rightarrow> Activation \<Rightarrow> PublicationVersion option \<Rightarrow> control_error + unit" where
  "parity_check gov a candidate =
     (if ac_stream a \<notin> set parity_streams then Inr ()
      else case (ac_season a, ac_cutoff a, ac_artifact a, candidate) of
        (Some season, Some cutoff, Some artifact, Some v) \<Rightarrow>
          (if \<not> valid_season season \<or> strip artifact = [] then refused ''ledger_parity_evidence_required''
           else checked (gv_parity gov (ac_stream a) v artifact))
      | _ \<Rightarrow> refused ''ledger_parity_evidence_required'')"

definition rebound_window :: "string \<Rightarrow> string option" where
  "rebound_window k = map_of [(''rebound_types_season'', ''season''), (''rebound_types_l15'', ''l15'')] k"

definition assert_rebound_identity ::
  "governance \<Rightarrow> PublicationVersion \<Rightarrow> string \<Rightarrow> string option \<Rightarrow> control_db \<Rightarrow> control_error + unit" where
  "assert_rebound_identity gov candidate window expected_traditional db =
     (case (case get_pointer (''traditional_opponent_'' @ window) db of None \<Rightarrow> None | Some p \<Rightarrow> active_version p db) of
        None \<Rightarrow> refused ''rebound_identity_evidence_unavailable''
      | Some active \<Rightarrow>
          if pv_season active \<noteq> pv_season candidate then refused ''rebound_identity_evidence_unavailable''
          else if expected_traditional \<noteq> None \<and> expected_traditional \<noteq> Some (pv_id active) then refused ''traditional_pointer_moved''
          else if gv_rebound_failures gov (pv_payload candidate) (pv_payload active) window then refused ''rebound_identity_failed''
          else Inr ())"

definition lineage_check :: "governance \<Rightarrow> PublicationVersion \<Rightarrow> control_db \<Rightarrow> control_error + unit" where
  "lineage_check gov v db =
     (case candidate_ledger_lineage (pv_id v) db of
        None \<Rightarrow> refused ''ledger_provenance_not_accepted''
      | Some lineage \<Rightarrow> checked (gv_ledger_accepts gov (pv_season v) (pv_cutoff v) (map (\<lambda>(o', g). (o', Some g)) lineage) (pv_manifest v)))"

definition activation_checks ::
  "governance \<Rightarrow> Activation \<Rightarrow> PublicationStream \<Rightarrow> PublicationVersion \<times> (int \<times> string list) list option \<Rightarrow> control_db
     \<Rightarrow> control_error + unit" where
  "activation_checks gov a s c db =
     and_then (if ps_provider s = ''ledger'' then lineage_check gov (fst c) db else Inr ()) (\<lambda>_.
       if \<not> gv_decodes gov (ac_stream a) (pv_payload (fst c)) (pv_season (fst c)) (snd c)
       then refused ''publication_candidate_invalid''
       else case rebound_window (ac_stream a) of
         None \<Rightarrow> Inr ()
       | Some w \<Rightarrow> assert_rebound_identity gov (fst c) w (ac_expected_traditional a) db)"

definition bind_candidate :: "Activation \<Rightarrow> PublicationVersion \<Rightarrow> instant \<Rightarrow> control_db \<Rightarrow> control_error + control_db" where
  "bind_candidate a v now db =
     (if list_ex (\<lambda>r. pa_stream r = ac_stream a \<and> pa_publication r = pv_id v) (db_activations db)
      then refused ''activation_already_recorded''
      else
        let (p, db1) = (case get_pointer (ac_stream a) db of
              Some p \<Rightarrow> (p, db)
            | None \<Rightarrow>
                let p = \<lparr>pp_stream = ac_stream a, pp_active = None, pp_previous = None, pp_fence = 0, pp_updated = now\<rparr>
                in (p, db\<lparr>db_pointers := db_pointers db @ [p]\<rparr>));
            p' = p\<lparr>pp_fence := pp_fence p + 1, pp_previous := pp_active p, pp_active := Some (pv_id v), pp_updated := now\<rparr>;
            db2 = db1\<lparr>db_versions := update_where (\<lambda>u. pv_id u = pv_id v)
                    (\<lambda>u. u\<lparr>pv_status := ACTIVE, pv_fence := pp_fence p'\<rparr>) (db_versions db1)\<rparr>;
            db3 = (case pp_active p of
                     None \<Rightarrow> db2
                   | Some old \<Rightarrow> if old \<noteq> pv_id v then set_status (\<lambda>u. pv_id u = old) SUPERSEDED db2 else db2);
            db4 = record_pointer_activation p' v now (set_pointer p' db3)
        in Inr (db4\<lparr>db_activations := db_activations db4 @
             [\<lparr>pa_stream = ac_stream a, pa_publication = pv_id v,
               pa_actor = (if clip 128 (strip (ac_actor a)) = [] then ''operator'' else clip 128 (strip (ac_actor a))),
               pa_reason = clip 255 (strip (ac_reason a)), pa_fence = pp_fence p'\<rparr>]\<rparr>))"

definition enable_stream :: "string \<Rightarrow> control_db \<Rightarrow> control_db" where
  "enable_stream k db = db\<lparr>db_streams := update_where (\<lambda>s. ps_key s = k) (\<lambda>s. s\<lparr>ps_enabled := True\<rparr>) (db_streams db)\<rparr>"

definition activate_stream :: "governance \<Rightarrow> Activation \<Rightarrow> instant \<Rightarrow> control_db \<Rightarrow> control_error + control_db" where
  "activate_stream gov a now db =
     (if length (strip (ac_reason a)) < 3 then refused ''reason_required''
      else case get_stream (ac_stream a) db of
        None \<Rightarrow> refused ''stream_not_found''
      | Some s \<Rightarrow>
          if ac_stream a \<in> {''traditional_opponent'', ''assist_locations''} then refused ''stream_unavailable''
          else if list_ex (\<lambda>family. ac_stream a \<in> set family) COUPLED_PUBLICATION_STREAM_FAMILIES
                 \<and> (case get_pointer (ac_stream a) db of None \<Rightarrow> False | Some p \<Rightarrow> pp_active p \<noteq> None)
          then refused ''publication_family_coupled''
          else if ac_stream a \<in> set never_scheduled then refused ''stream_unavailable''
          else if ac_require_candidate a \<and> ac_candidate a = None then refused ''publication_candidate_required''
          else and_then (case ac_candidate a of
                 None \<Rightarrow> Inr None
               | Some i \<Rightarrow> and_then (named_candidate gov a i db) (\<lambda>c. Inr (Some c))) (\<lambda>candidate.
            and_then (parity_check gov a (map_option fst candidate)) (\<lambda>_.
              case candidate of
                None \<Rightarrow> Inr (enable_stream (ac_stream a) db)
              | Some c \<Rightarrow>
                  and_then (activation_checks gov a s c db) (\<lambda>_.
                    and_then (bind_candidate a (fst c) now db) (\<lambda>db'. Inr (enable_stream (ac_stream a) db'))))))"

section \<open>Repair groups\<close>

definition repair_member_plan ::
  "(string \<Rightarrow> control_error + Composition) \<Rightarrow> control_db \<Rightarrow> PublicationRepairGroupMember
     \<Rightarrow> control_error + PublicationRepairGroupMember \<times> Composition" where
  "repair_member_plan prepare db m =
     (case get_pointer (gm_stream m) db of
        None \<Rightarrow> refused ''repair_group_guard_stale''
      | Some p \<Rightarrow>
          if pp_active p \<noteq> Some (gm_expected_publication m) \<or> pp_fence p \<noteq> gm_expected_fence m
          then refused ''repair_group_guard_stale''
          else and_then (prepare (gm_stream m)) (\<lambda>c. Inr (m, c)))"

text \<open>One member's advance: its guard's generation is expected, and what it displaces is superseded
  and not kept as a rollback target.\<close>

definition repair_member ::
  "governance \<Rightarrow> (string \<Rightarrow> string) \<Rightarrow> string \<Rightarrow> string \<Rightarrow> instant \<Rightarrow> instant \<Rightarrow> PublicationRepairGroupMember \<times> Composition
     \<Rightarrow> control_db \<Rightarrow> control_error + control_db" where
  "repair_member gov uid season reason cutoff now plan db =
     (case plan of (m, c) \<Rightarrow>
        and_then (compose_active gov (uid (gm_stream m))
            (c\<lparr>co_stream := gm_stream m, co_season := season, co_cutoff := cutoff, co_expected_fence := Some (gm_expected_fence m),
               co_reason := Some reason, co_provenance := None, co_corrected := None, co_manifest := None,
               co_derive_fence := False, co_discard := True, co_pointer_expectation := None, co_job := None\<rparr>) now db) (\<lambda>(i, db1).
          Inr (set_status (\<lambda>v. pv_id v = gm_expected_publication m) SUPERSEDED db1)))"

definition promote_repair_group ::
  "governance \<Rightarrow> (string \<Rightarrow> string) \<Rightarrow> string \<Rightarrow> (string \<Rightarrow> control_error + Composition) \<Rightarrow> instant \<Rightarrow> control_db
     \<Rightarrow> control_error + control_db" where
  "promote_repair_group gov uid manifest_id prepare now db =
     (case find (\<lambda>g. rg_manifest g = manifest_id) (db_groups db) of
        None \<Rightarrow> refused ''repair_group_not_found''
      | Some g \<Rightarrow>
          if rg_promoted g \<noteq> None then refused ''repair_group_already_promoted''
          else case find (\<lambda>m. cm_id m = manifest_id) (db_manifests db) of
            None \<Rightarrow> refused ''repair_group_manifest_inactive''
          | Some manifest \<Rightarrow>
              if cm_status manifest \<noteq> ''active'' then refused ''repair_group_manifest_inactive''
              else
                let members = sort_key gm_stream (rg_members g)
                in and_then (map_res (repair_member_plan prepare db) members) (\<lambda>plans.
                  and_then (fold_res (repair_member gov uid (rg_season g) (rg_reason g) (cm_cutoff manifest) now) plans db) (\<lambda>db1.
                    Inr (db1\<lparr>
                      db_jobs := update_where (\<lambda>j. jb_manifest j = Some manifest_id \<and> jb_stream j \<in> set (map gm_stream members))
                        (\<lambda>j. j\<lparr>jb_status := ''succeeded'', jb_claimed_generation := None, jb_last_error := None\<rparr>) (db_jobs db1),
                      db_groups := update_where (\<lambda>h. rg_id h = rg_id g) (\<lambda>h. h\<lparr>rg_promoted := Some now\<rparr>) (db_groups db1)\<rparr>))))"

end
