(* ===== verification/Publication_Safety.thy ===== *)
theory Publication_Safety
  imports Publications "HOL-Library.Multiset"
begin

text \<open>
  What the publication tables promise, whatever the sequence of operations. The tables are read
  through a few observations: a version by its id, a stream's pointer, whether a publication was
  ever activated in a stream, whether one of its activations stands, and the generations recorded.
  Every operation is a composition of a few table updates, and each update's effect on the
  observations is an equation; the invariant and the properties rest on those.
\<close>

named_theorems table_simps "how an update of the tables changes what is observed of them"

section \<open>Observations\<close>

definition listed_in :: "string \<Rightarrow> string \<Rightarrow> control_db \<Rightarrow> bool" where
  "listed_in k i db \<longleftrightarrow> (\<exists>h \<in> set (db_history db). ph_stream h = k \<and> ph_publication h = i)"

definition served :: "string \<Rightarrow> string \<Rightarrow> control_db \<Rightarrow> bool" where
  "served k i db \<longleftrightarrow> (\<exists>h \<in> set (db_history db). ph_stream h = k \<and> ph_publication h = i \<and> ph_revoked h = None)"

definition stands_at :: "string \<Rightarrow> string \<Rightarrow> int \<Rightarrow> control_db \<Rightarrow> bool" where
  "stands_at k i f db \<longleftrightarrow> (\<exists>h \<in> set (db_history db). ph_stream h = k \<and> ph_publication h = i \<and> ph_fence h = f \<and> eligible h)"

definition generations :: "control_db \<Rightarrow> (string \<times> int) list" where
  "generations db = map (\<lambda>h. (ph_stream h, ph_fence h)) (db_history db)"

definition cutovers :: "control_db \<Rightarrow> CutoverRecord set" where
  "cutovers db = {c. SeasonCutoverAudit c \<in> set (db_audits db)}"

definition retire :: "string \<Rightarrow> string \<Rightarrow> instant \<Rightarrow> string \<Rightarrow> control_db \<Rightarrow> control_db" where
  "retire k i now by db = db\<lparr>db_history := update_where (\<lambda>h. ph_stream h = k \<and> ph_publication h = i \<and> ph_retired h = None)
     (\<lambda>h. h\<lparr>ph_retired := Some now, ph_retired_by := Some by\<rparr>) (db_history db)\<rparr>"

definition add_pointer :: "PublicationPointer \<Rightarrow> control_db \<Rightarrow> control_db" where
  "add_pointer p db = db\<lparr>db_pointers := db_pointers db @ [p]\<rparr>"

definition modify_versions :: "(PublicationVersion \<Rightarrow> PublicationVersion) \<Rightarrow> control_db \<Rightarrow> control_db" where
  "modify_versions f db = db\<lparr>db_versions := map f (db_versions db)\<rparr>"

lemma withdrawn_iff: "publication_withdrawn i db \<longleftrightarrow> (\<exists>k. listed_in k i db) \<and> (\<forall>k. \<not> served k i db)"
  by (auto simp: publication_withdrawn_def list_ex_iff listed_in_def served_def)

lemma stands_served: "stands_at k i f db \<Longrightarrow> served k i db"
  by (auto simp: stands_at_def served_def eligible_def)

lemma served_listed: "served k i db \<Longrightarrow> listed_in k i db"
  by (auto simp: served_def listed_in_def)

lemma find_map_key: "(\<And>x. k (f x) = k x) \<Longrightarrow> find (\<lambda>x. k x = i) (map f xs) = map_option f (find (\<lambda>x. k x = i) xs)"
  by (induction xs) auto

lemma find_append: "find q (xs @ ys) = (case find q xs of None \<Rightarrow> find q ys | Some x \<Rightarrow> Some x)"
  by (induction xs) auto

lemma find_update_key:
  assumes "k p = i"
  shows "find (\<lambda>x. k x = j) (update_where (\<lambda>q. k q = i) (\<lambda>_. p) xs) =
    (if j = i \<and> find (\<lambda>x. k x = j) xs \<noteq> None then Some p else find (\<lambda>x. k x = j) xs)"
  using assms by (induction xs) (auto simp: update_where_def)

lemma find_key: "find (\<lambda>x. k x = i) xs = Some x \<Longrightarrow> x \<in> set xs \<and> k x = i"
  by (induction xs) (auto split: if_splits)

lemma get_version_id: "get_version i db = Some v \<Longrightarrow> v \<in> set (db_versions db) \<and> pv_id v = i"
  unfolding get_version_def by (rule find_key)

lemma get_pointer_stream: "get_pointer k db = Some p \<Longrightarrow> pp_stream p = k"
  unfolding get_pointer_def by (drule find_key) simp

lemma set_status_modify: "set_status q st = modify_versions (\<lambda>v. if q v then v\<lparr>pv_status := st\<rparr> else v)"
  by (simp add: fun_eq_iff set_status_def modify_versions_def update_where_def)

lemma bex_snoc: "(\<exists>x \<in> set (xs @ [y]). P x) \<longleftrightarrow> (\<exists>x \<in> set xs. P x) \<or> P y"
  by auto

lemma bex_update_where: "(\<exists>x \<in> set (update_where q f xs). P x) \<longleftrightarrow> (\<exists>x \<in> set xs. if q x then P (f x) else P x)"
  by (auto simp: update_where_def)

lemma get_version_modify [table_simps]:
  "(\<And>v. pv_id (f v) = pv_id v) \<Longrightarrow> get_version i (modify_versions f db) = map_option f (get_version i db)"
  by (simp add: get_version_def modify_versions_def find_map_key)

lemma get_pointer_set [table_simps]:
  "get_pointer k (set_pointer p db) = (if k = pp_stream p \<and> get_pointer k db \<noteq> None then Some p else get_pointer k db)"
  by (auto simp: get_pointer_def set_pointer_def find_update_key [where k = pp_stream])

lemma get_pointer_add [table_simps]:
  "get_pointer k (add_pointer p db) =
     (case get_pointer k db of None \<Rightarrow> (if pp_stream p = k then Some p else None) | Some q \<Rightarrow> Some q)"
  by (auto simp: get_pointer_def add_pointer_def find_append split: option.splits)

lemma record_observed [table_simps]:
  "get_version i (record_pointer_activation p v now db) = get_version i db"
  "get_pointer k (record_pointer_activation p v now db) = get_pointer k db"
  "listed_in k i (record_pointer_activation p v now db) \<longleftrightarrow> listed_in k i db \<or> k = pp_stream p \<and> i = pv_id v"
  "served k i (record_pointer_activation p v now db) \<longleftrightarrow> served k i db \<or> k = pp_stream p \<and> i = pv_id v"
  "stands_at k i f (record_pointer_activation p v now db) \<longleftrightarrow>
     stands_at k i f db \<or> k = pp_stream p \<and> i = pv_id v \<and> f = pp_fence p"
  "generations (record_pointer_activation p v now db) = generations db @ [(pp_stream p, pp_fence p)]"
  "cutovers (record_pointer_activation p v now db) = cutovers db"
  by (auto simp: get_version_def get_pointer_def record_pointer_activation_def listed_in_def served_def stands_at_def
      generations_def cutovers_def eligible_def)

lemma revoke_observed [table_simps]:
  "get_version i (revoke_pointer_history k' ids now f' db) = get_version i db" (is "get_version _ ?db' = _")
  "get_pointer k (revoke_pointer_history k' ids now f' db) = get_pointer k db"
  "listed_in k i (revoke_pointer_history k' ids now f' db) \<longleftrightarrow> listed_in k i db"
  "served k i (revoke_pointer_history k' ids now f' db) \<longleftrightarrow> served k i db \<and> \<not> (k = k' \<and> i \<in> set ids)"
  "stands_at k i f (revoke_pointer_history k' ids now f' db) \<longleftrightarrow> stands_at k i f db \<and> \<not> (k = k' \<and> i \<in> set ids)"
  "generations (revoke_pointer_history k' ids now f' db) = generations db"
  "cutovers (revoke_pointer_history k' ids now f' db) = cutovers db"
proof -
  show "get_version i ?db' = get_version i db" "get_pointer k ?db' = get_pointer k db" "cutovers ?db' = cutovers db"
    by (simp_all add: get_version_def get_pointer_def cutovers_def revoke_pointer_history_def)
  show "listed_in k i ?db' \<longleftrightarrow> listed_in k i db"
    by (simp add: listed_in_def revoke_pointer_history_def bex_update_where) auto
  show "generations ?db' = generations db"
    by (simp add: generations_def revoke_pointer_history_def update_where_def)
  show "served k i ?db' \<longleftrightarrow> served k i db \<and> \<not> (k = k' \<and> i \<in> set ids)"
    by (simp add: served_def revoke_pointer_history_def bex_update_where) auto
  show "stands_at k i f ?db' \<longleftrightarrow> stands_at k i f db \<and> \<not> (k = k' \<and> i \<in> set ids)"
    by (simp add: stands_at_def eligible_def revoke_pointer_history_def bex_update_where) auto
qed

lemma retire_observed [table_simps]:
  "get_version i (retire k' j now b db) = get_version i db" (is "get_version _ ?db' = _")
  "get_pointer k (retire k' j now b db) = get_pointer k db"
  "listed_in k i (retire k' j now b db) \<longleftrightarrow> listed_in k i db"
  "served k i (retire k' j now b db) \<longleftrightarrow> served k i db"
  "stands_at k i f (retire k' j now b db) \<longleftrightarrow> stands_at k i f db \<and> \<not> (k = k' \<and> i = j)"
  "generations (retire k' j now b db) = generations db"
  "cutovers (retire k' j now b db) = cutovers db"
proof -
  show "get_version i ?db' = get_version i db" "get_pointer k ?db' = get_pointer k db" "cutovers ?db' = cutovers db"
    by (simp_all add: get_version_def get_pointer_def cutovers_def retire_def)
  show "listed_in k i ?db' \<longleftrightarrow> listed_in k i db"
    by (simp add: listed_in_def retire_def bex_update_where) auto
  show "generations ?db' = generations db"
    by (simp add: generations_def retire_def update_where_def)
  show "served k i ?db' \<longleftrightarrow> served k i db"
    by (simp add: served_def retire_def bex_update_where) auto
  show "stands_at k i f ?db' \<longleftrightarrow> stands_at k i f db \<and> \<not> (k = k' \<and> i = j)"
    by (simp add: stands_at_def eligible_def retire_def bex_update_where) auto
qed

definition append_version :: "PublicationVersion \<Rightarrow> control_db \<Rightarrow> control_db" where
  "append_version v db = db\<lparr>db_versions := db_versions db @ [v]\<rparr>"

lemma get_version_append [table_simps]:
  "get_version i (append_version v db) =
     (case get_version i db of None \<Rightarrow> (if pv_id v = i then Some v else None) | Some u \<Rightarrow> Some u)"
  by (auto simp: get_version_def append_version_def find_append split: option.splits)

lemma find_filter_key: "find (\<lambda>x. k x = i) (filter (\<lambda>x. k x \<notin> S) xs) = (if i \<in> S then None else find (\<lambda>x. k x = i) xs)"
  by (induction xs) auto

lemma get_version_delete [table_simps]:
  "get_version i (delete_versions doomed db) = (if i \<in> set doomed then None else get_version i db)"
  by (simp add: get_version_def delete_versions_def find_filter_key [where k = pv_id])

lemma version_updates_observed [table_simps]:
  "get_pointer k (modify_versions f db) = get_pointer k db" "listed_in k i (modify_versions f db) = listed_in k i db"
  "served k i (modify_versions f db) = served k i db" "stands_at k i n (modify_versions f db) = stands_at k i n db"
  "generations (modify_versions f db) = generations db" "cutovers (modify_versions f db) = cutovers db"
  "get_pointer k (append_version v db) = get_pointer k db" "listed_in k i (append_version v db) = listed_in k i db"
  "served k i (append_version v db) = served k i db" "stands_at k i n (append_version v db) = stands_at k i n db"
  "generations (append_version v db) = generations db" "cutovers (append_version v db) = cutovers db"
  "get_pointer k (delete_versions doomed db) = get_pointer k db" "listed_in k i (delete_versions doomed db) = listed_in k i db"
  "served k i (delete_versions doomed db) = served k i db" "stands_at k i n (delete_versions doomed db) = stands_at k i n db"
  "generations (delete_versions doomed db) = generations db" "cutovers (delete_versions doomed db) = cutovers db"
  by (simp_all add: get_pointer_def listed_in_def served_def stands_at_def generations_def cutovers_def
      modify_versions_def append_version_def delete_versions_def)

lemma pointer_updates_observed [table_simps]:
  "get_version i (set_pointer p db) = get_version i db" "listed_in k i (set_pointer p db) = listed_in k i db"
  "served k i (set_pointer p db) = served k i db" "stands_at k i n (set_pointer p db) = stands_at k i n db"
  "generations (set_pointer p db) = generations db" "cutovers (set_pointer p db) = cutovers db"
  "get_version i (add_pointer p db) = get_version i db" "listed_in k i (add_pointer p db) = listed_in k i db"
  "served k i (add_pointer p db) = served k i db" "stands_at k i n (add_pointer p db) = stands_at k i n db"
  "generations (add_pointer p db) = generations db" "cutovers (add_pointer p db) = cutovers db"
  by (simp_all add: get_version_def listed_in_def served_def stands_at_def generations_def cutovers_def
      set_pointer_def add_pointer_def)

text \<open>The tables these observations look at.\<close>

definition core :: "control_db \<Rightarrow> PublicationVersion list \<times> PublicationPointer list \<times> PublicationPointerHistory list \<times> CutoverRecord set" where
  "core db = (db_versions db, db_pointers db, db_history db, cutovers db)"

lemma core_observed:
  assumes "core db' = core db"
  shows "get_version i db' = get_version i db" "get_pointer k db' = get_pointer k db" "listed_in k i db' = listed_in k i db"
    "served k i db' = served k i db" "stands_at k i n db' = stands_at k i n db" "generations db' = generations db"
    "cutovers db' = cutovers db"
  using assms by (simp_all add: core_def get_version_def get_pointer_def listed_in_def served_def stands_at_def generations_def)

section \<open>The invariant of the tables\<close>

definition present :: "string \<Rightarrow> string \<Rightarrow> control_db \<Rightarrow> bool" where
  "present k i db \<longleftrightarrow> (\<exists>v. get_version i db = Some v \<and> pv_stream v = k \<and> pv_status v \<noteq> CANDIDATE)"

definition ids_unique :: "control_db \<Rightarrow> bool" where
  "ids_unique db \<longleftrightarrow> distinct (map pv_id (db_versions db))"

definition pointers_present :: "control_db \<Rightarrow> bool" where
  "pointers_present db \<longleftrightarrow>
     (\<forall>k p i. get_pointer k db = Some p \<longrightarrow> pp_active p = Some i \<or> pp_previous p = Some i \<longrightarrow> present k i db)"

definition actives_stand :: "string set \<Rightarrow> control_db \<Rightarrow> bool" where
  "actives_stand K db \<longleftrightarrow>
     (\<forall>k p i. k \<notin> K \<longrightarrow> get_pointer k db = Some p \<longrightarrow> pp_active p = Some i \<longrightarrow> stands_at k i (pp_fence p) db)"

definition generations_ok :: "control_db \<Rightarrow> bool" where
  "generations_ok db \<longleftrightarrow> distinct (generations db) \<and>
     (\<forall>k f. (k, f) \<in> set (generations db) \<longrightarrow> (\<exists>p. get_pointer k db = Some p \<and> f \<le> pp_fence p)) \<and>
     (\<forall>k p. get_pointer k db = Some p \<longrightarrow> 0 \<le> pp_fence p)"

definition intact :: "governance \<Rightarrow> PublicationVersion \<Rightarrow> bool" where
  "intact gov v \<longleftrightarrow> publication_payload_matches_checksum gov (pv_payload v) (pv_checksum v)"

definition versions_ok :: "governance \<Rightarrow> control_db \<Rightarrow> bool" where
  "versions_ok gov db \<longleftrightarrow> (\<forall>i v. get_version i db = Some v \<longrightarrow> intact gov v \<and>
     (pv_status v = CANDIDATE \<longrightarrow> (\<forall>k. \<not> listed_in k i db)) \<and>
     (pv_status v = ACTIVE \<longrightarrow> \<not> publication_withdrawn i db) \<and> (\<forall>k. listed_in k i db \<longrightarrow> pv_stream v = k))"

text \<open>The streams of \<open>K\<close> are in the middle of a move: their pointer need not stand in the history.\<close>

definition wf_but :: "governance \<Rightarrow> string set \<Rightarrow> control_db \<Rightarrow> bool" where
  "wf_but gov K db \<longleftrightarrow> ids_unique db \<and> pointers_present db \<and> actives_stand K db \<and> generations_ok db \<and> versions_ok gov db"

abbreviation wf_core :: "governance \<Rightarrow> control_db \<Rightarrow> bool" where
  "wf_core gov \<equiv> wf_but gov {}"

lemmas wf_parts = present_def pointers_present_def actives_stand_def generations_ok_def versions_ok_def

lemma withdrawn_cong:
  "(\<And>k. listed_in k i db' = listed_in k i db) \<Longrightarrow> (\<And>k. served k i db' = served k i db) \<Longrightarrow>
     publication_withdrawn i db' = publication_withdrawn i db"
  by (simp add: withdrawn_iff)

text \<open>What an operation leaves of what was there: no version disappears or changes its content or
  becomes a candidate again; a pointer that did not advance serves what it served and keeps its
  rollback target, unless it was withdrawn; and what was withdrawn stays withdrawn.\<close>

definition keeps_but :: "string set \<Rightarrow> control_db \<Rightarrow> control_db \<Rightarrow> bool" where
  "keeps_but K db db' \<longleftrightarrow>
     (\<forall>i v. get_version i db = Some v \<longrightarrow> (\<exists>v'. get_version i db' = Some v' \<and> pv_stream v' = pv_stream v \<and>
        pv_season v' = pv_season v \<and> pv_payload v' = pv_payload v \<and> (pv_status v \<noteq> CANDIDATE \<longrightarrow> pv_status v' \<noteq> CANDIDATE))) \<and>
     (\<forall>k p. get_pointer k db = Some p \<longrightarrow> (\<exists>p'. get_pointer k db' = Some p' \<and> pp_fence p \<le> pp_fence p' \<and>
        (k \<notin> K \<longrightarrow> pp_fence p' = pp_fence p \<longrightarrow> pp_active p' = pp_active p \<and>
           (pp_previous p' = None \<or> pp_previous p' = pp_previous p \<and>
              (\<forall>i. pp_previous p = Some i \<longrightarrow> served k i db \<longrightarrow> served k i db'))))) \<and>
     (\<forall>i. publication_withdrawn i db \<longrightarrow> publication_withdrawn i db') \<and>
     cutovers db' = cutovers db"

abbreviation keeps :: "control_db \<Rightarrow> control_db \<Rightarrow> bool" where
  "keeps \<equiv> keeps_but {}"

lemma keeps_but_refl [simp]: "keeps_but K db db"
  by (simp add: keeps_but_def)

lemma keeps_but_trans:
  assumes "keeps_but K db1 db2" "keeps_but K db2 db3" shows "keeps_but K db1 db3"
  unfolding keeps_but_def
proof (intro conjI allI impI)
  fix i v assume "get_version i db1 = Some v"
  with assms(1) obtain v2 where 2: "get_version i db2 = Some v2" "pv_stream v2 = pv_stream v" "pv_season v2 = pv_season v"
    "pv_payload v2 = pv_payload v" "pv_status v \<noteq> CANDIDATE \<longrightarrow> pv_status v2 \<noteq> CANDIDATE"
    unfolding keeps_but_def by blast
  with assms(2) obtain v3 where "get_version i db3 = Some v3" "pv_stream v3 = pv_stream v2" "pv_season v3 = pv_season v2"
    "pv_payload v3 = pv_payload v2" "pv_status v2 \<noteq> CANDIDATE \<longrightarrow> pv_status v3 \<noteq> CANDIDATE"
    unfolding keeps_but_def by blast
  with 2 show "\<exists>v'. get_version i db3 = Some v' \<and> pv_stream v' = pv_stream v \<and> pv_season v' = pv_season v \<and>
    pv_payload v' = pv_payload v \<and> (pv_status v \<noteq> CANDIDATE \<longrightarrow> pv_status v' \<noteq> CANDIDATE)" by auto
next
  fix k p assume p: "get_pointer k db1 = Some p"
  with assms(1) obtain q where q: "get_pointer k db2 = Some q" "pp_fence p \<le> pp_fence q"
    "k \<notin> K \<longrightarrow> pp_fence q = pp_fence p \<longrightarrow> pp_active q = pp_active p \<and> (pp_previous q = None \<or> pp_previous q = pp_previous p \<and>
       (\<forall>i. pp_previous p = Some i \<longrightarrow> served k i db1 \<longrightarrow> served k i db2))"
    unfolding keeps_but_def by blast
  with assms(2) obtain r where r: "get_pointer k db3 = Some r" "pp_fence q \<le> pp_fence r"
    "k \<notin> K \<longrightarrow> pp_fence r = pp_fence q \<longrightarrow> pp_active r = pp_active q \<and> (pp_previous r = None \<or> pp_previous r = pp_previous q \<and>
       (\<forall>i. pp_previous q = Some i \<longrightarrow> served k i db2 \<longrightarrow> served k i db3))"
    unfolding keeps_but_def by blast
  show "\<exists>p'. get_pointer k db3 = Some p' \<and> pp_fence p \<le> pp_fence p' \<and>
    (k \<notin> K \<longrightarrow> pp_fence p' = pp_fence p \<longrightarrow> pp_active p' = pp_active p \<and> (pp_previous p' = None \<or> pp_previous p' = pp_previous p \<and>
       (\<forall>i. pp_previous p = Some i \<longrightarrow> served k i db1 \<longrightarrow> served k i db3)))"
    using q r by (intro exI [of _ r]) auto
qed (use assms in \<open>auto simp: keeps_but_def\<close>)

lemma keeps_mono: "K \<subseteq> L \<Longrightarrow> keeps_but K db db' \<Longrightarrow> keeps_but L db db'"
  unfolding keeps_but_def by blast

section \<open>Each update keeps the invariant\<close>

lemma wf_core_cong: "core db' = core db \<Longrightarrow> wf_but gov K db' = wf_but gov K db"
proof -
  assume c: "core db' = core db"
  have "publication_withdrawn i db' = publication_withdrawn i db" for i by (simp add: withdrawn_iff core_observed [OF c])
  moreover have "db_versions db' = db_versions db" using c by (simp add: core_def)
  ultimately show ?thesis by (simp add: wf_but_def wf_parts ids_unique_def core_observed [OF c])
qed

lemma keeps_core: assumes "core db' = core db" shows "keeps_but K db db'"
  by (simp add: keeps_but_def withdrawn_iff core_observed [OF assms])

lemma ids_unique_observed [table_simps]:
  "ids_unique (set_pointer p db) = ids_unique db" "ids_unique (add_pointer p db) = ids_unique db"
  "ids_unique (record_pointer_activation p v now db) = ids_unique db"
  "ids_unique (revoke_pointer_history k ids now f db) = ids_unique db" "ids_unique (retire k i now b db) = ids_unique db"
  by (simp_all add: ids_unique_def set_pointer_def add_pointer_def record_pointer_activation_def revoke_pointer_history_def retire_def)

lemma present_cong: "get_version i db' = get_version i db \<Longrightarrow> present k i db' = present k i db"
  by (simp add: present_def)

lemma keeps_extension:
  assumes "\<And>i v. get_version i db = Some v \<Longrightarrow> get_version i db' = Some v"
    and "\<And>k p. get_pointer k db = Some p \<Longrightarrow> get_pointer k db' = Some p"
    and "\<And>k i. listed_in k i db' = listed_in k i db" "\<And>k i. served k i db' = served k i db" "cutovers db' = cutovers db"
  shows "keeps_but L db db'"
  unfolding keeps_but_def withdrawn_iff assms(3-5) using assms(1,2) by blast

lemma versions_okD:
  assumes "wf_but gov K db" "get_version i db = Some v"
  shows "intact gov v \<and> (pv_status v = CANDIDATE \<longrightarrow> (\<forall>k. \<not> listed_in k i db)) \<and>
     (pv_status v = ACTIVE \<longrightarrow> \<not> publication_withdrawn i db) \<and> (\<forall>k. listed_in k i db \<longrightarrow> pv_stream v = k)"
  using assms unfolding wf_but_def versions_ok_def by blast

lemma pointers_presentD:
  assumes "wf_but gov K db" "get_pointer k db = Some p" "pp_active p = Some i \<or> pp_previous p = Some i"
  shows "present k i db"
  using assms unfolding wf_but_def pointers_present_def by blast

lemma actives_standD:
  assumes "wf_but gov K db" "k \<notin> K" "get_pointer k db = Some p" "pp_active p = Some i"
  shows "stands_at k i (pp_fence p) db"
  using assms unfolding wf_but_def actives_stand_def by blast

lemma generations_okD:
  assumes "wf_but gov K db"
  shows "distinct (generations db)" "(k, f) \<in> set (generations db) \<Longrightarrow> \<exists>p. get_pointer k db = Some p \<and> f \<le> pp_fence p"
    "get_pointer k db = Some q \<Longrightarrow> 0 \<le> pp_fence q"
  using assms unfolding wf_but_def generations_ok_def by blast+

lemma wf_modify:
  assumes wf: "wf_but gov K db"
    and f: "\<And>v. pv_id (f v) = pv_id v" "\<And>v. pv_stream (f v) = pv_stream v" "\<And>v. pv_season (f v) = pv_season v"
      "\<And>v. pv_payload (f v) = pv_payload v" "\<And>v. pv_checksum (f v) = pv_checksum v"
    and status: "\<And>i v. get_version i db = Some v \<Longrightarrow> pv_status (f v) = pv_status v \<or> pv_status (f v) = SUPERSEDED \<or>
      pv_status (f v) = ACTIVE \<and> \<not> publication_withdrawn i db"
  shows "wf_but gov K (modify_versions f db) \<and> keeps_but L db (modify_versions f db)"
proof -
  let ?db = "modify_versions f db"
  have w: "publication_withdrawn i ?db = publication_withdrawn i db" for i by (simp add: withdrawn_iff table_simps)
  have g: "get_version i ?db = map_option f (get_version i db)" for i by (simp add: table_simps f)
  have pres: "present k i db \<Longrightarrow> present k i ?db" for k i
  proof -
    assume "present k i db"
    then obtain v where v: "get_version i db = Some v" "pv_stream v = k" "pv_status v \<noteq> CANDIDATE" unfolding present_def by blast
    with status [OF v(1)] show ?thesis unfolding present_def by (auto simp: g f)
  qed
  have "ids_unique ?db" using wf by (simp add: wf_but_def ids_unique_def modify_versions_def comp_def f)
  moreover have "pointers_present ?db" using wf pres by (auto simp: wf_but_def pointers_present_def table_simps)
  moreover have "actives_stand K ?db" "generations_ok ?db"
    using wf by (simp_all add: wf_but_def actives_stand_def generations_ok_def table_simps)
  moreover have "versions_ok gov ?db"
    unfolding versions_ok_def
  proof (intro allI impI)
    fix i v assume "get_version i ?db = Some v"
    then obtain u where u: "get_version i db = Some u" "v = f u" by (auto simp: g)
    from versions_okD [OF wf u(1)] status [OF u(1)] show "intact gov v \<and> (pv_status v = CANDIDATE \<longrightarrow> (\<forall>k. \<not> listed_in k i ?db)) \<and>
      (pv_status v = ACTIVE \<longrightarrow> \<not> publication_withdrawn i ?db) \<and> (\<forall>k. listed_in k i ?db \<longrightarrow> pv_stream v = k)"
      by (auto simp: u(2) intact_def f table_simps w)
  qed
  moreover have "keeps_but L db ?db"
    unfolding keeps_but_def
  proof (intro conjI allI impI)
    fix i v assume v: "get_version i db = Some v"
    with status [OF v] show "\<exists>v'. get_version i ?db = Some v' \<and> pv_stream v' = pv_stream v \<and> pv_season v' = pv_season v \<and>
      pv_payload v' = pv_payload v \<and> (pv_status v \<noteq> CANDIDATE \<longrightarrow> pv_status v' \<noteq> CANDIDATE)"
      by (auto simp: g f)
  qed (simp_all add: table_simps w)
  ultimately show ?thesis by (simp add: wf_but_def)
qed

lemma wf_supersede:
  assumes "wf_but gov K db"
  shows "wf_but gov K (set_status q SUPERSEDED db) \<and> keeps_but L db (set_status q SUPERSEDED db)"
  unfolding set_status_modify by (rule wf_modify [OF assms]) auto

lemma wf_append:
  assumes wf: "wf_but gov K db" and new: "get_version (pv_id v) db = None" "\<And>k. \<not> listed_in k (pv_id v) db" "intact gov v"
  shows "wf_but gov K (append_version v db) \<and> keeps_but L db (append_version v db)"
proof -
  let ?db = "append_version v db"
  have w: "publication_withdrawn i ?db = publication_withdrawn i db" for i by (simp add: withdrawn_iff table_simps)
  have old: "get_version i db = Some u \<Longrightarrow> get_version i ?db = Some u" for i u by (simp add: table_simps)
  have "pv_id v \<notin> pv_id ` set (db_versions db)" using new(1) by (auto simp: get_version_def find_None_iff)
  then have "ids_unique ?db" using wf by (simp add: wf_but_def ids_unique_def append_version_def)
  moreover have "present k i db \<Longrightarrow> present k i ?db" for k i using old unfolding present_def by blast
  then have "pointers_present ?db" using wf by (auto simp: wf_but_def pointers_present_def table_simps)
  moreover have "actives_stand K ?db" "generations_ok ?db"
    using wf by (simp_all add: wf_but_def actives_stand_def generations_ok_def table_simps)
  moreover have "versions_ok gov ?db"
    unfolding versions_ok_def
  proof (intro allI impI)
    fix i u assume u: "get_version i ?db = Some u"
    show "intact gov u \<and> (pv_status u = CANDIDATE \<longrightarrow> (\<forall>k. \<not> listed_in k i ?db)) \<and>
      (pv_status u = ACTIVE \<longrightarrow> \<not> publication_withdrawn i ?db) \<and> (\<forall>k. listed_in k i ?db \<longrightarrow> pv_stream u = k)"
    proof (cases "get_version i db")
      case None
      with u have "u = v" "i = pv_id v" by (auto simp: table_simps split: if_splits)
      then show ?thesis using new by (simp add: table_simps w withdrawn_iff)
    next
      case (Some a)
      with old [OF Some] u have "get_version i db = Some u" by simp
      from versions_okD [OF wf this] show ?thesis by (simp add: table_simps w)
    qed
  qed
  moreover have "keeps_but L db ?db" by (rule keeps_extension) (simp_all add: table_simps)
  ultimately show ?thesis by (simp add: wf_but_def)
qed

lemma wf_add_pointer:
  assumes wf: "wf_but gov K db" and p: "get_pointer (pp_stream p) db = None" "pp_active p = None" "pp_previous p = None" "pp_fence p = 0"
  shows "wf_but gov K (add_pointer p db) \<and> keeps_but L db (add_pointer p db)"
proof -
  let ?db = "add_pointer p db"
  have w: "publication_withdrawn i ?db = publication_withdrawn i db" for i by (simp add: withdrawn_iff table_simps)
  have old: "get_pointer k db = Some q \<Longrightarrow> get_pointer k ?db = Some q" for k q by (simp add: table_simps)
  have new: "get_pointer k ?db = Some q \<Longrightarrow> get_pointer k db = Some q \<or> q = p" for k q
    by (auto simp: table_simps split: option.splits if_splits)
  have "ids_unique ?db" using wf by (simp add: wf_but_def table_simps)
  moreover have "versions_ok gov ?db"
    unfolding versions_ok_def table_simps w using versions_okD [OF wf] by blast
  moreover have "pointers_present ?db"
    unfolding pointers_present_def
  proof (intro allI impI)
    fix k q i assume "get_pointer k ?db = Some q" "pp_active q = Some i \<or> pp_previous q = Some i"
    with new p have "get_pointer k db = Some q" by fastforce
    from pointers_presentD [OF wf this \<open>pp_active q = Some i \<or> pp_previous q = Some i\<close>] have "present k i db" .
    then show "present k i ?db" by (simp add: present_def table_simps)
  qed
  moreover have "actives_stand K ?db"
    unfolding actives_stand_def
  proof (intro allI impI)
    fix k q i assume "k \<notin> K" "get_pointer k ?db = Some q" "pp_active q = Some i"
    with new p have "get_pointer k db = Some q" by fastforce
    from actives_standD [OF wf \<open>k \<notin> K\<close> this \<open>pp_active q = Some i\<close>] show "stands_at k i (pp_fence q) ?db"
      by (simp add: table_simps)
  qed
  moreover have "generations_ok ?db"
    unfolding generations_ok_def pointer_updates_observed
  proof (intro conjI allI impI)
    show "distinct (generations db)" by (rule generations_okD(1) [OF wf])
    show "\<exists>q. get_pointer k ?db = Some q \<and> f \<le> pp_fence q" if "(k, f) \<in> set (generations db)" for k f
      using generations_okD(2) [OF wf that] old by blast
    show "0 \<le> pp_fence q" if "get_pointer k ?db = Some q" for k q
      using generations_okD(3) [OF wf, of k q] new [OF that] p(4) by auto
  qed
  moreover have "keeps_but L db ?db" by (rule keeps_extension) (simp_all add: table_simps)
  ultimately show ?thesis by (simp add: wf_but_def)
qed

text \<open>A pointer moves to its next generation and the move is recorded.\<close>

definition advance_to :: "PublicationPointer \<Rightarrow> PublicationVersion \<Rightarrow> instant \<Rightarrow> control_db \<Rightarrow> control_db" where
  "advance_to p v now db = record_pointer_activation p v now (set_pointer p db)"

lemma wf_activate:
  assumes wf: "wf_but gov (insert k K) db" and p: "get_pointer k db = Some p"
    and p': "pp_stream p' = k" "pp_fence p' = pp_fence p + 1" "pp_active p' = Some (pv_id w)"
    and i: "present k (pv_id w) db" "\<not> publication_withdrawn (pv_id w) db"
    and prev: "\<And>j. pp_previous p' = Some j \<Longrightarrow> present k j db"
  shows "wf_but gov K (advance_to p' w now db)"
proof -
  let ?db = "advance_to p' w now db"
  have g: "get_pointer j ?db = (if j = k then Some p' else get_pointer j db)" for j
    by (simp add: advance_to_def table_simps p' p)
  have pres: "present j i ?db = present j i db" for j i by (simp add: advance_to_def present_def table_simps)
  have list: "listed_in j i ?db \<longleftrightarrow> listed_in j i db \<or> j = k \<and> i = pv_id w" for j i by (simp add: advance_to_def table_simps p')
  have wd: "publication_withdrawn i ?db \<longleftrightarrow> publication_withdrawn i db \<and> i \<noteq> pv_id w" for i
    by (auto simp: advance_to_def withdrawn_iff table_simps p')
  have "ids_unique ?db" using wf by (simp add: wf_but_def advance_to_def table_simps)
  moreover have "pointers_present ?db"
    unfolding pointers_present_def pres
  proof (intro allI impI)
    fix j q i assume "get_pointer j ?db = Some q" "pp_active q = Some i \<or> pp_previous q = Some i"
    then show "present j i db" using pointers_presentD [OF wf] prev i(1) p'(3) by (auto simp: g split: if_splits)
  qed
  moreover have "actives_stand K ?db"
    unfolding actives_stand_def
  proof (intro allI impI)
    fix j q i assume "j \<notin> K" "get_pointer j ?db = Some q" "pp_active q = Some i"
    then show "stands_at j i (pp_fence q) ?db"
      using actives_standD [OF wf, of j q i] p' by (auto simp: g advance_to_def table_simps split: if_splits)
  qed
  moreover have "generations_ok ?db"
    unfolding generations_ok_def
  proof (intro conjI allI impI)
    have "(k, pp_fence p') \<notin> set (generations db)" using generations_okD(2) [OF wf, of k "pp_fence p'"] p p'(2) by auto
    then show "distinct (generations ?db)" using generations_okD(1) [OF wf] p'(1) by (simp add: advance_to_def table_simps)
    show "0 \<le> pp_fence q" if "get_pointer j ?db = Some q" for j q
      using that generations_okD(3) [OF wf, of j q] generations_okD(3) [OF wf p] p'(2) by (auto simp: g split: if_splits)
    fix j f assume "(j, f) \<in> set (generations ?db)"
    then have "(j, f) \<in> set (generations db) \<or> j = k \<and> f = pp_fence p'" by (auto simp: advance_to_def table_simps p')
    then show "\<exists>q. get_pointer j ?db = Some q \<and> f \<le> pp_fence q"
      using generations_okD(2) [OF wf, of j f] p p'(2) by (auto simp: g)
  qed
  moreover have "versions_ok gov ?db"
    unfolding versions_ok_def
  proof (intro allI impI)
    fix i v assume "get_version i ?db = Some v"
    then have v: "get_version i db = Some v" by (simp add: advance_to_def table_simps)
    have "i = pv_id w \<Longrightarrow> pv_stream v = k \<and> pv_status v \<noteq> CANDIDATE" using i(1) v by (auto simp: present_def)
    with versions_okD [OF wf v] show "intact gov v \<and> (pv_status v = CANDIDATE \<longrightarrow> (\<forall>k. \<not> listed_in k i ?db)) \<and>
      (pv_status v = ACTIVE \<longrightarrow> \<not> publication_withdrawn i ?db) \<and> (\<forall>k. listed_in k i ?db \<longrightarrow> pv_stream v = k)"
      unfolding list wd by blast
  qed
  ultimately show ?thesis by (simp add: wf_but_def)
qed

lemma keeps_activate:
  assumes k: "keeps_but (insert k K) db0 db" and p: "get_pointer k db = Some p"
    and p': "pp_stream p' = k" "pp_fence p' = pp_fence p + 1" and i: "\<not> publication_withdrawn (pv_id w) db"
  shows "keeps_but K db0 (advance_to p' w now db)"
  unfolding keeps_but_def
proof (intro conjI allI impI)
  let ?db = "advance_to p' w now db"
  fix i v assume "get_version i db0 = Some v"
  with k show "\<exists>v'. get_version i ?db = Some v' \<and> pv_stream v' = pv_stream v \<and> pv_season v' = pv_season v \<and>
    pv_payload v' = pv_payload v \<and> (pv_status v \<noteq> CANDIDATE \<longrightarrow> pv_status v' \<noteq> CANDIDATE)"
    unfolding keeps_but_def by (simp add: advance_to_def table_simps)
next
  let ?db = "advance_to p' w now db"
  fix j q assume "get_pointer j db0 = Some q"
  with k obtain r where r: "get_pointer j db = Some r" "pp_fence q \<le> pp_fence r"
    "j \<notin> insert k K \<longrightarrow> pp_fence r = pp_fence q \<longrightarrow> pp_active r = pp_active q \<and> (pp_previous r = None \<or> pp_previous r = pp_previous q \<and>
       (\<forall>i. pp_previous q = Some i \<longrightarrow> served j i db0 \<longrightarrow> served j i db))"
    unfolding keeps_but_def by blast
  show "\<exists>r. get_pointer j ?db = Some r \<and> pp_fence q \<le> pp_fence r \<and>
    (j \<notin> K \<longrightarrow> pp_fence r = pp_fence q \<longrightarrow> pp_active r = pp_active q \<and> (pp_previous r = None \<or> pp_previous r = pp_previous q \<and>
       (\<forall>i. pp_previous q = Some i \<longrightarrow> served j i db0 \<longrightarrow> served j i ?db)))"
  proof (cases "j = k")
    case True
    with r p p' show ?thesis by (intro exI [of _ p']) (simp add: advance_to_def table_simps)
  next
    case False
    with r p' show ?thesis by (intro exI [of _ r]) (auto simp: advance_to_def table_simps)
  qed
next
  fix j assume "publication_withdrawn j db0"
  with k have "publication_withdrawn j db" unfolding keeps_but_def by blast
  with i show "publication_withdrawn j (advance_to p' w now db)" by (auto simp: advance_to_def withdrawn_iff table_simps)
next
  show "cutovers (advance_to p' w now db) = cutovers db0" using k by (simp add: keeps_but_def advance_to_def table_simps)
qed

text \<open>Withdrawing or retiring activations: harmless where no pointer stands on them.\<close>

lemma wf_revoke:
  assumes wf: "wf_but gov K db" and k: "k \<in> K \<or> (\<forall>p. get_pointer k db = Some p \<longrightarrow> (\<forall>i \<in> set ids. pp_active p \<noteq> Some i))"
    and "\<And>i v. i \<in> set ids \<Longrightarrow> get_version i db = Some v \<Longrightarrow> pv_status v \<noteq> ACTIVE"
  shows "wf_but gov K (revoke_pointer_history k ids now f db)"
proof -
  let ?db = "revoke_pointer_history k ids now f db"
  have wd: "publication_withdrawn i ?db \<Longrightarrow> publication_withdrawn i db \<or> i \<in> set ids" for i
    by (auto simp: withdrawn_iff table_simps)
  have "ids_unique ?db" "pointers_present ?db" "generations_ok ?db"
    using wf by (simp_all add: wf_but_def pointers_present_def generations_ok_def present_def table_simps)
  moreover have "actives_stand K ?db"
    unfolding actives_stand_def
  proof (intro allI impI)
    fix j q i assume "j \<notin> K" "get_pointer j ?db = Some q" "pp_active q = Some i"
    then show "stands_at j i (pp_fence q) ?db" using actives_standD [OF wf, of j q i] k by (auto simp: table_simps)
  qed
  moreover have "versions_ok gov ?db"
    unfolding versions_ok_def
  proof (intro allI impI)
    fix i v assume "get_version i ?db = Some v"
    then have v: "get_version i db = Some v" by (simp add: table_simps)
    have "pv_status v = ACTIVE \<Longrightarrow> \<not> publication_withdrawn i ?db" using wd [of i] versions_okD [OF wf v] assms(3) [OF _ v] by blast
    with versions_okD [OF wf v] show "intact gov v \<and> (pv_status v = CANDIDATE \<longrightarrow> (\<forall>k. \<not> listed_in k i ?db)) \<and>
      (pv_status v = ACTIVE \<longrightarrow> \<not> publication_withdrawn i ?db) \<and> (\<forall>k. listed_in k i ?db \<longrightarrow> pv_stream v = k)"
      by (simp add: table_simps)
  qed
  ultimately show ?thesis by (simp add: wf_but_def)
qed

lemma keeps_revoke:
  assumes "k \<in> K \<or> (\<forall>p. get_pointer k db = Some p \<longrightarrow> (\<forall>i \<in> set ids. pp_previous p \<noteq> Some i))"
  shows "keeps_but K db (revoke_pointer_history k ids now f db)"
  using assms unfolding keeps_but_def withdrawn_iff by (auto simp: table_simps)

lemma wf_retire:
  assumes wf: "wf_but gov K db" and "k \<in> K" shows "wf_but gov K (retire k i now b db)"
proof -
  let ?db = "retire k i now b db"
  have wd: "publication_withdrawn j ?db = publication_withdrawn j db" for j by (simp add: withdrawn_iff table_simps)
  have "ids_unique ?db" "pointers_present ?db" "generations_ok ?db"
    using wf by (simp_all add: wf_but_def pointers_present_def generations_ok_def present_def table_simps)
  moreover have "versions_ok gov ?db"
    unfolding versions_ok_def retire_observed wd using versions_okD [OF wf] by blast
  moreover have "actives_stand K ?db"
    unfolding actives_stand_def retire_observed using actives_standD [OF wf] \<open>k \<in> K\<close> by blast
  ultimately show ?thesis by (simp add: wf_but_def)
qed

lemma keeps_retire: "keeps_but K db (retire k i now b db)"
  by (simp add: keeps_but_def withdrawn_iff table_simps)

lemma wf_set_pointer:
  assumes wf: "wf_but gov K db" and p: "get_pointer k db = Some p" and p': "pp_stream p' = k" "pp_fence p \<le> pp_fence p'"
    and act: "pp_active p' = None \<or> pp_active p' = pp_active p \<and> pp_fence p' = pp_fence p"
    and prev: "pp_previous p' = None \<or> pp_previous p' = pp_previous p"
  shows "wf_but gov K (set_pointer p' db)"
proof -
  let ?db = "set_pointer p' db"
  have g: "get_pointer j ?db = (if j = k then Some p' else get_pointer j db)" for j by (simp add: table_simps p' p)
  have wd: "publication_withdrawn i ?db = publication_withdrawn i db" for i by (simp add: withdrawn_iff table_simps)
  have "ids_unique ?db" using wf by (simp add: wf_but_def table_simps)
  moreover have "pointers_present ?db"
    unfolding pointers_present_def
  proof (intro allI impI)
    fix j q i assume "get_pointer j ?db = Some q" "pp_active q = Some i \<or> pp_previous q = Some i"
    then have "present j i db" using pointers_presentD [OF wf, of j _ i] p act prev by (auto simp: g split: if_splits)
    then show "present j i ?db" by (simp add: present_def table_simps)
  qed
  moreover have "actives_stand K ?db"
    unfolding actives_stand_def pointer_updates_observed
  proof (intro allI impI)
    fix j q i assume "j \<notin> K" "get_pointer j ?db = Some q" "pp_active q = Some i"
    then show "stands_at j i (pp_fence q) db"
      using actives_standD [OF wf, of j _ i] p act by (auto simp: g split: if_splits)
  qed
  moreover have "generations_ok ?db"
    unfolding generations_ok_def pointer_updates_observed
  proof (intro conjI allI impI)
    show "distinct (generations db)" by (rule generations_okD(1) [OF wf])
    show "0 \<le> pp_fence q" if "get_pointer j ?db = Some q" for j q
      using that generations_okD(3) [OF wf, of j q] generations_okD(3) [OF wf p] p'(2) by (auto simp: g split: if_splits)
    fix j f assume "(j, f) \<in> set (generations db)"
    then show "\<exists>q. get_pointer j ?db = Some q \<and> f \<le> pp_fence q" using generations_okD(2) [OF wf, of j f] p p' by (auto simp: g)
  qed
  moreover have "versions_ok gov ?db"
    unfolding versions_ok_def pointer_updates_observed wd using versions_okD [OF wf] by blast
  ultimately show ?thesis by (simp add: wf_but_def)
qed

lemma withdraw_from_pointer_effect:
  fixes stale now p
  defines "p' \<equiv> withdraw_from_pointer stale now p"
  shows "pp_stream p' = pp_stream p" "pp_fence p \<le> pp_fence p'"
    "pp_active p' = None \<or> pp_active p' = pp_active p \<and> pp_fence p' = pp_fence p"
    "pp_previous p' = None \<or> pp_previous p' = pp_previous p" "i \<in> set stale \<Longrightarrow> pp_active p' \<noteq> Some i \<and> pp_previous p' \<noteq> Some i"
    "pp_fence p' = pp_fence p \<Longrightarrow> pp_active p' = pp_active p"
  by (auto simp: p'_def withdraw_from_pointer_def Let_def split: option.splits if_splits)

lemma wf_withdraw:
  fixes stale now p
  defines "p' \<equiv> withdraw_from_pointer stale now p"
  assumes wf: "wf_but gov K db" and p: "get_pointer k db = Some p"
    and old: "\<And>i v. i \<in> set stale \<Longrightarrow> get_version i db = Some v \<Longrightarrow> pv_status v \<noteq> ACTIVE"
  shows "wf_but gov K (revoke_pointer_history k stale now f (set_pointer p' db)) \<and>
    keeps_but L db (revoke_pointer_history k stale now f (set_pointer p' db))"
proof
  note e = withdraw_from_pointer_effect [where stale = stale and now = now and p = p, folded p'_def]
  have s: "pp_stream p' = k" using e(1) get_pointer_stream [OF p] by simp
  have g: "get_pointer j (set_pointer p' db) = (if j = k then Some p' else get_pointer j db)" for j by (simp add: table_simps s p)
  show "wf_but gov K (revoke_pointer_history k stale now f (set_pointer p' db))"
  proof (rule wf_revoke)
    show "wf_but gov K (set_pointer p' db)" by (rule wf_set_pointer [OF wf p s e(2,3,4)])
    show "k \<in> K \<or> (\<forall>p. get_pointer k (set_pointer p' db) = Some p \<longrightarrow> (\<forall>i\<in>set stale. pp_active p \<noteq> Some i))"
      using e(5) by (simp add: g)
    show "pv_status v \<noteq> ACTIVE" if "i \<in> set stale" "get_version i (set_pointer p' db) = Some v" for i v
      using old that by (simp add: table_simps)
  qed
  have "pp_previous p' = Some i \<Longrightarrow> i \<notin> set stale" for i using e(5) by blast
  then show "keeps_but L db (revoke_pointer_history k stale now f (set_pointer p' db))"
    unfolding keeps_but_def withdrawn_iff using e(2,4,6) p by (auto simp: revoke_observed pointer_updates_observed g)
qed

lemma wf_invalidate:
  assumes wf: "wf_but gov K db"
  shows "wf_but gov K (invalidate_corrected_ledger_versions k s c i now db) \<and>
    keeps_but L db (invalidate_corrected_ledger_versions k s c i now db)"
proof -
  define sources where "sources = filter (\<lambda>(source, game). source \<noteq> [] \<and> game \<noteq> []) (case c of None \<Rightarrow> [] | Some c \<Rightarrow> c)"
  define stale where "stale = map pv_id (filter (\<lambda>v. correctable k s i db v \<and> rests_on_replaced sources (pv_id v) db) (db_versions db))"
  define db1 where "db1 = set_status (\<lambda>v. pv_id v \<in> set stale \<and> (pv_status v = ACTIVE \<or> pv_status v = CANDIDATE)) SUPERSEDED db"
  note eq = invalidate_corrected_ledger_versions_def [of k s c i now db, folded sources_def, unfolded Let_def, folded stale_def db1_def]
  have 1: "wf_but gov K db1 \<and> keeps_but L db db1" unfolding db1_def by (rule wf_supersede [OF wf])
  have old: "pv_status v \<noteq> ACTIVE" if "j \<in> set stale" "get_version j db1 = Some v" for j v
  proof -
    from that(2) obtain u where u: "get_version j db = Some u"
      "v = (if pv_id u \<in> set stale \<and> (pv_status u = ACTIVE \<or> pv_status u = CANDIDATE) then u\<lparr>pv_status := SUPERSEDED\<rparr> else u)"
      by (auto simp: db1_def set_status_modify table_simps)
    with get_version_id [OF u(1)] that(1) show ?thesis by simp
  qed
  show ?thesis
  proof (cases "stale = []")
    case True
    then show ?thesis using wf by (simp add: eq sources_def [symmetric] stale_def [symmetric])
  next
    case ne: False
    show ?thesis
    proof (cases "get_pointer k db1")
      case None
      have "wf_but gov K (revoke_pointer_history k stale now 0 db1)" by (rule wf_revoke) (use 1 None old in auto)
      moreover have "keeps_but L db1 (revoke_pointer_history k stale now 0 db1)" by (rule keeps_revoke) (simp add: None)
      ultimately show ?thesis using 1 ne by (auto simp: eq None intro: keeps_but_trans)
    next
      case (Some p)
      from wf_withdraw [OF conjunct1 [OF 1] Some old] 1 ne show ?thesis
        by (auto simp: eq Some intro: keeps_but_trans)
    qed
  qed
qed

section \<open>Each operation keeps the invariant\<close>

definition sound :: "governance \<Rightarrow> control_db \<Rightarrow> control_db \<Rightarrow> bool" where
  "sound gov db db' \<longleftrightarrow> wf_core gov db' \<and> keeps db db'"

definition fresh :: "string \<Rightarrow> control_db \<Rightarrow> bool" where
  "fresh i db \<longleftrightarrow> get_version i db = None \<and> (\<forall>k. \<not> listed_in k i db)"

lemma sound_refl: "wf_core gov db \<Longrightarrow> sound gov db db"
  by (simp add: sound_def)

lemma sound_trans: "sound gov db1 db2 \<Longrightarrow> sound gov db2 db3 \<Longrightarrow> sound gov db1 db3"
  using keeps_but_trans by (auto simp: sound_def)

lemma sound_core:
  assumes "wf_core gov db" "core db' = core db" shows "sound gov db db'"
  unfolding sound_def wf_core_cong [OF assms(2)] using assms(1) keeps_core [OF assms(2)] by blast

lemma sound_core_trans:
  assumes "sound gov db db1" "core db' = core db1" shows "sound gov db db'"
proof (rule sound_trans [OF assms(1)])
  show "sound gov db1 db'" using assms by (intro sound_core) (simp_all add: sound_def)
qed

lemma sound_supersede: "wf_core gov db \<Longrightarrow> sound gov db (set_status q SUPERSEDED db)"
  using wf_supersede unfolding sound_def by blast

lemma sound_invalidate: "wf_core gov db \<Longrightarrow> sound gov db (invalidate_corrected_ledger_versions k s c i now db)"
  using wf_invalidate unfolding sound_def by blast

lemma fresh_supersede: "fresh i (set_status q st db) = fresh i db"
  by (simp add: fresh_def set_status_modify table_simps)

lemma present_keeps: "present k i db \<Longrightarrow> keeps_but K db db' \<Longrightarrow> present k i db'"
  unfolding present_def keeps_but_def by metis

lemma core_append: "core (append_version v db) = (db_versions db @ [v], db_pointers db, db_history db, cutovers db)"
  by (simp add: core_def append_version_def cutovers_def)

lemma add_version_core: "add_version gov v evidence db = Inr db' \<Longrightarrow> core db' = core (append_version v db)"
  by (auto simp: add_version_def result_simps write_publication_projection_def core_def append_version_def cutovers_def
      split: if_splits)

lemma sound_add_version:
  assumes "wf_core gov db" "add_version gov v evidence db = Inr db'" "fresh (pv_id v) db" "intact gov v"
  shows "sound gov db db'"
proof (rule sound_core_trans)
  show "sound gov db (append_version v db)" using wf_append [OF assms(1) _ _ assms(4)] assms(3) by (simp add: sound_def fresh_def)
  show "core db' = core (append_version v db)" by (rule add_version_core [OF assms(2)])
qed

lemma new_version_sel [simp]:
  "pv_id (new_version gov uid c a n st f now) = uid" "pv_stream (new_version gov uid c a n st f now) = co_stream c"
  "pv_status (new_version gov uid c a n st f now) = st" "pv_season (new_version gov uid c a n st f now) = co_season c"
  "intact gov (new_version gov uid c a n st f now)" "pv_cutoff (new_version gov uid c a n st f now) = co_cutoff c"
  by (simp_all add: new_version_def intact_def publication_payload_matches_checksum_def)

lemma sound_new_candidate:
  assumes wf: "wf_core gov db" and "fresh uid db"
    and "add_version gov (new_version gov uid c a n st f now) evidence (supersede old db) = Inr db'"
  shows "sound gov db db'"
proof -
  have s: "sound gov db (supersede old db)" unfolding supersede_def by (rule sound_supersede [OF wf])
  have "sound gov (supersede old db) db'"
    by (rule sound_add_version [OF _ assms(3)]) (use s assms(2) in \<open>simp_all add: sound_def supersede_def fresh_supersede\<close>)
  with s show ?thesis by (rule sound_trans)
qed

lemma sound_store_candidate:
  assumes "wf_core gov db" "fresh uid db" "store_candidate gov uid c now db = Inr (i, db')" shows "sound gov db db'"
  using assms sound_refl [OF assms(1)]
  unfolding store_candidate_def Let_def
  by (auto simp: result_simps split: option.splits intro: sound_new_candidate)

lemma inactive_cases:
  assumes "compose_inactive_ledger gov uid c now db = Inr (i, db')"
  obtains db1 where "db' = invalidate_corrected_ledger_versions (co_stream c) (co_season c) (co_corrected c) i now db1"
    "db1 = db \<or> (\<exists>c a n evidence old. add_version gov (new_version gov uid c a n CANDIDATE 0 now) evidence (supersede old db) = Inr db1)"
proof -
  define provenance where "provenance = (case co_provenance c of None \<Rightarrow> [] | Some p \<Rightarrow> p)"
  from assms obtain s m where s: "get_stream (co_stream c) db = Some s" and m: "composing_ledger_manifest (co_season c) (co_cutoff c) (co_manifest c) db = Inr m"
    by (auto simp: compose_inactive_ledger_def Let_def result_simps split: option.splits if_splits)
  define old where "old = replaceable (if ps_enabled s then [CANDIDATE] else [CANDIDATE, ACTIVE]) c db"
  define existing where "existing = (case old of [] \<Rightarrow> None | v # _ \<Rightarrow>
    if pv_checksum v = publication_payload_checksum gov (co_encoded c) \<and> authority_of v = (Some (cm_id m), cm_catalog m, cm_catalog_checksum m)
       \<and> publication_provenance_matches (pv_id v) provenance db then Some v else None)"
  note eq = assms [unfolded compose_inactive_ledger_def Let_def, folded provenance_def, unfolded s, simplified, folded old_def]
  show thesis
  proof (cases existing)
    case None
    with eq m obtain db1 where "add_version gov (new_version gov uid c (Some (cm_id m), cm_catalog m, cm_catalog_checksum m)
        (latest_number (co_stream c) (co_season c) (supersede old db) + 1) CANDIDATE 0 now)
        (evidence_rows uid ''ledger_game'' provenance) (supersede old db) = Inr db1"
      "db' = invalidate_corrected_ledger_versions (co_stream c) (co_season c) (co_corrected c) i now db1"
      by (auto simp: result_simps existing_def [symmetric] split: option.splits if_splits)
    then show thesis by (intro that [of db1]) blast+
  next
    case (Some v)
    with eq m show thesis by (intro that [of db]) (auto simp: result_simps existing_def [symmetric] split: option.splits if_splits)
  qed
qed

lemma sound_inactive:
  assumes wf: "wf_core gov db" and "fresh uid db" "compose_inactive_ledger gov uid c now db = Inr (i, db')"
  shows "sound gov db db'"
proof -
  from inactive_cases [OF assms(3)] obtain db1 where 1: "db' = invalidate_corrected_ledger_versions (co_stream c) (co_season c) (co_corrected c) i now db1"
    "db1 = db \<or> (\<exists>c a n evidence old. add_version gov (new_version gov uid c a n CANDIDATE 0 now) evidence (supersede old db) = Inr db1)" .
  from 1(2) have "sound gov db db1" using sound_refl [OF wf] sound_new_candidate [OF wf assms(2)] by blast
  moreover then have "sound gov db1 db'" unfolding 1(1) by (intro sound_invalidate) (simp add: sound_def)
  ultimately show ?thesis by (rule sound_trans)
qed

lemma hold_cases:
  assumes "hold_candidate gov uid s c r now db = Inr (i, db')"
  obtains db1 c' q where "compose_inactive_ledger gov uid c' now db = Inr (i, db1) \<or> store_candidate gov uid c now db = Inr (i, db1)"
    "core db' = core (set_status q SUPERSEDED db1)"
proof -
  define db2 where "db2 db1 = supersede (tl (newest_first (filter (\<lambda>u. pv_stream u = co_stream c \<and> pv_season u = co_season c \<and>
    pv_status u = CANDIDATE) (db_versions db1)))) db1" for db1
  from assms obtain db1 c' where s: "compose_inactive_ledger gov uid c' now db = Inr (i, db1) \<or> store_candidate gov uid c now db = Inr (i, db1)"
    and eq: "db' = db2 db1\<lparr>db_audits := db_audits (db2 db1) @ [HeldAudit (co_stream c) r (co_season c) i (co_job c)]\<rparr>"
    by (auto simp: hold_candidate_def Let_def result_simps db2_def [symmetric] split: if_splits)
  have "core db' = core (db2 db1)" by (auto simp: eq core_def cutovers_def)
  with that [OF s] show thesis by (simp add: db2_def supersede_def)
qed

lemma sound_hold:
  assumes "wf_core gov db" "fresh uid db" "hold_candidate gov uid s c r now db = Inr (i, db')" shows "sound gov db db'"
proof -
  from hold_cases [OF assms(3)] obtain db1 c' q where
    s: "compose_inactive_ledger gov uid c' now db = Inr (i, db1) \<or> store_candidate gov uid c now db = Inr (i, db1)"
    and c: "core db' = core (set_status q SUPERSEDED db1)" .
  from s have s1: "sound gov db db1" using assms(1,2) sound_inactive sound_store_candidate by blast
  then have "sound gov db1 (set_status q SUPERSEDED db1)" unfolding sound_def using sound_supersede sound_def by blast
  from sound_core_trans [OF sound_trans [OF s1 this] c] show ?thesis .
qed

lemma claimed_pointer_sound:
  assumes wf: "wf_core gov db" and "claimed_pointer c expected now db = Inr (p, db1)"
  shows "sound gov db db1" "get_pointer (co_stream c) db1 = Some p" "\<And>i. fresh i db1 = fresh i db"
proof -
  consider "db1 = db" "get_pointer (co_stream c) db = Some p"
    | "get_pointer (co_stream c) db = None" "db1 = add_pointer p db" "pp_stream p = co_stream c" "pp_active p = None" "pp_previous p = None"
      "pp_fence p = 0"
    using assms(2) by (auto simp: claimed_pointer_def add_pointer_def Let_def split: option.splits if_splits)
  then have "sound gov db db1 \<and> get_pointer (co_stream c) db1 = Some p \<and> (\<forall>i. fresh i db1 = fresh i db)"
  proof cases
    case 2
    from wf_add_pointer [OF wf, of p] 2 show ?thesis by (simp add: sound_def table_simps fresh_def)
  qed (use sound_refl [OF wf] in simp)
  then show "sound gov db db1" "get_pointer (co_stream c) db1 = Some p" "\<And>i. fresh i db1 = fresh i db" by blast+
qed

lemma wf_but_mono: "wf_but gov K db \<Longrightarrow> K \<subseteq> L \<Longrightarrow> wf_but gov L db"
  unfolding wf_but_def actives_stand_def by blast

lemma sound_activate:
  assumes "wf_but gov {k} db" "keeps_but {k} db0 db" "get_pointer k db = Some p"
    and "pp_stream p' = k" "pp_fence p' = pp_fence p + 1" "pp_active p' = Some (pv_id w)"
    and "present k (pv_id w) db" "\<not> publication_withdrawn (pv_id w) db"
    and "\<And>j. pp_previous p' = Some j \<Longrightarrow> present k j db"
  shows "sound gov db0 (advance_to p' w now db)"
  unfolding sound_def
  using wf_activate [OF assms(1,3-7) assms(8,9)] keeps_activate [OF assms(2-5,8)] by blast

lemma sound_activate_simple:
  assumes "sound gov db0 db" "get_pointer k db = Some p"
    and "pp_stream p' = k" "pp_fence p' = pp_fence p + 1" "pp_active p' = Some (pv_id w)"
    and "present k (pv_id w) db" "\<not> publication_withdrawn (pv_id w) db"
    and "\<And>j. pp_previous p' = Some j \<Longrightarrow> present k j db"
  shows "sound gov db0 (advance_to p' w now db)"
proof (rule sound_activate [OF _ _ assms(2-7)])
  show "wf_but gov {k} db" using assms(1) unfolding sound_def by (blast intro: wf_but_mono)
  show "keeps_but {k} db0 db" using assms(1) unfolding sound_def by (blast intro: keeps_mono)
qed (rule assms(8))

lemma fresh_not_withdrawn: "fresh i db \<Longrightarrow> \<not> publication_withdrawn i db"
  by (simp add: fresh_def withdrawn_iff)

lemma candidate_not_withdrawn:
  assumes "wf_but gov K db" "get_version i db = Some v" "pv_status v = CANDIDATE \<or> pv_status v = ACTIVE"
  shows "\<not> publication_withdrawn i db"
  using versions_okD [OF assms(1,2)] assms(3) by (auto simp: withdrawn_iff)

lemma get_version_core: "core db' = core (append_version v db) \<Longrightarrow> fresh (pv_id v) db \<Longrightarrow> get_version (pv_id v) db' = Some v"
  by (simp add: core_observed(1) [where db = "append_version v db"] table_simps fresh_def)

lemma sound_advance_pointer:
  assumes wf: "wf_core gov db" and fr: "fresh uid db" and p: "get_pointer (co_stream c) db = Some p"
    and "advance_pointer gov uid c p now db = Inr (i, db')"
  shows "sound gov db db'"
proof -
  let ?k = "co_stream c"
  define v where "v = new_version gov uid c (authority_columns (co_authority c)) (latest_number ?k (co_season c) db + 1) ACTIVE (pp_fence p + 1) now"
  define p' where "p' = p\<lparr>pp_previous := (if co_discard c then None else pp_active p), pp_active := Some uid, pp_fence := pp_fence p + 1,
                      pp_updated := now\<rparr>"
  from assms(4) obtain db1 where db1: "add_version gov v (evidence_rows uid ''completeness_evidence''
      (map (\<lambda>i. (i, None)) (co_provenance_ids c))) db = Inr db1"
    and eq: "db' = invalidate_corrected_ledger_versions ?k (co_season c) (co_corrected c) uid now (advance_to p' v now
      (set_status (\<lambda>u. pv_stream u = ?k \<and> pv_season u = co_season c \<and> pv_cutoff u = co_cutoff c \<and>
                       pv_id u \<noteq> uid \<and> (pv_status u = ACTIVE \<or> pv_status u = CANDIDATE)) SUPERSEDED db1))"
    (is "_ = invalidate_corrected_ledger_versions _ _ _ _ _ (advance_to _ _ _ ?db2)")
    by (auto simp: advance_pointer_def Let_def result_simps v_def [symmetric] p'_def [symmetric] advance_to_def)
  have v: "pv_id v = uid" "pv_stream v = ?k" "pv_status v = ACTIVE" "intact gov v" by (simp_all add: v_def)
  have s1: "sound gov db db1" by (rule sound_add_version [OF wf db1]) (use fr v in simp_all)
  have c1: "core db1 = core (append_version v db)" by (rule add_version_core [OF db1])
  have s2: "sound gov db ?db2" using s1 sound_supersede sound_trans unfolding sound_def by blast
  have g: "get_pointer ?k ?db2 = Some p" using p by (simp add: set_status_modify table_simps core_observed(2) [OF c1])
  have "get_version uid ?db2 = Some v"
    using get_version_core [OF c1] fr v by (simp add: set_status_modify table_simps)
  then have pres: "present ?k uid ?db2" using v by (simp add: present_def)
  have nw: "\<not> publication_withdrawn uid ?db2"
    using fr by (simp add: set_status_modify withdrawn_iff table_simps core_observed [OF c1] fresh_def)
  have "sound gov db (advance_to p' v now ?db2)"
  proof (rule sound_activate_simple [OF s2 g])
    show "pp_stream p' = ?k" using get_pointer_stream [OF p] by (simp add: p'_def)
    fix j assume "pp_previous p' = Some j"
    then have "pp_active p = Some j" by (simp add: p'_def split: if_splits)
    then have "present ?k j db" using pointers_presentD [OF wf p] by blast
    then show "present ?k j ?db2" using s2 present_keeps unfolding sound_def by blast
  qed (use v pres nw in \<open>simp_all add: p'_def\<close>)
  moreover then have "sound gov (advance_to p' v now ?db2) db'" unfolding eq by (intro sound_invalidate) (simp add: sound_def)
  ultimately show ?thesis by (rule sound_trans)
qed

lemma sound_compose_claimed:
  assumes wf: "wf_core gov db" and "fresh uid db" "compose_claimed gov uid s c expected now db = Inr (i, db')"
  shows "sound gov db db'"
proof -
  from assms(3) obtain p db1 where c: "claimed_pointer c expected now db = Inr (p, db1)"
    by (auto simp: compose_claimed_def result_simps)
  note 1 = claimed_pointer_sound [OF wf c]
  have wf1: "wf_core gov db1" using 1(1) by (simp add: sound_def)
  have fr1: "fresh uid db1" using 1(3) assms(2) by simp
  have "sound gov db1 db'"
  proof (cases "hold_reason gov c p db1")
    case None
    with assms(3) c have "advance_pointer gov uid c p now db1 = Inr (i, db')" by (simp add: compose_claimed_def)
    with wf1 fr1 1(2) show ?thesis by (rule sound_advance_pointer)
  next
    case (Some r)
    with assms(3) c obtain db2 where h: "hold_candidate gov uid s c r now db1 = Inr (i, db2)"
      and eq: "db' = (if r = ''earlier_cutoff'' then set_status (\<lambda>u. pv_id u = i) SUPERSEDED db2 else db2)"
      by (auto simp: compose_claimed_def result_simps)
    have "sound gov db1 db2" by (rule sound_hold [OF wf1 fr1 h])
    moreover then have "sound gov db2 db'" unfolding eq sound_def using sound_supersede sound_def by auto
    ultimately show ?thesis by (rule sound_trans)
  qed
  with 1(1) show ?thesis by (rule sound_trans)
qed

lemma sound_compose_active:
  assumes wf: "wf_core gov db" and "fresh uid db" "compose_active gov uid c now db = Inr (i, db')"
  shows "sound gov db db'"
proof -
  from assms(3) consider s e where "compose_claimed gov uid s c e now db = Inr (i, db')"
    | "db' = invalidate_corrected_ledger_versions (co_stream c) (co_season c) (co_corrected c) i now db"
    by (auto simp: compose_active_def Let_def result_simps split: option.splits if_splits)
  then show ?thesis
    by cases (use wf assms(2) in \<open>auto intro: sound_compose_claimed sound_invalidate\<close>)
qed

text \<open>The publication ids in use: an operation uses only those it draws besides.\<close>

definition names :: "control_db \<Rightarrow> string set" where
  "names db = pv_id ` set (db_versions db) \<union> ph_publication ` set (db_history db)"

lemma fresh_iff: "fresh i db \<longleftrightarrow> i \<notin> names db"
  by (auto simp: fresh_def names_def get_version_def find_None_iff listed_in_def)

lemma names_core: "core db' = core db \<Longrightarrow> names db' = names db"
  by (simp add: core_def names_def)

lemma image_update_where:
  assumes "\<And>x. k (f x) = k x" shows "k ` set (update_where q f xs) = k ` set xs"
  using map_key_update_where [of k f q xs, OF assms] by (metis list.set_map)

lemma names_updates [table_simps]:
  "names (set_status q st db) = names db" "names (set_pointer p db) = names db" "names (add_pointer p db) = names db"
  "names (append_version v db) = insert (pv_id v) (names db)" "names (revoke_pointer_history k ids now f db) = names db"
  "names (retire k i now b db) = names db" "names (record_pointer_activation p v now db) = insert (pv_id v) (names db)"
  by (auto simp: names_def set_status_def set_pointer_def add_pointer_def append_version_def revoke_pointer_history_def retire_def
      record_pointer_activation_def image_update_where)

lemma names_modify [table_simps]:
  assumes "\<And>v. pv_id (f v) = pv_id v" shows "names (modify_versions f db) = names db"
proof -
  have "pv_id ` f ` V = pv_id ` V" for V by (simp add: image_image assms)
  then show ?thesis by (simp add: names_def modify_versions_def)
qed

lemma names_invalidate [table_simps]: "names (invalidate_corrected_ledger_versions k s c i now db) = names db"
  by (simp add: invalidate_corrected_ledger_versions_def Let_def table_simps split: option.splits)

lemma names_add_version: "add_version gov v evidence db = Inr db' \<Longrightarrow> names db' = insert (pv_id v) (names db)"
  using names_core [OF add_version_core] by (simp add: table_simps)

lemma names_new_candidate:
  "add_version gov (new_version gov uid c a n st f now) evidence (supersede old db) = Inr db' \<Longrightarrow> names db' = insert uid (names db)"
  using names_add_version by (simp add: supersede_def table_simps)

lemma names_candidate:
  "store_candidate gov uid c now db = Inr (i, db') \<Longrightarrow> names db' \<subseteq> insert uid (names db)"
  "compose_inactive_ledger gov uid c now db = Inr (i, db') \<Longrightarrow> names db' \<subseteq> insert uid (names db)"
proof -
  show "names db' \<subseteq> insert uid (names db)" if "store_candidate gov uid c now db = Inr (i, db')"
    using that unfolding store_candidate_def Let_def by (auto simp: result_simps dest!: names_new_candidate split: option.splits)
  assume "compose_inactive_ledger gov uid c now db = Inr (i, db')"
  from inactive_cases [OF this] obtain db1 where "db' = invalidate_corrected_ledger_versions (co_stream c) (co_season c) (co_corrected c) i now db1"
    "db1 = db \<or> (\<exists>c a n evidence old. add_version gov (new_version gov uid c a n CANDIDATE 0 now) evidence (supersede old db) = Inr db1)" .
  then show "names db' \<subseteq> insert uid (names db)" using names_new_candidate by (auto simp: table_simps)
qed

lemma names_hold:
  assumes "hold_candidate gov uid s c r now db = Inr (i, db')" shows "names db' \<subseteq> insert uid (names db)"
proof -
  from hold_cases [OF assms] obtain db1 c' q where
    s: "compose_inactive_ledger gov uid c' now db = Inr (i, db1) \<or> store_candidate gov uid c now db = Inr (i, db1)"
    and c: "core db' = core (set_status q SUPERSEDED db1)" .
  have "names db' = names db1" using names_core [OF c] by (simp add: table_simps)
  with s names_candidate show ?thesis by metis
qed

lemma names_claimed: "claimed_pointer c e now db = Inr (p, db1) \<Longrightarrow> names db1 = names db"
  by (auto simp: claimed_pointer_def Let_def names_def split: option.splits if_splits)

lemma names_advance: "advance_pointer gov uid c p now db = Inr (i, db') \<Longrightarrow> names db' = insert uid (names db)"
  by (auto simp: advance_pointer_def Let_def result_simps table_simps dest!: names_add_version)

lemma names_compose:
  assumes "compose_active gov uid c now db = Inr (i, db')" shows "names db' \<subseteq> insert uid (names db)"
proof -
  from assms consider s e where "compose_claimed gov uid s c e now db = Inr (i, db')"
    | "db' = invalidate_corrected_ledger_versions (co_stream c) (co_season c) (co_corrected c) i now db"
    by (auto simp: compose_active_def Let_def result_simps split: option.splits if_splits)
  then show ?thesis
  proof cases
    case 1
    then obtain p db1 where c: "claimed_pointer c e now db = Inr (p, db1)" by (auto simp: compose_claimed_def result_simps)
    have "names db' \<subseteq> insert uid (names db1)"
      using 1 c by (cases "hold_reason gov c p db1")
        (auto simp: compose_claimed_def result_simps table_simps split: if_splits dest!: names_advance names_hold)
    with names_claimed [OF c] show ?thesis by simp
  qed (auto simp: table_simps)
qed

definition draws :: "(string \<Rightarrow> string) \<Rightarrow> control_db \<Rightarrow> bool" where
  "draws uid db \<longleftrightarrow> inj uid \<and> (\<forall>k. fresh (uid k) db)"

lemma recompose_item_sound:
  assumes wf: "wf_core gov db" and "fresh (uid (co_stream c)) db" "recompose_ledger_item gov uid now c db = Inr (i, db')"
  shows "sound gov db db'" "names db' \<subseteq> insert (uid (co_stream c)) (names db)"
proof -
  from assms(3) consider c' where "compose_active gov (uid (co_stream c)) c' now db = Inr (i, db')"
    | c' where "compose_inactive_ledger gov (uid (co_stream c)) c' now db = Inr (i, db')"
    by (auto simp: recompose_ledger_item_def Let_def split: option.splits if_splits)
  then have "sound gov db db' \<and> names db' \<subseteq> insert (uid (co_stream c)) (names db)"
  proof cases
    case 1
    with sound_compose_active [OF wf assms(2) 1] names_compose [OF 1] show ?thesis by blast
  next
    case 2
    with sound_inactive [OF wf assms(2) 2] names_candidate(2) [OF 2] show ?thesis by blast
  qed
  then show "sound gov db db'" "names db' \<subseteq> insert (uid (co_stream c)) (names db)" by auto
qed

lemma fresh_after:
  assumes "inj uid" "names db' \<subseteq> insert (uid k) (names db)" "j \<noteq> k" "fresh (uid j) db" shows "fresh (uid j) db'"
  using assms by (auto simp: fresh_iff inj_eq)

interpretation recompositions: keyed_loop co_stream
  "\<lambda>c (ids, db1). and_then (recompose_ledger_item gov uid now c db1) (\<lambda>(i, db2). Inr (ids @ [i], db2))"
  "\<lambda>s. wf_core gov (snd s)" "\<lambda>s t. sound gov (snd s) (snd t)" "\<lambda>c s. inj uid \<and> fresh (uid (co_stream c)) (snd s)"
  "\<lambda>_ _. True" "\<lambda>_ _. ()" for gov uid now
proof
  fix s t :: "string list \<times> control_db" and c d
  assume "wf_core gov (snd s)" "inj uid \<and> fresh (uid (co_stream c)) (snd s)"
    "(case s of (ids, db1) \<Rightarrow> and_then (recompose_ledger_item gov uid now c db1) (\<lambda>(i, db2). Inr (ids @ [i], db2))) = Inr t"
  then obtain i where i: "recompose_ledger_item gov uid now c (snd s) = Inr (i, snd t)" and fr: "inj uid" "fresh (uid (co_stream c)) (snd s)"
    and wf: "wf_core gov (snd s)" by (auto simp: result_simps split: prod.splits)
  note r = recompose_item_sound [OF wf fr(2) i]
  show "wf_core gov (snd t) \<and> sound gov (snd s) (snd t) \<and> True" using r(1) by (simp add: sound_def)
  show "(inj uid \<and> fresh (uid (co_stream d)) (snd s) \<longrightarrow> inj uid \<and> fresh (uid (co_stream d)) (snd t)) \<and> (True \<longrightarrow> True)"
    if "co_stream d \<noteq> co_stream c" using fresh_after [OF fr(1) r(2) that] by simp
qed (auto intro: sound_refl sound_trans)

lemma distinct_sort_key: "distinct (map f (sort_key f xs)) = distinct (map f xs)"
  by (metis mset_eq_imp_distinct_iff mset_map mset_sort)

lemma sound_recompose_batch:
  assumes "wf_core gov db" "draws uid db" "recompose_ledger_batch gov uid items now db = Inr (ids, db')"
  shows "sound gov db db'"
proof -
  have "distinct (map co_stream (sort_key co_stream items))" and r: "fold_res (\<lambda>c (ids, db1). and_then (recompose_ledger_item gov uid now c db1)
      (\<lambda>(i, db2). Inr (ids @ [i], db2))) (sort_key co_stream items) ([], db) = Inr (ids, db')"
    using assms(3) by (simp_all add: recompose_ledger_batch_def distinct_sort_key split: if_splits)
  from recompositions.run(2) [OF _ _ this] assms(1,2) show ?thesis by (simp add: draws_def)
qed

section \<open>Rollbacks\<close>

lemma update_where_twice:
  assumes "q x" shows "update_where q (\<lambda>_. y) (update_where q (\<lambda>_. x) xs) = update_where q (\<lambda>_. y) xs"
  using assms by (simp add: update_where_def)

text \<open>What a rollback's bookkeeping comes to: the withdrawal of the version left, if it is of the
  restored season, the retirement of the source, and the move to the clone.\<close>

lemma record_rollback_history_eq:
  fixes p v w s now db
  defines "same \<equiv> pv_season w = pv_season s"
  defines "db1 \<equiv> (if same then revoke_pointer_history (pp_stream p) [pv_id w] now (pp_fence p) db else db)"
  defines "p' \<equiv> (if same then p\<lparr>pp_previous := None\<rparr> else p)"
  shows "record_rollback_history p v w s now (set_pointer p db) = advance_to p' v now (retire (pp_stream p) (pv_id s) now (pv_id v) db1)"
  by (simp add: record_rollback_history_def same_def db1_def p'_def Let_def advance_to_def retire_def revoke_pointer_history_def
      set_pointer_def update_where_twice)

lemma restored_version_sel [simp]:
  "pv_id (restored_version uid s w r f now) = uid" "pv_stream (restored_version uid s w r f now) = pv_stream s"
  "pv_status (restored_version uid s w r f now) = ROLLBACK" "pv_season (restored_version uid s w r f now) = pv_season s"
  "pv_payload (restored_version uid s w r f now) = pv_payload s" "intact gov (restored_version uid s w r f now) = intact gov s"
  by (simp_all add: restored_version_def intact_def)

definition rolled_back :: "string \<Rightarrow> PublicationPointer \<Rightarrow> PublicationVersion \<Rightarrow> PublicationVersion \<Rightarrow> instant \<Rightarrow> PublicationPointer" where
  "rolled_back uid p prior current now = p\<lparr>pp_fence := pp_fence p + 1, pp_active := Some uid, pp_updated := now,
     pp_previous := (if pv_season current = pv_season prior then None else Some (pv_id current))\<rparr>"

lemma rolled_back_sel [simp]:
  "pp_stream (rolled_back uid p s w now) = pp_stream p" "pp_fence (rolled_back uid p s w now) = pp_fence p + 1"
  "pp_active (rolled_back uid p s w now) = Some uid"
  "pp_previous (rolled_back uid p s w now) = (if pv_season w = pv_season s then None else Some (pv_id w))"
  by (simp_all add: rolled_back_def)

text \<open>The tables a rollback reaches just before the pointer moves: the clone is there, the versions
  left and restored are superseded, the withdrawal and the retirement are recorded.\<close>

lemma restore_previous_cases:
  assumes wf: "wf_core gov db" and fr: "fresh uid db" and p: "get_pointer k db = Some p"
    and ids: "get_version (pv_id prior) db \<noteq> None" "get_version (pv_id current) db \<noteq> None" and "intact gov prior"
    and r: "restore_previous gov uid p prior current reason now db = Inr db'"
  obtains v db4 where "v = restored_version uid prior current reason (pp_fence p + 1) now"
    "db' = advance_to (rolled_back uid p prior current now) v now db4" "wf_but gov {k} db4" "keeps_but {k} db db4"
    "names db4 = insert uid (names db)" "\<And>j. get_pointer j db4 = get_pointer j db" "\<And>l j. listed_in l j db4 = listed_in l j db"
    "get_version uid db4 = Some v"
    "\<And>j. j \<noteq> uid \<Longrightarrow> j \<noteq> pv_id prior \<Longrightarrow> j \<noteq> pv_id current \<Longrightarrow> get_version j db4 = get_version j db"
proof -
  define v where "v = restored_version uid prior current reason (pp_fence p + 1) now"
  define p' where "p' = p\<lparr>pp_fence := pp_fence p + 1, pp_previous := Some (pv_id current), pp_active := Some uid, pp_updated := now\<rparr>"
  define same where "same \<longleftrightarrow> pv_season current = pv_season prior"
  from r obtain db1 evidence where db1: "add_version gov v evidence db = Inr db1"
    and eq: "db' = record_rollback_history p' v current prior now
      (set_pointer p' (set_status (\<lambda>u. pv_id u = pv_id current \<or> pv_id u = pv_id prior) SUPERSEDED db1))"
    by (auto simp: restore_previous_def Let_def result_simps v_def [symmetric] p'_def [symmetric])
  let ?db2 = "set_status (\<lambda>u. pv_id u = pv_id current \<or> pv_id u = pv_id prior) SUPERSEDED db1"
  define db3 where "db3 = (if same then revoke_pointer_history k [pv_id current] now (pp_fence p') ?db2 else ?db2)"
  define db4 where "db4 = retire k (pv_id prior) now uid db3"
  have s': "pp_stream p' = k" using get_pointer_stream [OF p] by (simp add: p'_def)
  have v: "pv_id v = uid" "intact gov v" using assms(6) by (simp_all add: v_def)
  have "(if same then p'\<lparr>pp_previous := None\<rparr> else p') = rolled_back uid p prior current now"
    by (simp add: rolled_back_def p'_def same_def)
  then have eq': "db' = advance_to (rolled_back uid p prior current now) v now db4"
    unfolding eq record_rollback_history_eq by (simp add: same_def [symmetric] s' v db3_def db4_def)
  have c1: "core db1 = core (append_version v db)" by (rule add_version_core [OF db1])
  have s2: "sound gov db ?db2"
    using sound_add_version [OF wf db1] fr v sound_supersede sound_trans unfolding sound_def by (simp, blast)
  have gv: "get_version j db4 = map_option (\<lambda>u. if pv_id u = pv_id current \<or> pv_id u = pv_id prior then u\<lparr>pv_status := SUPERSEDED\<rparr> else u)
      (get_version j (append_version v db))" for j
    by (simp add: db4_def db3_def set_status_modify table_simps core_observed(1) [OF c1])
  have ne: "pv_id prior \<noteq> uid" "pv_id current \<noteq> uid" using fr ids by (auto simp: fresh_def)
  have "wf_but gov {k} ?db2" "keeps_but {k} db ?db2" using s2 wf_but_mono keeps_mono unfolding sound_def by blast+
  moreover have "pv_status u \<noteq> ACTIVE" if "get_version (pv_id current) ?db2 = Some u" for u
    using that get_version_id [of "pv_id current" db1] by (auto simp: set_status_modify table_simps)
  ultimately have w4: "wf_but gov {k} db4" "keeps_but {k} db db4"
    unfolding db4_def db3_def by (auto intro!: wf_retire wf_revoke keeps_but_trans [OF _ keeps_retire] keeps_revoke intro: keeps_but_trans)
  show thesis
  proof (rule that [OF v_def eq' w4])
    show "names db4 = insert uid (names db)" by (simp add: db4_def db3_def table_simps v names_add_version [OF db1])
    show "get_pointer j db4 = get_pointer j db" for j by (simp add: db4_def db3_def set_status_modify table_simps core_observed(2) [OF c1])
    show "listed_in l j db4 = listed_in l j db" for l j by (simp add: db4_def db3_def set_status_modify table_simps core_observed(3) [OF c1])
    show "get_version uid db4 = Some v" using ne fr v by (simp add: gv table_simps fresh_def)
    show "get_version j db4 = get_version j db" if "j \<noteq> uid" "j \<noteq> pv_id prior" "j \<noteq> pv_id current" for j
      using that get_version_id [of j db] v(1) by (cases "get_version j db") (auto simp: table_simps gv)
  qed
qed

lemma sound_restore_previous:
  assumes wf: "wf_core gov db" and fr: "fresh uid db" and p: "get_pointer k db = Some p" "pp_active p = Some (pv_id current)"
    and prior: "get_version i db = Some prior" "pv_stream prior = k"
    and r: "restore_previous gov uid p prior current reason now db = Inr db'"
  shows "sound gov db db'" "names db' \<subseteq> insert uid (names db)"
    "get_pointer j db' = (if j = k then Some (rolled_back uid p prior current now) else get_pointer j db)"
    "get_version uid db' = Some (restored_version uid prior current reason (pp_fence p + 1) now)"
    "j \<noteq> uid \<Longrightarrow> j \<noteq> pv_id prior \<Longrightarrow> j \<noteq> pv_id current \<Longrightarrow> get_version j db' = get_version j db"
proof -
  have cur: "present k (pv_id current) db" using pointers_presentD [OF wf p(1)] p(2) by blast
  have ids: "get_version (pv_id prior) db \<noteq> None" "get_version (pv_id current) db \<noteq> None" "intact gov prior"
    using get_version_id [OF prior(1)] prior(1) cur versions_okD [OF wf prior(1)] by (auto simp: present_def)
  obtain v db4 where v: "v = restored_version uid prior current reason (pp_fence p + 1) now"
    and eq: "db' = advance_to (rolled_back uid p prior current now) v now db4" and w4: "wf_but gov {k} db4" "keeps_but {k} db db4"
    and n: "names db4 = insert uid (names db)" and gp: "\<And>j. get_pointer j db4 = get_pointer j db"
    and li: "\<And>l j. listed_in l j db4 = listed_in l j db" and v4: "get_version uid db4 = Some v"
    and gv: "\<And>j. j \<noteq> uid \<Longrightarrow> j \<noteq> pv_id prior \<Longrightarrow> j \<noteq> pv_id current \<Longrightarrow> get_version j db4 = get_version j db"
    using restore_previous_cases [OF wf fr p(1) ids r] by metis
  have s: "pp_stream p = k" by (rule get_pointer_stream [OF p(1)])
  show "sound gov db db'"
    unfolding eq
  proof (rule sound_activate [OF w4])
    show "get_pointer k db4 = Some p" using p by (simp add: gp)
    show "present k (pv_id v) db4" using v4 prior(2) by (simp add: present_def v)
    show "\<not> publication_withdrawn (pv_id v) db4" using fr by (simp add: withdrawn_iff li v fresh_def)
    fix j assume "pp_previous (rolled_back uid p prior current now) = Some j"
    with cur show "present k j db4" using present_keeps w4(2) by (auto split: if_splits)
  qed (simp_all add: s v)
  show "names db' \<subseteq> insert uid (names db)" by (auto simp: eq advance_to_def table_simps v n)
  show "get_version uid db' = Some (restored_version uid prior current reason (pp_fence p + 1) now)"
    using v4 by (simp add: eq advance_to_def table_simps v)
  show "get_version j db' = get_version j db" if "j \<noteq> uid" "j \<noteq> pv_id prior" "j \<noteq> pv_id current"
    using gv [OF that] by (simp add: eq advance_to_def table_simps)
  show "get_pointer j db' = (if j = k then Some (rolled_back uid p prior current now) else get_pointer j db)"
    using p s by (simp add: eq advance_to_def table_simps gp)
qed

lemma rollback_cases:
  assumes "rollback gov uid k reason e now db = Inr (i, db')"
  obtains p prior current where "i = uid" "get_pointer k db = Some p" "pp_previous p = Some (pv_id prior)"
    "get_version (pv_id prior) db = Some prior" "pp_active p = Some (pv_id current)" "get_version (pv_id current) db = Some current"
    "\<not> (listed_in k (pv_id prior) db \<and> \<not> served k (pv_id prior) db)"
    "restore_previous gov uid p prior current reason now db = Inr db'"
proof -
  from assms obtain p j prior current where 1: "i = uid" "get_pointer k db = Some p" "pp_previous p = Some j"
    "get_version j db = Some prior" "active_version p db = Some current" "assert_rollback_target_not_revoked k prior db = Inr ()"
    "restore_previous gov uid p prior current reason now db = Inr db'"
    by (auto simp: rollback_def Let_def result_simps split: if_splits option.splits)
  from 1(5) obtain a where a: "pp_active p = Some a" "get_version a db = Some current" by (auto simp: active_version_def split: option.splits)
  have "\<not> (listed_in k (pv_id prior) db \<and> \<not> served k (pv_id prior) db)"
    using 1(6) by (auto simp: assert_rollback_target_not_revoked_def Let_def listed_in_def served_def filter_empty_conv list_all_iff split: if_splits)
  with that [of p prior current] 1 a get_version_id [OF 1(4)] get_version_id [OF a(2)] show thesis by simp
qed

lemma sound_rollback:
  assumes "wf_core gov db" "fresh uid db" "rollback gov uid k reason e now db = Inr (i, db')" shows "sound gov db db'"
proof -
  from rollback_cases [OF assms(3)] obtain p prior current where 1: "get_pointer k db = Some p" "pp_previous p = Some (pv_id prior)"
    "get_version (pv_id prior) db = Some prior" "pp_active p = Some (pv_id current)"
    "restore_previous gov uid p prior current reason now db = Inr db'" by metis
  have "present k (pv_id prior) db" using pointers_presentD [OF assms(1) 1(1)] 1(2) by blast
  then have "pv_stream prior = k" using 1(3) by (simp add: present_def)
  from sound_restore_previous(1) [OF assms(1,2) 1(1,4,3) this 1(5)] show ?thesis .
qed

section \<open>Moves to candidates\<close>

definition moved_pointer :: "PublicationPointer \<Rightarrow> PublicationVersion option \<Rightarrow> PublicationVersion \<Rightarrow> instant \<Rightarrow> PublicationPointer" where
  "moved_pointer p current candidate now =
     p\<lparr>pp_fence := pp_fence p + 1, pp_previous := map_option pv_id current, pp_active := Some (pv_id candidate), pp_updated := now\<rparr>"

lemma moved_pointer_sel [simp]:
  "pp_stream (moved_pointer p c v now) = pp_stream p" "pp_fence (moved_pointer p c v now) = pp_fence p + 1"
  "pp_active (moved_pointer p c v now) = Some (pv_id v)" "pp_previous (moved_pointer p c v now) = map_option pv_id c"
  by (simp_all add: moved_pointer_def)

definition move_ready :: "control_db \<Rightarrow> PublicationPointer \<times> PublicationVersion \<times> PublicationVersion \<Rightarrow> bool" where
  "move_ready db plan \<longleftrightarrow> (case plan of (p, current, candidate) \<Rightarrow>
     get_pointer (pp_stream p) db = Some p \<and> pp_active p = Some (pv_id current) \<and>
     get_version (pv_id candidate) db = Some candidate \<and> pv_stream candidate = pp_stream p \<and> pv_status candidate = CANDIDATE)"

lemma core_activations: "core (db\<lparr>db_activations := xs\<rparr>) = core db"
  by (simp add: core_def cutovers_def)

lemma move_core:
  "core (move_pointer_to_candidate p candidate current actor reason now db) =
   core (advance_to (moved_pointer p current candidate now) candidate now
     (case current of
        Some c \<Rightarrow> if pv_season c = pv_season candidate
          then set_status (\<lambda>v. pv_id v = pv_id c) SUPERSEDED (modify_versions (\<lambda>v. if pv_id v = pv_id candidate
                 then v\<lparr>pv_status := ACTIVE, pv_fence := pp_fence p + 1\<rparr> else v) db)
          else modify_versions (\<lambda>v. if pv_id v = pv_id candidate then v\<lparr>pv_status := ACTIVE, pv_fence := pp_fence p + 1\<rparr> else v) db
      | None \<Rightarrow> modify_versions (\<lambda>v. if pv_id v = pv_id candidate then v\<lparr>pv_status := ACTIVE, pv_fence := pp_fence p + 1\<rparr> else v) db))"
  by (cases current) (simp_all add: move_pointer_to_candidate_def Let_def core_activations advance_to_def moved_pointer_def
      modify_versions_def update_where_def cong: if_cong)

text \<open>Binding a version that is not withdrawn as the next active one, whatever becomes of the
  version it displaces.\<close>

lemma bind_sound:
  assumes wf: "wf_core gov db" and p: "get_pointer k db = Some p"
    and v: "get_version (pv_id v) db = Some v" "pv_stream v = k" "pv_status v = CANDIDATE \<or> pv_status v = ACTIVE"
    and q: "pp_stream q = k" "pp_fence q = pp_fence p + 1" "pp_active q = Some (pv_id v)" "\<And>j. pp_previous q = Some j \<Longrightarrow> present k j db"
    and e: "e \<noteq> Some (pv_id v)"
    and db1: "db1 = modify_versions (\<lambda>u. if pv_id u = pv_id v then u\<lparr>pv_status := ACTIVE, pv_fence := f\<rparr> else u) db"
    and db2: "db2 = (case e of None \<Rightarrow> db1 | Some old \<Rightarrow> set_status (\<lambda>u. pv_id u = old) SUPERSEDED db1)"
  shows "sound gov db (advance_to q v now db2)" "names db2 = names db"
    "\<And>j. j \<noteq> pv_id v \<Longrightarrow> e \<noteq> Some j \<Longrightarrow> get_version j db2 = get_version j db"
    "\<And>j. get_pointer j db2 = get_pointer j db" "\<And>l j. served l j db2 = served l j db"
proof -
  have nw: "\<not> publication_withdrawn (pv_id v) db" by (rule candidate_not_withdrawn [OF wf v(1,3)])
  have s1: "sound gov db db1"
    unfolding sound_def db1 by (rule wf_modify [OF wf]) (use nw get_version_id in \<open>auto split: if_splits\<close>)
  then have s2: "sound gov db db2"
    unfolding db2 using sound_trans [OF s1 sound_supersede] by (auto simp: sound_def split: option.splits)
  show gp: "get_pointer j db2 = get_pointer j db" for j by (simp add: db2 db1 set_status_modify table_simps split: option.splits)
  show "served l j db2 = served l j db" for l j by (simp add: db2 db1 set_status_modify table_simps split: option.splits)
  have "publication_withdrawn j db2 = publication_withdrawn j db" for j
    by (simp add: withdrawn_iff db2 db1 set_status_modify table_simps split: option.splits)
  moreover have "present k (pv_id v) db2"
    using v e by (auto simp: present_def db2 db1 set_status_modify table_simps split: option.splits)
  ultimately show "sound gov db (advance_to q v now db2)"
    using nw p s2 present_keeps q by (intro sound_activate_simple [OF s2]) (auto simp: gp sound_def)
  show "names db2 = names db" by (simp add: db2 db1 table_simps split: option.splits)
  show "get_version j db2 = get_version j db" if "j \<noteq> pv_id v" "e \<noteq> Some j" for j
    using that get_version_id [of j db] by (cases "get_version j db") (auto simp: db2 db1 set_status_modify table_simps split: option.splits)
qed

lemma sound_move:
  fixes actor reason now
  assumes wf: "wf_core gov db" and ready: "move_ready db (p, current, candidate)"
  defines "db' \<equiv> move_pointer_to_candidate p candidate (Some current) actor reason now db"
  shows "sound gov db db'"
    "get_pointer j db' = (if j = pp_stream p then Some (moved_pointer p (Some current) candidate now) else get_pointer j db)"
    "j \<noteq> pv_id candidate \<Longrightarrow> j \<noteq> pv_id current \<Longrightarrow> get_version j db' = get_version j db"
    "served l j db \<Longrightarrow> served l j db'"
proof -
  let ?k = "pp_stream p"
  let ?db1 = "modify_versions (\<lambda>v. if pv_id v = pv_id candidate then v\<lparr>pv_status := ACTIVE, pv_fence := pp_fence p + 1\<rparr> else v) db"
  define e where "e = (if pv_season current = pv_season candidate then Some (pv_id current) else None)"
  define db2 where "db2 = (case e of None \<Rightarrow> ?db1 | Some old \<Rightarrow> set_status (\<lambda>u. pv_id u = old) SUPERSEDED ?db1)"
  have r: "get_pointer ?k db = Some p" "pp_active p = Some (pv_id current)" "get_version (pv_id candidate) db = Some candidate"
    "pv_stream candidate = ?k" "pv_status candidate = CANDIDATE" using ready by (auto simp: move_ready_def)
  have cur: "present ?k (pv_id current) db" using pointers_presentD [OF wf r(1)] r(2) by blast
  have e: "e \<noteq> Some (pv_id candidate)" using cur r(3,5) by (auto simp: e_def present_def)
  note b = bind_sound [OF wf r(1,3,4) disjI1 [OF r(5)], of "moved_pointer p (Some current) candidate now", OF _ _ _ _ e refl db2_def]
  have c: "core db' = core (advance_to (moved_pointer p (Some current) candidate now) candidate now db2)"
    unfolding db'_def move_core db2_def e_def by simp
  show "sound gov db db'" by (rule sound_core_trans [OF b(1) c]) (use cur in auto)
  show "get_pointer j db' = (if j = ?k then Some (moved_pointer p (Some current) candidate now) else get_pointer j db)"
    using r(1) b(4) cur by (simp add: core_observed(2) [OF c] advance_to_def table_simps)
  show "get_version j db' = get_version j db" if "j \<noteq> pv_id candidate" "j \<noteq> pv_id current"
    using that b(3) [of j] cur by (simp add: core_observed(1) [OF c] advance_to_def table_simps e_def split: if_splits)
  show "served l j db'" if "served l j db" using that b(5) cur by (simp add: core_observed(4) [OF c] advance_to_def table_simps)
qed

abbreviation move_all :: "string \<Rightarrow> string \<Rightarrow> instant \<Rightarrow> (PublicationPointer \<times> PublicationVersion \<times> PublicationVersion) list
    \<Rightarrow> control_db \<Rightarrow> control_db" where
  "move_all actor reason now \<equiv>
     fold (\<lambda>(p, current, candidate). move_pointer_to_candidate p candidate (Some current) actor reason now)"

abbreviation plan_stream :: "PublicationPointer \<times> 'a \<Rightarrow> string" where
  "plan_stream plan \<equiv> pp_stream (fst plan)"

lemma move_ready_frame:
  assumes wf: "wf_core gov db" and "move_ready db a" "move_ready db b" "plan_stream a \<noteq> plan_stream b"
  shows "move_ready (move_all actor reason now [a] db) b"
proof -
  obtain p c v where a: "a = (p, c, v)" by (cases a)
  obtain p' c' v' where b: "b = (p', c', v')" by (cases b)
  note m = sound_move [where actor = actor and reason = reason and now = now, OF wf assms(2) [unfolded a]]
  have r: "get_pointer (pp_stream p) db = Some p" "pp_active p = Some (pv_id c)" "get_version (pv_id v) db = Some v" "pv_stream v = pp_stream p"
    using assms(2) by (auto simp: a move_ready_def)
  have "present (pp_stream p) (pv_id c) db" using pointers_presentD [OF wf r(1)] r(2) by blast
  then have "pv_id v' \<noteq> pv_id v" "pv_id v' \<noteq> pv_id c" using assms(3,4) r(3,4) by (auto simp: a b move_ready_def present_def)
  with m(2,3) assms(3,4) show ?thesis by (auto simp: a b move_ready_def)
qed

definition moved_to :: "instant \<Rightarrow> PublicationPointer \<times> PublicationVersion \<times> PublicationVersion \<Rightarrow> control_db \<Rightarrow> bool" where
  "moved_to now plan db \<longleftrightarrow>
     get_pointer (plan_stream plan) db = Some (moved_pointer (fst plan) (Some (fst (snd plan))) (snd (snd plan)) now)"

interpretation moves: keyed_loop plan_stream "\<lambda>plan db. Inr (move_all actor reason now [plan] db)" "wf_core gov" "sound gov"
  "\<lambda>plan db. move_ready db plan"
  "moved_to now" "\<lambda>k db. get_pointer k db" for gov actor reason now
proof
  fix db db' :: control_db and a b :: "PublicationPointer \<times> PublicationVersion \<times> PublicationVersion" and k
  assume wf: "wf_core gov db" and ready: "move_ready db a" and e: "Inr (move_all actor reason now [a] db) = Inr db'"
  obtain p c v where a: "a = (p, c, v)" by (cases a)
  obtain p' c' v' where b: "b = (p', c', v')" by (cases b)
  note m = sound_move [where actor = actor and reason = reason and now = now, OF wf ready [unfolded a]]
  have db': "db' = move_pointer_to_candidate p v (Some c) actor reason now db" using e by (simp add: a)
  show "wf_core gov db' \<and> sound gov db db' \<and> moved_to now a db'"
    using m(1,2) by (simp add: db' a sound_def moved_to_def)
  show "get_pointer k db' = get_pointer k db" if "k \<noteq> plan_stream a" using m(2) that by (simp add: db' a)
  show "(move_ready db b \<longrightarrow> move_ready db' b) \<and> (moved_to now b db \<longrightarrow> moved_to now b db')"
    if "plan_stream b \<noteq> plan_stream a"
    using move_ready_frame [OF wf ready, of b actor reason now] m(2) that e by (auto simp: db' a b moved_to_def)
qed (auto intro: sound_refl sound_trans)

lemma move_all_fold: "fold_res (\<lambda>plan db. Inr (move_all actor reason now [plan] db)) plans db = Inr (move_all actor reason now plans db)"
  by (simp add: fold_res_total)

lemma sound_move_all:
  assumes "wf_core gov db" "\<forall>plan \<in> set plans. move_ready db plan" "distinct (map plan_stream plans)"
  shows "sound gov db (move_all actor reason now plans db)"
    "\<And>p c v. (p, c, v) \<in> set plans \<Longrightarrow> get_pointer (pp_stream p) (move_all actor reason now plans db) = Some (moved_pointer p (Some c) v now)"
    "\<And>k. k \<notin> plan_stream ` set plans \<Longrightarrow> get_pointer k (move_all actor reason now plans db) = get_pointer k db"
proof -
  note r = moves.run [OF assms move_all_fold]
  show "sound gov db (move_all actor reason now plans db)" by (rule r(2))
  show "get_pointer k (move_all actor reason now plans db) = get_pointer k db" if "k \<notin> plan_stream ` set plans" for k
    using that by (rule r(4))
  fix p c v assume "(p, c, v) \<in> set plans"
  then have "moved_to now (p, c, v) (move_all actor reason now plans db)" using r(3) by blast
  then show "get_pointer (pp_stream p) (move_all actor reason now plans db) = Some (moved_pointer p (Some c) v now)"
    by (simp only: moved_to_def fst_conv snd_conv)
qed

lemma served_move:
  "served l j db \<Longrightarrow> served l j (move_pointer_to_candidate p v c actor reason now db)"
  by (simp add: core_observed(4) [OF move_core] advance_to_def set_status_modify table_simps split: option.splits)

lemma served_move_all: "served l j db \<Longrightarrow> served l j (move_all actor reason now plans db)"
  by (induction plans arbitrary: db) (auto simp: served_move)

end
