(* ===== verification/Publication_Recovery.thy ===== *)
theory Publication_Recovery
  imports Publication_Safety
begin

text \<open>
  The operations that move several pointers at once or undo such a move, and retention: families,
  repair groups, the season cutover and its revert, the activation of a stream, and the prune. The
  theory closes the invariant over every operation as a step relation and proves what the control
  plane promises of recovery: what was withdrawn is never served again, a cutover can be undone,
  and a prune takes nothing that a rollback or a revert needs.
\<close>

section \<open>Families and activations\<close>

lemma promotion_plan_ready:
  assumes "promotion_plan gov vp item db = Inr (p, current, candidate)"
  shows "move_ready db (p, current, candidate)" "pp_stream p = fp_stream item" "pv_id candidate = fp_candidate item"
    "pp_fence p = fp_expected_fence item" "pp_active p = Some (fp_expected_publication item)"
    "pv_season candidate = pv_season current" "pv_cutoff candidate = pv_cutoff current"
proof -
  from assms have 1: "get_pointer (fp_stream item) db = Some p" "active_version p db = Some current"
    "get_version (fp_candidate item) db = Some candidate" "pv_stream candidate = fp_stream item" "pv_status candidate = CANDIDATE"
    "pp_fence p = fp_expected_fence item" "pp_active p = Some (fp_expected_publication item)"
    "pv_season candidate = pv_season current" "pv_cutoff candidate = pv_cutoff current"
    by (auto simp: promotion_plan_def result_simps split: option.splits if_splits)
  then show "pp_stream p = fp_stream item" "pv_id candidate = fp_candidate item" "pp_fence p = fp_expected_fence item"
    "pp_active p = Some (fp_expected_publication item)" "pv_season candidate = pv_season current" "pv_cutoff candidate = pv_cutoff current"
    using get_pointer_stream get_version_id by blast+
  then show "move_ready db (p, current, candidate)"
    using 1 get_version_id [of _ db current] by (auto simp: move_ready_def active_version_def)
qed

lemma promote_cases:
  assumes "promote_publication_family gov promotions actor reason vp vf now db = Inr (ids, db')"
  obtains plans where "list_all2 (\<lambda>item plan. promotion_plan gov vp item db = Inr plan) (sort_key fp_stream promotions) plans"
    "distinct (map plan_stream plans)" "\<forall>plan \<in> set plans. move_ready db plan" "db' = move_all actor reason now plans db"
    "ids = map (\<lambda>(p, current, candidate). pv_id candidate) plans"
proof -
  from assms obtain plans where 1: "map_res (\<lambda>item. promotion_plan gov vp item db) (sort_key fp_stream promotions) = Inr plans"
    "distinct (map fp_stream (sort_key fp_stream promotions))" "db' = move_all actor reason now plans db"
    "ids = map (\<lambda>(p, current, candidate). pv_id candidate) plans"
    by (auto simp: promote_publication_family_def Let_def result_simps split: if_splits)
  from 1(1) have l: "list_all2 (\<lambda>item plan. promotion_plan gov vp item db = Inr plan) (sort_key fp_stream promotions) plans"
    by (simp add: map_res_Inr_iff)
  have "map plan_stream plans = map fp_stream (sort_key fp_stream promotions)"
    using l by (induction rule: list_all2_induct) (auto dest: promotion_plan_ready(2))
  moreover have "\<forall>plan \<in> set plans. move_ready db plan"
    using l promotion_plan_ready(1) by (induction rule: list_all2_induct) auto
  ultimately show thesis using that [OF l] 1(2-4) by simp
qed

lemma sound_promote:
  assumes "wf_core gov db" "promote_publication_family gov promotions actor reason vp vf now db = Inr (ids, db')"
  shows "sound gov db db'"
proof -
  from promote_cases [OF assms(2)] obtain plans where "distinct (map plan_stream plans)" "\<forall>plan \<in> set plans. move_ready db plan"
    "db' = move_all actor reason now plans db" .
  with sound_move_all(1) [OF assms(1)] show ?thesis by blast
qed

lemma sound_register:
  assumes "wf_core gov db" "register_stream row enabled db = Inr db'" shows "sound gov db db'"
  using assms by (intro sound_core) (auto simp: register_stream_def core_def cutovers_def split: if_splits option.splits)

lemma core_enable: "core (enable_stream k db) = core db"
  by (simp add: enable_stream_def core_def cutovers_def)

lemma named_candidate_Inr:
  assumes "named_candidate gov a i db = Inr (v, games)"
  shows "get_version (pv_id v) db = Some v" "pv_stream v = ac_stream a" "pv_status v = CANDIDATE \<or> pv_status v = ACTIVE"
proof -
  from assms have "get_version i db = Some v" "pv_stream v = ac_stream a" "pv_status v = CANDIDATE \<or> pv_status v = ACTIVE"
    by (auto simp: named_candidate_def split: option.splits if_splits)
  with get_version_id show "get_version (pv_id v) db = Some v" "pv_stream v = ac_stream a" "pv_status v = CANDIDATE \<or> pv_status v = ACTIVE"
    by blast+
qed

lemma sound_bind_candidate:
  assumes wf: "wf_core gov db" and v: "get_version (pv_id v) db = Some v" "pv_stream v = ac_stream a" "pv_status v = CANDIDATE \<or> pv_status v = ACTIVE"
    and b: "bind_candidate a v now db = Inr db'"
  shows "sound gov db db'"
proof -
  let ?k = "ac_stream a"
  define p where "p = (case get_pointer ?k db of Some p \<Rightarrow> p
    | None \<Rightarrow> \<lparr>pp_stream = ?k, pp_active = None, pp_previous = None, pp_fence = 0, pp_updated = now\<rparr>)"
  define db1 where "db1 = (case get_pointer ?k db of Some p \<Rightarrow> db | None \<Rightarrow> add_pointer p db)"
  define q where "q = p\<lparr>pp_fence := pp_fence p + 1, pp_previous := pp_active p, pp_active := Some (pv_id v), pp_updated := now\<rparr>"
  define e where "e = (case pp_active p of None \<Rightarrow> None | Some old \<Rightarrow> if old \<noteq> pv_id v then Some old else None)"
  have s1: "sound gov db db1" and gp: "get_pointer ?k db1 = Some p" and gv: "\<And>j. get_version j db1 = get_version j db"
    using sound_refl [OF wf] wf_add_pointer [OF wf, of p] by (auto simp: db1_def p_def sound_def table_simps split: option.splits)
  have wf1: "wf_core gov db1" using s1 by (simp add: sound_def)
  let ?db2 = "modify_versions (\<lambda>u. if pv_id u = pv_id v then u\<lparr>pv_status := ACTIVE, pv_fence := pp_fence q\<rparr> else u) db1"
  define db3 where "db3 = (case e of None \<Rightarrow> ?db2 | Some old \<Rightarrow> set_status (\<lambda>u. pv_id u = old) SUPERSEDED ?db2)"
  have c: "core db' = core (advance_to q v now db3)"
    using b unfolding bind_candidate_def Let_def
    by (auto simp: core_activations advance_to_def db3_def e_def q_def p_def db1_def add_pointer_def modify_versions_def update_where_def
        split: option.splits if_splits cong: if_cong)
  have v1: "get_version (pv_id v) db1 = Some v" using v(1) by (simp add: gv)
  have e: "e \<noteq> Some (pv_id v)" by (auto simp: e_def split: option.splits)
  have "sound gov db1 (advance_to q v now db3)"
  proof (rule bind_sound(1) [OF wf1 gp v1 v(2,3) _ _ _ _ e refl db3_def])
    show "present ?k j db1" if "pp_previous q = Some j" for j using pointers_presentD [OF wf1 gp] that by (simp add: q_def)
  qed (use get_pointer_stream [OF gp] in \<open>simp_all add: q_def\<close>)
  from sound_core_trans [OF sound_trans [OF s1 this] c] show ?thesis .
qed

lemma sound_activate_stream:
  assumes wf: "wf_core gov db" and "activate_stream gov a now db = Inr db'" shows "sound gov db db'"
proof -
  from assms(2) consider "core db' = core db" | c db1 i where "named_candidate gov a i db = Inr c" "bind_candidate a (fst c) now db = Inr db1"
      "core db' = core db1"
    by (auto simp: activate_stream_def result_simps core_enable split: option.splits if_splits)
  then show ?thesis
  proof cases
    case 1
    with wf show ?thesis by (rule sound_core)
  next
    case 2
    from named_candidate_Inr [of gov a i db "fst c" "snd c"] 2(1) have
      "get_version (pv_id (fst c)) db = Some (fst c)" "pv_stream (fst c) = ac_stream a" "pv_status (fst c) = CANDIDATE \<or> pv_status (fst c) = ACTIVE"
      by simp_all
    from sound_core_trans [OF sound_bind_candidate [OF wf this 2(2)] 2(3)] show ?thesis .
  qed
qed

section \<open>Repairs and family rollbacks\<close>

interpretation repairs: keyed_loop "gm_stream \<circ> fst" "repair_member gov uid season reason cutoff now" "wf_core gov" "sound gov"
  "\<lambda>plan db. inj uid \<and> fresh (uid (gm_stream (fst plan))) db" "\<lambda>_ _. True" "\<lambda>_ _. ()" for gov uid season reason cutoff now
proof
  fix db db' :: control_db and x y :: "PublicationRepairGroupMember \<times> Composition"
  assume wf: "wf_core gov db" and fr: "inj uid \<and> fresh (uid (gm_stream (fst x))) db" and r: "repair_member gov uid season reason cutoff now x db = Inr db'"
  from r obtain c i db1 where c: "compose_active gov (uid (gm_stream (fst x))) c now db = Inr (i, db1)"
    and e: "db' = set_status (\<lambda>v. pv_id v = gm_expected_publication (fst x)) SUPERSEDED db1"
    by (auto simp: repair_member_def result_simps split: prod.splits)
  have s: "sound gov db db1" using sound_compose_active [OF wf _ c] fr by blast
  then have "sound gov db1 db'" unfolding e by (intro sound_supersede) (simp add: sound_def)
  with s have s': "sound gov db db'" by (rule sound_trans)
  then show "wf_core gov db' \<and> sound gov db db' \<and> True" by (simp add: sound_def)
  have n: "names db' \<subseteq> insert (uid (gm_stream (fst x))) (names db)" using names_compose [OF c] by (simp add: e table_simps)
  show "(inj uid \<and> fresh (uid (gm_stream (fst y))) db \<longrightarrow> inj uid \<and> fresh (uid (gm_stream (fst y))) db') \<and> (True \<longrightarrow> True)"
    if "(gm_stream \<circ> fst) y \<noteq> (gm_stream \<circ> fst) x"
    using fresh_after [of uid db' "gm_stream (fst x)" db "gm_stream (fst y)"] n fr that by simp
qed (auto intro: sound_refl sound_trans)

text \<open>A group's members have different streams: \<open>(group_id, stream_key)\<close> is the table's primary key.\<close>

definition group_keys :: "control_db \<Rightarrow> bool" where
  "group_keys db \<longleftrightarrow> (\<forall>g \<in> set (db_groups db). distinct (map gm_stream (rg_members g)))"

lemma sound_promote_repair_group:
  assumes wf: "wf_core gov db" and "draws uid db" "group_keys db" "promote_repair_group gov uid mid prepare now db = Inr db'"
  shows "sound gov db db'"
proof -
  from assms(4) obtain g where g: "find (\<lambda>g. rg_manifest g = mid) (db_groups db) = Some g"
    by (auto simp: promote_repair_group_def split: option.splits)
  moreover from assms(4) g obtain manifest where m: "find (\<lambda>m. cm_id m = mid) (db_manifests db) = Some manifest"
    by (auto simp: promote_repair_group_def split: option.splits if_splits)
  ultimately obtain plans db1 where pl: "map_res (repair_member_plan prepare db) (sort_key gm_stream (rg_members g)) = Inr plans"
    and f: "fold_res (repair_member gov uid (rg_season g) (rg_reason g) (cm_cutoff manifest) now) plans db = Inr db1"
    and "\<exists>a b. db' = db1\<lparr>db_jobs := a, db_groups := b\<rparr>"
    using assms(4) by (simp add: promote_repair_group_def Let_def result_simps split: if_splits) blast
  then have c: "core db' = core db1" by (auto simp: core_def cutovers_def)
  have "g \<in> set (db_groups db)" using find_key [OF g] by blast
  then have "distinct (map gm_stream (sort_key gm_stream (rg_members g)))" using assms(3) by (simp add: group_keys_def distinct_sort_key)
  moreover have "map (gm_stream \<circ> fst) plans = map gm_stream (sort_key gm_stream (rg_members g))"
    using pl unfolding map_res_Inr_iff
    by (induction rule: list_all2_induct) (auto simp: repair_member_plan_def result_simps split: option.splits if_splits)
  ultimately have "sound gov db db1" using repairs.run(2) [OF wf _ _ f] assms(2) by (simp add: draws_def)
  from sound_core_trans [OF this c] show ?thesis .
qed

definition restore_ready :: "(string \<Rightarrow> string) \<Rightarrow> PublicationPointer \<times> PublicationVersion \<times> PublicationVersion \<Rightarrow> control_db \<Rightarrow> bool" where
  "restore_ready uid plan db \<longleftrightarrow> (case plan of (p, prior, current) \<Rightarrow>
     inj uid \<and> fresh (uid (pp_stream p)) db \<and> get_pointer (pp_stream p) db = Some p \<and> pp_active p = Some (pv_id current) \<and>
     get_version (pv_id prior) db = Some prior \<and> pv_stream prior = pp_stream p)"

definition restored_to :: "(string \<Rightarrow> string) \<Rightarrow> instant \<Rightarrow> PublicationPointer \<times> PublicationVersion \<times> PublicationVersion \<Rightarrow> control_db \<Rightarrow> bool" where
  "restored_to uid now plan db \<longleftrightarrow> (case plan of (p, prior, current) \<Rightarrow>
     get_pointer (pp_stream p) db = Some (rolled_back (uid (pp_stream p)) p prior current now))"

interpretation restores: keyed_loop plan_stream
  "\<lambda>(p, prior, current). restore_previous gov (uid (pp_stream p)) p prior current reason now" "wf_core gov" "sound gov"
  "restore_ready uid" "restored_to uid now" "\<lambda>k db. get_pointer k db" for gov uid reason now
proof
  fix db db' :: control_db and a b :: "PublicationPointer \<times> PublicationVersion \<times> PublicationVersion" and k
  assume wf: "wf_core gov db" and ready: "restore_ready uid a db"
    and r: "(case a of (p, prior, current) \<Rightarrow> restore_previous gov (uid (pp_stream p)) p prior current reason now) db = Inr db'"
  obtain p v c where a: "a = (p, v, c)" by (cases a)
  obtain p' v' c' where b: "b = (p', v', c')" by (cases b)
  have 1: "inj uid" "fresh (uid (pp_stream p)) db" "get_pointer (pp_stream p) db = Some p" "pp_active p = Some (pv_id c)"
    "get_version (pv_id v) db = Some v" "pv_stream v = pp_stream p" using ready by (auto simp: a restore_ready_def)
  note m = sound_restore_previous [OF wf 1(2-6) r [unfolded a, simplified]]
  show "wf_core gov db' \<and> sound gov db db' \<and> restored_to uid now a db'"
    using m(1,3) by (simp add: a sound_def restored_to_def)
  show "get_pointer k db' = get_pointer k db" if "k \<noteq> plan_stream a" using m(3) that by (simp add: a)
  assume ne: "plan_stream b \<noteq> plan_stream a"
  have "present (pp_stream p) (pv_id c) db" using pointers_presentD [OF wf 1(3)] 1(4) by blast
  have "restore_ready uid b db'" if rb: "restore_ready uid b db"
  proof -
    have 2: "fresh (uid (pp_stream p')) db" "get_pointer (pp_stream p') db = Some p'" "get_version (pv_id v') db = Some v'"
      "pv_stream v' = pp_stream p'" using rb by (auto simp: b restore_ready_def)
    have "pv_id v' \<noteq> uid (pp_stream p)" using 1(2) 2(3) by (auto simp: fresh_def)
    moreover have "pv_id v' \<noteq> pv_id v" "pv_id v' \<noteq> pv_id c"
      using ne 1(5,6) 2(3,4) \<open>present (pp_stream p) (pv_id c) db\<close> by (auto simp: a b present_def)
    ultimately have "get_version (pv_id v') db' = Some v'" using m(5) [of "pv_id v'"] 2(3) by simp
    moreover have "get_pointer (pp_stream p') db' = Some p'" using m(3) [of "pp_stream p'"] ne 2(2) by (simp add: a b)
    moreover have "fresh (uid (pp_stream p')) db'"
      using fresh_after [of uid db' "pp_stream p" db "pp_stream p'"] m(2) 1(1) 2(1) ne by (simp add: a b)
    ultimately show ?thesis using rb by (simp add: b restore_ready_def)
  qed
  moreover have "restored_to uid now b db'" if "restored_to uid now b db"
    using that ne m(3) by (simp add: a b restored_to_def)
  ultimately show "(restore_ready uid b db \<longrightarrow> restore_ready uid b db') \<and> (restored_to uid now b db \<longrightarrow> restored_to uid now b db')" by blast
qed (auto intro: sound_refl sound_trans)

lemma rollback_plan_ready:
  assumes wf: "wf_core gov db" and "draws uid db" "locked_window fences k db = Inr w" "rollback_plan gov vp db w = Inr plan"
  shows "restore_ready uid plan db" "plan_stream plan = k"
proof -
  obtain p c where w: "w = (p, c)" by (cases w)
  from assms(3) have 1: "get_pointer k db = Some p" "active_version p db = Some c"
    by (auto simp: w locked_window_def split: option.splits if_splits)
  from assms(4) obtain i v where 2: "pp_previous p = Some i" "get_version i db = Some v" "plan = (p, v, c)"
    by (auto simp: w rollback_plan_def result_simps split: option.splits if_splits)
  have s: "pp_stream p = k" by (rule get_pointer_stream [OF 1(1)])
  moreover have "present k i db" using pointers_presentD [OF wf 1(1)] 2(1) by blast
  ultimately show "restore_ready uid plan db" "plan_stream plan = k"
    using 1 2 assms(2) get_version_id [of _ db c] get_version_id [OF 2(2)]
    by (auto simp: restore_ready_def draws_def active_version_def present_def split: option.splits)
qed

lemma rollback_family_cases:
  assumes wf: "wf_core gov db" and "draws uid db" "rollback_publication_family gov uid ks reason fences vp vf now db = Inr (ids, db')"
  obtains plans where "\<forall>plan \<in> set plans. restore_ready uid plan db" "distinct (map plan_stream plans)"
    "fold_res (\<lambda>(p, prior, current). restore_previous gov (uid (pp_stream p)) p prior current reason now) plans db = Inr db'"
proof -
  from assms(3) obtain locked newest plans where l: "map_res (\<lambda>k. locked_window fences k db) (sort (remdups ks)) = Inr locked"
    and pl: "map_res (rollback_plan gov vp db) (filter (\<lambda>w. pv_season (snd w) = newest) locked) = Inr plans"
    and f: "fold_res (\<lambda>(p, prior, current). restore_previous gov (uid (pp_stream p)) p prior current reason now) plans db = Inr db'"
    by (auto simp: rollback_publication_family_def Let_def result_simps split: if_splits)
  have w: "\<exists>k. locked_window fences k db = Inr x" if "x \<in> set locked" for x using map_res_mem [OF l that] by blast
  have "map (pp_stream \<circ> fst) locked = sort (remdups ks)"
    using l unfolding map_res_Inr_iff
    by (induction rule: list_all2_induct) (auto simp: locked_window_def dest: get_pointer_stream split: option.splits if_splits)
  then have d: "distinct (map (pp_stream \<circ> fst) (filter (\<lambda>w. pv_season (snd w) = newest) locked))"
    by (metis distinct_map_filter distinct_remdups distinct_sort)
  have "map plan_stream plans = map (pp_stream \<circ> fst) (filter (\<lambda>w. pv_season (snd w) = newest) locked)"
    using pl unfolding map_res_Inr_iff
    by (induction rule: list_all2_induct) (auto simp: rollback_plan_def result_simps split: option.splits if_splits)
  moreover have "\<forall>plan \<in> set plans. restore_ready uid plan db"
  proof
    fix plan assume plan: "plan \<in> set plans"
    from map_res_mem [OF pl plan] obtain x where "x \<in> set locked" "rollback_plan gov vp db x = Inr plan" by auto
    with w rollback_plan_ready(1) [OF wf assms(2)] show "restore_ready uid plan db" by blast
  qed
  ultimately show thesis using that [of plans] d f by (simp only:)
qed

lemma sound_rollback_family:
  assumes "wf_core gov db" "draws uid db" "rollback_publication_family gov uid ks reason fences vp vf now db = Inr (ids, db')"
  shows "sound gov db db'"
proof -
  from rollback_family_cases [OF assms] obtain plans where "\<forall>plan \<in> set plans. restore_ready uid plan db" "distinct (map plan_stream plans)"
    "fold_res (\<lambda>(p, prior, current). restore_previous gov (uid (pp_stream p)) p prior current reason now) plans db = Inr db'" .
  from restores.run(2) [OF assms(1) this] show ?thesis .
qed

section \<open>Reverting a cutover\<close>

definition reverted_pointer :: "instant \<Rightarrow> MovedStream \<times> PublicationPointer \<times> PublicationVersion \<Rightarrow> PublicationPointer" where
  "reverted_pointer now plan = (case plan of (m, p, v) \<Rightarrow>
     p\<lparr>pp_fence := pp_fence p + 1, pp_active := Some (pv_id v), pp_previous := mv_from_previous m, pp_updated := now\<rparr>)"

lemma reverted_pointer_sel [simp]:
  "pp_stream (reverted_pointer now (m, p, v)) = pp_stream p" "pp_fence (reverted_pointer now (m, p, v)) = pp_fence p + 1"
  "pp_active (reverted_pointer now (m, p, v)) = Some (pv_id v)" "pp_previous (reverted_pointer now (m, p, v)) = mv_from_previous m"
  by (simp_all add: reverted_pointer_def)

definition revert_ready :: "MovedStream \<times> PublicationPointer \<times> PublicationVersion \<Rightarrow> control_db \<Rightarrow> bool" where
  "revert_ready plan db \<longleftrightarrow> (case plan of (m, p, v) \<Rightarrow>
     get_pointer (mv_stream m) db = Some p \<and> pp_active p = Some (mv_to m) \<and> get_version (mv_from m) db = Some v \<and>
     present (mv_stream m) (mv_from m) db \<and> served (mv_stream m) (mv_from m) db \<and> mv_from m \<noteq> mv_to m \<and>
     (\<forall>i. mv_from_previous m = Some i \<longrightarrow> present (mv_stream m) i db))"

lemma status_after: "get_version i (set_status (\<lambda>u. pv_id u = i) st db) = Some u \<Longrightarrow> pv_status u = st"
  using get_version_id [of i db] by (auto simp: set_status_modify table_simps)

lemma revert_move_eq:
  "revert_move now (m, p, v) db = advance_to (reverted_pointer now (m, p, v)) v now
     (revoke_pointer_history (mv_stream m) [mv_to m] now (pp_fence p + 1)
       (set_status (\<lambda>u. pv_id u = mv_to m) SUPERSEDED (set_status (\<lambda>u. pv_id u = pv_id v) ACTIVE db)))"
  by (cases db) (simp add: revert_move_def Let_def advance_to_def reverted_pointer_def set_status_def set_pointer_def revoke_pointer_history_def)

lemma sound_revert_move:
  fixes now
  assumes wf: "wf_core gov db" and ready: "revert_ready (m, p, v) db"
  defines "db' \<equiv> revert_move now (m, p, v) db"
  shows "sound gov db db'"
    "get_pointer j db' = (if j = mv_stream m then Some (reverted_pointer now (m, p, v)) else get_pointer j db)"
    "j \<noteq> mv_from m \<Longrightarrow> j \<noteq> mv_to m \<Longrightarrow> get_version j db' = get_version j db"
    "l \<noteq> mv_stream m \<Longrightarrow> served l j db \<Longrightarrow> served l j db'"
    "served (mv_stream m) (mv_from m) db'" "publication_withdrawn (mv_to m) db'"
proof -
  let ?k = "mv_stream m"
  have r: "get_pointer ?k db = Some p" "pp_active p = Some (mv_to m)" "get_version (mv_from m) db = Some v" "present ?k (mv_from m) db"
    "served ?k (mv_from m) db" "mv_from m \<noteq> mv_to m" "\<And>i. mv_from_previous m = Some i \<Longrightarrow> present ?k i db"
    using ready by (auto simp: revert_ready_def)
  have id: "pv_id v = mv_from m" and st: "pp_stream p = ?k" using get_version_id [OF r(3)] get_pointer_stream [OF r(1)] by auto
  have nw: "\<not> publication_withdrawn (mv_from m) db" using r(5) by (auto simp: withdrawn_iff)
  let ?db1 = "set_status (\<lambda>u. pv_id u = mv_from m) ACTIVE db"
  let ?db2 = "set_status (\<lambda>u. pv_id u = mv_to m) SUPERSEDED ?db1"
  define db3 where "db3 = revoke_pointer_history ?k [mv_to m] now (pp_fence p + 1) ?db2"
  have "sound gov db ?db1"
    unfolding sound_def set_status_modify by (rule wf_modify [OF wf]) (use nw get_version_id in \<open>auto split: if_splits\<close>)
  then have s2: "sound gov db ?db2" by (rule sound_trans [OF _ sound_supersede]) (use \<open>sound gov db ?db1\<close> in \<open>simp add: sound_def\<close>)
  have gv: "get_version j db3 = map_option (\<lambda>u. if pv_id u = mv_to m then u\<lparr>pv_status := SUPERSEDED\<rparr> else u)
      (map_option (\<lambda>u. if pv_id u = mv_from m then u\<lparr>pv_status := ACTIVE\<rparr> else u) (get_version j db))" for j
    by (simp add: db3_def set_status_modify table_simps comp_def)
  have sv: "served l j db3 \<longleftrightarrow> served l j db \<and> \<not> (l = ?k \<and> j = mv_to m)" "listed_in l j db3 = listed_in l j db"
    "get_pointer l db3 = get_pointer l db" for l j by (simp_all add: db3_def set_status_modify table_simps)
  have "pv_status u \<noteq> ACTIVE" if "get_version (mv_to m) ?db2 = Some u" for u using status_after [OF that] by simp
  moreover have w2: "wf_but gov {?k} ?db2" "keeps_but {?k} db ?db2" using s2 wf_but_mono keeps_mono unfolding sound_def by blast+
  ultimately have w3: "wf_but gov {?k} db3" using wf_revoke [OF w2(1), of ?k "[mv_to m]"] by (simp add: db3_def)
  have k3: "keeps_but {?k} db db3" unfolding db3_def by (rule keeps_but_trans [OF w2(2) keeps_revoke]) simp
  have eq: "db' = advance_to (reverted_pointer now (m, p, v)) v now db3" unfolding db'_def using revert_move_eq [of now m p v db] by (simp add: id db3_def)
  have nw3: "\<not> publication_withdrawn (pv_id v) db3" using r(5,6) by (auto simp: withdrawn_iff sv id)
  show "sound gov db db'" unfolding eq
    by (rule sound_activate [OF w3 k3]) (use r nw3 present_keeps [OF _ k3] in \<open>auto simp: sv st id\<close>)
  show "get_pointer j db' = (if j = ?k then Some (reverted_pointer now (m, p, v)) else get_pointer j db)"
    using r(1) by (simp add: eq advance_to_def table_simps st sv)
  show "get_version j db' = get_version j db" if "j \<noteq> mv_from m" "j \<noteq> mv_to m"
    using that get_version_id [of j db] id by (cases "get_version j db") (auto simp: eq advance_to_def table_simps gv)
  show "served l j db'" if "l \<noteq> ?k" "served l j db" using that by (simp add: eq advance_to_def table_simps sv)
  show "served ?k (mv_from m) db'" using r(5,6) by (simp add: eq advance_to_def table_simps sv)
  have "stands_at ?k (mv_to m) (pp_fence p) db" using actives_standD [OF wf _ r(1,2)] by simp
  then have "listed_in ?k (mv_to m) db" by (blast intro: served_listed stands_served)
  moreover have "present ?k (mv_to m) db" using pointers_presentD [OF wf r(1)] r(2) by blast
  then obtain u where u: "get_version (mv_to m) db = Some u" "pv_stream u = ?k" by (auto simp: present_def)
  then have "l = ?k" if "served l (mv_to m) db" for l using versions_okD [OF wf u(1)] served_listed [OF that] by blast
  ultimately show "publication_withdrawn (mv_to m) db'"
    using r(6) unfolding withdrawn_iff eq advance_to_def by (auto simp: table_simps sv st id)
qed

definition reverted_to :: "instant \<Rightarrow> MovedStream \<times> PublicationPointer \<times> PublicationVersion \<Rightarrow> control_db \<Rightarrow> bool" where
  "reverted_to now plan db \<longleftrightarrow>
     get_pointer (mv_stream (fst plan)) db = Some (reverted_pointer now plan) \<and> publication_withdrawn (mv_to (fst plan)) db"

interpretation reverts: keyed_loop "mv_stream \<circ> fst" "\<lambda>plan db. Inr (revert_move now plan db)" "wf_core gov" "sound gov"
  revert_ready "reverted_to now" "\<lambda>k db. get_pointer k db" for gov now
proof
  fix db db' :: control_db and a b :: "MovedStream \<times> PublicationPointer \<times> PublicationVersion" and k
  assume wf: "wf_core gov db" and ready: "revert_ready a db" and e: "Inr (revert_move now a db) = Inr db'"
  obtain m p v where a: "a = (m, p, v)" by (cases a)
  obtain m' p' v' where b: "b = (m', p', v')" by (cases b)
  have db': "db' = revert_move now (m, p, v) db" using e by (simp add: a)
  note r = sound_revert_move [OF wf ready [unfolded a], where now = now, folded db']
  show "wf_core gov db' \<and> sound gov db db' \<and> reverted_to now a db'" using r(1,2,6) by (simp add: a sound_def reverted_to_def)
  show "get_pointer k db' = get_pointer k db" if "k \<noteq> (mv_stream \<circ> fst) a" using r(2) that by (simp add: a)
  assume ne: "(mv_stream \<circ> fst) b \<noteq> (mv_stream \<circ> fst) a"
  have "revert_ready b db'" if rb: "revert_ready b db"
  proof -
    have "present (mv_stream m) (mv_to m) db" "present (mv_stream m) (mv_from m) db"
      using pointers_presentD [OF wf] ready by (auto simp: a revert_ready_def)
    then have "mv_from m' \<noteq> mv_from m" "mv_from m' \<noteq> mv_to m" using rb ne by (auto simp: a b revert_ready_def present_def)
    then have "get_version (mv_from m') db' = get_version (mv_from m') db" by (rule r(3))
    moreover have "keeps db db'" using r(1) by (simp add: sound_def)
    ultimately show ?thesis using rb ne r(2) [of "mv_stream m'"] r(4) [of "mv_stream m'" "mv_from m'"] present_keeps
      by (auto simp: a b revert_ready_def)
  qed
  moreover have "publication_withdrawn i db \<Longrightarrow> publication_withdrawn i db'" for i using r(1) unfolding sound_def keeps_but_def by blast
  then have "reverted_to now b db'" if "reverted_to now b db" using that ne r(2) by (simp add: a b reverted_to_def)
  ultimately show "(revert_ready b db \<longrightarrow> revert_ready b db') \<and> (reverted_to now b db \<longrightarrow> reverted_to now b db')" by blast
qed (auto intro: sound_refl sound_trans)

end
