(* ===== verification/Publication_Cutover.thy ===== *)
theory Publication_Cutover
  imports Publication_Recovery
begin

text \<open>
  The season cutover, its revert and the prune, and the invariant that holds of the publication
  tables after any sequence of operations. A cutover leaves a record of what it moved; the
  invariant says of every recorded cutover what the tables still have of it, and from that follow
  that it can be undone while no pointer has moved since, and that no prune takes what it needs.
\<close>

section \<open>What a cutover moves\<close>

text \<open>The primary keys of the streams and of the members of a repair group, which the database
  enforces.\<close>

definition schema :: "control_db \<Rightarrow> bool" where
  "schema db \<longleftrightarrow> distinct (map ps_key (db_streams db)) \<and> group_keys db"

lemma find_distinct: "distinct (map k xs) \<Longrightarrow> x \<in> set xs \<Longrightarrow> find (\<lambda>y. k y = k x) xs = Some x"
  by (induction xs) auto

lemma get_version_mem: "wf_core gov db \<Longrightarrow> v \<in> set (db_versions db) \<Longrightarrow> get_version (pv_id v) db = Some v"
  unfolding wf_but_def ids_unique_def get_version_def by (simp add: find_distinct)

lemma cutover_move_Some:
  assumes "cutover_move season db s = Some m"
  shows "cv_stream m = s" "get_pointer (ps_key s) db = Some (cv_pointer m)" "active_version (cv_pointer m) db = Some (cv_current m)"
    "pv_season (cv_current m) \<noteq> season" "cv_candidate m \<in> set (db_versions db)" "pv_stream (cv_candidate m) = ps_key s"
    "pv_season (cv_candidate m) = season" "pv_status (cv_candidate m) = CANDIDATE"
proof -
  let ?vs = "filter (\<lambda>v. pv_stream v = ps_key s \<and> pv_season v = season \<and> pv_status v = CANDIDATE) (db_versions db)"
  from assms obtain rest where 1: "cv_stream m = s" "get_pointer (ps_key s) db = Some (cv_pointer m)"
    "active_version (cv_pointer m) db = Some (cv_current m)" "pv_season (cv_current m) \<noteq> season" "newest_first ?vs = cv_candidate m # rest"
    by (auto simp: cutover_move_def split: option.splits if_splits list.splits)
  then have "cv_candidate m \<in> set (newest_first ?vs)" by simp
  then have "cv_candidate m \<in> set ?vs" by (simp add: newest_first_def)
  with 1 show "cv_stream m = s" "get_pointer (ps_key s) db = Some (cv_pointer m)" "active_version (cv_pointer m) db = Some (cv_current m)"
    "pv_season (cv_current m) \<noteq> season" "cv_candidate m \<in> set (db_versions db)" "pv_stream (cv_candidate m) = ps_key s"
    "pv_season (cv_candidate m) = season" "pv_status (cv_candidate m) = CANDIDATE" by simp_all
qed

abbreviation move_plan :: "CutoverMove \<Rightarrow> PublicationPointer \<times> PublicationVersion \<times> PublicationVersion" where
  "move_plan m \<equiv> (cv_pointer m, cv_current m, cv_candidate m)"

lemma cutover_move_ready:
  assumes "wf_core gov db" "cutover_move season db s = Some m"
  shows "move_ready db (move_plan m)" "pp_stream (cv_pointer m) = move_key m" "move_key m = ps_key s"
    "pv_id (cv_current m) \<noteq> pv_id (cv_candidate m)" "served (move_key m) (pv_id (cv_current m)) db"
proof -
  note c = cutover_move_Some [OF assms(2)]
  have k: "move_key m = ps_key s" using c(1) by (simp add: move_key_def)
  have i: "pp_active (cv_pointer m) = Some (pv_id (cv_current m))"
    using c(3) get_version_id [of _ db "cv_current m"] by (auto simp: active_version_def split: option.splits)
  show "pp_stream (cv_pointer m) = move_key m" "move_key m = ps_key s" using get_pointer_stream [OF c(2)] k by simp_all
  then show "move_ready db (move_plan m)" using c i get_version_mem [OF assms(1) c(5)] by (simp add: move_ready_def)
  show "served (move_key m) (pv_id (cv_current m)) db"
    using actives_standD [OF assms(1) _ c(2) i] unfolding k by (blast intro: stands_served)
  have "present (ps_key s) (pv_id (cv_current m)) db" using pointers_presentD [OF assms(1) c(2)] i by blast
  then show "pv_id (cv_current m) \<noteq> pv_id (cv_candidate m)"
    using get_version_mem [OF assms(1) c(5)] c(8) by (auto simp: present_def)
qed

lemma moves_of_streams:
  fixes season db
  defines "mo \<equiv> \<lambda>s. case cutover_move season db s of None \<Rightarrow> [] | Some m \<Rightarrow> [m]"
  shows "m \<in> set (concat (map mo ss)) \<longleftrightarrow> (\<exists>s \<in> set ss. cutover_move season db s = Some m)"
    "distinct (map ps_key ss) \<Longrightarrow> distinct (map move_key (concat (map mo ss)))"
proof -
  show in_mo: "m \<in> set (concat (map mo ss)) \<longleftrightarrow> (\<exists>s \<in> set ss. cutover_move season db s = Some m)" for m ss
    by (induction ss) (auto simp: mo_def split: option.splits)
  have key: "move_key m = ps_key s" if "cutover_move season db s = Some m" for m s
    using cutover_move_Some(1) [OF that] by (simp add: move_key_def)
  show "distinct (map ps_key ss) \<Longrightarrow> distinct (map move_key (concat (map mo ss)))"
  proof (induction ss)
    case (Cons s ss)
    show ?case
    proof (cases "cutover_move season db s")
      case (Some m)
      have "move_key m \<noteq> move_key n" if n: "n \<in> set (concat (map mo ss))" for n
      proof -
        obtain t where t: "t \<in> set ss" "cutover_move season db t = Some n" using n in_mo by blast
        then have "ps_key t \<noteq> ps_key s" using Cons.prems by (metis distinct.simps(2) imageI list.map(2) list.set_map)
        with key [OF t(2)] key [OF Some] show ?thesis by simp
      qed
      with Cons Some show ?thesis by (auto simp: mo_def)
    qed (use Cons in \<open>simp add: mo_def\<close>)
  qed simp
qed

section \<open>What the tables keep of a cutover\<close>

definition move_kept :: "CutoverRecord \<Rightarrow> control_db \<Rightarrow> MovedStream \<Rightarrow> bool" where
  "move_kept c db m \<longleftrightarrow> (mv_stream m, mv_fence m) \<in> set (cu_fences c) \<and> mv_from m \<noteq> mv_to m \<and>
     (\<exists>p. get_pointer (mv_stream m) db = Some p \<and> (pp_fence p = mv_fence m \<longrightarrow> pp_active p = Some (mv_to m) \<and>
        (pp_previous p = None \<or> pp_previous p = Some (mv_from m) \<and> served (mv_stream m) (mv_from m) db))) \<and>
     (cutover_reversible c db \<longrightarrow> present (mv_stream m) (mv_from m) db \<and>
        (\<forall>i. mv_from_previous m = Some i \<longrightarrow> present (mv_stream m) i db))"

definition cutover_ok :: "CutoverRecord \<Rightarrow> control_db \<Rightarrow> bool" where
  "cutover_ok c db \<longleftrightarrow> distinct (map mv_stream (cu_moved c)) \<and> (\<forall>(k, f) \<in> set (cu_fences c). f \<le> fence_of k db) \<and>
     (\<forall>m \<in> set (cu_moved c). move_kept c db m)"

lemma keeps_pointerD:
  assumes "keeps db db'" "get_pointer k db = Some p"
  obtains q where "get_pointer k db' = Some q" "pp_fence p \<le> pp_fence q"
    "pp_fence q = pp_fence p \<longrightarrow> pp_active q = pp_active p \<and> (pp_previous q = None \<or> pp_previous q = pp_previous p \<and>
       (\<forall>i. pp_previous p = Some i \<longrightarrow> served k i db \<longrightarrow> served k i db'))"
proof -
  from assms have "\<exists>q. get_pointer k db' = Some q \<and> pp_fence p \<le> pp_fence q \<and> (k \<notin> {} \<longrightarrow> pp_fence q = pp_fence p \<longrightarrow>
    pp_active q = pp_active p \<and> (pp_previous q = None \<or> pp_previous q = pp_previous p \<and>
       (\<forall>i. pp_previous p = Some i \<longrightarrow> served k i db \<longrightarrow> served k i db')))" unfolding keeps_but_def by blast
  with that show thesis by auto
qed

lemma fence_of_mono:
  assumes "wf_core gov db'" "keeps db db'" shows "fence_of k db \<le> fence_of k db'"
proof (cases "get_pointer k db")
  case None
  then show ?thesis using generations_okD(3) [OF assms(1), of k] by (auto simp: fence_of_def split: option.splits)
next
  case (Some p)
  then obtain q where "get_pointer k db' = Some q" "pp_fence p \<le> pp_fence q" using assms(2) unfolding keeps_but_def by blast
  with Some show ?thesis by (simp add: fence_of_def)
qed

lemma reversible_back:
  assumes "sound gov db db'" "\<forall>(k, f) \<in> set (cu_fences c). f \<le> fence_of k db" "cutover_reversible c db'"
  shows "cutover_reversible c db"
  unfolding cutover_reversible_def list_all_iff
proof (intro ballI, clarify)
  fix k f assume m: "(k, f) \<in> set (cu_fences c)"
  have "fence_of k db' = f" using assms(3) m by (auto simp: cutover_reversible_def list_all_iff)
  moreover have "f \<le> fence_of k db" using assms(2) m by blast
  moreover have "fence_of k db \<le> fence_of k db'" using assms(1) fence_of_mono by (auto simp: sound_def)
  ultimately show "fence_of k db = f" by simp
qed

lemma move_kept_sound:
  assumes s: "sound gov db db'" and f: "\<forall>(k, f) \<in> set (cu_fences c). f \<le> fence_of k db" and m: "move_kept c db m"
  shows "move_kept c db' m"
proof -
  let ?k = "mv_stream m"
  have k: "keeps db db'" using s by (simp add: sound_def)
  from m obtain p where p: "get_pointer ?k db = Some p" "pp_fence p = mv_fence m \<longrightarrow> pp_active p = Some (mv_to m) \<and>
        (pp_previous p = None \<or> pp_previous p = Some (mv_from m) \<and> served ?k (mv_from m) db)"
    and i: "(?k, mv_fence m) \<in> set (cu_fences c)" "mv_from m \<noteq> mv_to m" unfolding move_kept_def by blast
  have le: "mv_fence m \<le> pp_fence p" using f i(1) p(1) by (auto simp: fence_of_def)
  obtain q where q: "get_pointer ?k db' = Some q" "pp_fence p \<le> pp_fence q" "pp_fence q = pp_fence p \<longrightarrow> pp_active q = pp_active p \<and>
       (pp_previous q = None \<or> pp_previous q = pp_previous p \<and> (\<forall>i. pp_previous p = Some i \<longrightarrow> served ?k i db \<longrightarrow> served ?k i db'))"
    by (rule keeps_pointerD [OF k p(1)])
  have "pp_fence q = mv_fence m \<Longrightarrow> pp_fence p = mv_fence m \<and> pp_fence q = pp_fence p" using le q(2) by linarith
  then have "pp_fence q = mv_fence m \<longrightarrow> pp_active q = Some (mv_to m) \<and>
        (pp_previous q = None \<or> pp_previous q = Some (mv_from m) \<and> served ?k (mv_from m) db')"
    using p(2) q(3) by metis
  moreover have "present ?k (mv_from m) db' \<and> (\<forall>i. mv_from_previous m = Some i \<longrightarrow> present ?k i db')" if "cutover_reversible c db'"
  proof -
    have "present ?k (mv_from m) db \<and> (\<forall>i. mv_from_previous m = Some i \<longrightarrow> present ?k i db)"
      using reversible_back [OF s f that] m by (simp add: move_kept_def)
    with present_keeps [OF _ k] show ?thesis by blast
  qed
  ultimately show ?thesis using i q(1) by (simp add: move_kept_def)
qed

lemma cutover_ok_sound:
  assumes "sound gov db db'" "cutover_ok c db" shows "cutover_ok c db'"
  unfolding cutover_ok_def
proof (intro conjI)
  have f: "\<forall>(k, f) \<in> set (cu_fences c). f \<le> fence_of k db" using assms(2) by (simp add: cutover_ok_def)
  have "fence_of k db \<le> fence_of k db'" for k using assms(1) fence_of_mono by (auto simp: sound_def)
  with f show "\<forall>(k, f) \<in> set (cu_fences c). f \<le> fence_of k db'" by (fast intro: order_trans)
  show "distinct (map mv_stream (cu_moved c))" using assms(2) by (simp add: cutover_ok_def)
  show "\<forall>m \<in> set (cu_moved c). move_kept c db' m" using move_kept_sound [OF assms(1) f] assms(2) by (simp add: cutover_ok_def)
qed

lemma cutover_ok_cong:
  assumes "\<And>k. get_pointer k db' = get_pointer k db" "\<And>k i. served k i db' = served k i db"
    "\<And>m i. m \<in> set (cu_moved c) \<Longrightarrow> cutover_reversible c db \<Longrightarrow> mv_from m = i \<or> mv_from_previous m = Some i \<Longrightarrow>
       present (mv_stream m) i db \<Longrightarrow> present (mv_stream m) i db'"
  shows "cutover_ok c db \<Longrightarrow> cutover_ok c db'"
proof -
  have f: "fence_of k db' = fence_of k db" for k by (simp add: fence_of_def assms(1))
  then have "cutover_reversible c db' = cutover_reversible c db" by (simp add: cutover_reversible_def)
  then show "cutover_ok c db \<Longrightarrow> cutover_ok c db'" unfolding cutover_ok_def move_kept_def f assms(1,2) using assms(3) by blast
qed

section \<open>The cutover and its revert\<close>

lemma cutover_cases:
  assumes wf: "wf_core gov db" and sc: "schema db" and r: "cutover_season gov job season actor reason fences leave now db = Inr (c, db')"
  obtains moves where "\<forall>m \<in> set moves. cutover_move season db (cv_stream m) = Some m \<and> cv_stream m \<in> set (db_streams db) \<and> ps_enabled (cv_stream m)"
    "distinct (map move_key moves)" "cu_moved c = map moved_stream moves" "cu_season c = season" "cu_job c = job"
    "cu_fences c = map (\<lambda>s. (ps_key s, fence_of (ps_key s) (move_all actor reason now (map move_plan moves) db))) (sort_key ps_key (filter ps_enabled (db_streams db)))"
    "db' = (move_all actor reason now (map move_plan moves) db)
       \<lparr>db_audits := db_audits (move_all actor reason now (map move_plan moves) db) @ [SeasonCutoverAudit c]\<rparr>"
proof -
  define streams where "streams = sort_key ps_key (filter ps_enabled (db_streams db))"
  define all where "all = concat (map (\<lambda>s. case cutover_move season db s of None \<Rightarrow> [] | Some m \<Rightarrow> [m]) streams)"
  obtain refusal left where rl: "cutover_refusal gov all season fences db = (refusal, left)" by (cases "cutover_refusal gov all season fences db")
  define moves where "moves = filter (\<lambda>m. move_key m \<notin> fst ` set left) all"
  have plan: "cutover_plan gov season fences db = (refusal, moves, left)"
    using rl by (simp add: cutover_plan_def Let_def all_def streams_def moves_def)
  have fold_eq: "fold (\<lambda>m. move_pointer_to_candidate (cv_pointer m) (cv_candidate m) (Some (cv_current m)) actor reason now) moves db =
    move_all actor reason now (map move_plan moves) db" by (simp add: fold_map comp_def)
  have "distinct (map ps_key streams)" using sc by (simp add: streams_def distinct_sort_key schema_def distinct_map_filter)
  then have d: "distinct (map move_key moves)" unfolding moves_def all_def by (intro distinct_map_filter moves_of_streams(2))
  have m: "cutover_move season db (cv_stream m) = Some m \<and> cv_stream m \<in> set (db_streams db) \<and> ps_enabled (cv_stream m)" if "m \<in> set moves" for m
  proof -
    from that have "m \<in> set all" by (simp add: moves_def)
    then obtain s where "s \<in> set streams" "cutover_move season db s = Some m" unfolding all_def using moves_of_streams(1) by metis
    with cutover_move_Some(1) show ?thesis by (auto simp: streams_def)
  qed
  show thesis
    by (rule that [of moves]) (use r m d in \<open>auto simp: cutover_season_def plan Let_def fold_eq streams_def split: option.splits if_splits\<close>)
qed

lemma cutovers_audit [table_simps]: "cutovers (db\<lparr>db_audits := db_audits db @ [SeasonCutoverAudit c]\<rparr>) = insert c (cutovers db)"
  by (auto simp: cutovers_def)

lemma core_audits: "cutovers (db\<lparr>db_audits := xs\<rparr>) = cutovers db \<Longrightarrow> core (db\<lparr>db_audits := xs\<rparr>) = core db"
  by (simp add: core_def)

definition control_ok :: "governance \<Rightarrow> control_db \<Rightarrow> bool" where
  "control_ok gov db \<longleftrightarrow> wf_core gov db \<and> (\<forall>c \<in> cutovers db. cutover_ok c db)"

lemma control_ok_sound: "sound gov db db' \<Longrightarrow> control_ok gov db \<Longrightarrow> control_ok gov db'"
  using cutover_ok_sound [of gov db db'] by (auto simp: control_ok_def sound_def keeps_but_def)

lemma cutover_effect:
  assumes wf: "wf_core gov db" and sc: "schema db" and r: "cutover_season gov job season actor reason fences leave now db = Inr (c, db')"
  shows "\<exists>db1. sound gov db db1 \<and> db' = db1\<lparr>db_audits := db_audits db1 @ [SeasonCutoverAudit c]\<rparr>" "cutover_ok c db'"
    "m \<in> set (cu_moved c) \<Longrightarrow> \<exists>p v w. get_pointer (mv_stream m) db = Some p \<and> pp_active p = Some (mv_from m) \<and>
       pp_previous p = mv_from_previous m \<and> mv_fence m = pp_fence p + 1 \<and>
       get_version (mv_from m) db = Some v \<and> pv_season v = mv_from_season m \<and> pv_season v \<noteq> season \<and>
       get_version (mv_to m) db = Some w \<and> pv_season w = season \<and> pv_status w = CANDIDATE \<and>
       get_pointer (mv_stream m) db' = Some (moved_pointer p (Some v) w now)"
    "k \<notin> mv_stream ` set (cu_moved c) \<Longrightarrow> get_pointer k db' = get_pointer k db"
    "cutover_reversible c db'"
proof -
  obtain moves where m: "\<forall>m \<in> set moves. cutover_move season db (cv_stream m) = Some m \<and>
      cv_stream m \<in> set (db_streams db) \<and> ps_enabled (cv_stream m)" and d: "distinct (map move_key moves)"
    and moved: "cu_moved c = map moved_stream moves" and "cu_season c = season" "cu_job c = job"
    and fences: "cu_fences c = map (\<lambda>s. (ps_key s, fence_of (ps_key s) (move_all actor reason now (map move_plan moves) db)))
        (sort_key ps_key (filter ps_enabled (db_streams db)))"
    and db': "db' = (move_all actor reason now (map move_plan moves) db)
       \<lparr>db_audits := db_audits (move_all actor reason now (map move_plan moves) db) @ [SeasonCutoverAudit c]\<rparr>"
    by (rule cutover_cases [OF wf sc r])
  define db1 where "db1 = move_all actor reason now (map move_plan moves) db"
  have ready: "cutover_move season db (cv_stream m) = Some m" "move_ready db (move_plan m)" "pp_stream (cv_pointer m) = move_key m"
    "pv_id (cv_current m) \<noteq> pv_id (cv_candidate m)" "served (move_key m) (pv_id (cv_current m)) db" if "m \<in> set moves" for m
    using bspec [OF m that] cutover_move_ready [OF wf, of season "cv_stream m" m] by blast+
  have ks: "map plan_stream (map move_plan moves) = map move_key moves" using ready(3) by simp
  have d': "distinct (map plan_stream (map move_plan moves))" unfolding ks by (rule d)
  have rd: "\<forall>plan \<in> set (map move_plan moves). move_ready db plan" using ready(2) by auto
  note all = sound_move_all [OF wf rd d', where actor = actor and reason = reason and now = now, folded db1_def]
  have obs: "get_pointer k db' = get_pointer k db1" "get_version k db' = get_version k db1" "served k i db' = served k i db1"
    "present k i db' = present k i db1" for k i
    unfolding db' db1_def [symmetric] by (simp_all add: get_pointer_def get_version_def served_def present_def)
  have fo: "fence_of k db' = fence_of k db1" for k by (simp add: fence_of_def obs)
  show "\<exists>db1. sound gov db db1 \<and> db' = db1\<lparr>db_audits := db_audits db1 @ [SeasonCutoverAudit c]\<rparr>"
    using all(1) db' by (auto simp: db1_def)
  show rev: "cutover_reversible c db'" by (auto simp: cutover_reversible_def list_all_iff fences db1_def [symmetric] fo)
  have ptr: "get_pointer (move_key m) db' = Some (moved_pointer (cv_pointer m) (Some (cv_current m)) (cv_candidate m) now)" if "m \<in> set moves" for m
    using all(2) [of "cv_pointer m" "cv_current m" "cv_candidate m"] ready(3) [OF that] that by (auto simp: obs)
  have "move_kept c db' (moved_stream m)" if mm: "m \<in> set moves" for m
  proof -
    note c = cutover_move_Some [OF ready(1) [OF mm]] and rdy = ready [OF mm]
    have k: "move_key m = ps_key (cv_stream m)" by (simp add: move_key_def)
    have "fence_of (move_key m) db1 = pp_fence (cv_pointer m) + 1" using ptr [OF mm] by (simp add: fence_of_def obs)
    then have "(move_key m, pp_fence (cv_pointer m) + 1) \<in> set (cu_fences c)"
      using m mm unfolding fences db1_def [symmetric] by (auto simp: k image_iff)
    moreover have "served (move_key m) (pv_id (cv_current m)) db'" using served_move_all [OF rdy(5)] by (simp add: obs db1_def)
    moreover have "present (move_key m) j db'" if "pp_active (cv_pointer m) = Some j \<or> pp_previous (cv_pointer m) = Some j" for j
      using pointers_presentD [OF wf c(2) that] present_keeps all(1) k by (auto simp: obs sound_def)
    moreover have "pp_active (cv_pointer m) = Some (pv_id (cv_current m))" using rdy(2) by (simp add: move_ready_def)
    ultimately show ?thesis using rdy(4) ptr [OF mm] by (auto simp: move_kept_def moved_stream_def)
  qed
  then have kept: "\<forall>m \<in> set (cu_moved c). move_kept c db' m" by (simp add: moved)
  have "map mv_stream (cu_moved c) = map move_key moves" by (simp add: moved moved_stream_def)
  then have "distinct (map mv_stream (cu_moved c))" using d by (simp only:)
  moreover have "\<forall>(k, f) \<in> set (cu_fences c). f \<le> fence_of k db'" by (auto simp: fences db1_def [symmetric] fo)
  ultimately show "cutover_ok c db'" using kept unfolding cutover_ok_def by blast
  show "get_pointer k db' = get_pointer k db" if "k \<notin> mv_stream ` set (cu_moved c)"
  proof -
    have "mv_stream ` set (cu_moved c) = plan_stream ` set (map move_plan moves)" using ready(3) by (auto simp: moved moved_stream_def image_iff)
    with that all(3) [of k] show ?thesis by (simp add: obs)
  qed
  show "\<exists>p v w. get_pointer (mv_stream m) db = Some p \<and> pp_active p = Some (mv_from m) \<and>
       pp_previous p = mv_from_previous m \<and> mv_fence m = pp_fence p + 1 \<and>
       get_version (mv_from m) db = Some v \<and> pv_season v = mv_from_season m \<and> pv_season v \<noteq> season \<and>
       get_version (mv_to m) db = Some w \<and> pv_season w = season \<and> pv_status w = CANDIDATE \<and>
       get_pointer (mv_stream m) db' = Some (moved_pointer p (Some v) w now)" if "m \<in> set (cu_moved c)"
  proof -
    from that obtain n where n: "n \<in> set moves" "m = moved_stream n" by (auto simp: moved)
    note c = cutover_move_Some [OF ready(1) [OF n(1)]]
    have "pp_active (cv_pointer n) = Some (pv_id (cv_current n))" using ready(2) [OF n(1)] by (simp add: move_ready_def)
    moreover from this have "get_version (pv_id (cv_current n)) db = Some (cv_current n)" using c(3) by (simp add: active_version_def)
    ultimately show ?thesis using c ptr [OF n(1)] get_version_mem [OF wf c(5)]
      by (intro exI [of _ "cv_pointer n"] exI [of _ "cv_current n"] exI [of _ "cv_candidate n"]) (simp add: n(2) moved_stream_def move_key_def)
  qed
qed

lemma control_ok_cutover:
  assumes ok: "control_ok gov db" and "schema db" "cutover_season gov job season actor reason fences leave now db = Inr (c, db')"
  shows "control_ok gov db'"
proof -
  have wf: "wf_core gov db" using ok by (simp add: control_ok_def)
  note e = cutover_effect [OF wf assms(2,3)]
  obtain db1 where 1: "sound gov db db1" "db' = db1\<lparr>db_audits := db_audits db1 @ [SeasonCutoverAudit c]\<rparr>" using e(1) by blast
  have "control_ok gov db1" by (rule control_ok_sound [OF 1(1) ok])
  moreover have "wf_core gov db' = wf_core gov db1"
    unfolding 1(2) wf_but_def ids_unique_def wf_parts withdrawn_iff
    by (simp add: get_pointer_def get_version_def served_def present_def listed_in_def stands_at_def generations_def)
  moreover have "cutovers db' = insert c (cutovers db1)" by (simp add: 1(2) table_simps)
  moreover have "cutover_ok d db1 \<Longrightarrow> cutover_ok d db'" for d
    by (rule cutover_ok_cong) (simp_all add: 1(2) get_pointer_def get_version_def served_def present_def)
  ultimately show ?thesis using e(2) by (auto simp: control_ok_def)
qed

lemma find_holds: "find q xs = Some x \<Longrightarrow> x \<in> set xs \<and> q x"
  by (induction xs) (auto split: if_splits)

lemma audits_move_all: "db_audits (move_all actor reason now plans db) = db_audits db"
proof (induction plans arbitrary: db)
  case (Cons plan plans)
  have "db_audits (move_pointer_to_candidate p v c actor reason now db) = db_audits db" for p v c
    by (cases c) (simp_all add: move_pointer_to_candidate_def Let_def record_pointer_activation_def set_pointer_def set_status_def)
  with Cons show ?case by (cases plan) simp
qed simp

lemma recorded_cutover:
  assumes "wf_core gov db" "schema db" "cutover_season gov job season actor reason fences leave now db = Inr (c, db')"
    and none: "cutover_record season job db = None"
  shows "cutover_record season job db' = Some c"
proof -
  obtain moves where c: "cu_season c = season" "cu_job c = job"
    and db': "db' = (move_all actor reason now (map move_plan moves) db)
       \<lparr>db_audits := db_audits (move_all actor reason now (map move_plan moves) db) @ [SeasonCutoverAudit c]\<rparr>"
    by (rule cutover_cases [OF assms(1-3)])
  have "db_audits db' = db_audits db @ [SeasonCutoverAudit c]" by (simp add: db' audits_move_all)
  with none c show ?thesis by (simp add: cutover_record_def find_append split: option.splits)
qed

lemma recorded: "cutover_record season job db = Some c \<Longrightarrow> c \<in> cutovers db \<and> cu_season c = season \<and> cu_job c = job"
proof -
  assume "cutover_record season job db = Some c"
  then have "c \<in> set (concat (map (\<lambda>a. case a of SeasonCutoverAudit c \<Rightarrow> [c] | _ \<Rightarrow> []) (db_audits db)))" "cu_season c = season \<and> cu_job c = job"
    unfolding cutover_record_def using find_holds by fastforce+
  then show ?thesis by (auto simp: cutovers_def split: AuditEvent.splits)
qed

lemma reversible_fence:
  assumes "cutover_reversible c db" "move_kept c db m"
  obtains p where "get_pointer (mv_stream m) db = Some p" "pp_fence p = mv_fence m" "pp_active p = Some (mv_to m)"
    "pp_previous p = None \<or> pp_previous p = Some (mv_from m) \<and> served (mv_stream m) (mv_from m) db"
    "present (mv_stream m) (mv_from m) db" "\<forall>i. mv_from_previous m = Some i \<longrightarrow> present (mv_stream m) i db" "mv_from m \<noteq> mv_to m"
proof -
  from assms(2) obtain p where p: "get_pointer (mv_stream m) db = Some p" "(mv_stream m, mv_fence m) \<in> set (cu_fences c)"
    "pp_fence p = mv_fence m \<longrightarrow> pp_active p = Some (mv_to m) \<and>
       (pp_previous p = None \<or> pp_previous p = Some (mv_from m) \<and> served (mv_stream m) (mv_from m) db)"
    unfolding move_kept_def by blast
  have "pp_fence p = mv_fence m" using assms(1) p(1,2) by (auto simp: cutover_reversible_def list_all_iff fence_of_def)
  with p assms that [of p] show thesis unfolding move_kept_def by blast
qed

lemma revert_plan_ready:
  assumes "cutover_reversible c db" "move_kept c db m" "revert_plan gov db m = Inr plan"
  shows "revert_ready plan db" "fst plan = m" "plan = (m, the (get_pointer (mv_stream m) db), the (get_version (mv_from m) db))"
proof -
  from assms(3) obtain q v where q: "get_pointer (mv_stream m) db = Some q" "pp_active q = Some (mv_to m)" "pp_previous q = Some (mv_from m)"
    "get_version (mv_from m) db = Some v" "plan = (m, q, v)" by (auto simp: revert_plan_def split: option.splits if_splits)
  obtain p where p: "get_pointer (mv_stream m) db = Some p" "pp_fence p = mv_fence m" "pp_active p = Some (mv_to m)"
    "pp_previous p = None \<or> pp_previous p = Some (mv_from m) \<and> served (mv_stream m) (mv_from m) db"
    "present (mv_stream m) (mv_from m) db" "\<forall>i. mv_from_previous m = Some i \<longrightarrow> present (mv_stream m) i db" "mv_from m \<noteq> mv_to m"
    by (rule reversible_fence [OF assms(1,2)])
  with q show "revert_ready plan db" "fst plan = m" by (auto simp: revert_ready_def)
  show "plan = (m, the (get_pointer (mv_stream m) db), the (get_version (mv_from m) db))" using q by simp
qed

lemma revert_plan_available:
  assumes wf: "wf_core gov db" and "cutover_reversible c db" "move_kept c db m"
    and "\<And>p. get_pointer (mv_stream m) db = Some p \<Longrightarrow> pp_previous p \<noteq> None"
  shows "\<exists>plan. revert_plan gov db m = Inr plan"
proof -
  obtain p where p: "get_pointer (mv_stream m) db = Some p" "pp_fence p = mv_fence m" "pp_active p = Some (mv_to m)"
    "pp_previous p = None \<or> pp_previous p = Some (mv_from m) \<and> served (mv_stream m) (mv_from m) db"
    "present (mv_stream m) (mv_from m) db" "\<forall>i. mv_from_previous m = Some i \<longrightarrow> present (mv_stream m) i db" "mv_from m \<noteq> mv_to m"
    by (rule reversible_fence [OF assms(2,3)])
  have target: "intact_target gov (mv_stream m) i db" if "present (mv_stream m) i db" for i
  proof -
    from that obtain u where u: "get_version i db = Some u" "pv_stream u = mv_stream m" by (auto simp: present_def)
    moreover have "intact gov u" using versions_okD [OF wf u(1)] by blast
    ultimately show ?thesis by (simp add: intact_target_def intact_def)
  qed
  have "present (mv_stream m) (mv_to m) db" using pointers_presentD [OF wf p(1)] p(3) by blast
  then obtain w where "get_version (mv_to m) db = Some w" by (auto simp: present_def)
  moreover obtain v where "get_version (mv_from m) db = Some v" using p(5) by (auto simp: present_def)
  moreover have "list_all (\<lambda>i. intact_target gov (mv_stream m) i db) (mv_from m # (case mv_from_previous m of None \<Rightarrow> [] | Some i \<Rightarrow> [i]))"
    using target p(5,6) by (auto split: option.splits)
  ultimately show ?thesis using p(1,3,4) assms(4) [OF p(1)] by (simp add: revert_plan_def)
qed

lemma revert_cases:
  assumes ok: "control_ok gov db" and r: "revert_season_cutover gov season job reason now db = Inr (ms, db')"
  obtains c plans db1 where "cutover_record season job db = Some c" "ms = cu_moved c" "cutover_reversible c db"
    "map fst plans = cu_moved c" "\<forall>plan \<in> set plans. revert_ready plan db" "distinct (map (mv_stream \<circ> fst) plans)"
    "fold_res (\<lambda>plan db. Inr (revert_move now plan db)) plans db = Inr db1"
    "db' = db1\<lparr>db_audits := db_audits db1 @ [CutoverRevertAudit job]\<rparr>"
proof -
  from r obtain c plans where c: "cutover_record season job db = Some c" "ms = cu_moved c" "cutover_reversible c db"
    and pl: "map_res (revert_plan gov db) (cu_moved c) = Inr plans"
    and db': "db' = (fold (revert_move now) plans db)\<lparr>db_audits := db_audits (fold (revert_move now) plans db) @ [CutoverRevertAudit job]\<rparr>"
    by (auto simp: revert_season_cutover_def Let_def result_simps split: option.splits if_splits)
  have ck: "cutover_ok c db" using ok recorded [OF c(1)] by (simp add: control_ok_def)
  then have kept: "move_kept c db m" if "m \<in> set (cu_moved c)" for m using that by (simp add: cutover_ok_def)
  have fsts: "map fst plans = cu_moved c"
    using pl unfolding map_res_Inr_iff by (induction rule: list_all2_induct) (auto simp: revert_plan_def split: option.splits if_splits)
  have "revert_ready plan db" if "plan \<in> set plans" for plan
    using map_res_mem [OF pl that] revert_plan_ready(1) [OF c(3) kept] by blast
  moreover have "distinct (map (mv_stream \<circ> fst) plans)" using ck fsts unfolding cutover_ok_def by (metis list.map_comp)
  ultimately show thesis using that [of c plans "fold (revert_move now) plans db"] c fsts db' by (simp add: fold_res_total)
qed

lemma sound_revert:
  assumes ok: "control_ok gov db" and "revert_season_cutover gov season job reason now db = Inr (ms, db')"
  shows "sound gov db db'"
    "m \<in> set ms \<Longrightarrow> \<exists>p q. get_pointer (mv_stream m) db = Some p \<and> get_pointer (mv_stream m) db' = Some q \<and>
       pp_active q = Some (mv_from m) \<and> pp_previous q = mv_from_previous m \<and> pp_fence q = pp_fence p + 1 \<and> publication_withdrawn (mv_to m) db'"
    "k \<notin> mv_stream ` set ms \<Longrightarrow> get_pointer k db' = get_pointer k db"
proof -
  have wf: "wf_core gov db" using ok by (simp add: control_ok_def)
  obtain c plans db1 where c: "cutover_record season job db = Some c" "ms = cu_moved c" "cutover_reversible c db"
    "map fst plans = cu_moved c" "\<forall>plan \<in> set plans. revert_ready plan db" "distinct (map (mv_stream \<circ> fst) plans)"
    "fold_res (\<lambda>plan db. Inr (revert_move now plan db)) plans db = Inr db1"
    "db' = db1\<lparr>db_audits := db_audits db1 @ [CutoverRevertAudit job]\<rparr>" by (rule revert_cases [OF assms])
  note run = reverts.run [OF wf c(5,6,7)]
  have core: "core db' = core db1" unfolding c(8) by (auto simp: core_def cutovers_def)
  show "sound gov db db'" by (rule sound_core_trans [OF run(2) core])
  have ms: "set ms = fst ` set plans" using c(2,4) by (metis list.set_map)
  show "get_pointer k db' = get_pointer k db" if "k \<notin> mv_stream ` set ms"
    using run(4) [of k] that by (auto simp: core_observed(2) [OF core] ms image_image comp_def)
  assume "m \<in> set ms"
  then obtain p v where "(m, p, v) \<in> set plans" by (auto simp: ms)
  then have "revert_ready (m, p, v) db" "reverted_to now (m, p, v) db1" using c(5) run(3) by blast+
  then show "\<exists>p q. get_pointer (mv_stream m) db = Some p \<and> get_pointer (mv_stream m) db' = Some q \<and>
       pp_active q = Some (mv_from m) \<and> pp_previous q = mv_from_previous m \<and> pp_fence q = pp_fence p + 1 \<and> publication_withdrawn (mv_to m) db'"
    using get_version_id [of "mv_from m" db v]
    by (auto simp: reverted_to_def revert_ready_def core_observed(2) [OF core] withdrawn_iff core_observed(3,4) [OF core])
qed

section \<open>Retention\<close>

lemma keep_reason_None:
  assumes "keep_reason_of gov now db vs v = None"
  shows "get_pointer (pv_stream v) db = Some p \<Longrightarrow> pp_active p \<noteq> Some (pv_id v) \<and> pp_previous p \<noteq> Some (pv_id v)"
    "pv_status v \<noteq> CANDIDATE" "\<not> season_latest db (pv_stream v) (pv_id v)" "pv_id v \<notin> set (reversible_cutover_targets db)"
  using assms by (auto simp: keep_reason_of_def Let_def split: if_splits option.splits)

text \<open>The versions a recovery may still need: what a pointer serves or could fall back to, a
  candidate, and what the revert of a cutover restores.\<close>

definition recovery_needs :: "string \<Rightarrow> control_db \<Rightarrow> bool" where
  "recovery_needs i db \<longleftrightarrow>
     (\<exists>k p. get_pointer k db = Some p \<and> (pp_active p = Some i \<or> pp_previous p = Some i)) \<or>
     (\<exists>v. get_version i db = Some v \<and> pv_status v = CANDIDATE) \<or> i \<in> set (reversible_cutover_targets db)"

lemma prune_effect:
  assumes wf: "wf_core gov db"
  obtains doomed where "snd (prune_history gov stream_key season now db) = delete_versions doomed db"
    "\<forall>i \<in> set doomed. \<not> recovery_needs i db"
proof -
  let ?locked = "filter (\<lambda>k. case stream_key of None \<Rightarrow> True | Some k' \<Rightarrow> k = k') (map ps_key (db_streams db))"
  let ?vs = "filter (\<lambda>v. pv_stream v \<in> set ?locked \<and> (case season of None \<Rightarrow> True | Some s \<Rightarrow> pv_season v = s)) (db_versions db)"
  define doomed where "doomed = map fst (filter (\<lambda>r. snd r = None) (map (\<lambda>v. (pv_id v, keep_reason_of gov now db ?vs v)) ?vs))"
  have "\<not> recovery_needs i db" if "i \<in> set doomed" for i
  proof -
    from that obtain v where v: "v \<in> set (db_versions db)" "pv_id v = i" "keep_reason_of gov now db ?vs v = None"
      by (auto simp: doomed_def)
    have g: "get_version i db = Some v" using get_version_mem [OF wf v(1)] v(2) by simp
    note n = keep_reason_None [OF v(3)]
    have "\<not> (pp_active p = Some i \<or> pp_previous p = Some i)" if p: "get_pointer k db = Some p" for k p
    proof
      assume a: "pp_active p = Some i \<or> pp_previous p = Some i"
      have "pv_stream v = k" using pointers_presentD [OF wf p a] g by (simp add: present_def)
      with n(1) [of p] p v(2) a show False by simp
    qed
    with n(2,4) g v(2) show ?thesis by (auto simp: recovery_needs_def)
  qed
  moreover have "snd (prune_history gov stream_key season now db) = delete_versions doomed db"
    by (simp add: prune_history_def Let_def doomed_def)
  ultimately show thesis using that by blast
qed

lemma delete_keeps_core:
  assumes wf: "wf_core gov db" and n: "\<forall>i \<in> set doomed. \<not> recovery_needs i db"
  shows "wf_core gov (delete_versions doomed db)"
proof -
  let ?db = "delete_versions doomed db"
  have wd: "publication_withdrawn i ?db = publication_withdrawn i db" for i by (simp add: withdrawn_iff table_simps)
  have "distinct (map pv_id (db_versions db))" using wf by (simp add: wf_but_def ids_unique_def)
  then have "ids_unique ?db" by (simp add: ids_unique_def delete_versions_def distinct_map_filter)
  moreover have "pointers_present ?db"
    unfolding pointers_present_def
  proof (intro allI impI)
    fix k p i assume p: "get_pointer k ?db = Some p" "pp_active p = Some i \<or> pp_previous p = Some i"
    then have "get_pointer k db = Some p" by (simp add: table_simps)
    with p(2) have "present k i db" "i \<notin> set doomed" using pointers_presentD [OF wf] n unfolding recovery_needs_def by blast+
    then show "present k i ?db" by (simp add: present_def table_simps)
  qed
  moreover have "actives_stand {} ?db" "generations_ok ?db"
    using wf by (simp_all add: wf_but_def actives_stand_def generations_ok_def table_simps)
  moreover have "versions_ok gov ?db"
    unfolding versions_ok_def version_updates_observed wd
  proof (intro allI impI)
    fix i v assume "get_version i ?db = Some v"
    then have "get_version i db = Some v" by (simp add: table_simps split: if_splits)
    from versions_okD [OF wf this] show "intact gov v \<and> (pv_status v = CANDIDATE \<longrightarrow> (\<forall>k. \<not> listed_in k i db)) \<and>
      (pv_status v = ACTIVE \<longrightarrow> \<not> publication_withdrawn i db) \<and> (\<forall>k. listed_in k i db \<longrightarrow> pv_stream v = k)" .
  qed
  ultimately show ?thesis by (simp add: wf_but_def)
qed

lemma reversible_targets:
  assumes "c \<in> cutovers db" "cutover_reversible c db" "m \<in> set (cu_moved c)" "mv_from m = i \<or> mv_from_previous m = Some i"
  shows "i \<in> set (reversible_cutover_targets db)"
proof -
  have "SeasonCutoverAudit c \<in> set (db_audits db)" using assms(1) by (simp add: cutovers_def)
  then show ?thesis using assms(2-4) unfolding reversible_cutover_targets_def by (force split: AuditEvent.splits option.splits)
qed

lemma control_ok_prune:
  assumes ok: "control_ok gov db" shows "control_ok gov (snd (prune_history gov stream_key season now db))"
proof -
  have wf: "wf_core gov db" using ok by (simp add: control_ok_def)
  from prune_effect [OF wf] obtain doomed where d: "snd (prune_history gov stream_key season now db) = delete_versions doomed db"
    "\<forall>i \<in> set doomed. \<not> recovery_needs i db" .
  have "cutover_ok c (delete_versions doomed db)" if c: "c \<in> cutovers db" for c
  proof (rule cutover_ok_cong [of _ db])
    show "cutover_ok c db" using ok c by (simp add: control_ok_def)
    fix m i assume "m \<in> set (cu_moved c)" "cutover_reversible c db" "mv_from m = i \<or> mv_from_previous m = Some i" "present (mv_stream m) i db"
    moreover from this have "recovery_needs i db" using reversible_targets [OF c] unfolding recovery_needs_def by blast
    ultimately show "present (mv_stream m) i (delete_versions doomed db)" using d(2) by (auto simp: present_def table_simps)
  qed (simp_all add: table_simps)
  with delete_keeps_core [OF wf d(2)] show ?thesis by (simp add: control_ok_def d(1) table_simps)
qed

end
