(* ===== verification/Publication_Control.thy ===== *)
theory Publication_Control
  imports Publication_Cutover
begin

text \<open>
  The control plane of publications as a transition system: every operation of the service is a
  step, in any order, with whatever happens in between to the tables it only reads. The theory
  states what holds of every reachable state and across any sequence of steps.
\<close>

section \<open>Steps\<close>

inductive pub_step :: "governance \<Rightarrow> control_db \<Rightarrow> control_db \<Rightarrow> bool" for gov where
  register: "register_stream row enabled db = Inr db' \<Longrightarrow> pub_step gov db db'"
| activate: "activate_stream gov a now db = Inr db' \<Longrightarrow> pub_step gov db db'"
| compose: "fresh uid db \<Longrightarrow> compose_active gov uid c now db = Inr (i, db') \<Longrightarrow> pub_step gov db db'"
| candidate: "fresh uid db \<Longrightarrow> compose_inactive_ledger gov uid c now db = Inr (i, db') \<Longrightarrow> pub_step gov db db'"
| recompose: "draws uids db \<Longrightarrow> recompose_ledger_batch gov uids items now db = Inr (ids, db') \<Longrightarrow> pub_step gov db db'"
| repair: "draws uids db \<Longrightarrow> promote_repair_group gov uids mid prepare now db = Inr db' \<Longrightarrow> pub_step gov db db'"
| promote: "promote_publication_family gov promotions actor reason vp vf now db = Inr (ids, db') \<Longrightarrow> pub_step gov db db'"
| roll_back: "fresh uid db \<Longrightarrow> rollback gov uid k reason expected now db = Inr (i, db') \<Longrightarrow> pub_step gov db db'"
| roll_back_family: "draws uids db \<Longrightarrow> rollback_publication_family gov uids ks reason expected vp vf now db = Inr (ids, db') \<Longrightarrow>
    pub_step gov db db'"
| cutover: "cutover_season gov job season actor reason expected leave now db = Inr (c, db') \<Longrightarrow> pub_step gov db db'"
| revert: "revert_season_cutover gov season job reason now db = Inr (ms, db') \<Longrightarrow> pub_step gov db db'"
| prune: "pub_step gov db (snd (prune_history gov stream_key season now db))"
| elsewhere: "core db' = core db \<Longrightarrow> pub_step gov db db'"

definition keyed_step :: "governance \<Rightarrow> control_db \<Rightarrow> control_db \<Rightarrow> bool" where
  "keyed_step gov db db' \<longleftrightarrow> control_ok gov db \<and> schema db \<and> pub_step gov db db'"

inductive pub_reachable :: "governance \<Rightarrow> control_db \<Rightarrow> bool" for gov where
  empty: "core db = ([], [], [], {}) \<Longrightarrow> pub_reachable gov db"
| step: "pub_reachable gov db \<Longrightarrow> schema db \<Longrightarrow> pub_step gov db db' \<Longrightarrow> pub_reachable gov db'"

text \<open>Every step but a cutover and a prune keeps what was there; a cutover adds its record, and a
  prune deletes versions that no recovery needs.\<close>

lemma step_effect:
  assumes ok: "control_ok gov db" and sc: "schema db" and "pub_step gov db db'"
  obtains "sound gov db db'"
    | db1 c where "sound gov db db1" "db' = db1\<lparr>db_audits := db_audits db1 @ [SeasonCutoverAudit c]\<rparr>" "control_ok gov db'"
    | doomed where "db' = delete_versions doomed db" "\<forall>i \<in> set doomed. \<not> recovery_needs i db" "control_ok gov db'"
proof -
  have wf: "wf_core gov db" and gk: "group_keys db" using ok sc by (simp_all add: control_ok_def schema_def)
  from assms(3) show thesis
  proof cases
    case (cutover job season actor reason expected leave now c)
    from cutover_effect(1) [OF wf sc cutover] obtain db1 where "sound gov db db1" "db' = db1\<lparr>db_audits := db_audits db1 @ [SeasonCutoverAudit c]\<rparr>"
      by blast
    with control_ok_cutover [OF ok sc cutover] show thesis by (intro that(2))
  next
    case (prune stream_key season now)
    obtain doomed where "snd (prune_history gov stream_key season now db) = delete_versions doomed db" "\<forall>i \<in> set doomed. \<not> recovery_needs i db"
      by (rule prune_effect [OF wf])
    then show thesis using control_ok_prune [OF ok, of stream_key season now] prune by (intro that(3)) simp_all
  next
    case register then show thesis by (intro that(1) sound_register [OF wf])
  next
    case activate then show thesis by (intro that(1) sound_activate_stream [OF wf])
  next
    case compose then show thesis by (intro that(1) sound_compose_active [OF wf])
  next
    case candidate then show thesis by (intro that(1) sound_inactive [OF wf])
  next
    case recompose then show thesis by (intro that(1) sound_recompose_batch [OF wf])
  next
    case repair then show thesis by (intro that(1) sound_promote_repair_group [OF wf _ gk])
  next
    case promote then show thesis by (intro that(1) sound_promote [OF wf])
  next
    case roll_back then show thesis by (intro that(1) sound_rollback [OF wf])
  next
    case roll_back_family then show thesis by (intro that(1) sound_rollback_family [OF wf])
  next
    case revert then show thesis by (intro that(1) sound_revert(1) [OF ok])
  next
    case elsewhere then show thesis by (intro that(1) sound_core [OF wf])
  qed
qed

lemma control_ok_step: "control_ok gov db \<Longrightarrow> schema db \<Longrightarrow> pub_step gov db db' \<Longrightarrow> control_ok gov db'"
  using step_effect [of gov db db'] control_ok_sound [of gov db db'] by blast

lemma control_ok_empty: assumes "core db = ([], [], [], {})" shows "control_ok gov db"
proof -
  have t: "db_versions db = []" "db_pointers db = []" "db_history db = []" "cutovers db = {}" using assms by (simp_all add: core_def)
  then have "wf_core gov db" by (simp add: wf_but_def ids_unique_def wf_parts get_pointer_def get_version_def generations_def)
  then show ?thesis by (simp add: control_ok_def t)
qed

lemma reachable_ok: "pub_reachable gov db \<Longrightarrow> control_ok gov db"
  by (induction rule: pub_reachable.induct) (auto intro: control_ok_empty control_ok_step)

lemma step_observed:
  assumes "keyed_step gov db db'"
  shows "publication_withdrawn i db \<Longrightarrow> publication_withdrawn i db'"
    "get_pointer k db = Some p \<Longrightarrow> \<exists>q. get_pointer k db' = Some q \<and> pp_fence p \<le> pp_fence q \<and> (pp_fence q = pp_fence p \<longrightarrow> pp_active q = pp_active p)"
proof -
  have k: "(publication_withdrawn i db \<longrightarrow> publication_withdrawn i db') \<and> (\<forall>p. get_pointer k db = Some p \<longrightarrow>
      (\<exists>q. get_pointer k db' = Some q \<and> pp_fence p \<le> pp_fence q \<and> (pp_fence q = pp_fence p \<longrightarrow> pp_active q = pp_active p)))"
    if "keeps db db'" for db db'
  proof (intro conjI allI impI)
    show "publication_withdrawn i db'" if "publication_withdrawn i db" using \<open>keeps db db'\<close> that unfolding keeps_but_def by blast
    show "\<exists>q. get_pointer k db' = Some q \<and> pp_fence p \<le> pp_fence q \<and> (pp_fence q = pp_fence p \<longrightarrow> pp_active q = pp_active p)"
      if "get_pointer k db = Some p" for p using keeps_pointerD [OF \<open>keeps db db'\<close> that] by metis
  qed
  have "(publication_withdrawn i db \<longrightarrow> publication_withdrawn i db') \<and> (\<forall>p. get_pointer k db = Some p \<longrightarrow>
      (\<exists>q. get_pointer k db' = Some q \<and> pp_fence p \<le> pp_fence q \<and> (pp_fence q = pp_fence p \<longrightarrow> pp_active q = pp_active p)))"
  proof (rule step_effect [of gov db db'])
    show "control_ok gov db" "schema db" "pub_step gov db db'" using assms by (simp_all add: keyed_step_def)
  next
    assume "sound gov db db'"
    then show ?thesis by (intro k) (simp add: sound_def)
  next
    fix db1 c assume "sound gov db db1" and e: "db' = db1\<lparr>db_audits := db_audits db1 @ [SeasonCutoverAudit c]\<rparr>"
    then have "keeps db db1" by (simp add: sound_def)
    from k [OF this] show ?thesis by (simp add: e get_pointer_def publication_withdrawn_def)
  next
    fix doomed assume "db' = delete_versions doomed db"
    then show ?thesis by (simp add: withdrawn_iff table_simps)
  qed
  then show "publication_withdrawn i db \<Longrightarrow> publication_withdrawn i db'"
    "get_pointer k db = Some p \<Longrightarrow> \<exists>q. get_pointer k db' = Some q \<and> pp_fence p \<le> pp_fence q \<and> (pp_fence q = pp_fence p \<longrightarrow> pp_active q = pp_active p)"
    by blast+
qed

section \<open>Recovery after a prune\<close>

abbreviation outcome :: "control_error + 'a \<times> control_db \<Rightarrow> control_error + 'a" where
  "outcome \<equiv> map_sum id fst"

lemma outcome_const: "outcome (and_then x (\<lambda>y. Inr (a, h y))) = map_sum id (\<lambda>_. a) x"
  by (cases x) simp_all

lemma authority_deleted: "verify_publication_authority gov v (delete_versions doomed db) = verify_publication_authority gov v db"
proof -
  have t: "db_manifests (delete_versions doomed db) = db_manifests db" "db_catalogs (delete_versions doomed db) = db_catalogs db"
    by (simp_all add: delete_versions_def)
  show ?thesis unfolding verify_publication_authority_def manifest_authority_def t by (rule refl)
qed

lemma target_check_deleted:
  "assert_rollback_target_not_revoked k v (delete_versions doomed db) = assert_rollback_target_not_revoked k v db"
  by (simp add: assert_rollback_target_not_revoked_def delete_versions_def)

lemma restore_outcome:
  "outcome (and_then (restore_previous gov uid p prior current reason now db) (\<lambda>db'. Inr (uid, db'))) =
   (if pv_stream prior = PUBLISHED_SEASON_STREAM \<and> \<not> gv_projects gov (pv_season prior) (pv_payload prior)
    then refused ''publication_payload_invalid'' else Inr uid)"
  by (simp add: restore_previous_def Let_def add_version_def write_publication_projection_def)

lemma rollback_deleted:
  assumes "\<forall>i \<in> set doomed. \<not> recovery_needs i db"
  shows "outcome (rollback gov uid k reason expected now (delete_versions doomed db)) = outcome (rollback gov uid k reason expected now db)"
proof (cases "get_pointer k db")
  case None
  then show ?thesis by (simp add: rollback_def table_simps)
next
  case (Some p)
  have "i \<notin> set doomed" if "pp_active p = Some i \<or> pp_previous p = Some i" for i
    using assms Some that unfolding recovery_needs_def by blast
  then have a: "active_version p (delete_versions doomed db) = active_version p db"
    and v: "\<And>i. pp_previous p = Some i \<Longrightarrow> get_version i (delete_versions doomed db) = get_version i db"
    by (auto simp: active_version_def table_simps split: option.splits)
  show ?thesis
  proof (cases "pp_previous p")
    case None
    with Some show ?thesis by (simp add: rollback_def version_updates_observed(13))
  next
    case (Some i)
    have t: "outcome (and_then x f) = outcome (and_then x g)" if "\<And>y. outcome (f y) = outcome (g y)" for x :: "control_error + unit" and f g
      using that by (cases x) simp_all
    show ?thesis
      unfolding rollback_def version_updates_observed(13) \<open>get_pointer k db = Some p\<close> Some option.case a v [OF Some] authority_deleted target_check_deleted
      by (cases "get_version i db"; cases "active_version p db") (auto intro!: t simp: restore_outcome)
  qed
qed

lemma revert_plan_deleted:
  assumes n: "\<forall>i \<in> set doomed. \<not> recovery_needs i db" and c: "c \<in> cutovers db" "cutover_reversible c db" "m \<in> set (cu_moved c)"
  shows "revert_plan gov (delete_versions doomed db) m = revert_plan gov db m"
proof -
  have t: "i \<notin> set doomed" if "mv_from m = i \<or> mv_from_previous m = Some i" for i
    using reversible_targets [OF c that] n unfolding recovery_needs_def by blast
  have g: "get_version i (delete_versions doomed db) = get_version i db" "intact_target gov k i (delete_versions doomed db) = intact_target gov k i db"
    if "mv_from m = i \<or> mv_from_previous m = Some i" for i k using t [OF that] by (simp_all add: table_simps intact_target_def)
  have a: "get_version (mv_to m) (delete_versions doomed db) = get_version (mv_to m) db"
    if "get_pointer (mv_stream m) db = Some p" "pp_active p = Some (mv_to m)" for p
    using n that unfolding recovery_needs_def by (auto simp: table_simps)
  show ?thesis
  proof (cases "\<exists>p. get_pointer (mv_stream m) db = Some p \<and> pp_active p = Some (mv_to m)")
    case True
    then obtain p where p: "get_pointer (mv_stream m) db = Some p" "pp_active p = Some (mv_to m)" by blast
    show ?thesis unfolding revert_plan_def version_updates_observed(13) a [OF p] g(1) [OF disjI1 [OF refl]] g(2) [OF disjI1 [OF refl]]
      using g(2) by (cases "mv_from_previous m") (auto simp: g(2) split: option.splits)
  next
    case False
    then show ?thesis by (auto simp: revert_plan_def version_updates_observed(13) split: option.splits)
  qed
qed

lemma revert_deleted:
  assumes "\<forall>i \<in> set doomed. \<not> recovery_needs i db"
  shows "outcome (revert_season_cutover gov season job reason now (delete_versions doomed db)) =
    outcome (revert_season_cutover gov season job reason now db)"
proof -
  have r: "cutover_record season job (delete_versions doomed db) = cutover_record season job db"
    by (simp add: cutover_record_def delete_versions_def)
  have v: "cutover_reversible c (delete_versions doomed db) = cutover_reversible c db" for c
    by (simp add: cutover_reversible_def fence_of_def table_simps)
  have "map_res (revert_plan gov (delete_versions doomed db)) (cu_moved c) = map_res (revert_plan gov db) (cu_moved c)"
    if "cutover_record season job db = Some c" "cutover_reversible c db" for c
    using revert_plan_deleted [OF assms _ that(2)] recorded [OF that(1)] by (intro map_res_cong [OF refl]) blast
  then show ?thesis
    by (cases "cutover_record season job db") (simp_all add: revert_season_cutover_def r v Let_def outcome_const)
qed

section \<open>Fences\<close>

abbreviation later :: "governance \<Rightarrow> control_db \<Rightarrow> control_db \<Rightarrow> bool" where
  "later gov \<equiv> (keyed_step gov)\<^sup>*\<^sup>*"

text \<open>An expectation of a stream's fence is a token: it can be met only while the pointer is at that
  generation.\<close>

definition fence_met :: "string \<times> int \<Rightarrow> control_db \<Rightarrow> bool" where
  "fence_met e db \<longleftrightarrow> map_option pp_fence (get_pointer (fst e) db) = Some (snd e)"

interpretation pointer_fence: fenced_lease "keyed_step gov" "\<lambda>db k. map_option pp_fence (get_pointer k db)" "\<lambda>e now. fence_met e" fst snd
  for gov
proof
  fix db db' k n assume s: "keyed_step gov db db'" and "map_option pp_fence (get_pointer k db) = Some n"
  then obtain p where "get_pointer k db = Some p" "pp_fence p = n" by auto
  with step_observed(2) [OF s] show "\<exists>m. map_option pp_fence (get_pointer k db') = Some m \<and> n \<le> m" by fastforce
qed (simp add: fence_met_def)

lemma later_observed:
  assumes "later gov db db'"
  shows "publication_withdrawn i db \<Longrightarrow> publication_withdrawn i db'"
    "get_pointer k db = Some p \<Longrightarrow> \<exists>q. get_pointer k db' = Some q \<and> pp_fence p \<le> pp_fence q \<and> (pp_fence q = pp_fence p \<longrightarrow> pp_active q = pp_active p)"
proof -
  show "publication_withdrawn i db'" if "publication_withdrawn i db"
    using assms that by (induction rule: rtranclp_induct) (auto intro: step_observed(1))
  show "\<exists>q. get_pointer k db' = Some q \<and> pp_fence p \<le> pp_fence q \<and> (pp_fence q = pp_fence p \<longrightarrow> pp_active q = pp_active p)"
    if "get_pointer k db = Some p"
    using assms that
  proof (induction rule: rtranclp_induct)
    case (step y z)
    then obtain q where q: "get_pointer k y = Some q" "pp_fence p \<le> pp_fence q" "pp_fence q = pp_fence p \<longrightarrow> pp_active q = pp_active p" by blast
    obtain r where r: "get_pointer k z = Some r" "pp_fence q \<le> pp_fence r" "pp_fence r = pp_fence q \<longrightarrow> pp_active r = pp_active q"
      using step_observed(2) [OF step.hyps(2) q(1)] by blast
    show ?case
    proof (intro exI conjI impI)
      show "pp_fence p \<le> pp_fence r" using q(2) r(2) by simp
      assume e: "pp_fence r = pp_fence p"
      then have "pp_fence r = pp_fence q" "pp_fence q = pp_fence p" using q(2) r(2) by simp_all
      then show "pp_active r = pp_active p" using q(3) r(3) by simp
    qed (rule r(1))
  qed blast
qed

lemma later_ok: "later gov db db' \<Longrightarrow> control_ok gov db \<Longrightarrow> control_ok gov db'"
  by (induction rule: rtranclp_induct) (auto simp: keyed_step_def intro: control_ok_step)

lemma compose_at_other_fence:
  assumes "get_pointer (co_stream c) db = Some p" "co_expected_fence c = Some f" "pp_fence p \<noteq> f"
    "\<not> co_derive_fence c" "co_pointer_expectation c = None"
  shows "isl (compose_active gov uid c now db)"
proof -
  have c: "compose_claimed gov uid s c (Some f) now db = refused ''stale_composition''" for s
    unfolding compose_claimed_def claimed_pointer_def assms(1,5) using assms(3) by simp
  show ?thesis
  proof (cases "get_stream (co_stream c) db")
    case (Some s)
    have "isl (case (Some p, v) of (Some p, Some v) \<Rightarrow> if same_composition gov c v db then if Some f \<noteq> None \<and> Some f \<noteq> Some (pp_fence p)
        then refused ''stale_composition'' else Inr (pv_id v, invalidate_corrected_ledger_versions (co_stream c) (co_season c) (co_corrected c) (pv_id v) now db)
        else compose_claimed gov uid s c (Some f) now db | _ \<Rightarrow> compose_claimed gov uid s c (Some f) now db)" for v
      using assms(3) by (cases v) (simp_all add: c)
    then show ?thesis
      unfolding compose_active_def Some Let_def assms(1,2) using assms(4)
      by (cases "refuse_empty_league_publication s (co_payload c)") (simp_all add: c)
  qed (simp add: compose_active_def)
qed

lemma rollback_at_other_fence:
  "get_pointer k db = Some p \<Longrightarrow> pp_fence p \<noteq> f \<Longrightarrow> isl (rollback gov uid k reason (Some f) now db)"
  by (auto simp: rollback_def isl_def split: option.splits)

lemma map_res_isl: "x \<in> set xs \<Longrightarrow> isl (f x) \<Longrightarrow> isl (map_res f xs)"
proof (induction xs)
  case (Cons y ys)
  then show ?case by (cases "f y"; cases "map_res f ys") auto
qed simp

lemma promotion_at_other_fence:
  assumes "get_pointer k db = Some p" "pp_fence p \<noteq> f" "item \<in> set promotions" "fp_stream item = k" "fp_expected_fence item = f"
  shows "isl (promote_publication_family gov promotions actor reason vp vf now db)"
proof -
  have "isl (promotion_plan gov vp item db)" using assms by (simp add: promotion_plan_def)
  then have "isl (map_res (\<lambda>item. promotion_plan gov vp item db) (sort_key fp_stream promotions))"
    by (rule map_res_isl [rotated]) (simp add: assms(3))
  then obtain e where "map_res (\<lambda>item. promotion_plan gov vp item db) (sort_key fp_stream promotions) = Inl e" by (auto simp: isl_def)
  then show ?thesis by (simp add: promote_publication_family_def Let_def)
qed

section \<open>A run of the control plane\<close>

text \<open>A small league: one stream, whose governing catalog lists one game of one team. The season
  2024-25 is served, 2025-26 is held as a candidate, a cutover moves to it and is reverted.\<close>

definition demo_gov :: governance where
  "demo_gov = \<lparr>gv_digest = (\<lambda>s. CHR ''#'' # s), gv_eastern_date = (\<lambda>t. t div day_us),
     gv_team_games = (\<lambda>_ _ _ _. Some [(7, [''g1''])]), gv_ledger_accepts = (\<lambda>_ _ _ _. None), gv_projects = (\<lambda>_ _. True),
     gv_decodes = (\<lambda>_ _ _ _. True), gv_log_rows = (\<lambda>_ _. [(''g1'', ''7'')]), gv_parity = (\<lambda>_ _ _. None),
     gv_rebound_failures = (\<lambda>_ _ _. False)\<rparr>"

definition demo_db :: "PublicationVersion list \<Rightarrow> PublicationObservation list \<Rightarrow> PublicationPointer list
    \<Rightarrow> PublicationPointerHistory list \<Rightarrow> PublicationActivation list \<Rightarrow> AuditEvent list \<Rightarrow> control_db" where
  "demo_db versions lineage pointers history activations audits =
     \<lparr>db_streams = [\<lparr>ps_key = ''player_game_logs'', ps_provider = ''ledger'', ps_completeness_rule = [], ps_enabled = True\<rparr>],
      db_versions = versions, db_lineage = lineage, db_projections = map pv_id versions, db_pointers = pointers, db_history = history,
      db_activations = activations, db_audits = audits, db_scopes = [(''o1'', JObj [(''game_id'', JStr ''g1'')])],
      db_manifests = [\<lparr>cm_id = ''m'', cm_status = ''active'', cm_season = ''2025-26'', cm_cutoff = 20,
        cm_scopes = [''canonical_game_ledger''], cm_accepted_versions = [1], cm_catalog = Some ''c'', cm_catalog_checksum = Some ''#k''\<rparr>],
      db_catalogs = [\<lparr>cp_id = ''c'', cp_type = ''event'', cp_season = ''2025-26'', cp_cutoff = 20, cp_complete = True,
        cp_checksum = ''#k'', cp_payload = ''k''\<rparr>], db_groups = [], db_jobs = []\<rparr>"

definition demo_composition :: "string \<Rightarrow> instant \<Rightarrow> string \<Rightarrow> int option \<Rightarrow> Composition" where
  "demo_composition season cutoff encoded fence =
     \<lparr>co_stream = ''player_game_logs'', co_season = season, co_cutoff = cutoff, co_encoded = encoded, co_payload = JStr encoded,
      co_expected_fence = fence, co_reason = Some ''run'', co_provenance_ids = [''o1''], co_provenance = Some [(''o1'', Some ''g1'')],
      co_corrected = None, co_authority = None, co_manifest = Some ''m'', co_derive_fence = False, co_discard = False,
      co_pointer_expectation = None, co_job = None\<rparr>"

definition demo_v1 :: PublicationVersion where
  "demo_v1 = \<lparr>pv_id = ''v1'', pv_stream = ''player_game_logs'', pv_season = ''2024-25'', pv_cutoff = 10, pv_version = 1,
     pv_status = ACTIVE, pv_checksum = ''#a'', pv_payload = ''a'', pv_manifest = None, pv_catalog = None, pv_catalog_checksum = None,
     pv_created = 1, pv_reason = Some ''run'', pv_fence = 1\<rparr>"

definition demo_v2 :: "version_status \<Rightarrow> int \<Rightarrow> PublicationVersion" where
  "demo_v2 status fence = \<lparr>pv_id = ''v2'', pv_stream = ''player_game_logs'', pv_season = ''2025-26'', pv_cutoff = 20, pv_version = 1,
     pv_status = status, pv_checksum = ''#b'', pv_payload = ''b'', pv_manifest = Some ''m'', pv_catalog = Some ''c'',
     pv_catalog_checksum = Some ''#k'', pv_created = 2, pv_reason = Some ''run'', pv_fence = fence\<rparr>"

definition demo_pointer :: "string \<Rightarrow> string option \<Rightarrow> int \<Rightarrow> instant \<Rightarrow> PublicationPointer" where
  "demo_pointer active previous fence updated =
     \<lparr>pp_stream = ''player_game_logs'', pp_active = Some active, pp_previous = previous, pp_fence = fence, pp_updated = updated\<rparr>"

definition demo_entry :: "string \<Rightarrow> string \<Rightarrow> int \<Rightarrow> instant \<Rightarrow> instant option \<Rightarrow> int option \<Rightarrow> PublicationPointerHistory" where
  "demo_entry publication season fence since revoked revoked_fence =
     \<lparr>ph_stream = ''player_game_logs'', ph_publication = publication, ph_season = season, ph_fence = fence, ph_activated = since,
      ph_revoked = revoked, ph_revoked_fence = revoked_fence, ph_retired = None, ph_retired_by = None\<rparr>"

definition demo_lineage :: "PublicationObservation list" where
  "demo_lineage = [\<lparr>po_publication = ''v1'', po_observation = ''o1'', po_role = ''completeness_evidence'', po_slice = None\<rparr>,
     \<lparr>po_publication = ''v2'', po_observation = ''o1'', po_role = ''ledger_game'', po_slice = Some ''g1''\<rparr>]"

definition demo_record :: CutoverRecord where
  "demo_record = \<lparr>cu_season = ''2025-26'', cu_moved = [\<lparr>mv_stream = ''player_game_logs'', mv_from = ''v1'', mv_from_previous = None,
     mv_from_season = ''2024-25'', mv_to = ''v2'', mv_fence = 2\<rparr>], cu_left_behind = [], cu_fences = [(''player_game_logs'', 2)],
     cu_job = ''job''\<rparr>"

definition demo_activations :: "PublicationActivation list" where
  "demo_activations = [\<lparr>pa_stream = ''player_game_logs'', pa_publication = ''v2'', pa_actor = ''op'', pa_reason = ''new season'', pa_fence = 2\<rparr>]"

definition demo_hold :: AuditEvent where
  "demo_hold = HeldAudit ''player_game_logs'' ''season_held'' ''2025-26'' ''v2'' None"

definition demo_registered :: control_db where "demo_registered = demo_db [] [] [] [] [] []"

definition demo_served :: control_db where
  "demo_served = demo_db [demo_v1] (take 1 demo_lineage) [demo_pointer ''v1'' None 1 1] [demo_entry ''v1'' ''2024-25'' 1 1 None None] [] []"

definition demo_held :: control_db where
  "demo_held = demo_db [demo_v1, demo_v2 CANDIDATE 0] demo_lineage [demo_pointer ''v1'' None 1 1]
     [demo_entry ''v1'' ''2024-25'' 1 1 None None] [] [demo_hold]"

definition demo_cut :: control_db where
  "demo_cut = demo_db [demo_v1, demo_v2 ACTIVE 2] demo_lineage [demo_pointer ''v2'' (Some ''v1'') 2 3]
     [demo_entry ''v1'' ''2024-25'' 1 1 None None, demo_entry ''v2'' ''2025-26'' 2 3 None None] demo_activations
     [demo_hold, SeasonCutoverAudit demo_record]"

definition demo_reverted :: control_db where
  "demo_reverted = demo_db [demo_v1, demo_v2 SUPERSEDED 2] demo_lineage [demo_pointer ''v1'' None 3 4]
     [demo_entry ''v1'' ''2024-25'' 1 1 None None, demo_entry ''v2'' ''2025-26'' 2 3 (Some 4) (Some 3), demo_entry ''v1'' ''2024-25'' 3 4 None None]
     demo_activations [demo_hold, SeasonCutoverAudit demo_record, CutoverRevertAudit ''job'']"

lemma demo_schema: "schema demo_registered" "schema demo_served" "schema demo_held" "schema demo_cut" "schema demo_reverted"
  by (simp_all add: schema_def group_keys_def demo_registered_def demo_served_def demo_held_def demo_cut_def demo_reverted_def demo_db_def)

lemma demo_runs:
  "compose_active demo_gov ''v1'' (demo_composition ''2024-25'' 10 ''a'' None) 1 demo_registered = Inr (''v1'', demo_served)"
  "compose_active demo_gov ''v2'' (demo_composition ''2025-26'' 20 ''b'' (Some 1)) 2 demo_served = Inr (''v2'', demo_held)"
  "cutover_season demo_gov ''job'' ''2025-26'' ''op'' ''new season'' None [] 3 demo_held = Inr (demo_record, demo_cut)"
  "revert_season_cutover demo_gov ''2025-26'' ''job'' ''bad data'' 4 demo_cut = Inr (cu_moved demo_record, demo_reverted)"
  by code_simp+

lemma demo_fresh: "fresh ''v1'' demo_registered" "fresh ''v2'' demo_served"
  by (simp_all add: fresh_iff names_def demo_registered_def demo_served_def demo_db_def demo_v1_def demo_entry_def)

lemmas demo_steps = pub_step.compose [OF demo_fresh(1) demo_runs(1)] pub_step.compose [OF demo_fresh(2) demo_runs(2)]
  pub_step.cutover [OF demo_runs(3)] pub_step.revert [OF demo_runs(4)]

lemma demo_reachable:
  "pub_reachable demo_gov demo_registered" "pub_reachable demo_gov demo_served" "pub_reachable demo_gov demo_held"
  "pub_reachable demo_gov demo_cut" "pub_reachable demo_gov demo_reverted"
proof -
  show r0: "pub_reachable demo_gov demo_registered"
    by (rule pub_reachable.empty) (simp add: core_def cutovers_def demo_registered_def demo_db_def)
  show r1: "pub_reachable demo_gov demo_served" by (rule pub_reachable.step [OF r0 demo_schema(1) demo_steps(1)])
  show r2: "pub_reachable demo_gov demo_held" by (rule pub_reachable.step [OF r1 demo_schema(2) demo_steps(2)])
  show r3: "pub_reachable demo_gov demo_cut" by (rule pub_reachable.step [OF r2 demo_schema(3) demo_steps(3)])
  show "pub_reachable demo_gov demo_reverted" by (rule pub_reachable.step [OF r3 demo_schema(4) demo_steps(4)])
qed

lemma demo_later: "later demo_gov demo_served demo_held" "later demo_gov demo_held demo_cut" "later demo_gov demo_cut demo_reverted"
  using demo_steps demo_schema demo_reachable by (auto simp: keyed_step_def reachable_ok intro!: r_into_rtranclp)

lemma demo_reason: "3 \<le> length (strip ''bad data'')"
  by code_simp

lemma demo_pointers:
  "get_pointer ''player_game_logs'' demo_served = Some (demo_pointer ''v1'' None 1 1)"
  "get_pointer ''player_game_logs'' demo_cut = Some (demo_pointer ''v2'' (Some ''v1'') 2 3)"
  "get_pointer ''player_game_logs'' demo_reverted = Some (demo_pointer ''v1'' None 3 4)"
  by (simp_all add: get_pointer_def demo_served_def demo_cut_def demo_reverted_def demo_db_def demo_pointer_def)

section \<open>What is served\<close>

text \<open>
  C1. What a stream serves is always accounted for: in every state any sequence of operations can
  reach, the publication a pointer names exists, belongs to that stream, is not a mere candidate,
  has a payload that matches its checksum, was never entirely withdrawn, and its activation is
  recorded at the pointer's generation and neither revoked nor retired; and no two activations of
  a stream share a generation.
\<close>

theorem served_publications_sound:
  assumes "pub_reachable gov db" and "get_pointer k db = Some p" and "pp_active p = Some i"
  shows "(\<exists>v. active_version p db = Some v \<and> pv_id v = i \<and> pv_stream v = k \<and> pv_status v \<noteq> CANDIDATE \<and>
      publication_payload_matches_checksum gov (pv_payload v) (pv_checksum v)) \<and>
    \<not> publication_withdrawn i db \<and>
    (\<exists>h \<in> set (db_history db). ph_stream h = k \<and> ph_publication h = i \<and> ph_fence h = pp_fence p \<and> eligible h) \<and>
    distinct (map (\<lambda>h. (ph_stream h, ph_fence h)) (db_history db))"
proof (intro conjI)
  have wf: "wf_core gov db" using reachable_ok [OF assms(1)] by (simp add: control_ok_def)
  have "present k i db" using pointers_presentD [OF wf assms(2)] assms(3) by blast
  then obtain v where v: "get_version i db = Some v" "pv_stream v = k" "pv_status v \<noteq> CANDIDATE" by (auto simp: present_def)
  have "intact gov v" using versions_okD [OF wf v(1)] by blast
  with v get_version_id [OF v(1)] show "\<exists>v. active_version p db = Some v \<and> pv_id v = i \<and> pv_stream v = k \<and> pv_status v \<noteq> CANDIDATE \<and>
      publication_payload_matches_checksum gov (pv_payload v) (pv_checksum v)" by (simp add: active_version_def assms(3) intact_def)
  have s: "stands_at k i (pp_fence p) db" using actives_standD [OF wf _ assms(2,3)] by simp
  then show "\<exists>h \<in> set (db_history db). ph_stream h = k \<and> ph_publication h = i \<and> ph_fence h = pp_fence p \<and> eligible h"
    by (simp add: stands_at_def)
  show "\<not> publication_withdrawn i db" using stands_served [OF s] by (auto simp: withdrawn_iff)
  show "distinct (map (\<lambda>h. (ph_stream h, ph_fence h)) (db_history db))" using generations_okD(1) [OF wf] by (simp add: generations_def)
qed

theorem served_publications_sound_witness:
  "\<not> publication_withdrawn ''v2'' demo_cut \<and> pub_reachable demo_gov demo_cut"
  using served_publications_sound [OF demo_reachable(4) demo_pointers(2)] demo_reachable(4)
  by (simp add: demo_pointer_def)

text \<open>
  C2. A withdrawn publication never comes back: once every activation of a publication has been
  withdrawn, it stays withdrawn through every later operation, no stream ever serves it again, and
  a rollback onto it is refused.
\<close>

theorem withdrawn_never_served:
  assumes "pub_reachable gov db" and "publication_withdrawn i db" and "later gov db db'"
  shows "publication_withdrawn i db' \<and> (\<forall>k p. get_pointer k db' = Some p \<longrightarrow> pp_active p \<noteq> Some i \<and>
    (pp_previous p = Some i \<longrightarrow> isl (rollback gov uid k reason expected now db')))"
proof (intro conjI allI impI)
  show w: "publication_withdrawn i db'" by (rule later_observed(1) [OF assms(3,2)])
  have wf: "wf_core gov db'" using later_ok [OF assms(3) reachable_ok [OF assms(1)]] by (simp add: control_ok_def)
  show "pp_active p \<noteq> Some i" if p: "get_pointer k db' = Some p" for k p
  proof
    assume "pp_active p = Some i"
    then have "stands_at k i (pp_fence p) db'" using actives_standD [OF wf _ p] by simp
    from stands_served [OF this] w show False by (auto simp: withdrawn_iff)
  qed
  fix k p assume p: "get_pointer k db' = Some p" "pp_previous p = Some i"
  show "isl (rollback gov uid k reason expected now db')"
  proof (rule ccontr)
    assume "\<not> ?thesis"
    then obtain r where r: "rollback gov uid k reason expected now db' = Inr r" by (metis isl_def sum.exhaust)
    then obtain prior where 1: "pp_previous p = Some (pv_id prior)" "get_version (pv_id prior) db' = Some prior"
      "\<not> (listed_in k (pv_id prior) db' \<and> \<not> served k (pv_id prior) db')"
      using rollback_cases [of gov uid k reason expected now db' "fst r" "snd r"] p(1) by (metis option.inject prod.collapse)
    have i: "pv_id prior = i" using 1(1) p(2) by simp
    have "pv_stream prior = k" using pointers_presentD [OF wf p(1), of "pv_id prior"] 1(1,2) by (simp add: present_def)
    then have "listed_in k i db'" using w versions_okD [OF wf 1(2)] unfolding i withdrawn_iff by blast
    with 1(3) w show False by (auto simp: i withdrawn_iff)
  qed
qed

theorem withdrawn_never_served_witness:
  "publication_withdrawn ''v2'' demo_reverted \<and>
   publication_withdrawn ''v2'' (snd (prune_history demo_gov None None 5 demo_reverted))"
proof -
  have w: "publication_withdrawn ''v2'' demo_reverted" by code_simp
  have "later demo_gov demo_reverted (snd (prune_history demo_gov None None 5 demo_reverted))"
    using demo_schema(5) reachable_ok [OF demo_reachable(5)] pub_step.prune by (intro r_into_rtranclp) (auto simp: keyed_step_def)
  from withdrawn_never_served [OF demo_reachable(5) w this] w show ?thesis by simp
qed

section \<open>Recovery\<close>

abbreviation shown :: "string \<Rightarrow> control_db \<Rightarrow> (string option \<times> string option) option" where
  "shown k db \<equiv> map_option (\<lambda>p. (pp_active p, pp_previous p)) (get_pointer k db)"

lemma revert_available:
  assumes ok: "control_ok gov db" and c: "cutover_record season job db = Some c" "cu_moved c \<noteq> []" "cutover_reversible c db"
    and p: "\<forall>m \<in> set (cu_moved c). \<forall>p. get_pointer (mv_stream m) db = Some p \<longrightarrow> pp_previous p \<noteq> None"
    and "3 \<le> length (strip reason)"
  shows "\<exists>db'. revert_season_cutover gov season job reason now db = Inr (cu_moved c, db')"
proof -
  have wf: "wf_core gov db" and kept: "move_kept c db m" if "m \<in> set (cu_moved c)" for m
    using ok recorded [OF c(1)] that by (auto simp: control_ok_def cutover_ok_def)
  have av: "\<exists>plan. revert_plan gov db m = Inr plan" if "m \<in> set (cu_moved c)" for m
    using revert_plan_available [OF wf c(3) kept] p that by blast
  have "\<exists>plans. map_res (revert_plan gov db) ms = Inr plans" if "set ms \<subseteq> set (cu_moved c)" for ms
    using that
  proof (induction ms)
    case (Cons m ms)
    then show ?case using av [of m] by auto
  qed simp
  then obtain plans where "map_res (revert_plan gov db) (cu_moved c) = Inr plans" by blast
  then show ?thesis using c assms(6) by (simp add: revert_season_cutover_def Let_def)
qed

text \<open>
  C3. A cutover can be undone: reverting it right away succeeds and leaves every stream serving
  exactly what it served before the cutover, with the same rollback target; what the cutover had
  promoted is withdrawn, so that it can never be served by going back to it.
\<close>

theorem cutover_revert_restores:
  assumes "pub_reachable gov db" and "schema db"
    and "cutover_season gov job season actor reason fences leave now db = Inr (c, db1)"
    and "cutover_record season job db = None" and "cu_moved c \<noteq> []" and "3 \<le> length (strip reason')"
  shows "\<exists>db2. revert_season_cutover gov season job reason' now' db1 = Inr (cu_moved c, db2) \<and>
    (\<forall>k. shown k db2 = shown k db) \<and> (\<forall>m \<in> set (cu_moved c). publication_withdrawn (mv_to m) db2)"
proof -
  have ok: "control_ok gov db" by (rule reachable_ok [OF assms(1)])
  then have wf: "wf_core gov db" by (simp add: control_ok_def)
  have ok1: "control_ok gov db1" by (rule control_ok_cutover [OF ok assms(2,3)])
  note e = cutover_effect [OF wf assms(2,3)]
  have r: "cutover_record season job db1 = Some c" by (rule recorded_cutover [OF wf assms(2,3,4)])
  have "\<forall>m \<in> set (cu_moved c). \<forall>p. get_pointer (mv_stream m) db1 = Some p \<longrightarrow> pp_previous p \<noteq> None"
  proof (intro ballI allI impI)
    fix m p assume "m \<in> set (cu_moved c)" "get_pointer (mv_stream m) db1 = Some p"
    then show "pp_previous p \<noteq> None" using e(3) by fastforce
  qed
  from revert_available [OF ok1 r assms(5) e(5) this assms(6)] obtain db2
    where db2: "revert_season_cutover gov season job reason' now' db1 = Inr (cu_moved c, db2)" by blast
  note b = sound_revert [OF ok1 db2]
  have "shown k db2 = shown k db" for k
  proof (cases "k \<in> mv_stream ` set (cu_moved c)")
    case True
    then obtain m where m: "m \<in> set (cu_moved c)" "k = mv_stream m" by blast
    from b(2) [OF m(1)] e(3) [OF m(1)] show ?thesis by (auto simp: m(2))
  next
    case False
    with b(3) e(4) show ?thesis by simp
  qed
  with db2 b(2) show ?thesis by blast
qed

theorem cutover_revert_restores_witness:
  "\<exists>db2. revert_season_cutover demo_gov ''2025-26'' ''job'' ''bad data'' 4 demo_cut = Inr (cu_moved demo_record, db2) \<and>
    (\<forall>k. shown k db2 = shown k demo_held) \<and> (\<forall>m \<in> set (cu_moved demo_record). publication_withdrawn (mv_to m) db2)"
proof -
  have n: "cutover_record ''2025-26'' ''job'' demo_held = None" by code_simp
  show ?thesis
    by (rule cutover_revert_restores [OF demo_reachable(3) demo_schema(3) demo_runs(3) n _ demo_reason]) (simp add: demo_record_def)
qed

text \<open>
  C4. A cutover stays reversible: whatever happened since, prunes included, as long as every stream
  is still at the generation the cutover left it at and no correction took a rollback target away,
  the revert succeeds: each stream it moved serves again what it served before, one generation
  later, and no other stream moves.
\<close>

theorem reversible_cutover_reverts:
  assumes "pub_reachable gov db" and "cutover_record season job db = Some c" and "cu_moved c \<noteq> []" and "cutover_reversible c db"
    and "\<forall>m \<in> set (cu_moved c). \<forall>p. get_pointer (mv_stream m) db = Some p \<longrightarrow> pp_previous p \<noteq> None" and "3 \<le> length (strip reason)"
  shows "\<exists>db'. revert_season_cutover gov season job reason now db = Inr (cu_moved c, db') \<and>
    (\<forall>m \<in> set (cu_moved c). shown (mv_stream m) db' = Some (Some (mv_from m), mv_from_previous m) \<and>
       fence_of (mv_stream m) db' = mv_fence m + 1) \<and>
    (\<forall>k. k \<notin> mv_stream ` set (cu_moved c) \<longrightarrow> get_pointer k db' = get_pointer k db)"
proof -
  have ok: "control_ok gov db" by (rule reachable_ok [OF assms(1)])
  obtain db' where db': "revert_season_cutover gov season job reason now db = Inr (cu_moved c, db')"
    using revert_available [OF ok assms(2-6)] by blast
  note b = sound_revert [OF ok db']
  have "shown (mv_stream m) db' = Some (Some (mv_from m), mv_from_previous m) \<and> fence_of (mv_stream m) db' = mv_fence m + 1"
    if m: "m \<in> set (cu_moved c)" for m
  proof -
    have "move_kept c db m" using ok recorded [OF assms(2)] m by (auto simp: control_ok_def cutover_ok_def)
    then obtain p where "get_pointer (mv_stream m) db = Some p" "pp_fence p = mv_fence m" by (rule reversible_fence [OF assms(4)])
    with b(2) [OF m] show ?thesis by (auto simp: fence_of_def)
  qed
  with db' b(3) show ?thesis by blast
qed

theorem reversible_cutover_reverts_witness:
  "\<exists>db'. revert_season_cutover demo_gov ''2025-26'' ''job'' ''bad data'' 4 (snd (prune_history demo_gov None None 4 demo_cut)) =
     Inr (cu_moved demo_record, db')"
proof -
  let ?db = "snd (prune_history demo_gov None None 4 demo_cut)"
  have 1: "cutover_record ''2025-26'' ''job'' ?db = Some demo_record" "cu_moved demo_record \<noteq> []" "cutover_reversible demo_record ?db"
    and "list_all (\<lambda>m. case get_pointer (mv_stream m) ?db of None \<Rightarrow> True | Some p \<Rightarrow> pp_previous p \<noteq> None) (cu_moved demo_record)" by code_simp+
  then have 2: "\<forall>m \<in> set (cu_moved demo_record). \<forall>p. get_pointer (mv_stream m) ?db = Some p \<longrightarrow> pp_previous p \<noteq> None"
    by (auto simp: list_all_iff)
  have "pub_reachable demo_gov ?db" by (rule pub_reachable.step [OF demo_reachable(4) demo_schema(4) pub_step.prune])
  from reversible_cutover_reverts [OF this 1 2 demo_reason] show ?thesis by blast
qed

text \<open>
  C5. A prune takes nothing a recovery needs: it moves no pointer and rewrites no history, and every
  rollback and every cutover revert has after it the outcome it had before, the refusals included.
\<close>

theorem prune_keeps_recovery:
  fixes stream_key season now
  assumes "pub_reachable gov db"
  defines "db' \<equiv> snd (prune_history gov stream_key season now db)"
  shows "get_pointer k db' = get_pointer k db \<and> db_history db' = db_history db \<and>
    outcome (rollback gov uid k reason expected now' db') = outcome (rollback gov uid k reason expected now' db) \<and>
    outcome (revert_season_cutover gov s job reason now' db') = outcome (revert_season_cutover gov s job reason now' db)"
proof (intro conjI)
  have wf: "wf_core gov db" using reachable_ok [OF assms(1)] by (simp add: control_ok_def)
  obtain doomed where d: "db' = delete_versions doomed db" "\<forall>i \<in> set doomed. \<not> recovery_needs i db"
    unfolding db'_def by (rule prune_effect [OF wf])
  show "get_pointer k db' = get_pointer k db" "db_history db' = db_history db" by (simp_all add: d(1) get_pointer_def delete_versions_def)
  show "outcome (rollback gov uid k reason expected now' db') = outcome (rollback gov uid k reason expected now' db)"
    unfolding d(1) by (rule rollback_deleted [OF d(2)])
  show "outcome (revert_season_cutover gov s job reason now' db') = outcome (revert_season_cutover gov s job reason now' db)"
    unfolding d(1) by (rule revert_deleted [OF d(2)])
qed

theorem prune_keeps_recovery_witness:
  "outcome (revert_season_cutover demo_gov ''2025-26'' ''job'' ''bad data'' 9 (snd (prune_history demo_gov None None 8 demo_cut))) =
   Inr (cu_moved demo_record)"
proof -
  have "outcome (revert_season_cutover demo_gov ''2025-26'' ''job'' ''bad data'' 9 demo_cut) = Inr (cu_moved demo_record)" by code_simp
  with prune_keeps_recovery [OF demo_reachable(4)] show ?thesis by simp
qed

text \<open>
  C8. A stale expectation is refused for good: once a stream has stopped serving what it served when
  an operator or a worker read its fence, a composition, a rollback or a family promotion that
  expects that fence is refused, in that state and in every later one. A fence is never reused.
\<close>

theorem stale_expectation_refused:
  assumes "get_pointer k db = Some p" and "later gov db db1" and "get_pointer k db1 = Some q"
    and "pp_active q \<noteq> pp_active p" and "later gov db1 db2"
  shows "isl (rollback gov uid k reason (Some (pp_fence p)) now db2) \<and>
    (\<forall>c. co_stream c = k \<longrightarrow> co_expected_fence c = Some (pp_fence p) \<longrightarrow> \<not> co_derive_fence c \<longrightarrow> co_pointer_expectation c = None \<longrightarrow>
      isl (compose_active gov uid c now db2)) \<and>
    (\<forall>item promotions. item \<in> set promotions \<longrightarrow> fp_stream item = k \<longrightarrow> fp_expected_fence item = pp_fence p \<longrightarrow>
      isl (promote_publication_family gov promotions actor reason vp vf now db2))"
proof (intro conjI allI impI)
  have "pp_fence p < pp_fence q" using later_observed(2) [OF assms(2,1)] assms(3,4) by force
  then have "\<not> fence_met (k, pp_fence p) db2"
    using pointer_fence.superseded_forever [where s = db1 and c = "(k, pp_fence p)" and n = "pp_fence q" and t = db2] assms(3,5) by fastforce
  moreover obtain r where r: "get_pointer k db2 = Some r" using later_observed(2) [OF assms(5,3)] by blast
  ultimately have f: "pp_fence r \<noteq> pp_fence p" by (simp add: fence_met_def)
  show "isl (rollback gov uid k reason (Some (pp_fence p)) now db2)" by (rule rollback_at_other_fence [OF r f])
  show "isl (compose_active gov uid c now db2)"
    if "co_stream c = k" "co_expected_fence c = Some (pp_fence p)" "\<not> co_derive_fence c" "co_pointer_expectation c = None" for c
    using compose_at_other_fence [OF _ that(2) f that(3,4)] r that(1) by simp
  show "isl (promote_publication_family gov promotions actor reason vp vf now db2)"
    if "item \<in> set promotions" "fp_stream item = k" "fp_expected_fence item = pp_fence p" for item promotions
    by (rule promotion_at_other_fence [OF r f that])
qed

theorem stale_expectation_refused_witness:
  "isl (rollback demo_gov ''v9'' ''player_game_logs'' ''bad data'' (Some 1) 9 demo_reverted)"
proof -
  have "later demo_gov demo_served demo_cut" using demo_later(1,2) by (rule rtranclp_trans)
  from stale_expectation_refused [OF demo_pointers(1) this demo_pointers(2) _ demo_later(3)] show ?thesis by (simp add: demo_pointer_def)
qed

section \<open>Moves\<close>

text \<open>
  C9. A family moves together: a promotion that succeeds moves every stream it names to its
  candidate, of the same season and cutoff as what it replaces, from the generation the operator
  saw to the next, keeps what was served as the rollback target, and moves no other stream.
\<close>

theorem family_moves_together:
  assumes "pub_reachable gov db"
    and "promote_publication_family gov promotions actor reason vp vf now db = Inr (ids, db')"
  shows "(\<forall>item \<in> set promotions. \<exists>p current candidate. get_pointer (fp_stream item) db = Some p \<and> pp_fence p = fp_expected_fence item \<and>
      pp_active p = Some (fp_expected_publication item) \<and> active_version p db = Some current \<and>
      get_version (fp_candidate item) db = Some candidate \<and> pv_season candidate = pv_season current \<and> pv_cutoff candidate = pv_cutoff current \<and>
      get_pointer (fp_stream item) db' = Some (p\<lparr>pp_fence := pp_fence p + 1, pp_previous := Some (pv_id current),
        pp_active := Some (fp_candidate item), pp_updated := now\<rparr>)) \<and>
    (\<forall>k. k \<notin> fp_stream ` set promotions \<longrightarrow> get_pointer k db' = get_pointer k db) \<and>
    mset ids = image_mset fp_candidate (mset promotions)"
proof (intro conjI ballI allI impI)
  have wf: "wf_core gov db" using reachable_ok [OF assms(1)] by (simp add: control_ok_def)
  obtain plans where pl: "list_all2 (\<lambda>item plan. promotion_plan gov vp item db = Inr plan) (sort_key fp_stream promotions) plans"
    and d: "distinct (map plan_stream plans)" and rd: "\<forall>plan \<in> set plans. move_ready db plan" and db': "db' = move_all actor reason now plans db"
    and ids: "ids = map (\<lambda>(p, current, candidate). pv_id candidate) plans" by (rule promote_cases [OF assms(2)])
  note all = sound_move_all [OF wf rd d, where actor = actor and reason = reason and now = now, folded db']
  have ks: "map plan_stream plans = map fp_stream (sort_key fp_stream promotions)"
    and cs: "ids = map fp_candidate (sort_key fp_stream promotions)"
    using pl unfolding ids by (induction rule: list_all2_induct) (auto dest: promotion_plan_ready(2,3))
  show "get_pointer k db' = get_pointer k db" if "k \<notin> fp_stream ` set promotions" for k
  proof (rule all(3))
    have "plan_stream ` set plans = fp_stream ` set promotions" using arg_cong [OF ks, of set] by simp
    with that show "k \<notin> plan_stream ` set plans" by simp
  qed
  show "mset ids = image_mset fp_candidate (mset promotions)" unfolding cs by simp
  fix item assume item: "item \<in> set promotions"
  have "\<exists>plan \<in> set plans. promotion_plan gov vp i db = Inr plan" if "i \<in> set (sort_key fp_stream promotions)" for i
    using pl that by (induction rule: list_all2_induct) auto
  from this [of item] item obtain plan' where plan': "plan' \<in> set plans" "promotion_plan gov vp item db = Inr plan'" by auto
  obtain p current candidate where "plan' = (p, current, candidate)" by (cases plan')
  with plan' have plan: "(p, current, candidate) \<in> set plans" "promotion_plan gov vp item db = Inr (p, current, candidate)" by simp_all
  note r = promotion_plan_ready [OF plan(2)]
  have "get_pointer (fp_stream item) db' = Some (moved_pointer p (Some current) candidate now)" using all(2) [OF plan(1)] r(2) by simp
  moreover have "active_version p db = Some current" "get_version (fp_candidate item) db = Some candidate"
    using plan(2) by (auto simp: promotion_plan_def result_simps split: option.splits if_splits)
  ultimately show "\<exists>p current candidate. get_pointer (fp_stream item) db = Some p \<and> pp_fence p = fp_expected_fence item \<and>
      pp_active p = Some (fp_expected_publication item) \<and> active_version p db = Some current \<and>
      get_version (fp_candidate item) db = Some candidate \<and> pv_season candidate = pv_season current \<and> pv_cutoff candidate = pv_cutoff current \<and>
      get_pointer (fp_stream item) db' = Some (p\<lparr>pp_fence := pp_fence p + 1, pp_previous := Some (pv_id current),
        pp_active := Some (fp_candidate item), pp_updated := now\<rparr>)"
    using r by (intro exI [of _ p] exI [of _ current] exI [of _ candidate]) (simp add: move_ready_def moved_pointer_def)
qed

definition demo_ready :: control_db where
  "demo_ready = demo_db [demo_v1, demo_v2 ACTIVE 2, (demo_v2 CANDIDATE 0)\<lparr>pv_id := ''v3'', pv_version := 2, pv_checksum := ''#c'',
       pv_payload := ''c'', pv_created := 5\<rparr>]
     (demo_lineage @ [\<lparr>po_publication = ''v3'', po_observation = ''o1'', po_role = ''ledger_game'', po_slice = Some ''g1''\<rparr>])
     [demo_pointer ''v2'' (Some ''v1'') 2 3]
     [demo_entry ''v1'' ''2024-25'' 1 1 None None, demo_entry ''v2'' ''2025-26'' 2 3 None None] demo_activations
     [demo_hold, SeasonCutoverAudit demo_record]"

definition demo_promotion :: FamilyPromotion where
  "demo_promotion = \<lparr>fp_stream = ''player_game_logs'', fp_candidate = ''v3'', fp_expected_publication = ''v2'', fp_expected_fence = 2\<rparr>"

theorem family_moves_together_witness:
  "\<exists>db'. promote_publication_family demo_gov [demo_promotion] ''op'' ''better data'' (\<lambda>_ _. None) (\<lambda>_. None) 6 demo_ready = Inr ([''v3''], db') \<and>
     get_pointer ''other'' db' = None"
proof -
  have "compose_inactive_ledger demo_gov ''v3'' (demo_composition ''2025-26'' 20 ''c'' None) 5 demo_cut = Inr (''v3'', demo_ready)" by code_simp
  moreover have "fresh ''v3'' demo_cut" by (simp add: fresh_iff names_def demo_cut_def demo_db_def demo_v1_def demo_v2_def demo_entry_def)
  ultimately have "pub_step demo_gov demo_cut demo_ready" using pub_step.candidate by blast
  then have r: "pub_reachable demo_gov demo_ready" by (rule pub_reachable.step [OF demo_reachable(4) demo_schema(4)])
  have "outcome (promote_publication_family demo_gov [demo_promotion] ''op'' ''better data'' (\<lambda>_ _. None) (\<lambda>_. None) 6 demo_ready) = Inr [''v3'']"
    by code_simp
  then obtain db' where p: "promote_publication_family demo_gov [demo_promotion] ''op'' ''better data'' (\<lambda>_ _. None) (\<lambda>_. None) 6 demo_ready = Inr ([''v3''], db')"
    by (cases "promote_publication_family demo_gov [demo_promotion] ''op'' ''better data'' (\<lambda>_ _. None) (\<lambda>_. None) 6 demo_ready") auto
  have "get_pointer ''other'' db' = get_pointer ''other'' demo_ready" using family_moves_together [OF r p] by (simp add: demo_promotion_def)
  moreover have "get_pointer ''other'' demo_ready = None" by code_simp
  ultimately show ?thesis using p by simp
qed

section \<open>Corrections\<close>

lemma withdraw_keeps:
  "pp_active p = Some j \<Longrightarrow> j \<notin> set stale \<Longrightarrow>
     pp_active (withdraw_from_pointer stale now p) = Some j \<and> pp_fence (withdraw_from_pointer stale now p) = pp_fence p"
  by (simp add: withdraw_from_pointer_def Let_def)

text \<open>The pairs a correction goes by: a blank source or game is dropped.\<close>

abbreviation corrections :: "(string \<times> string) list option \<Rightarrow> (string \<times> string) list" where
  "corrections c \<equiv> filter (\<lambda>(source, game). source \<noteq> [] \<and> game \<noteq> []) (case c of None \<Rightarrow> [] | Some c \<Rightarrow> c)"

lemma invalidate_observed:
  fixes k season c keep now db
  defines "stale \<equiv> map pv_id (filter (\<lambda>v. correctable k season keep db v \<and> rests_on_replaced (corrections c) (pv_id v) db) (db_versions db))"
    and "db' \<equiv> invalidate_corrected_ledger_versions k season c keep now db"
  shows "get_version j db' = map_option (\<lambda>v. if pv_id v \<in> set stale \<and> (pv_status v = ACTIVE \<or> pv_status v = CANDIDATE)
      then v\<lparr>pv_status := SUPERSEDED\<rparr> else v) (get_version j db)"
    "served l j db' \<longleftrightarrow> served l j db \<and> \<not> (l = k \<and> j \<in> set stale)"
    "get_pointer l db' = (if l = k \<and> stale \<noteq> [] then map_option (withdraw_from_pointer stale now) (get_pointer k db) else get_pointer l db)"
proof -
  define db1 where "db1 = set_status (\<lambda>v. pv_id v \<in> set stale \<and> (pv_status v = ACTIVE \<or> pv_status v = CANDIDATE)) SUPERSEDED db"
  have eq: "db' = (if stale = [] then db else case get_pointer k db of None \<Rightarrow> revoke_pointer_history k stale now 0 db1
      | Some p \<Rightarrow> revoke_pointer_history k stale now (pp_fence (withdraw_from_pointer stale now p))
          (set_pointer (withdraw_from_pointer stale now p) db1))"
    unfolding db'_def invalidate_corrected_ledger_versions_def Let_def stale_def [symmetric] db1_def [symmetric]
    by (simp add: db1_def set_status_modify table_simps)
  have st: "pp_stream (withdraw_from_pointer stale now p) = pp_stream p" for p by (rule withdraw_from_pointer_effect(1))
  have id: "map_option (\<lambda>v. v) x = x" for x :: "PublicationVersion option" by (cases x) simp_all
  show "get_version j db' = map_option (\<lambda>v. if pv_id v \<in> set stale \<and> (pv_status v = ACTIVE \<or> pv_status v = CANDIDATE)
      then v\<lparr>pv_status := SUPERSEDED\<rparr> else v) (get_version j db)"
    by (cases "stale = []") (auto simp: eq db1_def set_status_modify table_simps id split: option.splits)
  show "served l j db' \<longleftrightarrow> served l j db \<and> \<not> (l = k \<and> j \<in> set stale)"
    by (cases "stale = []") (auto simp: eq db1_def set_status_modify table_simps split: option.splits)
  show "get_pointer l db' = (if l = k \<and> stale \<noteq> [] then map_option (withdraw_from_pointer stale now) (get_pointer k db) else get_pointer l db)"
    using get_pointer_stream [of k db] st
    by (cases "stale = []") (auto simp: eq db1_def set_status_modify table_simps split: option.splits)
qed



section \<open>Compositions\<close>

text \<open>A pointer that was not moved to a new publication: it serves what it served, or nothing after a
  correction.\<close>

definition unmoved :: "string \<Rightarrow> control_db \<Rightarrow> control_db \<Rightarrow> bool" where
  "unmoved k db db' \<longleftrightarrow> (\<forall>q. get_pointer k db' = Some q \<longrightarrow> pp_active q = None \<or>
     (\<exists>p. get_pointer k db = Some p \<and> pp_active q = pp_active p \<and> pp_fence q = pp_fence p))"

lemma unmoved_same: "get_pointer k db' = get_pointer k db \<Longrightarrow> unmoved k db db'"
  by (simp add: unmoved_def)

lemma unmoved_trans: "unmoved k db1 db2 \<Longrightarrow> unmoved k db2 db3 \<Longrightarrow> unmoved k db1 db3"
  unfolding unmoved_def by metis

lemma unmoved_invalidate: "unmoved k db (invalidate_corrected_ledger_versions l season c keep now db)"
  unfolding unmoved_def
proof (intro allI impI)
  fix q assume "get_pointer k (invalidate_corrected_ledger_versions l season c keep now db) = Some q"
  then obtain p stale where p: "get_pointer k db = Some p" "q = p \<or> q = withdraw_from_pointer stale now p"
    unfolding invalidate_observed(3) by (auto split: if_splits)
  with withdraw_from_pointer_effect(3) [of stale now p]
  show "pp_active q = None \<or> (\<exists>p. get_pointer k db = Some p \<and> pp_active q = pp_active p \<and> pp_fence q = pp_fence p)" by auto
qed

lemma unmoved_core: assumes "core db' = core db1" "unmoved k db db1" shows "unmoved k db db'"
  using assms(2) by (simp add: unmoved_def core_observed(2) [OF assms(1)])

lemma unmoved_new_candidate:
  assumes "add_version gov v evidence (supersede old db) = Inr db'" shows "unmoved k db db'"
proof (rule unmoved_same)
  have c: "core db' = core (append_version v (supersede old db))" by (rule add_version_core [OF assms])
  show "get_pointer k db' = get_pointer k db" by (simp add: core_observed(2) [OF c] supersede_def set_status_modify table_simps)
qed

lemma unmoved_hold:
  assumes "hold_candidate gov uid s c r now db = Inr (i, db')" shows "unmoved k db db'"
proof -
  obtain db1 c' q where h: "compose_inactive_ledger gov uid c' now db = Inr (i, db1) \<or> store_candidate gov uid c now db = Inr (i, db1)"
    "core db' = core (set_status q SUPERSEDED db1)" by (rule hold_cases [OF assms])
  have "unmoved k db db1"
    using h(1)
  proof
    assume "compose_inactive_ledger gov uid c' now db = Inr (i, db1)"
    then obtain db2 where "db1 = invalidate_corrected_ledger_versions (co_stream c') (co_season c') (co_corrected c') i now db2"
      "db2 = db \<or> (\<exists>c a n evidence old. add_version gov (new_version gov uid c a n CANDIDATE 0 now) evidence (supersede old db) = Inr db2)"
      by (rule inactive_cases)
    then show ?thesis using unmoved_trans [OF _ unmoved_invalidate] unmoved_new_candidate unmoved_same by blast
  next
    assume "store_candidate gov uid c now db = Inr (i, db1)"
    then show ?thesis
      by (auto simp: store_candidate_def Let_def result_simps split: option.splits intro: unmoved_same unmoved_new_candidate)
  qed
  moreover have "unmoved k db1 (set_status q SUPERSEDED db1)" by (rule unmoved_same) (simp add: set_status_modify table_simps)
  ultimately show ?thesis using unmoved_core [OF h(2)] unmoved_trans by blast
qed

lemma compose_moves:
  assumes p: "get_pointer (co_stream c) db = Some p" and r: "compose_active gov uid c now db = Inr (i, db')" and d: "\<not> co_discard c"
  shows "unmoved (co_stream c) db db' \<or> hold_reason gov c p db = None \<and> i = uid"
proof -
  from r obtain s expected where "unmoved (co_stream c) db db' \<or> compose_claimed gov uid s c expected now db = Inr (i, db')"
    by (auto simp: compose_active_def Let_def p d result_simps intro: unmoved_invalidate split: option.splits if_splits)
  then show ?thesis
  proof
    assume cl: "compose_claimed gov uid s c expected now db = Inr (i, db')"
    then have "claimed_pointer c expected now db = Inr (p, db)"
      by (auto simp: compose_claimed_def claimed_pointer_def p result_simps split: option.splits if_splits)
    with cl have h: "(case hold_reason gov c p db of
         Some r \<Rightarrow> and_then (hold_candidate gov uid s c r now db) (\<lambda>(i, db2).
             Inr (i, if r = ''earlier_cutoff'' then set_status (\<lambda>u. pv_id u = i) SUPERSEDED db2 else db2))
       | None \<Rightarrow> advance_pointer gov uid c p now db) = Inr (i, db')" by (simp add: compose_claimed_def)
    show ?thesis
    proof (cases "hold_reason gov c p db")
      case None
      with h show ?thesis by (auto simp: advance_pointer_def Let_def result_simps)
    next
      case (Some why)
      with h obtain db2 where "hold_candidate gov uid s c why now db = Inr (i, db2)"
        "db' = (if why = ''earlier_cutoff'' then set_status (\<lambda>u. pv_id u = i) SUPERSEDED db2 else db2)" by (auto simp: result_simps)
      moreover from this have "get_pointer (co_stream c) db' = get_pointer (co_stream c) db2" by (simp add: set_status_modify table_simps)
      ultimately show ?thesis using unmoved_trans [OF unmoved_hold unmoved_same] by blast
    qed
  qed blast
qed



section \<open>Activating what is already active\<close>

text \<open>A stream under parity evidence may be activated with the publication it serves. Its pointer then
  names that publication as its own rollback target: the target it had is gone, and a rollback
  restores the same payload.\<close>

lemma bind_candidate_pointer:
  assumes "bind_candidate a v now db = Inr db'" and "get_pointer (ac_stream a) db = Some p"
  shows "get_pointer (ac_stream a) db' = Some (p\<lparr>pp_fence := pp_fence p + 1, pp_previous := pp_active p, pp_active := Some (pv_id v), pp_updated := now\<rparr>)"
proof -
  have s: "pp_stream p = ac_stream a" by (rule get_pointer_stream [OF assms(2)])
  have upd: "get_pointer k (db\<lparr>db_versions := xs\<rparr>) = get_pointer k db" "get_pointer k (db\<lparr>db_activations := ys\<rparr>) = get_pointer k db"
    "get_pointer k (set_status q st db) = get_pointer k db" for k db xs ys q st by (simp_all add: get_pointer_def set_status_def)
  show ?thesis
    using assms by (auto simp: bind_candidate_def Let_def record_observed get_pointer_set upd s split: if_splits option.splits)
qed

lemma reactivation_loses_rollback_target:
  assumes "activate_stream gov a now db = Inr db'" and "ac_candidate a = Some i"
    and "get_pointer (ac_stream a) db = Some p" and "pp_active p = Some i"
  shows "\<exists>q. get_pointer (ac_stream a) db' = Some q \<and> pp_active q = Some i \<and> pp_previous q = Some i"
proof -
  from assms(1,2) obtain v games db1 where v: "named_candidate gov a i db = Inr (v, games)" and b: "bind_candidate a v now db = Inr db1"
    and e: "db' = enable_stream (ac_stream a) db1"
    by (auto simp: activate_stream_def result_simps split: option.splits if_splits)
  have "pv_id v = i" using v get_version_id [of i db] by (auto simp: named_candidate_def split: option.splits if_splits)
  moreover have "get_pointer (ac_stream a) db' = get_pointer (ac_stream a) db1" by (simp add: e enable_stream_def get_pointer_def)
  ultimately show ?thesis using bind_candidate_pointer [OF b assms(3)] assms(4) by simp
qed

lemma reactivation_happens:
  "case activate_stream demo_gov \<lparr>ac_stream = ''player_game_logs'', ac_reason = ''parity'', ac_actor = ''op'', ac_season = Some ''2024-25'',
      ac_cutoff = Some 10, ac_expected_games = None, ac_artifact = Some ''art'', ac_candidate = Some ''v1'', ac_require_candidate = True,
      ac_expected_traditional = None\<rparr> 9 demo_served of
     Inl _ \<Rightarrow> False
   | Inr db' \<Rightarrow> get_pointer ''player_game_logs'' db' = Some (demo_pointer ''v1'' (Some ''v1'') 2 9)"
  by code_simp

end
