(* ===== verification/Contracts.thy ===== *)
theory Contracts
  imports Calendar
begin

text \<open>
  \<open>src/app/collector/contracts.py\<close>: the envelopes in which the residential collector sends
  observations and catalogs.

  What the source takes from libraries is the record \<open>wire\<close>: the digest, the compressor, the
  reader of a compressed document (decompression bounded at ten megabytes, then
  \<open>json.loads\<close>) and \<open>datetime.fromisoformat\<close>.
\<close>

section \<open>Payloads\<close>

datatype parsed_time = BadText | Naive | Aware instant

record wire =
  sha256_hex :: "nat list \<Rightarrow> string"
  gzip :: "nat list \<Rightarrow> nat list"
  read_document :: "nat list \<Rightarrow> json option"
  fromisoformat :: "string \<Rightarrow> parsed_time"

datatype contract_error = ProviderContractError string

definition CURRENT_ENVELOPE_VERSION :: int where "CURRENT_ENVELOPE_VERSION = 2"
definition ACCEPTED_ENVELOPE_VERSIONS :: "int list" where "ACCEPTED_ENVELOPE_VERSIONS = [1, 2]"
definition MAX_ENVELOPE_BYTES :: nat where "MAX_ENVELOPE_BYTES = 10 * 1024 * 1024"
definition MAX_COMPRESSED_BYTES :: nat where "MAX_COMPRESSED_BYTES = 2 * 1024 * 1024"
definition MAX_PAYLOAD_DEPTH :: nat where "MAX_PAYLOAD_DEPTH = 64"
definition MAX_PAYLOAD_VALUES :: nat where "MAX_PAYLOAD_VALUES = 100000"

definition canonical_json :: "json \<Rightarrow> nat list" where
  "canonical_json v = utf8 (json_dumps v)"

definition payload_checksum :: "wire \<Rightarrow> json \<Rightarrow> string" where
  "payload_checksum w payload = sha256_hex w (canonical_json payload)"

text \<open>The counter of visited values is the state of the traversal.\<close>

fun validate_payload :: "nat \<Rightarrow> json \<Rightarrow> nat \<Rightarrow> contract_error + nat" where
  "validate_payload depth value count =
     (if MAX_PAYLOAD_DEPTH < depth then Inl (ProviderContractError ''payload_too_deep'')
      else if MAX_PAYLOAD_VALUES < count + 1 then Inl (ProviderContractError ''payload_too_large'')
      else case value of
        JInt i \<Rightarrow> (if i < 0 then Inl (ProviderContractError ''negative_value'') else Inr (count + 1))
      | JObj kvs \<Rightarrow>
          fold_res (\<lambda>(key, child) n.
             if strip key = [] then Inl (ProviderContractError ''invalid_payload_key'')
             else validate_payload (depth + 1) child n) kvs (count + 1)
      | JList xs \<Rightarrow> fold_res (validate_payload (depth + 1)) xs (count + 1)
      | _ \<Rightarrow> Inr (count + 1))"

declare validate_payload.simps [simp del]

definition check_payload :: "json \<Rightarrow> contract_error + unit" where
  "check_payload v = and_then (validate_payload 0 v 0) (\<lambda>_. Inr ())"

section \<open>Timestamps and identities\<close>

definition replace_z :: "string \<Rightarrow> string" where
  "replace_z s = concat (map (\<lambda>c. if c = CHR ''Z'' then ''+00:00'' else [c]) s)"

definition utc_iso :: "wire \<Rightarrow> string \<Rightarrow> contract_error + string" where
  "utc_iso w value =
     (case fromisoformat w (replace_z value) of
        BadText \<Rightarrow> Inl (ProviderContractError ''invalid_timestamp'')
      | Naive \<Rightarrow> Inl (ProviderContractError ''timestamp_must_be_timezone_aware'')
      | Aware t \<Rightarrow> Inr (iso t))"

definition stable_observation_id ::
  "wire \<Rightarrow> string \<Rightarrow> string \<Rightarrow> string \<Rightarrow> json \<Rightarrow> string \<Rightarrow> string \<Rightarrow> contract_error + string" where
  "stable_observation_id w collector_id instruction_id observation_type scope cutoff checksum =
     and_then (utc_iso w cutoff) (\<lambda>cutoff_text.
       Inr (''rc-'' @ take 48 (sha256_hex w (canonical_json (JObj
         [(''collector_id'', JStr collector_id), (''instruction_id'', JStr instruction_id),
          (''observation_type'', JStr observation_type), (''scope'', scope), (''cutoff'', JStr cutoff_text),
          (''checksum'', JStr checksum)])))))"

record NormalizedObservation =
  no_observation_type :: string
  no_scope :: json
  no_season :: string
  no_cutoff :: string
  no_payload :: json
  no_provenance :: json
  no_schema_version :: int
  no_complete :: bool

definition check_observation :: "wire \<Rightarrow> NormalizedObservation \<Rightarrow> contract_error + unit" where
  "check_observation w no =
     and_then (ensure (strip (no_observation_type no) \<noteq> [] \<and> strip (no_season no) \<noteq> [])
       (ProviderContractError ''invalid_observation_identity'')) (\<lambda>_.
     and_then (ensure (no_schema_version no \<in> set ACCEPTED_ENVELOPE_VERSIONS)
       (ProviderContractError ''schema_unsupported'')) (\<lambda>_.
     and_then (utc_iso w (no_cutoff no)) (\<lambda>_.
     and_then (check_payload (no_payload no)) (\<lambda>_. check_payload (no_provenance no)))))"

section \<open>Envelopes\<close>

record ObservationEnvelope =
  en_manifest_id :: "string option"
  en_client_observation_id :: string
  en_environment :: string
  en_collector_id :: string
  en_provider :: string
  en_observation_type :: string
  en_scope :: json
  en_season :: string
  en_cutoff :: string
  en_retrieved_at :: string
  en_schema_version :: int
  en_payload :: json
  en_provenance :: json
  en_checksum :: string

text \<open>\<open>ObservationEnvelope.__post_init__\<close>: the checks, and the checksum it sets.\<close>

definition post_init :: "wire \<Rightarrow> ObservationEnvelope \<Rightarrow> contract_error + ObservationEnvelope" where
  "post_init w e =
     and_then (ensure (\<forall>v \<in> set [en_client_observation_id e, en_environment e, en_collector_id e, en_provider e,
         en_observation_type e, en_season e]. strip v \<noteq> []) (ProviderContractError ''invalid_envelope_identity'')) (\<lambda>_.
     and_then (ensure (case en_manifest_id e of None \<Rightarrow> True | Some m \<Rightarrow> strip m \<noteq> [])
       (ProviderContractError ''invalid_manifest_id'')) (\<lambda>_.
     and_then (ensure (length (en_client_observation_id e) \<le> 128)
       (ProviderContractError ''invalid_observation_id'')) (\<lambda>_.
     and_then (ensure (en_schema_version e \<in> set ACCEPTED_ENVELOPE_VERSIONS)
       (ProviderContractError ''schema_unsupported'')) (\<lambda>_.
     and_then (utc_iso w (en_cutoff e)) (\<lambda>_.
     and_then (utc_iso w (en_retrieved_at e)) (\<lambda>_.
     and_then (check_payload (en_payload e)) (\<lambda>_.
     and_then (check_payload (en_provenance e)) (\<lambda>_.
       Inr (e\<lparr>en_checksum := payload_checksum w (en_payload e)\<rparr>)))))))))"

definition set_default :: "string \<Rightarrow> json \<Rightarrow> json \<Rightarrow> json" where
  "set_default k v d = (case d of JObj kvs \<Rightarrow> (if k \<in> fst ` set kvs then d else JObj (kvs @ [(k, v)])) | _ \<Rightarrow> d)"

definition from_observation ::
  "wire \<Rightarrow> NormalizedObservation \<Rightarrow> string option \<Rightarrow> string \<Rightarrow> string \<Rightarrow> string \<Rightarrow> string
     \<Rightarrow> contract_error + ObservationEnvelope" where
  "from_observation w no manifest_id environment collector_id instruction_id retrieved_at =
     (let payload = set_default ''provenance'' (no_provenance no) (no_payload no);
          checksum = payload_checksum w payload
      in and_then (stable_observation_id w collector_id instruction_id (no_observation_type no) (no_scope no)
           (no_cutoff no) checksum) (\<lambda>client_id.
         and_then (utc_iso w retrieved_at) (\<lambda>retrieved.
           post_init w \<lparr>en_manifest_id = manifest_id, en_client_observation_id = client_id, en_environment = environment,
             en_collector_id = collector_id, en_provider = ''nba'', en_observation_type = no_observation_type no,
             en_scope = no_scope no, en_season = no_season no, en_cutoff = no_cutoff no, en_retrieved_at = retrieved,
             en_schema_version = no_schema_version no, en_payload = payload, en_provenance = no_provenance no,
             en_checksum = []\<rparr>)))"

definition opt_str :: "string option \<Rightarrow> json" where
  "opt_str v = (case v of None \<Rightarrow> JNull | Some s \<Rightarrow> JStr s)"

definition wire_fields :: "ObservationEnvelope \<Rightarrow> (string \<times> json) list" where
  "wire_fields e =
     [(''manifest_id'', opt_str (en_manifest_id e)), (''client_observation_id'', JStr (en_client_observation_id e)),
      (''environment'', JStr (en_environment e)), (''provider'', JStr (en_provider e)),
      (''observation_type'', JStr (en_observation_type e)), (''scope'', en_scope e), (''season'', JStr (en_season e)),
      (''cutoff'', JStr (en_cutoff e)), (''schema_version'', JInt (en_schema_version e)),
      (''retrieved_at'', JStr (en_retrieved_at e)), (''checksum'', JStr (en_checksum e)), (''payload'', en_payload e)]"

definition wire_dict :: "ObservationEnvelope \<Rightarrow> json" where
  "wire_dict e = JObj (wire_fields e)"

definition compress_wire :: "wire \<Rightarrow> json \<Rightarrow> contract_error + nat list" where
  "compress_wire w document =
     (let data = canonical_json document
      in if MAX_ENVELOPE_BYTES < length data then Inl (ProviderContractError ''payload_too_large'')
         else let compressed = gzip w data
              in if MAX_COMPRESSED_BYTES < length compressed then Inl (ProviderContractError ''payload_too_large'')
                 else Inr compressed)"

definition compressed_wire :: "wire \<Rightarrow> ObservationEnvelope \<Rightarrow> contract_error + nat list" where
  "compressed_wire w e = compress_wire w (wire_dict e)"

definition outbox_metadata_fields :: "ObservationEnvelope \<Rightarrow> (string \<times> json) list" where
  "outbox_metadata_fields e =
     [(''kind'', JStr ''observation''), (''manifest_id'', opt_str (en_manifest_id e)),
      (''client_observation_id'', JStr (en_client_observation_id e)), (''environment'', JStr (en_environment e)),
      (''collector_id'', JStr (en_collector_id e)), (''provider'', JStr (en_provider e)),
      (''observation_type'', JStr (en_observation_type e)), (''scope'', en_scope e), (''season'', JStr (en_season e)),
      (''cutoff'', JStr (en_cutoff e)), (''retrieved_at'', JStr (en_retrieved_at e)),
      (''schema_version'', JInt (en_schema_version e)), (''checksum'', JStr (en_checksum e))]"

definition as_outbox_metadata :: "ObservationEnvelope \<Rightarrow> json" where
  "as_outbox_metadata e = JObj (outbox_metadata_fields e)"

record CatalogEnvelope =
  ce_request_id :: string
  ce_envelope :: ObservationEnvelope
  ce_catalog_version :: string
  ce_expires_at :: "string option"

definition check_catalog :: "wire \<Rightarrow> CatalogEnvelope \<Rightarrow> contract_error + unit" where
  "check_catalog w c =
     and_then (ensure (strip (ce_request_id c) \<noteq> [] \<and> strip (ce_catalog_version c) \<noteq> [])
       (ProviderContractError ''invalid_catalog_version'')) (\<lambda>_.
     and_then (ensure (en_manifest_id (ce_envelope c) = None) (ProviderContractError ''manifest_scope_mismatch'')) (\<lambda>_.
       case ce_expires_at c of None \<Rightarrow> Inr () | Some t \<Rightarrow> and_then (utc_iso w t) (\<lambda>_. Inr ())))"

definition catalog_wire_dict :: "CatalogEnvelope \<Rightarrow> json" where
  "catalog_wire_dict c =
     JObj (wire_fields (ce_envelope c) @ [(''catalog_version'', JStr (ce_catalog_version c))]
       @ (case ce_expires_at c of None \<Rightarrow> [] | Some t \<Rightarrow> [(''expires_at'', JStr t)]))"

definition catalog_compressed_wire :: "wire \<Rightarrow> CatalogEnvelope \<Rightarrow> contract_error + nat list" where
  "catalog_compressed_wire w c = compress_wire w (catalog_wire_dict c)"

definition catalog_outbox_metadata :: "CatalogEnvelope \<Rightarrow> json" where
  "catalog_outbox_metadata c =
     JObj ((''kind'', JStr ''catalog'') # tl (outbox_metadata_fields (ce_envelope c))
       @ [(''request_id'', JStr (ce_request_id c)), (''catalog_version'', JStr (ce_catalog_version c)),
          (''expires_at'', opt_str (ce_expires_at c))])"

section \<open>What a payload may contain\<close>

primrec json_values :: "json \<Rightarrow> nat" where
  "json_values JNull = 1"
| "json_values (JBool b) = 1"
| "json_values (JInt i) = 1"
| "json_values (JStr s) = 1"
| "json_values (JList xs) = 1 + sum_list (map json_values xs)"
| "json_values (JObj kvs) = 1 + sum_list (map snd (map (map_prod id json_values) kvs))"

primrec within_depth :: "json \<Rightarrow> nat \<Rightarrow> bool" where
  "within_depth JNull = (\<lambda>d. True)"
| "within_depth (JBool b) = (\<lambda>d. True)"
| "within_depth (JInt i) = (\<lambda>d. True)"
| "within_depth (JStr s) = (\<lambda>d. True)"
| "within_depth (JList xs) = (\<lambda>d. \<forall>p \<in> set (map within_depth xs). 0 < d \<and> p (d - 1))"
| "within_depth (JObj kvs) = (\<lambda>d. \<forall>p \<in> set (map snd (map (map_prod id within_depth) kvs)). 0 < d \<and> p (d - 1))"

primrec json_clean :: "json \<Rightarrow> bool" where
  "json_clean JNull = True"
| "json_clean (JBool b) = True"
| "json_clean (JInt i) = (0 \<le> i)"
| "json_clean (JStr s) = True"
| "json_clean (JList xs) = list_all id (map json_clean xs)"
| "json_clean (JObj kvs) = list_all (\<lambda>(k, ok). strip k \<noteq> [] \<and> ok) (map (map_prod id json_clean) kvs)"

lemma fold_count:
  fixes c :: "'a \<Rightarrow> nat"
  assumes "\<And>x n m. x \<in> set xs \<Longrightarrow> f x n = Inr m \<longleftrightarrow> m = n + c x \<and> n + c x \<le> M \<and> ok x"
  shows "fold_res f xs n = Inr m \<longleftrightarrow>
     m = n + sum_list (map c xs) \<and> (xs = [] \<or> n + sum_list (map c xs) \<le> M) \<and> (\<forall>x \<in> set xs. ok x)"
  using assms
proof (induction xs arbitrary: n)
  case (Cons x xs)
  have IH: "fold_res f xs k = Inr m \<longleftrightarrow>
     m = k + sum_list (map c xs) \<and> (xs = [] \<or> k + sum_list (map c xs) \<le> M) \<and> (\<forall>x \<in> set xs. ok x)" for k
    using Cons.prems by (intro Cons.IH) simp
  have "fold_res f (x # xs) n = Inr m \<longleftrightarrow> n + c x \<le> M \<and> ok x \<and> fold_res f xs (n + c x) = Inr m"
    by (auto simp: result_simps Cons.prems)
  then show ?case unfolding IH by auto
qed auto

lemma validate_payload_iff:
  "validate_payload d v n = Inr m \<longleftrightarrow> m = n + json_values v \<and> d \<le> MAX_PAYLOAD_DEPTH
     \<and> within_depth v (MAX_PAYLOAD_DEPTH - d) \<and> n + json_values v \<le> MAX_PAYLOAD_VALUES \<and> json_clean v"
proof (induction v arbitrary: d n m)
  case (JList xs)
  have "fold_res (validate_payload (d + 1)) xs (n + 1) = Inr m \<longleftrightarrow>
     m = n + 1 + sum_list (map json_values xs) \<and> (xs = [] \<or> n + 1 + sum_list (map json_values xs) \<le> MAX_PAYLOAD_VALUES)
     \<and> (\<forall>x \<in> set xs. d + 1 \<le> MAX_PAYLOAD_DEPTH \<and> within_depth x (MAX_PAYLOAD_DEPTH - (d + 1)) \<and> json_clean x)"
    using JList by (intro fold_count) auto
  then show ?case
    by (subst validate_payload.simps) (auto simp: list_all_iff)
next
  case (JObj kvs)
  let ?f = "\<lambda>(key, child) n. if strip key = [] then Inl (ProviderContractError ''invalid_payload_key'')
             else validate_payload (d + 1) child n"
  have IH: "validate_payload d' v n' = Inr m' \<longleftrightarrow> m' = n' + json_values v \<and> d' \<le> MAX_PAYLOAD_DEPTH
     \<and> within_depth v (MAX_PAYLOAD_DEPTH - d') \<and> n' + json_values v \<le> MAX_PAYLOAD_VALUES \<and> json_clean v"
    if "(k, v) \<in> set kvs" for k v d' n' m'
    using JObj [OF that] by (simp add: snds.simps)
  have "fold_res ?f kvs (n + 1) = Inr m \<longleftrightarrow>
     m = n + 1 + sum_list (map (json_values \<circ> snd) kvs) \<and> (kvs = [] \<or> n + 1 + sum_list (map (json_values \<circ> snd) kvs) \<le> MAX_PAYLOAD_VALUES)
     \<and> (\<forall>x \<in> set kvs. strip (fst x) \<noteq> [] \<and> d + 1 \<le> MAX_PAYLOAD_DEPTH \<and> within_depth (snd x) (MAX_PAYLOAD_DEPTH - (d + 1)) \<and> json_clean (snd x))"
    by (intro fold_count) (auto simp: IH split: prod.split)
  then show ?case
    by (subst validate_payload.simps) (auto simp: list_all_iff comp_def)
qed (auto simp: validate_payload.simps)

text \<open>
  The payload check accepts exactly the payloads with at most 64 levels of nesting below the
  top and at most 100,000 values (containers counted), without a negative number and without a
  blank key: counting the values in one shared counter across siblings, and stopping at the first
  offence, agrees with the independent description of the whole value.
\<close>
theorem payload_check_exact:
  "check_payload v = Inr () \<longleftrightarrow> within_depth v 64 \<and> json_values v \<le> 100000 \<and> json_clean v"
proof -
  have "check_payload v = Inr () \<longleftrightarrow> (\<exists>m. validate_payload 0 v 0 = Inr m)"
    by (simp add: check_payload_def result_simps)
  then show ?thesis
    by (auto simp: validate_payload_iff MAX_PAYLOAD_DEPTH_def MAX_PAYLOAD_VALUES_def)
qed

end
