(* ===== verification/Payloads.thy ===== *)
theory Payloads
  imports Contracts "HOL-Library.Code_Target_Nat"
begin

text \<open>
  The payloads that the control plane accepts (\<open>services/collection_control.py\<close>, the validators
  from \<open>_catalog_rows\<close> to \<open>_parse_datetime\<close>, with \<open>domain/nba_teams.py\<close>): what an uploaded document
  may hold before it is stored.

  A document here is what \<open>json.loads\<close> gives with fractional numbers included: a float is a
  rational or an infinity (a literal as large as \<open>1e999\<close> reads as one; the constants NaN and
  Infinity are refused by the reader, and negative zero reads as zero). Integers are unbounded, as
  in Python, so converting one to a float can raise. Every exception a validator can leave with is a
  value; a \<open>ValueError\<close> keeps its message.
\<close>

section \<open>Documents\<close>

datatype pyfloat = Finite rat | Infinite (positive: bool)

datatype payload =
    PNull
  | PBool bool
  | PInt int
  | PFloat pyfloat
  | PStr string
  | PList "payload list"
  | PObj "(string \<times> payload) list"

datatype payload_exn = PValueError string | PUnresolved | PTypeError | POverflowError

definition is_obj :: "payload \<Rightarrow> bool" where
  "is_obj v = (case v of PObj _ \<Rightarrow> True | _ \<Rightarrow> False)"

definition entry :: "payload \<Rightarrow> string \<Rightarrow> payload option" where
  "entry v k = (case v of PObj kvs \<Rightarrow> map_of kvs k | _ \<Rightarrow> None)"

text \<open>\<open>d.get(k, default)\<close> on a mapping.\<close>

definition get_or :: "payload \<Rightarrow> string \<Rightarrow> payload \<Rightarrow> payload" where
  "get_or v k d = (case entry v k of None \<Rightarrow> d | Some x \<Rightarrow> x)"

definition truthy :: "payload \<Rightarrow> bool" where
  "truthy v = (case v of
      PNull \<Rightarrow> False | PBool b \<Rightarrow> b | PInt i \<Rightarrow> i \<noteq> 0 | PFloat f \<Rightarrow> f \<noteq> Finite 0 | PStr s \<Rightarrow> s \<noteq> []
    | PList xs \<Rightarrow> xs \<noteq> [] | PObj kvs \<Rightarrow> kvs \<noteq> [])"

text \<open>\<open>value in (None, "")\<close>.\<close>

definition missing :: "payload \<Rightarrow> bool" where
  "missing v \<longleftrightarrow> v = PNull \<or> v = PStr []"

fun float_less :: "pyfloat \<Rightarrow> pyfloat \<Rightarrow> bool" where
  "float_less (Finite a) (Finite b) = (a < b)"
| "float_less (Finite a) (Infinite p) = p"
| "float_less (Infinite p) (Finite b) = (\<not> p)"
| "float_less (Infinite p) (Infinite q) = (\<not> p \<and> q)"

text \<open>A number compares by its exact value, and a boolean is a number.\<close>

definition numeric :: "payload \<Rightarrow> pyfloat option" where
  "numeric v = (case v of
      PBool b \<Rightarrow> Some (Finite (if b then 1 else 0)) | PInt i \<Rightarrow> Some (Finite (of_int i)) | PFloat f \<Rightarrow> Some f
    | _ \<Rightarrow> None)"

definition is_number :: "payload \<Rightarrow> bool" where
  "is_number v = (case v of PInt _ \<Rightarrow> True | PFloat _ \<Rightarrow> True | _ \<Rightarrow> False)"

text \<open>\<open>float(v)\<close> of an integer or float. An integer that rounds to \<open>2 ^ 1024\<close> raises; the largest
  double is \<open>2 ^ 1024 - 2 ^ 971\<close>, and half a unit above it the even neighbour is the higher one.\<close>

definition DOUBLE_LIMIT :: int where "DOUBLE_LIMIT = 2 ^ 1024 - 2 ^ 970"

lemma DOUBLE_LIMIT_code [code]:
  "DOUBLE_LIMIT =
     179769313486231580793728971405303415079934132710037826936173778980444968292764750946649017977587207096330286416692887910946555547851940402630657488671505820681908902000708383676273854845817711531764475730270069855571366959622842914819860834936475292719074168444365510704342711559699508093042880177904174497792"
  by (simp add: DOUBLE_LIMIT_def)

definition float_of :: "payload \<Rightarrow> payload_exn + pyfloat" where
  "float_of v = (case v of
      PInt i \<Rightarrow> (if DOUBLE_LIMIT \<le> \<bar>i\<bar> then Inl POverflowError else Inr (Finite (fl (of_int i))))
    | PFloat f \<Rightarrow> Inr f
    | _ \<Rightarrow> Inl PTypeError)"

definition finite_float :: "pyfloat \<Rightarrow> bool" where
  "finite_float f = (case f of Finite _ \<Rightarrow> True | Infinite _ \<Rightarrow> False)"

text \<open>\<open>int(v)\<close>; which exception it raises is never told apart.\<close>

definition int_of :: "payload \<Rightarrow> int option" where
  "int_of v = (case v of
      PBool b \<Rightarrow> Some (if b then 1 else 0)
    | PInt i \<Rightarrow> Some i
    | PFloat (Finite q) \<Rightarrow> Some (if 0 \<le> q then \<lfloor>q\<rfloor> else \<lceil>q\<rceil>)
    | PStr s \<Rightarrow> int_of_text s
    | _ \<Rightarrow> None)"

text \<open>\<open>str(v)\<close>; the shortest digits of a float are the first argument.\<close>

primrec repr_of :: "(pyfloat \<Rightarrow> string) \<Rightarrow> payload \<Rightarrow> string" where
  "repr_of fr PNull = ''None''"
| "repr_of fr (PBool b) = (if b then ''True'' else ''False'')"
| "repr_of fr (PInt i) = show_int i"
| "repr_of fr (PFloat f) = fr f"
| "repr_of fr (PStr s) = repr_str s"
| "repr_of fr (PList xs) = ''['' @ join '', '' (map (repr_of fr) xs) @ '']''"
| "repr_of fr (PObj kvs) = ''{'' @ join '', '' (map (\<lambda>(k, r). repr_str k @ '': '' @ r)
     (map (map_prod id (repr_of fr)) kvs)) @ ''}''"

definition str_of :: "(pyfloat \<Rightarrow> string) \<Rightarrow> payload \<Rightarrow> string" where
  "str_of fr v = (case v of PStr s \<Rightarrow> s | _ \<Rightarrow> repr_of fr v)"

text \<open>\<open>json.dumps\<close> with compact separators and no ASCII escapes: with \<open>sort_keys\<close> (the canonical text)
  and in insertion order.\<close>

primrec dumps :: "(pyfloat \<Rightarrow> string) \<Rightarrow> bool \<Rightarrow> payload \<Rightarrow> string" where
  "dumps fr srt PNull = ''null''"
| "dumps fr srt (PBool b) = (if b then ''true'' else ''false'')"
| "dumps fr srt (PInt i) = show_int i"
| "dumps fr srt (PFloat f) = fr f"
| "dumps fr srt (PStr s) = json_str s"
| "dumps fr srt (PList xs) = ''['' @ join '','' (map (dumps fr srt) xs) @ '']''"
| "dumps fr srt (PObj kvs) = ''{'' @ join '','' (map (\<lambda>(k, r). json_str k @ '':'' @ r)
     ((if srt then sort_key fst else id) (map (map_prod id (dumps fr srt)) kvs))) @ ''}''"

text \<open>The collector's documents, which hold no fractional number, among these.\<close>

primrec of_json :: "json \<Rightarrow> payload" where
  "of_json JNull = PNull"
| "of_json (JBool b) = PBool b"
| "of_json (JInt i) = PInt i"
| "of_json (JStr s) = PStr s"
| "of_json (JList xs) = PList (map of_json xs)"
| "of_json (JObj kvs) = PObj (map (map_prod id of_json) kvs)"

definition text_ends_with :: "string \<Rightarrow> string \<Rightarrow> bool" where
  "text_ends_with p s \<longleftrightarrow> starts_with (rev p) (rev s)"

text \<open>\<open>str.upper\<close>. Two letters of the range have their capitals outside it and are kept.\<close>

definition upper :: "string \<Rightarrow> string" where
  "upper s = concat (map (\<lambda>c. let n = of_char c :: nat in
     if n = 223 then ''SS''
     else if 97 \<le> n \<and> n \<le> 122 \<or> 224 \<le> n \<and> n \<le> 254 \<and> n \<noteq> 247 then [char_of (n - 32)] else [c]) s)"

section \<open>The shape of a payload\<close>

definition MAX_PAYLOAD_VALUES_cp :: nat where "MAX_PAYLOAD_VALUES_cp = 100000"
definition MAX_PAYLOAD_DEPTH_cp :: nat where "MAX_PAYLOAD_DEPTH_cp = 64"
definition MAX_RECORDS_PER_OBSERVATION :: nat where "MAX_RECORDS_PER_OBSERVATION = 100000"
definition MAX_EVENT_CATALOG_GAMES :: nat where "MAX_EVENT_CATALOG_GAMES = 3000"
definition MAX_ATHLETE_CATALOG_IDENTITIES :: nat where "MAX_ATHLETE_CATALOG_IDENTITIES = 100000"

definition invalid :: "string \<Rightarrow> payload_exn + 'a" where
  "invalid message = Inl (PValueError message)"

definition count_key :: "string \<Rightarrow> bool" where
  "count_key key \<longleftrightarrow> (\<exists>marker \<in> set [''count'', ''made'', ''attempted'', ''points'', ''rebounds'', ''assists'', ''minutes''].
     contains marker key)"

definition negative :: "payload \<Rightarrow> bool" where
  "negative v = (case numeric v of Some x \<Rightarrow> float_less x (Finite 0) | None \<Rightarrow> False)"

text \<open>One item of an object, in the order of the checks. The last one compares the made shots with
  the attempted ones, and raises when the made value is no number.\<close>

definition check_item :: "(string \<times> payload) list \<Rightarrow> string \<Rightarrow> payload \<Rightarrow> payload_exn + unit" where
  "check_item kvs key child =
     and_then (ensure (length key \<le> 512) (PValueError ''invalid payload key'')) (\<lambda>_.
     and_then (if is_number child then
         and_then (float_of child) (\<lambda>f.
           ensure (finite_float f \<and> \<not> (count_key (lower key) \<and> negative child)) (PValueError ''invalid numeric value''))
       else Inr ()) (\<lambda>_.
       if text_ends_with ''_made'' key then
         (case map_of kvs (take (length key - 5) key @ ''_attempted'') of
            None \<Rightarrow> Inr ()
          | Some attempted \<Rightarrow>
              (case numeric attempted of
                 None \<Rightarrow> Inr ()
               | Some a \<Rightarrow>
                   (case numeric child of
                      None \<Rightarrow> Inl PTypeError
                    | Some m \<Rightarrow> ensure (\<not> float_less a m) (PValueError ''made exceeds attempted''))))
       else Inr ()))"

text \<open>\<open>_validate_payload_shape\<close>; the shared counter is the state of the traversal.\<close>

fun validate_shape :: "nat \<Rightarrow> payload \<Rightarrow> nat \<Rightarrow> payload_exn + nat" where
  "validate_shape depth value count =
     (if MAX_PAYLOAD_VALUES_cp < count + 1 \<or> MAX_PAYLOAD_DEPTH_cp < depth then invalid ''payload volume exceeds limit''
      else case value of
        PFloat f \<Rightarrow> (if finite_float f then Inr (count + 1) else invalid ''non-finite value'')
      | PObj kvs \<Rightarrow>
          (if truthy (get_or value ''unresolved_identities'' PNull) then Inl PUnresolved
           else fold_res (\<lambda>(key, child) n.
                  and_then (check_item kvs key child) (\<lambda>_. validate_shape (depth + 1) child n)) kvs (count + 1))
      | PList xs \<Rightarrow> fold_res (validate_shape (depth + 1)) xs (count + 1)
      | _ \<Rightarrow> Inr (count + 1))"

declare validate_shape.simps [simp del]

definition validate_payload_shape :: "payload \<Rightarrow> payload_exn + unit" where
  "validate_payload_shape v = and_then (validate_shape 0 v 0) (\<lambda>_. Inr ())"

section \<open>Records\<close>

definition share_within :: "rat \<Rightarrow> payload \<Rightarrow> payload_exn + unit" where
  "share_within limit child =
     (if is_number child then
        and_then (float_of child) (\<lambda>f.
          ensure (finite_float f \<and> \<not> float_less f (Finite 0) \<and> \<not> float_less (Finite limit) f) (PValueError ''invalid percentage''))
      else invalid ''invalid percentage'')"

definition check_record_item :: "string \<Rightarrow> payload \<Rightarrow> payload_exn + unit" where
  "check_record_item key child =
     (let k = lower key in
      and_then (if k \<in> set [''percentage'', ''percent'', ''pct''] then share_within 100 child else Inr ()) (\<lambda>_.
      and_then (if k \<in> set [''share'', ''rate'', ''ratio''] then share_within 1 child else Inr ()) (\<lambda>_.
      and_then (ensure (\<not> (contains ''category'' k \<and> missing child)) (PValueError ''category required'')) (\<lambda>_.
      and_then (ensure (\<not> (k \<in> set [''player_id'', ''team_id'', ''game_id'', ''nba_game_id'', ''identity_id'']
          \<and> missing child)) (PValueError ''identity required'')) (\<lambda>_.
        ensure (\<not> (k \<in> set [''games_played'', ''game_count'', ''volume'', ''possessions'', ''field_goal_attempts'']
          \<and> (\<not> is_number child \<or> negative child
             \<or> (case numeric child of Some x \<Rightarrow> float_less (Finite (of_int (int MAX_RECORDS_PER_OBSERVATION))) x | None \<Rightarrow> False))))
          (PValueError ''invalid historical volume''))))))"

definition RECORD_KEYS :: "string list" where
  "RECORD_KEYS = [''rows'', ''records'', ''events'', ''games'', ''identities'', ''players'', ''teams'', ''observations'']"

text \<open>\<open>_validate_record_invariants\<close>: the entries of the object, then the records of its collections.\<close>

function (sequential) record_invariants :: "payload \<Rightarrow> payload_exn + unit" where
  "record_invariants (PObj kvs) =
     and_then (fold_res (\<lambda>(key, child) _. check_record_item key child) kvs ()) (\<lambda>_.
       fold_res (\<lambda>key _. case map_of kvs key of
           Some (PList records) \<Rightarrow>
             (if MAX_RECORDS_PER_OBSERVATION < length records then invalid ''payload volume exceeds limit''
              else fold_res (\<lambda>r _. if is_obj r then record_invariants r else Inr ()) records ())
         | _ \<Rightarrow> Inr ()) RECORD_KEYS ())"
| "record_invariants _ = Inr ()"
  by pat_completeness auto

lemma size_of_entry:
  assumes "map_of kvs key = Some (PList records)" and "r \<in> set records"
  shows "size r < size (PObj kvs)"
proof -
  have "size r < size (PList records)" using assms(2) by (induction records) auto
  moreover have "(key, PList records) \<in> set kvs" using assms(1) by (rule map_of_SomeD)
  then have "size (PList records) \<le> size_list (size_prod (\<lambda>_. 0) size) kvs" by (induction kvs) auto
  ultimately show ?thesis by simp
qed

termination record_invariants
  by (relation "measure size") (simp_all add: size_of_entry del: payload.size)

declare record_invariants.simps [simp del]

section \<open>Catalogs\<close>

definition NBA_TEAM_TRICODES :: "string list" where
  "NBA_TEAM_TRICODES =
     [''ATL'', ''BOS'', ''BKN'', ''CHA'', ''CHI'', ''CLE'', ''DAL'', ''DEN'', ''DET'', ''GSW'', ''HOU'', ''IND'', ''LAC'', ''LAL'', ''MEM'',
      ''MIA'', ''MIL'', ''MIN'', ''NOP'', ''NYK'', ''OKC'', ''ORL'', ''PHI'', ''PHX'', ''POR'', ''SAC'', ''SAS'', ''TOR'', ''UTA'', ''WAS'']"

definition NBA_TEAM_TEXTS :: "string list" where
  "NBA_TEAM_TEXTS = map (\<lambda>index. show_int (1610612737 + index)) [0..29]"

definition NBA_TEAM_ABBREVIATION_DIALECTS :: "(string \<times> string) list" where
  "NBA_TEAM_ABBREVIATION_DIALECTS =
     [(''GS'', ''GSW''), (''NO'', ''NOP''), (''NY'', ''NYK''), (''PHO'', ''PHX''), (''SA'', ''SAS'')]"

definition canonical_nba_team_abbreviation :: "string \<Rightarrow> string" where
  "canonical_nba_team_abbreviation text =
     (let normalized = upper (strip text)
      in case map_of NBA_TEAM_ABBREVIATION_DIALECTS normalized of Some c \<Rightarrow> c | None \<Rightarrow> normalized)"

definition catalog_rows :: "payload \<Rightarrow> bool \<Rightarrow> payload list option" where
  "catalog_rows value event =
     (case value of
        PList xs \<Rightarrow> (if event then Some xs else None)
      | PObj _ \<Rightarrow>
          (case get_or value (if event then ''events'' else ''identities'')
             (get_or value (if event then ''games'' else ''players'') PNull) of
             PList xs \<Rightarrow> Some xs
           | _ \<Rightarrow> None)
      | _ \<Rightarrow> None)"

definition canonical_catalog_team :: "(pyfloat \<Rightarrow> string) \<Rightarrow> payload \<Rightarrow> string option" where
  "canonical_catalog_team fr value =
     (let v = (if is_obj value then get_or value ''team_id'' (get_or value ''id'' (get_or value ''tricode''
                 (get_or value ''abbreviation'' (get_or value ''team'' PNull)))) else value)
      in if missing v then None
         else let text = strip (str_of fr v)
              in if text \<in> set NBA_TEAM_TEXTS then Some text
                 else let code = canonical_nba_team_abbreviation text
                      in if code \<in> set NBA_TEAM_TRICODES then Some code else None)"

definition event_team_evidence :: "(pyfloat \<Rightarrow> string) \<Rightarrow> payload \<Rightarrow> string set" where
  "event_team_evidence fr row =
     (let values = (case find (\<lambda>(home, away). entry row home \<noteq> None \<or> entry row away \<noteq> None)
            [(''home_team_id'', ''away_team_id''), (''home_team'', ''away_team''),
             (''home_team_tricode'', ''away_team_tricode''), (''home_tricode'', ''away_tricode'')] of
          Some (home, away) \<Rightarrow> [get_or row home PNull, get_or row away PNull]
        | None \<Rightarrow> (case entry row ''teams'' of Some (PList xs) \<Rightarrow> xs | _ \<Rightarrow> []))
      in set (List.map_filter (canonical_catalog_team fr) values))"

definition STATUS_TEXTS :: "string list" where
  "STATUS_TEXTS =
     [''scheduled'', ''final'', ''finished'', ''completed'', ''closed'', ''in progress'', ''live'', ''postponed'', ''canceled'',
      ''cancelled'', ''game over'', ''1'', ''2'', ''3'']"

text \<open>\<open>_parse_datetime\<close>; \<open>None\<close> is the refusal \<open>invalid_timestamp\<close>.\<close>

definition parse_datetime :: "wire \<Rightarrow> payload \<Rightarrow> instant option" where
  "parse_datetime w value =
     (case value of
        PStr s \<Rightarrow> (case fromisoformat w (replace_z s) of Aware t \<Rightarrow> Some t | _ \<Rightarrow> None)
      | _ \<Rightarrow> None)"

definition space_underscores :: "string \<Rightarrow> string" where
  "space_underscores s = map (\<lambda>c. if c = CHR ''_'' then CHR '' '' else c) s"

text \<open>One event of the catalog; the loop carries the identities and the teams seen.\<close>

definition check_event_row ::
  "wire \<Rightarrow> (pyfloat \<Rightarrow> string) \<Rightarrow> payload \<Rightarrow> string set \<times> string set \<Rightarrow> payload_exn + (string set \<times> string set)" where
  "check_event_row w fr row = (\<lambda>(identities, teams).
     and_then (ensure (is_obj row) (PValueError ''event row required'')) (\<lambda>_.
     let identity = get_or row ''nba_game_id'' (get_or row ''game_id'' (get_or row ''id'' PNull)) in
     and_then (ensure (\<not> missing identity) (PValueError ''event identity required'')) (\<lambda>_.
     let identity_text = strip (str_of fr identity) in
     and_then (ensure (identity_text \<notin> identities) (PValueError ''duplicate canonical game identity'')) (\<lambda>_.
     and_then (ensure (card (event_team_evidence fr row) = 2) (PValueError ''canonical event teams required'')) (\<lambda>_.
     let phase = get_or row ''phase'' (get_or row ''season_phase'' (get_or row ''season_type'' PNull)) in
     and_then (ensure (space_underscores (lower (strip (if truthy phase then str_of fr phase else [])))
         \<in> set [''regular season'', ''regular'']) (PValueError ''event phase required'')) (\<lambda>_.
     let status = get_or row ''status'' (get_or row ''status_text'' (get_or row ''status_code'' PNull)) in
     and_then (ensure (case entry row ''completed'' of Some (PBool _) \<Rightarrow> True | None \<Rightarrow> True | _ \<Rightarrow> False)
       (PValueError ''event completed flag invalid'')) (\<lambda>_.
     and_then (ensure (case entry row ''is_postponed'' of Some (PBool _) \<Rightarrow> True | None \<Rightarrow> True | _ \<Rightarrow> False)
       (PValueError ''event postponed flag invalid'')) (\<lambda>_.
     and_then (ensure (\<not> (missing status \<and> entry row ''completed'' = None)) (PValueError ''event status required'')) (\<lambda>_.
     and_then (ensure (missing status \<or> (let text = lower (strip (str_of fr status))
         in text \<in> set STATUS_TEXTS \<or> starts_with ''final'' text)) (PValueError ''event status invalid'')) (\<lambda>_.
     let scheduled = get_or row ''scheduled_at'' (get_or row ''date'' (get_or row ''game_date'' PNull)) in
     and_then (ensure (\<not> missing scheduled) (PValueError ''event date required'')) (\<lambda>_.
     and_then (ensure (parse_datetime w (PStr (str_of fr scheduled)) \<noteq> None) (PValueError ''event date invalid'')) (\<lambda>_.
       Inr (insert identity_text identities, teams \<union> event_team_evidence fr row)))))))))))))"

definition check_athlete_row ::
  "(pyfloat \<Rightarrow> string) \<Rightarrow> payload \<Rightarrow> string set \<Rightarrow> payload_exn + string set" where
  "check_athlete_row fr row identities =
     and_then (ensure (is_obj row) (PValueError ''athlete roster row required'')) (\<lambda>_.
     let identity = get_or row ''player_id'' (get_or row ''id'' (get_or row ''identity_id'' PNull)) in
     and_then (ensure (\<not> missing identity) (PValueError ''athlete identity required'')) (\<lambda>_.
     let identity_text = strip (str_of fr identity) in
     and_then (ensure (identity_text \<notin> identities) (PValueError ''duplicate athlete identity'')) (\<lambda>_.
     and_then (ensure (canonical_catalog_team fr (get_or row ''team_id'' (get_or row ''team'' (get_or row ''tricode'' PNull))) \<noteq> None)
       (PValueError ''athlete team evidence required'')) (\<lambda>_.
     and_then (ensure (strip (str_of fr (get_or row ''status'' (get_or row ''phase'' (PStr ''active'')))) \<noteq> [])
       (PValueError ''athlete roster status required'')) (\<lambda>_.
     and_then (ensure (case get_or row ''event_ids'' (get_or row ''game_ids'' (get_or row ''games'' PNull)) of
         PList xs \<Rightarrow> xs \<noteq> [] | _ \<Rightarrow> False) (PValueError ''athlete season coverage required'')) (\<lambda>_.
       Inr (insert identity_text identities)))))))"

text \<open>\<open>_validate_catalog_payload\<close> with the bounds of its callers here (one game, two teams, one
  identity).\<close>

definition validate_catalog_payload :: "wire \<Rightarrow> (pyfloat \<Rightarrow> string) \<Rightarrow> payload \<Rightarrow> bool \<Rightarrow> payload_exn + unit" where
  "validate_catalog_payload w fr value event =
     (case catalog_rows value event of
        None \<Rightarrow> invalid ''catalog_incomplete: rows required''
      | Some rows \<Rightarrow>
          and_then (ensure (rows \<noteq> [] \<and> length rows \<le> min MAX_RECORDS_PER_OBSERVATION
              (if event then MAX_EVENT_CATALOG_GAMES else MAX_ATHLETE_CATALOG_IDENTITIES))
            (PValueError ''catalog_incomplete: rows required'')) (\<lambda>_.
          if event then
            and_then (fold_res (check_event_row w fr) rows ({}, {})) (\<lambda>(identities, teams).
            and_then (ensure (1 \<le> card identities) (PValueError ''catalog_incomplete: event volume below bound'')) (\<lambda>_.
              ensure (2 \<le> card teams) (PValueError ''catalog_incomplete: team coverage below bound'')))
          else
            and_then (fold_res (check_athlete_row fr) rows {}) (\<lambda>identities.
              ensure (1 \<le> card identities) (PValueError ''catalog_incomplete: athlete volume below bound''))))"

section \<open>Observations\<close>

definition OBSERVATION_BASES :: "(string \<times> string) list" where
  "OBSERVATION_BASES =
     [(''synergy'', ''play_types''), (''synergy_play_types'', ''play_types''), (''shot_types'', ''shot_types''),
      (''grouped_shot_types'', ''shot_types''), (''shot_zones'', ''shot_zones''), (''exact_shot_zones'', ''shot_zones''),
      (''synergy_opponent'', ''play_types''), (''shot_types_opponent'', ''shot_types''),
      (''shot_zones_opponent'', ''shot_zones''), (''assist_locations'', ''assist_locations'')]"

definition ROW_KEYS :: "string list" where
  "ROW_KEYS = [''rows'', ''records'', ''data'', ''observations'']"

definition COLLECTION_KEYS :: "string list" where
  "COLLECTION_KEYS = [''rows'', ''records'', ''data'', ''events'', ''games'', ''identities'', ''players'', ''teams'', ''observations'',
     ''team_ids'', ''team_tricodes'', ''base'']"

definition NONEMPTY_KEYS :: "string list" where
  "NONEMPTY_KEYS = [''rows'', ''records'', ''data'', ''events'', ''games'', ''identities'', ''players'', ''teams'', ''observations'']"

definition record_list :: "payload \<Rightarrow> bool" where
  "record_list v = (case v of PList xs \<Rightarrow> xs \<noteq> [] \<and> list_all is_obj xs | _ \<Rightarrow> False)"

text \<open>The rows of an observation whose type has a registered base.\<close>

definition check_based_rows :: "string \<Rightarrow> payload \<Rightarrow> payload_exn + unit" where
  "check_based_rows base value =
     and_then (ensure (is_obj value) (PValueError ''registry payload must be an object'')) (\<lambda>_.
     and_then (ensure (get_or value ''base'' PNull \<in> {PNull, PStr base}) (PValueError ''observation base mismatch'')) (\<lambda>_.
     let rows = (case find (\<lambda>k. entry value k \<noteq> None) ROW_KEYS of Some k \<Rightarrow> get_or value k PNull | None \<Rightarrow> PNull) in
     and_then (ensure (record_list rows) (PValueError ''registered observation rows required'')) (\<lambda>_.
       fold_res (\<lambda>row _.
         and_then (ensure (get_or row ''base'' (PStr base) = PStr base) (PValueError ''observation base mismatch'')) (\<lambda>_.
           ensure (\<exists>k \<in> set [''slice_key'', ''slice'', ''category'']. entry row k \<noteq> None)
             (PValueError ''observation slice required''))) (case rows of PList xs \<Rightarrow> xs | _ \<Rightarrow> []) ())))"

definition check_loose_rows :: "payload \<Rightarrow> payload_exn + unit" where
  "check_loose_rows value =
     (if is_obj value then
        fold_res (\<lambda>k _. ensure (case entry value k of None \<Rightarrow> True | Some v \<Rightarrow> record_list v)
          (PValueError ''observation rows malformed'')) ROW_KEYS ()
      else Inr ())"

definition check_object :: "payload \<Rightarrow> payload_exn + unit" where
  "check_object value =
     and_then (ensure (\<exists>k \<in> set COLLECTION_KEYS. entry value k \<noteq> None) (PValueError ''generic payload'')) (\<lambda>_.
     and_then (fold_res (\<lambda>k _. ensure (entry value k \<noteq> Some (PList [])) (PValueError ''empty collection'')) NONEMPTY_KEYS ()) (\<lambda>_.
     and_then (fold_res (\<lambda>k _. ensure (case entry value k of None \<Rightarrow> True | Some (PList xs) \<Rightarrow> xs \<noteq> [] | _ \<Rightarrow> False)
         (PValueError ''participants required'')) [''participants'', ''participant_ids''] ()) (\<lambda>_.
       record_invariants value)))"

text \<open>\<open>_validate_observation_payload\<close>.\<close>

definition validate_observation_payload :: "wire \<Rightarrow> (pyfloat \<Rightarrow> string) \<Rightarrow> payload \<Rightarrow> string \<Rightarrow> payload_exn + unit" where
  "validate_observation_payload w fr value observation_type =
     (if observation_type \<in> set [''event_catalog'', ''athlete_catalog''] then
        and_then (validate_catalog_payload w fr value (observation_type = ''event_catalog'')) (\<lambda>_. validate_payload_shape value)
      else
        and_then (case map_of OBSERVATION_BASES observation_type of
            Some base \<Rightarrow> check_based_rows base value
          | None \<Rightarrow> check_loose_rows value) (\<lambda>_.
        and_then (ensure (value \<notin> {PNull, PObj [], PList []}) (PValueError ''empty payload'')) (\<lambda>_.
        and_then (case value of
            PList xs \<Rightarrow>
              and_then (ensure (list_all is_obj xs) (PValueError ''generic payload'')) (\<lambda>_.
                fold_res (\<lambda>item _. record_invariants item) xs ())
          | PObj _ \<Rightarrow> check_object value
          | _ \<Rightarrow> Inr ()) (\<lambda>_.
          validate_payload_shape value))))"

definition OPPONENT_TYPES :: "string list" where
  "OPPONENT_TYPES = [''shot_types_opponent'', ''shot_zones_opponent'']"

text \<open>\<open>_validate_observation_scope_identity\<close>.\<close>

definition validate_observation_scope_identity :: "payload \<Rightarrow> string \<Rightarrow> payload \<Rightarrow> payload_exn + unit" where
  "validate_observation_scope_identity value observation_type scope =
     (if observation_type \<notin> set OPPONENT_TYPES then Inr ()
      else case entry scope ''team_id'' of
        None \<Rightarrow> invalid ''opponent team scope required''
      | Some team \<Rightarrow>
          (case int_of team of
             None \<Rightarrow> invalid ''opponent team scope invalid''
           | Some scoped_team_id \<Rightarrow>
               (case entry value ''records'' of
                  Some (PList records) \<Rightarrow>
                    fold_res (\<lambda>r _. case Option.bind (entry r ''team_id'') int_of of
                        None \<Rightarrow> invalid ''opponent observation team invalid''
                      | Some t \<Rightarrow> ensure (t = scoped_team_id) (PValueError ''opponent observation team mismatch'')) records ()
                | _ \<Rightarrow> invalid ''opponent observation rows required'')))"

text \<open>\<open>_validate_opponent_window_scope\<close>, with the reason it refuses with. The Eastern slate date of
  the cutoff (an ordinal) and the governed start of each team's last fifteen games are arguments.\<close>

definition us_date :: "int \<Rightarrow> string" where
  "us_date ordinal = (let (y, m, d) = ord2ymd ordinal in padded 2 m @ ''/'' @ padded 2 d @ ''/'' @ padded 4 y)"

definition validate_opponent_window_scope ::
  "(pyfloat \<Rightarrow> string) \<Rightarrow> payload \<Rightarrow> string \<Rightarrow> string \<Rightarrow> int \<Rightarrow> (int \<Rightarrow> string option) \<Rightarrow> string + unit" where
  "validate_opponent_window_scope fr scope observation_type season slate_date l15_date_from_by_team =
     (if observation_type \<notin> set OPPONENT_TYPES then Inr ()
      else if \<not> is_obj scope then Inl ''manifest_scope_mismatch''
      else
        let window = casefold (str_of fr (get_or scope ''window'' (PStr [])));
            endpoint_window = get_or scope ''endpoint_window'' PNull;
            expected_last_n = (if window = ''l15'' then Some (15 :: rat) else if window = ''season'' then Some 0 else None)
        in case int_of (get_or scope ''team_id'' PNull) of
             None \<Rightarrow> Inl ''manifest_scope_mismatch''
           | Some team_id \<Rightarrow>
               (let expected_date_from = (if window = ''l15'' then l15_date_from_by_team team_id else None);
                    date_from = get_or endpoint_window ''date_from'' PNull
                in if window = ''l15'' \<and> (expected_date_from = None \<or> \<not> is_obj endpoint_window
                        \<or> date_from \<noteq> (case expected_date_from of Some d \<Rightarrow> PStr d | None \<Rightarrow> PNull))
                   then Inl ''provider_window_unverified''
                   else if expected_last_n = None
                      \<or> get_or scope ''season'' PNull \<noteq> PStr season
                      \<or> get_or scope ''season_type'' PNull \<noteq> PStr ''Regular Season''
                      \<or> get_or scope ''phase'' PNull \<noteq> PStr ''Regular Season''
                      \<or> get_or scope ''value_mode'' PNull \<noteq> PStr ''totals_with_minutes''
                      \<or> \<not> is_obj endpoint_window
                      \<or> numeric (get_or endpoint_window ''last_n_games'' PNull) \<noteq> map_option Finite expected_last_n
                      \<or> date_from \<noteq> (case expected_date_from of Some d \<Rightarrow> PStr d | None \<Rightarrow> PNull)
                      \<or> get_or endpoint_window ''date_to'' PNull \<noteq> PStr (us_date slate_date)
                   then Inl ''manifest_scope_mismatch''
                   else Inr ()))"

section \<open>What the shape check accepts\<close>

primrec payload_values :: "payload \<Rightarrow> nat" where
  "payload_values PNull = 1"
| "payload_values (PBool b) = 1"
| "payload_values (PInt i) = 1"
| "payload_values (PFloat f) = 1"
| "payload_values (PStr s) = 1"
| "payload_values (PList xs) = 1 + sum_list (map payload_values xs)"
| "payload_values (PObj kvs) = 1 + sum_list (map snd (map (map_prod id payload_values) kvs))"

primrec nested_within :: "payload \<Rightarrow> nat \<Rightarrow> bool" where
  "nested_within PNull = (\<lambda>d. True)"
| "nested_within (PBool b) = (\<lambda>d. True)"
| "nested_within (PInt i) = (\<lambda>d. True)"
| "nested_within (PFloat f) = (\<lambda>d. True)"
| "nested_within (PStr s) = (\<lambda>d. True)"
| "nested_within (PList xs) = (\<lambda>d. \<forall>p \<in> set (map nested_within xs). 0 < d \<and> p (d - 1))"
| "nested_within (PObj kvs) = (\<lambda>d. \<forall>p \<in> set (map snd (map (map_prod id nested_within) kvs)). 0 < d \<and> p (d - 1))"

definition finite_number :: "payload \<Rightarrow> bool" where
  "finite_number v = (case v of
      PInt i \<Rightarrow> \<bar>i\<bar> < DOUBLE_LIMIT | PFloat f \<Rightarrow> finite_float f | _ \<Rightarrow> True)"

definition item_ok :: "(string \<times> payload) list \<Rightarrow> string \<Rightarrow> payload \<Rightarrow> bool" where
  "item_ok kvs key child \<longleftrightarrow>
     length key \<le> 512 \<and> finite_number child \<and> \<not> (is_number child \<and> count_key (lower key) \<and> negative child)
     \<and> (text_ends_with ''_made'' key \<longrightarrow>
         (\<forall>attempted a. map_of kvs (take (length key - 5) key @ ''_attempted'') = Some attempted \<longrightarrow> numeric attempted = Some a \<longrightarrow>
            (\<exists>m. numeric child = Some m \<and> \<not> float_less a m)))"

primrec shape_ok :: "payload \<Rightarrow> bool" where
  "shape_ok PNull = True"
| "shape_ok (PBool b) = True"
| "shape_ok (PInt i) = True"
| "shape_ok (PFloat f) = finite_float f"
| "shape_ok (PStr s) = True"
| "shape_ok (PList xs) = list_all id (map shape_ok xs)"
| "shape_ok (PObj kvs) =
     (\<not> truthy (get_or (PObj kvs) ''unresolved_identities'' PNull) \<and> list_all (\<lambda>(k, c). item_ok kvs k c) kvs
      \<and> list_all snd (map (map_prod id shape_ok) kvs))"

lemma float_of_finite:
  assumes "is_number v"
  shows "(\<exists>f. float_of v = Inr f \<and> finite_float f) \<longleftrightarrow> finite_number v"
  using assms by (cases v) (auto simp: is_number_def float_of_def finite_number_def finite_float_def split: if_splits)

lemma not_number_finite: "\<not> is_number v \<Longrightarrow> finite_number v"
  by (cases v) (auto simp: is_number_def finite_number_def)

lemma check_item_iff: "check_item kvs key child = Inr () \<longleftrightarrow> item_ok kvs key child"
proof -
  have 1: "(if is_number child then and_then (float_of child) (\<lambda>f.
        ensure (finite_float f \<and> \<not> (count_key (lower key) \<and> negative child)) (PValueError ''invalid numeric value'')) else Inr ()) = Inr ()
     \<longleftrightarrow> finite_number child \<and> \<not> (is_number child \<and> count_key (lower key) \<and> negative child)"
    using float_of_finite [of child] not_number_finite [of child] by (auto simp: result_simps)
  have 2: "(case m of None \<Rightarrow> Inr () | Some attempted \<Rightarrow> (case numeric attempted of None \<Rightarrow> Inr () | Some a \<Rightarrow>
        (case numeric child of None \<Rightarrow> Inl PTypeError
         | Some x \<Rightarrow> ensure (\<not> float_less a x) (PValueError ''made exceeds attempted'')))) = Inr ()
     \<longleftrightarrow> (\<forall>attempted a. m = Some attempted \<longrightarrow> numeric attempted = Some a \<longrightarrow> (\<exists>x. numeric child = Some x \<and> \<not> float_less a x))" for m
    by (auto simp: result_simps split: option.splits)
  show ?thesis unfolding check_item_def item_ok_def by (simp add: and_then_Inr ensure_Inr 1 2)
qed

lemma validate_shape_iff:
  "validate_shape d v n = Inr m \<longleftrightarrow> m = n + payload_values v \<and> d \<le> MAX_PAYLOAD_DEPTH_cp
     \<and> nested_within v (MAX_PAYLOAD_DEPTH_cp - d) \<and> n + payload_values v \<le> MAX_PAYLOAD_VALUES_cp \<and> shape_ok v"
proof (induction v arbitrary: d n m)
  case (PList xs)
  have "fold_res (validate_shape (d + 1)) xs (n + 1) = Inr m \<longleftrightarrow>
     m = n + 1 + sum_list (map payload_values xs) \<and> (xs = [] \<or> n + 1 + sum_list (map payload_values xs) \<le> MAX_PAYLOAD_VALUES_cp)
     \<and> (\<forall>x \<in> set xs. d + 1 \<le> MAX_PAYLOAD_DEPTH_cp \<and> nested_within x (MAX_PAYLOAD_DEPTH_cp - (d + 1)) \<and> shape_ok x)"
    using PList by (intro fold_count) auto
  then show ?case
    by (subst validate_shape.simps) (auto simp: list_all_iff invalid_def)
next
  case (PObj kvs)
  let ?f = "\<lambda>(key, child) n. and_then (check_item kvs key child) (\<lambda>_. validate_shape (d + 1) child n)"
  have IH: "validate_shape d' v n' = Inr m' \<longleftrightarrow> m' = n' + payload_values v \<and> d' \<le> MAX_PAYLOAD_DEPTH_cp
     \<and> nested_within v (MAX_PAYLOAD_DEPTH_cp - d') \<and> n' + payload_values v \<le> MAX_PAYLOAD_VALUES_cp \<and> shape_ok v"
    if "(k, v) \<in> set kvs" for k v d' n' m'
    using PObj [OF that] by (simp add: snds.simps)
  have "fold_res ?f kvs (n + 1) = Inr m \<longleftrightarrow>
     m = n + 1 + sum_list (map (payload_values \<circ> snd) kvs)
     \<and> (kvs = [] \<or> n + 1 + sum_list (map (payload_values \<circ> snd) kvs) \<le> MAX_PAYLOAD_VALUES_cp)
     \<and> (\<forall>x \<in> set kvs. item_ok kvs (fst x) (snd x) \<and> d + 1 \<le> MAX_PAYLOAD_DEPTH_cp
          \<and> nested_within (snd x) (MAX_PAYLOAD_DEPTH_cp - (d + 1)) \<and> shape_ok (snd x))"
    by (intro fold_count) (auto simp: IH check_item_iff and_then_Inr split: prod.split)
  then show ?case
    by (subst validate_shape.simps) (auto simp: list_all_iff comp_def invalid_def)
qed (auto simp: validate_shape.simps invalid_def)

text \<open>
  C21. The shape check of the control plane accepts exactly the documents of at most 100,000 values
  and 64 levels below the top in which, at every depth, no object reports unresolved identities,
  keys have at most 512 characters, numbers are finite (as doubles), a number under a counting key
  is not negative, and a made value beside a numeric attempted one is a number not above it. The
  traversal shares one counter across siblings and stops at the first offence; the description on
  the right looks at each object by itself.
\<close>
theorem shape_check_exact:
  "validate_payload_shape v = Inr () \<longleftrightarrow> nested_within v 64 \<and> payload_values v \<le> 100000 \<and> shape_ok v"
proof -
  have "validate_payload_shape v = Inr () \<longleftrightarrow> (\<exists>m. validate_shape 0 v 0 = Inr m)"
    by (simp add: validate_payload_shape_def result_simps)
  then show ?thesis
    by (auto simp: validate_shape_iff MAX_PAYLOAD_DEPTH_cp_def MAX_PAYLOAD_VALUES_cp_def)
qed

section \<open>What the record check accepts\<close>

text \<open>The records a document holds, itself included: those the collections named by \<open>RECORD_KEYS\<close>
  lead to, at any depth.\<close>

inductive record_of :: "payload \<Rightarrow> payload \<Rightarrow> bool" where
  self: "is_obj v \<Longrightarrow> record_of v v"
| nested: "key \<in> set RECORD_KEYS \<Longrightarrow> entry v key = Some (PList rs) \<Longrightarrow> u \<in> set rs \<Longrightarrow> is_obj u \<Longrightarrow> record_of u r \<Longrightarrow> record_of v r"

lemma fold_res_unit: "fold_res (\<lambda>x _. f x) xs () = Inr () \<longleftrightarrow> (\<forall>x \<in> set xs. f x = Inr ())"
  by (induction xs) (auto simp: result_simps)

lemma record_invariants_iff:
  "record_invariants (PObj kvs) = Inr () \<longleftrightarrow> (\<forall>(k, c) \<in> set kvs. check_record_item k c = Inr ())
     \<and> (\<forall>key \<in> set RECORD_KEYS. \<forall>rs. map_of kvs key = Some (PList rs) \<longrightarrow>
          length rs \<le> MAX_RECORDS_PER_OBSERVATION \<and> (\<forall>r \<in> set rs. is_obj r \<longrightarrow> record_invariants r = Inr ()))"
proof -
  have "(case map_of kvs key of Some (PList rs) \<Rightarrow>
        (if MAX_RECORDS_PER_OBSERVATION < length rs then invalid ''payload volume exceeds limit''
         else fold_res (\<lambda>r _. if is_obj r then record_invariants r else Inr ()) rs ())
      | _ \<Rightarrow> Inr ()) = Inr () \<longleftrightarrow> (\<forall>rs. map_of kvs key = Some (PList rs) \<longrightarrow>
          length rs \<le> MAX_RECORDS_PER_OBSERVATION \<and> (\<forall>r \<in> set rs. is_obj r \<longrightarrow> record_invariants r = Inr ()))" for key
    by (auto simp: fold_res_unit [where f = "\<lambda>r. if is_obj r then record_invariants r else Inr ()"] invalid_def
        split: option.split payload.split)
  then show ?thesis
    unfolding record_invariants.simps(1) and_then_Inr
    by (simp add: fold_res_unit [where f = "\<lambda>(key, child). check_record_item key child", simplified case_prod_unfold]
        fold_res_unit case_prod_unfold)
qed

lemma record_invariants_reach:
  assumes "record_of v r" and "record_invariants v = Inr ()"
  shows "record_invariants r = Inr ()"
  using assms
proof (induction rule: record_of.induct)
  case (nested key v rs u r)
  then obtain kvs where v: "v = PObj kvs" by (cases v) (auto simp: entry_def)
  show ?case using nested unfolding v record_invariants_iff by (auto simp: entry_def)
qed

definition top_records :: "payload \<Rightarrow> payload list" where
  "top_records v = (case v of PObj _ \<Rightarrow> [v] | PList xs \<Rightarrow> xs | _ \<Rightarrow> [])"

lemma share_within_iff:
  "share_within hi c = Inr () \<longleftrightarrow> (\<exists>q. float_of c = Inr (Finite q) \<and> 0 \<le> q \<and> q \<le> hi)"
proof (cases "float_of c")
  case (Inl e)
  then show ?thesis by (simp add: share_within_def invalid_def)
next
  case (Inr f)
  then have "is_number c" by (cases c) (auto simp: float_of_def is_number_def)
  with Inr show ?thesis by (cases f) (auto simp: share_within_def finite_float_def ensure_Inr)
qed

lemma check_record_item_iff:
  "check_record_item key c = Inr () \<longleftrightarrow>
     (lower key \<in> {''percentage'', ''percent'', ''pct''} \<longrightarrow> share_within 100 c = Inr ())
     \<and> (lower key \<in> {''share'', ''rate'', ''ratio''} \<longrightarrow> share_within 1 c = Inr ())
     \<and> \<not> (contains ''category'' (lower key) \<and> missing c)
     \<and> \<not> (lower key \<in> {''player_id'', ''team_id'', ''game_id'', ''nba_game_id'', ''identity_id''} \<and> missing c)
     \<and> \<not> (lower key \<in> {''games_played'', ''game_count'', ''volume'', ''possessions'', ''field_goal_attempts''}
          \<and> (\<not> is_number c \<or> negative c
             \<or> (case numeric c of Some x \<Rightarrow> float_less (Finite (of_int (int MAX_RECORDS_PER_OBSERVATION))) x | None \<Rightarrow> False)))"
  unfolding check_record_item_def Let_def by (simp only: and_then_Inr ensure_Inr list.set) auto

lemma accepted_top_records:
  assumes "validate_observation_payload w fr v ty = Inr ()" and "ty \<notin> {''event_catalog'', ''athlete_catalog''}"
    and "u \<in> set (top_records v)"
  shows "is_obj u \<and> record_invariants u = Inr ()"
proof -
  have "(case v of PList xs \<Rightarrow> and_then (ensure (list_all is_obj xs) (PValueError ''generic payload'')) (\<lambda>_.
          fold_res (\<lambda>item _. record_invariants item) xs ())
       | PObj _ \<Rightarrow> check_object v | _ \<Rightarrow> Inr ()) = Inr ()"
    using assms(1,2) unfolding validate_observation_payload_def by (auto simp: and_then_Inr)
  then show ?thesis using assms(3)
    by (cases v) (auto simp: top_records_def and_then_Inr ensure_Inr fold_res_unit list_all_iff check_object_def is_obj_def)
qed

text \<open>
  C22. In an accepted statistics payload, whatever record its collections lead to, at any depth: a
  percentage is a finite number between 0 and 100 and a share between 0 and 1 (as doubles), an
  identity or category that is named is present, and a volume is a number from 0 to 100,000.
\<close>
theorem accepted_records_sound:
  assumes "validate_observation_payload w fr v ty = Inr ()" and "ty \<notin> {''event_catalog'', ''athlete_catalog''}"
    and "u \<in> set (top_records v)" and "record_of u r" and "entry r key = Some c"
  shows "(lower key \<in> {''percentage'', ''percent'', ''pct''} \<longrightarrow> (\<exists>q. float_of c = Inr (Finite q) \<and> 0 \<le> q \<and> q \<le> 100))
     \<and> (lower key \<in> {''share'', ''rate'', ''ratio''} \<longrightarrow> (\<exists>q. float_of c = Inr (Finite q) \<and> 0 \<le> q \<and> q \<le> 1))
     \<and> (contains ''category'' (lower key) \<or> lower key \<in> {''player_id'', ''team_id'', ''game_id'', ''nba_game_id'', ''identity_id''}
          \<longrightarrow> c \<noteq> PNull \<and> c \<noteq> PStr [])
     \<and> (lower key \<in> {''games_played'', ''game_count'', ''volume'', ''possessions'', ''field_goal_attempts''}
          \<longrightarrow> is_number c \<and> (\<exists>q. numeric c = Some (Finite q) \<and> 0 \<le> q \<and> q \<le> 100000))"
proof -
  have "record_invariants r = Inr ()"
    using record_invariants_reach [OF assms(4)] accepted_top_records [OF assms(1-3)] by blast
  then have "check_record_item key c = Inr ()"
    using assms(5) by (cases r) (auto simp: entry_def record_invariants_iff dest!: map_of_SomeD)
  note * = this [unfolded check_record_item_iff share_within_iff]
  have "\<exists>q. numeric c = Some (Finite q) \<and> 0 \<le> q \<and> q \<le> 100000"
    if "is_number c" "\<not> negative c"
      "\<not> (case numeric c of Some x \<Rightarrow> float_less (Finite (of_int (int MAX_RECORDS_PER_OBSERVATION))) x | None \<Rightarrow> False)"
  proof -
    from that(1) have "numeric c \<noteq> None" by (cases c) (auto simp: is_number_def numeric_def)
    then obtain x where x: "numeric c = Some x" by auto
    with that(2,3) show ?thesis
      by (cases x) (auto simp: negative_def MAX_RECORDS_PER_OBSERVATION_def)
  qed
  then have 4: "lower key \<in> {''games_played'', ''game_count'', ''volume'', ''possessions'', ''field_goal_attempts''}
      \<longrightarrow> is_number c \<and> (\<exists>q. numeric c = Some (Finite q) \<and> 0 \<le> q \<and> q \<le> 100000)"
    using * by blast
  have 3: "contains ''category'' (lower key) \<or> lower key \<in> {''player_id'', ''team_id'', ''game_id'', ''nba_game_id'', ''identity_id''}
      \<longrightarrow> c \<noteq> PNull \<and> c \<noteq> PStr []"
    using * unfolding missing_def by blast
  from * 3 4 show ?thesis by blast
qed

definition sample_payload :: payload where
  "sample_payload = PObj [(''rows'', PList [PObj [(''player_id'', PInt 7), (''slice'', PStr ''Isolation''), (''pct'', PFloat (Finite 50)),
     (''games'', PList [PObj [(''game_id'', PStr ''g1''), (''share'', PFloat (Finite 1)), (''volume'', PInt 3)]])]])]"

definition sample_game :: payload where
  "sample_game = PObj [(''game_id'', PStr ''g1''), (''share'', PFloat (Finite 1)), (''volume'', PInt 3)]"

definition sample_wire :: wire where
  "sample_wire = \<lparr>sha256_hex = (\<lambda>_. []), gzip = id, read_document = (\<lambda>_. None), fromisoformat = (\<lambda>_. BadText)\<rparr>"
lemma sample_accepted: "validate_observation_payload sample_wire (\<lambda>_. []) sample_payload ''synergy'' = Inr ()"
  by code_simp

lemma sample_record: "record_of sample_payload sample_game"
proof -
  have g: "record_of sample_game sample_game" by (rule record_of.self) (simp add: sample_game_def is_obj_def)
  let ?row = "PObj [(''player_id'', PInt 7), (''slice'', PStr ''Isolation''), (''pct'', PFloat (Finite 50)),
     (''games'', PList [sample_game])]"
  have "record_of ?row sample_game"
    by (rule record_of.nested [where key = "''games''" and rs = "[sample_game]", OF _ _ _ _ g])
      (simp_all add: RECORD_KEYS_def entry_def sample_game_def is_obj_def)
  then show ?thesis
    by (rule record_of.nested [where key = "''rows''" and rs = "[?row]", rotated 4])
      (simp_all add: RECORD_KEYS_def entry_def sample_payload_def sample_game_def is_obj_def)
qed

theorem accepted_records_sound_witness:
  "\<exists>q. float_of (PFloat (Finite 1)) = Inr (Finite q) \<and> 0 \<le> q \<and> q \<le> 1"
proof -
  have l: "lower ''share'' = ''share''" by code_simp
  have "sample_payload \<in> set (top_records sample_payload)" by (simp add: top_records_def sample_payload_def)
  moreover have "entry sample_game ''share'' = Some (PFloat (Finite 1))"
    by (simp add: entry_def sample_game_def)
  ultimately show ?thesis
    using accepted_records_sound [OF sample_accepted _ _ sample_record, of "''share''" "PFloat (Finite 1)"] by (simp add: l)
qed

section \<open>Payloads that make the validators raise\<close>

text \<open>A made value that is no number beside a numeric attempted one, and an integer beyond the
  doubles: neither exception is one the callers of the validators handle.\<close>

lemma made_text_raises:
  "validate_observation_payload w fr (PObj [(''rows'', PList [PObj [(''fg_made'', PStr ''5''), (''fg_attempted'', PInt 3)]])]) []
     = Inl PTypeError"
  by code_simp

lemma huge_integer_raises:
  assumes "DOUBLE_LIMIT \<le> i"
  shows "validate_observation_payload w fr (PObj [(''rows'', PList [PObj [(''x'', PInt i)]])]) [] = Inl POverflowError"
proof -
  have [simp]: "lower ''x'' = ''x''" "\<not> contains ''category'' ''x''" "\<not> text_ends_with ''_made'' ''x''" "lower ''rows'' = ''rows''"
    "\<not> contains ''category'' ''rows''" "\<not> text_ends_with ''_made'' ''rows''" by code_simp+
  have f: "float_of (PInt i) = Inl POverflowError" using assms by (simp add: float_of_def DOUBLE_LIMIT_def)
  have *: "validate_shape d (PObj [(''x'', PInt i)]) n = Inl POverflowError" if "d \<le> 64" "n < 100000" for d n
    using that by (subst validate_shape.simps)
      (simp add: check_item_def is_number_def f MAX_PAYLOAD_DEPTH_cp_def MAX_PAYLOAD_VALUES_cp_def get_or_def entry_def truthy_def)
  then show ?thesis
    by (simp add: validate_observation_payload_def OBSERVATION_BASES_def check_loose_rows_def check_object_def ROW_KEYS_def
        COLLECTION_KEYS_def NONEMPTY_KEYS_def RECORD_KEYS_def record_list_def entry_def get_or_def is_obj_def truthy_def missing_def
        check_record_item_def record_invariants.simps validate_payload_shape_def validate_shape.simps [of 0]
        validate_shape.simps [of "Suc 0"] f * check_item_def is_number_def MAX_RECORDS_PER_OBSERVATION_def MAX_PAYLOAD_DEPTH_cp_def MAX_PAYLOAD_VALUES_cp_def)
qed

end
