(* ===== verification/Collector_Tokens.thy ===== *)
theory Collector_Tokens
  imports Payloads
begin

text \<open>
  Machine identities of the control plane (\<open>services/collection_control.py\<close>, class
  \<open>CollectorTokenService\<close> with \<open>_claims_allow_surface\<close> and \<open>_identity_matches_claims\<close>): identities,
  the signed short-lived tokens issued to them, validation with optional single use, revocation,
  rotation of the secret with an overlap, and the one-time delivery of the replacement.

  The signature (HMAC-SHA-256), the derived secret digest (PBKDF2) and the sealed delivery (Fernet)
  are functions of the record \<open>crypto\<close>, as is the reader of a JSON text; Base64 is modelled. Random
  identifiers, secrets and salts are arguments. A frozen set is stored as its sorted list. The
  details an audit event carries beside its five columns are not kept.
\<close>

section \<open>Base64 with the URL alphabet\<close>

definition b64_char :: "nat \<Rightarrow> char" where
  "b64_char n = (if n < 26 then char_of (65 + n) else if n < 52 then char_of (71 + n)
     else if n < 62 then char_of (n - 4) else if n = 62 then CHR ''-'' else CHR ''_'')"

definition b64_value :: "char \<Rightarrow> nat option" where
  "b64_value c =
     (let n = of_char c :: nat
      in if 65 \<le> n \<and> n \<le> 90 then Some (n - 65) else if 97 \<le> n \<and> n \<le> 122 then Some (n - 71)
         else if 48 \<le> n \<and> n \<le> 57 then Some (n + 4) else if c = CHR ''-'' \<or> c = CHR ''+'' then Some 62
         else if c = CHR ''_'' \<or> c = CHR ''/'' then Some 63 else None)"

text \<open>\<open>base64.urlsafe_b64encode(data).decode().rstrip("=")\<close>.\<close>

fun b64_encode :: "nat list \<Rightarrow> string" where
  "b64_encode (a # b # c # xs) =
     b64_char (a div 4) # b64_char (a mod 4 * 16 + b div 16) # b64_char (b mod 16 * 4 + c div 64) # b64_char (c mod 64)
     # b64_encode xs"
| "b64_encode [a, b] = [b64_char (a div 4), b64_char (a mod 4 * 16 + b div 16), b64_char (b mod 16 * 4)]"
| "b64_encode [a] = [b64_char (a div 4), b64_char (a mod 4 * 16)]"
| "b64_encode [] = []"

text \<open>\<open>base64.urlsafe_b64decode\<close>, which skips characters outside the alphabet: the position in the
  current group of four, the bits left over and the padding characters seen are the state.\<close>

fun b64_scan :: "string \<Rightarrow> nat \<Rightarrow> nat \<Rightarrow> nat \<Rightarrow> nat list option" where
  "b64_scan [] q l p = (if q = 0 then Some [] else None)"
| "b64_scan (c # s) q l p =
     (if c = CHR ''='' then
        (if 2 \<le> q then (if 4 \<le> q + (p + 1) then Some [] else b64_scan s q l (p + 1)) else b64_scan s q l p)
      else case b64_value c of
        None \<Rightarrow> b64_scan s q l p
      | Some v \<Rightarrow>
          (if q = 0 then b64_scan s 1 v 0
           else if q = 1 then map_option (Cons (l * 4 + v div 16)) (b64_scan s 2 (v mod 16) 0)
           else if q = 2 then map_option (Cons (l * 16 + v div 4)) (b64_scan s 3 (v mod 4) 0)
           else map_option (Cons (l * 64 + v)) (b64_scan s 0 0 0)))"

definition ascii :: "string \<Rightarrow> bool" where
  "ascii s \<longleftrightarrow> list_all (\<lambda>c. (of_char c :: nat) < 128) s"

definition b64_decode :: "string \<Rightarrow> nat list option" where
  "b64_decode s = (if ascii s then b64_scan s 0 0 0 else None)"

section \<open>Identities and claims\<close>

record crypto =
  cr_mac :: "nat list \<Rightarrow> string \<Rightarrow> nat list"
  cr_derive :: "string \<Rightarrow> nat list \<Rightarrow> string"
  cr_seal :: "nat list \<Rightarrow> string \<Rightarrow> string"
  cr_unseal :: "nat list \<Rightarrow> string \<Rightarrow> string option"
  cr_loads :: "nat list \<Rightarrow> payload option"
  cr_float_text :: "pyfloat \<Rightarrow> string"

record token_service =
  ts_environment :: string
  ts_signing_secret :: "nat list"

record CollectorIdentity =
  ci_id :: string
  ci_label :: string
  ci_environment :: string
  ci_audience :: string
  ci_secret_hash :: string
  ci_previous_hash :: "string option"
  ci_previous_expires :: "instant option"
  ci_scopes :: "string list"
  ci_owner :: string
  ci_providers :: "string list"
  ci_surfaces :: "string list"
  ci_created_at :: instant
  ci_revoked_at :: "instant option"
  ci_last_seen_at :: "instant option"
  ci_release :: "(string \<times> string) option"

record CollectorClaims =
  cl_collector_id :: string
  cl_audience :: string
  cl_environment :: string
  cl_scopes :: "string set"
  cl_token_id :: string
  cl_expires_at :: instant
  cl_owner :: string
  cl_providers :: "string set"
  cl_surfaces :: "string set"

record CredentialDelivery =
  cd_id :: string
  cd_identity :: string
  cd_encrypted_secret :: string
  cd_created_at :: instant
  cd_expires_at :: instant
  cd_retrieved_at :: "instant option"

record CollectorTokenReplay =
  tr_token_id :: string
  tr_collector_id :: string
  tr_expires_at :: instant

record CollectorStatusTransition =
  st_collector_id :: string
  st_state :: string
  st_reason :: string
  st_release :: "string \<times> string"
  st_created_at :: instant

record TokenAudit =
  ta_actor :: string
  ta_action :: string
  ta_resource :: string
  ta_reason :: string
  ta_created_at :: instant

record token_db =
  td_identities :: "CollectorIdentity list"
  td_usage :: "(string \<times> instant) list"
  td_replays :: "CollectorTokenReplay list"
  td_deliveries :: "CredentialDelivery list"
  td_transitions :: "CollectorStatusTransition list"
  td_audits :: "TokenAudit list"

text \<open>A refusal, and the two exceptions that leave an operation as they are: \<open>compare_digest\<close> on a
  text that is not ASCII (or an iteration of a value that is no collection), and a duplicate key.\<close>

datatype token_error = TokenRefused string | TokenTypeError | TokenIntegrityError

abbreviation deny :: "string \<Rightarrow> token_error + 'a" where
  "deny reason \<equiv> Inl (TokenRefused reason)"

abbreviation require :: "bool \<Rightarrow> string \<Rightarrow> token_error + unit" where
  "require b reason \<equiv> ensure b (TokenRefused reason)"

definition get_identity :: "string \<Rightarrow> token_db \<Rightarrow> CollectorIdentity option" where
  "get_identity i db = find (\<lambda>r. ci_id r = i) (td_identities db)"

definition set_identity :: "CollectorIdentity \<Rightarrow> token_db \<Rightarrow> token_db" where
  "set_identity r db = db\<lparr>td_identities := update_where (\<lambda>q. ci_id q = ci_id r) (\<lambda>_. r) (td_identities db)\<rparr>"

definition get_delivery :: "string \<Rightarrow> token_db \<Rightarrow> CredentialDelivery option" where
  "get_delivery i db = find (\<lambda>r. cd_id r = i) (td_deliveries db)"

definition set_retrieved :: "string \<Rightarrow> instant \<Rightarrow> token_db \<Rightarrow> token_db" where
  "set_retrieved i now db = db\<lparr>td_deliveries := update_where (\<lambda>r. cd_id r = i) (\<lambda>r. r\<lparr>cd_retrieved_at := Some now\<rparr>) (td_deliveries db)\<rparr>"

definition add_audit :: "string \<Rightarrow> string \<Rightarrow> string \<Rightarrow> string \<Rightarrow> instant \<Rightarrow> token_db \<Rightarrow> token_db" where
  "add_audit actor action resource reason now db = db\<lparr>td_audits := td_audits db @
     [\<lparr>ta_actor = take 128 actor, ta_action = take 64 action, ta_resource = take 128 resource, ta_reason = take 255 reason,
       ta_created_at = now\<rparr>]\<rparr>"

text \<open>\<open>sorted(frozenset(...))\<close> of strip_all texts, blank ones left out.\<close>

definition stored_set :: "string list \<Rightarrow> string list" where
  "stored_set xs = sort (remdups xs)"

definition strip_all :: "string list \<Rightarrow> string list" where
  "strip_all xs = filter (\<lambda>s. s \<noteq> []) (map strip xs)"

definition MAX_SCOPE_COUNT :: nat where "MAX_SCOPE_COUNT = 512"

section \<open>Secrets\<close>

definition hash_secret :: "crypto \<Rightarrow> string \<Rightarrow> nat list \<Rightarrow> string" where
  "hash_secret cr secret salt = b64_encode salt @ ''$'' @ cr_derive cr secret salt"

text \<open>\<open>compare_digest\<close> of a digest that is not ASCII raises the \<open>TypeError\<close> caught here.\<close>

definition verify_secret :: "crypto \<Rightarrow> string \<Rightarrow> string \<Rightarrow> bool" where
  "verify_secret cr secret encoded =
     (case split_once ''$'' encoded of
        None \<Rightarrow> False
      | Some (salt_text, digest) \<Rightarrow>
          (case b64_decode (salt_text @ ''==='') of
             None \<Rightarrow> False
           | Some salt \<Rightarrow> ascii digest \<and> cr_derive cr secret salt = digest))"

definition secret_accepted :: "crypto \<Rightarrow> string \<Rightarrow> CollectorIdentity \<Rightarrow> instant \<Rightarrow> bool" where
  "secret_accepted cr secret r now \<longleftrightarrow>
     verify_secret cr secret (ci_secret_hash r)
     \<or> (case (ci_previous_hash r, ci_previous_expires r) of
          (Some h, Some expires) \<Rightarrow> now < expires \<and> verify_secret cr secret h
        | _ \<Rightarrow> False)"

definition create_identity ::
  "crypto \<Rightarrow> token_service \<Rightarrow> string \<Rightarrow> string \<Rightarrow> string list \<Rightarrow> string \<Rightarrow> string \<Rightarrow> string list \<Rightarrow> string list
     \<Rightarrow> string \<Rightarrow> nat list \<Rightarrow> instant \<Rightarrow> token_db \<Rightarrow> token_error + unit \<times> token_db" where
  "create_identity cr ts label audience scopes identity_id owner providers surfaces secret salt now db =
     (let scope_set = stored_set (strip_all scopes); provider_set = stored_set (strip_all providers);
          surface_set = stored_set (strip_all surfaces)
      in and_then (require (strip label \<noteq> [] \<and> strip audience \<noteq> []) ''invalid_identity'') (\<lambda>_.
         and_then (require (strip owner \<noteq> [] \<and> provider_set \<noteq> [] \<and> surface_set \<noteq> []) ''surface_scope_required'') (\<lambda>_.
         and_then (require (length scope_set \<le> MAX_SCOPE_COUNT \<and> length provider_set \<le> MAX_SCOPE_COUNT
             \<and> length surface_set \<le> MAX_SCOPE_COUNT) ''scope_limit'') (\<lambda>_.
         and_then (ensure (get_identity identity_id db = None) TokenIntegrityError) (\<lambda>_.
           Inr ((), db\<lparr>td_identities := td_identities db @
               [\<lparr>ci_id = identity_id, ci_label = strip label, ci_environment = ts_environment ts, ci_audience = strip audience,
                 ci_secret_hash = hash_secret cr secret salt, ci_previous_hash = None, ci_previous_expires = None,
                 ci_scopes = scope_set, ci_owner = strip owner, ci_providers = provider_set, ci_surfaces = surface_set,
                 ci_created_at = now, ci_revoked_at = None, ci_last_seen_at = None, ci_release = None\<rparr>],
               td_usage := td_usage db @ [(identity_id, now)]\<rparr>))))))"

section \<open>Tokens\<close>

text \<open>The escapes of \<open>json.dumps\<close> with its default \<open>ensure_ascii\<close>, over the text without them.\<close>

definition ascii_escapes :: "string \<Rightarrow> string" where
  "ascii_escapes s = concat (map (\<lambda>c. let n = of_char c :: nat in
     if 127 \<le> n then CHR 0x5C # ''u00'' @ [hex_digit (n div 16), hex_digit (n mod 16)] else [c]) s)"

definition claims_text :: "crypto \<Rightarrow> payload \<Rightarrow> nat list" where
  "claims_text cr claims = utf8 (ascii_escapes (dumps (cr_float_text cr) True claims))"

definition encode_claims :: "crypto \<Rightarrow> payload \<Rightarrow> string" where
  "encode_claims cr claims = b64_encode (claims_text cr claims)"

definition sign :: "crypto \<Rightarrow> token_service \<Rightarrow> string \<Rightarrow> string" where
  "sign cr ts body = b64_encode (cr_mac cr (ts_signing_secret ts) body)"

definition str_list :: "string list \<Rightarrow> payload" where
  "str_list xs = PList (map PStr xs)"

definition token_claims ::
  "token_service \<Rightarrow> CollectorIdentity \<Rightarrow> string list \<Rightarrow> string list \<Rightarrow> string list \<Rightarrow> string \<Rightarrow> instant \<Rightarrow> int \<Rightarrow> payload" where
  "token_claims ts r scopes providers surfaces token_id now ttl = PObj
     [(''sub'', PStr (ci_id r)), (''aud'', PStr (ci_audience r)), (''env'', PStr (ts_environment ts)), (''scope'', str_list scopes),
      (''iat'', PInt (now div 1000000)), (''exp'', PInt ((now + ttl * 1000000) div 1000000)), (''jti'', PStr token_id),
      (''owner'', PStr (ci_owner r)), (''providers'', str_list providers), (''surfaces'', str_list surfaces)]"

definition issue ::
  "crypto \<Rightarrow> token_service \<Rightarrow> string \<Rightarrow> string list option \<Rightarrow> string list option \<Rightarrow> string list option \<Rightarrow> int
     \<Rightarrow> string \<Rightarrow> instant \<Rightarrow> token_db \<Rightarrow> token_error + string \<times> token_db" where
  "issue cr ts identity_id scopes providers surfaces ttl token_id now db =
     and_then (require (1 \<le> ttl \<and> ttl \<le> 900) ''invalid_token_ttl'') (\<lambda>_.
     case get_identity identity_id db of
       None \<Rightarrow> deny ''identity_revoked''
     | Some r \<Rightarrow>
         and_then (require (ci_revoked_at r = None \<and> ci_environment r = ts_environment ts) ''identity_revoked'') (\<lambda>_.
         let requested = (case scopes of None \<Rightarrow> ci_scopes r | Some xs \<Rightarrow> map strip xs) in
         and_then (require (set requested \<subseteq> set (ci_scopes r)) ''scope_denied'') (\<lambda>_.
         let requested_providers = (case providers of None \<Rightarrow> ci_providers r | Some xs \<Rightarrow> strip_all xs);
             requested_surfaces = (case surfaces of None \<Rightarrow> ci_surfaces r | Some xs \<Rightarrow> strip_all xs) in
         and_then (require (requested_providers \<noteq> [] \<and> requested_surfaces \<noteq> []) ''surface_scope_required'') (\<lambda>_.
         and_then (require (set requested_providers \<subseteq> set (ci_providers r) \<and> set requested_surfaces \<subseteq> set (ci_surfaces r))
           ''scope_denied'') (\<lambda>_.
         let body = encode_claims cr (token_claims ts r (stored_set requested) (stored_set requested_providers)
               (stored_set requested_surfaces) token_id now ttl) in
           Inr (body @ ''.'' @ sign cr ts body,
             add_audit identity_id ''collector.token_issued'' identity_id ''token_issued'' now db))))))"

definition issue_for_secret ::
  "crypto \<Rightarrow> token_service \<Rightarrow> string \<Rightarrow> string \<Rightarrow> string list option \<Rightarrow> string list option \<Rightarrow> string list option \<Rightarrow> int
     \<Rightarrow> string \<Rightarrow> instant \<Rightarrow> instant \<Rightarrow> token_db \<Rightarrow> token_error + string \<times> token_db" where
  "issue_for_secret cr ts identity_id secret scopes providers surfaces ttl token_id now now' db =
     (case get_identity identity_id db of
        None \<Rightarrow> deny ''identity_revoked''
      | Some r \<Rightarrow>
          and_then (require (ci_revoked_at r = None) ''identity_revoked'') (\<lambda>_.
          and_then (require (secret_accepted cr secret r now) ''invalid_identity_secret'') (\<lambda>_.
            issue cr ts identity_id scopes providers surfaces ttl token_id now' db)))"

section \<open>Validation\<close>

definition iter_texts :: "(pyfloat \<Rightarrow> string) \<Rightarrow> payload \<Rightarrow> string list option" where
  "iter_texts fr v = (case v of
      PList xs \<Rightarrow> Some (map (str_of fr) xs) | PStr s \<Rightarrow> Some (map (\<lambda>c. [c]) s) | PObj kvs \<Rightarrow> Some (map fst kvs) | _ \<Rightarrow> None)"

text \<open>What \<open>validate\<close> reads of a token before it trusts it: the body, the signature, the document, the
  identity, the token's own identifier and the expiry.\<close>

definition read_token :: "crypto \<Rightarrow> string \<Rightarrow> token_error + string \<times> string \<times> payload \<times> string \<times> string \<times> instant" where
  "read_token cr token =
     (case split_once ''.'' token of
        None \<Rightarrow> deny ''invalid_token''
      | Some (body, signature) \<Rightarrow>
          (case Option.bind (b64_decode (body @ ''==='')) (cr_loads cr) of
             None \<Rightarrow> deny ''invalid_token''
           | Some document \<Rightarrow>
               (case (entry document ''sub'', entry document ''jti'', Option.bind (entry document ''exp'') int_of) of
                  (Some sub, Some jti, Some seconds) \<Rightarrow>
                    (if in_calendar (seconds * 1000000)
                     then Inr (body, signature, document, str_of (cr_float_text cr) sub, str_of (cr_float_text cr) jti, seconds * 1000000)
                     else deny ''invalid_token'')
                | _ \<Rightarrow> deny ''invalid_token'')))"

text \<open>\<open>hmac.compare_digest\<close> of two texts.\<close>

definition compare_digest :: "string \<Rightarrow> string \<Rightarrow> token_error + bool" where
  "compare_digest a b = (if ascii a \<and> ascii b then Inr (a = b) else Inl TokenTypeError)"

definition token_matches ::
  "crypto \<Rightarrow> token_service \<Rightarrow> CollectorIdentity \<Rightarrow> payload \<Rightarrow> string option \<Rightarrow> instant \<Rightarrow> instant \<Rightarrow> token_error + bool" where
  "token_matches cr ts r document audience expires now =
     (if PStr (ci_environment r) = get_or document ''env'' PNull \<and> ci_environment r = ts_environment ts
         \<and> (case audience of None \<Rightarrow> True | Some a \<Rightarrow> get_or document ''aud'' PNull = PStr a)
      then and_then (compare_digest (str_of (cr_float_text cr) (get_or document ''aud'' (PStr []))) (ci_audience r))
             (\<lambda>same. Inr (same \<and> now < expires))
      else Inr False)"

definition consume_token :: "bool \<Rightarrow> string \<Rightarrow> string \<Rightarrow> instant \<Rightarrow> token_db \<Rightarrow> token_error + token_db" where
  "consume_token consume token_id identity_id expires db =
     (if \<not> consume then Inr db
      else if \<exists>t \<in> set (td_replays db). tr_token_id t = token_id then deny ''token_replayed''
      else Inr (db\<lparr>td_replays := td_replays db @
             [\<lparr>tr_token_id = token_id, tr_collector_id = identity_id, tr_expires_at = expires\<rparr>]\<rparr>))"

text \<open>The binding to owner, providers and surfaces, read from the document.\<close>

definition read_binding :: "crypto \<Rightarrow> payload \<Rightarrow> token_error + string \<times> string list \<times> string list" where
  "read_binding cr document =
     (let fr = cr_float_text cr
      in case (Option.bind (entry document ''providers'') (iter_texts fr), Option.bind (entry document ''surfaces'') (iter_texts fr),
               entry document ''owner'') of
           (Some providers, Some surfaces, Some owner) \<Rightarrow> Inr (str_of fr owner, providers, surfaces)
         | _ \<Rightarrow> deny ''invalid_token'')"

definition validate ::
  "crypto \<Rightarrow> token_service \<Rightarrow> string \<Rightarrow> string option \<Rightarrow> string option \<Rightarrow> bool \<Rightarrow> instant \<Rightarrow> token_db
     \<Rightarrow> token_error + CollectorClaims \<times> token_db" where
  "validate cr ts token required_scope audience consume now db =
     and_then (read_token cr token) (\<lambda>(body, signature, document, identity_id, token_id, expires).
     and_then (compare_digest signature (sign cr ts body)) (\<lambda>genuine.
     and_then (require genuine ''invalid_token'') (\<lambda>_.
     case get_identity identity_id db of
       None \<Rightarrow> deny ''identity_revoked''
     | Some r \<Rightarrow>
         and_then (require (ci_revoked_at r = None) ''identity_revoked'') (\<lambda>_.
         and_then (token_matches cr ts r document audience expires now) (\<lambda>valid.
         and_then (require valid ''invalid_token'') (\<lambda>_.
         and_then (of_option TokenTypeError (iter_texts (cr_float_text cr) (get_or document ''scope'' (PList [])))) (\<lambda>scopes.
         and_then (require (set scopes \<subseteq> set (ci_scopes r)) ''scope_denied'') (\<lambda>_.
         and_then (require (case required_scope of None \<Rightarrow> True | Some s \<Rightarrow> s = [] \<or> s \<in> set scopes) ''scope_denied'') (\<lambda>_.
         and_then (consume_token consume token_id identity_id expires db) (\<lambda>db1.
         let db2 = set_identity (r\<lparr>ci_last_seen_at := Some now\<rparr>) db1 in
         and_then (read_binding cr document) (\<lambda>(owner, providers, surfaces).
         and_then (require (owner \<noteq> [] \<and> owner = ci_owner r \<and> providers \<noteq> [] \<and> set providers \<subseteq> set (ci_providers r)
             \<and> surfaces \<noteq> [] \<and> set surfaces \<subseteq> set (ci_surfaces r)) ''scope_denied'') (\<lambda>_.
           Inr (\<lparr>cl_collector_id = identity_id, cl_audience = str_of (cr_float_text cr) (get_or document ''aud'' (PStr [])),
                 cl_environment = ts_environment ts, cl_scopes = set scopes, cl_token_id = token_id, cl_expires_at = expires,
                 cl_owner = owner, cl_providers = set providers, cl_surfaces = set surfaces\<rparr>,
               add_audit identity_id ''collector.token_used'' identity_id ''token_used'' now db2)))))))))))))"

section \<open>Revocation, status and rotation\<close>

definition revoke :: "string \<Rightarrow> instant \<Rightarrow> token_db \<Rightarrow> token_error + unit \<times> token_db" where
  "revoke identity_id now db =
     (case get_identity identity_id db of
        None \<Rightarrow> deny ''identity_not_found''
      | Some r \<Rightarrow> Inr ((), add_audit ''operator'' ''collector.revoked'' identity_id ''collector_revoked'' now
          (set_identity (r\<lparr>ci_revoked_at := Some now\<rparr>) db)))"

text \<open>\<open>_identity_matches_claims\<close> and \<open>_claims_allow_surface\<close>.\<close>

definition identity_matches_claims :: "CollectorIdentity \<Rightarrow> CollectorClaims \<Rightarrow> bool" where
  "identity_matches_claims r claims \<longleftrightarrow>
     ci_id r = cl_collector_id claims \<and> ci_revoked_at r = None \<and> ci_environment r = cl_environment claims
     \<and> ci_owner r = cl_owner claims \<and> cl_providers claims \<subseteq> set (ci_providers r) \<and> cl_surfaces claims \<subseteq> set (ci_surfaces r)"

definition alnum :: "char \<Rightarrow> bool" where
  "alnum c \<longleftrightarrow> is_digit c \<or> (let n = of_char c :: nat in 65 \<le> n \<and> n \<le> 90 \<or> 97 \<le> n \<and> n \<le> 122)"

definition small_letter :: "char \<Rightarrow> bool" where
  "small_letter c \<longleftrightarrow> (let n = of_char c :: nat in 97 \<le> n \<and> n \<le> 122)"

definition release_version_ok :: "string \<Rightarrow> bool" where
  "release_version_ok s = (case s of [] \<Rightarrow> False
     | c # cs \<Rightarrow> alnum c \<and> length cs \<le> 63 \<and> list_all (\<lambda>d. alnum d \<or> d \<in> set ''._+-'') cs)"

definition release_checksum_ok :: "string \<Rightarrow> bool" where
  "release_checksum_ok s \<longleftrightarrow> length s = 64 \<and> list_all (\<lambda>c. is_digit c \<or> c \<in> set ''abcdef'') s"

definition status_reason_ok :: "string \<Rightarrow> bool" where
  "status_reason_ok s = (case s of [] \<Rightarrow> False
     | c # cs \<Rightarrow> small_letter c \<and> length cs \<le> 79 \<and> list_all (\<lambda>d. small_letter d \<or> is_digit d \<or> d = CHR ''_'') cs)"

definition COLLECTOR_STATES :: "string list" where
  "COLLECTOR_STATES = [''running'', ''no_work'', ''complete'', ''retry'', ''non_retryable'', ''busy'']"

text \<open>The latest transition of one collector: the greatest creation time, the newest row of equal ones.\<close>

definition latest_transition :: "string \<Rightarrow> token_db \<Rightarrow> CollectorStatusTransition option" where
  "latest_transition i db =
     (case sort_key (\<lambda>t. - st_created_at t) (rev (filter (\<lambda>t. st_collector_id t = i) (td_transitions db))) of
        [] \<Rightarrow> None
      | t # _ \<Rightarrow> Some t)"

definition report_status ::
  "CollectorClaims \<Rightarrow> string \<Rightarrow> string \<Rightarrow> string \<Rightarrow> string \<Rightarrow> instant \<Rightarrow> token_db \<Rightarrow> token_error + unit \<times> token_db" where
  "report_status claims release_version release_checksum state reason now db =
     (let version = strip release_version; checksum = lower (strip release_checksum); state = lower (strip state);
          reason = lower (strip reason)
      in and_then (require (release_version_ok version \<and> release_checksum_ok checksum \<and> state \<in> set COLLECTOR_STATES
            \<and> status_reason_ok reason) ''invalid_release_status'') (\<lambda>_.
         case get_identity (cl_collector_id claims) db of
           None \<Rightarrow> deny ''invalid_token''
         | Some r \<Rightarrow>
             and_then (require (identity_matches_claims r claims) ''invalid_token'') (\<lambda>_.
               let transition_reason =
                 (if state \<in> set [''complete'', ''no_work'']
                     \<and> (case latest_transition (cl_collector_id claims) db of
                          None \<Rightarrow> False
                        | Some t \<Rightarrow> st_state t \<in> set [''retry'', ''non_retryable'', ''busy''])
                  then ''recovery'' else reason)
               in Inr ((), (set_identity (r\<lparr>ci_release := Some (version, checksum), ci_last_seen_at := Some now\<rparr>) db)
                    \<lparr>td_transitions := td_transitions db @
                       [\<lparr>st_collector_id = cl_collector_id claims, st_state = state, st_reason = transition_reason,
                         st_release = (version, checksum), st_created_at = now\<rparr>]\<rparr>))))"

definition rotate_secret ::
  "crypto \<Rightarrow> token_service \<Rightarrow> string \<Rightarrow> int \<Rightarrow> string \<Rightarrow> nat list \<Rightarrow> string \<Rightarrow> instant \<Rightarrow> token_db \<Rightarrow> token_error + unit \<times> token_db" where
  "rotate_secret cr ts identity_id overlap secret salt delivery_id now db =
     and_then (require (0 \<le> overlap) ''invalid_rotation_window'') (\<lambda>_.
     case get_identity identity_id db of
       None \<Rightarrow> deny ''identity_revoked''
     | Some r \<Rightarrow>
         and_then (require (ci_revoked_at r = None) ''identity_revoked'') (\<lambda>_.
         and_then (ensure (get_delivery delivery_id db = None) TokenIntegrityError) (\<lambda>_.
           Inr ((), add_audit ''operator'' ''collector.rotated'' identity_id ''collector_rotated'' now
             ((set_identity (r\<lparr>ci_previous_hash := Some (ci_secret_hash r),
                 ci_previous_expires := Some (now + overlap * 1000000), ci_secret_hash := hash_secret cr secret salt\<rparr>) db)
              \<lparr>td_deliveries := td_deliveries db @
                 [\<lparr>cd_id = delivery_id, cd_identity = identity_id, cd_encrypted_secret = cr_seal cr (ts_signing_secret ts) secret,
                   cd_created_at = now, cd_expires_at = now + 24 * 3600 * 1000000, cd_retrieved_at = None\<rparr>]\<rparr>)))))"

definition open_delivery :: "string \<Rightarrow> instant \<Rightarrow> token_db \<Rightarrow> token_error + CredentialDelivery" where
  "open_delivery delivery_id now db =
     (case get_delivery delivery_id db of
        None \<Rightarrow> deny ''credential_delivery_unavailable''
      | Some d \<Rightarrow> (if cd_retrieved_at d = None \<and> now < cd_expires_at d then Inr d else deny ''credential_delivery_unavailable''))"

definition unsealed :: "crypto \<Rightarrow> token_service \<Rightarrow> CredentialDelivery \<Rightarrow> token_error + string" where
  "unsealed cr ts d = of_option (TokenRefused ''credential_delivery_unavailable'') (cr_unseal cr (ts_signing_secret ts) (cd_encrypted_secret d))"

definition retrieve_delivery ::
  "crypto \<Rightarrow> token_service \<Rightarrow> string \<Rightarrow> instant \<Rightarrow> token_db \<Rightarrow> token_error + (string \<times> string) \<times> token_db" where
  "retrieve_delivery cr ts delivery_id now db =
     and_then (open_delivery delivery_id now db) (\<lambda>d.
     and_then (unsealed cr ts d) (\<lambda>secret.
       Inr ((cd_identity d, secret), set_retrieved delivery_id now db)))"

definition delivery_metadata :: "string \<Rightarrow> token_db \<Rightarrow> token_error + string \<times> string \<times> instant \<times> bool" where
  "delivery_metadata delivery_id db =
     (case get_delivery delivery_id db of
        None \<Rightarrow> deny ''credential_delivery_unavailable''
      | Some d \<Rightarrow> Inr (cd_id d, cd_identity d, cd_expires_at d, cd_retrieved_at d \<noteq> None))"

definition claim_delivery ::
  "crypto \<Rightarrow> token_service \<Rightarrow> string \<Rightarrow> string \<Rightarrow> string \<Rightarrow> instant \<Rightarrow> token_db \<Rightarrow> token_error + string \<times> token_db" where
  "claim_delivery cr ts delivery_id collector_id presented_secret now db =
     and_then (open_delivery delivery_id now db) (\<lambda>d.
     and_then (require (cd_identity d = collector_id) ''credential_delivery_unavailable'') (\<lambda>_.
     case get_identity collector_id db of
       None \<Rightarrow> deny ''identity_revoked''
     | Some r \<Rightarrow>
         and_then (require (ci_revoked_at r = None) ''identity_revoked'') (\<lambda>_.
         and_then (require (secret_accepted cr presented_secret r now) ''invalid_identity_secret'') (\<lambda>_.
         and_then (unsealed cr ts d) (\<lambda>secret.
           Inr (secret, add_audit collector_id ''collector.credential_claimed'' delivery_id ''credential_claimed'' now
             (set_retrieved delivery_id now db)))))))"

section \<open>Any sequence of operations\<close>

datatype token_op =
    CreateIdentity string string "string list" string string "string list" "string list" string "nat list" instant
  | Issue string "string list option" "string list option" "string list option" int string instant
  | IssueForSecret string string "string list option" "string list option" "string list option" int string instant instant
  | Validate string "string option" "string option" bool instant
  | Revoke string instant
  | ReportStatus CollectorClaims string string string string instant
  | Rotate string int string "nat list" string instant
  | RetrieveDelivery string instant
  | ClaimDelivery string string string instant

definition after :: "token_db \<Rightarrow> token_error + 'a \<times> token_db \<Rightarrow> token_db" where
  "after db m = (case m of Inl _ \<Rightarrow> db | Inr (_, db') \<Rightarrow> db')"

fun token_apply :: "crypto \<Rightarrow> token_service \<Rightarrow> token_op \<Rightarrow> token_db \<Rightarrow> token_db" where
  "token_apply cr ts (CreateIdentity l a s i ow p su sec salt now) db = after db (create_identity cr ts l a s i ow p su sec salt now db)"
| "token_apply cr ts (Issue i s p su ttl t now) db = after db (issue cr ts i s p su ttl t now db)"
| "token_apply cr ts (IssueForSecret i sec s p su ttl t now now') db = after db (issue_for_secret cr ts i sec s p su ttl t now now' db)"
| "token_apply cr ts (Validate tok s a c now) db = after db (validate cr ts tok s a c now db)"
| "token_apply cr ts (Revoke i now) db = after db (revoke i now db)"
| "token_apply cr ts (ReportStatus c v h s r now) db = after db (report_status c v h s r now db)"
| "token_apply cr ts (Rotate i w sec salt d now) db = after db (rotate_secret cr ts i w sec salt d now db)"
| "token_apply cr ts (RetrieveDelivery d now) db = after db (retrieve_delivery cr ts d now db)"
| "token_apply cr ts (ClaimDelivery d i sec now) db = after db (claim_delivery cr ts d i sec now db)"

definition token_run :: "crypto \<Rightarrow> token_service \<Rightarrow> token_op list \<Rightarrow> token_db \<Rightarrow> token_db" where
  "token_run cr ts ops db = fold (token_apply cr ts) ops db"

section \<open>Base64 reads back what it wrote\<close>

lemma b64_char_value: "n < 64 \<Longrightarrow> b64_value (b64_char n) = Some n"
  by (auto simp: b64_char_def b64_value_def Let_def)

lemma b64_char_range: "b64_char n \<noteq> CHR ''=''" "b64_char n \<noteq> CHR ''.''" "b64_char n \<noteq> CHR 0x24" "(of_char (b64_char n) :: nat) < 128"
proof -
  have *: "(of_char (b64_char n) :: nat) = (if n < 26 then 65 + n else if n < 52 then 71 + n else if n < 62 then n - 4 else if n = 62 then 45 else 95)"
    by (auto simp: b64_char_def)
  show "b64_char n \<noteq> CHR ''=''"
  proof
    assume "b64_char n = CHR ''=''"
    then have "(of_char (b64_char n) :: nat) = 61" by simp
    with * show False by (simp split: if_splits)
  qed
  show "b64_char n \<noteq> CHR ''.''"
  proof
    assume "b64_char n = CHR ''.''"
    then have "(of_char (b64_char n) :: nat) = 46" by simp
    with * show False by (simp split: if_splits)
  qed
  show "b64_char n \<noteq> CHR 0x24"
  proof
    assume "b64_char n = CHR 0x24"
    then have "(of_char (b64_char n) :: nat) = 36" by simp
    with * show False by (simp split: if_splits)
  qed
  show "(of_char (b64_char n) :: nat) < 128" unfolding * by auto
qed

lemma b64_arith:
  fixes a b c :: nat
  assumes "a < 256" "b < 256" "c < 256"
  shows "a div 4 * 4 + (a mod 4 * 16 + b div 16) div 16 = a"
    and "(a mod 4 * 16 + b div 16) mod 16 * 16 + (b mod 16 * 4 + c div 64) div 4 = b"
    and "(b mod 16 * 4 + c div 64) mod 4 * 64 + c mod 64 = c"
    and "a div 4 < 64" and "a mod 4 * 16 + b div 16 < 64" and "b mod 16 * 4 + c div 64 < 64" and "c mod 64 < 64"
    and "a div 4 * 4 + (a mod 4 * 16) div 16 = a" and "(a mod 4 * 16 + b div 16) mod 16 * 16 + (b mod 16 * 4) div 4 = b"
    and "a mod 4 * 16 < 64" and "b mod 16 * 4 < 64"
proof -
  have b: "b div 16 < 16" and c: "c div 64 < 4" using assms by simp_all
  show "a div 4 * 4 + (a mod 4 * 16 + b div 16) div 16 = a" using b by simp
  show "(a mod 4 * 16 + b div 16) mod 16 * 16 + (b mod 16 * 4 + c div 64) div 4 = b" using b c by simp
  show "(b mod 16 * 4 + c div 64) mod 4 * 64 + c mod 64 = c" using c by simp
  show "a div 4 < 64" "c mod 64 < 64" using assms by simp_all
  have "a mod 4 < 4" "b mod 16 < 16" by simp_all
  with b c show "a mod 4 * 16 + b div 16 < 64" "b mod 16 * 4 + c div 64 < 64" "a mod 4 * 16 < 64" "b mod 16 * 4 < 64" by linarith+
  show "a div 4 * 4 + (a mod 4 * 16) div 16 = a" by simp
  show "(a mod 4 * 16 + b div 16) mod 16 * 16 + (b mod 16 * 4) div 4 = b" using b by simp
qed

lemma b64_scan_group:
  assumes "n1 < 64" "n2 < 64" "n3 < 64" "n4 < 64"
  shows "b64_scan (b64_char n1 # b64_char n2 # b64_char n3 # b64_char n4 # s) 0 l p =
      map_option (\<lambda>ys. (n1 * 4 + n2 div 16) # (n2 mod 16 * 16 + n3 div 4) # (n3 mod 4 * 64 + n4) # ys) (b64_scan s 0 0 0)"
    and "b64_scan (b64_char n1 # b64_char n2 # b64_char n3 # ''==='') 0 l p = Some [n1 * 4 + n2 div 16, n2 mod 16 * 16 + n3 div 4]"
    and "b64_scan (b64_char n1 # b64_char n2 # ''==='') 0 l p = Some [n1 * 4 + n2 div 16]"
  using assms by (simp_all add: b64_char_value b64_char_range option.map_comp comp_def)

lemma b64_scan_encode: "list_all (\<lambda>b. b < 256) xs \<Longrightarrow> b64_scan (b64_encode xs @ ''==='') 0 0 0 = Some xs"
proof (induction xs rule: b64_encode.induct)
  case (1 a b c xs)
  then have "a < 256" "b < 256" "c < 256" by simp_all
  note ar = b64_arith [OF this]
  have "b64_scan (b64_encode xs @ ''==='') 0 0 0 = Some xs" using 1 by simp
  then show ?case by (simp only: b64_encode.simps append_Cons b64_scan_group(1) [OF ar(4-7)] ar(1-3) option.map)
next
  case (2 a b)
  then have "a < 256" "b < 256" "0 < (256 :: nat)" by simp_all
  note ar = b64_arith [OF this]
  show ?case by (simp only: b64_encode.simps append_Cons append_Nil b64_scan_group(2) [OF ar(4,5,11,4)] ar(1,9))
next
  case (3 a)
  then have "a < 256" "0 < (256 :: nat)" by simp_all
  note ar = b64_arith [OF this(1,2,2)]
  show ?case by (simp only: b64_encode.simps append_Cons append_Nil b64_scan_group(3) [OF ar(4,10,4,4)] ar(8))
qed simp

lemma b64_encode_chars: "c \<in> set (b64_encode xs) \<Longrightarrow> \<exists>n. c = b64_char n"
  by (induction xs rule: b64_encode.induct) auto

lemma b64_encode_ascii: "ascii (b64_encode xs)"
  using b64_encode_chars [of _ xs] b64_char_range(4) by (auto simp: ascii_def list_all_iff)

lemma b64_round_trip: "list_all (\<lambda>b. b < 256) xs \<Longrightarrow> b64_decode (b64_encode xs @ ''==='') = Some xs"
  using b64_encode_ascii [of xs] b64_scan_encode [of xs] by (simp add: b64_decode_def ascii_def)

lemma split_once_char: "c \<notin> set a \<Longrightarrow> split_once [c] (a @ [c] @ b) = Some (a, b)"
  by (induction a) auto

lemma split_b64: "split_once ''.'' (b64_encode xs @ ''.'' @ s) = Some (b64_encode xs, s)"
  "split_once ''$'' (b64_encode xs @ ''$'' @ s) = Some (b64_encode xs, s)"
proof -
  have "CHR ''.'' \<notin> set (b64_encode xs)" "CHR 0x24 \<notin> set (b64_encode xs)"
    using b64_encode_chars [of _ xs] b64_char_range(2,3) by metis+
  from split_once_char [OF this(1)] split_once_char [OF this(2)]
  show "split_once ''.'' (b64_encode xs @ ''.'' @ s) = Some (b64_encode xs, s)"
    "split_once ''$'' (b64_encode xs @ ''$'' @ s) = Some (b64_encode xs, s)" by blast+
qed

lemma verify_hash:
  assumes "list_all (\<lambda>b. b < 256) salt" and "ascii (cr_derive cr secret salt)"
  shows "verify_secret cr secret (hash_secret cr secret salt)"
  using assms by (simp only: verify_secret_def hash_secret_def split_b64 b64_round_trip option.case prod.case)

section \<open>Tables\<close>

lemma find_set_row:
  "k r = j \<Longrightarrow> find (\<lambda>q. k q = i) (update_where (\<lambda>q. k q = j) (\<lambda>_. r) xs) =
     (if i = j then map_option (\<lambda>_. r) (find (\<lambda>q. k q = i) xs) else find (\<lambda>q. k q = i) xs)"
  by (induction xs) (auto simp: update_where_def)

lemma find_map_row:
  "(\<And>q. k (f q) = k q) \<Longrightarrow> find (\<lambda>q. k q = i) (update_where (\<lambda>q. k q = j) f xs) =
     (if i = j then map_option f (find (\<lambda>q. k q = i) xs) else find (\<lambda>q. k q = i) xs)"
  by (induction xs) (auto simp: update_where_def)

lemma find_added: "find p (xs @ ys) = (case find p xs of None \<Rightarrow> find p ys | Some x \<Rightarrow> Some x)"
  by (induction xs) auto

lemma get_set_identity: "get_identity i (set_identity r db) =
    (if i = ci_id r then map_option (\<lambda>_. r) (get_identity i db) else get_identity i db)"
  by (simp add: get_identity_def set_identity_def find_set_row)

lemma get_identity_id: "get_identity i db = Some r \<Longrightarrow> ci_id r = i"
  by (auto simp: get_identity_def find_Some_iff)

lemma get_delivery_retrieved: "get_delivery i (set_retrieved j now db) =
    (if i = j then map_option (\<lambda>d. d\<lparr>cd_retrieved_at := Some now\<rparr>) (get_delivery i db) else get_delivery i db)"
  by (simp add: get_delivery_def set_retrieved_def find_map_row)

lemma unrelated_tables [simp]:
  "get_identity i (add_audit a b c d t db) = get_identity i db" "get_delivery i (add_audit a b c d t db) = get_delivery i db"
  "td_replays (add_audit a b c d t db) = td_replays db"
  "get_identity i (set_retrieved j now db) = get_identity i db" "td_replays (set_retrieved j now db) = td_replays db"
  "get_delivery i (set_identity r db) = get_delivery i db" "td_replays (set_identity r db) = td_replays db"
  "get_identity i (db\<lparr>td_transitions := x\<rparr>) = get_identity i db" "get_delivery i (db\<lparr>td_transitions := x\<rparr>) = get_delivery i db"
  "get_identity i (db\<lparr>td_replays := y\<rparr>) = get_identity i db" "get_delivery i (db\<lparr>td_replays := y\<rparr>) = get_delivery i db"
  "get_identity i (db\<lparr>td_deliveries := z\<rparr>) = get_identity i db"
  by (simp_all add: get_identity_def get_delivery_def add_audit_def set_retrieved_def set_identity_def)

section \<open>What every operation keeps\<close>

definition authority :: "CollectorIdentity \<Rightarrow> string \<times> string \<times> string \<times> string list \<times> string list \<times> string list" where
  "authority r = (ci_environment r, ci_audience r, ci_owner r, ci_scopes r, ci_providers r, ci_surfaces r)"

text \<open>Facts of the tables that no operation takes back.\<close>

datatype token_fact = RevokedIdentity string | ConsumedToken string | SpentDelivery string

fun fact_holds :: "token_db \<Rightarrow> token_fact \<Rightarrow> bool" where
  "fact_holds db (RevokedIdentity i) = (\<exists>r. get_identity i db = Some r \<and> ci_revoked_at r \<noteq> None)"
| "fact_holds db (ConsumedToken t) = (\<exists>x \<in> set (td_replays db). tr_token_id x = t)"
| "fact_holds db (SpentDelivery d) = (\<exists>x. get_delivery d db = Some x \<and> cd_retrieved_at x \<noteq> None)"

text \<open>What an operation leaves of a row: who it belongs to, and what was withdrawn.\<close>

definition keeps_tables :: "token_db \<Rightarrow> token_db \<Rightarrow> bool" where
  "keeps_tables db db' \<longleftrightarrow>
     (\<forall>i r. get_identity i db = Some r \<longrightarrow>
        (\<exists>r'. get_identity i db' = Some r' \<and> authority r' = authority r \<and> (ci_revoked_at r \<noteq> None \<longrightarrow> ci_revoked_at r' \<noteq> None)))
     \<and> (\<forall>x \<in> set (td_replays db). x \<in> set (td_replays db'))
     \<and> (\<forall>d x. get_delivery d db = Some x \<longrightarrow>
        (\<exists>x'. get_delivery d db' = Some x' \<and> (cd_retrieved_at x \<noteq> None \<longrightarrow> cd_retrieved_at x' \<noteq> None)))"

lemma keeps_tables_refl: "keeps_tables db db"
  by (auto simp: keeps_tables_def)

lemma keeps_tables_trans:
  assumes "keeps_tables a b" and "keeps_tables b c"
  shows "keeps_tables a c"
  unfolding keeps_tables_def
proof (intro conjI allI impI)
  fix i r assume "get_identity i a = Some r"
  with assms(1) obtain r1 where r1: "get_identity i b = Some r1" "authority r1 = authority r" "ci_revoked_at r \<noteq> None \<longrightarrow> ci_revoked_at r1 \<noteq> None"
    unfolding keeps_tables_def by blast
  from assms(2) r1(1) obtain r2 where "get_identity i c = Some r2" "authority r2 = authority r1" "ci_revoked_at r1 \<noteq> None \<longrightarrow> ci_revoked_at r2 \<noteq> None"
    unfolding keeps_tables_def by blast
  with r1 show "\<exists>r'. get_identity i c = Some r' \<and> authority r' = authority r \<and> (ci_revoked_at r \<noteq> None \<longrightarrow> ci_revoked_at r' \<noteq> None)"
    by auto
next
  show "\<forall>x \<in> set (td_replays a). x \<in> set (td_replays c)" using assms unfolding keeps_tables_def by blast
next
  fix d x assume "get_delivery d a = Some x"
  with assms(1) obtain x1 where x1: "get_delivery d b = Some x1" "cd_retrieved_at x \<noteq> None \<longrightarrow> cd_retrieved_at x1 \<noteq> None"
    unfolding keeps_tables_def by blast
  from assms(2) x1(1) obtain x2 where "get_delivery d c = Some x2" "cd_retrieved_at x1 \<noteq> None \<longrightarrow> cd_retrieved_at x2 \<noteq> None"
    unfolding keeps_tables_def by blast
  with x1 show "\<exists>x'. get_delivery d c = Some x' \<and> (cd_retrieved_at x \<noteq> None \<longrightarrow> cd_retrieved_at x' \<noteq> None)" by blast
qed

lemma keeps_set_identity:
  assumes "get_identity i db = Some r" and "ci_id r' = i" and "authority r' = authority r"
    and "ci_revoked_at r \<noteq> None \<longrightarrow> ci_revoked_at r' \<noteq> None"
  shows "keeps_tables db (set_identity r' db)"
  using assms by (auto simp: keeps_tables_def get_set_identity)

lemma keeps_same:
  assumes "\<And>i. get_identity i db' = get_identity i db" and "set (td_replays db) \<subseteq> set (td_replays db')"
    and "\<And>d x. get_delivery d db = Some x \<Longrightarrow> \<exists>x'. get_delivery d db' = Some x' \<and> (cd_retrieved_at x \<noteq> None \<longrightarrow> cd_retrieved_at x' \<noteq> None)"
  shows "keeps_tables db db'"
  unfolding keeps_tables_def using assms by fastforce

lemma keeps_audit: "keeps_tables db db' \<Longrightarrow> keeps_tables db (add_audit a b c d t db')"
  by (simp add: keeps_tables_def)

lemma keeps_retrieved: "keeps_tables db (set_retrieved d now db)"
  by (rule keeps_same) (auto simp: get_delivery_retrieved)

lemma keeps_create:
  "create_identity cr ts l a s i ow p su sec salt now db = Inr (x, db') \<Longrightarrow> keeps_tables db db'"
  by (auto simp: create_identity_def Let_def result_simps keeps_tables_def get_identity_def get_delivery_def find_added)

lemma keeps_issue: "issue cr ts i s p su ttl t now db = Inr (x, db') \<Longrightarrow> keeps_tables db db'"
  by (auto simp: issue_def Let_def result_simps keeps_audit keeps_tables_refl split: option.splits)

lemma keeps_issue_for_secret: "issue_for_secret cr ts i sec s p su ttl t now now' db = Inr (x, db') \<Longrightarrow> keeps_tables db db'"
  by (auto simp: issue_for_secret_def result_simps intro: keeps_issue split: option.splits)

lemma consume_keeps: "consume_token c t i e db = Inr db1 \<Longrightarrow> keeps_tables db db1 \<and> (\<forall>j. get_identity j db1 = get_identity j db)"
  by (auto simp: consume_token_def keeps_tables_refl intro!: keeps_same split: if_splits)

text \<open>What a successful validation establishes, in one place.\<close>

lemma validate_cases:
  assumes "validate cr ts token required audience consume now db = Inr (c, db')"
  obtains body signature document r db1 scopes providers surfaces where
    "read_token cr token = Inr (body, signature, document, cl_collector_id c, cl_token_id c, cl_expires_at c)"
    and "compare_digest signature (sign cr ts body) = Inr True"
    and "get_identity (cl_collector_id c) db = Some r" and "ci_revoked_at r = None"
    and "token_matches cr ts r document audience (cl_expires_at c) now = Inr True"
    and "cl_scopes c \<subseteq> set (ci_scopes r)" and "case required of None \<Rightarrow> True | Some s \<Rightarrow> s = [] \<or> s \<in> cl_scopes c"
    and "consume_token consume (cl_token_id c) (cl_collector_id c) (cl_expires_at c) db = Inr db1"
    and "iter_texts (cr_float_text cr) (get_or document ''scope'' (PList [])) = Some scopes" and "cl_scopes c = set scopes"
    and "read_binding cr document = Inr (cl_owner c, providers, surfaces)" and "cl_providers c = set providers" and "cl_surfaces c = set surfaces"
    and "cl_owner c \<noteq> [] \<and> cl_owner c = ci_owner r \<and> cl_providers c \<noteq> {} \<and> cl_providers c \<subseteq> set (ci_providers r)
      \<and> cl_surfaces c \<noteq> {} \<and> cl_surfaces c \<subseteq> set (ci_surfaces r)"
    and "cl_environment c = ts_environment ts" and "cl_audience c = str_of (cr_float_text cr) (get_or document ''aud'' (PStr []))"
    and "db' = add_audit (cl_collector_id c) ''collector.token_used'' (cl_collector_id c) ''token_used'' now
      (set_identity (r\<lparr>ci_last_seen_at := Some now\<rparr>) db1)"
  using assms unfolding validate_def Let_def
  by (auto simp: and_then_Inr ensure_Inr of_option_Inr split: option.splits)

lemma keeps_validate:
  assumes "validate cr ts token required audience consume now db = Inr (c, db')"
  shows "keeps_tables db db'"
proof -
  obtain r db1 where r: "get_identity (cl_collector_id c) db = Some r"
    and d: "consume_token consume (cl_token_id c) (cl_collector_id c) (cl_expires_at c) db = Inr db1"
    and e: "db' = add_audit (cl_collector_id c) ''collector.token_used'' (cl_collector_id c) ''token_used'' now
      (set_identity (r\<lparr>ci_last_seen_at := Some now\<rparr>) db1)"
    by (rule validate_cases [OF assms])
  have "keeps_tables db db1" and i: "\<forall>j. get_identity j db1 = get_identity j db" using consume_keeps [OF d] by auto
  moreover have "keeps_tables db1 (set_identity (r\<lparr>ci_last_seen_at := Some now\<rparr>) db1)"
    using r i get_identity_id [OF r] by (intro keeps_set_identity) (auto simp: authority_def)
  ultimately show ?thesis unfolding e by (intro keeps_audit) (rule keeps_tables_trans)
qed

lemma tokens_keep_revoke: "revoke i now db = Inr (x, db') \<Longrightarrow> keeps_tables db db'"
  by (auto simp: revoke_def authority_def intro!: keeps_audit keeps_set_identity dest: get_identity_id split: option.splits)

lemma keeps_transitions: "keeps_tables db db' \<Longrightarrow> keeps_tables db (db'\<lparr>td_transitions := x\<rparr>)"
  by (simp add: keeps_tables_def)

lemma keeps_report: "report_status c v h s re now db = Inr (x, db') \<Longrightarrow> keeps_tables db db'"
  by (auto simp: report_status_def Let_def result_simps authority_def intro!: keeps_transitions keeps_set_identity
      dest: get_identity_id split: option.splits)

lemma keeps_delivery_added:
  assumes "keeps_tables db db'" and "get_delivery (cd_id n) db = None" and "td_deliveries db' = td_deliveries db"
  shows "keeps_tables db (db'\<lparr>td_deliveries := td_deliveries db @ [n]\<rparr>)"
  using assms by (auto simp: keeps_tables_def get_delivery_def find_added)

lemma keeps_rotate: "rotate_secret cr ts i w sec salt d now db = Inr (x, db') \<Longrightarrow> keeps_tables db db'"
  by (auto simp: rotate_secret_def Let_def result_simps authority_def set_identity_def [THEN arg_cong, of td_deliveries]
      intro!: keeps_audit keeps_delivery_added keeps_set_identity dest: get_identity_id split: option.splits)

lemma keeps_retrieve: "retrieve_delivery cr ts d now db = Inr (x, db') \<Longrightarrow> keeps_tables db db'"
  by (auto simp: retrieve_delivery_def result_simps keeps_retrieved)

lemma keeps_claim: "claim_delivery cr ts d i sec now db = Inr (x, db') \<Longrightarrow> keeps_tables db db'"
  by (auto simp: claim_delivery_def result_simps intro!: keeps_audit keeps_retrieved split: option.splits)

lemmas keeps_operation = keeps_create keeps_issue keeps_issue_for_secret keeps_validate tokens_keep_revoke keeps_report keeps_rotate
  keeps_retrieve keeps_claim

lemma keeps_after: "(\<And>x db'. m = Inr (x, db') \<Longrightarrow> keeps_tables db db') \<Longrightarrow> keeps_tables db (after db m)"
  by (auto simp: after_def keeps_tables_refl split: sum.split)

lemma keeps_apply: "keeps_tables db (token_apply cr ts op db)"
  by (cases op) (auto intro!: keeps_after intro: keeps_operation)

lemma keeps_run: "keeps_tables db (token_run cr ts ops db)"
  unfolding token_run_def
  by (induction ops arbitrary: db) (auto simp: keeps_tables_refl intro: keeps_tables_trans keeps_apply)

lemma keeps_fact: "keeps_tables db db' \<Longrightarrow> fact_holds db f \<Longrightarrow> fact_holds db' f"
  by (cases f) (fastforce simp: keeps_tables_def)+

interpretation token_store: retained_store "\<lambda>_. True" fact_holds "token_apply cr ts" "\<lambda>_ _. False" for cr ts
  by unfold_locales (auto intro: keeps_fact [OF keeps_apply])

lemma fact_run: "fact_holds db f \<Longrightarrow> fact_holds (token_run cr ts ops db) f"
  unfolding token_run_def by (rule token_store.retained) simp_all

section \<open>Authority\<close>

text \<open>
  C16. Whatever claims a validation returns, they are covered by what the database says at that
  moment: the identity exists, is not revoked and lives in the service's environment; scopes,
  providers and surfaces are among those of the identity and the owner is its owner; the token has
  not expired, carries the required scope and bears the service's own signature over its body.
\<close>
theorem validated_claims_authorized:
  assumes "validate cr ts token required audience consume now db = Inr (c, db')"
  shows "\<exists>r body. get_identity (cl_collector_id c) db = Some r \<and> identity_matches_claims r c
     \<and> cl_environment c = ts_environment ts \<and> cl_scopes c \<subseteq> set (ci_scopes r) \<and> cl_providers c \<noteq> {} \<and> cl_surfaces c \<noteq> {}
     \<and> now < cl_expires_at c \<and> (\<forall>s. required = Some s \<longrightarrow> s \<noteq> [] \<longrightarrow> s \<in> cl_scopes c)
     \<and> cl_audience c = ci_audience r \<and> split_once ''.'' token = Some (body, sign cr ts body)"
proof -
  obtain body signature document r where v: "read_token cr token = Inr (body, signature, document, cl_collector_id c, cl_token_id c, cl_expires_at c)"
      "compare_digest signature (sign cr ts body) = Inr True" "get_identity (cl_collector_id c) db = Some r" "ci_revoked_at r = None"
      "token_matches cr ts r document audience (cl_expires_at c) now = Inr True" "cl_scopes c \<subseteq> set (ci_scopes r)"
      "case required of None \<Rightarrow> True | Some s \<Rightarrow> s = [] \<or> s \<in> cl_scopes c"
      "cl_owner c \<noteq> [] \<and> cl_owner c = ci_owner r \<and> cl_providers c \<noteq> {} \<and> cl_providers c \<subseteq> set (ci_providers r)
        \<and> cl_surfaces c \<noteq> {} \<and> cl_surfaces c \<subseteq> set (ci_surfaces r)"
      "cl_environment c = ts_environment ts" "cl_audience c = str_of (cr_float_text cr) (get_or document ''aud'' (PStr []))"
    by (rule validate_cases [OF assms])
  have s: "signature = sign cr ts body" using v(2) by (auto simp: compare_digest_def split: if_splits)
  have t: "split_once ''.'' token = Some (body, signature)"
    using v(1) by (auto simp: read_token_def split: option.splits if_splits)
  have m: "ci_environment r = ts_environment ts" "cl_audience c = ci_audience r" "now < cl_expires_at c"
    using v(5) v(10) by (auto simp: token_matches_def compare_digest_def result_simps split: if_splits)
  have "identity_matches_claims r c"
    using v(3,4,8,9) m(1) get_identity_id [OF v(3)] by (auto simp: identity_matches_claims_def)
  with v m s t show ?thesis by (auto split: option.splits)
qed

section \<open>Revocation and single use\<close>

lemma revoked_refused:
  assumes "fact_holds db (RevokedIdentity i)"
  shows "validate cr ts token required audience consume now db = Inr (c, db') \<Longrightarrow> cl_collector_id c \<noteq> i"
    and "\<not> is_ok (issue cr ts i sc p su ttl t now db)" and "\<not> is_ok (issue_for_secret cr ts i sec sc p su ttl t now now' db)"
    and "\<not> is_ok (rotate_secret cr ts i w sec salt d now db)" and "\<not> is_ok (claim_delivery cr ts d i sec now db)"
    and "cl_collector_id claims = i \<Longrightarrow> \<not> is_ok (report_status claims v h s re now db)"
proof -
  from assms obtain r where r: "get_identity i db = Some r" "ci_revoked_at r \<noteq> None" by auto
  show "validate cr ts token required audience consume now db = Inr (c, db') \<Longrightarrow> cl_collector_id c \<noteq> i"
    using r by (elim validate_cases) auto
  show "\<not> is_ok (issue cr ts i sc p su ttl t now db)" "\<not> is_ok (issue_for_secret cr ts i sec sc p su ttl t now now' db)"
    "\<not> is_ok (rotate_secret cr ts i w sec salt d now db)" "\<not> is_ok (claim_delivery cr ts d i sec now db)"
    "cl_collector_id claims = i \<Longrightarrow> \<not> is_ok (report_status claims v h s re now db)"
    using r by (auto simp: is_ok_iff issue_def issue_for_secret_def rotate_secret_def claim_delivery_def report_status_def
        identity_matches_claims_def Let_def result_simps)
qed


text \<open>
  A token that was validated for single use is never accepted for single use again, whatever
  operations come between.
\<close>
theorem consumed_token_once:
  assumes "validate cr ts token required audience True now db = Inr (c, db1)"
    and "validate cr ts token' required' audience' True now' (token_run cr ts ops db1) = Inr (c', db2)"
  shows "cl_token_id c' \<noteq> cl_token_id c"
proof -
  obtain r dbm where "consume_token True (cl_token_id c) (cl_collector_id c) (cl_expires_at c) db = Inr dbm"
    "db1 = add_audit (cl_collector_id c) ''collector.token_used'' (cl_collector_id c) ''token_used'' now
      (set_identity (r\<lparr>ci_last_seen_at := Some now\<rparr>) dbm)"
    by (rule validate_cases [OF assms(1)])
  then have "fact_holds db1 (ConsumedToken (cl_token_id c))" by (auto simp: consume_token_def split: if_splits)
  then have f: "fact_holds (token_run cr ts ops db1) (ConsumedToken (cl_token_id c))" by (rule fact_run)
  obtain dbn where "consume_token True (cl_token_id c') (cl_collector_id c') (cl_expires_at c') (token_run cr ts ops db1) = Inr dbn"
    by (rule validate_cases [OF assms(2)])
  with f show ?thesis by (auto simp: consume_token_def split: if_splits)
qed

section \<open>From issue to validation\<close>

text \<open>The document that reading a canonical text gives, and what is relied on of the reader: the
  text of these claims reads back as them.\<close>

primrec sort_payload :: "payload \<Rightarrow> payload" where
  "sort_payload PNull = PNull"
| "sort_payload (PBool b) = PBool b"
| "sort_payload (PInt i) = PInt i"
| "sort_payload (PFloat f) = PFloat f"
| "sort_payload (PStr s) = PStr s"
| "sort_payload (PList xs) = PList (map sort_payload xs)"
| "sort_payload (PObj kvs) = PObj (sort_key fst (map (map_prod id sort_payload) kvs))"

definition text_reads_back :: "crypto \<Rightarrow> payload \<Rightarrow> bool" where
  "text_reads_back cr v \<longleftrightarrow> cr_loads cr (claims_text cr v) = Some (sort_payload v)"

lemma entry_claims:
  "entry (sort_payload (token_claims ts r ss ps us tid now ttl)) ''sub'' = Some (PStr (ci_id r))"
  "entry (sort_payload (token_claims ts r ss ps us tid now ttl)) ''aud'' = Some (PStr (ci_audience r))"
  "entry (sort_payload (token_claims ts r ss ps us tid now ttl)) ''env'' = Some (PStr (ts_environment ts))"
  "entry (sort_payload (token_claims ts r ss ps us tid now ttl)) ''exp'' = Some (PInt ((now + ttl * 1000000) div 1000000))"
  "entry (sort_payload (token_claims ts r ss ps us tid now ttl)) ''jti'' = Some (PStr tid)"
  "entry (sort_payload (token_claims ts r ss ps us tid now ttl)) ''owner'' = Some (PStr (ci_owner r))"
  "entry (sort_payload (token_claims ts r ss ps us tid now ttl)) ''scope'' = Some (PList (map PStr ss))"
  "entry (sort_payload (token_claims ts r ss ps us tid now ttl)) ''providers'' = Some (PList (map PStr ps))"
  "entry (sort_payload (token_claims ts r ss ps us tid now ttl)) ''surfaces'' = Some (PList (map PStr us))"
  by (simp_all add: token_claims_def entry_def str_list_def comp_def)

lemma utf8_bytes: "list_all (\<lambda>b. b < 256) (utf8 s)"
proof -
  have "b < 256" if "b \<in> set (let n = (of_char c :: nat) in if n < 128 then [n] else [192 + n div 64, 128 + n mod 64])" for b c
  proof -
    have "(of_char c :: nat) div 64 < 4" by (rule less_mult_imp_div_less) simp
    moreover have "(of_char c :: nat) mod 64 < 64" by simp
    ultimately show ?thesis using that by (auto simp: Let_def split: if_splits)
  qed
  then show ?thesis by (fastforce simp: utf8_def list_all_iff)
qed

lemma iter_str_list: "iter_texts fr (PList (map PStr xs)) = Some xs"
  by (simp add: iter_texts_def str_of_def comp_def)

definition requested :: "string list option \<Rightarrow> (string list \<Rightarrow> string list) \<Rightarrow> string list \<Rightarrow> string list" where
  "requested wanted clean all = (case wanted of None \<Rightarrow> all | Some xs \<Rightarrow> clean xs)"

lemma issue_cases:
  assumes "issue cr ts i sc p su ttl tid now db = Inr (token, db1)" and "get_identity i db = Some r"
  defines "ss \<equiv> requested sc (map strip) (ci_scopes r)" and "ps \<equiv> requested p strip_all (ci_providers r)"
    and "us \<equiv> requested su strip_all (ci_surfaces r)"
  defines "body \<equiv> encode_claims cr (token_claims ts r (stored_set ss) (stored_set ps) (stored_set us) tid now ttl)"
  shows "token = body @ ''.'' @ sign cr ts body" and "set ss \<subseteq> set (ci_scopes r)" and "ps \<noteq> []" and "us \<noteq> []"
    and "set ps \<subseteq> set (ci_providers r)" and "set us \<subseteq> set (ci_surfaces r)" and "ci_environment r = ts_environment ts"
    and "db1 = add_audit i ''collector.token_issued'' i ''token_issued'' now db"
  using assms by (auto simp: issue_def Let_def result_simps requested_def)

lemma read_issued:
  fixes ts :: token_service and r :: CollectorIdentity and ss ps us :: "string list" and tid :: string and now ttl :: int
  defines "C \<equiv> token_claims ts r ss ps us tid now ttl"
  assumes "text_reads_back cr C" and "in_calendar ((now + ttl * 1000000) div 1000000 * 1000000)"
  shows "read_token cr (encode_claims cr C @ ''.'' @ s) =
    Inr (encode_claims cr C, s, sort_payload C, ci_id r, tid, (now + ttl * 1000000) div 1000000 * 1000000)"
proof -
  have "b64_decode (encode_claims cr C @ ''==='') = Some (claims_text cr C)"
    unfolding encode_claims_def by (rule b64_round_trip) (simp add: claims_text_def utf8_bytes)
  then have b: "Option.bind (b64_decode (encode_claims cr C @ ''==='')) (cr_loads cr) = Some (sort_payload C)"
    using assms(2) by (simp add: text_reads_back_def)
  have "split_once ''.'' (encode_claims cr C @ ''.'' @ s) = Some (encode_claims cr C, s)"
    unfolding encode_claims_def by (rule split_b64)
  with b assms(3) show ?thesis
    by (simp add: read_token_def C_def entry_claims int_of_def str_of_def)
qed

text \<open>
  C18. A token does what it was issued for: as long as the identity is not revoked and the token's
  second of expiry has not come, whatever operations happened in between, validating it succeeds
  and gives exactly the requested scopes, providers and surfaces of that identity.
\<close>
theorem issued_token_validates:
  assumes "issue cr ts i sc p su ttl tid now db = Inr (token, db1)" and "get_identity i db = Some r"
    and "\<not> fact_holds (token_run cr ts ops db1) (RevokedIdentity i)"
    and "now' < (now + ttl * 1000000) div 1000000 * 1000000" and "in_calendar ((now + ttl * 1000000) div 1000000 * 1000000)"
    and "ci_owner r \<noteq> []" and "ascii (ci_audience r)"
    and "text_reads_back cr (token_claims ts r (stored_set (requested sc (map strip) (ci_scopes r)))
      (stored_set (requested p strip_all (ci_providers r))) (stored_set (requested su strip_all (ci_surfaces r))) tid now ttl)"
  shows "\<exists>c db2. validate cr ts token None None False now' (token_run cr ts ops db1) = Inr (c, db2)
     \<and> cl_collector_id c = i \<and> cl_token_id c = tid \<and> cl_expires_at c = (now + ttl * 1000000) div 1000000 * 1000000
     \<and> cl_scopes c = set (requested sc (map strip) (ci_scopes r)) \<and> cl_providers c = set (requested p strip_all (ci_providers r))
     \<and> cl_surfaces c = set (requested su strip_all (ci_surfaces r))"
proof -
  let ?ss = "stored_set (requested sc (map strip) (ci_scopes r))" and ?ps = "stored_set (requested p strip_all (ci_providers r))"
    and ?us = "stored_set (requested su strip_all (ci_surfaces r))" and ?db = "token_run cr ts ops db1"
  let ?C = "token_claims ts r ?ss ?ps ?us tid now ttl"
  define e where "e = (now + ttl * 1000000) div 1000000 * 1000000"
  note exp = assms(4,5) [folded e_def] and ic = issue_cases [OF assms(1,2)]
  have "get_identity i db1 = Some r" unfolding ic(8) using assms(2) by simp
  with keeps_run [of db1 cr ts ops] obtain r' where r': "get_identity i ?db = Some r'" "authority r' = authority r"
    unfolding keeps_tables_def by blast
  then have live: "ci_revoked_at r' = None" using assms(3) by auto
  have id: "ci_id r = i" using assms(2) by (rule get_identity_id)
  have a: "ci_environment r' = ci_environment r" "ci_audience r' = ci_audience r" "ci_owner r' = ci_owner r" "ci_scopes r' = ci_scopes r"
    "ci_providers r' = ci_providers r" "ci_surfaces r' = ci_surfaces r" using r'(2) by (auto simp: authority_def)
  have s: "set ?ss = set (requested sc (map strip) (ci_scopes r))" "set ?ps = set (requested p strip_all (ci_providers r))"
    "set ?us = set (requested su strip_all (ci_surfaces r))" "?ps \<noteq> []" "?us \<noteq> []"
    using ic(3,4) by (auto simp: stored_set_def simp flip: set_empty)
  have rt: "read_token cr token = Inr (encode_claims cr ?C, sign cr ts (encode_claims cr ?C), sort_payload ?C, i, tid, e)"
    unfolding ic(1) using read_issued [OF assms(8,5)] id by (simp add: e_def)
  have cd: "compare_digest (sign cr ts b) (sign cr ts b) = Inr True" for b
    by (simp add: compare_digest_def sign_def b64_encode_ascii)
  have tm: "token_matches cr ts r' (sort_payload ?C) None e now' = Inr True"
    using exp(1) assms(7) ic(7) by (simp add: token_matches_def a get_or_def entry_claims str_of_def compare_digest_def)
  have sc: "iter_texts (cr_float_text cr) (get_or (sort_payload ?C) ''scope'' (PList [])) = Some ?ss"
    by (simp add: get_or_def entry_claims iter_str_list)
  have rb: "read_binding cr (sort_payload ?C) = Inr (ci_owner r, ?ps, ?us)"
    by (simp add: read_binding_def Let_def entry_claims iter_str_list str_of_def)
  show ?thesis
    unfolding validate_def rt e_def [symmetric] using r'(1) live ic(2,5,6) s assms(6)
    by (simp add: cd tm sc rb a consume_token_def)
qed

section \<open>Rotation\<close>

lemma spent_refused:
  assumes "fact_holds db (SpentDelivery d)"
  shows "\<not> is_ok (claim_delivery cr ts d j sec t db)" and "\<not> is_ok (retrieve_delivery cr ts d t db)"
  using assms by (auto simp: is_ok_iff claim_delivery_def retrieve_delivery_def open_delivery_def result_simps)

lemma rotate_cases:
  assumes "rotate_secret cr ts i w s' salt d now db = Inr (u, db1)" and "get_identity i db = Some r"
  defines "r1 \<equiv> r\<lparr>ci_previous_hash := Some (ci_secret_hash r), ci_previous_expires := Some (now + w * 1000000),
      ci_secret_hash := hash_secret cr s' salt\<rparr>"
  shows "get_identity i db1 = Some r1" and "ci_revoked_at r = None" and "0 \<le> w"
    and "\<exists>x. get_delivery d db1 = Some x \<and> cd_identity x = i \<and> cd_encrypted_secret x = cr_seal cr (ts_signing_secret ts) s'
      \<and> cd_expires_at x = now + 86400000000 \<and> cd_retrieved_at x = None"
proof -
  have id: "ci_id r = i" using assms(2) by (rule get_identity_id)
  have "ci_revoked_at r = None \<and> 0 \<le> w \<and> get_delivery d db = None
      \<and> get_identity i db1 = get_identity i (set_identity r1 db) \<and> td_deliveries db1 = td_deliveries db @
          [\<lparr>cd_id = d, cd_identity = i, cd_encrypted_secret = cr_seal cr (ts_signing_secret ts) s',
            cd_created_at = now, cd_expires_at = now + 24 * 3600 * 1000000, cd_retrieved_at = None\<rparr>]"
    using assms by (auto simp: rotate_secret_def result_simps add_audit_def get_identity_def)
  then show "get_identity i db1 = Some r1" "ci_revoked_at r = None" "0 \<le> w"
    "\<exists>x. get_delivery d db1 = Some x \<and> cd_identity x = i \<and> cd_encrypted_secret x = cr_seal cr (ts_signing_secret ts) s'
      \<and> cd_expires_at x = now + 86400000000 \<and> cd_retrieved_at x = None"
    using assms(2) id by (auto simp: get_set_identity r1_def get_delivery_def find_added)
qed


section \<open>A concrete run\<close>

definition demo_crypto :: crypto where
  "demo_crypto = \<lparr>cr_mac = (\<lambda>key body. [length body mod 256]), cr_derive = (\<lambda>secret salt. secret @ ''!''),
     cr_seal = (\<lambda>key s. s), cr_unseal = (\<lambda>key s. Some s), cr_loads = (\<lambda>_. Some (sort_payload (PObj
       [(''sub'', PStr ''c1''), (''aud'', PStr ''collector''), (''env'', PStr ''test''), (''scope'', str_list [''ingest'']),
        (''iat'', PInt 1000), (''exp'', PInt 1300), (''jti'', PStr ''t1''), (''owner'', PStr ''residential''),
        (''providers'', str_list [''nba'']), (''surfaces'', str_list [''synergy''])]))),
     cr_float_text = (\<lambda>_. [])\<rparr>"

definition demo_tokens :: token_service where
  "demo_tokens = \<lparr>ts_environment = ''test'', ts_signing_secret = [1, 2, 3]\<rparr>"

definition no_tokens :: token_db where
  "no_tokens = \<lparr>td_identities = [], td_usage = [], td_replays = [], td_deliveries = [], td_transitions = [], td_audits = []\<rparr>"

definition demo_created :: token_db where
  "demo_created = after no_tokens (create_identity demo_crypto demo_tokens ''Pi'' ''collector'' [''ingest'', '' poll ''] ''c1'' ''residential''
     [''nba''] [''synergy''] ''s0'' [7] 900000000 no_tokens)"

definition demo_issued :: "token_error + string \<times> token_db" where
  "demo_issued = issue demo_crypto demo_tokens ''c1'' (Some [''ingest'']) None None 300 ''t1'' 1000000000 demo_created"

definition demo_token :: string where
  "demo_token = (case demo_issued of Inr (t, _) \<Rightarrow> t | Inl _ \<Rightarrow> [])"

definition demo_identity :: CollectorIdentity where
  "demo_identity = \<lparr>ci_id = ''c1'', ci_label = ''Pi'', ci_environment = ''test'', ci_audience = ''collector'',
     ci_secret_hash = ''Bw$s0!'', ci_previous_hash = None, ci_previous_expires = None, ci_scopes = [''ingest'', ''poll''],
     ci_owner = ''residential'', ci_providers = [''nba''], ci_surfaces = [''synergy''], ci_created_at = 900000000,
     ci_revoked_at = None, ci_last_seen_at = None, ci_release = None\<rparr>"

lemma demo_identity_row: "get_identity ''c1'' demo_created = Some demo_identity"
  by code_simp

lemma demo_issue: "issue demo_crypto demo_tokens ''c1'' (Some [''ingest'']) None None 300 ''t1'' 1000000000 demo_created =
    Inr (demo_token, add_audit ''c1'' ''collector.token_issued'' ''c1'' ''token_issued'' 1000000000 demo_created)"
  by code_simp

text \<open>Between issue and use the secret is rotated; the token still validates and is then consumed.\<close>

definition demo_ops :: "token_op list" where
  "demo_ops = [Rotate ''c1'' 3600 ''s1'' [9] ''d1'' 1000500000]"

definition demo_rotated :: token_db where
  "demo_rotated = token_run demo_crypto demo_tokens demo_ops
     (add_audit ''c1'' ''collector.token_issued'' ''c1'' ''token_issued'' 1000000000 demo_created)"

lemma demo_not_revoked: "\<not> fact_holds demo_rotated (RevokedIdentity ''c1'')"
proof -
  have "map_option ci_revoked_at (get_identity ''c1'' demo_rotated) = Some None" by code_simp
  then show ?thesis by auto
qed

theorem issued_token_validates_witness:
  "\<exists>c db2. validate demo_crypto demo_tokens demo_token None None False 1200000000 demo_rotated = Inr (c, db2)
     \<and> cl_collector_id c = ''c1'' \<and> cl_token_id c = ''t1'' \<and> cl_scopes c = {''ingest''} \<and> cl_surfaces c = {''synergy''}"
proof -
  have "text_reads_back demo_crypto (token_claims demo_tokens demo_identity (stored_set (requested (Some [''ingest'']) (map strip) (ci_scopes demo_identity)))
      (stored_set (requested None strip_all (ci_providers demo_identity))) (stored_set (requested None strip_all (ci_surfaces demo_identity)))
      ''t1'' 1000000000 300)" by code_simp
  moreover have "in_calendar ((1000000000 + 300 * 1000000) div 1000000 * 1000000)" by code_simp
  moreover have "ascii (ci_audience demo_identity)" "ci_owner demo_identity \<noteq> []" by code_simp+
  moreover have "set (requested (Some [''ingest'']) (map strip) (ci_scopes demo_identity)) = {''ingest''}"
    "set (requested None strip_all (ci_surfaces demo_identity)) = {''synergy''}" by code_simp+
  ultimately show ?thesis
    using issued_token_validates [OF demo_issue demo_identity_row, of demo_ops 1200000000] demo_not_revoked
    unfolding demo_rotated_def by fastforce
qed

definition demo_claims :: CollectorClaims where
  "demo_claims = \<lparr>cl_collector_id = ''c1'', cl_audience = ''collector'', cl_environment = ''test'', cl_scopes = {''ingest''},
     cl_token_id = ''t1'', cl_expires_at = 1300000000, cl_owner = ''residential'', cl_providers = {''nba''}, cl_surfaces = {''synergy''}\<rparr>"

definition demo_consumed :: token_db where
  "demo_consumed = after demo_created (validate demo_crypto demo_tokens demo_token (Some ''ingest'') None True 1200000000 demo_created)"

lemma demo_validate: "validate demo_crypto demo_tokens demo_token (Some ''ingest'') None True 1200000000 demo_created = Inr (demo_claims, demo_consumed)"
  by code_simp

theorem validated_claims_authorized_witness:
  "\<exists>r. get_identity ''c1'' demo_created = Some r \<and> identity_matches_claims r demo_claims \<and> 1200000000 < cl_expires_at demo_claims"
  using validated_claims_authorized [OF demo_validate] by (auto simp: demo_claims_def)

theorem consumed_token_once_witness:
  "\<not> (\<exists>c db2. validate demo_crypto demo_tokens demo_token (Some ''ingest'') None True 1250000000
        (token_run demo_crypto demo_tokens [] demo_consumed) = Inr (c, db2) \<and> cl_token_id c = ''t1'')"
  using consumed_token_once [OF demo_validate, where ops = "[]"] by (auto simp: demo_claims_def)

definition demo_revoked :: token_db where
  "demo_revoked = after demo_created (revoke ''c1'' 1100000000 demo_created)"



text \<open>A signature outside ASCII makes \<open>compare_digest\<close> raise before anything is trusted.\<close>

lemma foreign_signature_raises:
  assumes "read_token cr token = Inr (body, signature, rest)" and "\<not> ascii signature"
  shows "validate cr ts token required audience consume now db = Inl TokenTypeError"
  using assms by (cases rest) (simp add: validate_def compare_digest_def)

end
