(* ===== verification/Ingestion.thy ===== *)
theory Ingestion
  imports Collector_Tokens Publications
begin

text \<open>
  Acceptance of observations by the control plane (\<open>services/collection_control.py\<close>: class
  \<open>ObservationIngestionService\<close>, the composition queue of \<open>PublicationService\<close> and
  \<open>decompress_gzip_limited\<close>; \<open>routes/collection_routes.py\<close>: \<open>ingest_observation\<close>). An upload takes the
  collector's lease in the database, is checked against its manifest and stream, is stored once
  under the collector's own identifier, queues the compositions it feeds, and is fenced by the lease
  immediately before its transaction commits.

  Each of the three transactions of an upload (lease, acceptance, release) is one function on the
  tables; a refused transaction leaves them as they were, except that a conflicting identifier is
  recorded by a transaction of its own. Transactions are serial, so the races the code handles by a
  failed insert cannot be seen here. The catalog uploads (\<open>ingest_catalog\<close>, \<open>publish_catalog\<close>) are
  not modelled.

  Arguments stand for the decompressor, the JSON reader, the digest and \<open>datetime.fromisoformat\<close>
  (records \<open>inflater\<close> and \<open>codec\<close>), for the governed start of each team's last fifteen games and the
  Eastern date of an instant (record \<open>ingest_service\<close>), and for clocks and random identifiers.
\<close>

section \<open>Decompression\<close>

text \<open>The decompression object: what \<open>decompress(data, max_length)\<close> gives, whether input was left
  unconsumed, \<open>flush\<close>, and the two flags. \<open>None\<close> is \<open>zlib.error\<close>.\<close>

record 'd inflater =
  z_new :: 'd
  z_decompress :: "'d \<Rightarrow> nat list \<Rightarrow> nat \<Rightarrow> (nat list \<times> 'd) option"
  z_unconsumed :: "'d \<Rightarrow> bool"
  z_flush :: "'d \<Rightarrow> (nat list \<times> 'd) option"
  z_eof :: "'d \<Rightarrow> bool"
  z_unused :: "'d \<Rightarrow> bool"

text \<open>A refusal of the control plane, and the exceptions of a validator that no caller handles.\<close>

datatype ingest_error = Refusal (refusal: control_error) | Escaped payload_exn | GovernanceUnavailable

abbreviation refuse_upload :: "string \<Rightarrow> ingest_error + 'a" where
  "refuse_upload r \<equiv> Inl (Refusal (ControlPlaneError r None))"

abbreviation busy :: "int \<Rightarrow> ingest_error + 'a" where
  "busy s \<equiv> Inl (Refusal (ControlPlaneError ''collector_busy'' (Some s)))"

abbreviation demand :: "bool \<Rightarrow> string \<Rightarrow> ingest_error + unit" where
  "demand b r \<equiv> ensure b (Refusal (ControlPlaneError r None))"

function chunks :: "nat \<Rightarrow> nat list \<Rightarrow> nat list list" where
  "chunks n xs = (if n = 0 \<or> xs = [] then [] else take n xs # chunks n (drop n xs))"
  by pat_completeness auto
termination by (relation "measure (\<lambda>(n, xs). length xs)") auto

declare chunks.simps [simp del]

definition CHUNK :: nat where "CHUNK = 64 * 1024"

definition inflate_chunk ::
  "'d inflater \<Rightarrow> nat \<Rightarrow> nat list \<Rightarrow> nat list \<times> 'd \<Rightarrow> ingest_error + nat list \<times> 'd" where
  "inflate_chunk z max_output chunk = (\<lambda>(output, decoder).
     if max_output < length output then refuse_upload ''payload_too_large''
     else case z_decompress z decoder chunk (max_output - length output + 1) of
       None \<Rightarrow> refuse_upload ''invalid_compression''
     | Some (data, decoder') \<Rightarrow>
         (if max_output < length (output @ data) \<or> z_unconsumed z decoder' then refuse_upload ''payload_too_large''
          else Inr (output @ data, decoder')))"

definition decompress_gzip_limited :: "'d inflater \<Rightarrow> nat list \<Rightarrow> nat \<Rightarrow> nat \<Rightarrow> ingest_error + nat list" where
  "decompress_gzip_limited z raw max_output max_input =
     and_then (demand (length raw \<le> max_input) ''payload_too_large'') (\<lambda>_.
     and_then (fold_res (inflate_chunk z max_output) (chunks CHUNK raw) ([], z_new z)) (\<lambda>(output, decoder).
       case z_flush z decoder of
         None \<Rightarrow> refuse_upload ''invalid_compression''
       | Some (tail, decoder') \<Rightarrow>
           (if max_output < length (output @ tail) \<or> \<not> z_eof z decoder' \<or> z_unused z decoder'
            then refuse_upload ''invalid_compression'' else Inr (output @ tail))))"

section \<open>Surfaces\<close>

record SurfaceDefinition =
  sd_stream_key :: string
  sd_provider :: string
  sd_owner :: string
  sd_scope :: string
  sd_required :: "string list"

definition surface :: "string \<Rightarrow> string \<Rightarrow> string \<Rightarrow> string \<Rightarrow> string list \<Rightarrow> SurfaceDefinition" where
  "surface k p ow s req = \<lparr>sd_stream_key = k, sd_provider = p, sd_owner = ow, sd_scope = s, sd_required = req\<rparr>"

definition SURFACE_REGISTRY :: "SurfaceDefinition list" where
  "SURFACE_REGISTRY =
     [surface ''event_catalog'' ''nba'' ''residential_collector'' ''whole_season'' [''event_catalog''],
      surface ''athlete_catalog'' ''nba'' ''residential_collector'' ''whole_season'' [''athlete_catalog''],
      surface ''canonical_game_ledger'' ''pbp'' ''railway'' ''one_completed_game'' [''game_stats''],
      surface ''player_game_logs'' ''ledger'' ''railway'' ''season_date_query'' [''canonical_game_ledger''],
      surface ''traditional_opponent'' ''ledger'' ''railway'' ''season_l15'' [''canonical_game_ledger''],
      surface ''assist_locations'' ''ledger'' ''railway'' ''season_l15'' [''canonical_game_ledger''],
      surface ''player_per36'' ''ledger'' ''railway'' ''full_regular_season'' [''canonical_game_ledger''],
      surface ''traditional_opponent_season'' ''ledger'' ''railway'' ''season'' [''canonical_game_ledger''],
      surface ''traditional_opponent_l15'' ''ledger'' ''railway'' ''l15'' [''canonical_game_ledger''],
      surface ''assist_locations_season'' ''ledger'' ''railway'' ''season'' [''canonical_game_ledger''],
      surface ''assist_locations_l15'' ''ledger'' ''railway'' ''l15'' [''canonical_game_ledger''],
      surface ''synergy_play_types'' ''nba'' ''residential_collector'' ''season'' [''synergy_play_types''],
      surface ''grouped_shot_types'' ''nba'' ''residential_collector'' ''season_l15'' [''grouped_shot_types''],
      surface ''exact_shot_zones'' ''nba'' ''residential_collector'' ''season_l15'' [''exact_shot_zones''],
      surface ''player_assist_locations'' ''ledger'' ''railway'' ''season'' [''canonical_game_ledger''],
      surface ''rebound_types_season'' ''ledger'' ''railway'' ''season'' [''canonical_game_ledger''],
      surface ''rebound_types_l15'' ''ledger'' ''railway'' ''l15'' [''canonical_game_ledger''],
      surface ''player_rebound_types'' ''ledger'' ''railway'' ''season'' [''canonical_game_ledger''],
      surface ''synergy_play_types_opponent_season'' ''nba'' ''residential_collector'' ''season'' [''synergy_opponent''],
      surface ''synergy_play_types_opponent_l15'' ''nba'' ''residential_collector'' ''l15'' [''synergy_opponent''],
      surface ''grouped_shot_types_opponent_season'' ''nba'' ''residential_collector'' ''season'' [''shot_types_opponent''],
      surface ''grouped_shot_types_opponent_l15'' ''nba'' ''residential_collector'' ''l15'' [''shot_types_opponent''],
      surface ''exact_shot_zones_opponent_season'' ''nba'' ''residential_collector'' ''season'' [''shot_zones_opponent''],
      surface ''exact_shot_zones_opponent_l15'' ''nba'' ''residential_collector'' ''l15'' [''shot_zones_opponent''],
      surface ''dfs_boards'' ''railway'' ''request_time'' ''pregame'' [],
      surface ''injury_reports'' ''nba'' ''request_time'' ''pregame'' [],
      surface ''synergy:l15'' ''nba'' ''residential_collector'' ''l15'' [''synergy'']]"

definition surface_definition :: "string \<Rightarrow> SurfaceDefinition option" where
  "surface_definition name = find (\<lambda>d. strip name = sd_stream_key d \<or> strip name \<in> set (sd_required d)) SURFACE_REGISTRY"

definition surface_names :: "SurfaceDefinition \<Rightarrow> string \<Rightarrow> string set" where
  "surface_names d observation_type =
     {n \<in> insert (sd_stream_key d) (insert (sd_scope d) (insert (strip observation_type) (set (sd_required d)))). n \<noteq> []}"

definition claims_allow_surface :: "CollectorClaims \<Rightarrow> SurfaceDefinition \<Rightarrow> string \<Rightarrow> string \<Rightarrow> bool" where
  "claims_allow_surface claims d provider observation_type \<longleftrightarrow>
     cl_owner claims \<noteq> [] \<and> cl_owner claims = sd_owner d \<and> provider = sd_provider d
     \<and> sd_provider d \<noteq> [] \<and> sd_provider d \<in> strip ` cl_providers claims
     \<and> surface_names d observation_type \<inter> (strip ` cl_surfaces claims) \<noteq> {}"

section \<open>Tables\<close>

record CollectorLease =
  ll_collector :: string
  ll_owner :: "string option"
  ll_expires_at :: "instant option"
  ll_fence :: int
  ll_updated_at :: instant

record CollectorLeaseGrant =
  gr_owner :: string
  gr_fence :: int

record ManifestRow =
  mr_id :: string
  mr_season :: string
  mr_cutoff :: instant
  mr_collect_before :: instant
  mr_accepted_versions :: "int list"
  mr_scopes :: "string list"
  mr_status :: string

record StreamRow =
  sr_key :: string
  sr_provider :: string
  sr_owner :: string
  sr_required :: "string list"
  sr_windows :: "string list"
  sr_versions :: "int list"
  sr_enabled :: bool

record CollectionObservation =
  ob_id :: string
  ob_client_id :: string
  ob_collector :: string
  ob_environment :: string
  ob_provider :: string
  ob_type :: string
  ob_manifest :: string
  ob_scope :: string
  ob_season :: string
  ob_cutoff :: instant
  ob_version :: int
  ob_checksum :: string
  ob_payload :: string
  ob_bytes :: nat
  ob_retrieved_at :: instant
  ob_accepted_at :: instant

datatype job_state = QUEUED | RUNNING | SUCCEEDED | FAILED

record QueuedComposition =
  qc_id :: string
  qc_stream :: string
  qc_manifest :: "string option"
  qc_season :: string
  qc_cutoff :: instant
  qc_status :: job_state
  qc_attempts :: int
  qc_created_at :: instant
  qc_updated_at :: instant
  qc_last_error :: "string option"
  qc_generation :: int
  qc_claimed_generation :: "int option"

record ReconciliationItem =
  ri_id :: string
  ri_season :: string
  ri_kind :: string
  ri_reason :: string
  ri_details :: string
  ri_dedupe_key :: string
  ri_created_at :: instant

record RejectedObservation =
  rj_collector :: string
  rj_client_id :: string
  rj_existing :: string
  rj_received :: string
  rj_created_at :: instant

record ingest_db =
  ig_identities :: "CollectorIdentity list"
  ig_leases :: "CollectorLease list"
  ig_manifests :: "ManifestRow list"
  ig_streams :: "StreamRow list"
  ig_observations :: "CollectionObservation list"
  ig_jobs :: "QueuedComposition list"
  ig_rejections :: "RejectedObservation list"
  ig_reconciliation :: "ReconciliationItem list"

record codec =
  co_wire :: wire
  co_loads :: "nat list \<Rightarrow> payload option"
  co_float_text :: "pyfloat \<Rightarrow> string"

text \<open>The injected collaborators: whether the two services are there, the governed starts of the last
  fifteen games of a manifest (\<open>None\<close> when governance is unavailable) and the Eastern date.\<close>

record ingest_service =
  sv_publication :: bool
  sv_control :: bool
  sv_l15 :: "ManifestRow \<Rightarrow> (int \<Rightarrow> string option) option"
  sv_slate_date :: "instant \<Rightarrow> int"

record ObservationReceipt =
  rc_observation_id :: string
  rc_client_id :: string
  rc_checksum :: string
  rc_replay :: bool

definition COLLECTOR_LEASE_SECONDS :: int where "COLLECTOR_LEASE_SECONDS = 30"
definition COLLECTOR_LEASE_RETRY_SECONDS :: int where "COLLECTOR_LEASE_RETRY_SECONDS = 1"
definition COMPOSITION_BUSY_RETRY_SECONDS :: int where "COMPOSITION_BUSY_RETRY_SECONDS = 30"
definition MAX_SCOPE_BYTES :: nat where "MAX_SCOPE_BYTES = 32 * 1024"

definition get_lease :: "string \<Rightarrow> ingest_db \<Rightarrow> CollectorLease option" where
  "get_lease i db = find (\<lambda>l. ll_collector l = i) (ig_leases db)"

definition set_lease :: "CollectorLease \<Rightarrow> ingest_db \<Rightarrow> ingest_db" where
  "set_lease l db = db\<lparr>ig_leases := update_where (\<lambda>q. ll_collector q = ll_collector l) (\<lambda>_. l) (ig_leases db)\<rparr>"

definition get_observation :: "string \<Rightarrow> string \<Rightarrow> ingest_db \<Rightarrow> CollectionObservation option" where
  "get_observation collector client_id db =
     find (\<lambda>ob. (ob_collector ob, ob_client_id ob) = (collector, client_id)) (ig_observations db)"

definition composition_job :: "string \<Rightarrow> string \<Rightarrow> instant \<Rightarrow> ingest_db \<Rightarrow> QueuedComposition option" where
  "composition_job stream season cutoff db =
     find (\<lambda>j. (qc_stream j, qc_season j, qc_cutoff j) = (stream, season, cutoff)) (ig_jobs db)"

section \<open>The lease of a collector\<close>

definition lease_end_in :: "instant \<Rightarrow> instant" where
  "lease_end_in now = now + COLLECTOR_LEASE_SECONDS * 1000000"

definition ceil_seconds :: "int \<Rightarrow> int" where
  "ceil_seconds micros = - ((- micros) div 1000000)"

text \<open>\<open>_acquire_identity_lease\<close>. A first acquisition inserts the row with fence 1 and then takes it
  like any other, which makes the fence 2.\<close>

definition lease_row :: "CollectorClaims \<Rightarrow> instant \<Rightarrow> string \<Rightarrow> ingest_db \<Rightarrow> CollectorLease \<times> ingest_db" where
  "lease_row claims now owner db =
     (case get_lease (cl_collector_id claims) db of
        Some l \<Rightarrow> (l, db)
      | None \<Rightarrow>
          (let l = \<lparr>ll_collector = cl_collector_id claims, ll_owner = Some owner, ll_expires_at = Some (lease_end_in now),
                 ll_fence = 1, ll_updated_at = now\<rparr>
           in (l, db\<lparr>ig_leases := ig_leases db @ [l]\<rparr>)))"

definition held_by_other :: "CollectorLease \<Rightarrow> string \<Rightarrow> instant \<Rightarrow> instant option" where
  "held_by_other l owner now =
     (case (ll_owner l, ll_expires_at l) of
        (Some other, Some expires) \<Rightarrow> (if other \<noteq> [] \<and> other \<noteq> owner \<and> now < expires then Some expires else None)
      | _ \<Rightarrow> None)"

definition acquire_identity_lease ::
  "CollectorClaims \<Rightarrow> instant \<Rightarrow> string \<Rightarrow> ingest_db \<Rightarrow> ingest_error + CollectorLeaseGrant \<times> ingest_db" where
  "acquire_identity_lease claims now owner db =
     (case find (\<lambda>r. ci_id r = cl_collector_id claims) (ig_identities db) of
        None \<Rightarrow> refuse_upload ''invalid_token''
      | Some r \<Rightarrow>
          and_then (demand (identity_matches_claims r claims) ''invalid_token'') (\<lambda>_.
            let (l, db1) = lease_row claims now owner db in
            case held_by_other l owner now of
              Some expires \<Rightarrow> busy (max COLLECTOR_LEASE_RETRY_SECONDS (ceil_seconds (expires - now)))
            | None \<Rightarrow>
                Inr (\<lparr>gr_owner = owner, gr_fence = ll_fence l + 1\<rparr>,
                  set_lease (l\<lparr>ll_owner := Some owner, ll_expires_at := Some (lease_end_in now),
                    ll_fence := ll_fence l + 1, ll_updated_at := now\<rparr>) db1)))"

definition release_identity_lease :: "CollectorClaims \<Rightarrow> CollectorLeaseGrant \<Rightarrow> instant \<Rightarrow> ingest_db \<Rightarrow> ingest_db" where
  "release_identity_lease claims grant now db =
     (case get_lease (cl_collector_id claims) db of
        None \<Rightarrow> db
      | Some l \<Rightarrow>
          (if ll_owner l = Some (gr_owner grant) \<and> ll_fence l = gr_fence grant
           then set_lease (l\<lparr>ll_owner := None, ll_expires_at := Some now, ll_updated_at := now\<rparr>) db
           else db))"

definition lease_held :: "string \<Rightarrow> CollectorLeaseGrant \<Rightarrow> instant \<Rightarrow> ingest_db \<Rightarrow> bool" where
  "lease_held collector grant now db \<longleftrightarrow>
     (case get_lease collector db of
        None \<Rightarrow> False
      | Some l \<Rightarrow> ll_owner l = Some (gr_owner grant) \<and> ll_fence l = gr_fence grant
          \<and> (case ll_expires_at l of None \<Rightarrow> False | Some expires \<Rightarrow> now < expires))"

definition assert_identity_lease ::
  "CollectorClaims \<Rightarrow> CollectorLeaseGrant \<Rightarrow> instant \<Rightarrow> ingest_db \<Rightarrow> ingest_error + ingest_db" where
  "assert_identity_lease claims grant now db =
     and_then (demand (lease_held (cl_collector_id claims) grant now db) ''stale_lease'') (\<lambda>_.
       case get_lease (cl_collector_id claims) db of
         None \<Rightarrow> Inr db
       | Some l \<Rightarrow> Inr (set_lease (l\<lparr>ll_expires_at := Some (lease_end_in now), ll_updated_at := now\<rparr>) db))"

section \<open>The composition queue\<close>

definition enqueue_composition ::
  "string \<Rightarrow> string \<Rightarrow> string \<Rightarrow> instant \<Rightarrow> string option \<Rightarrow> instant \<Rightarrow> ingest_db \<Rightarrow> QueuedComposition \<times> ingest_db" where
  "enqueue_composition job_id stream season cutoff manifest_id now db =
     (case composition_job stream season cutoff db of
        Some j \<Rightarrow> (j, db)
      | None \<Rightarrow>
          (let j = \<lparr>qc_id = job_id, qc_stream = stream, qc_manifest = manifest_id, qc_season = season, qc_cutoff = cutoff,
                 qc_status = QUEUED, qc_attempts = 0, qc_created_at = now, qc_updated_at = now, qc_last_error = None,
                 qc_generation = 1, qc_claimed_generation = None\<rparr>
           in (j, db\<lparr>ig_jobs := ig_jobs db @ [j]\<rparr>)))"

definition serves :: "string \<Rightarrow> string option \<Rightarrow> StreamRow \<Rightarrow> bool" where
  "serves observation_type window s \<longleftrightarrow>
     sr_enabled s \<and> observation_type \<in> set (sr_required s)
     \<and> (case window of None \<Rightarrow> True | Some w \<Rightarrow> sr_windows s = [] \<or> w \<in> set (sr_windows s))"

text \<open>A new observation is new input for a job that ended: it is queued again with its next generation,
  and only a failed one counts an attempt.\<close>

definition requeue :: "string option \<Rightarrow> instant \<Rightarrow> QueuedComposition \<Rightarrow> QueuedComposition" where
  "requeue manifest_id now j =
     (if qc_status j = FAILED \<or> qc_status j = SUCCEEDED
      then j\<lparr>qc_attempts := qc_attempts j + (if qc_status j = FAILED then 1 else 0), qc_status := QUEUED, qc_last_error := None,
             qc_updated_at := now, qc_generation := qc_generation j + 1, qc_claimed_generation := None,
             qc_manifest := (case manifest_id of None \<Rightarrow> qc_manifest j | Some m \<Rightarrow> Some m)\<rparr>
      else j)"

text \<open>One matching stream. \<open>locked\<close> tells which job rows a worker holds at this moment.\<close>

definition enqueue_stream ::
  "(string \<Rightarrow> bool) \<Rightarrow> (string \<Rightarrow> string) \<Rightarrow> string \<Rightarrow> instant \<Rightarrow> string option \<Rightarrow> instant \<Rightarrow> string \<Rightarrow> ingest_db
     \<Rightarrow> ingest_error + ingest_db" where
  "enqueue_stream locked new_id season cutoff manifest_id now stream db =
     (if stream \<notin> set (NBA_PUBLICATION_STREAM_KEYS @ PLAYER_DIET_OBSERVATION_STREAM_KEYS)
      then Inr (snd (enqueue_composition (new_id stream) stream season cutoff manifest_id now db))
      else case composition_job stream season cutoff db of
        None \<Rightarrow> Inr (snd (enqueue_composition (new_id stream) stream season cutoff manifest_id now db))
      | Some j \<Rightarrow>
          (if locked (qc_id j) then busy COMPOSITION_BUSY_RETRY_SECONDS
           else Inr (db\<lparr>ig_jobs := update_where (\<lambda>q. (qc_stream q, qc_season q, qc_cutoff q) = (stream, season, cutoff))
                    (requeue manifest_id now) (ig_jobs db)\<rparr>)))"

definition enqueue_for_observation ::
  "(string \<Rightarrow> bool) \<Rightarrow> (string \<Rightarrow> string) \<Rightarrow> string \<Rightarrow> string \<Rightarrow> instant \<Rightarrow> string option \<Rightarrow> string option \<Rightarrow> instant
     \<Rightarrow> ingest_db \<Rightarrow> ingest_error + ingest_db" where
  "enqueue_for_observation locked new_id observation_type season cutoff manifest_id window now db =
     fold_res (enqueue_stream locked new_id season cutoff manifest_id now)
       (map sr_key (filter (serves observation_type window) (ig_streams db))) db"

definition retry_composition :: "string \<Rightarrow> string \<Rightarrow> instant \<Rightarrow> ingest_db \<Rightarrow> ingest_error + ingest_db" where
  "retry_composition job_id reason now db =
     and_then (demand (3 \<le> length (strip reason)) ''reason_required'') (\<lambda>_.
     case find (\<lambda>j. qc_id j = job_id) (ig_jobs db) of
       None \<Rightarrow> refuse_upload ''composition_not_found''
     | Some j \<Rightarrow>
         and_then (demand (qc_status j = FAILED \<or> qc_status j = QUEUED) ''composition_not_retryable'') (\<lambda>_.
           Inr (db\<lparr>ig_jobs := update_where (\<lambda>q. qc_id q = job_id)
             (\<lambda>q. q\<lparr>qc_status := QUEUED, qc_attempts := qc_attempts q + 1, qc_updated_at := now, qc_last_error := None\<rparr>) (ig_jobs db)\<rparr>)))"

section \<open>Reading an upload\<close>

datatype body = Bytes "nat list" | Text string

text \<open>The received bytes: a text counts as its UTF-8 bytes only when the upload is compressed. A
  compressed body is bounded twice, by the decompressor again.\<close>

definition decode_body :: "'d inflater \<Rightarrow> body \<Rightarrow> bool \<Rightarrow> nat \<Rightarrow> nat \<Rightarrow> ingest_error + nat list" where
  "decode_body z body compressed max_payload max_compressed =
     and_then (case body of Bytes raw \<Rightarrow> Inr raw | Text s \<Rightarrow> if compressed then Inr (utf8 s) else refuse_upload ''malformed_payload'') (\<lambda>raw.
     and_then (demand (length raw \<le> (if compressed then max_compressed else max_payload)) ''payload_too_large'') (\<lambda>_.
       if compressed then decompress_gzip_limited z raw max_payload max_compressed else Inr raw))"

definition handled :: "payload_exn + 'a \<Rightarrow> ingest_error + 'a" where
  "handled m = (case m of
      Inr x \<Rightarrow> Inr x
    | Inl PUnresolved \<Rightarrow> refuse_upload ''identity_unresolved''
    | Inl (PValueError _) \<Rightarrow> refuse_upload ''malformed_payload''
    | Inl e \<Rightarrow> Inl (Escaped e))"

text \<open>The envelope is a dictionary, given by its entries.\<close>

definition field :: "(string \<times> payload) list \<Rightarrow> string \<Rightarrow> payload" where
  "field envelope k = (case map_of envelope k of None \<Rightarrow> PNull | Some v \<Rightarrow> v)"

definition text_field :: "codec \<Rightarrow> (string \<times> payload) list \<Rightarrow> string \<Rightarrow> string" where
  "text_field co envelope k = str_of (co_float_text co) (case map_of envelope k of None \<Rightarrow> PStr [] | Some v \<Rightarrow> v)"

definition read_payload :: "codec \<Rightarrow> (string \<times> payload) list \<Rightarrow> nat list \<Rightarrow> ingest_error + payload" where
  "read_payload co envelope decoded =
     (case co_loads co decoded of
        None \<Rightarrow> refuse_upload ''malformed_payload''
      | Some value \<Rightarrow>
          and_then (handled (validate_observation_payload (co_wire co) (co_float_text co) value (text_field co envelope ''observation_type'')))
            (\<lambda>_. Inr value))"

text \<open>\<open>record_identity_unresolved\<close>: evidence of a payload with unresolved identities, kept once.\<close>

definition record_identity_unresolved ::
  "codec \<Rightarrow> (string \<times> payload) list \<Rightarrow> string \<Rightarrow> instant \<Rightarrow> ingest_db \<Rightarrow> ingest_db" where
  "record_identity_unresolved co envelope item_id now db =
     (let fr = co_float_text co;
          text = (\<lambda>k. str_of fr (case map_of envelope k of None \<Rightarrow> PStr [] | Some v \<Rightarrow> v));
          season = str_of fr (field envelope ''season'');
          kind = str_of fr (case map_of envelope ''observation_type'' of None \<Rightarrow> PStr ''observation'' | Some v \<Rightarrow> v);
          safe = PObj [(''provider'', PStr (take 256 (text ''provider''))),
                       (''client_observation_id'', PStr (take 256 (text ''client_observation_id'')))];
          dedupe_key = take 128 (sha256_hex (co_wire co) (utf8 (dumps fr True (PObj [(''season'', PStr season),
            (''kind'', PStr (take 64 kind)), (''reason'', PStr ''identity_unresolved''), (''details'', safe)]))))
      in if \<exists>i \<in> set (ig_reconciliation db). ri_dedupe_key i = dedupe_key then db
         else db\<lparr>ig_reconciliation := ig_reconciliation db @
           [\<lparr>ri_id = item_id, ri_season = season, ri_kind = take 64 kind, ri_reason = ''identity_unresolved'',
             ri_details = dumps fr True safe, ri_dedupe_key = dedupe_key, ri_created_at = now\<rparr>]\<rparr>)"

definition note_unresolved ::
  "codec \<Rightarrow> ingest_service \<Rightarrow> (string \<times> payload) list \<Rightarrow> string \<Rightarrow> instant \<Rightarrow> ingest_error + 'a \<Rightarrow> ingest_db \<Rightarrow> ingest_db" where
  "note_unresolved co sv envelope item_id now result db =
     (case result of
        Inl (Refusal e) \<Rightarrow>
          (if ce_reason e = ''identity_unresolved'' \<and> sv_control sv \<and> truthy (field envelope ''season'')
           then record_identity_unresolved co envelope item_id now db else db)
      | _ \<Rightarrow> db)"

text \<open>\<open>_preflight_payload\<close>, before any lease is taken.\<close>

definition preflight_payload ::
  "'d inflater \<Rightarrow> codec \<Rightarrow> (string \<times> payload) list \<Rightarrow> body \<Rightarrow> bool \<Rightarrow> nat \<Rightarrow> nat \<Rightarrow> ingest_error + unit" where
  "preflight_payload z co envelope body compressed max_payload max_compressed =
     and_then (decode_body z body compressed max_payload max_compressed) (\<lambda>decoded.
     and_then (read_payload co envelope decoded) (\<lambda>value.
       handled (validate_observation_scope_identity value (text_field co envelope ''observation_type'') (field envelope ''scope''))))"

section \<open>Checks of the envelope\<close>

definition ENVELOPE_FIELDS :: "string list" where
  "ENVELOPE_FIELDS = [''manifest_id'', ''client_observation_id'', ''environment'', ''provider'', ''observation_type'', ''scope'', ''season'',
     ''cutoff'', ''schema_version'', ''retrieved_at'', ''checksum'']"

record checked_envelope =
  ev_version :: int
  ev_provider :: string
  ev_type :: string
  ev_client_id :: string
  ev_scope_text :: string
  ev_manifest_id :: string
  ev_checksum :: string

definition stripped_text :: "payload \<Rightarrow> string option" where
  "stripped_text v = (case v of PStr s \<Rightarrow> Some (strip s) | _ \<Rightarrow> None)"

definition check_envelope ::
  "codec \<Rightarrow> CollectorClaims \<Rightarrow> (string \<times> payload) list \<Rightarrow> nat list \<Rightarrow> ingest_error + checked_envelope" where
  "check_envelope co claims envelope decoded =
     and_then (demand (fst ` set envelope = set ENVELOPE_FIELDS) ''malformed_envelope'') (\<lambda>_.
     and_then (demand (''ingest'' \<in> cl_scopes claims) ''scope_denied'') (\<lambda>_.
     and_then (demand (field envelope ''environment'' = PStr (cl_environment claims) \<and> field envelope ''season'' \<noteq> PNull)
       ''environment_mismatch'') (\<lambda>_.
     and_then (case field envelope ''schema_version'' of PInt v \<Rightarrow> Inr v | _ \<Rightarrow> refuse_upload ''schema_unsupported'') (\<lambda>version.
     and_then (case stripped_text (field envelope ''provider'') of Some p \<Rightarrow> and_then (demand (p \<noteq> []) ''provider_not_registered'') (\<lambda>_. Inr p)
       | None \<Rightarrow> refuse_upload ''provider_not_registered'') (\<lambda>provider.
     and_then (case stripped_text (field envelope ''observation_type'') of Some t \<Rightarrow> and_then (demand (t \<noteq> []) ''invalid_observation_type'') (\<lambda>_. Inr t)
       | None \<Rightarrow> refuse_upload ''invalid_observation_type'') (\<lambda>observation_type.
     and_then (case stripped_text (field envelope ''client_observation_id'') of
         Some i \<Rightarrow> and_then (demand (i \<noteq> [] \<and> length i \<le> 128) ''invalid_observation_id'') (\<lambda>_. Inr i)
       | None \<Rightarrow> refuse_upload ''invalid_observation_id'') (\<lambda>client_id.
     let scope_text = dumps (co_float_text co) True (field envelope ''scope'') in
     and_then (demand (length (utf8 scope_text) \<le> MAX_SCOPE_BYTES) ''scope_limit'') (\<lambda>_.
     and_then (case stripped_text (field envelope ''manifest_id'') of Some m \<Rightarrow> and_then (demand (m \<noteq> []) ''manifest_not_found'') (\<lambda>_. Inr m)
       | None \<Rightarrow> refuse_upload ''manifest_not_found'') (\<lambda>manifest_id.
     let sent = field envelope ''checksum''; checksum = (if truthy sent then str_of (co_float_text co) sent else []) in
     and_then (demand (checksum \<noteq> [] \<and> checksum = sha256_hex (co_wire co) decoded) ''checksum_mismatch'') (\<lambda>_.
       Inr \<lparr>ev_version = version, ev_provider = provider, ev_type = observation_type, ev_client_id = client_id,
            ev_scope_text = scope_text, ev_manifest_id = manifest_id, ev_checksum = checksum\<rparr>))))))))))"

section \<open>Checks against the manifest and the stream\<close>

definition cutoff_of :: "codec \<Rightarrow> (string \<times> payload) list \<Rightarrow> ingest_error + instant" where
  "cutoff_of co envelope = of_option (Refusal (ControlPlaneError ''invalid_timestamp'' None)) (parse_datetime (co_wire co) (field envelope ''cutoff''))"

definition season_text :: "codec \<Rightarrow> (string \<times> payload) list \<Rightarrow> string" where
  "season_text co envelope = str_of (co_float_text co) (field envelope ''season'')"

definition window_of :: "codec \<Rightarrow> payload \<Rightarrow> string option" where
  "window_of co scope =
     (if is_obj scope then
        (case get_or scope ''window'' (get_or scope ''scope'' PNull) of PNull \<Rightarrow> None | v \<Rightarrow> Some (str_of (co_float_text co) v))
      else None)"

definition rehearsal :: "string \<Rightarrow> ManifestRow \<Rightarrow> bool" where
  "rehearsal observation_type m \<longleftrightarrow>
     observation_type = ''rehearsal_validation'' \<and> set (mr_scopes m) = {''rehearsal_validation''}"

definition l15_starts :: "codec \<Rightarrow> ingest_service \<Rightarrow> string \<Rightarrow> payload \<Rightarrow> ManifestRow \<Rightarrow> ingest_error + (int \<Rightarrow> string option)" where
  "l15_starts co sv observation_type scope m =
     (if observation_type \<in> set OPPONENT_TYPES \<and> is_obj scope
         \<and> casefold (str_of (co_float_text co) (get_or scope ''window'' (PStr []))) = ''l15''
      then of_option GovernanceUnavailable (sv_l15 sv m)
      else Inr (\<lambda>_. None))"

definition check_manifest ::
  "codec \<Rightarrow> ingest_service \<Rightarrow> (string \<times> payload) list \<Rightarrow> checked_envelope \<Rightarrow> instant \<Rightarrow> ingest_db \<Rightarrow> ingest_error + ManifestRow" where
  "check_manifest co sv envelope ev now db =
     (case find (\<lambda>m. mr_id m = ev_manifest_id ev) (ig_manifests db) of
        None \<Rightarrow> refuse_upload ''manifest_expired''
      | Some m \<Rightarrow>
          and_then (demand (mr_status m = ''active'' \<and> now < mr_collect_before m) ''manifest_expired'') (\<lambda>_.
          and_then (demand (ev_version ev \<in> set (mr_accepted_versions m)) ''schema_unsupported'') (\<lambda>_.
          and_then (demand (mr_season m = season_text co envelope) ''manifest_scope_mismatch'') (\<lambda>_.
          and_then (cutoff_of co envelope) (\<lambda>cutoff.
          and_then (demand (mr_cutoff m = cutoff) ''manifest_scope_mismatch'') (\<lambda>_.
          and_then (l15_starts co sv (ev_type ev) (field envelope ''scope'') m) (\<lambda>starts.
          and_then (case validate_opponent_window_scope (co_float_text co) (field envelope ''scope'') (ev_type ev) (season_text co envelope)
              (sv_slate_date sv (mr_cutoff m)) starts of Inl r \<Rightarrow> refuse_upload r | Inr u \<Rightarrow> Inr u) (\<lambda>_.
          and_then (demand (ev_type ev \<in> set (mr_scopes m) \<or> ''*'' \<in> set (mr_scopes m)) ''scope_denied'') (\<lambda>_.
            Inr m)))))))))"

text \<open>\<open>_registered_stream\<close>: the first enabled stream in the order the query gives them.\<close>

definition registered_stream :: "string \<Rightarrow> string \<Rightarrow> string option \<Rightarrow> ingest_db \<Rightarrow> StreamRow option" where
  "registered_stream observation_type provider window db =
     find (\<lambda>s. sr_provider s = provider \<and> serves observation_type window s) (ig_streams db)"

definition stream_definition :: "StreamRow \<Rightarrow> SurfaceDefinition" where
  "stream_definition s =
     (case surface_definition (sr_key s) of
        Some d \<Rightarrow> surface (sd_stream_key d) (sr_provider s) (sr_owner s) (sd_scope d) (if sr_required s = [] then sd_required d else sr_required s)
      | None \<Rightarrow> surface (sr_key s) (sr_provider s) (sr_owner s) (sr_key s) (sr_required s))"

definition check_stream ::
  "codec \<Rightarrow> CollectorClaims \<Rightarrow> (string \<times> payload) list \<Rightarrow> checked_envelope \<Rightarrow> ingest_db \<Rightarrow> ingest_error + unit" where
  "check_stream co claims envelope ev db =
     (let scope = field envelope ''scope''; window = window_of co scope
      in case registered_stream (ev_type ev) (ev_provider ev) window db of
        None \<Rightarrow> refuse_upload ''provider_not_registered''
      | Some s \<Rightarrow>
          and_then (demand (claims_allow_surface claims (stream_definition s) (ev_provider ev) (ev_type ev)) ''scope_denied'') (\<lambda>_.
          and_then (demand (ev_version ev \<in> set (sr_versions s)) ''schema_unsupported'') (\<lambda>_.
          and_then (demand (\<not> (is_obj scope \<and> sr_windows s \<noteq> [] \<and> window = None)) ''scope_unsupported'') (\<lambda>_.
            demand (case window of None \<Rightarrow> True | Some w \<Rightarrow> w \<in> set (sr_windows s)) ''scope_unsupported''))))"

definition check_surface :: "CollectorClaims \<Rightarrow> checked_envelope \<Rightarrow> ingest_error + unit" where
  "check_surface claims ev =
     (case surface_definition (ev_type ev) of
        None \<Rightarrow> refuse_upload ''scope_denied''
      | Some d \<Rightarrow> demand (claims_allow_surface claims d (ev_provider ev) (ev_type ev)) ''scope_denied'')"

definition check_authority ::
  "codec \<Rightarrow> ingest_service \<Rightarrow> CollectorClaims \<Rightarrow> (string \<times> payload) list \<Rightarrow> checked_envelope \<Rightarrow> instant \<Rightarrow> ingest_db
     \<Rightarrow> ingest_error + bool" where
  "check_authority co sv claims envelope ev now db =
     and_then (check_manifest co sv envelope ev now db) (\<lambda>m.
     let rehearsed = rehearsal (ev_type ev) m in
     and_then (if rehearsed then Inr () else if sv_publication sv then check_stream co claims envelope ev db
               else check_surface claims ev) (\<lambda>_.
     and_then (demand (case field envelope ''scope'' of PStr _ \<Rightarrow> True | PObj _ \<Rightarrow> True | PList _ \<Rightarrow> True | _ \<Rightarrow> False) ''invalid_scope'') (\<lambda>_.
       Inr rehearsed)))"

section \<open>Acceptance\<close>

definition observation_row ::
  "codec \<Rightarrow> CollectorClaims \<Rightarrow> (string \<times> payload) list \<Rightarrow> checked_envelope \<Rightarrow> payload \<Rightarrow> string \<Rightarrow> instant
     \<Rightarrow> ingest_error + CollectionObservation" where
  "observation_row co claims envelope ev value observation_id now =
     and_then (cutoff_of co envelope) (\<lambda>cutoff.
     and_then (of_option (Refusal (ControlPlaneError ''invalid_timestamp'' None)) (parse_datetime (co_wire co) (field envelope ''retrieved_at'')))
       (\<lambda>retrieved_at.
       let text = dumps (co_float_text co) True value in
       Inr \<lparr>ob_id = observation_id, ob_client_id = ev_client_id ev, ob_collector = cl_collector_id claims,
            ob_environment = cl_environment claims, ob_provider = ev_provider ev, ob_type = ev_type ev, ob_manifest = ev_manifest_id ev,
            ob_scope = ev_scope_text ev, ob_season = season_text co envelope, ob_cutoff = cutoff, ob_version = ev_version ev,
            ob_checksum = ev_checksum ev, ob_payload = text, ob_bytes = length (utf8 text), ob_retrieved_at = retrieved_at,
            ob_accepted_at = now\<rparr>))"

text \<open>The unique index of collector and client identifier.\<close>

definition insert_observation :: "CollectionObservation \<Rightarrow> ingest_db \<Rightarrow> ingest_error + ingest_db" where
  "insert_observation ob db =
     and_then (demand (get_observation (ob_collector ob) (ob_client_id ob) db = None) ''observation_race'') (\<lambda>_.
       Inr (db\<lparr>ig_observations := ig_observations db @ [ob]\<rparr>))"

text \<open>What one acceptance draws from its surroundings: the clock of the transaction, of the queue and
  of the lease, the new identifiers, and the job rows that workers hold.\<close>

record surroundings =
  su_now :: instant
  su_queue_now :: instant
  su_lease_now :: instant
  su_observation_id :: string
  su_job_id :: "string \<Rightarrow> string"
  su_item_id :: string
  su_locked :: "string \<Rightarrow> bool"

definition accept_new ::
  "codec \<Rightarrow> ingest_service \<Rightarrow> CollectorClaims \<Rightarrow> (string \<times> payload) list \<Rightarrow> checked_envelope \<Rightarrow> payload \<Rightarrow> bool
     \<Rightarrow> CollectorLeaseGrant \<Rightarrow> surroundings \<Rightarrow> ingest_db \<Rightarrow> ingest_error + ObservationReceipt \<times> ingest_db" where
  "accept_new co sv claims envelope ev value rehearsed grant su db =
     and_then (observation_row co claims envelope ev value (su_observation_id su) (su_now su)) (\<lambda>ob.
     and_then (insert_observation ob db) (\<lambda>db1.
     and_then (if sv_publication sv \<and> \<not> rehearsed
               then enqueue_for_observation (su_locked su) (su_job_id su) (ev_type ev) (ob_season ob) (ob_cutoff ob) (Some (ev_manifest_id ev))
                      (window_of co (field envelope ''scope'')) (su_queue_now su) db1
               else Inr db1) (\<lambda>db2.
     and_then (assert_identity_lease claims grant (su_lease_now su) db2) (\<lambda>db3.
       Inr (\<lparr>rc_observation_id = ob_id ob, rc_client_id = ev_client_id ev, rc_checksum = ev_checksum ev, rc_replay = False\<rparr>, db3)))))"

definition reject_conflict ::
  "CollectorClaims \<Rightarrow> checked_envelope \<Rightarrow> CollectionObservation \<Rightarrow> instant \<Rightarrow> ingest_db \<Rightarrow> ingest_db" where
  "reject_conflict claims ev ob now db = db\<lparr>ig_rejections := ig_rejections db @
     [\<lparr>rj_collector = take 128 (cl_collector_id claims), rj_client_id = take 128 (ev_client_id ev), rj_existing = take 12 (ob_checksum ob),
       rj_received = take 12 (ev_checksum ev), rj_created_at = now\<rparr>]\<rparr>"

definition settle_observation ::
  "codec \<Rightarrow> ingest_service \<Rightarrow> CollectorClaims \<Rightarrow> (string \<times> payload) list \<Rightarrow> checked_envelope \<Rightarrow> payload \<Rightarrow> bool
     \<Rightarrow> CollectorLeaseGrant \<Rightarrow> surroundings \<Rightarrow> ingest_db \<Rightarrow> (ingest_error + ObservationReceipt) \<times> ingest_db" where
  "settle_observation co sv claims envelope ev value rehearsed grant su db =
     (case get_observation (cl_collector_id claims) (ev_client_id ev) db of
        Some ob \<Rightarrow>
          (if ob_checksum ob \<noteq> ev_checksum ev then (refuse_upload ''observation_id_conflict'', reject_conflict claims ev ob (su_now su) db)
           else (Inr \<lparr>rc_observation_id = ob_id ob, rc_client_id = ev_client_id ev, rc_checksum = ev_checksum ev, rc_replay = True\<rparr>, db))
      | None \<Rightarrow>
          (case accept_new co sv claims envelope ev value rehearsed grant su db of
             Inl e \<Rightarrow> (Inl e, db)
           | Inr (receipt, db') \<Rightarrow> (Inr receipt, db')))"

text \<open>\<open>_ingest\<close> for observations: everything is read and checked again, now under the lease.\<close>

definition read_upload ::
  "'d inflater \<Rightarrow> codec \<Rightarrow> CollectorClaims \<Rightarrow> (string \<times> payload) list \<Rightarrow> body \<Rightarrow> bool \<Rightarrow> nat \<Rightarrow> nat
     \<Rightarrow> ingest_error + checked_envelope \<times> payload" where
  "read_upload z co claims envelope body compressed max_payload max_compressed =
     and_then (decode_body z body compressed max_payload max_compressed) (\<lambda>decoded.
     and_then (read_payload co envelope decoded) (\<lambda>value.
     and_then (demand (case value of PObj _ \<Rightarrow> True | PList _ \<Rightarrow> True | _ \<Rightarrow> False) ''malformed_payload'') (\<lambda>_.
     and_then (check_envelope co claims envelope decoded) (\<lambda>ev. Inr (ev, value)))))"

definition ingest_observation ::
  "'d inflater \<Rightarrow> codec \<Rightarrow> ingest_service \<Rightarrow> CollectorClaims \<Rightarrow> (string \<times> payload) list \<Rightarrow> body \<Rightarrow> bool \<Rightarrow> nat \<Rightarrow> nat
     \<Rightarrow> CollectorLeaseGrant \<Rightarrow> surroundings \<Rightarrow> ingest_db \<Rightarrow> (ingest_error + ObservationReceipt) \<times> ingest_db" where
  "ingest_observation z co sv claims envelope body compressed max_payload max_compressed grant su db =
     (case read_upload z co claims envelope body compressed max_payload max_compressed of
        Inl e \<Rightarrow> (Inl e, note_unresolved co sv envelope (su_item_id su) (su_now su) (Inl e :: ingest_error + unit) db)
      | Inr (ev, value) \<Rightarrow>
          (case check_authority co sv claims envelope ev (su_now su) db of
             Inl e \<Rightarrow> (Inl e, db)
           | Inr rehearsed \<Rightarrow> settle_observation co sv claims envelope ev value rehearsed grant su db))"

text \<open>\<open>ingest\<close>: the process-local semaphore (free or not), the preflight, the lease, the acceptance and
  the release, with the clocks of each transaction.\<close>

record upload_clock =
  uc_free :: bool
  uc_preflight :: instant
  uc_acquire :: instant
  uc_owner :: string
  uc_release :: instant

definition ingest ::
  "'d inflater \<Rightarrow> codec \<Rightarrow> ingest_service \<Rightarrow> upload_clock \<Rightarrow> surroundings \<Rightarrow> CollectorClaims \<Rightarrow> (string \<times> payload) list \<Rightarrow> body
     \<Rightarrow> bool \<Rightarrow> nat \<Rightarrow> nat \<Rightarrow> ingest_db \<Rightarrow> (ingest_error + ObservationReceipt) \<times> ingest_db" where
  "ingest z co sv uc su claims envelope body compressed max_payload max_compressed db =
     (if \<not> uc_free uc then (busy COLLECTOR_LEASE_RETRY_SECONDS, db)
      else case preflight_payload z co envelope body compressed max_payload max_compressed of
        Inl e \<Rightarrow> (Inl e, note_unresolved co sv envelope (su_item_id su) (uc_preflight uc) (Inl e :: ingest_error + unit) db)
      | Inr _ \<Rightarrow>
          (case acquire_identity_lease claims (uc_acquire uc) (uc_owner uc) db of
             Inl e \<Rightarrow> (Inl e, db)
           | Inr (grant, db1) \<Rightarrow>
               (let (result, db2) = ingest_observation z co sv claims envelope body compressed max_payload max_compressed grant su db1
                in (result, release_identity_lease claims grant (uc_release uc) db2))))"

section \<open>Any interleaving\<close>

text \<open>The transactions of all workers on one database, in the order they commit. \<open>Elsewhere\<close> stands
  for every other transaction of the control plane: it may do anything to identities, manifests,
  streams and composition jobs, and none of them touches leases or observations.\<close>

datatype server_op =
    Acquire CollectorClaims instant string
  | Accept CollectorClaims "(string \<times> payload) list" body bool CollectorLeaseGrant surroundings
  | Release CollectorClaims CollectorLeaseGrant instant
  | Retry string string instant
  | Elsewhere "CollectorIdentity list" "ManifestRow list" "StreamRow list" "QueuedComposition list"

definition committed :: "ingest_db \<Rightarrow> ingest_error + ingest_db \<Rightarrow> ingest_db" where
  "committed db m = (case m of Inl _ \<Rightarrow> db | Inr db' \<Rightarrow> db')"

fun server_apply :: "'d inflater \<Rightarrow> codec \<Rightarrow> ingest_service \<Rightarrow> nat \<Rightarrow> nat \<Rightarrow> server_op \<Rightarrow> ingest_db \<Rightarrow> ingest_db" where
  "server_apply z co sv mp mc (Acquire cl now ow) db = committed db (and_then (acquire_identity_lease cl now ow db) (\<lambda>(_, db'). Inr db'))"
| "server_apply z co sv mp mc (Accept cl env body compressed grant su) db =
     snd (ingest_observation z co sv cl env body compressed mp mc grant su db)"
| "server_apply z co sv mp mc (Release cl grant now) db = release_identity_lease cl grant now db"
| "server_apply z co sv mp mc (Retry job reason now) db = committed db (retry_composition job reason now db)"
| "server_apply z co sv mp mc (Elsewhere ids ms ss js) db =
     db\<lparr>ig_identities := ids, ig_manifests := ms, ig_streams := ss, ig_jobs := js\<rparr>"

definition server_run :: "'d inflater \<Rightarrow> codec \<Rightarrow> ingest_service \<Rightarrow> nat \<Rightarrow> nat \<Rightarrow> server_op list \<Rightarrow> ingest_db \<Rightarrow> ingest_db" where
  "server_run z co sv mp mc ops db = fold (server_apply z co sv mp mc) ops db"

section \<open>What the operations leave alone\<close>

lemma get_set_lease: "get_lease i (set_lease l db) =
    (if i = ll_collector l then map_option (\<lambda>_. l) (get_lease i db) else get_lease i db)"
  by (simp add: get_lease_def set_lease_def find_set_row)

lemma get_lease_collector: "get_lease i db = Some l \<Longrightarrow> ll_collector l = i"
  by (auto simp: get_lease_def find_Some_iff)

lemma get_lease_added: "get_lease i (db\<lparr>ig_leases := ig_leases db @ [l]\<rparr>) =
    (case get_lease i db of None \<Rightarrow> if ll_collector l = i then Some l else None | Some x \<Rightarrow> Some x)"
  by (simp add: get_lease_def find_added split: option.split)

text \<open>Everything but leases.\<close>

definition same_rows :: "ingest_db \<Rightarrow> ingest_db \<Rightarrow> bool" where
  "same_rows db db' \<longleftrightarrow> db' = db\<lparr>ig_leases := ig_leases db'\<rparr>"

lemma same_rows_simps:
  "same_rows db (set_lease l db)" "same_rows db (db\<lparr>ig_leases := x\<rparr>)" "same_rows db db"
  by (simp_all add: same_rows_def set_lease_def)

lemma same_rows_trans: "same_rows a b \<Longrightarrow> same_rows b c \<Longrightarrow> same_rows a c"
  unfolding same_rows_def by (cases a; cases b; cases c) simp

lemma same_rowsD:
  assumes "same_rows db db'"
  shows "ig_observations db' = ig_observations db" and "ig_jobs db' = ig_jobs db" and "ig_identities db' = ig_identities db"
    and "ig_rejections db' = ig_rejections db" and "ig_manifests db' = ig_manifests db" and "ig_streams db' = ig_streams db"
    and "ig_reconciliation db' = ig_reconciliation db"
  using assms unfolding same_rows_def by (cases db; cases db'; simp)+

lemma acquire_cases:
  assumes "acquire_identity_lease cl now ow db = Inr (g, db')"
  obtains r l db1 where "find (\<lambda>r. ci_id r = cl_collector_id cl) (ig_identities db) = Some r" "identity_matches_claims r cl"
    "lease_row cl now ow db = (l, db1)" "held_by_other l ow now = None" "g = \<lparr>gr_owner = ow, gr_fence = ll_fence l + 1\<rparr>"
    "db' = set_lease (l\<lparr>ll_owner := Some ow, ll_expires_at := Some (lease_end_in now), ll_fence := ll_fence l + 1, ll_updated_at := now\<rparr>) db1"
  using assms unfolding acquire_identity_lease_def
  by (auto simp: and_then_Inr ensure_Inr split: option.splits prod.splits)

lemma lease_row_get:
  assumes "lease_row cl now ow db = (l, db1)"
  shows "get_lease (cl_collector_id cl) db1 = Some l" and "ll_collector l = cl_collector_id cl" and "same_rows db db1"
    and "i \<noteq> cl_collector_id cl \<Longrightarrow> get_lease i db1 = get_lease i db"
    and "get_lease (cl_collector_id cl) db = Some l0 \<Longrightarrow> l = l0 \<and> db1 = db"
    and "get_lease (cl_collector_id cl) db = None \<Longrightarrow> ll_fence l = 1 \<and> ll_owner l = Some ow"
proof -
  have "get_lease (cl_collector_id cl) db1 = Some l \<and> ll_collector l = cl_collector_id cl \<and> same_rows db db1
      \<and> (\<forall>i. i \<noteq> cl_collector_id cl \<longrightarrow> get_lease i db1 = get_lease i db)
      \<and> (\<forall>l0. get_lease (cl_collector_id cl) db = Some l0 \<longrightarrow> l = l0 \<and> db1 = db)
      \<and> (get_lease (cl_collector_id cl) db = None \<longrightarrow> ll_fence l = 1 \<and> ll_owner l = Some ow)"
  proof (cases "get_lease (cl_collector_id cl) db")
    case (Some l0)
    then have "l = l0" "db1 = db" using assms by (auto simp: lease_row_def)
    with Some get_lease_collector [OF Some] show ?thesis by (simp add: same_rows_simps)
  next
    case None
    then have "l = \<lparr>ll_collector = cl_collector_id cl, ll_owner = Some ow, ll_expires_at = Some (lease_end_in now), ll_fence = 1,
        ll_updated_at = now\<rparr>" "db1 = db\<lparr>ig_leases := ig_leases db @ [l]\<rparr>" using assms by (auto simp: lease_row_def Let_def)
    with None show ?thesis by (auto simp: get_lease_added same_rows_simps split: option.split)
  qed
  then show "get_lease (cl_collector_id cl) db1 = Some l" "ll_collector l = cl_collector_id cl" "same_rows db db1"
    "i \<noteq> cl_collector_id cl \<Longrightarrow> get_lease i db1 = get_lease i db"
    "get_lease (cl_collector_id cl) db = Some l0 \<Longrightarrow> l = l0 \<and> db1 = db"
    "get_lease (cl_collector_id cl) db = None \<Longrightarrow> ll_fence l = 1 \<and> ll_owner l = Some ow" by simp_all
qed

lemma acquire_get:
  assumes "acquire_identity_lease cl now ow db = Inr (g, db')"
  shows "\<exists>l'. get_lease (cl_collector_id cl) db' = Some l' \<and> ll_owner l' = Some ow \<and> ll_fence l' = gr_fence g \<and> gr_owner g = ow
      \<and> ll_expires_at l' = Some (lease_end_in now)"
    and "same_rows db db'" and "i \<noteq> cl_collector_id cl \<Longrightarrow> get_lease i db' = get_lease i db"
    and "get_lease (cl_collector_id cl) db = Some l0 \<Longrightarrow> ll_fence l0 < gr_fence g"
proof -
  obtain l db1 where l: "lease_row cl now ow db = (l, db1)" "g = \<lparr>gr_owner = ow, gr_fence = ll_fence l + 1\<rparr>"
    "db' = set_lease (l\<lparr>ll_owner := Some ow, ll_expires_at := Some (lease_end_in now), ll_fence := ll_fence l + 1, ll_updated_at := now\<rparr>) db1"
    by (rule acquire_cases [OF assms])
  note r = lease_row_get [OF l(1)]
  show "\<exists>l'. get_lease (cl_collector_id cl) db' = Some l' \<and> ll_owner l' = Some ow \<and> ll_fence l' = gr_fence g \<and> gr_owner g = ow
      \<and> ll_expires_at l' = Some (lease_end_in now)"
    unfolding l(2,3) using r(1,2) by (simp add: get_set_lease)
  show "same_rows db db'" unfolding l(3) using r(3) by (rule same_rows_trans) (rule same_rows_simps)
  show "i \<noteq> cl_collector_id cl \<Longrightarrow> get_lease i db' = get_lease i db"
    unfolding l(3) using r(2,4) by (simp add: get_set_lease)
  show "get_lease (cl_collector_id cl) db = Some l0 \<Longrightarrow> ll_fence l0 < gr_fence g"
    unfolding l(2) using r(5) by simp
qed

lemma release_same_rows: "same_rows db (release_identity_lease cl g now db)"
  by (simp add: release_identity_lease_def same_rows_simps split: option.split)

text \<open>Fences only rise.\<close>

definition lease_fence :: "ingest_db \<Rightarrow> string \<Rightarrow> int option" where
  "lease_fence db i = map_option ll_fence (get_lease i db)"

definition fences_kept :: "ingest_db \<Rightarrow> ingest_db \<Rightarrow> bool" where
  "fences_kept db db' \<longleftrightarrow> (\<forall>i n. lease_fence db i = Some n \<longrightarrow> (\<exists>m. lease_fence db' i = Some m \<and> n \<le> m))"

lemma fences_kept_same: "(\<And>i. lease_fence db' i = lease_fence db i) \<Longrightarrow> fences_kept db db'"
  by (simp add: fences_kept_def)

lemma lease_fence_leases: "ig_leases db' = ig_leases db \<Longrightarrow> lease_fence db' i = lease_fence db i"
  by (simp add: lease_fence_def get_lease_def)

lemma fence_set_lease: "get_lease i db = Some l \<Longrightarrow> ll_collector l' = ll_collector l \<Longrightarrow> ll_fence l' = ll_fence l \<Longrightarrow>
    lease_fence (set_lease l' db) j = lease_fence db j"
  using get_lease_collector [of i db l] by (auto simp: lease_fence_def get_set_lease)

lemma fences_acquire:
  assumes "acquire_identity_lease cl now ow db = Inr (g, db')"
  shows "fences_kept db db'"
  unfolding fences_kept_def
proof (intro allI impI)
  fix i n assume n: "lease_fence db i = Some n"
  then obtain l where l: "get_lease i db = Some l" "ll_fence l = n" by (auto simp: lease_fence_def)
  show "\<exists>m. lease_fence db' i = Some m \<and> n \<le> m"
  proof (cases "i = cl_collector_id cl")
    case True
    then have "lease_fence db' i = Some (gr_fence g)" using acquire_get(1) [OF assms] by (auto simp: lease_fence_def)
    with acquire_get(4) [OF assms, of l] l True show ?thesis by auto
  next
    case False
    then show ?thesis using acquire_get(3) [OF assms, of i] n by (auto simp: lease_fence_def)
  qed
qed

lemma fences_release: "lease_fence (release_identity_lease cl g now db) i = lease_fence db i"
proof (cases "get_lease (cl_collector_id cl) db")
  case (Some l)
  then show ?thesis using fence_set_lease [OF Some, of "l\<lparr>ll_owner := None, ll_expires_at := Some now, ll_updated_at := now\<rparr>" i]
    by (simp add: release_identity_lease_def)
qed (simp add: release_identity_lease_def)

lemma enqueue_stream_rows:
  assumes "enqueue_stream locked ids season cutoff m now k db = Inr db'"
  shows "\<exists>js. db' = db\<lparr>ig_jobs := js\<rparr>"
proof -
  have "\<exists>js. db = db\<lparr>ig_jobs := js\<rparr>" by (rule exI [of _ "ig_jobs db"]) simp
  then show ?thesis using assms
    by (auto simp: enqueue_stream_def enqueue_composition_def Let_def split: if_splits option.splits)
qed

lemma enqueue_rows:
  assumes "enqueue_for_observation locked ids ty season cutoff m window now db = Inr db'"
  shows "\<exists>js. db' = db\<lparr>ig_jobs := js\<rparr>"
  using assms unfolding enqueue_for_observation_def
proof (rule fold_res_invariant)
  show "\<exists>js. db = db\<lparr>ig_jobs := js\<rparr>" by (rule exI [of _ "ig_jobs db"]) simp
next
  fix k s s' assume "\<exists>js. s = db\<lparr>ig_jobs := js\<rparr>" "enqueue_stream locked ids season cutoff m now k s = Inr s'"
  then show "\<exists>js. s' = db\<lparr>ig_jobs := js\<rparr>" using enqueue_stream_rows by fastforce
qed

lemma assert_cases:
  assumes "assert_identity_lease cl g now db = Inr db'"
  obtains l where "lease_held (cl_collector_id cl) g now db" "get_lease (cl_collector_id cl) db = Some l"
    "db' = set_lease (l\<lparr>ll_expires_at := Some (lease_end_in now), ll_updated_at := now\<rparr>) db"
proof -
  have held: "lease_held (cl_collector_id cl) g now db"
    using assms by (auto simp: assert_identity_lease_def and_then_Inr ensure_Inr)
  then obtain l where l: "get_lease (cl_collector_id cl) db = Some l" by (auto simp: lease_held_def split: option.splits)
  then have "db' = set_lease (l\<lparr>ll_expires_at := Some (lease_end_in now), ll_updated_at := now\<rparr>) db"
    using assms by (auto simp: assert_identity_lease_def and_then_Inr)
  with held l show thesis by (rule that)
qed

text \<open>What a new acceptance establishes.\<close>

lemma accept_cases:
  assumes "accept_new co sv claims envelope ev value rehearsed grant su db = Inr (receipt, db')"
  obtains ob js l where "observation_row co claims envelope ev value (su_observation_id su) (su_now su) = Inr ob"
    and "get_observation (cl_collector_id claims) (ev_client_id ev) db = None"
    and "receipt = \<lparr>rc_observation_id = su_observation_id su, rc_client_id = ev_client_id ev, rc_checksum = ev_checksum ev, rc_replay = False\<rparr>"
    and "lease_held (cl_collector_id claims) grant (su_lease_now su) db" and "get_lease (cl_collector_id claims) db = Some l"
    and "db' = set_lease (l\<lparr>ll_expires_at := Some (lease_end_in (su_lease_now su)), ll_updated_at := su_lease_now su\<rparr>)
      (db\<lparr>ig_observations := ig_observations db @ [ob], ig_jobs := js\<rparr>)"
    and "if sv_publication sv \<and> \<not> rehearsed
      then enqueue_for_observation (su_locked su) (su_job_id su) (ev_type ev) (ob_season ob) (ob_cutoff ob) (Some (ev_manifest_id ev))
        (window_of co (field envelope ''scope'')) (su_queue_now su) (db\<lparr>ig_observations := ig_observations db @ [ob]\<rparr>)
        = Inr (db\<lparr>ig_observations := ig_observations db @ [ob], ig_jobs := js\<rparr>)
      else js = ig_jobs db"
    and "ob_collector ob = cl_collector_id claims" and "ob_client_id ob = ev_client_id ev" and "ob_checksum ob = ev_checksum ev"
    and "ob_id ob = su_observation_id su"
proof -
  from assms obtain ob db1 db2 where a: "observation_row co claims envelope ev value (su_observation_id su) (su_now su) = Inr ob"
      "insert_observation ob db = Inr db1"
      "(if sv_publication sv \<and> \<not> rehearsed
        then enqueue_for_observation (su_locked su) (su_job_id su) (ev_type ev) (ob_season ob) (ob_cutoff ob) (Some (ev_manifest_id ev))
          (window_of co (field envelope ''scope'')) (su_queue_now su) db1 else Inr db1) = Inr db2"
      "assert_identity_lease claims grant (su_lease_now su) db2 = Inr db'"
      "receipt = \<lparr>rc_observation_id = ob_id ob, rc_client_id = ev_client_id ev, rc_checksum = ev_checksum ev, rc_replay = False\<rparr>"
    unfolding accept_new_def by (auto simp: and_then_Inr)
  have ob: "ob_collector ob = cl_collector_id claims" "ob_client_id ob = ev_client_id ev" "ob_checksum ob = ev_checksum ev"
      "ob_id ob = su_observation_id su"
    using a(1) by (auto simp: observation_row_def and_then_Inr Let_def)
  have i: "get_observation (cl_collector_id claims) (ev_client_id ev) db = None" "db1 = db\<lparr>ig_observations := ig_observations db @ [ob]\<rparr>"
    using a(2) ob by (auto simp: insert_observation_def and_then_Inr ensure_Inr)
  have "\<exists>js. db2 = db1\<lparr>ig_jobs := js\<rparr>"
  proof (cases "sv_publication sv \<and> \<not> rehearsed")
    case True
    then have "enqueue_for_observation (su_locked su) (su_job_id su) (ev_type ev) (ob_season ob) (ob_cutoff ob) (Some (ev_manifest_id ev))
          (window_of co (field envelope ''scope'')) (su_queue_now su) db1 = Inr db2" using a(3) by simp
    then show ?thesis by (rule enqueue_rows)
  next
    case False
    then have "db2 = db1\<lparr>ig_jobs := ig_jobs db1\<rparr>" using a(3) by auto
    then show ?thesis by blast
  qed
  then obtain js where js: "db2 = db1\<lparr>ig_jobs := js\<rparr>" by blast
  obtain l where l: "lease_held (cl_collector_id claims) grant (su_lease_now su) db2" "get_lease (cl_collector_id claims) db2 = Some l"
    "db' = set_lease (l\<lparr>ll_expires_at := Some (lease_end_in (su_lease_now su)), ll_updated_at := su_lease_now su\<rparr>) db2"
    by (rule assert_cases [OF a(4)])
  have g: "get_lease j db2 = get_lease j db" for j by (simp add: get_lease_def js i(2))
  have jobs: "if sv_publication sv \<and> \<not> rehearsed
      then enqueue_for_observation (su_locked su) (su_job_id su) (ev_type ev) (ob_season ob) (ob_cutoff ob) (Some (ev_manifest_id ev))
        (window_of co (field envelope ''scope'')) (su_queue_now su) (db\<lparr>ig_observations := ig_observations db @ [ob]\<rparr>)
        = Inr (db\<lparr>ig_observations := ig_observations db @ [ob], ig_jobs := js\<rparr>)
      else js = ig_jobs db"
  proof (cases "sv_publication sv \<and> \<not> rehearsed")
    case True
    then show ?thesis using a(3) unfolding i(2) js by simp
  next
    case False
    then have "db1 = db2" using a(3) by auto
    then have "ig_jobs db1 = js" unfolding js by (metis ingest_db.select_convs(6) ingest_db.surjective ingest_db.update_convs(6))
    with False show ?thesis unfolding i(2) by (simp only: if_False) simp
  qed
  show thesis
  proof (rule that [OF a(1) i(1)])
    show "receipt = \<lparr>rc_observation_id = su_observation_id su, rc_client_id = ev_client_id ev, rc_checksum = ev_checksum ev, rc_replay = False\<rparr>"
      using a(5) ob by simp
    show "lease_held (cl_collector_id claims) grant (su_lease_now su) db" using l(1) by (simp add: lease_held_def g)
    show "get_lease (cl_collector_id claims) db = Some l" using l(2) g by simp
    show "db' = set_lease (l\<lparr>ll_expires_at := Some (lease_end_in (su_lease_now su)), ll_updated_at := su_lease_now su\<rparr>)
      (db\<lparr>ig_observations := ig_observations db @ [ob], ig_jobs := js\<rparr>)" using l(3) js i(2) by simp
  qed (fact jobs ob)+
qed

section \<open>The outcome of an acceptance\<close>

text \<open>A refusal keeps every table but the record of rejections and of unresolved identities.\<close>

definition refusal_keeps :: "ingest_db \<Rightarrow> ingest_db \<Rightarrow> bool" where
  "refusal_keeps db db' \<longleftrightarrow>
     db' = db\<lparr>ig_rejections := ig_rejections db', ig_reconciliation := ig_reconciliation db'\<rparr>"

lemma refusal_keeps_refl: "refusal_keeps db db"
  by (simp add: refusal_keeps_def)

lemma refusal_keepsD:
  assumes "refusal_keeps db db'"
  shows "ig_observations db' = ig_observations db" and "ig_jobs db' = ig_jobs db" and "ig_leases db' = ig_leases db"
    and "ig_identities db' = ig_identities db" and "ig_manifests db' = ig_manifests db" and "ig_streams db' = ig_streams db"
  using assms unfolding refusal_keeps_def by (cases db; cases db'; simp)+

lemma note_unresolved_keeps: "refusal_keeps db (note_unresolved co sv envelope i now r db)"
  by (auto simp: note_unresolved_def record_identity_unresolved_def refusal_keeps_def Let_def split: sum.split ingest_error.split)

lemma reject_conflict_keeps: "refusal_keeps db (reject_conflict claims ev ob now db)"
  by (simp add: refusal_keeps_def reject_conflict_def)

lemma ingest_cases:
  assumes "ingest_observation z co sv claims envelope body compressed mp mc grant su db = (res, db')"
  obtains (refused) e where "res = Inl e" "refusal_keeps db db'"
  | (replayed) ev doc ob where "read_upload z co claims envelope body compressed mp mc = Inr (ev, doc)"
      "get_observation (cl_collector_id claims) (ev_client_id ev) db = Some ob" "ob_checksum ob = ev_checksum ev" "db' = db"
      "res = Inr \<lparr>rc_observation_id = ob_id ob, rc_client_id = ev_client_id ev, rc_checksum = ev_checksum ev, rc_replay = True\<rparr>"
  | (stored) ev doc rehearsed receipt where "read_upload z co claims envelope body compressed mp mc = Inr (ev, doc)"
      "check_authority co sv claims envelope ev (su_now su) db = Inr rehearsed"
      "accept_new co sv claims envelope ev doc rehearsed grant su db = Inr (receipt, db')" "res = Inr receipt"
proof (cases "read_upload z co claims envelope body compressed mp mc")
  case (Inl e)
  then have "res = Inl e" "refusal_keeps db db'"
    using assms note_unresolved_keeps by (auto simp: ingest_observation_def)
  then show thesis by (rule refused)
next
  case (Inr p)
  obtain ev doc where p: "p = (ev, doc)" by (cases p)
  show thesis
  proof (cases "check_authority co sv claims envelope ev (su_now su) db")
    case (Inl e)
    then show thesis using assms Inr p refused refusal_keeps_refl by (auto simp: ingest_observation_def)
  next
    case au: (Inr rehearsed)
    have s: "settle_observation co sv claims envelope ev doc rehearsed grant su db = (res, db')"
      using assms Inr p au by (simp add: ingest_observation_def)
    show thesis
    proof (cases "get_observation (cl_collector_id claims) (ev_client_id ev) db")
      case None
      show thesis
      proof (cases "accept_new co sv claims envelope ev doc rehearsed grant su db")
        case (Inl e)
        then show thesis using s None refused refusal_keeps_refl by (auto simp: settle_observation_def)
      next
        case a: (Inr q)
        obtain receipt db1 where q: "q = (receipt, db1)" by (cases q)
        show thesis using s None a q by (intro stored [OF Inr [unfolded p] au]) (auto simp: settle_observation_def)
      qed
    next
      case (Some ob)
      show thesis
      proof (cases "ob_checksum ob = ev_checksum ev")
        case True
        then show thesis using s Some by (intro replayed [OF Inr [unfolded p] Some]) (auto simp: settle_observation_def)
      next
        case False
        then have "res = refuse_upload ''observation_id_conflict''" "refusal_keeps db db'"
          using s Some reject_conflict_keeps by (auto simp: settle_observation_def)
        then show thesis by (rule refused)
      qed
    qed
  qed
qed

lemma ingest_leases:
  assumes "ingest_observation z co sv claims envelope body compressed mp mc grant su db = (res, db')"
  shows "lease_fence db' i = lease_fence db i"
  using assms
proof (cases rule: ingest_cases)
  case (refused e)
  then show ?thesis by (intro lease_fence_leases) (rule refusal_keepsD(3))
next
  case (replayed ev doc ob)
  then show ?thesis by simp
next
  case (stored ev doc rehearsed receipt)
  obtain ob js l where l: "get_lease (cl_collector_id claims) db = Some l"
    "db' = set_lease (l\<lparr>ll_expires_at := Some (lease_end_in (su_lease_now su)), ll_updated_at := su_lease_now su\<rparr>)
      (db\<lparr>ig_observations := ig_observations db @ [ob], ig_jobs := js\<rparr>)"
    by (rule accept_cases [OF stored(3)])
  let ?db = "db\<lparr>ig_observations := ig_observations db @ [ob], ig_jobs := js\<rparr>"
  have "get_lease (cl_collector_id claims) ?db = Some l" using l(1) by (simp add: get_lease_def)
  then have "lease_fence db' i = lease_fence ?db i" unfolding l(2) by (rule fence_set_lease) simp_all
  also have "\<dots> = lease_fence db i" by (rule lease_fence_leases) simp
  finally show ?thesis .
qed

text \<open>Observations are only added, and only by a new acceptance, which holds the lease.\<close>

lemma ingest_observations:
  assumes "ingest_observation z co sv claims envelope body compressed mp mc grant su db = (res, db')"
  shows "(\<exists>rc. res = Inr rc \<and> \<not> rc_replay rc \<and> lease_held (cl_collector_id claims) grant (su_lease_now su) db
        \<and> (\<exists>ob. ig_observations db' = ig_observations db @ [ob] \<and> ob_collector ob = cl_collector_id claims \<and> ob_client_id ob = rc_client_id rc
              \<and> ob_checksum ob = rc_checksum rc \<and> ob_id ob = rc_observation_id rc)
        \<and> get_observation (cl_collector_id claims) (rc_client_id rc) db = None)
     \<or> ((\<forall>rc. res = Inr rc \<longrightarrow> rc_replay rc) \<and> ig_observations db' = ig_observations db \<and> ig_jobs db' = ig_jobs db)"
  using assms
proof (cases rule: ingest_cases)
  case (refused e)
  then show ?thesis using refusal_keepsD(1,2) by auto
next
  case (replayed ev doc ob)
  then show ?thesis by simp
next
  case (stored ev doc rehearsed receipt)
  obtain ob js l where l: "get_observation (cl_collector_id claims) (ev_client_id ev) db = None"
    "receipt = \<lparr>rc_observation_id = su_observation_id su, rc_client_id = ev_client_id ev, rc_checksum = ev_checksum ev, rc_replay = False\<rparr>"
    "lease_held (cl_collector_id claims) grant (su_lease_now su) db"
    "db' = set_lease (l\<lparr>ll_expires_at := Some (lease_end_in (su_lease_now su)), ll_updated_at := su_lease_now su\<rparr>)
      (db\<lparr>ig_observations := ig_observations db @ [ob], ig_jobs := js\<rparr>)"
    "ob_collector ob = cl_collector_id claims" "ob_client_id ob = ev_client_id ev" "ob_checksum ob = ev_checksum ev"
    "ob_id ob = su_observation_id su"
    by (rule accept_cases [OF stored(3)])
  have "ig_observations db' = ig_observations db @ [ob]" unfolding l(4) by (simp add: set_lease_def)
  then show ?thesis using stored(4) l by simp
qed

section \<open>Invariants of every interleaving\<close>

lemma fences_apply: "fences_kept db (server_apply z co sv mp mc op db)"
proof (cases op)
  case (Acquire cl now ow)
  show ?thesis
  proof (cases "acquire_identity_lease cl now ow db")
    case (Inr q)
    then show ?thesis using Acquire fences_acquire by (cases q) (auto simp: committed_def)
  qed (simp add: Acquire committed_def fences_kept_same)
next
  case (Accept cl env body compressed grant su)
  show ?thesis
  proof (rule fences_kept_same)
    fix i
    obtain res db' where r: "ingest_observation z co sv cl env body compressed mp mc grant su db = (res, db')" by (metis surj_pair)
    then show "lease_fence (server_apply z co sv mp mc op db) i = lease_fence db i"
      using ingest_leases [OF r] by (simp add: Accept)
  qed
next
  case (Release cl g now)
  then show ?thesis by (intro fences_kept_same) (simp add: fences_release)
next
  case (Retry job reason now)
  then show ?thesis
    by (intro fences_kept_same lease_fence_leases) (auto simp: committed_def retry_composition_def and_then_Inr ensure_Inr split: sum.split option.splits)
next
  case (Elsewhere ids ms ss js)
  then show ?thesis by (intro fences_kept_same lease_fence_leases) simp
qed

interpretation upload_lease: fenced_lease "\<lambda>s t. \<exists>op. t = server_apply z co sv mp mc op s" lease_fence
    "\<lambda>(i, g) now s. lease_held i g now s" fst "\<lambda>(i, g). gr_fence g" for z co sv mp mc
proof (unfold_locales, goal_cases)
  case (1 s t i n)
  then show ?case using fences_apply unfolding fences_kept_def by fastforce
next
  case (2 c now s)
  then show ?case by (cases c) (auto simp: lease_held_def lease_fence_def split: option.splits)
qed

lemma run_steps: "(\<lambda>s t. \<exists>op. t = server_apply z co sv mp mc op s)\<^sup>*\<^sup>* db (server_run z co sv mp mc ops db)"
  unfolding server_run_def
proof (induction ops arbitrary: db)
  case (Cons op ops)
  have "(\<lambda>s t. \<exists>op. t = server_apply z co sv mp mc op s) db (server_apply z co sv mp mc op db)" by blast
  then show ?case using Cons [of "server_apply z co sv mp mc op db"] by (simp add: converse_rtranclp_into_rtranclp)
qed simp

lemma observations_apply: "\<exists>obs. ig_observations (server_apply z co sv mp mc op db) = ig_observations db @ obs"
proof (cases op)
  case (Acquire cl now ow)
  show ?thesis
  proof (cases "acquire_identity_lease cl now ow db")
    case (Inr q)
    then obtain g db' where "acquire_identity_lease cl now ow db = Inr (g, db')" by (cases q) simp
    from same_rowsD(1) [OF acquire_get(2) [OF this]] this show ?thesis by (simp add: Acquire committed_def)
  qed (simp add: Acquire committed_def)
next
  case (Accept cl env body compressed grant su)
  obtain res db' where r: "ingest_observation z co sv cl env body compressed mp mc grant su db = (res, db')" by (metis surj_pair)
  then show ?thesis using ingest_observations [OF r] by (auto simp: Accept)
next
  case (Release cl g now)
  then show ?thesis using same_rowsD(1) [OF release_same_rows] by simp
next
  case (Retry job reason now)
  then show ?thesis
    by (auto simp: committed_def retry_composition_def and_then_Inr ensure_Inr split: sum.split option.splits)
qed simp

lemma observations_run: "\<exists>obs. ig_observations (server_run z co sv mp mc ops db) = ig_observations db @ obs"
  unfolding server_run_def
proof (induction ops arbitrary: db)
  case (Cons op ops)
  obtain xs where "ig_observations (server_apply z co sv mp mc op db) = ig_observations db @ xs" using observations_apply by blast
  with Cons [of "server_apply z co sv mp mc op db"] show ?case by auto
qed simp

lemma get_observation_run:
  "get_observation c i db = Some ob \<Longrightarrow> get_observation c i (server_run z co sv mp mc ops db) = Some ob"
  using observations_run [of z co sv mp mc ops db] by (auto simp: get_observation_def find_added)

section \<open>Fencing\<close>

text \<open>
  C11. A worker whose lease was taken over cannot commit: once the collector's lease has been acquired
  again, an upload under the earlier grant never stores an observation and never touches a
  composition job, whatever transactions of any worker come in between (its own late release among
  them); all it can still obtain is the receipt of an observation that is already stored.
\<close>
theorem superseded_upload_stores_nothing:
  assumes "acquire_identity_lease cl now ow db = Inr (g, db1)"
    and "acquire_identity_lease cl' now' ow' (server_run z co sv mp mc ops db1) = Inr (g', db2)"
    and "cl_collector_id cl' = cl_collector_id cl"
    and "ingest_observation z co sv cl env body compressed mp mc g su (server_run z co sv mp mc ops' db2) = (res, db3)"
  shows "(\<forall>rc. res = Inr rc \<longrightarrow> rc_replay rc)
     \<and> ig_observations db3 = ig_observations (server_run z co sv mp mc ops' db2) \<and> ig_jobs db3 = ig_jobs (server_run z co sv mp mc ops' db2)"
proof -
  let ?i = "cl_collector_id cl" and ?mid = "server_run z co sv mp mc ops db1"
  have "lease_fence db1 ?i = Some (gr_fence g)" using acquire_get(1) [OF assms(1)] by (auto simp: lease_fence_def)
  then obtain m where m: "lease_fence ?mid ?i = Some m" "gr_fence g \<le> m"
    using upload_lease.counter_mono_star [OF run_steps] by blast
  then have "m < gr_fence g'" using acquire_get(4) [OF assms(2)] assms(3) by (auto simp: lease_fence_def)
  moreover have "lease_fence db2 ?i = Some (gr_fence g')"
    using acquire_get(1) [OF assms(2)] assms(3) by (auto simp: lease_fence_def)
  ultimately have "gr_fence g < gr_fence g'" "lease_fence db2 ?i = Some (gr_fence g')" using m(2) by simp_all
  note sup = this
  have n: "\<not> lease_held ?i g t (server_run z co sv mp mc ops' db2)" for t
    using upload_lease.superseded_forever [where c = "(?i, g)" and s = db2 and n = "gr_fence g'", OF _ _ run_steps] sup by simp
  from ingest_observations [OF assms(4)] n show ?thesis by blast
qed

text \<open>
  A busy answer tells the truth: when the lease is refused with a number of seconds, the request
  made that many seconds later on the same rows is granted, to whoever asks with valid claims.
\<close>
theorem busy_retry_after_suffices:
  assumes "acquire_identity_lease cl now ow db = Inl (Refusal (ControlPlaneError ''collector_busy'' (Some seconds)))"
    and "now + seconds * 1000000 \<le> later"
  shows "\<exists>g db'. acquire_identity_lease cl later ow' db = Inr (g, db') \<and> lease_held (cl_collector_id cl) g later db' \<and> 1 \<le> seconds"
proof -
  obtain r where r: "find (\<lambda>r. ci_id r = cl_collector_id cl) (ig_identities db) = Some r" "identity_matches_claims r cl"
    using assms(1) by (cases "find (\<lambda>r. ci_id r = cl_collector_id cl) (ig_identities db)")
      (auto simp: acquire_identity_lease_def ensure_def split: if_splits)
  obtain l db1 where l: "lease_row cl now ow db = (l, db1)" by (cases "lease_row cl now ow db")
  obtain expires where e: "held_by_other l ow now = Some expires" "seconds = max COLLECTOR_LEASE_RETRY_SECONDS (ceil_seconds (expires - now))"
    using assms(1) r l by (auto simp: acquire_identity_lease_def split: option.splits)
  have "get_lease (cl_collector_id cl) db = Some l"
  proof (cases "get_lease (cl_collector_id cl) db")
    case None
    then have "ll_owner l = Some ow" using lease_row_get(6) [OF l] by simp
    then show ?thesis using e(1) by (auto simp: held_by_other_def split: option.splits if_splits)
  qed (use lease_row_get(5) [OF l] in simp)
  then have l': "lease_row cl later ow' db = (l, db)" by (simp add: lease_row_def)
  have "expires - now \<le> ceil_seconds (expires - now) * 1000000" by (simp add: ceil_seconds_def)
  then have x: "ll_expires_at l = Some expires" "expires \<le> later"
    using e assms(2) by (auto simp: held_by_other_def split: option.splits if_splits)
  then have "held_by_other l ow' later = None" by (auto simp: held_by_other_def split: option.splits)
  then obtain g db' where a: "acquire_identity_lease cl later ow' db = Inr (g, db')"
    using r l' by (simp add: acquire_identity_lease_def)
  have "lease_held (cl_collector_id cl) g later db'"
    using acquire_get(1) [OF a] by (auto simp: lease_held_def lease_end_in_def COLLECTOR_LEASE_SECONDS_def)
  with a e(2) show ?thesis by (auto simp: COLLECTOR_LEASE_RETRY_SECONDS_def)
qed

section \<open>Stored once\<close>

definition ob_key :: "CollectionObservation \<Rightarrow> string \<times> string" where
  "ob_key ob = (ob_collector ob, ob_client_id ob)"

lemma distinct_added:
  assumes "distinct (map ob_key obs)" and "find (\<lambda>x. (ob_collector x, ob_client_id x) = (c, i)) obs = None"
    and "ob_collector ob = c" and "ob_client_id ob = i"
  shows "distinct (map ob_key (obs @ [ob]))"
  using assms by (force simp: find_None_iff ob_key_def)

lemma keys_apply:
  assumes "distinct (map ob_key (ig_observations db))"
  shows "distinct (map ob_key (ig_observations (server_apply z co sv mp mc op db)))"
proof (cases op)
  case (Accept cl env body compressed grant su)
  obtain res db' where r: "ingest_observation z co sv cl env body compressed mp mc grant su db = (res, db')" by (metis surj_pair)
  have "distinct (map ob_key (ig_observations db'))" using ingest_observations [OF r]
  proof (elim disjE exE conjE)
    fix rc ob
    assume a: "ig_observations db' = ig_observations db @ [ob]" "ob_collector ob = cl_collector_id cl" "ob_client_id ob = rc_client_id rc"
      "get_observation (cl_collector_id cl) (rc_client_id rc) db = None"
    show ?thesis unfolding a(1) by (rule distinct_added [OF assms a(4) [unfolded get_observation_def] a(2,3)])
  next
    assume "ig_observations db' = ig_observations db"
    then show ?thesis using assms by simp
  qed
  then show ?thesis by (simp add: Accept r)
next
  case (Acquire cl now ow)
  show ?thesis
  proof (cases "acquire_identity_lease cl now ow db")
    case (Inr q)
    then obtain g db' where "acquire_identity_lease cl now ow db = Inr (g, db')" by (cases q) simp
    from same_rowsD(1) [OF acquire_get(2) [OF this]] this show ?thesis using assms by (simp add: Acquire committed_def)
  qed (use assms in \<open>simp add: Acquire committed_def\<close>)
next
  case (Release cl g now)
  then show ?thesis using same_rowsD(1) [OF release_same_rows] assms by simp
next
  case (Retry job reason now)
  then show ?thesis using assms
    by (auto simp: committed_def retry_composition_def and_then_Inr ensure_Inr split: sum.split option.splits)
qed (use assms in simp)

lemma keys_run:
  "distinct (map ob_key (ig_observations db)) \<Longrightarrow> distinct (map ob_key (ig_observations (server_run z co sv mp mc ops db)))"
  unfolding server_run_def by (induction ops arbitrary: db) (simp_all add: keys_apply)

text \<open>The stored row behind a receipt.\<close>

lemma receipt_row:
  assumes "ingest_observation z co sv cl env body compressed mp mc g su db = (Inr rc, db')"
  shows "\<exists>ob. get_observation (cl_collector_id cl) (rc_client_id rc) db' = Some ob \<and> ob_id ob = rc_observation_id rc \<and> ob_checksum ob = rc_checksum rc"
  using assms
proof (cases rule: ingest_cases)
  case (replayed ev doc ob)
  then show ?thesis by simp
next
  case (stored ev doc rehearsed receipt)
  from ingest_observations [OF assms] show ?thesis
  proof (elim disjE exE conjE)
    fix rc' ob
    assume "Inr rc = Inr rc'" "ig_observations db' = ig_observations db @ [ob]" "ob_collector ob = cl_collector_id cl"
      "ob_client_id ob = rc_client_id rc'" "ob_checksum ob = rc_checksum rc'" "ob_id ob = rc_observation_id rc'"
      "get_observation (cl_collector_id cl) (rc_client_id rc') db = None"
    then show ?thesis by (auto simp: get_observation_def find_added)
  next
    assume "\<forall>r. Inr rc = Inr r \<longrightarrow> rc_replay r"
    moreover obtain ob js l where "receipt = \<lparr>rc_observation_id = su_observation_id su, rc_client_id = ev_client_id ev, rc_checksum = ev_checksum ev, rc_replay = False\<rparr>"
      by (rule accept_cases [OF stored(3)])
    ultimately show ?thesis using stored(4) by simp
  qed
qed simp


section \<open>What an acceptance queues\<close>

definition composes_at_read :: "string \<Rightarrow> bool" where
  "composes_at_read stream \<longleftrightarrow> stream \<in> set (NBA_PUBLICATION_STREAM_KEYS @ PLAYER_DIET_OBSERVATION_STREAM_KEYS)"

definition fresh_job :: "string \<Rightarrow> string \<Rightarrow> string \<Rightarrow> instant \<Rightarrow> string option \<Rightarrow> instant \<Rightarrow> QueuedComposition" where
  "fresh_job job_id stream season cutoff manifest_id now =
     \<lparr>qc_id = job_id, qc_stream = stream, qc_manifest = manifest_id, qc_season = season, qc_cutoff = cutoff,
      qc_status = QUEUED, qc_attempts = 0, qc_created_at = now, qc_updated_at = now, qc_last_error = None,
      qc_generation = 1, qc_claimed_generation = None\<rparr>"

text \<open>The job of a stream after an observation: a new one; the one there was, queued again if it had
  ended and the stream composes from observations; or the one there was.\<close>

definition job_after ::
  "(string \<Rightarrow> string) \<Rightarrow> string \<Rightarrow> instant \<Rightarrow> string option \<Rightarrow> instant \<Rightarrow> string \<Rightarrow> QueuedComposition option \<Rightarrow> QueuedComposition" where
  "job_after ids season cutoff manifest_id now stream old =
     (case old of
        None \<Rightarrow> fresh_job (ids stream) stream season cutoff manifest_id now
      | Some j \<Rightarrow> if composes_at_read stream then requeue manifest_id now j else j)"

lemma job_after_again: "job_after ids season cutoff m now k (Some (job_after ids season cutoff m now k old)) = job_after ids season cutoff m now k old"
  by (auto simp: job_after_def requeue_def fresh_job_def split: option.split)

lemma requeue_key: "(qc_stream (requeue m now q), qc_season (requeue m now q), qc_cutoff (requeue m now q)) = (qc_stream q, qc_season q, qc_cutoff q)"
  by (simp add: requeue_def)

lemma get_job_added: "composition_job k se cu (db\<lparr>ig_jobs := ig_jobs db @ [j]\<rparr>) =
    (case composition_job k se cu db of None \<Rightarrow> if (qc_stream j, qc_season j, qc_cutoff j) = (k, se, cu) then Some j else None | Some x \<Rightarrow> Some x)"
  by (simp add: composition_job_def find_added split: option.split)

lemma enqueue_stream_job:
  assumes "enqueue_stream locked ids season cutoff m now k db = Inr db'"
  shows "composition_job k' se cu db' = (if (k', se, cu) = (k, season, cutoff) then Some (job_after ids season cutoff m now k (composition_job k season cutoff db))
      else composition_job k' se cu db)"
proof (cases "composition_job k season cutoff db")
  case None
  then have "db' = db\<lparr>ig_jobs := ig_jobs db @ [fresh_job (ids k) k season cutoff m now]\<rparr>"
    using assms by (auto simp: enqueue_stream_def enqueue_composition_def fresh_job_def Let_def split: if_splits)
  with None show ?thesis by (auto simp: get_job_added job_after_def fresh_job_def split: option.split)
next
  case (Some j)
  show ?thesis
  proof (cases "composes_at_read k")
    case True
    then have "db' = db\<lparr>ig_jobs := update_where (\<lambda>q. (qc_stream q, qc_season q, qc_cutoff q) = (k, season, cutoff)) (requeue m now) (ig_jobs db)\<rparr>"
      using assms Some by (auto simp: enqueue_stream_def composes_at_read_def split: if_splits)
    with Some True show ?thesis
      using find_map_row [of "\<lambda>q. (qc_stream q, qc_season q, qc_cutoff q)" "requeue m now", OF requeue_key, of "(k', se, cu)" "(k, season, cutoff)" "ig_jobs db"]
      by (auto simp: composition_job_def job_after_def)
  next
    case False
    then have "db' = db" using assms Some by (auto simp: enqueue_stream_def composes_at_read_def enqueue_composition_def split: if_splits)
    with Some False show ?thesis by (auto simp: job_after_def)
  qed
qed

lemma enqueue_streams_job:
  "fold_res (enqueue_stream locked ids season cutoff m now) ks db = Inr db' \<Longrightarrow>
     composition_job k se cu db' = (if k \<in> set ks \<and> (se, cu) = (season, cutoff) then Some (job_after ids season cutoff m now k (composition_job k season cutoff db))
       else composition_job k se cu db)"
proof (induction ks arbitrary: db)
  case (Cons x xs)
  then obtain db1 where d: "enqueue_stream locked ids season cutoff m now x db = Inr db1"
    "fold_res (enqueue_stream locked ids season cutoff m now) xs db1 = Inr db'" by (auto simp: result_simps)
  note s = enqueue_stream_job [OF d(1)]
  show ?case using Cons.IH [OF d(2)] s [of k season cutoff] s [of k se cu] by (auto simp: job_after_again)
qed simp


section \<open>Decompression is bounded\<close>

lemma chunks_spec:
  assumes "0 < n"
  shows "concat (chunks n xs) = xs \<and> (\<forall>c \<in> set (chunks n xs). 0 < length c \<and> length c \<le> n) \<and> length (chunks n xs) = (length xs + n - 1) div n"
  using assms
proof (induction n xs rule: chunks.induct)
  case (1 n xs)
  show ?case
  proof (cases "n = 0 \<or> xs = []")
    case True
    with "1.prems" show ?thesis by (auto simp: chunks.simps)
  next
    case False
    note IH = "1.IH" [OF False "1.prems"]
    have c: "chunks n xs = take n xs # chunks n (drop n xs)" using False by (simp add: chunks.simps)
    have l: "Suc ((length (drop n xs) + n - 1) div n) = (length xs + n - 1) div n"
    proof (cases "length xs \<le> n")
      case True
      have "length xs + n - 1 = n + (length xs - 1)" using False by (cases xs) auto
      then have "(length xs + n - 1) div n = (n + (length xs - 1)) div n" by (simp only:)
      also have "\<dots> = Suc ((length xs - 1) div n)" using False by (simp add: div_add_self1)
      also have "(length xs - 1) div n = 0" using True False by (cases xs) auto
      also have "0 = (length (drop n xs) + n - 1) div n" using True False by simp
      finally show ?thesis by simp
    next
      case f: False
      then have "length xs + n - 1 = (length (drop n xs) + n - 1) + n" using False by auto
      moreover have "((length (drop n xs) + n - 1) + n) div n = Suc ((length (drop n xs) + n - 1) div n)"
        using False div_add_self2 [of n "length (drop n xs) + n - 1"] by simp
      ultimately show ?thesis by (simp only:)
    qed
    have "0 < length (take n xs)" "length (take n xs) \<le> n" using False by simp_all
    moreover have "concat (take n xs # chunks n (drop n xs)) = xs" using IH by simp
    moreover have "length (take n xs # chunks n (drop n xs)) = (length xs + n - 1) div n" using IH l by (simp only: list.size)
    ultimately show ?thesis unfolding c using IH by (metis set_ConsD)
  qed
qed

lemma inflate_prefix:
  assumes "fold_res (inflate_chunk z max_output) cs ([], z_new z) = Inr (output, decoder)"
  shows "length output \<le> max_output"
proof -
  have "length (fst (output, decoder)) \<le> max_output"
    using assms by (rule fold_res_invariant) (auto simp: inflate_chunk_def split: if_splits option.splits prod.splits)
  then show ?thesis by simp
qed


section \<open>The route\<close>

definition MAX_ENVELOPE_BYTES_cp :: nat where "MAX_ENVELOPE_BYTES_cp = 10 * 1024 * 1024"
definition MAX_COMPRESSED_BYTES_cp :: nat where "MAX_COMPRESSED_BYTES_cp = 2 * 1024 * 1024"

definition set_entry :: "string \<Rightarrow> payload \<Rightarrow> (string \<times> payload) list \<Rightarrow> (string \<times> payload) list" where
  "set_entry k v kvs = (if k \<in> fst ` set kvs then map (\<lambda>(q, x). (q, if q = k then v else x)) kvs else kvs @ [(k, v)])"

text \<open>What the route makes of the bytes it receives: the envelope without its payload, the checksum
  filled in if none was sent, and the payload's bytes. The reader of the route lets the constants NaN
  and Infinity through to the service, which refuses them; here they are refused at once.\<close>

definition open_upload :: "'d inflater \<Rightarrow> codec \<Rightarrow> nat list \<Rightarrow> ingest_error + (string \<times> payload) list \<times> nat list" where
  "open_upload z co raw =
     (case decompress_gzip_limited z raw MAX_ENVELOPE_BYTES_cp MAX_COMPRESSED_BYTES_cp of
        Inl _ \<Rightarrow> refuse_upload ''malformed_envelope''
      | Inr bytes \<Rightarrow>
          (case co_loads co bytes of
             Some (PObj kvs) \<Rightarrow>
               (case map_of kvs ''payload'' of
                  None \<Rightarrow> refuse_upload ''malformed_envelope''
                | Some document \<Rightarrow>
                    and_then (demand (document \<noteq> PNull) ''malformed_envelope'') (\<lambda>_.
                    let rest = filter (\<lambda>(k, _). k \<noteq> ''payload'') kvs; sent = field rest ''checksum'';
                        checksum = (if truthy sent then str_of (co_float_text co) sent
                          else sha256_hex (co_wire co) (utf8 (dumps (co_float_text co) True document)));
                        envelope = set_entry ''checksum'' (PStr checksum) rest
                    in and_then (demand (fst ` set envelope = set ENVELOPE_FIELDS) ''malformed_envelope'') (\<lambda>_.
                         Inr (envelope, utf8 (dumps (co_float_text co) False document)))))
           | _ \<Rightarrow> refuse_upload ''malformed_envelope''))"

definition receive_observation ::
  "'d inflater \<Rightarrow> codec \<Rightarrow> ingest_service \<Rightarrow> upload_clock \<Rightarrow> surroundings \<Rightarrow> CollectorClaims \<Rightarrow> bool \<Rightarrow> nat list \<Rightarrow> ingest_db
     \<Rightarrow> (ingest_error + ObservationReceipt) \<times> ingest_db" where
  "receive_observation z co sv uc su claims within_budget raw db =
     (case open_upload z co raw of
        Inl e \<Rightarrow> (Inl e, db)
      | Inr (envelope, bytes) \<Rightarrow>
          (if \<not> within_budget then (refuse_upload ''usage_limit'', db)
           else ingest z co sv uc su claims envelope (Bytes (gzip (co_wire co) bytes)) True
                  MAX_ENVELOPE_BYTES_cp MAX_COMPRESSED_BYTES_cp db))"

section \<open>A concrete server\<close>

text \<open>A decompressor of stored data, a digest that is a length, and a reader that knows one document.\<close>

definition stored_inflater :: "nat inflater" where
  "stored_inflater = \<lparr>z_new = 0, z_decompress = (\<lambda>d data m. Some (take m data, length data - m)), z_unconsumed = (\<lambda>d. 0 < d),
     z_flush = (\<lambda>d. Some ([], d)), z_eof = (\<lambda>d. True), z_unused = (\<lambda>d. False)\<rparr>"

definition sample_document :: payload where
  "sample_document = PObj [(''rows'', PList [PObj [(''slice'', PStr ''Isolation''), (''points'', PFloat (Finite 1))]])]"

definition sample_codec :: codec where
  "sample_codec = \<lparr>co_wire = \<lparr>sha256_hex = (\<lambda>b. show_nat (length b)), gzip = id, read_document = (\<lambda>_. None),
       fromisoformat = (\<lambda>s. if s = ''cutoff'' then Aware 1000 else if s = ''retrieved'' then Aware 900 else BadText)\<rparr>,
     co_loads = (\<lambda>b. if b = [1, 2, 3] then Some sample_document else None), co_float_text = (\<lambda>_. ''1.0'')\<rparr>"

definition sample_service :: ingest_service where
  "sample_service = \<lparr>sv_publication = True, sv_control = True, sv_l15 = (\<lambda>_. None), sv_slate_date = (\<lambda>_. 739000)\<rparr>"

definition sample_claims :: CollectorClaims where
  "sample_claims = \<lparr>cl_collector_id = ''c1'', cl_audience = ''collector'', cl_environment = ''test'', cl_scopes = {''ingest''},
     cl_token_id = ''t1'', cl_expires_at = 1300000000, cl_owner = ''residential_collector'', cl_providers = {''nba''},
     cl_surfaces = {''synergy_play_types''}\<rparr>"

definition sample_envelope :: "(string \<times> payload) list" where
  "sample_envelope = [(''manifest_id'', PStr ''m1''), (''client_observation_id'', PStr ''rc-1''), (''environment'', PStr ''test''),
     (''provider'', PStr ''nba''), (''observation_type'', PStr ''synergy_play_types''), (''scope'', PObj [(''window'', PStr ''season'')]),
     (''season'', PStr ''2025-26''), (''cutoff'', PStr ''cutoff''), (''schema_version'', PInt 1), (''retrieved_at'', PStr ''retrieved''),
     (''checksum'', PStr ''3'')]"

definition sample_identity :: CollectorIdentity where
  "sample_identity = \<lparr>ci_id = ''c1'', ci_label = ''Pi'', ci_environment = ''test'', ci_audience = ''collector'', ci_secret_hash = [],
     ci_previous_hash = None, ci_previous_expires = None, ci_scopes = [''ingest''], ci_owner = ''residential_collector'',
     ci_providers = [''nba''], ci_surfaces = [''synergy_play_types''], ci_created_at = 0, ci_revoked_at = None,
     ci_last_seen_at = None, ci_release = None\<rparr>"

definition sample_job :: QueuedComposition where
  "sample_job = \<lparr>qc_id = ''j1'', qc_stream = ''synergy_play_types'', qc_manifest = Some ''m0'', qc_season = ''2025-26'', qc_cutoff = 1000,
     qc_status = SUCCEEDED, qc_attempts = 1, qc_created_at = 0, qc_updated_at = 0, qc_last_error = None, qc_generation = 4,
     qc_claimed_generation = Some 4\<rparr>"

definition sample_db :: ingest_db where
  "sample_db = \<lparr>ig_identities = [sample_identity], ig_leases = [],
     ig_manifests = [\<lparr>mr_id = ''m1'', mr_season = ''2025-26'', mr_cutoff = 1000, mr_collect_before = 9000000000,
       mr_accepted_versions = [1, 2], mr_scopes = [''synergy_play_types''], mr_status = ''active''\<rparr>],
     ig_streams = [\<lparr>sr_key = ''synergy_play_types'', sr_provider = ''nba'', sr_owner = ''residential_collector'',
       sr_required = [''synergy_play_types''], sr_windows = [''season''], sr_versions = [1, 2], sr_enabled = True\<rparr>],
     ig_observations = [], ig_jobs = [sample_job], ig_rejections = [], ig_reconciliation = []\<rparr>"

definition at_time :: "instant \<Rightarrow> surroundings" where
  "at_time t = \<lparr>su_now = t, su_queue_now = t, su_lease_now = t, su_observation_id = ''o1'', su_job_id = (\<lambda>k. k @ ''#''), su_item_id = ''i1'',
     su_locked = (\<lambda>_. False)\<rparr>"

definition first_grant :: CollectorLeaseGrant where "first_grant = \<lparr>gr_owner = ''w1'', gr_fence = 2\<rparr>"
definition second_grant :: CollectorLeaseGrant where "second_grant = \<lparr>gr_owner = ''w2'', gr_fence = 3\<rparr>"

definition sample_lease :: CollectorLease where
  "sample_lease = \<lparr>ll_collector = ''c1'', ll_owner = Some ''w1'', ll_expires_at = Some 31000000, ll_fence = 2, ll_updated_at = 1000000\<rparr>"

definition leased_db :: ingest_db where
  "leased_db = sample_db\<lparr>ig_leases := [sample_lease]\<rparr>"

definition taken_db :: ingest_db where
  "taken_db = sample_db\<lparr>ig_leases := [sample_lease\<lparr>ll_owner := Some ''w2'', ll_expires_at := Some 62000000, ll_fence := 3, ll_updated_at := 32000000\<rparr>]\<rparr>"

lemma sample_acquire: "acquire_identity_lease sample_claims 1000000 ''w1'' sample_db = Inr (first_grant, leased_db)"
  by code_simp

lemma sample_takeover: "acquire_identity_lease sample_claims 32000000 ''w2'' leased_db = Inr (second_grant, taken_db)"
  by code_simp

lemma sample_busy: "acquire_identity_lease sample_claims 2000000 ''w2'' leased_db = busy 29"
  by code_simp

definition sample_upload :: "CollectorLeaseGrant \<Rightarrow> instant \<Rightarrow> ingest_db \<Rightarrow> (ingest_error + ObservationReceipt) \<times> ingest_db" where
  "sample_upload g t db = ingest_observation stored_inflater sample_codec sample_service sample_claims sample_envelope (Bytes [1, 2, 3]) True 10 10 g
     (at_time t) db"

theorem superseded_upload_stores_nothing_witness:
  "ig_observations (snd (sample_upload first_grant 33000000 taken_db)) = []"
proof -
  have r: "server_run stored_inflater sample_codec sample_service 10 10 [] db = db" for db by (simp add: server_run_def)
  have e: "ig_observations taken_db = []" by (simp add: taken_db_def sample_db_def)
  obtain res db3 where u: "sample_upload first_grant 33000000 taken_db = (res, db3)" by (metis surj_pair)
  from superseded_upload_stores_nothing [where ops = "[]" and ops' = "[]" and z = stored_inflater and co = sample_codec and sv = sample_service
      and mp = 10 and mc = 10, unfolded r, OF sample_acquire sample_takeover refl u [unfolded sample_upload_def]]
  show ?thesis by (simp add: e u)
qed

theorem busy_retry_after_suffices_witness:
  "\<exists>g db'. acquire_identity_lease sample_claims 31000000 ''w9'' leased_db = Inr (g, db') \<and> lease_held ''c1'' g 31000000 db'"
  using busy_retry_after_suffices [OF sample_busy, of 31000000 "''w9''"] by (simp add: sample_claims_def)


definition sample_receipt :: ObservationReceipt where
  "sample_receipt = \<lparr>rc_observation_id = ''o1'', rc_client_id = ''rc-1'', rc_checksum = ''3'', rc_replay = False\<rparr>"

definition accepted_db :: ingest_db where
  "accepted_db = snd (sample_upload first_grant 2000000 leased_db)"

lemma sample_stored: "sample_upload first_grant 2000000 leased_db = (Inr sample_receipt, accepted_db)"
proof -
  have "fst (sample_upload first_grant 2000000 leased_db) = Inr sample_receipt" by code_simp
  then show ?thesis by (simp add: accepted_db_def prod_eq_iff)
qed

definition sample_checked :: checked_envelope where
  "sample_checked = \<lparr>ev_version = 1, ev_provider = ''nba'', ev_type = ''synergy_play_types'', ev_client_id = ''rc-1'',
     ev_scope_text = dumps (\<lambda>_. ''1.0'') True (PObj [(''window'', PStr ''season'')]), ev_manifest_id = ''m1'', ev_checksum = ''3''\<rparr>"

lemma sample_read: "read_upload stored_inflater sample_codec sample_claims sample_envelope (Bytes [1, 2, 3]) True 10 10
    = Inr (sample_checked, sample_document)"
  by code_simp



end
