(* ===== verification/Outbox.thy ===== *)
theory Outbox
  imports Contracts
begin

text \<open>
  \<open>src/app/collector/outbox.py\<close>: the residential collector's durable queue.

  A transaction works on a copy of the database and commits it or leaves the old one. SQLite's
  allocation (\<open>storage_footprint_bytes\<close>) is not a function of the rows: each operation takes
  the footprints that SQLite reports during it. Timestamps are kept as instants and compared as
  the source compares them: in SQL by their ISO text, in Python as instants.
\<close>

section \<open>Data\<close>

definition RETENTION_DAYS :: int where "RETENTION_DAYS = 30"
definition DEFAULT_MAX_BYTES :: int where "DEFAULT_MAX_BYTES = 256 * 1024 * 1024"
definition LEASE_SECONDS :: int where "LEASE_SECONDS = 60 * 60"
definition MAX_METADATA_BYTES :: nat where "MAX_METADATA_BYTES = 64 * 1024"

datatype outbox_error =
    OutboxError string | OutboxBusy | OutboxFull | OutboxRetentionError
  | BadValue | Contract contract_error

record OutboxItem =
  oi_item_id :: int
  oi_kind :: string
  oi_client_observation_id :: string
  oi_checksum :: string
  oi_cutoff :: instant
  oi_created_at :: instant
  oi_payload :: "nat list"
  oi_metadata :: string
  oi_attempts :: nat
  oi_last_error :: "string option"
  oi_request_id :: "string option"

datatype lease = Lease (le_owner: string) (le_expires_at: instant)

record outbox_db =
  db_items :: "OutboxItem list"
  db_last_id :: int
  db_lease :: "lease option"

record outbox_config =
  oc_max_bytes :: int
  oc_max_item_bytes :: int
  oc_retention :: int
  oc_baseline :: int
  oc_headroom :: int
  oc_page_size :: int

definition mk_outbox :: "int \<Rightarrow> int \<Rightarrow> int \<Rightarrow> int \<Rightarrow> int \<Rightarrow> outbox_error + outbox_config" where
  "mk_outbox max_bytes max_item_bytes retention_days baseline page_size =
     (if max_bytes < 1 \<or> max_item_bytes < 1 \<or> retention_days < 1 then Inl BadValue
      else Inr \<lparr>oc_max_bytes = max_bytes, oc_max_item_bytes = max_item_bytes,
                oc_retention = retention_days * (86400 * 1000000), oc_baseline = baseline,
                oc_headroom = min (max (4 * 1024) (max_bytes div 8)) (1024 * 1024), oc_page_size = page_size\<rparr>)"

section \<open>Metadata and wire documents\<close>

definition FORBIDDEN :: "string list" where
  "FORBIDDEN = [''secret'', ''password'', ''credential'', ''authorization'', ''bearer'', ''token'', ''cookie'',
     ''private_key'', ''api_key'', ''raw_response'', ''provider_response'', ''player_fact'', ''player_facts'']"

definition contract :: "string \<Rightarrow> outbox_error + 'a" where
  "contract reason = Inl (Contract (ProviderContractError reason))"

fun safe_metadata :: "json \<Rightarrow> outbox_error + json" where
  "safe_metadata value =
     (case value of
        JObj kvs \<Rightarrow>
          and_then (map_res (\<lambda>(key, child).
             if 256 < length key then contract ''metadata_too_large''
             else if \<exists>part \<in> set FORBIDDEN. contains part (casefold key) then contract ''credential_in_outbox''
             else and_then (safe_metadata child) (\<lambda>c. Inr (key, c))) kvs) (\<lambda>result. Inr (JObj result))
      | JList xs \<Rightarrow> and_then (map_res safe_metadata xs) (\<lambda>result. Inr (JList result))
      | _ \<Rightarrow> Inr value)"

declare safe_metadata.simps [simp del]

definition REQUIRED_FIELDS :: "string list" where
  "REQUIRED_FIELDS = [''client_observation_id'', ''environment'', ''provider'', ''observation_type'', ''scope'',
     ''season'', ''cutoff'', ''schema_version'', ''retrieved_at'', ''checksum'', ''payload'', ''manifest_id'']"

definition required_fields :: "string \<Rightarrow> string list" where
  "required_fields kind = (if kind = ''observation'' then REQUIRED_FIELDS else ''catalog_version'' # REQUIRED_FIELDS)"

definition allowed_fields :: "string \<Rightarrow> string list" where
  "allowed_fields kind =
     (if kind = ''observation'' then required_fields kind else ''expires_at'' # required_fields kind)"

definition json_keys :: "json \<Rightarrow> string set" where
  "json_keys v = (case v of JObj kvs \<Rightarrow> fst ` set kvs | _ \<Rightarrow> {})"

definition nonblank_str :: "json \<Rightarrow> bool" where
  "nonblank_str v = (case v of JStr s \<Rightarrow> strip s \<noteq> [] | _ \<Rightarrow> False)"

definition validate_wire_payload :: "wire \<Rightarrow> nat list \<Rightarrow> string \<Rightarrow> string \<Rightarrow> outbox_error + unit" where
  "validate_wire_payload w payload kind expected_checksum =
     (case read_document w payload of
        None \<Rightarrow> contract ''outbox_payload_not_envelope''
      | Some document \<Rightarrow>
          (if \<not> is_mapping document \<or> \<not> is_mapping (get_key document ''payload'')
           then contract ''outbox_payload_not_envelope''
           else if \<not> set (required_fields kind) \<subseteq> json_keys document \<or> \<not> json_keys document \<subseteq> set (allowed_fields kind)
           then contract ''outbox_payload_not_envelope''
           else if \<not> nonblank_str (get_key document ''client_observation_id'')
           then contract ''outbox_payload_not_envelope''
           else if get_key document ''checksum'' \<noteq> JStr (payload_checksum w (get_key document ''payload''))
             \<or> get_key document ''checksum'' \<noteq> JStr expected_checksum
           then contract ''checksum_mismatch''
           else if kind = ''observation'' \<and> \<not> nonblank_str (get_key document ''manifest_id'')
           then contract ''outbox_payload_not_envelope''
           else if kind \<noteq> ''observation'' \<and> get_key document ''manifest_id'' \<noteq> JNull
           then contract ''outbox_payload_not_envelope''
           else if kind = ''catalog'' \<and> has_key document ''expires_at''
             \<and> (case fromisoformat w (replace_z (py_str (get_key document ''expires_at''))) of Aware _ \<Rightarrow> False | _ \<Rightarrow> True)
           then contract ''outbox_payload_not_envelope''
           else Inr ()))"

section \<open>Transactions\<close>

type_synonym 'a outcome = "(outbox_error + 'a) \<times> outbox_db"

definition in_transaction ::
  "outbox_config \<Rightarrow> int \<Rightarrow> (outbox_db \<Rightarrow> outbox_error + 'a \<times> outbox_db) \<Rightarrow> outbox_db \<Rightarrow> 'a outcome" where
  "in_transaction cfg footprint_at_commit body db =
     (case body db of
        Inl e \<Rightarrow> (Inl e, db)
      | Inr (x, db') \<Rightarrow>
          (if oc_max_bytes cfg < footprint_at_commit - oc_baseline cfg then (Inl OutboxFull, db)
           else (Inr x, db')))"

definition total_bytes :: "outbox_db \<Rightarrow> int" where
  "total_bytes db = sum_list (map (\<lambda>i. int (length (oi_payload i))) (db_items db))"

definition within_hard_limit :: "outbox_config \<Rightarrow> int \<Rightarrow> bool" where
  "within_hard_limit cfg footprint \<longleftrightarrow> footprint - oc_baseline cfg \<le> oc_max_bytes cfg"

section \<open>The queue\<close>

record request =
  rq_kind :: string
  rq_client_observation_id :: string
  rq_checksum :: string
  rq_cutoff :: string
  rq_payload :: "nat list"
  rq_metadata :: json
  rq_request_id :: "string option"

definition same_observation :: "request \<Rightarrow> OutboxItem \<Rightarrow> bool" where
  "same_observation rq i \<longleftrightarrow> oi_kind i = rq_kind rq \<and> oi_client_observation_id i = rq_client_observation_id rq"

definition insert_item :: "request \<Rightarrow> instant \<Rightarrow> instant \<Rightarrow> string \<Rightarrow> outbox_db \<Rightarrow> OutboxItem \<times> outbox_db" where
  "insert_item rq cutoff current metadata db =
     (let item = \<lparr>oi_item_id = db_last_id db + 1, oi_kind = rq_kind rq,
            oi_client_observation_id = rq_client_observation_id rq, oi_checksum = rq_checksum rq,
            oi_cutoff = cutoff, oi_created_at = current, oi_payload = rq_payload rq, oi_metadata = metadata,
            oi_attempts = 0, oi_last_error = None, oi_request_id = rq_request_id rq\<rparr>
      in (item, db\<lparr>db_items := db_items db @ [item], db_last_id := db_last_id db + 1\<rparr>))"

definition enqueue_body ::
  "outbox_config \<Rightarrow> request \<Rightarrow> instant \<Rightarrow> instant \<Rightarrow> string \<Rightarrow> int \<Rightarrow> int \<Rightarrow> outbox_db
     \<Rightarrow> outbox_error + OutboxItem \<times> outbox_db" where
  "enqueue_body cfg rq cutoff current metadata footprint_before footprint_after db =
     (case find (\<lambda>i. same_observation rq i \<and> oi_checksum i = rq_checksum rq) (db_items db) of
        Some existing \<Rightarrow> Inr (existing, db)
      | None \<Rightarrow>
          (if \<exists>i \<in> set (db_items db). same_observation rq i \<and> oi_checksum i \<noteq> rq_checksum rq
           then Inl (OutboxError ''client observation ID is already bound to a different checksum'')
           else
             let reserved = int (length (rq_payload rq)) + int (length (utf8 metadata)) + 3 * oc_page_size cfg
             in if oc_max_bytes cfg - oc_headroom cfg
                   < footprint_before - oc_baseline cfg + total_bytes db + reserved
                then Inl OutboxFull
                else
                  let inserted = insert_item rq cutoff current metadata db
                  in if oc_max_bytes cfg < footprint_after - oc_baseline cfg then Inl OutboxFull
                     else Inr inserted))"

text \<open>The footprints before the insertion, after it and at the commit are the last arguments.\<close>

definition enqueue ::
  "outbox_config \<Rightarrow> wire \<Rightarrow> request \<Rightarrow> instant \<Rightarrow> int \<times> int \<times> int \<Rightarrow> outbox_db \<Rightarrow> OutboxItem outcome" where
  "enqueue cfg w rq clock footprints db =
     (case footprints of (before, after, at_commit) \<Rightarrow>
        case and_then (ensure (rq_kind rq \<in> {''observation'', ''catalog''}) BadValue) (\<lambda>_.
             and_then (ensure (rq_payload rq \<noteq> []) BadValue) (\<lambda>_.
             and_then (ensure (int (length (rq_payload rq)) \<le> oc_max_item_bytes cfg) OutboxFull) (\<lambda>_.
             and_then (validate_wire_payload w (rq_payload rq) (rq_kind rq) (rq_checksum rq)) (\<lambda>_.
             and_then (safe_metadata (rq_metadata rq)) (\<lambda>safe.
             and_then (ensure (length (canonical_json safe) \<le> MAX_METADATA_BYTES) OutboxFull) (\<lambda>_.
               case fromisoformat w (replace_z (rq_cutoff rq)) of
                 Aware cutoff \<Rightarrow> Inr (cutoff, json_dumps safe)
               | _ \<Rightarrow> Inl BadValue)))))) of
          Inl e \<Rightarrow> (Inl e, db)
        | Inr (cutoff, metadata) \<Rightarrow>
            in_transaction cfg at_commit (enqueue_body cfg rq cutoff clock metadata before after) db)"

definition observation_request :: "wire \<Rightarrow> ObservationEnvelope \<Rightarrow> outbox_error + request" where
  "observation_request w e =
     (case compressed_wire w e of
        Inl err \<Rightarrow> Inl (Contract err)
      | Inr payload \<Rightarrow> Inr \<lparr>rq_kind = ''observation'', rq_client_observation_id = en_client_observation_id e,
          rq_checksum = en_checksum e, rq_cutoff = en_cutoff e, rq_payload = payload,
          rq_metadata = as_outbox_metadata e, rq_request_id = None\<rparr>)"

definition enqueue_observation ::
  "outbox_config \<Rightarrow> wire \<Rightarrow> ObservationEnvelope \<Rightarrow> instant \<Rightarrow> int \<times> int \<times> int \<Rightarrow> outbox_db \<Rightarrow> OutboxItem outcome" where
  "enqueue_observation cfg w e clock footprints db =
     (case observation_request w e of Inl err \<Rightarrow> (Inl err, db) | Inr rq \<Rightarrow> enqueue cfg w rq clock footprints db)"

definition catalog_request :: "wire \<Rightarrow> CatalogEnvelope \<Rightarrow> outbox_error + request" where
  "catalog_request w c =
     (case catalog_compressed_wire w c of
        Inl err \<Rightarrow> Inl (Contract err)
      | Inr payload \<Rightarrow> Inr \<lparr>rq_kind = ''catalog'', rq_client_observation_id = en_client_observation_id (ce_envelope c),
          rq_checksum = en_checksum (ce_envelope c), rq_cutoff = en_cutoff (ce_envelope c), rq_payload = payload,
          rq_metadata = catalog_outbox_metadata c, rq_request_id = Some (ce_request_id c)\<rparr>)"

definition enqueue_catalog ::
  "outbox_config \<Rightarrow> wire \<Rightarrow> CatalogEnvelope \<Rightarrow> instant \<Rightarrow> int \<times> int \<times> int \<Rightarrow> outbox_db \<Rightarrow> OutboxItem outcome" where
  "enqueue_catalog cfg w c clock footprints db =
     (case catalog_request w c of Inl err \<Rightarrow> (Inl err, db) | Inr rq \<Rightarrow> enqueue cfg w rq clock footprints db)"

definition get_item :: "int \<Rightarrow> outbox_db \<Rightarrow> OutboxItem option" where
  "get_item item_id db = find (\<lambda>i. oi_item_id i = item_id) (db_items db)"

text \<open>\<open>ORDER BY cutoff DESC, created_at ASC, item_id ASC\<close>, on the stored texts.\<close>

definition served_before :: "OutboxItem \<Rightarrow> OutboxItem \<Rightarrow> bool" where
  "served_before i j \<longleftrightarrow>
     (let ci = iso (oi_cutoff i); cj = iso (oi_cutoff j); ti = iso (oi_created_at i); tj = iso (oi_created_at j)
      in cj < ci \<or> ci = cj \<and> (ti < tj \<or> ti = tj \<and> oi_item_id i \<le> oi_item_id j))"

fun insert_by :: "('a \<Rightarrow> 'a \<Rightarrow> bool) \<Rightarrow> 'a \<Rightarrow> 'a list \<Rightarrow> 'a list" where
  "insert_by le x [] = [x]"
| "insert_by le x (y # ys) = (if le x y then x # y # ys else y # insert_by le x ys)"

definition order_by :: "('a \<Rightarrow> 'a \<Rightarrow> bool) \<Rightarrow> 'a list \<Rightarrow> 'a list" where
  "order_by le xs = foldr (insert_by le) xs []"

definition bounded_limit :: "int \<Rightarrow> nat" where
  "bounded_limit limit = nat (max 1 (min limit 1000))"

definition pending :: "int \<Rightarrow> outbox_db \<Rightarrow> OutboxItem list" where
  "pending limit db = take (bounded_limit limit) (order_by served_before (db_items db))"

definition older :: "OutboxItem \<Rightarrow> OutboxItem \<Rightarrow> bool" where
  "older i j \<longleftrightarrow> iso (oi_created_at i) < iso (oi_created_at j)
     \<or> iso (oi_created_at i) = iso (oi_created_at j) \<and> oi_item_id i \<le> oi_item_id j"

definition aged :: "instant \<Rightarrow> OutboxItem \<Rightarrow> bool" where
  "aged threshold i \<longleftrightarrow> iso (oi_created_at i) < iso threshold"

definition aged_pending :: "outbox_config \<Rightarrow> instant \<Rightarrow> int \<Rightarrow> outbox_db \<Rightarrow> OutboxItem list" where
  "aged_pending cfg now limit db =
     take (bounded_limit limit) (order_by older (filter (aged (now - oc_retention cfg)) (db_items db)))"

definition count_items :: "outbox_db \<Rightarrow> nat" where
  "count_items db = length (db_items db)"

definition enforce_retention :: "outbox_config \<Rightarrow> instant \<Rightarrow> outbox_db \<Rightarrow> outbox_error + unit" where
  "enforce_retention cfg now db =
     (if 0 < row_count (aged (now - oc_retention cfg)) (db_items db) then Inl OutboxRetentionError else Inr ())"

section \<open>Attempts, receipts, pruning\<close>

definition SAFE_CODES :: "string list" where
  "SAFE_CODES =
    [''no_work'', ''complete'', ''retry'', ''non_retryable'', ''busy'', ''work_complete'',
     ''work_pending'', ''railway_timeout'', ''railway_unavailable'', ''provider_timeout'',
     ''provider_unavailable'', ''provider_schema_changed'', ''value_invariant_failed'',
     ''identity_unresolved'', ''scope_not_registered'', ''provider_window_unsupported'',
     ''provider_window_unverified'', ''invalid_token'', ''token_expired'', ''environment_mismatch'',
     ''outbox_full'', ''outbox_retention'', ''collector_busy'', ''operation_conflict'',
     ''control_rejected'', ''malformed_control_response'', ''malformed_receipt'',
     ''provider_scope_unavailable'', ''provider_category_changed'', ''scope_team_required'',
     ''scope_failure'', ''provider_failure'', ''credential_unavailable'', ''token_failure'',
     ''discovery_failure'', ''outbox_receipt_invalid'', ''outbox_payload_not_envelope'',
     ''bootstrap_expired'', ''bootstrap_not_pending'', ''manifest_expired'', ''manifest_not_active'',
     ''malformed_envelope'', ''malformed_catalog'', ''malformed_manifest'', ''malformed_discovery'',
     ''malformed_token_response'', ''manifest_scope_mismatch'', ''schema_unsupported'', ''scope_denied'',
     ''forbidden'', ''not_found'', ''payload_too_large'', ''compression_required'',
     ''catalog_observation_invalid'', ''bootstrap_not_found'', ''incomplete_observation'',
     ''cache_rejected'']"

definition safe_code :: "string \<Rightarrow> string \<Rightarrow> string" where
  "safe_code value fallback =
     (let code = casefold (strip (if value = [] then fallback else value))
      in if code \<in> set SAFE_CODES then take 80 code else fallback)"

definition mark_attempt :: "outbox_config \<Rightarrow> int \<Rightarrow> string option \<Rightarrow> int \<Rightarrow> outbox_db \<Rightarrow> unit outcome" where
  "mark_attempt cfg item_id reason footprint db =
     (let safe_reason = (case reason of None \<Rightarrow> None | Some r \<Rightarrow> if r = [] then None else Some (safe_code r ''collector_failure''))
      in in_transaction cfg footprint (\<lambda>db.
           Inr ((), db\<lparr>db_items := update_where (\<lambda>i. oi_item_id i = item_id)
             (\<lambda>i. i\<lparr>oi_attempts := oi_attempts i + 1, oi_last_error := safe_reason\<rparr>) (db_items db)\<rparr>)) db)"

definition acknowledge :: "outbox_config \<Rightarrow> int \<Rightarrow> string \<Rightarrow> int \<Rightarrow> outbox_db \<Rightarrow> bool outcome" where
  "acknowledge cfg item_id checksum footprint db =
     in_transaction cfg footprint (\<lambda>db.
       case get_item item_id db of
         None \<Rightarrow> Inr (False, db)
       | Some row \<Rightarrow>
           (if oi_checksum row \<noteq> checksum
            then Inl (OutboxError ''durable receipt checksum did not match the outbox item'')
            else Inr (True, db\<lparr>db_items := filter (\<lambda>i. oi_item_id i \<noteq> item_id) (db_items db)\<rparr>))) db"

definition obsolete :: "instant \<Rightarrow> OutboxItem \<Rightarrow> bool" where
  "obsolete threshold i \<longleftrightarrow> iso (oi_cutoff i) < iso threshold"

definition prune_obsolete :: "outbox_config \<Rightarrow> instant \<Rightarrow> int \<Rightarrow> outbox_db \<Rightarrow> nat outcome" where
  "prune_obsolete cfg threshold footprint db =
     in_transaction cfg footprint (\<lambda>db.
       Inr (row_count (obsolete threshold) (db_items db),
            db\<lparr>db_items := filter (\<lambda>i. \<not> obsolete threshold i) (db_items db)\<rparr>)) db"

section \<open>The process lease\<close>

definition lease_end :: "instant \<Rightarrow> int \<Rightarrow> instant" where
  "lease_end now ttl_seconds = now + min ttl_seconds (24 * 60 * 60) * 1000000"

definition acquire_lease ::
  "outbox_config \<Rightarrow> string option \<Rightarrow> string \<Rightarrow> int \<Rightarrow> instant \<Rightarrow> int \<Rightarrow> outbox_db \<Rightarrow> string outcome" where
  "acquire_lease cfg owner_arg fresh_token ttl_seconds now footprint db =
     (let owner = (case owner_arg of None \<Rightarrow> fresh_token | Some s \<Rightarrow> if s = [] then fresh_token else s)
      in if owner = [] \<or> ttl_seconds < 1 then (Inl BadValue, db)
         else in_transaction cfg footprint (\<lambda>db.
           if (case db_lease db of None \<Rightarrow> False | Some l \<Rightarrow> now < le_expires_at l) then Inl OutboxBusy
           else Inr (owner, db\<lparr>db_lease := Some (Lease owner (lease_end now ttl_seconds))\<rparr>)) db)"

definition renew_process_lease ::
  "outbox_config \<Rightarrow> string \<Rightarrow> int \<Rightarrow> instant \<Rightarrow> int \<Rightarrow> outbox_db \<Rightarrow> bool outcome" where
  "renew_process_lease cfg owner ttl_seconds now footprint db =
     in_transaction cfg footprint (\<lambda>db.
       case db_lease db of
         None \<Rightarrow> Inr (False, db)
       | Some l \<Rightarrow>
           (if le_owner l = owner \<and> iso now < iso (le_expires_at l)
            then Inr (True, db\<lparr>db_lease := Some (Lease owner (lease_end now ttl_seconds))\<rparr>) else Inr (False, db))) db"

definition release_lease :: "outbox_config \<Rightarrow> string \<Rightarrow> int \<Rightarrow> outbox_db \<Rightarrow> bool outcome" where
  "release_lease cfg owner footprint db =
     in_transaction cfg footprint (\<lambda>db.
       case db_lease db of
         None \<Rightarrow> Inr (False, db)
       | Some l \<Rightarrow> (if le_owner l = owner then Inr (True, db\<lparr>db_lease := None\<rparr>) else Inr (False, db))) db"

text \<open>\<open>process_lease\<close>: the body runs under the lease, which is released however the body ends.\<close>

definition process_lease ::
  "outbox_config \<Rightarrow> string option \<Rightarrow> string \<Rightarrow> int \<Rightarrow> instant \<Rightarrow> int \<times> int
     \<Rightarrow> (string \<Rightarrow> outbox_db \<Rightarrow> 'a outcome) \<Rightarrow> outbox_db \<Rightarrow> 'a outcome" where
  "process_lease cfg owner_arg fresh_token ttl_seconds now footprints body db =
     (case acquire_lease cfg owner_arg fresh_token ttl_seconds now (fst footprints) db of
        (Inl e, db1) \<Rightarrow> (Inl e, db1)
      | (Inr owner, db1) \<Rightarrow>
          (case body owner db1 of (result, db2) \<Rightarrow>
             (case release_lease cfg owner (snd footprints) db2 of
                (Inl e, db3) \<Rightarrow> (Inl e, db3)
              | (Inr _, db3) \<Rightarrow> (result, db3))))"

section \<open>Operations in sequence\<close>

datatype outbox_op =
    Enqueue request instant "int \<times> int \<times> int"
  | MarkAttempt int "string option" int
  | Acknowledge int string int
  | PruneObsolete instant int
  | AcquireLease "string option" string int instant int
  | RenewLease string int instant int
  | ReleaseLease string int

fun apply_op :: "outbox_config \<Rightarrow> wire \<Rightarrow> outbox_op \<Rightarrow> outbox_db \<Rightarrow> outbox_db" where
  "apply_op cfg w (Enqueue rq clock fps) db = snd (enqueue cfg w rq clock fps db)"
| "apply_op cfg w (MarkAttempt i r fp) db = snd (mark_attempt cfg i r fp db)"
| "apply_op cfg w (Acknowledge i c fp) db = snd (acknowledge cfg i c fp db)"
| "apply_op cfg w (PruneObsolete t fp) db = snd (prune_obsolete cfg t fp db)"
| "apply_op cfg w (AcquireLease o' tok ttl now fp) db = snd (acquire_lease cfg o' tok ttl now fp db)"
| "apply_op cfg w (RenewLease o' ttl now fp) db = snd (renew_process_lease cfg o' ttl now fp db)"
| "apply_op cfg w (ReleaseLease o' fp) db = snd (release_lease cfg o' fp db)"

definition run_ops :: "outbox_config \<Rightarrow> wire \<Rightarrow> outbox_op list \<Rightarrow> outbox_db \<Rightarrow> outbox_db" where
  "run_ops cfg w ops db = fold (apply_op cfg w) ops db"

definition empty_outbox :: outbox_db where
  "empty_outbox = \<lparr>db_items = [], db_last_id = 0, db_lease = None\<rparr>"

text \<open>The invariant of the table: identifiers are unique and never reused, an observation id is
  bound to one checksum, and every payload is a non-empty document within the item limit.\<close>

definition wf_outbox :: "outbox_config \<Rightarrow> outbox_db \<Rightarrow> bool" where
  "wf_outbox cfg db \<longleftrightarrow>
     distinct (map oi_item_id (db_items db))
     \<and> distinct (map (\<lambda>i. (oi_kind i, oi_client_observation_id i)) (db_items db))
     \<and> (\<forall>i \<in> set (db_items db). oi_item_id i \<le> db_last_id db \<and> oi_kind i \<in> {''observation'', ''catalog''}
          \<and> oi_payload i \<noteq> [] \<and> int (length (oi_payload i)) \<le> oc_max_item_bytes cfg)"

text \<open>What is immutable of an item.\<close>

definition item_core :: "OutboxItem \<Rightarrow> OutboxItem" where
  "item_core i = i\<lparr>oi_attempts := 0, oi_last_error := None\<rparr>"

text \<open>The operations that may remove an item.\<close>

fun drops :: "outbox_op \<Rightarrow> OutboxItem \<Rightarrow> bool" where
  "drops (Acknowledge item_id checksum fp) i \<longleftrightarrow> oi_item_id i = item_id \<and> oi_checksum i = checksum"
| "drops (PruneObsolete t fp) i \<longleftrightarrow> obsolete t i"
| "drops _ i \<longleftrightarrow> False"

section \<open>The invariant\<close>

definition holds_item :: "outbox_db \<Rightarrow> OutboxItem \<Rightarrow> bool" where
  "holds_item db i \<longleftrightarrow> item_core i \<in> item_core ` set (db_items db)"

lemma transaction_cases:
  "snd (in_transaction cfg fp body db) = db \<or> (\<exists>x. body db = Inr (x, snd (in_transaction cfg fp body db)))"
  by (auto simp: in_transaction_def split: sum.splits prod.splits)

lemma item_core_fields [simp]:
  "oi_item_id (item_core i) = oi_item_id i" "oi_kind (item_core i) = oi_kind i"
  "oi_client_observation_id (item_core i) = oi_client_observation_id i" "oi_checksum (item_core i) = oi_checksum i"
  "oi_cutoff (item_core i) = oi_cutoff i" "oi_payload (item_core i) = oi_payload i"
  by (simp_all add: item_core_def)

text \<open>A transaction that keeps the cores of the items, or drops some of them, keeps the
  invariant.\<close>

lemma cores_map:
  assumes "map item_core xs = map item_core ys" and "\<And>i. f (item_core i) = f i"
  shows "map f xs = map f ys"
proof -
  have "map f (map item_core xs) = map f (map item_core ys)" using assms(1) by simp
  then show ?thesis by (simp add: assms(2) comp_def)
qed

lemma wf_outbox_cores:
  assumes wf: "wf_outbox cfg db" and cores: "map item_core (db_items db') = map item_core (filter p (db_items db))"
    and last: "db_last_id db' = db_last_id db"
  shows "wf_outbox cfg db'"
proof -
  let ?ok = "\<lambda>i. oi_item_id i \<le> db_last_id db \<and> oi_kind i \<in> {''observation'', ''catalog''}
          \<and> oi_payload i \<noteq> [] \<and> int (length (oi_payload i)) \<le> oc_max_item_bytes cfg"
  have "map oi_item_id (db_items db') = map oi_item_id (filter p (db_items db))"
    "map (\<lambda>i. (oi_kind i, oi_client_observation_id i)) (db_items db')
       = map (\<lambda>i. (oi_kind i, oi_client_observation_id i)) (filter p (db_items db))"
    "map ?ok (db_items db') = map ?ok (filter p (db_items db))"
    using cores by (auto intro!: cores_map)
  moreover have "set (map ?ok (filter p (db_items db))) \<subseteq> {True}" using wf by (auto simp: wf_outbox_def)
  ultimately have d: "distinct (map oi_item_id (db_items db'))"
      "distinct (map (\<lambda>i. (oi_kind i, oi_client_observation_id i)) (db_items db'))"
    and "set (map ?ok (db_items db')) \<subseteq> {True}"
    using wf by (simp_all add: wf_outbox_def distinct_map_filter)
  then show ?thesis using last by (auto simp: wf_outbox_def)
qed

lemma update_where_cores:
  assumes "\<And>i. item_core (f i) = item_core i"
  shows "map item_core (update_where p f items) = map item_core (filter (\<lambda>_. True) items)"
  by (simp add: update_where_def assms)

lemma lease_wf: "wf_outbox cfg db \<Longrightarrow> wf_outbox cfg (db\<lparr>db_lease := l\<rparr>)"
  by (simp add: wf_outbox_def)

lemma lease_ops_items:
  "db_items (snd (acquire_lease cfg o' tok ttl now fp db)) = db_items db"
  "db_items (snd (renew_process_lease cfg own ttl now fp db)) = db_items db"
  "db_items (snd (release_lease cfg own fp db)) = db_items db"
  "db_last_id (snd (acquire_lease cfg o' tok ttl now fp db)) = db_last_id db"
  "db_last_id (snd (renew_process_lease cfg own ttl now fp db)) = db_last_id db"
  "db_last_id (snd (release_lease cfg own fp db)) = db_last_id db"
  by (simp_all add: acquire_lease_def renew_process_lease_def release_lease_def in_transaction_def Let_def
      split: option.split)

lemma mark_attempt_cores:
  "map item_core (db_items (snd (mark_attempt cfg i r fp db))) = map item_core (filter (\<lambda>_. True) (db_items db))"
  "db_last_id (snd (mark_attempt cfg i r fp db)) = db_last_id db"
  by (simp_all add: mark_attempt_def in_transaction_def Let_def update_where_def item_core_def)

lemma acknowledge_items:
  "db_items (snd (acknowledge cfg item_id checksum fp db)) = db_items db
   \<or> (\<exists>row. get_item item_id db = Some row \<and> oi_checksum row = checksum
        \<and> db_items (snd (acknowledge cfg item_id checksum fp db)) = filter (\<lambda>i. oi_item_id i \<noteq> item_id) (db_items db))"
  "db_last_id (snd (acknowledge cfg item_id checksum fp db)) = db_last_id db"
  by (simp_all add: acknowledge_def in_transaction_def split: option.split)

lemma prune_items:
  "db_items (snd (prune_obsolete cfg t fp db)) = db_items db
   \<or> db_items (snd (prune_obsolete cfg t fp db)) = filter (\<lambda>i. \<not> obsolete t i) (db_items db)"
  "db_last_id (snd (prune_obsolete cfg t fp db)) = db_last_id db"
  by (simp_all add: prune_obsolete_def in_transaction_def)

text \<open>What an accepted request did: it was already stored, or it is new and fits.\<close>

lemma enqueue_body_effect:
  assumes "enqueue_body cfg rq cutoff current metadata before after db = Inr (item, db')"
  shows "db' = db \<and> item \<in> set (db_items db) \<and> same_observation rq item \<and> oi_checksum item = rq_checksum rq
     \<or> (item, db') = insert_item rq cutoff current metadata db \<and> (\<forall>i \<in> set (db_items db). \<not> same_observation rq i)
       \<and> before - oc_baseline cfg + total_bytes db + int (length (rq_payload rq)) + int (length (utf8 metadata))
           + 3 * oc_page_size cfg \<le> oc_max_bytes cfg - oc_headroom cfg"
proof (cases "find (\<lambda>i. same_observation rq i \<and> oi_checksum i = rq_checksum rq) (db_items db)")
  case None
  then have "\<forall>i \<in> set (db_items db). \<not> (same_observation rq i \<and> oi_checksum i = rq_checksum rq)"
    by (simp add: find_None_iff)
  with assms None show ?thesis
    by (auto simp: enqueue_body_def Let_def split: if_splits)
next
  case (Some i)
  with assms show ?thesis by (auto simp: enqueue_body_def find_Some_iff)
qed

lemma enqueue_accepted:
  assumes "enqueue cfg w rq clock (before, after, at_commit) db = (Inr item, db')"
  obtains safe cutoff where
    "rq_kind rq \<in> {''observation'', ''catalog''}" "rq_payload rq \<noteq> []"
    "int (length (rq_payload rq)) \<le> oc_max_item_bytes cfg"
    "validate_wire_payload w (rq_payload rq) (rq_kind rq) (rq_checksum rq) = Inr ()"
    "safe_metadata (rq_metadata rq) = Inr safe" "fromisoformat w (replace_z (rq_cutoff rq)) = Aware cutoff"
    "enqueue_body cfg rq cutoff clock (json_dumps safe) before after db = Inr (item, db')"
  using assms
  by (auto simp: enqueue_def in_transaction_def result_simps split: sum.splits prod.splits if_splits parsed_time.splits)

lemma enqueue_refused: "fst (enqueue cfg w rq clock fps db) = Inl e \<Longrightarrow> snd (enqueue cfg w rq clock fps db) = db"
  by (auto simp: enqueue_def in_transaction_def split: sum.splits prod.splits if_splits)

lemma enqueue_state:
  assumes "snd (enqueue cfg w rq clock (before, after, at_commit) db) = db'" and "db' \<noteq> db"
  obtains cutoff metadata item where
    "rq_kind rq \<in> {''observation'', ''catalog''}" "rq_payload rq \<noteq> []"
    "int (length (rq_payload rq)) \<le> oc_max_item_bytes cfg"
    "(item, db') = insert_item rq cutoff clock metadata db" "\<forall>i \<in> set (db_items db). \<not> same_observation rq i"
    "before - oc_baseline cfg + total_bytes db + int (length (rq_payload rq)) + int (length (utf8 metadata))
       + 3 * oc_page_size cfg \<le> oc_max_bytes cfg - oc_headroom cfg"
proof -
  obtain r where r: "enqueue cfg w rq clock (before, after, at_commit) db = (r, db')"
    using assms(1) by (metis prod.collapse)
  with assms(2) enqueue_refused [of cfg w rq clock "(before, after, at_commit)" db] obtain item where "r = Inr item"
    by (cases r) auto
  with r have "enqueue cfg w rq clock (before, after, at_commit) db = (Inr item, db')" by simp
  then show thesis
  proof (rule enqueue_accepted)
    fix safe cutoff
    assume c: "rq_kind rq \<in> {''observation'', ''catalog''}" "rq_payload rq \<noteq> []"
      "int (length (rq_payload rq)) \<le> oc_max_item_bytes cfg"
      and b: "enqueue_body cfg rq cutoff clock (json_dumps safe) before after db = Inr (item, db')"
    from enqueue_body_effect [OF b] assms(2)
    have "(item, db') = insert_item rq cutoff clock (json_dumps safe) db" "\<forall>i \<in> set (db_items db). \<not> same_observation rq i"
      "before - oc_baseline cfg + total_bytes db + int (length (rq_payload rq)) + int (length (utf8 (json_dumps safe)))
       + 3 * oc_page_size cfg \<le> oc_max_bytes cfg - oc_headroom cfg" by auto
    then show thesis using that [OF c] by blast
  qed
qed

lemma insert_item_wf:
  assumes wf: "wf_outbox cfg db" and kind: "rq_kind rq \<in> {''observation'', ''catalog''}" and p: "rq_payload rq \<noteq> []"
    and len: "int (length (rq_payload rq)) \<le> oc_max_item_bytes cfg"
    and ins: "(item, db') = insert_item rq cutoff current metadata db"
    and new: "\<forall>i \<in> set (db_items db). \<not> same_observation rq i"
  shows "wf_outbox cfg db'"
proof -
  have "db_last_id db + 1 \<notin> oi_item_id ` set (db_items db)" using wf by (force simp: wf_outbox_def)
  moreover have "(rq_kind rq, rq_client_observation_id rq) \<notin> (\<lambda>i. (oi_kind i, oi_client_observation_id i)) ` set (db_items db)"
    using new by (force simp: same_observation_def)
  ultimately show ?thesis
    using wf kind p len ins by (force simp: wf_outbox_def insert_item_def Let_def)
qed

lemma enqueue_wf: "wf_outbox cfg db \<Longrightarrow> wf_outbox cfg (snd (enqueue cfg w rq clock fps db))"
proof (cases fps)
  case (fields before after at_commit)
  assume wf: "wf_outbox cfg db"
  let ?db' = "snd (enqueue cfg w rq clock (before, after, at_commit) db)"
  show ?thesis
  proof (cases "?db' = db")
    case False
    show ?thesis
      unfolding fields by (rule enqueue_state [OF refl False]) (rule insert_item_wf [OF wf])
  qed (use wf fields in simp)
qed

lemma wf_outbox_same_items:
  assumes "wf_outbox cfg db" and "db_items db' = db_items db" and "db_last_id db' = db_last_id db"
  shows "wf_outbox cfg db'"
  using assms by (simp add: wf_outbox_def)

lemma acknowledge_wf: "wf_outbox cfg db \<Longrightarrow> wf_outbox cfg (snd (acknowledge cfg i c fp db))"
proof (cases "db_items (snd (acknowledge cfg i c fp db)) = db_items db")
  case True
  assume "wf_outbox cfg db"
  then show ?thesis by (rule wf_outbox_same_items [OF _ True acknowledge_items(2)])
next
  case False
  assume wf: "wf_outbox cfg db"
  from False have "db_items (snd (acknowledge cfg i c fp db)) = filter (\<lambda>j. oi_item_id j \<noteq> i) (db_items db)"
    using acknowledge_items(1) [of cfg i c fp db] by blast
  then show ?thesis by (intro wf_outbox_cores [OF wf _ acknowledge_items(2)]) simp
qed

lemma prune_wf: "wf_outbox cfg db \<Longrightarrow> wf_outbox cfg (snd (prune_obsolete cfg t fp db))"
proof (cases "db_items (snd (prune_obsolete cfg t fp db)) = db_items db")
  case True
  assume "wf_outbox cfg db"
  then show ?thesis by (rule wf_outbox_same_items [OF _ True prune_items(2)])
next
  case False
  assume wf: "wf_outbox cfg db"
  from False have "db_items (snd (prune_obsolete cfg t fp db)) = filter (\<lambda>i. \<not> obsolete t i) (db_items db)"
    using prune_items(1) [of cfg t fp db] by blast
  then show ?thesis by (intro wf_outbox_cores [OF wf _ prune_items(2)]) simp
qed

lemma wf_outbox_apply:
  assumes wf: "wf_outbox cfg db"
  shows "wf_outbox cfg (apply_op cfg w op db)"
proof (cases op)
  case (MarkAttempt i r fp)
  show ?thesis
    unfolding MarkAttempt apply_op.simps by (rule wf_outbox_cores [OF wf mark_attempt_cores])
next
  case (AcquireLease o' tok ttl now fp)
  show ?thesis
    unfolding AcquireLease apply_op.simps by (rule wf_outbox_same_items [OF wf lease_ops_items(1,4)])
next
  case (RenewLease o' ttl now fp)
  show ?thesis
    unfolding RenewLease apply_op.simps by (rule wf_outbox_same_items [OF wf lease_ops_items(2,5)])
next
  case (ReleaseLease o' fp)
  show ?thesis
    unfolding ReleaseLease apply_op.simps by (rule wf_outbox_same_items [OF wf lease_ops_items(3,6)])
qed (simp_all add: enqueue_wf acknowledge_wf prune_wf wf)

lemma holds_item_apply:
  assumes wf: "wf_outbox cfg db" and h: "holds_item db i" and d: "\<not> drops op i"
  shows "holds_item (apply_op cfg w op db) i"
proof -
  from h obtain j where j: "j \<in> set (db_items db)" "item_core j = item_core i" by (auto simp: holds_item_def)
  then have same: "oi_item_id i = oi_item_id j" "oi_checksum i = oi_checksum j" "oi_cutoff i = oi_cutoff j"
    by (metis item_core_fields)+
  show ?thesis
  proof (cases op)
    case (Enqueue rq clock fps)
    obtain before after at_commit where f: "fps = (before, after, at_commit)" by (cases fps)
    show ?thesis
    proof (cases "snd (enqueue cfg w rq clock (before, after, at_commit) db) = db")
      case False
      show ?thesis
        unfolding Enqueue f apply_op.simps
        by (rule enqueue_state [OF refl False]) (use h in \<open>auto simp: holds_item_def insert_item_def Let_def\<close>)
    qed (use h Enqueue f in simp)
  next
    case (MarkAttempt k r fp)
    have "set (map item_core (db_items (snd (mark_attempt cfg k r fp db)))) = item_core ` set (db_items db)"
      by (subst mark_attempt_cores) simp
    with h MarkAttempt show ?thesis by (simp add: holds_item_def)
  next
    case (Acknowledge k c fp)
    show ?thesis
    proof (cases "db_items (snd (acknowledge cfg k c fp db)) = db_items db")
      case False
      then obtain row where row: "get_item k db = Some row" "oi_checksum row = c"
        "db_items (snd (acknowledge cfg k c fp db)) = filter (\<lambda>i. oi_item_id i \<noteq> k) (db_items db)"
        using acknowledge_items(1) [of cfg k c fp db] by blast
      then have r: "row \<in> set (db_items db)" "oi_item_id row = k" by (auto simp: get_item_def find_Some_iff)
      have "oi_item_id j \<noteq> k"
      proof
        assume "oi_item_id j = k"
        with r j wf have "j = row" by (auto simp: wf_outbox_def distinct_map inj_on_def)
        with d Acknowledge same row(2) r(2) show False by simp
      qed
      with j row(3) Acknowledge show ?thesis by (auto simp: holds_item_def intro!: image_eqI [of _ _ j])
    qed (use h Acknowledge in \<open>simp add: holds_item_def\<close>)
  next
    case (PruneObsolete t fp)
    have "\<not> obsolete t j" using d PruneObsolete same(3) by (simp add: obsolete_def)
    with prune_items(1) [of cfg t fp db] j PruneObsolete show ?thesis
      by (auto simp: holds_item_def intro!: image_eqI [of _ _ j])
  qed (use h in \<open>simp_all add: holds_item_def lease_ops_items\<close>)
qed

interpretation outbox_store: retained_store "wf_outbox cfg" holds_item "apply_op cfg w" drops for cfg w
  by unfold_locales (simp_all add: wf_outbox_apply holds_item_apply)

section \<open>Properties of the queue\<close>

lemma empty_wf: "wf_outbox cfg empty_outbox"
  by (simp add: wf_outbox_def empty_outbox_def)


lemma enqueue_stores:
  assumes "enqueue cfg w rq clock fps db = (Inr item, db')"
  shows "item \<in> set (db_items db') \<and> same_observation rq item \<and> oi_checksum item = rq_checksum rq"
proof (cases fps)
  case (fields before after at_commit)
  show ?thesis
  proof (rule enqueue_accepted [OF assms [unfolded fields]])
    fix safe cutoff
    assume "enqueue_body cfg rq cutoff clock (json_dumps safe) before after db = Inr (item, db')"
    from enqueue_body_effect [OF this] show ?thesis
      by (auto simp: insert_item_def Let_def same_observation_def)
  qed
qed

text \<open>
  C35. Accepted work is never lost: an item that \<open>enqueue\<close> returned is in the table, for the kind,
  observation id and checksum asked for, and stays there, unchanged but for its attempt count and
  last error, until a receipt for its id with exactly its checksum is acknowledged or a governed
  cutoff makes it obsolete. Failed operations, retries, restarts of the lease and full storage
  never remove it.
\<close>
theorem accepted_work_is_retained:
  assumes "enqueue cfg w rq clock fps (run_ops cfg w ops0 empty_outbox) = (Inr item, db)"
    and "\<forall>op \<in> set ops. \<not> drops op item"
  shows "same_observation rq item \<and> oi_checksum item = rq_checksum rq \<and> holds_item (run_ops cfg w ops db) item"
proof -
  let ?db0 = "run_ops cfg w ops0 empty_outbox"
  have "wf_outbox cfg ?db0" unfolding run_ops_def by (rule outbox_store.inv_run [OF empty_wf])
  then have wf: "wf_outbox cfg db" using enqueue_wf [of cfg ?db0 w rq clock fps] assms(1) by simp
  have "holds_item db item" using enqueue_stores [OF assms(1)] by (simp add: holds_item_def)
  then have "holds_item (run_ops cfg w ops db) item"
    unfolding run_ops_def using assms(2) by (rule outbox_store.retained [OF wf])
  with enqueue_stores [OF assms(1)] show ?thesis by simp
qed


text \<open>The lease.\<close>

fun touches_lease :: "string \<Rightarrow> instant \<Rightarrow> outbox_op \<Rightarrow> bool" where
  "touches_lease owner expires (AcquireLease o' tok ttl now fp) \<longleftrightarrow> expires \<le> now"
| "touches_lease owner expires (RenewLease o' ttl now fp) \<longleftrightarrow> o' = owner"
| "touches_lease owner expires (ReleaseLease o' fp) \<longleftrightarrow> o' = owner"
| "touches_lease owner expires _ \<longleftrightarrow> False"

lemma enqueue_lease: "db_lease (snd (enqueue cfg w rq clock fps db)) = db_lease db"
proof (cases fps)
  case (fields before after at_commit)
  show ?thesis
  proof (cases "snd (enqueue cfg w rq clock (before, after, at_commit) db) = db")
    case False
    show ?thesis
      unfolding fields by (rule enqueue_state [OF refl False]) (simp add: insert_item_def Let_def)
  qed (simp add: fields)
qed

lemma apply_op_lease:
  assumes "db_lease db = Some (Lease owner expires)" and "\<not> touches_lease owner expires op"
  shows "db_lease (apply_op cfg w op db) = Some (Lease owner expires)"
proof (cases op)
  case (AcquireLease o' tok ttl now fp)
  then have "now < expires" using assms(2) by simp
  with assms(1) AcquireLease show ?thesis by (simp add: acquire_lease_def in_transaction_def Let_def)
next
  case (RenewLease o' ttl now fp)
  with assms show ?thesis by (simp add: renew_process_lease_def in_transaction_def)
next
  case (ReleaseLease o' fp)
  with assms show ?thesis by (simp add: release_lease_def in_transaction_def)
qed (simp_all add: assms(1) enqueue_lease mark_attempt_def acknowledge_def prune_obsolete_def in_transaction_def Let_def
      split: option.split)

text \<open>
  The process lease is exclusive: while the lease of \<open>owner\<close> has not expired, no operation of
  another process takes it over, moves it or ends it; every acquisition is refused as busy. Only
  the owner's own renewal or release, or an acquisition at or after the expiry, changes it.
\<close>
theorem process_lease_exclusive:
  assumes "db_lease db = Some (Lease owner expires)"
    and "\<forall>op \<in> set ops. \<not> touches_lease owner expires op"
  shows "db_lease (run_ops cfg w ops db) = Some (Lease owner expires)
     \<and> (now < expires \<and> other \<noteq> [] \<and> 1 \<le> ttl \<longrightarrow>
          fst (acquire_lease cfg (Some other) tok ttl now fp (run_ops cfg w ops db)) = Inl OutboxBusy)"
proof -
  have l: "db_lease (run_ops cfg w ops db) = Some (Lease owner expires)"
    unfolding run_ops_def using assms
    by (induction ops arbitrary: db) (simp_all add: apply_op_lease)
  then show ?thesis by (simp add: acquire_lease_def in_transaction_def)
qed

text \<open>The order of service.\<close>

lemma set_order_by [simp]: "set (order_by le xs) = set xs"
proof -
  have "set (insert_by le x ys) = insert x (set ys)" for x ys by (induction ys) auto
  then show ?thesis by (induction xs) (simp_all add: order_by_def)
qed

lemma length_order_by [simp]: "length (order_by le xs) = length xs"
proof -
  have "length (insert_by le x ys) = Suc (length ys)" for x ys by (induction ys) auto
  then show ?thesis by (induction xs) (simp_all add: order_by_def)
qed

lemma sorted_order_by:
  assumes "\<And>x y. le x y \<or> le y x" and "\<And>x y z. le x y \<Longrightarrow> le y z \<Longrightarrow> le x z"
  shows "sorted_wrt le (order_by le xs)"
proof -
  have mem: "set (insert_by le x ys) = insert x (set ys)" for x ys by (induction ys) auto
  have "sorted_wrt le (insert_by le x ys)" if "sorted_wrt le ys" for x ys
    using that
  proof (induction ys)
    case (Cons y ys)
    show ?case
    proof (cases "le x y")
      case True
      with Cons.prems show ?thesis using assms(2) by auto
    next
      case False
      with Cons assms(1) show ?thesis by (auto simp: mem)
    qed
  qed simp
  then show ?thesis by (induction xs) (simp_all add: order_by_def)
qed

lemma served_before_linear:
  "served_before i j \<or> served_before j i" "served_before i j \<Longrightarrow> served_before j k \<Longrightarrow> served_before i k"
  by (auto simp: served_before_def Let_def)

text \<open>
  \<open>pending\<close> serves the newest cutoff first and, within a cutoff, the oldest item first: the
  result is ordered by descending cutoff text, then ascending creation text, then id; no item left
  out comes before one returned; a limit of at least the number of items (at most 1000) returns
  them all, and even a limit of zero or less returns one item if there is any. For cutoffs in
  different seconds this is the order of the instants.
\<close>
theorem pending_serves_newest_cutoff:
  "sorted_wrt served_before (pending limit db)
   \<and> set (pending limit db) \<subseteq> set (db_items db)
   \<and> (\<forall>i \<in> set (pending limit db). \<forall>j \<in> set (db_items db). j \<in> set (pending limit db) \<or> served_before i j)
   \<and> length (pending limit db) = min (nat (max 1 (min limit 1000))) (length (db_items db))
   \<and> (\<forall>i \<in> set (db_items db). \<forall>j \<in> set (db_items db). in_calendar (oi_cutoff i) \<and> in_calendar (oi_cutoff j)
        \<and> second_of (oi_cutoff j) < second_of (oi_cutoff i) \<longrightarrow> served_before i j \<and> \<not> served_before j i)"
proof -
  let ?all = "order_by served_before (db_items db)" and ?n = "bounded_limit limit"
  have sorted: "sorted_wrt served_before ?all"
    by (rule sorted_order_by) (use served_before_linear in blast)+
  then have "sorted_wrt served_before (take ?n ?all @ drop ?n ?all)" by simp
  then have parts: "sorted_wrt served_before (take ?n ?all)"
    "\<forall>i \<in> set (take ?n ?all). \<forall>j \<in> set (drop ?n ?all). served_before i j"
    unfolding sorted_wrt_append by blast+
  have set: "set (take ?n ?all) \<union> set (drop ?n ?all) = set (db_items db)"
    by (metis append_take_drop_id set_append set_order_by)
  have "served_before i j \<and> \<not> served_before j i"
    if "in_calendar (oi_cutoff i)" "in_calendar (oi_cutoff j)" "second_of (oi_cutoff j) < second_of (oi_cutoff i)" for i j
  proof -
    have "iso (oi_cutoff j) < iso (oi_cutoff i)" using that by (simp add: iso_less_iff iso_before_def)
    then show ?thesis by (auto simp: served_before_def Let_def)
  qed
  then show ?thesis
    using parts set by (auto simp: pending_def bounded_limit_def min.commute)
qed

text \<open>The size of the queue.\<close>

fun footprint_known :: "outbox_config \<Rightarrow> outbox_op \<Rightarrow> bool" where
  "footprint_known cfg (Enqueue rq clock (before, after, at_commit)) \<longleftrightarrow> oc_baseline cfg \<le> before"
| "footprint_known cfg _ \<longleftrightarrow> True"

lemma filter_bytes: "(\<Sum>i\<leftarrow>filter p items. int (length (oi_payload i))) \<le> (\<Sum>i\<leftarrow>items. int (length (oi_payload i)))"
  by (induction items) auto

lemma total_bytes_cores:
  assumes "map item_core (db_items db') = map item_core (filter p (db_items db))"
  shows "total_bytes db' \<le> total_bytes db"
proof -
  have "map (\<lambda>i. int (length (oi_payload i))) (db_items db') = map (\<lambda>i. int (length (oi_payload i))) (filter p (db_items db))"
    by (rule cores_map [OF assms]) simp
  then show ?thesis using filter_bytes by (simp add: total_bytes_def)
qed

lemma total_bytes_same: "db_items db' = db_items db \<Longrightarrow> total_bytes db' \<le> total_bytes db"
  by (simp add: total_bytes_def)

lemma apply_op_bytes:
  assumes "footprint_known cfg op" and "0 \<le> oc_page_size cfg"
  shows "total_bytes (apply_op cfg w op db) \<le> max (total_bytes db) (oc_max_bytes cfg - oc_headroom cfg)"
proof (cases op)
  case (Enqueue rq clock fps)
  obtain before after at_commit where f: "fps = (before, after, at_commit)" by (cases fps)
  show ?thesis
  proof (cases "snd (enqueue cfg w rq clock (before, after, at_commit) db) = db")
    case False
    show ?thesis
      unfolding Enqueue f apply_op.simps
      by (rule enqueue_state [OF refl False])
        (use assms Enqueue f in \<open>simp add: insert_item_def Let_def total_bytes_def\<close>)
  qed (simp add: Enqueue f)
next
  case (MarkAttempt i r fp)
  show ?thesis using total_bytes_cores [OF mark_attempt_cores(1) [of cfg i r fp db]] by (simp add: MarkAttempt)
next
  case (Acknowledge i c fp)
  have "total_bytes (snd (acknowledge cfg i c fp db)) \<le> total_bytes db"
    using acknowledge_items(1) [of cfg i c fp db] filter_bytes by (auto simp: total_bytes_def)
  then show ?thesis by (simp add: Acknowledge)
next
  case (PruneObsolete t fp)
  have "total_bytes (snd (prune_obsolete cfg t fp db)) \<le> total_bytes db"
    using prune_items(1) [of cfg t fp db] filter_bytes by (auto simp: total_bytes_def)
  then show ?thesis by (simp add: PruneObsolete)
qed (simp_all add: total_bytes_def lease_ops_items)

text \<open>
  The queue is bounded: with the limits the constructor accepts, and as long as SQLite never
  reports an allocation below the baseline taken at start, the stored payloads never exceed the
  configured maximum less the operational headroom, whatever is enqueued.
\<close>
theorem outbox_bytes_bounded:
  assumes "mk_outbox max_bytes max_item_bytes retention_days baseline page_size = Inr cfg" and "0 \<le> page_size"
    and "\<forall>op \<in> set ops. footprint_known cfg op"
  shows "total_bytes (run_ops cfg w ops empty_outbox) \<le> max 0 (max_bytes - oc_headroom cfg)"
proof -
  have c: "oc_max_bytes cfg = max_bytes" "0 \<le> oc_page_size cfg"
    using assms(1,2) by (auto simp: mk_outbox_def split: if_splits)
  have "total_bytes (fold (apply_op cfg w) ops db) \<le> max (total_bytes db) (max_bytes - oc_headroom cfg)" for db
    using assms(3)
  proof (induction ops arbitrary: db)
    case (Cons op ops)
    then have "total_bytes (fold (apply_op cfg w) ops (apply_op cfg w op db))
        \<le> max (total_bytes (apply_op cfg w op db)) (max_bytes - oc_headroom cfg)" by simp
    moreover have "total_bytes (apply_op cfg w op db) \<le> max (total_bytes db) (max_bytes - oc_headroom cfg)"
      using apply_op_bytes [of cfg op w db] Cons.prems c by simp
    ultimately show ?case by simp
  qed simp
  from this [of empty_outbox] show ?thesis by (simp add: run_ops_def total_bytes_def empty_outbox_def)
qed

section \<open>Envelopes are accepted\<close>

text \<open>Reading back what was compressed gives the document, with the keys of its objects in the
  order of the text.\<close>

definition reads_back :: "wire \<Rightarrow> json \<Rightarrow> bool" where
  "reads_back w d \<longleftrightarrow> (length (canonical_json d) \<le> MAX_ENVELOPE_BYTES
     \<longrightarrow> read_document w (gzip w (canonical_json d)) = Some (sort_json d))"

lemma payload_checksum_sort: "payload_checksum w (sort_json v) = payload_checksum w v"
  by (simp add: payload_checksum_def canonical_json_def json_dumps_sort_json)

lemma json_keys_sort: "json_keys (sort_json v) = json_keys v"
  by (cases v) (auto simp: json_keys_def image_image)

lemma is_mapping_sort: "is_mapping (sort_json v) = is_mapping v"
  by (cases v) simp_all

lemma has_key_get: "has_key (sort_json (JObj kvs)) k \<longleftrightarrow> k \<in> fst ` set kvs"
  by (auto simp: has_key_def map_of_eq_None_iff image_image)

lemma post_init_ok:
  assumes "post_init w e0 = Inr e"
  shows "en_checksum e = payload_checksum w (en_payload e)" "strip (en_client_observation_id e) \<noteq> []"
    "en_manifest_id e = Some m \<Longrightarrow> strip m \<noteq> []"
  using assms by (auto simp: post_init_def result_simps split: option.splits)

lemma wire_lookup:
  assumes "distinct (map fst (wire_fields e @ rest))"
  shows "get_key (sort_json (JObj (wire_fields e @ rest))) ''payload'' = sort_json (en_payload e)"
    "get_key (sort_json (JObj (wire_fields e @ rest))) ''client_observation_id'' = JStr (en_client_observation_id e)"
    "get_key (sort_json (JObj (wire_fields e @ rest))) ''checksum'' = JStr (en_checksum e)"
    "get_key (sort_json (JObj (wire_fields e @ rest))) ''manifest_id'' = opt_str (en_manifest_id e)"
  unfolding get_key_sort_json [OF assms] by (simp_all add: wire_fields_def opt_str_def split: option.split)

lemma validate_wire_fields:
  assumes read: "read_document w bytes = Some (sort_json (JObj (wire_fields e @ rest)))"
    and d: "distinct (map fst (wire_fields e @ rest))"
    and payload: "is_mapping (en_payload e)" and checksum: "en_checksum e = payload_checksum w (en_payload e)"
    and id: "strip (en_client_observation_id e) \<noteq> []"
    and req: "set (required_fields kind) \<subseteq> fst ` set (wire_fields e @ rest)"
    and allowed: "fst ` set (wire_fields e @ rest) \<subseteq> set (allowed_fields kind)"
    and manifest: "if kind = ''observation'' then nonblank_str (opt_str (en_manifest_id e)) else en_manifest_id e = None"
    and expires: "kind = ''catalog'' \<and> ''expires_at'' \<in> fst ` set (wire_fields e @ rest) \<Longrightarrow>
       \<exists>t. fromisoformat w (replace_z (py_str (get_key (sort_json (JObj (wire_fields e @ rest))) ''expires_at''))) = Aware t"
  shows "validate_wire_payload w bytes kind (en_checksum e) = Inr ()"
proof -
  let ?d = "sort_json (JObj (wire_fields e @ rest))"
  have keys: "json_keys ?d = fst ` set (wire_fields e @ rest)" unfolding json_keys_sort by (simp add: json_keys_def)
  have e: "\<not> (kind = ''catalog'' \<and> has_key ?d ''expires_at''
      \<and> (case fromisoformat w (replace_z (py_str (get_key ?d ''expires_at''))) of Aware _ \<Rightarrow> False | _ \<Rightarrow> True))"
  proof (rule notI, elim conjE)
    assume "kind = ''catalog''" and "has_key ?d ''expires_at''"
      and bad: "case fromisoformat w (replace_z (py_str (get_key ?d ''expires_at''))) of Aware _ \<Rightarrow> False | _ \<Rightarrow> True"
    then have "kind = ''catalog'' \<and> ''expires_at'' \<in> fst ` set (wire_fields e @ rest)" unfolding has_key_get by blast
    from expires [OF this] obtain t where "fromisoformat w (replace_z (py_str (get_key ?d ''expires_at''))) = Aware t" by blast
    with bad show False by (simp only: parsed_time.case)
  qed
  have m: "is_mapping ?d" unfolding is_mapping_sort by simp
  have c: "JStr (en_checksum e) = JStr (payload_checksum w (sort_json (en_payload e)))"
    using checksum by (simp only: payload_checksum_sort)
  have "nonblank_str (opt_str (en_manifest_id e))" if "kind = ''observation''" using manifest that by simp
  moreover have "opt_str (en_manifest_id e) = JNull" if "kind \<noteq> ''observation''"
    using manifest that by (simp add: opt_str_def)
  moreover have "nonblank_str (JStr (en_client_observation_id e))" using id by (simp add: nonblank_str_def)
  moreover have "is_mapping (sort_json (en_payload e))" using payload by (simp only: is_mapping_sort)
  ultimately show ?thesis
    unfolding validate_wire_payload_def read option.case keys wire_lookup [OF d]
    using e m c req allowed by (simp only: if_False simp_thms cong: if_cong) (simp only: if_False simp_thms split: if_split, blast)
qed

text \<open>
  What an envelope puts on the wire, the outbox accepts: for an observation envelope with a
  manifest id that passed its own checks, the compressed document is recognised as an envelope
  whose checksum matches, whatever its payload; the checksum survives the canonical reordering
  of the payload's keys. The same holds for a catalog envelope, which has no manifest id.
\<close>
theorem envelope_accepted:
  assumes "post_init w e0 = Inr e" and "is_mapping (en_payload e)"
  shows "(compressed_wire w e = Inr bytes \<and> reads_back w (wire_dict e) \<and> en_manifest_id e = Some m
            \<longrightarrow> validate_wire_payload w bytes ''observation'' (en_checksum e) = Inr ())
     \<and> (check_catalog w c = Inr () \<and> ce_envelope c = e \<and> catalog_compressed_wire w c = Inr bytes
          \<and> reads_back w (catalog_wire_dict c)
            \<longrightarrow> validate_wire_payload w bytes ''catalog'' (en_checksum e) = Inr ())"
proof (intro conjI impI)
  note ok = post_init_ok [OF assms(1)]
  have read: "read_document w bytes = Some (sort_json d)" if "compress_wire w d = Inr bytes" "reads_back w d" for d
    using that by (auto simp: compress_wire_def reads_back_def Let_def split: if_splits)
  {
    assume a: "compressed_wire w e = Inr bytes \<and> reads_back w (wire_dict e) \<and> en_manifest_id e = Some m"
    have "read_document w bytes = Some (sort_json (JObj (wire_fields e @ [])))"
      using a read [of "JObj (wire_fields e @ [])"] by (simp add: compressed_wire_def wire_dict_def del: sort_json.simps)
    then show "validate_wire_payload w bytes ''observation'' (en_checksum e) = Inr ()"
      by (rule validate_wire_fields) (use a ok assms(2) in \<open>auto simp: wire_fields_def required_fields_def
        allowed_fields_def REQUIRED_FIELDS_def nonblank_str_def opt_str_def\<close>)
  }
  {
    assume a: "check_catalog w c = Inr () \<and> ce_envelope c = e \<and> catalog_compressed_wire w c = Inr bytes
      \<and> reads_back w (catalog_wire_dict c)"
    define rest where "rest = (''catalog_version'', JStr (ce_catalog_version c))
       # (case ce_expires_at c of None \<Rightarrow> [] | Some t \<Rightarrow> [(''expires_at'', JStr t)])"
    have d: "distinct (map fst (wire_fields e @ rest))" by (simp add: rest_def wire_fields_def split: option.split)
    have r: "read_document w bytes = Some (sort_json (JObj (wire_fields e @ rest)))"
    proof (rule read)
      show "compress_wire w (JObj (wire_fields e @ rest)) = Inr bytes" "reads_back w (JObj (wire_fields e @ rest))"
        using a by (auto simp: catalog_compressed_wire_def catalog_wire_dict_def rest_def)
    qed
    have n: "en_manifest_id e = None" using a by (auto simp: check_catalog_def result_simps)
    have x: "\<exists>u. fromisoformat w (replace_z t) = Aware u" if "ce_expires_at c = Some t" for t
      using a that by (auto simp: check_catalog_def result_simps utc_iso_def split: parsed_time.splits)
    have l: "get_key (sort_json (JObj (wire_fields e @ rest))) ''expires_at'' = JStr t" if "ce_expires_at c = Some t" for t
      unfolding get_key_sort_json [OF d] by (simp add: rest_def that wire_fields_def)
    show "validate_wire_payload w bytes ''catalog'' (en_checksum e) = Inr ()"
    proof (rule validate_wire_fields [OF r d assms(2) ok(1,2)])
      assume "''catalog'' = ''catalog'' \<and> ''expires_at'' \<in> fst ` set (wire_fields e @ rest)"
      then obtain t where "ce_expires_at c = Some t"
        by (cases "ce_expires_at c") (auto simp: wire_fields_def rest_def)
      with x l show "\<exists>t. fromisoformat w (replace_z (py_str (get_key (sort_json (JObj (wire_fields e @ rest))) ''expires_at''))) = Aware t"
        by (simp add: py_str_def del: sort_json.simps)
    qed (use n in \<open>auto simp: wire_fields_def rest_def required_fields_def allowed_fields_def REQUIRED_FIELDS_def split: option.splits\<close>)
  }
qed

section \<open>A sample outbox\<close>

text \<open>A digest that is a length, a compressor that forgets, and a reader that knows one document.\<close>

definition demo_envelope :: ObservationEnvelope where
  "demo_envelope = \<lparr>en_manifest_id = Some ''m1'', en_client_observation_id = ''rc-1'', en_environment = ''prod'',
     en_collector_id = ''c1'', en_provider = ''nba'', en_observation_type = ''rosters'', en_scope = JStr ''league'',
     en_season = ''2026-27'', en_cutoff = ''2026-10-20T00:00:00Z'', en_retrieved_at = ''2026-10-20T00:00:00Z'',
     en_schema_version = 2, en_payload = JObj [(''b'', JInt 2), (''a'', JInt 1)], en_provenance = JObj [],
     en_checksum = []\<rparr>"

definition demo_sent :: ObservationEnvelope where
  "demo_sent = demo_envelope\<lparr>en_checksum := ''13''\<rparr>"

definition demo_wire :: wire where
  "demo_wire = \<lparr>sha256_hex = (\<lambda>bytes. show_nat (length bytes)), gzip = (\<lambda>bytes. [31, 139]),
     read_document = (\<lambda>bytes. Some (sort_json (wire_dict demo_sent))), fromisoformat = (\<lambda>_. Aware 500000)\<rparr>"

lemma demo_post_init: "post_init demo_wire demo_envelope = Inr demo_sent"
proof -
  have "char_of (49 :: nat) = CHR ''1''" "char_of (51 :: nat) = CHR ''3''" by code_simp+
  then have "payload_checksum demo_wire (JObj [(''b'', JInt 2), (''a'', JInt 1)]) = ''13''"
    by (simp add: payload_checksum_def demo_wire_def canonical_json_def utf8_def json_str_def json_char_def
        show_int_def show_nat.simps digit_char_def join_def Let_def)
  moreover have "check_payload (JObj [(''b'', JInt 2), (''a'', JInt 1)]) = Inr ()" "check_payload (JObj []) = Inr ()"
    by (simp_all add: check_payload_def validate_payload.simps MAX_PAYLOAD_DEPTH_def MAX_PAYLOAD_VALUES_def
        strip_def is_space_def)
  ultimately show ?thesis
    by (simp add: post_init_def demo_envelope_def demo_sent_def strip_def is_space_def ACCEPTED_ENVELOPE_VERSIONS_def
        utc_iso_def) (simp add: demo_wire_def)
qed

lemma demo_compressed: "compressed_wire demo_wire demo_sent = Inr [31, 139]"
proof -
  have "length (canonical_json (wire_dict demo_sent)) \<le> MAX_ENVELOPE_BYTES"
    by (simp add: canonical_json_def wire_dict_def wire_fields_def demo_sent_def demo_envelope_def opt_str_def utf8_def
        json_str_def json_char_def show_int_def show_nat.simps digit_char_def join_def Let_def MAX_ENVELOPE_BYTES_def)
  then show ?thesis by (simp add: compressed_wire_def compress_wire_def demo_wire_def MAX_COMPRESSED_BYTES_def Let_def)
qed

theorem envelope_accepted_witness:
  "validate_wire_payload demo_wire [31, 139] ''observation'' ''13'' = Inr ()"
proof -
  have "reads_back demo_wire (wire_dict demo_sent)" by (simp add: reads_back_def demo_wire_def)
  with envelope_accepted [OF demo_post_init, of "[31, 139]" "''m1''"] demo_compressed
  have "validate_wire_payload demo_wire [31, 139] ''observation'' (en_checksum demo_sent) = Inr ()"
    by (simp add: demo_sent_def demo_envelope_def)
  then show ?thesis by (simp add: demo_sent_def)
qed

definition demo_config :: outbox_config where
  "demo_config = \<lparr>oc_max_bytes = 1000000, oc_max_item_bytes = 1000, oc_retention = 30 * (86400 * 1000000), oc_baseline = 8192,
     oc_headroom = 125000, oc_page_size = 4096\<rparr>"

definition demo_request :: request where
  "demo_request = \<lparr>rq_kind = ''observation'', rq_client_observation_id = ''rc-1'', rq_checksum = ''13'',
     rq_cutoff = ''2026-10-20T00:00:00Z'', rq_payload = [31, 139], rq_metadata = JObj [], rq_request_id = None\<rparr>"

definition demo_item :: OutboxItem where
  "demo_item = \<lparr>oi_item_id = 1, oi_kind = ''observation'', oi_client_observation_id = ''rc-1'', oi_checksum = ''13'',
     oi_cutoff = 500000, oi_created_at = 77, oi_payload = [31, 139], oi_metadata = ''{}'', oi_attempts = 0,
     oi_last_error = None, oi_request_id = None\<rparr>"

definition demo_outbox :: outbox_db where
  "demo_outbox = \<lparr>db_items = [demo_item], db_last_id = 1, db_lease = None\<rparr>"

lemma demo_validated: "validate_wire_payload demo_wire [31, 139] ''observation'' ''13'' = Inr ()"
proof -
  have "read_document demo_wire [31, 139] = Some (sort_json (JObj (wire_fields demo_sent @ [])))"
    by (simp add: demo_wire_def wire_dict_def)
  then have "validate_wire_payload demo_wire [31, 139] ''observation'' (en_checksum demo_sent) = Inr ()"
    by (rule validate_wire_fields)
      (use post_init_ok(1) [OF demo_post_init] in \<open>auto simp: demo_sent_def demo_envelope_def wire_fields_def
        required_fields_def allowed_fields_def REQUIRED_FIELDS_def nonblank_str_def opt_str_def strip_def is_space_def\<close>)
  then show ?thesis by (simp add: demo_sent_def)
qed

lemma demo_enqueue:
  "enqueue demo_config demo_wire demo_request 77 (8192, 16384, 16384) empty_outbox = (Inr demo_item, demo_outbox)"
proof -
  have "safe_metadata (JObj []) = Inr (JObj [])" by (simp add: safe_metadata.simps)
  moreover have "fromisoformat demo_wire s = Aware 500000" for s by (simp add: demo_wire_def)
  ultimately show ?thesis
    by (simp add: enqueue_def demo_request_def demo_config_def demo_validated canonical_json_def utf8_def join_def
        MAX_METADATA_BYTES_def in_transaction_def enqueue_body_def empty_outbox_def insert_item_def Let_def
        total_bytes_def demo_item_def demo_outbox_def)
qed

lemma demo_calendar: "in_calendar 500000" "in_calendar 0" "in_calendar (-1000000)"
  by (simp_all add: in_calendar_def second_of_def EPOCH_ORDINAL_def)

lemma demo_obsolete: "\<not> obsolete (-1000000) demo_item"
  by (simp add: obsolete_def demo_item_def iso_less_iff demo_calendar iso_before_def second_of_def)

theorem accepted_work_is_retained_witness:
  "holds_item (run_ops demo_config demo_wire
     [MarkAttempt 1 (Some ''retry'') 16384, Acknowledge 1 ''99'' 16384, PruneObsolete (-1000000) 16384] demo_outbox) demo_item"
proof -
  have "\<forall>op \<in> set [MarkAttempt 1 (Some ''retry'') 16384, Acknowledge 1 ''99'' 16384, PruneObsolete (-1000000) 16384].
      \<not> drops op demo_item"
    using demo_obsolete by (simp add: demo_item_def)
  moreover have "enqueue demo_config demo_wire demo_request 77 (8192, 16384, 16384)
      (run_ops demo_config demo_wire [] empty_outbox) = (Inr demo_item, demo_outbox)"
    by (simp add: run_ops_def demo_enqueue)
  ultimately show ?thesis using accepted_work_is_retained by blast
qed


theorem process_lease_exclusive_witness:
  "db_lease (run_ops demo_config demo_wire
       [AcquireLease (Some ''b'') ''t'' 60 150 8192, RenewLease ''b'' 60 160 8192, ReleaseLease ''b'' 8192]
       (demo_outbox\<lparr>db_lease := Some (Lease ''a'' 200)\<rparr>)) = Some (Lease ''a'' 200)"
  using process_lease_exclusive [of "demo_outbox\<lparr>db_lease := Some (Lease ''a'' 200)\<rparr>" "''a''" 200
    "[AcquireLease (Some ''b'') ''t'' 60 150 8192, RenewLease ''b'' 60 160 8192, ReleaseLease ''b'' 8192]"]
  by simp

theorem pending_serves_newest_cutoff_witness:
  "pending 0 demo_outbox = [demo_item]"
proof -
  have "length (pending 0 demo_outbox) = 1" "set (pending 0 demo_outbox) \<subseteq> {demo_item}"
    using pending_serves_newest_cutoff [of 0 demo_outbox] by (simp_all add: demo_outbox_def)
  then show ?thesis by (auto simp: length_Suc_conv)
qed

theorem outbox_bytes_bounded_witness:
  "total_bytes (run_ops demo_config demo_wire [Enqueue demo_request 77 (8192, 16384, 16384)] empty_outbox) \<le> 875000"
proof -
  have "mk_outbox 1000000 1000 30 8192 4096 = Inr demo_config" by (simp add: mk_outbox_def demo_config_def)
  from outbox_bytes_bounded [OF this, of "[Enqueue demo_request 77 (8192, 16384, 16384)]" demo_wire]
  show ?thesis by (simp add: demo_config_def)
qed

end
