(* ===== verification/Drain.thy ===== *)
theory Drain
  imports Outbox
begin

text \<open>
  How the residential collector empties its outbox (\<open>src/app/collector/runner.py\<close>: \<open>_drain\<close> and what
  it calls; \<open>src/app/collector/client.py\<close>: how an answer of the server is read).

  The world outside is the record \<open>world_ops\<close>: the transport, the exchange of the secret for a
  token, the clock, the wait, SQLite's allocation and the reader of stored metadata, acting on a
  state of any type. An exception that the code catches somewhere is a value; the diagnostics that
  \<open>_drain\<close> records (\<open>SafeStatus\<close>, a log in memory) are left out. The locale \<open>delivery_world\<close> states
  what a server promises, and the theorem about the drain is proved from that alone.
\<close>

section \<open>Answers\<close>

record http_response =
  hp_status :: int
  hp_body :: "json option"
  hp_retry_after :: "int option"

record http_error =
  he_reason :: string
  he_status :: "int option"
  he_retry_after :: "int option"
  he_retryable :: bool

record CollectorToken =
  ct_token :: string
  ct_expires_at :: instant

datatype run_exn = HttpError http_error | BoxError outbox_error | RunValueError

abbreviation http_failure :: "string \<Rightarrow> int option \<Rightarrow> http_error" where
  "http_failure reason status \<equiv> \<lparr>he_reason = reason, he_status = status, he_retry_after = None, he_retryable = False\<rparr>"

definition alphanumeric :: "char \<Rightarrow> bool" where
  "alphanumeric c \<longleftrightarrow> (let n = of_char c :: nat in
     48 \<le> n \<and> n \<le> 57 \<or> 65 \<le> n \<and> n \<le> 90 \<or> 97 \<le> n \<and> n \<le> 122 \<or> n \<in> {170, 178, 179, 181, 185, 186, 188, 189, 190}
     \<or> 192 \<le> n \<and> n \<noteq> 215 \<and> n \<noteq> 247)"

text \<open>\<open>HTTPResponse.json\<close>: a body that is no JSON text raises; an empty one reads as an empty object.\<close>

definition response_json :: "http_response \<Rightarrow> http_error + json" where
  "response_json r = of_option (http_failure ''malformed_control_response'' (Some (hp_status r))) (hp_body r)"

definition retry_after :: "http_response \<Rightarrow> int option" where
  "retry_after r = map_option (\<lambda>v. max 1 (min v (6 * 60 * 60))) (hp_retry_after r)"

definition reason_of :: "http_response \<Rightarrow> string \<Rightarrow> string" where
  "reason_of r fallback =
     (case response_json r of
        Inl _ \<Rightarrow> fallback
      | Inr document \<Rightarrow>
          (if is_mapping document then
             let nested = get_key document ''error'';
                 code = (if is_mapping nested then get_key nested ''code'' else get_key document ''code'')
             in case code of
                  JStr s \<Rightarrow> (let letters = filter (\<lambda>c. c \<noteq> CHR ''_'') s
                             in if letters \<noteq> [] \<and> list_all alphanumeric letters then take 80 s else fallback)
                | _ \<Rightarrow> fallback
           else fallback))"

text \<open>\<open>RailwayClient._request\<close>, once an answer is there.\<close>

definition request_outcome :: "http_response \<Rightarrow> http_error + http_response" where
  "request_outcome r =
     (let status = hp_status r
      in if 200 \<le> status \<and> status < 300 then Inr r
         else if status = 401 then Inl (http_failure (reason_of r ''invalid_token'') (Some 401))
         else if status = 403 then Inl (http_failure (reason_of r ''forbidden'') (Some 403))
         else if status = 404 then Inl (http_failure (reason_of r ''not_found'') (Some 404))
         else if status = 409 then Inl (http_failure (reason_of r ''operation_conflict'') (Some 409))
         else if status \<in> {408, 425, 429} \<or> 500 \<le> status
         then Inl \<lparr>he_reason = reason_of r ''railway_unavailable'', he_status = Some status,
                he_retry_after = Some (case retry_after r of None \<Rightarrow> 30 | Some v \<Rightarrow> if v = 0 then 30 else v), he_retryable = True\<rparr>
         else Inl (http_failure (reason_of r ''control_rejected'') (Some status)))"

section \<open>Uploading one item\<close>

text \<open>\<open>wo_send token request_id body\<close> posts to the route of observations (no request) or to the route of
  the request's catalog; \<open>wo_exchange\<close> is \<open>_token\<close>.\<close>

record 's world_ops =
  wo_send :: "CollectorToken \<Rightarrow> string option \<Rightarrow> nat list \<Rightarrow> 's \<Rightarrow> (http_error + http_response) \<times> 's"
  wo_exchange :: "'s \<Rightarrow> (run_exn + CollectorToken) \<times> 's"
  wo_now :: "'s \<Rightarrow> instant \<times> 's"
  wo_sleep :: "int \<Rightarrow> 's \<Rightarrow> 's"
  wo_footprint :: "'s \<Rightarrow> int"
  wo_metadata :: "string \<Rightarrow> json"

definition read_receipt :: "http_error + http_response \<Rightarrow> run_exn + json" where
  "read_receipt answer =
     (case and_then answer (\<lambda>r. and_then (request_outcome r) (\<lambda>r. and_then (response_json r) (\<lambda>document.
         and_then (ensure (is_mapping document) (http_failure ''malformed_receipt'' None)) (\<lambda>_. Inr document)))) of
        Inl e \<Rightarrow> Inl (HttpError e)
      | Inr document \<Rightarrow> Inr document)"

definition post :: "'s world_ops \<Rightarrow> CollectorToken \<Rightarrow> string option \<Rightarrow> nat list \<Rightarrow> 's \<Rightarrow> (run_exn + json) \<times> 's" where
  "post W token request_id body s =
     (if ct_token token = [] then (Inl (HttpError (http_failure ''token_expired'' (Some 401))), s)
      else case wo_send W token request_id body s of (answer, s') \<Rightarrow> (read_receipt answer, s'))"

text \<open>\<open>str(item.metadata.get(key) or "")\<close>.\<close>

definition metadata_text :: "'s world_ops \<Rightarrow> OutboxItem \<Rightarrow> string \<Rightarrow> string" where
  "metadata_text W item key = py_str (py_or (get_key (wo_metadata W (oi_metadata item)) key) (JStr []))"

definition upload_target :: "'s world_ops \<Rightarrow> OutboxItem \<Rightarrow> string option" where
  "upload_target W item =
     (if oi_kind item = ''catalog''
      then Some (case oi_request_id item of None \<Rightarrow> metadata_text W item ''request_id''
        | Some r \<Rightarrow> if r = [] then metadata_text W item ''request_id'' else r)
      else None)"

definition upload :: "'s world_ops \<Rightarrow> CollectorToken \<Rightarrow> OutboxItem \<Rightarrow> 's \<Rightarrow> (run_exn + json) \<times> 's" where
  "upload W token item s =
     (case upload_target W item of
        Some r \<Rightarrow> (if strip r = [] then (Inl RunValueError, s) else post W token (Some r) (oi_payload item) s)
      | None \<Rightarrow> post W token None (oi_payload item) s)"

definition fresh_token :: "'s world_ops \<Rightarrow> CollectorToken option \<Rightarrow> 's \<Rightarrow> (run_exn + CollectorToken) \<times> 's" where
  "fresh_token W token s =
     (case token of
        None \<Rightarrow> wo_exchange W s
      | Some t \<Rightarrow> (case wo_now W s of (now, s1) \<Rightarrow> if ct_expires_at t \<le> now + 30 * 1000000 then wo_exchange W s1 else (Inr t, s1)))"

definition BUSY_RETRY_LIMIT :: nat where "BUSY_RETRY_LIMIT = 10"

text \<open>The wait for a busy server: the number counts the retries left.\<close>

fun upload_when_free ::
  "'s world_ops \<Rightarrow> OutboxItem \<Rightarrow> instant option \<Rightarrow> nat \<Rightarrow> CollectorToken \<Rightarrow> 's \<Rightarrow> (run_exn + json \<times> CollectorToken) \<times> 's" where
  "upload_when_free W item deadline retries token s =
     (case upload W token item s of
        (Inr receipt, s1) \<Rightarrow> (Inr (receipt, token), s1)
      | (Inl (HttpError error), s1) \<Rightarrow>
          (if he_status error \<noteq> Some 429 then (Inl (HttpError error), s1)
           else case (he_retry_after error, deadline, retries) of
             (Some delay, Some close, Suc n) \<Rightarrow>
               (case wo_now W s1 of (now, s2) \<Rightarrow>
                  if close \<le> now + delay * 1000000 then (Inl (HttpError error), s2)
                  else case fresh_token W (Some token) (wo_sleep W delay s2) of
                    (Inl e, s3) \<Rightarrow> (Inl e, s3)
                  | (Inr token', s3) \<Rightarrow> upload_when_free W item deadline n token' s3)
           | _ \<Rightarrow> (Inl (HttpError error), s1))
      | (Inl e, s1) \<Rightarrow> (Inl e, s1))"

declare upload_when_free.simps [simp del]

definition receipt_checksum :: "json \<Rightarrow> run_exn + string" where
  "receipt_checksum receipt =
     (case get_key receipt ''checksum'' of
        JStr s \<Rightarrow> if s = [] then Inl (BoxError (OutboxError ''Railway returned no durable receipt checksum'')) else Inr s
      | _ \<Rightarrow> Inl (BoxError (OutboxError ''Railway returned no durable receipt checksum'')))"

section \<open>The drain\<close>

record 's drain_state =
  dn_world :: 's
  dn_box :: outbox_db
  dn_token :: CollectorToken
  dn_uploaded :: nat
  dn_retry :: bool
  dn_failures :: "string list"

text \<open>The receipt's checksum acknowledges the item.\<close>

definition settle :: "'s world_ops \<Rightarrow> outbox_config \<Rightarrow> OutboxItem \<Rightarrow> json \<Rightarrow> 's drain_state \<Rightarrow> (run_exn + unit) \<times> 's drain_state" where
  "settle W cfg item receipt st =
     (case receipt_checksum receipt of
        Inl e \<Rightarrow> (Inl e, st)
      | Inr checksum \<Rightarrow>
          (case acknowledge cfg (oi_item_id item) checksum (wo_footprint W (dn_world st)) (dn_box st) of
             (Inl e, box) \<Rightarrow> (Inl (BoxError e), st\<lparr>dn_box := box\<rparr>)
           | (Inr _, box) \<Rightarrow> (Inr (), st\<lparr>dn_box := box, dn_uploaded := dn_uploaded st + 1\<rparr>)))"

text \<open>The body of the \<open>try\<close>.\<close>

definition deliver ::
  "'s world_ops \<Rightarrow> outbox_config \<Rightarrow> (string \<Rightarrow> instant option) \<Rightarrow> OutboxItem \<Rightarrow> 's drain_state \<Rightarrow> (run_exn + unit) \<times> 's drain_state" where
  "deliver W cfg deadlines item st =
     (case fresh_token W (Some (dn_token st)) (dn_world st) of
        (Inl e, s) \<Rightarrow> (Inl e, st\<lparr>dn_world := s\<rparr>)
      | (Inr token, s) \<Rightarrow>
          (let st1 = st\<lparr>dn_world := s, dn_token := token\<rparr>
           in case mark_attempt cfg (oi_item_id item) None (wo_footprint W s) (dn_box st1) of
             (Inl e, box) \<Rightarrow> (Inl (BoxError e), st1\<lparr>dn_box := box\<rparr>)
           | (Inr _, box) \<Rightarrow>
               (case upload_when_free W item (deadlines (metadata_text W item ''manifest_id'')) BUSY_RETRY_LIMIT token s of
                  (Inl e, s') \<Rightarrow> (Inl e, st1\<lparr>dn_box := box, dn_world := s'\<rparr>)
                | (Inr (receipt, token'), s') \<Rightarrow>
                    settle W cfg item receipt (st1\<lparr>dn_box := box, dn_world := s', dn_token := token'\<rparr>))))"

text \<open>The \<open>try\<close> inside the handler, entered when the token is reported as expired.\<close>

definition deliver_again ::
  "'s world_ops \<Rightarrow> outbox_config \<Rightarrow> OutboxItem \<Rightarrow> 's drain_state \<Rightarrow> (run_exn + unit) \<times> 's drain_state" where
  "deliver_again W cfg item st =
     (case wo_exchange W (dn_world st) of
        (Inl e, s) \<Rightarrow> (Inl e, st\<lparr>dn_world := s\<rparr>)
      | (Inr token, s) \<Rightarrow>
          (case upload W token item s of
             (Inl e, s') \<Rightarrow> (Inl e, st\<lparr>dn_world := s', dn_token := token\<rparr>)
           | (Inr receipt, s') \<Rightarrow> settle W cfg item receipt (st\<lparr>dn_world := s', dn_token := token\<rparr>)))"

definition record_failure :: "http_error \<Rightarrow> 's drain_state \<Rightarrow> 's drain_state" where
  "record_failure error st =
     st\<lparr>dn_failures := dn_failures st @ [safe_code (he_reason error) ''railway_unavailable''],
        dn_retry := dn_retry st \<or> he_retryable error\<rparr>"

text \<open>\<open>except OutboxError\<close>: the class and its subclasses.\<close>

definition is_outbox_error :: "outbox_error \<Rightarrow> bool" where
  "is_outbox_error e = (case e of OutboxError _ \<Rightarrow> True | OutboxBusy \<Rightarrow> True | OutboxFull \<Rightarrow> True | OutboxRetentionError \<Rightarrow> True
     | BadValue \<Rightarrow> False | Contract _ \<Rightarrow> False)"

text \<open>One pass of the loop; what is left of the sum leaves the loop as an exception. An \<open>OutboxError\<close> of the
  handler's own \<open>try\<close> has no handler.\<close>

definition drain_item ::
  "'s world_ops \<Rightarrow> outbox_config \<Rightarrow> (string \<Rightarrow> instant option) \<Rightarrow> int list \<Rightarrow> OutboxItem \<Rightarrow> 's drain_state
     \<Rightarrow> (run_exn + unit) \<times> 's drain_state" where
  "drain_item W cfg deadlines aged_ids item st =
     (if oi_item_id item \<in> set aged_ids then (Inr (), st\<lparr>dn_failures := dn_failures st @ [''outbox_retention'']\<rparr>)
      else case deliver W cfg deadlines item st of
        (Inr _, st') \<Rightarrow> (Inr (), st')
      | (Inl (HttpError error), st') \<Rightarrow>
          (if he_reason error = ''token_expired'' then
             (case deliver_again W cfg item st' of
                (Inr _, st2) \<Rightarrow> (Inr (), st2)
              | (Inl (HttpError refreshed), st2) \<Rightarrow> (Inr (), record_failure refreshed st2)
              | (Inl e, st2) \<Rightarrow> (Inl e, st2))
           else (Inr (), record_failure error st'))
      | (Inl (BoxError e), st') \<Rightarrow>
          (if is_outbox_error e then (Inr (), st'\<lparr>dn_failures := dn_failures st' @ [''outbox_receipt_invalid'']\<rparr>)
           else (Inl (BoxError e), st'))
      | (Inl RunValueError, st') \<Rightarrow> (Inl RunValueError, st'))"

fun drain_items ::
  "'s world_ops \<Rightarrow> outbox_config \<Rightarrow> (string \<Rightarrow> instant option) \<Rightarrow> int list \<Rightarrow> OutboxItem list \<Rightarrow> 's drain_state
     \<Rightarrow> (run_exn + unit) \<times> 's drain_state" where
  "drain_items W cfg deadlines aged_ids [] st = (Inr (), st)"
| "drain_items W cfg deadlines aged_ids (item # items) st =
     (case drain_item W cfg deadlines aged_ids item st of
        (Inl e, st') \<Rightarrow> (Inl e, st')
      | (Inr _, st') \<Rightarrow> drain_items W cfg deadlines aged_ids items st')"

definition drain ::
  "'s world_ops \<Rightarrow> outbox_config \<Rightarrow> (string \<Rightarrow> instant option) \<Rightarrow> CollectorToken \<Rightarrow> outbox_db \<Rightarrow> 's
     \<Rightarrow> (run_exn + unit) \<times> 's drain_state" where
  "drain W cfg deadlines token box s =
     (case wo_now W s of (now, s1) \<Rightarrow>
        drain_items W cfg deadlines (map oi_item_id (aged_pending cfg now 1000 box)) (pending 1000 box)
          \<lparr>dn_world = s1, dn_box = box, dn_token = token, dn_uploaded = 0, dn_retry = False, dn_failures = []\<rparr>)"

section \<open>What a server promises\<close>

text \<open>\<open>recorded i s\<close> says that the server durably holds what item \<open>i\<close> carries. A receipt with the
  item's checksum promises it, and no operation of the world takes it back.\<close>

locale delivery_world =
  fixes W :: "'s world_ops" and recorded :: "OutboxItem \<Rightarrow> 's \<Rightarrow> bool"
  assumes recorded_core: "recorded (item_core i) s = recorded i s"
    and send_keeps: "wo_send W token target body s = (answer, s') \<Longrightarrow> recorded i s \<Longrightarrow> recorded i s'"
    and exchange_keeps: "wo_exchange W s = (token_result, s') \<Longrightarrow> recorded i s \<Longrightarrow> recorded i s'"
    and now_keeps: "wo_now W s = (now, s') \<Longrightarrow> recorded i s \<Longrightarrow> recorded i s'"
    and sleep_keeps: "recorded i s \<Longrightarrow> recorded i (wo_sleep W delay s)"
    and receipt_promises: "wo_send W token (upload_target W i) (oi_payload i) s = (answer, s') \<Longrightarrow>
      read_receipt answer = Inr receipt \<Longrightarrow> receipt_checksum receipt = Inr (oi_checksum i) \<Longrightarrow> recorded i s'"
begin

lemma post_keeps: "post W token target body s = (r, s') \<Longrightarrow> recorded i s \<Longrightarrow> recorded i s'"
  by (auto simp: post_def intro: send_keeps split: if_splits prod.splits)

lemma upload_keeps: "upload W token item s = (r, s') \<Longrightarrow> recorded i s \<Longrightarrow> recorded i s'"
  by (auto simp: upload_def intro: post_keeps split: if_splits option.splits)

lemma fresh_keeps: "fresh_token W token s = (r, s') \<Longrightarrow> recorded i s \<Longrightarrow> recorded i s'"
  by (auto simp: fresh_token_def intro: now_keeps exchange_keeps split: if_splits option.splits prod.splits)

lemma upload_promises:
  assumes "upload W token i s = (Inr receipt, s')" and "receipt_checksum receipt = Inr (oi_checksum i)"
  shows "recorded i s'"
proof -
  obtain answer where "wo_send W token (upload_target W i) (oi_payload i) s = (answer, s')" "read_receipt answer = Inr receipt"
    using assms(1) by (auto simp: upload_def post_def split: option.splits if_splits prod.splits)
  then show ?thesis using assms(2) by (rule receipt_promises)
qed

lemma upload_when_free_cases:
  assumes "upload_when_free W item deadline n token s = (r, s')"
  shows "(recorded i s \<longrightarrow> recorded i s')
     \<and> (\<forall>receipt token'. r = Inr (receipt, token') \<longrightarrow> receipt_checksum receipt = Inr (oi_checksum item) \<longrightarrow> recorded item s')"
  using assms
proof (induction n arbitrary: token s)
  case 0
  then show ?case
    by (subst (asm) upload_when_free.simps)
      (auto split: prod.splits sum.splits run_exn.splits if_splits option.splits intro: upload_keeps upload_promises)
next
  case (Suc n)
  obtain answer s1 where u: "upload W token item s = (answer, s1)" by (cases "upload W token item s")
  have k: "recorded i s \<longrightarrow> recorded i s1" using upload_keeps [OF u] by blast
  show ?case
  proof (cases "\<exists>error delay close s2 now token' s3. answer = Inl (HttpError error) \<and> he_status error = Some 429
      \<and> he_retry_after error = Some delay \<and> deadline = Some close \<and> wo_now W s1 = (now, s2) \<and> now + delay * 1000000 < close
      \<and> fresh_token W (Some token) (wo_sleep W delay s2) = (Inr token', s3)")
    case True
    then obtain error delay close s2 now token' s3 where w: "answer = Inl (HttpError error)" "he_status error = Some 429"
      "he_retry_after error = Some delay" "deadline = Some close" "wo_now W s1 = (now, s2)" "now + delay * 1000000 < close"
      "fresh_token W (Some token) (wo_sleep W delay s2) = (Inr token', s3)" by blast
    have k3: "recorded i s1 \<Longrightarrow> recorded i s3"
      using now_keeps [OF w(5)] sleep_keeps fresh_keeps [OF w(7)] by blast
    have "upload_when_free W item deadline n token' s3 = (r, s')"
      using Suc.prems u w by (subst (asm) upload_when_free.simps) simp
    from Suc.IH [OF this] k k3 show ?thesis by blast
  next
    case False
    then have "(recorded i s1 \<longrightarrow> recorded i s') \<and> (r = Inr (receipt, token'') \<longrightarrow> answer = Inr receipt \<and> s' = s1)" for receipt token''
      using Suc.prems unfolding upload_when_free.simps [of W item deadline "Suc n"] u
      by (auto split: prod.splits sum.splits run_exn.splits if_splits option.splits intro: now_keeps dest: fresh_keeps [rotated] sleep_keeps)
        (meson fresh_keeps now_keeps sleep_keeps)
    with k u upload_promises show ?thesis by blast
  qed
qed

text \<open>Every item of the outbox as it was is still there or recorded, and nothing else is there.\<close>

definition covered :: "OutboxItem list \<Rightarrow> 's drain_state \<Rightarrow> bool" where
  "covered items st \<longleftrightarrow> (\<forall>i \<in> set items. holds_item (dn_box st) i \<or> recorded i (dn_world st))
     \<and> (\<forall>r \<in> set (db_items (dn_box st)). item_core r \<in> item_core ` set items)"

lemma covered_world:
  assumes "covered items st" and "\<And>i. recorded i (dn_world st) \<Longrightarrow> recorded i s"
  shows "covered items (st\<lparr>dn_world := s\<rparr>)" and "covered items (st\<lparr>dn_world := s, dn_token := tok\<rparr>)"
  using assms by (auto simp: covered_def)

lemma covered_same [simp]:
  "covered items (st\<lparr>dn_token := tok\<rparr>) = covered items st" "covered items (st\<lparr>dn_uploaded := n\<rparr>) = covered items st"
  "covered items (st\<lparr>dn_retry := b\<rparr>) = covered items st" "covered items (st\<lparr>dn_failures := fs\<rparr>) = covered items st"
  by (simp_all add: covered_def)

lemma covered_cores:
  assumes "covered items st" and "map item_core (db_items box) = map item_core (db_items (dn_box st))"
  shows "covered items (st\<lparr>dn_box := box\<rparr>)"
proof -
  have "item_core ` set (db_items box) = item_core ` set (db_items (dn_box st))"
    using arg_cong [OF assms(2), of set] by simp
  then show ?thesis using assms(1) by (fastforce simp: covered_def holds_item_def)
qed

lemma covered_settle:
  assumes c: "covered items st" and d: "distinct (map oi_item_id items)" and i: "item \<in> set items"
    and s: "settle W cfg item receipt st = (r, st')"
    and p: "receipt_checksum receipt = Inr (oi_checksum item) \<Longrightarrow> recorded item (dn_world st)"
  shows "covered items st'"
proof (cases "receipt_checksum receipt")
  case (Inl e)
  then show ?thesis using c s by (simp add: settle_def)
next
  case (Inr checksum)
  let ?ack = "acknowledge cfg (oi_item_id item) checksum (wo_footprint W (dn_world st)) (dn_box st)"
  have w: "dn_world st' = dn_world st" and b: "dn_box st' = snd ?ack"
    using s Inr by (auto simp: settle_def split: prod.splits sum.splits)
  consider (same) "db_items (snd ?ack) = db_items (dn_box st)"
    | (gone) row where "get_item (oi_item_id item) (dn_box st) = Some row" "oi_checksum row = checksum"
        "db_items (snd ?ack) = filter (\<lambda>i. oi_item_id i \<noteq> oi_item_id item) (db_items (dn_box st))"
    using acknowledge_items(1) [of cfg "oi_item_id item" checksum "wo_footprint W (dn_world st)" "dn_box st"] by blast
  then show ?thesis
  proof cases
    case same
    then show ?thesis using c by (simp add: covered_def holds_item_def w b)
  next
    case gone
    have only: "item_core r = item_core item" if "r \<in> set (db_items (dn_box st))" "oi_item_id r = oi_item_id item" for r
    proof -
      have "item_core r \<in> item_core ` set items" using c that(1) unfolding covered_def by blast
      then obtain j where j: "j \<in> set items" "item_core r = item_core j" by blast
      then have "oi_item_id j = oi_item_id item" using that(2) item_core_fields(1) [of r] item_core_fields(1) [of j] by simp
      with j i d have "j = item" by (simp add: distinct_map inj_on_def)
      with j show ?thesis by simp
    qed
    have "row \<in> set (db_items (dn_box st))" "oi_item_id row = oi_item_id item"
      using gone(1) by (auto simp: get_item_def find_Some_iff)
    then have "item_core row = item_core item" by (rule only)
    then have "checksum = oi_checksum item" using gone(2) item_core_fields(4) [of row] item_core_fields(4) [of item] by simp
    then have rec: "recorded item (dn_world st)" using p Inr by simp
    have "holds_item (dn_box st') j \<or> recorded j (dn_world st')" if j: "j \<in> set items" for j
    proof (cases "oi_item_id j = oi_item_id item")
      case True
      with j i d have "j = item" by (simp add: distinct_map inj_on_def)
      with rec show ?thesis by (simp add: w)
    next
      case False
      have "holds_item (dn_box st') j" if h: "holds_item (dn_box st) j"
      proof -
        obtain r where r: "r \<in> set (db_items (dn_box st))" "item_core j = item_core r" using h by (auto simp: holds_item_def)
        then have "oi_item_id r = oi_item_id j" using item_core_fields(1) [of r] item_core_fields(1) [of j] by simp
        with r False show ?thesis by (auto simp: holds_item_def b gone(3))
      qed
      then show ?thesis using c j by (auto simp: covered_def w)
    qed
    then show ?thesis using c by (simp add: covered_def b gone(3))
  qed
qed

lemma covered_deliver:
  assumes c: "covered items st" and d: "distinct (map oi_item_id items)" and i: "item \<in> set items"
    and s: "deliver W cfg deadlines item st = (r, st')"
  shows "covered items st'"
proof -
  obtain tr s1 where f: "fresh_token W (Some (dn_token st)) (dn_world st) = (tr, s1)"
    by (cases "fresh_token W (Some (dn_token st)) (dn_world st)")
  note c1 = covered_world [OF c fresh_keeps [OF f]]
  show ?thesis
  proof (cases tr)
    case (Inl e)
    then show ?thesis using s f c1 by (simp add: deliver_def)
  next
    case (Inr tok)
    let ?st1 = "st\<lparr>dn_world := s1, dn_token := tok\<rparr>"
    obtain mr box where m: "mark_attempt cfg (oi_item_id item) None (wo_footprint W s1) (dn_box st) = (mr, box)"
      by (cases "mark_attempt cfg (oi_item_id item) None (wo_footprint W s1) (dn_box st)")
    have "map item_core (db_items box) = map item_core (db_items (dn_box st))"
      using mark_attempt_cores(1) [of cfg "oi_item_id item" None "wo_footprint W s1" "dn_box st"] m by simp
    then have c2: "covered items (?st1\<lparr>dn_box := box\<rparr>)" using c1(2) by (intro covered_cores) simp_all
    show ?thesis
    proof (cases mr)
      case (Inl e)
      then show ?thesis using s f Inr m c2 by (simp add: deliver_def)
    next
      case mr: (Inr u)
      obtain ur s2 where u: "upload_when_free W item (deadlines (metadata_text W item ''manifest_id'')) BUSY_RETRY_LIMIT tok s1 = (ur, s2)"
        by (cases "upload_when_free W item (deadlines (metadata_text W item ''manifest_id'')) BUSY_RETRY_LIMIT tok s1")
      have c3: "covered items (?st1\<lparr>dn_box := box, dn_world := s2\<rparr>)"
        using covered_world(1) [OF c2, of s2] upload_when_free_cases [OF u] by simp
      show ?thesis
      proof (cases ur)
        case (Inl e)
        then show ?thesis using s f Inr m mr u c3 by (simp add: deliver_def)
      next
        case ur: (Inr q)
        obtain receipt tok' where q: "q = (receipt, tok')" by (cases q)
        let ?st2 = "?st1\<lparr>dn_box := box, dn_world := s2, dn_token := tok'\<rparr>"
        have "settle W cfg item receipt ?st2 = (r, st')" using s f Inr m mr u ur q by (simp add: deliver_def)
        moreover have "covered items ?st2" using c3 by (simp add: covered_def)
        moreover have "receipt_checksum receipt = Inr (oi_checksum item) \<Longrightarrow> recorded item (dn_world ?st2)"
          using upload_when_free_cases [OF u] ur q by simp
        ultimately show ?thesis using covered_settle [OF _ d i] by blast
      qed
    qed
  qed
qed

lemma covered_record [simp]: "covered items (record_failure error st) = covered items st"
  by (simp add: record_failure_def covered_def)

lemma covered_again:
  assumes c: "covered items st" and d: "distinct (map oi_item_id items)" and i: "item \<in> set items"
    and s: "deliver_again W cfg item st = (r, st')"
  shows "covered items st'"
proof -
  obtain tr s1 where e: "wo_exchange W (dn_world st) = (tr, s1)" by (cases "wo_exchange W (dn_world st)")
  note c1 = covered_world [OF c exchange_keeps [OF e]]
  show ?thesis
  proof (cases tr)
    case (Inl x)
    then show ?thesis using s e c1 by (simp add: deliver_again_def)
  next
    case (Inr tok)
    obtain ur s2 where u: "upload W tok item s1 = (ur, s2)" by (cases "upload W tok item s1")
    let ?st2 = "st\<lparr>dn_world := s2, dn_token := tok\<rparr>"
    have c2: "covered items ?st2" using covered_world(2) [OF c1(1), of s2 tok] upload_keeps [OF u] by simp
    show ?thesis
    proof (cases ur)
      case (Inl x)
      then show ?thesis using s e Inr u c2 by (simp add: deliver_again_def)
    next
      case ur: (Inr receipt)
      have "settle W cfg item receipt ?st2 = (r, st')" using s e Inr u ur by (simp add: deliver_again_def)
      moreover have "receipt_checksum receipt = Inr (oi_checksum item) \<Longrightarrow> recorded item (dn_world ?st2)"
        using upload_promises [OF u [unfolded ur]] by simp
      ultimately show ?thesis using covered_settle [OF c2 d i] by blast
    qed
  qed
qed

lemma covered_item:
  assumes c: "covered items st" and d: "distinct (map oi_item_id items)" and i: "item \<in> set items"
    and s: "drain_item W cfg deadlines aged_ids item st = (r, st')"
  shows "covered items st'"
proof (cases "oi_item_id item \<in> set aged_ids")
  case True
  then show ?thesis using c s by (auto simp: drain_item_def)
next
  case False
  obtain dr st1 where e: "deliver W cfg deadlines item st = (dr, st1)" by (cases "deliver W cfg deadlines item st")
  obtain ar st2 where a: "deliver_again W cfg item st1 = (ar, st2)" by (cases "deliver_again W cfg item st1")
  have c1: "covered items st1" by (rule covered_deliver [OF c d i e])
  have "covered items st2" by (rule covered_again [OF c1 d i a])
  with c1 s False show ?thesis
    by (auto simp: drain_item_def e a split: sum.splits run_exn.splits if_splits)
qed

lemma covered_items:
  assumes "distinct (map oi_item_id items)"
  shows "covered items st \<Longrightarrow> set todo \<subseteq> set items \<Longrightarrow> drain_items W cfg deadlines aged_ids todo st = (r, st') \<Longrightarrow> covered items st'"
proof (induction todo arbitrary: st)
  case (Cons item todo)
  obtain dr st1 where e: "drain_item W cfg deadlines aged_ids item st = (dr, st1)" by (cases "drain_item W cfg deadlines aged_ids item st")
  have "covered items st1" using covered_item [OF Cons.prems(1) assms _ e] Cons.prems(2) by simp
  with Cons e show ?case by (auto split: sum.splits)
qed simp

lemma drain_covers:
  assumes "distinct (map oi_item_id (db_items box))" and "drain W cfg deadlines token box s = (r, st)"
  shows "covered (db_items box) st"
proof -
  obtain now s1 where n: "wo_now W s = (now, s1)" by (cases "wo_now W s")
  let ?st = "\<lparr>dn_world = s1, dn_box = box, dn_token = token, dn_uploaded = 0, dn_retry = False, dn_failures = []\<rparr>"
  have "covered (db_items box) ?st" by (auto simp: covered_def holds_item_def)
  moreover have "set (pending 1000 box) \<subseteq> set (db_items box)" by (auto simp: pending_def dest: in_set_takeD)
  ultimately show ?thesis using assms n by (auto simp: drain_def intro: covered_items)
qed

end

end
