(* ===== verification/Delivery.thy ===== *)
theory Delivery
  imports Ingestion Drain
begin

text \<open>
  From the collector's outbox to the server's tables: the answers of the upload route
  (\<open>routes/collection_routes.py\<close>: \<open>_collector_claims\<close>, \<open>_control_error\<close>, \<open>ingest_observation\<close>; \<open>app/errors.py\<close>)
  as the collector reads them, and the server as the world in which the collector drains its outbox.

  Requests carry the bearer token and the gzip header, as the client sends them, so the answers to a
  request without them do not occur. The server's world also holds the clock, the tokens and, for each
  request, the transactions that come before it, the result of the token check and whether the answer
  is lost on the way back. The answers to catalogs are given. A response body's message and details,
  which the collector does not read, are left out.
\<close>

section \<open>Answers of the route\<close>

record app_error =
  ae_status :: int
  ae_code :: string
  ae_retry_after :: "int option"

abbreviation app_failure :: "int \<Rightarrow> string \<Rightarrow> app_error" where
  "app_failure status code \<equiv> \<lparr>ae_status = status, ae_code = code, ae_retry_after = None\<rparr>"

definition rate_limited :: "int \<Rightarrow> app_error" where
  "rate_limited retry = \<lparr>ae_status = 429, ae_code = ''rate_limited'', ae_retry_after = Some (max 1 retry)\<rparr>"

definition control_answer :: "string \<Rightarrow> int option \<Rightarrow> app_error" where
  "control_answer reason retry =
     (if reason \<in> set [''identity_revoked'', ''invalid_identity_secret'', ''invalid_token'', ''token_replayed'']
      then app_failure 401 ''invalid_token''
      else if reason \<in> set [''scope_denied'', ''provider_not_registered'', ''season_not_active'', ''surface_scope_required'', ''environment_mismatch'']
      then app_failure 403 ''forbidden''
      else if reason = ''collector_busy'' then rate_limited (case retry of None \<Rightarrow> 1 | Some s \<Rightarrow> if s = 0 then 1 else s)
      else if text_ends_with ''_not_found'' reason \<or> reason \<in> set [''manifest_not_found'', ''bootstrap_not_found'', ''cycle_not_found'',
          ''manifest_expired'', ''bootstrap_expired'', ''stream_not_found'', ''composition_not_found'', ''reconciliation_not_found'',
          ''credential_delivery_unavailable'']
      then app_failure 404 ''resource_not_found''
      else if reason = ''duplicate_active_operation'' then app_failure 409 ''duplicate_active_operation''
      else if reason \<in> set [''stale_composition'', ''expected_fence_required'', ''cycle_immutable'', ''cycle_exists'', ''observation_id_conflict'',
          ''mixed_manifest'', ''reconciliation_already_resolved'', ''composition_not_retryable'', ''rollback_unavailable'', ''stale_lease'',
          ''grouped_repair_pending'', ''repair_group_guard_stale'', ''repair_group_already_promoted'', ''repair_group_manifest_inactive'',
          ''stale_publication_family'', ''rebuild_lease_held'', ''publication_family_coupled'', ''cutover_superseded'',
          ''cutover_restore_unavailable'']
      then app_failure 409 ''operation_conflict''
      else app_failure 400 ''invalid_input'')"

definition control_or_limit :: "string \<Rightarrow> int option \<Rightarrow> app_error" where
  "control_or_limit reason retry = (if reason = ''usage_limit'' then rate_limited 60 else control_answer reason retry)"

text \<open>The handlers of the route and its boundary: any other exception is an operation that failed.\<close>

definition upload_answer :: "ingest_error \<Rightarrow> app_error" where
  "upload_answer e =
     (case e of
        Refusal r \<Rightarrow> control_or_limit (ce_reason r) (ce_retry_after r)
      | Escaped POverflowError \<Rightarrow> app_failure 500 ''operation_failed''
      | Escaped _ \<Rightarrow> control_answer ''invalid_input'' None
      | GovernanceUnavailable \<Rightarrow> control_answer ''invalid_input'' None)"

definition token_answer :: "token_error \<Rightarrow> app_error" where
  "token_answer e =
     (case e of TokenRefused reason \<Rightarrow> control_or_limit reason None | _ \<Rightarrow> app_failure 500 ''operation_failed'')"

definition error_response :: "app_error \<Rightarrow> http_response" where
  "error_response e = \<lparr>hp_status = ae_status e, hp_body = Some (JObj [(''error'', JObj [(''code'', JStr (ae_code e))])]),
     hp_retry_after = ae_retry_after e\<rparr>"

definition receipt_response :: "ObservationReceipt \<Rightarrow> http_response" where
  "receipt_response rc = \<lparr>hp_status = 202, hp_body = Some (JObj [(''observation_id'', JStr (rc_observation_id rc)),
     (''client_observation_id'', JStr (rc_client_id rc)), (''checksum'', JStr (rc_checksum rc)), (''replay'', JBool (rc_replay rc))]),
     hp_retry_after = None\<rparr>"

definition answer_upload ::
  "'d inflater \<Rightarrow> codec \<Rightarrow> ingest_service \<Rightarrow> upload_clock \<Rightarrow> surroundings \<Rightarrow> token_error + CollectorClaims \<Rightarrow> bool \<Rightarrow> nat list
     \<Rightarrow> ingest_db \<Rightarrow> http_response \<times> ingest_db" where
  "answer_upload z co sv uc su validated within_budget raw db =
     (case validated of
        Inl e \<Rightarrow> (error_response (token_answer e), db)
      | Inr claims \<Rightarrow>
          (if ''ingest'' \<notin> cl_scopes claims then (error_response (control_answer ''scope_denied'' None), db)
           else if MAX_COMPRESSED_BYTES_cp < length raw then (error_response (app_failure 400 ''invalid_input''), db)
           else case receive_observation z co sv uc su claims within_budget raw db of
             (Inl e, db') \<Rightarrow> (error_response (upload_answer e), db')
           | (Inr receipt, db') \<Rightarrow> (receipt_response receipt, db')))"

section \<open>What the collector reads\<close>

definition ANSWER_CODES :: "string list" where
  "ANSWER_CODES = [''invalid_token'', ''forbidden'', ''rate_limited'', ''resource_not_found'', ''duplicate_active_operation'',
     ''operation_conflict'', ''invalid_input'', ''operation_failed'']"

definition plain_answer :: "app_error \<Rightarrow> bool" where
  "plain_answer a \<longleftrightarrow> 400 \<le> ae_status a \<and> ae_status a \<le> 500 \<and> ae_code a \<in> set ANSWER_CODES"

lemma plain_control: "plain_answer (control_answer reason retry)"
  by (simp add: control_answer_def plain_answer_def ANSWER_CODES_def rate_limited_def)

lemma plain_answers:
  "plain_answer (upload_answer e)" "plain_answer (token_answer e')" "plain_answer (app_failure 400 ''invalid_input'')"
proof -
  have l: "plain_answer (control_or_limit reason retry)" for reason retry
    using plain_control by (simp add: control_or_limit_def plain_answer_def ANSWER_CODES_def rate_limited_def)
  have f: "plain_answer (app_failure 500 ''operation_failed'')" by (simp add: plain_answer_def ANSWER_CODES_def)
  show "plain_answer (upload_answer e)" using l f plain_control by (simp add: upload_answer_def split: ingest_error.split payload_exn.split)
  show "plain_answer (token_answer e')" using l f by (simp add: token_answer_def split: token_error.split)
  show "plain_answer (app_failure 400 ''invalid_input'')" by (simp add: plain_answer_def ANSWER_CODES_def)
qed

lemma reason_of_error: "ae_code a \<in> set ANSWER_CODES \<Longrightarrow> reason_of (error_response a) fallback = ae_code a"
proof -
  have ok: "list_all (\<lambda>s. let letters = filter (\<lambda>c. c \<noteq> CHR ''_'') s in letters \<noteq> [] \<and> list_all alphanumeric letters \<and> take 80 s = s) ANSWER_CODES"
    by code_simp
  assume "ae_code a \<in> set ANSWER_CODES"
  with ok show "reason_of (error_response a) fallback = ae_code a"
    by (auto simp: reason_of_def response_json_def error_response_def list_all_iff Let_def)
qed

lemma read_error_response:
  assumes "plain_answer a"
  shows "\<exists>e. read_receipt (Inr (error_response a)) = Inl (HttpError e) \<and> he_reason e = ae_code a \<and> he_status e = Some (ae_status a)"
proof -
  have c: "reason_of (error_response a) f = ae_code a" for f using assms by (simp add: plain_answer_def reason_of_error)
  have s: "hp_status (error_response a) = ae_status a" by (simp add: error_response_def)
  show ?thesis using assms
    by (simp add: read_receipt_def request_outcome_def Let_def c s plain_answer_def)
qed

lemma read_receipt_response:
  "read_receipt (Inr (receipt_response rc)) = Inr (JObj [(''observation_id'', JStr (rc_observation_id rc)),
     (''client_observation_id'', JStr (rc_client_id rc)), (''checksum'', JStr (rc_checksum rc)), (''replay'', JBool (rc_replay rc))])"
  by (simp add: read_receipt_def request_outcome_def receipt_response_def response_json_def)

lemma answer_cases:
  assumes "answer_upload z co sv uc su validated within_budget raw db = (r, db')"
  obtains (refused) a where "r = error_response a" "plain_answer a"
  | (accepted) claims rc where "validated = Inr claims" "receive_observation z co sv uc su claims within_budget raw db = (Inr rc, db')"
      "r = receipt_response rc"
proof (cases validated)
  case (Inl e)
  then show thesis using assms refused plain_answers(2) by (auto simp: answer_upload_def)
next
  case (Inr claims)
  obtain res db1 where res: "receive_observation z co sv uc su claims within_budget raw db = (res, db1)"
    by (cases "receive_observation z co sv uc su claims within_budget raw db")
  show thesis
  proof (cases res)
    case (Inl e)
    then show thesis using assms Inr res refused plain_answers plain_control by (auto simp: answer_upload_def split: if_splits)
  next
    case rc: (Inr rc)
    then show thesis using assms Inr res refused plain_answers(3) plain_control accepted [of claims rc]
      by (auto simp: answer_upload_def split: if_splits)
  qed
qed

text \<open>
  C20. Whatever the server refuses, the collector reads one of eight codes, and \<open>token_expired\<close> is none
  of them: the handler in which the drain renews an expired token and uploads again is never entered
  by an answer of this route, and an upload refused with status 401 is read as \<open>invalid_token\<close>.
\<close>
theorem expiry_never_reported:
  assumes "answer_upload z co sv uc su validated within_budget raw db = (r, db')" and "read_receipt (Inr r) = Inl (HttpError e)"
  shows "he_reason e \<in> {''invalid_token'', ''forbidden'', ''rate_limited'', ''resource_not_found'', ''duplicate_active_operation'',
      ''operation_conflict'', ''invalid_input'', ''operation_failed''}
    \<and> he_reason e \<noteq> ''token_expired''"
  using assms(1)
proof (cases rule: answer_cases)
  case (refused a)
  then have "he_reason e = ae_code a" using assms(2) read_error_response [OF refused(2)] by auto
  then show ?thesis using refused(2) by (auto simp: plain_answer_def ANSWER_CODES_def)
next
  case (accepted claims rc)
  then show ?thesis using assms(2) by (simp add: read_receipt_response)
qed

section \<open>The server as the collector's world\<close>

record turn =
  tn_before :: "server_op list"
  tn_validated :: "token_error + CollectorClaims"
  tn_within_budget :: bool
  tn_clock :: upload_clock
  tn_surroundings :: surroundings
  tn_lost :: "http_error option"
  tn_catalog :: http_response

record railway =
  ry_db :: ingest_db
  ry_turns :: "turn list"
  ry_clock :: "instant list"
  ry_tokens :: "(run_exn + CollectorToken) list"

definition unavailable :: http_error where
  "unavailable = \<lparr>he_reason = ''railway_unavailable'', he_status = None, he_retry_after = None, he_retryable = True\<rparr>"

text \<open>The claims of a token of this collector carry its identity.\<close>

definition own_claims :: "string \<Rightarrow> token_error + CollectorClaims \<Rightarrow> token_error + CollectorClaims" where
  "own_claims cid validated = (case validated of Inl e \<Rightarrow> Inl e | Inr claims \<Rightarrow> Inr (claims\<lparr>cl_collector_id := cid\<rparr>))"

definition railway_send ::
  "'d inflater \<Rightarrow> codec \<Rightarrow> ingest_service \<Rightarrow> string \<Rightarrow> CollectorToken \<Rightarrow> string option \<Rightarrow> nat list \<Rightarrow> railway
     \<Rightarrow> (http_error + http_response) \<times> railway" where
  "railway_send z co sv cid token target raw r =
     (case ry_turns r of
        [] \<Rightarrow> (Inl unavailable, r)
      | t # turns \<Rightarrow>
          (let db = server_run z co sv MAX_ENVELOPE_BYTES_cp MAX_COMPRESSED_BYTES_cp (tn_before t) (ry_db r)
           in case target of
             Some _ \<Rightarrow> (Inr (tn_catalog t), r\<lparr>ry_db := db, ry_turns := turns\<rparr>)
           | None \<Rightarrow>
               (case answer_upload z co sv (tn_clock t) (tn_surroundings t) (own_claims cid (tn_validated t)) (tn_within_budget t) raw db of
                  (answer, db') \<Rightarrow>
                    (case tn_lost t of None \<Rightarrow> Inr answer | Some e \<Rightarrow> Inl e, r\<lparr>ry_db := db', ry_turns := turns\<rparr>))))"

definition railway_world ::
  "'d inflater \<Rightarrow> codec \<Rightarrow> ingest_service \<Rightarrow> string \<Rightarrow> int \<Rightarrow> (string \<Rightarrow> json) \<Rightarrow> railway world_ops" where
  "railway_world z co sv cid footprint metadata =
     \<lparr>wo_send = railway_send z co sv cid,
      wo_exchange = (\<lambda>r. case ry_tokens r of [] \<Rightarrow> (Inl (HttpError unavailable), r) | t # ts \<Rightarrow> (t, r\<lparr>ry_tokens := ts\<rparr>)),
      wo_now = (\<lambda>r. case ry_clock r of [] \<Rightarrow> (0, r) | now # ts \<Rightarrow> (now, r\<lparr>ry_clock := ts\<rparr>)),
      wo_sleep = (\<lambda>_ r. r), wo_footprint = (\<lambda>_. footprint), wo_metadata = metadata\<rparr>"

text \<open>The observation an item carries is stored, under the identifier that its document names.\<close>

definition stored_as :: "string \<Rightarrow> string \<Rightarrow> string \<Rightarrow> ingest_db \<Rightarrow> bool" where
  "stored_as cid client_id checksum db \<longleftrightarrow>
     (\<exists>ob. get_observation cid client_id db = Some ob \<and> ob_checksum ob = checksum)"

definition recorded_upload :: "'d inflater \<Rightarrow> codec \<Rightarrow> string \<Rightarrow> OutboxItem \<Rightarrow> railway \<Rightarrow> bool" where
  "recorded_upload z co cid item r \<longleftrightarrow>
     (oi_kind item \<noteq> ''catalog'' \<longrightarrow>
        (\<forall>envelope bytes client_id. open_upload z co (oi_payload item) = Inr (envelope, bytes) \<longrightarrow>
           stripped_text (field envelope ''client_observation_id'') = Some client_id \<longrightarrow>
           stored_as cid client_id (oi_checksum item) (ry_db r)))"

lemma stored_run: "stored_as cid c cs db \<Longrightarrow> stored_as cid c cs (server_run z co sv mp mc ops db)"
  by (auto simp: stored_as_def intro: get_observation_run)

lemma stored_keeps: "ig_observations db' = ig_observations db @ obs \<Longrightarrow> stored_as cid c cs db \<Longrightarrow> stored_as cid c cs db'"
  by (auto simp: stored_as_def get_observation_def find_added)

lemma read_upload_client:
  assumes "read_upload z co claims envelope body compressed mp mc = Inr (ev, doc)"
  shows "stripped_text (field envelope ''client_observation_id'') = Some (ev_client_id ev)"
    and "ev_checksum ev \<noteq> []"
  using assms by (auto simp: read_upload_def check_envelope_def and_then_Inr ensure_Inr Let_def split: option.splits)

lemma ingest_effect:
  assumes "ingest z co sv uc su claims envelope body compressed mp mc db = (res, db')"
  shows "(\<exists>obs. ig_observations db' = ig_observations db @ obs)
     \<and> (\<forall>rc. res = Inr rc \<longrightarrow> stored_as (cl_collector_id claims) (rc_client_id rc) (rc_checksum rc) db'
          \<and> stripped_text (field envelope ''client_observation_id'') = Some (rc_client_id rc) \<and> rc_checksum rc \<noteq> [])"
proof (cases "\<exists>grant db1. uc_free uc \<and> preflight_payload z co envelope body compressed mp mc = Inr ()
    \<and> acquire_identity_lease claims (uc_acquire uc) (uc_owner uc) db = Inr (grant, db1)")
  case False
  then have "(\<exists>e. res = Inl e) \<and> (db' = db \<or> refusal_keeps db db')"
    using assms by (auto simp: ingest_def note_unresolved_keeps split: if_splits sum.splits)
  then have "\<exists>e. res = Inl e" "ig_observations db' = ig_observations db" using refusal_keepsD(1) by auto
  then show ?thesis by auto
next
  case True
  then obtain grant db1 where g: "uc_free uc" "preflight_payload z co envelope body compressed mp mc = Inr ()"
    "acquire_identity_lease claims (uc_acquire uc) (uc_owner uc) db = Inr (grant, db1)" by blast
  obtain res2 db2 where i: "ingest_observation z co sv claims envelope body compressed mp mc grant su db1 = (res2, db2)"
    by (metis surj_pair)
  have e: "res = res2" "db' = release_identity_lease claims grant (uc_release uc) db2"
    using assms g i by (auto simp: ingest_def Let_def)
  have o1: "ig_observations db1 = ig_observations db" using acquire_get(2) [OF g(3)] by (rule same_rowsD)
  have o3: "ig_observations db' = ig_observations db2" unfolding e(2) using release_same_rows by (rule same_rowsD)
  have o2: "\<exists>obs. ig_observations db2 = ig_observations db1 @ obs" using ingest_observations [OF i] by auto
  have "stored_as (cl_collector_id claims) (rc_client_id rc) (rc_checksum rc) db'
      \<and> stripped_text (field envelope ''client_observation_id'') = Some (rc_client_id rc) \<and> rc_checksum rc \<noteq> []" if r: "res = Inr rc" for rc
  proof -
    have i': "ingest_observation z co sv claims envelope body compressed mp mc grant su db1 = (Inr rc, db2)" using i e(1) r by simp
    have "stored_as (cl_collector_id claims) (rc_client_id rc) (rc_checksum rc) db2"
      using receipt_row [OF i'] by (auto simp: stored_as_def)
    then have s: "stored_as (cl_collector_id claims) (rc_client_id rc) (rc_checksum rc) db'"
      using stored_keeps [of db' db2 "[]"] o3 by simp
    have "stripped_text (field envelope ''client_observation_id'') = Some (rc_client_id rc) \<and> rc_checksum rc \<noteq> []"
      using i'
    proof (cases rule: ingest_cases)
      case (replayed ev doc ob)
      then show ?thesis using read_upload_client [OF replayed(1)] by simp
    next
      case (stored ev doc rehearsed receipt)
      obtain ob js l where "receipt = \<lparr>rc_observation_id = su_observation_id su, rc_client_id = ev_client_id ev, rc_checksum = ev_checksum ev,
          rc_replay = False\<rparr>" by (rule accept_cases [OF stored(3)])
      then show ?thesis using read_upload_client [OF stored(1)] stored(4) by simp
    qed simp
    with s show ?thesis by blast
  qed
  with o1 o2 o3 show ?thesis by auto
qed

lemma receive_effect:
  assumes "receive_observation z co sv uc su claims within_budget raw db = (res, db')"
  shows "(\<exists>obs. ig_observations db' = ig_observations db @ obs)
     \<and> (\<forall>rc. res = Inr rc \<longrightarrow> (\<exists>envelope bytes. open_upload z co raw = Inr (envelope, bytes)
          \<and> stripped_text (field envelope ''client_observation_id'') = Some (rc_client_id rc))
          \<and> stored_as (cl_collector_id claims) (rc_client_id rc) (rc_checksum rc) db' \<and> rc_checksum rc \<noteq> [])"
proof (cases "open_upload z co raw")
  case (Inl e)
  then show ?thesis using assms by (auto simp: receive_observation_def)
next
  case (Inr p)
  obtain envelope bytes where p: "p = (envelope, bytes)" by (cases p)
  show ?thesis
  proof (cases within_budget)
    case False
    then show ?thesis using assms Inr p by (auto simp: receive_observation_def)
  next
    case True
    then have "ingest z co sv uc su claims envelope (Bytes (gzip (co_wire co) bytes)) True MAX_ENVELOPE_BYTES_cp MAX_COMPRESSED_BYTES_cp db
        = (res, db')" using assms Inr p by (simp add: receive_observation_def)
    from ingest_effect [OF this] show ?thesis using Inr p by auto
  qed
qed

lemma answer_effect:
  assumes "answer_upload z co sv uc su validated within_budget raw db = (r, db')"
  shows "\<exists>obs. ig_observations db' = ig_observations db @ obs"
proof -
  have n: "\<exists>obs. ig_observations db = ig_observations db @ obs" by simp
  show ?thesis
  proof (cases validated)
    case (Inl e)
    then show ?thesis using assms n by (simp add: answer_upload_def)
  next
    case (Inr claims)
    obtain res db1 where v: "receive_observation z co sv uc su claims within_budget raw db = (res, db1)" by (metis surj_pair)
    then show ?thesis using assms n Inr conjunct1 [OF receive_effect [OF v]]
      by (auto simp: answer_upload_def split: sum.splits if_splits)
  qed
qed

lemma railway_send_keeps:
  assumes "railway_send z co sv cid token target raw r = (answer, r')" and "recorded_upload z co cid i r"
  shows "recorded_upload z co cid i r'"
proof (cases "ry_turns r")
  case Nil
  then show ?thesis using assms by (simp add: railway_send_def)
next
  case (Cons t turns)
  let ?db = "server_run z co sv MAX_ENVELOPE_BYTES_cp MAX_COMPRESSED_BYTES_cp (tn_before t) (ry_db r)"
  obtain res db' where a: "answer_upload z co sv (tn_clock t) (tn_surroundings t) (own_claims cid (tn_validated t)) (tn_within_budget t) raw ?db = (res, db')"
    by (metis surj_pair)
  have "ry_db r' = ?db \<or> ry_db r' = db'" using assms(1) Cons a by (auto simp: railway_send_def Let_def split: option.splits)
  then have "stored_as cid c cs (ry_db r) \<Longrightarrow> stored_as cid c cs (ry_db r')" for c cs
    using stored_run [of cid c cs "ry_db r"] stored_keeps [of db' ?db _ cid c cs] answer_effect [OF a] by metis
  then show ?thesis using assms(2) by (auto simp: recorded_upload_def)
qed

lemma railway_receipt:
  assumes s: "railway_send z co sv cid token (upload_target W i) (oi_payload i) r = (answer, r')"
    and a: "read_receipt answer = Inr receipt" and c: "receipt_checksum receipt = Inr (oi_checksum i)"
  shows "recorded_upload z co cid i r'"
proof (cases "oi_kind i = ''catalog''")
  case True
  then show ?thesis by (simp add: recorded_upload_def)
next
  case False
  then have target: "upload_target W i = None" by (simp add: upload_target_def)
  obtain t turns where t: "ry_turns r = t # turns"
    using s a by (cases "ry_turns r") (auto simp: railway_send_def read_receipt_def)
  let ?db = "server_run z co sv MAX_ENVELOPE_BYTES_cp MAX_COMPRESSED_BYTES_cp (tn_before t) (ry_db r)"
  obtain resp db' where up: "answer_upload z co sv (tn_clock t) (tn_surroundings t) (own_claims cid (tn_validated t)) (tn_within_budget t)
      (oi_payload i) ?db = (resp, db')" by (metis surj_pair)
  have r': "ry_db r' = db'" and ans: "answer = Inr resp"
    using s t up target a by (auto simp: railway_send_def Let_def read_receipt_def split: option.splits)
  from up show ?thesis
  proof (cases rule: answer_cases)
    case (refused ap)
    then show ?thesis using a ans read_error_response [OF refused(2)] by auto
  next
    case (accepted claims rc)
    have own: "cl_collector_id claims = cid" using accepted(1) by (auto simp: own_claims_def split: sum.splits)
    have cs: "rc_checksum rc = oi_checksum i"
      using a c ans accepted(3) by (auto simp: read_receipt_response receipt_checksum_def split: if_splits)
    obtain envelope bytes where o: "open_upload z co (oi_payload i) = Inr (envelope, bytes)"
      "stripped_text (field envelope ''client_observation_id'') = Some (rc_client_id rc)" "stored_as cid (rc_client_id rc) (oi_checksum i) db'"
      using receive_effect [OF accepted(2)] cs own by auto
    then show ?thesis by (auto simp: recorded_upload_def r')
  qed
qed

interpretation railway_delivery: delivery_world "railway_world z co sv cid footprint metadata" "recorded_upload z co cid"
  for z co sv cid footprint metadata
proof (unfold_locales, goal_cases)
  case (1 i s)
  then show ?case by (simp add: recorded_upload_def)
next
  case (2 token target body s answer s' i)
  then show ?case using railway_send_keeps by (simp add: railway_world_def)
next
  case (3 s token_result s' i)
  then show ?case by (auto simp: railway_world_def recorded_upload_def split: list.splits)
next
  case (4 s now s' i)
  then show ?case by (auto simp: railway_world_def recorded_upload_def split: list.splits)
next
  case (5 i s delay)
  then show ?case by (simp add: railway_world_def)
next
  case (6 token i s answer s' receipt)
  then show ?case using railway_receipt by (simp add: railway_world_def)
qed

section \<open>Canonical text on both sides\<close>

text \<open>The server's texts of a collector's document: sorted as the collector writes it, or in the order in
  which the collector's text was read.\<close>

lemma dumps_sorted: "dumps fr True (of_json v) = json_dumps v"
proof (induction v)
  case (JList xs)
  then show ?case by (simp cong: map_cong)
next
  case (JObj kvs)
  have "map (map_prod id (dumps fr True)) (map (map_prod id of_json) kvs) = map (map_prod id json_dumps) kvs"
    using JObj by (fastforce simp: snds.simps)
  then show ?case by (simp only: of_json.simps dumps.simps json_dumps.simps if_True)
qed simp_all

lemma dumps_read: "dumps fr False (of_json (sort_json v)) = json_dumps v"
proof (induction v)
  case (JList xs)
  then show ?case by (simp cong: map_cong)
next
  case (JObj kvs)
  have "map (map_prod id (dumps fr False)) (map (map_prod id of_json) (map (map_prod id sort_json) xs)) = map (map_prod id json_dumps) xs"
    if "set xs \<subseteq> set kvs" for xs using JObj that by (fastforce simp: snds.simps)
  from this [of "sort_key fst kvs"] have "map (map_prod id (dumps fr False)) (map (map_prod id of_json) (map (map_prod id sort_json) (sort_key fst kvs)))
      = map (map_prod id json_dumps) (sort_key fst kvs)" by (simp only: set_sort subset_refl)
  then show ?case
    by (simp only: sort_json.simps of_json.simps dumps.simps json_dumps.simps if_False id_apply sort_key_map_prod simp_thms)
qed simp_all

lemma utf8_of_append: "utf8 (a @ b) = utf8 a @ utf8 b"
  by (simp add: utf8_def)

lemma join_part: "\<exists>a b. join sep (xs @ y # ys) = a @ y @ b"
proof (cases xs)
  case Nil
  then have "join sep (xs @ y # ys) = [] @ y @ concat (map (\<lambda>z. sep @ z) ys)" by (simp add: join_def)
  then show ?thesis by blast
next
  case (Cons x xs')
  then show ?thesis by (auto simp: join_def) (metis append.assoc)
qed

lemma canonical_part:
  assumes "(k, v) \<in> set kvs"
  shows "length (canonical_json v) \<le> length (canonical_json (JObj kvs))"
proof -
  let ?es = "map (\<lambda>(k, r). json_str k @ '':'' @ r) (sort_key fst (map (map_prod id json_dumps) kvs))"
  have "(k, json_dumps v) \<in> set (sort_key fst (map (map_prod id json_dumps) kvs))" using assms by force
  then have "json_str k @ '':'' @ json_dumps v \<in> set ?es" by force
  then obtain xs ys where "?es = xs @ (json_str k @ '':'' @ json_dumps v) # ys" by (meson split_list)
  then obtain a b where "join '','' ?es = a @ (json_str k @ '':'' @ json_dumps v) @ b" using join_part by metis
  then have "json_dumps (JObj kvs) = (''{'' @ a @ json_str k @ '':'') @ json_dumps v @ (b @ ''}'')" by simp
  then show ?thesis by (simp only: canonical_json_def utf8_of_append length_append)
qed

section \<open>Decompression of what was compressed\<close>

text \<open>What is relied on of the decompressor: with room for the rest of the data, a piece of the compressed
  stream gives the next part of it and leaves no input, and the flush after the last piece ends the
  stream with what is still missing.\<close>

fun inflates :: "'d inflater \<Rightarrow> 'd \<Rightarrow> nat list list \<Rightarrow> nat list \<Rightarrow> bool" where
  "inflates z d [] data \<longleftrightarrow> (\<exists>d'. z_flush z d = Some (data, d') \<and> z_eof z d' \<and> \<not> z_unused z d')"
| "inflates z d (piece # pieces) data \<longleftrightarrow> (\<forall>room. length data < room \<longrightarrow>
     (\<exists>out rest d'. z_decompress z d piece room = Some (out, d') \<and> data = out @ rest \<and> \<not> z_unconsumed z d' \<and> inflates z d' pieces rest))"

lemma inflate_pieces:
  assumes "inflates z d pieces rest" and "length done' + length rest \<le> limit"
  shows "\<exists>out tail d' d''. fold_res (inflate_chunk z limit) pieces (done', d) = Inr (done' @ out, d') \<and> rest = out @ tail
     \<and> z_flush z d' = Some (tail, d'') \<and> z_eof z d'' \<and> \<not> z_unused z d''"
  using assms
proof (induction pieces arbitrary: d rest done')
  case Nil
  then show ?case by auto
next
  case (Cons piece pieces)
  have "length rest < limit - length done' + 1" using Cons.prems(2) by simp
  then obtain out rest' d' where p: "z_decompress z d piece (limit - length done' + 1) = Some (out, d')" "rest = out @ rest'"
    "\<not> z_unconsumed z d'" "inflates z d' pieces rest'" using Cons.prems(1) by auto
  have s: "inflate_chunk z limit piece (done', d) = Inr (done' @ out, d')"
    using p Cons.prems(2) by (simp add: inflate_chunk_def)
  have "length (done' @ out) + length rest' \<le> limit" using Cons.prems(2) p(2) by simp
  from Cons.IH [OF p(4) this] obtain out' tail e e' where
    e: "fold_res (inflate_chunk z limit) pieces (done' @ out, d') = Inr ((done' @ out) @ out', e)" "rest' = out' @ tail"
      "z_flush z e = Some (tail, e')" "z_eof z e'" "\<not> z_unused z e'" by blast
  have "fold_res (inflate_chunk z limit) (piece # pieces) (done', d) = Inr (done' @ (out @ out'), e) \<and> rest = (out @ out') @ tail"
    using s e(1,2) p(2) by simp
  with e(3-5) show ?case by blast
qed

lemma decompress_compressed:
  assumes "\<forall>data pieces. concat pieces = compress data \<longrightarrow> inflates z (z_new z) pieces data"
    and "length data \<le> max_output" and "length (compress data) \<le> max_input"
  shows "decompress_gzip_limited z (compress data) max_output max_input = Inr data"
proof -
  have "inflates z (z_new z) (chunks CHUNK (compress data)) data"
    using assms(1) chunks_spec [of CHUNK "compress data"] by (simp add: CHUNK_def)
  from inflate_pieces [OF this, of "[]" max_output] show ?thesis
    using assms(2,3) by (auto simp: decompress_gzip_limited_def)
qed

section \<open>A collector's envelope\<close>

lemma map_of_set_entry: "map_of (set_entry k v kvs) q = (if q = k then Some v else map_of kvs q)"
proof -
  have "map_of (map (\<lambda>(q, x). (q, if q = k then v else x)) kvs) q = (if q = k then map_option (\<lambda>_. v) (map_of kvs k) else map_of kvs q)" for kvs
    by (induction kvs) auto
  moreover have "k \<in> fst ` set kvs \<longleftrightarrow> map_of kvs k \<noteq> None" by (simp add: map_of_eq_None_iff)
  moreover have "map_of (kvs @ [(k, v)]) q = (if map_of kvs k = None \<and> q = k then Some v else map_of kvs q)" if "map_of kvs k = None"
    using that by (auto simp: map_add_def split: option.split)
  ultimately show ?thesis by (cases "map_of kvs k") (auto simp: set_entry_def)
qed

lemma map_of_without: "map_of (filter (\<lambda>(q, _). q \<noteq> p) kvs) k = (if k = p then None else map_of kvs k)"
  by (induction kvs) auto

text \<open>The entries the server reads from the collector's document.\<close>

definition read_entries :: "ObservationEnvelope \<Rightarrow> (string \<times> payload) list" where
  "read_entries e = map (map_prod id of_json) (sort_key fst (map (map_prod id sort_json) (wire_fields e)))"

lemma of_json_wire: "of_json (sort_json (wire_dict e)) = PObj (read_entries e)"
  by (simp add: wire_dict_def read_entries_def)

lemma wire_fields_keys: "distinct (map fst (wire_fields e))" "fst ` set (wire_fields e) = insert ''payload'' (set ENVELOPE_FIELDS)"
  by (simp_all add: wire_fields_def ENVELOPE_FIELDS_def) auto

lemma map_of_map_entries: "map_of (map (map_prod id f) kvs) k = map_option f (map_of kvs k)"
  by (induction kvs) auto

lemma map_of_read: "map_of (read_entries e) k = map_option (of_json \<circ> sort_json) (map_of (wire_fields e) k)"
proof -
  have "distinct (map fst (map (map_prod id sort_json) (wire_fields e)))" using wire_fields_keys(1) [of e] by (simp add: comp_def)
  then have "map_of (sort_key fst (map (map_prod id sort_json) (wire_fields e))) k = map_of (map (map_prod id sort_json) (wire_fields e)) k"
    by (simp only: map_of_sort_key)
  then show ?thesis by (simp only: read_entries_def map_of_map_entries option.map_comp)
qed

lemma read_keys: "fst ` set (read_entries e) = insert ''payload'' (set ENVELOPE_FIELDS)"
  using wire_fields_keys(2) [of e] by (force simp: read_entries_def image_image)

definition received_envelope :: "ObservationEnvelope \<Rightarrow> (string \<times> payload) list" where
  "received_envelope e = set_entry ''checksum'' (PStr (en_checksum e)) (filter (\<lambda>(k, _). k \<noteq> ''payload'') (read_entries e))"

lemma received_field:
  "field (received_envelope e) k = (if k = ''payload'' then PNull else of_json (sort_json (get_key (wire_dict e) k)))"
proof -
  have c: "map_of (wire_fields e) ''checksum'' = Some (JStr (en_checksum e))" by (simp add: wire_fields_def)
  show ?thesis
    by (auto simp: field_def received_envelope_def map_of_set_entry map_of_without map_of_read wire_dict_def c split: option.split)
qed

lemma set_entry_keys: "fst ` set (set_entry k v kvs) = insert k (fst ` set kvs)"
  by (force simp: set_entry_def)

lemma received_keys: "fst ` set (received_envelope e) = set ENVELOPE_FIELDS"
proof -
  have m: "''payload'' \<notin> set ENVELOPE_FIELDS" "''checksum'' \<in> set ENVELOPE_FIELDS" by code_simp+
  have "fst ` set (filter (\<lambda>(k, _). k \<noteq> ''payload'') (read_entries e)) = fst ` set (read_entries e) - {''payload''}" by force
  also have "\<dots> = set ENVELOPE_FIELDS - {''payload''}" by (simp add: read_keys)
  also have "\<dots> = set ENVELOPE_FIELDS" using m(1) by simp
  finally show ?thesis using m(2) by (simp only: received_envelope_def set_entry_keys insert_absorb)
qed

text \<open>What the constructor of an envelope established.\<close>

lemma post_initD:
  assumes "post_init w e0 = Inr e"
  shows "en_checksum e = payload_checksum w (en_payload e)" and "strip (en_client_observation_id e) \<noteq> []"
    and "strip (en_provider e) \<noteq> []" and "strip (en_observation_type e) \<noteq> []" and "length (en_client_observation_id e) \<le> 128"
    and "en_manifest_id e = Some m \<Longrightarrow> strip m \<noteq> []"
  using assms by (auto simp: post_init_def and_then_Inr ensure_Inr)

lemma length_strip: "length (strip s) \<le> length s"
proof -
  have d: "length (dropWhile is_space s) \<le> length s" for s by (induction s) auto
  have "length (strip s) \<le> length (rev (dropWhile is_space s))" unfolding strip_def length_rev by (rule d [THEN le_trans]) simp
  also have "\<dots> \<le> length s" using d by simp
  finally show ?thesis .
qed

text \<open>What is relied on of the compressor, the decompressor, the digest and the reader, for one envelope.\<close>

definition faithful_transport :: "'d inflater \<Rightarrow> codec \<Rightarrow> ObservationEnvelope \<Rightarrow> bool" where
  "faithful_transport z co e \<longleftrightarrow>
     (\<forall>data pieces. concat pieces = gzip (co_wire co) data \<longrightarrow> inflates z (z_new z) pieces data)
     \<and> (\<forall>data. sha256_hex (co_wire co) data \<noteq> [])
     \<and> (\<forall>document \<in> {wire_dict e, en_payload e}. co_loads co (canonical_json document) = Some (of_json (sort_json document)))"

lemma envelope_opened:
  assumes e: "post_init (co_wire co) e0 = Inr e" and raw: "compressed_wire (co_wire co) e = Inr raw"
    and f: "faithful_transport z co e" and p: "en_payload e \<noteq> JNull"
  shows "open_upload z co raw = Inr (received_envelope e, canonical_json (en_payload e))"
proof -
  have z: "\<forall>data pieces. concat pieces = gzip (co_wire co) data \<longrightarrow> inflates z (z_new z) pieces data"
    and d: "sha256_hex (co_wire co) data \<noteq> []" and l: "co_loads co (canonical_json (wire_dict e)) = Some (PObj (read_entries e))" for data
    using f by (auto simp: faithful_transport_def of_json_wire)
  have r: "raw = gzip (co_wire co) (canonical_json (wire_dict e))" "length (canonical_json (wire_dict e)) \<le> MAX_ENVELOPE_BYTES_cp"
    "length raw \<le> MAX_COMPRESSED_BYTES_cp"
    using raw by (auto simp: compressed_wire_def compress_wire_def Let_def MAX_ENVELOPE_BYTES_def MAX_ENVELOPE_BYTES_cp_def
      MAX_COMPRESSED_BYTES_def MAX_COMPRESSED_BYTES_cp_def split: if_splits)
  have u: "decompress_gzip_limited z raw MAX_ENVELOPE_BYTES_cp MAX_COMPRESSED_BYTES_cp = Inr (canonical_json (wire_dict e))"
    unfolding r(1) using z r(2,3) [unfolded r(1)] by (rule decompress_compressed)
  let ?rest = "filter (\<lambda>(k, _). k \<noteq> ''payload'') (read_entries e)"
  have doc: "map_of (read_entries e) ''payload'' = Some (of_json (sort_json (en_payload e)))"
    by (simp add: map_of_read wire_fields_def)
  have nn: "of_json (sort_json (en_payload e)) \<noteq> PNull" using p by (cases "en_payload e") simp_all
  have c: "field ?rest ''checksum'' = PStr (en_checksum e)"
    by (simp add: field_def map_of_without map_of_read wire_fields_def)
  have ne: "en_checksum e \<noteq> []" using post_initD(1) [OF e] d by (simp add: payload_checksum_def)
  show ?thesis
    using received_keys [of e] ne nn
    by (simp add: open_upload_def u l doc c Let_def str_of_def truthy_def received_envelope_def [symmetric] dumps_read) (simp add: canonical_json_def)
qed

text \<open>
  C15. The server reads a collector's envelope as the collector wrote it. The body that the collector
  compresses is opened to an envelope and to exactly the canonical bytes of its payload; these survive
  the second compression on the way to the service, are read back as the payload with its keys in
  order, and match the checksum. The check of the envelope can refuse it only for what the collector may
  not send (a scope the token lacks, another environment, a scope text over the limit, no manifest);
  otherwise it yields the collector's own fields, stripped.
\<close>
theorem collector_envelope_read:
  assumes "post_init (co_wire co) e0 = Inr e" and "compressed_wire (co_wire co) e = Inr raw"
    and "faithful_transport z co e" and "en_payload e \<noteq> JNull"
    and "length (gzip (co_wire co) (canonical_json (en_payload e))) \<le> MAX_COMPRESSED_BYTES_cp"
  shows "\<exists>envelope bytes. open_upload z co raw = Inr (envelope, bytes) \<and> bytes = canonical_json (en_payload e)
     \<and> decode_body z (Bytes (gzip (co_wire co) bytes)) True MAX_ENVELOPE_BYTES_cp MAX_COMPRESSED_BYTES_cp = Inr bytes
     \<and> co_loads co bytes = Some (of_json (sort_json (en_payload e)))
     \<and> check_envelope co claims envelope bytes =
         (if ''ingest'' \<notin> cl_scopes claims then refuse_upload ''scope_denied''
          else if en_environment e \<noteq> cl_environment claims then refuse_upload ''environment_mismatch''
          else if MAX_SCOPE_BYTES < length (canonical_json (en_scope e)) then refuse_upload ''scope_limit''
          else case en_manifest_id e of None \<Rightarrow> refuse_upload ''manifest_not_found''
            | Some m \<Rightarrow> Inr \<lparr>ev_version = en_schema_version e, ev_provider = strip (en_provider e), ev_type = strip (en_observation_type e),
                ev_client_id = strip (en_client_observation_id e), ev_scope_text = json_dumps (en_scope e), ev_manifest_id = strip m,
                ev_checksum = payload_checksum (co_wire co) (en_payload e)\<rparr>)"
proof -
  let ?bytes = "canonical_json (en_payload e)" and ?env = "received_envelope e"
  note pi = post_initD [OF assms(1)]
  have f: "\<forall>data pieces. concat pieces = gzip (co_wire co) data \<longrightarrow> inflates z (z_new z) pieces data"
      "co_loads co ?bytes = Some (of_json (sort_json (en_payload e)))" "sha256_hex (co_wire co) ?bytes \<noteq> []"
    using assms(3) by (auto simp: faithful_transport_def)
  have "length ?bytes \<le> length (canonical_json (wire_dict e))"
    unfolding wire_dict_def by (rule canonical_part [of "''payload''"]) (simp add: wire_fields_def)
  also have "\<dots> \<le> MAX_ENVELOPE_BYTES_cp" using assms(2)
    by (auto simp: compressed_wire_def compress_wire_def Let_def MAX_ENVELOPE_BYTES_def MAX_ENVELOPE_BYTES_cp_def split: if_splits)
  finally have d: "decode_body z (Bytes (gzip (co_wire co) ?bytes)) True MAX_ENVELOPE_BYTES_cp MAX_COMPRESSED_BYTES_cp = Inr ?bytes"
    using decompress_compressed [OF f(1) _ assms(5)] assms(5) by (simp add: decode_body_def)
  have keys: "fst ` set ?env = set ENVELOPE_FIELDS" by (rule received_keys)
  have fields: "field ?env ''environment'' = PStr (en_environment e)" "field ?env ''season'' = PStr (en_season e)"
    "field ?env ''schema_version'' = PInt (en_schema_version e)" "field ?env ''provider'' = PStr (en_provider e)"
    "field ?env ''observation_type'' = PStr (en_observation_type e)" "field ?env ''client_observation_id'' = PStr (en_client_observation_id e)"
    "field ?env ''scope'' = of_json (sort_json (en_scope e))" "field ?env ''checksum'' = PStr (en_checksum e)"
    "field ?env ''manifest_id'' = (case en_manifest_id e of None \<Rightarrow> PNull | Some m \<Rightarrow> PStr m)"
    by (simp_all add: received_field wire_dict_def wire_fields_def opt_str_def split: option.split)
  have "length (strip (en_client_observation_id e)) \<le> 128" using pi(5) length_strip le_trans by blast
  moreover have "en_checksum e = sha256_hex (co_wire co) ?bytes" using pi(1) by (simp add: payload_checksum_def)
  ultimately have "check_envelope co claims ?env ?bytes =
         (if ''ingest'' \<notin> cl_scopes claims then refuse_upload ''scope_denied''
          else if en_environment e \<noteq> cl_environment claims then refuse_upload ''environment_mismatch''
          else if MAX_SCOPE_BYTES < length (canonical_json (en_scope e)) then refuse_upload ''scope_limit''
          else case en_manifest_id e of None \<Rightarrow> refuse_upload ''manifest_not_found''
            | Some m \<Rightarrow> Inr \<lparr>ev_version = en_schema_version e, ev_provider = strip (en_provider e), ev_type = strip (en_observation_type e),
                ev_client_id = strip (en_client_observation_id e), ev_scope_text = json_dumps (en_scope e), ev_manifest_id = strip m,
                ev_checksum = payload_checksum (co_wire co) (en_payload e)\<rparr>)"
    using pi(2-4,6) f(3)
    by (auto simp: check_envelope_def keys fields stripped_text_def dumps_sorted json_dumps_sort_json canonical_json_def Let_def
        str_of_def truthy_def payload_checksum_def not_less split: option.split)
  with envelope_opened [OF assms(1-4)] d f(2) show ?thesis by blast
qed


section \<open>A checksum that is not sent\<close>

text \<open>The route fills in a missing checksum from the payload's text with sorted keys, and sends the payload
  on with its keys in the order received: unless the two texts have the same digest, the service
  refuses every such upload.\<close>

lemma default_checksum_refused:
  assumes "open_upload z co raw = Inr (envelope, bytes)"
    and "decompress_gzip_limited z raw MAX_ENVELOPE_BYTES_cp MAX_COMPRESSED_BYTES_cp = Inr body" and "co_loads co body = Some (PObj kvs)"
    and "map_of kvs ''payload'' = Some document" and "\<not> truthy (field kvs ''checksum'')"
    and "sha256_hex (co_wire co) (utf8 (dumps (co_float_text co) True document))
      \<noteq> sha256_hex (co_wire co) (utf8 (dumps (co_float_text co) False document))"
  shows "\<exists>e. check_envelope co claims envelope bytes = Inl e"
proof -
  let ?rest = "filter (\<lambda>(k, _). k \<noteq> ''payload'') kvs"
  let ?sum = "sha256_hex (co_wire co) (utf8 (dumps (co_float_text co) True document))"
  have "field ?rest ''checksum'' = field kvs ''checksum''" by (simp add: field_def map_of_without)
  then have e: "envelope = set_entry ''checksum'' (PStr ?sum) ?rest" "bytes = utf8 (dumps (co_float_text co) False document)"
    using assms(1-5) by (auto simp: open_upload_def Let_def and_then_Inr ensure_Inr)
  have "field envelope ''checksum'' = PStr ?sum" by (simp add: e(1) field_def map_of_set_entry)
  then have "check_envelope co claims envelope bytes \<noteq> Inr ev" for ev
    using assms(6) by (auto simp: check_envelope_def and_then_Inr ensure_Inr Let_def str_of_def truthy_def e(2))
  then show ?thesis by (cases "check_envelope co claims envelope bytes") auto
qed

section \<open>A concrete delivery\<close>

definition sample_note :: ObservationEnvelope where
  "sample_note = \<lparr>en_manifest_id = Some ''m1'', en_client_observation_id = ''rc-1'', en_environment = ''test'', en_collector_id = ''c1'',
     en_provider = ''nba'', en_observation_type = ''synergy_play_types'', en_scope = JObj [(''window'', JStr ''season'')],
     en_season = ''2025-26'', en_cutoff = ''cutoff'', en_retrieved_at = ''retrieved'', en_schema_version = 1,
     en_payload = JObj [(''rows'', JList [JObj [(''slice'', JStr ''Isolation''), (''points'', JInt 1)]])], en_provenance = JObj [],
     en_checksum = ''43''\<rparr>"

text \<open>A reader that knows the two documents of this delivery.\<close>

definition delivery_codec :: codec where
  "delivery_codec = sample_codec\<lparr>co_loads := (\<lambda>b.
     if b = canonical_json (en_payload sample_note) then Some (of_json (sort_json (en_payload sample_note)))
     else if b = canonical_json (wire_dict sample_note) then Some (of_json (sort_json (wire_dict sample_note))) else None)\<rparr>"

definition sample_item :: OutboxItem where
  "sample_item = \<lparr>oi_item_id = 1, oi_kind = ''observation'', oi_client_observation_id = ''rc-1'', oi_checksum = ''43'', oi_cutoff = 1000,
     oi_created_at = 0, oi_payload = canonical_json (wire_dict sample_note), oi_metadata = ''{}'', oi_attempts = 0, oi_last_error = None,
     oi_request_id = None\<rparr>"

definition sample_box :: outbox_db where
  "sample_box = \<lparr>db_items = [sample_item], db_last_id = 1, db_lease = None\<rparr>"

definition sample_config :: outbox_config where
  "sample_config = \<lparr>oc_max_bytes = 100000, oc_max_item_bytes = 10000, oc_retention = 2592000000000, oc_baseline = 0, oc_headroom = 4096,
     oc_page_size = 4096\<rparr>"

definition sample_turn :: turn where
  "sample_turn = \<lparr>tn_before = [], tn_validated = Inr sample_claims, tn_within_budget = True,
     tn_clock = \<lparr>uc_free = True, uc_preflight = 1000000, uc_acquire = 1000000, uc_owner = ''w1'', uc_release = 3000000\<rparr>,
     tn_surroundings = at_time 2000000, tn_lost = None, tn_catalog = \<lparr>hp_status = 404, hp_body = None, hp_retry_after = None\<rparr>\<rparr>"

definition sample_railway :: railway where
  "sample_railway = \<lparr>ry_db = sample_db, ry_turns = [sample_turn], ry_clock = [1000000, 1000000], ry_tokens = []\<rparr>"

definition sample_token :: CollectorToken where
  "sample_token = \<lparr>ct_token = ''t'', ct_expires_at = 900000000\<rparr>"

definition sample_world :: "railway world_ops" where
  "sample_world = railway_world stored_inflater delivery_codec sample_service ''c1'' 0 (\<lambda>_. JObj [])"

definition sample_drain :: "(run_exn + unit) \<times> railway drain_state" where
  "sample_drain = drain (railway_world stored_inflater delivery_codec sample_service ''c1'' 0 (\<lambda>_. JObj [])) sample_config (\<lambda>_. None)
     sample_token sample_box sample_railway"

lemma sample_note_made: "post_init (co_wire delivery_codec) (sample_note\<lparr>en_checksum := []\<rparr>) = Inr sample_note"
  by code_simp

lemma sample_note_wire: "compressed_wire (co_wire delivery_codec) sample_note = Inr (oi_payload sample_item)"
  by code_simp

lemma sample_note_digest: "en_checksum sample_note = oi_checksum sample_item"
  by (simp add: sample_note_def sample_item_def)

lemma stored_inflates: "concat pieces = data \<Longrightarrow> inflates stored_inflater d pieces data"
proof (induction pieces arbitrary: d data)
  case Nil
  then show ?case by (simp add: stored_inflater_def)
next
  case (Cons piece pieces)
  have "\<exists>out rest d'. z_decompress stored_inflater d piece room = Some (out, d') \<and> data = out @ rest \<and> \<not> z_unconsumed stored_inflater d'
      \<and> inflates stored_inflater d' pieces rest" if r: "length data < room" for room
  proof (intro exI conjI)
    show "z_decompress stored_inflater d piece room = Some (piece, 0)" using r Cons.prems by (auto simp: stored_inflater_def)
    show "data = piece @ concat pieces" using Cons.prems by simp
    show "\<not> z_unconsumed stored_inflater 0" by (simp add: stored_inflater_def)
    show "inflates stored_inflater 0 pieces (concat pieces)" by (rule Cons.IH) simp
  qed
  then show ?case by simp
qed

lemma show_nat_some: "show_nat n \<noteq> []"
  by (subst show_nat.simps) simp

lemma sample_transport: "faithful_transport stored_inflater delivery_codec sample_note"
proof -
  have w: "gzip (co_wire delivery_codec) data = data" "sha256_hex (co_wire delivery_codec) data \<noteq> []" "z_new stored_inflater = 0" for data
    by (simp_all add: delivery_codec_def sample_codec_def stored_inflater_def show_nat_some)
  have "canonical_json (en_payload sample_note) \<noteq> canonical_json (wire_dict sample_note)" by code_simp
  then have "\<forall>document \<in> {wire_dict sample_note, en_payload sample_note}.
      co_loads delivery_codec (canonical_json document) = Some (of_json (sort_json document))"
    by (simp add: delivery_codec_def)
  then show ?thesis using stored_inflates by (simp add: faithful_transport_def w)
qed

lemma sample_payload: "en_payload sample_note \<noteq> JNull"
  by (simp add: sample_note_def)

definition sample_answer :: "(ingest_error + ObservationReceipt) \<times> ingest_db" where
  "sample_answer = ingest stored_inflater delivery_codec sample_service (tn_clock sample_turn) (at_time 2000000) sample_claims
     (received_envelope sample_note) (Bytes (gzip (co_wire delivery_codec) (canonical_json (en_payload sample_note)))) True
     MAX_ENVELOPE_BYTES_cp MAX_COMPRESSED_BYTES_cp sample_db"

lemma sample_receipt_given: "fst sample_answer = Inr \<lparr>rc_observation_id = ''o1'', rc_client_id = ''rc-1'', rc_checksum = ''43'', rc_replay = False\<rparr>"
  by code_simp
lemma sample_upload_answered:
  "\<exists>s receipt. upload sample_world sample_token sample_item (sample_railway\<lparr>ry_clock := []\<rparr>) = (Inr receipt, s)
     \<and> receipt_checksum receipt = Inr ''43''"
proof -
  let ?r = "sample_railway\<lparr>ry_clock := []\<rparr>"
  have own: "own_claims ''c1'' (tn_validated sample_turn) = Inr sample_claims"
    by (simp add: own_claims_def sample_turn_def sample_claims_def)
  have o: "open_upload stored_inflater delivery_codec (oi_payload sample_item) = Inr (received_envelope sample_note, canonical_json (en_payload sample_note))"
    by (rule envelope_opened [OF sample_note_made sample_note_wire sample_transport sample_payload])
  obtain db' where a: "sample_answer = (Inr \<lparr>rc_observation_id = ''o1'', rc_client_id = ''rc-1'', rc_checksum = ''43'', rc_replay = False\<rparr>, db')"
    using sample_receipt_given by (metis prod.collapse)
  have scope: "''ingest'' \<in> cl_scopes sample_claims" by (simp add: sample_claims_def)
  have size: "\<not> MAX_COMPRESSED_BYTES_cp < length (oi_payload sample_item)" by code_simp
  have su: "tn_surroundings sample_turn = at_time 2000000" "tn_before sample_turn = []" "tn_within_budget sample_turn" "tn_lost sample_turn = None"
    by (simp_all add: sample_turn_def)
  have u: "answer_upload stored_inflater delivery_codec sample_service (tn_clock sample_turn) (at_time 2000000) (Inr sample_claims) True
      (oi_payload sample_item) sample_db
      = (receipt_response \<lparr>rc_observation_id = ''o1'', rc_client_id = ''rc-1'', rc_checksum = ''43'', rc_replay = False\<rparr>, db')"
    using a scope size by (simp add: answer_upload_def receive_observation_def o sample_answer_def)
  have "wo_send sample_world sample_token None (oi_payload sample_item) ?r
      = (Inr (receipt_response \<lparr>rc_observation_id = ''o1'', rc_client_id = ''rc-1'', rc_checksum = ''43'', rc_replay = False\<rparr>),
         ?r\<lparr>ry_db := db', ry_turns := []\<rparr>)"
    using u by (simp add: sample_world_def railway_world_def railway_send_def own su server_run_def sample_railway_def)
  moreover have "upload_target sample_world sample_item = None" "ct_token sample_token \<noteq> []"
    by (simp_all add: upload_target_def sample_item_def sample_token_def)
  ultimately show ?thesis
    by (simp add: upload_def post_def read_receipt_response receipt_checksum_def)
qed

lemma sample_drain_box: "db_items (dn_box (snd sample_drain)) = []"
proof -
  let ?r = "sample_railway\<lparr>ry_clock := []\<rparr>"
  obtain s receipt where u: "upload sample_world sample_token sample_item ?r = (Inr receipt, s)" "receipt_checksum receipt = Inr ''43''"
    using sample_upload_answered by blast
  have now: "wo_now sample_world sample_railway = (1000000, sample_railway\<lparr>ry_clock := [1000000]\<rparr>)"
    "wo_now sample_world (sample_railway\<lparr>ry_clock := [1000000]\<rparr>) = (1000000, ?r)"
    by (simp_all add: sample_world_def railway_world_def sample_railway_def)
  have box: "aged_pending sample_config 1000000 1000 sample_box = []" "pending 1000 sample_box = [sample_item]" by code_simp+
  have f: "fresh_token sample_world (Some sample_token) (sample_railway\<lparr>ry_clock := [1000000]\<rparr>) = (Inr sample_token, ?r)"
    by (simp add: fresh_token_def now sample_token_def)
  have fp: "wo_footprint sample_world r = 0" for r by (simp add: sample_world_def railway_world_def)
  have m: "mark_attempt sample_config (oi_item_id sample_item) None 0 sample_box
      = (Inr (), sample_box\<lparr>db_items := [sample_item\<lparr>oi_attempts := Suc 0\<rparr>]\<rparr>)"
    by (simp add: mark_attempt_def in_transaction_def sample_config_def sample_box_def sample_item_def update_where_def)
  have a: "acknowledge sample_config (oi_item_id sample_item) ''43'' 0 (sample_box\<lparr>db_items := [sample_item\<lparr>oi_attempts := Suc 0\<rparr>]\<rparr>)
      = (Inr True, sample_box\<lparr>db_items := []\<rparr>)"
    by (simp add: acknowledge_def in_transaction_def sample_config_def sample_item_def get_item_def)
  have w: "upload_when_free sample_world sample_item d n sample_token ?r = (Inr (receipt, sample_token), s)" for d n
    by (subst upload_when_free.simps) (simp add: u)
  show ?thesis unfolding sample_drain_def sample_world_def [symmetric]
    by (simp add: drain_def now box drain_item_def deliver_def f fp m w settle_def u a Let_def)
qed

theorem collector_envelope_read_witness:
  "\<exists>envelope bytes. open_upload stored_inflater delivery_codec (oi_payload sample_item) = Inr (envelope, bytes)
     \<and> check_envelope delivery_codec sample_claims envelope bytes = Inr \<lparr>ev_version = 1, ev_provider = ''nba'', ev_type = ''synergy_play_types'',
         ev_client_id = ''rc-1'', ev_scope_text = json_dumps (en_scope sample_note), ev_manifest_id = ''m1'', ev_checksum = ''43''\<rparr>"
proof -
  have l: "length (gzip (co_wire delivery_codec) (canonical_json (en_payload sample_note))) \<le> MAX_COMPRESSED_BYTES_cp" by code_simp
  have c: "''ingest'' \<in> cl_scopes sample_claims" "en_environment sample_note = cl_environment sample_claims"
    "\<not> MAX_SCOPE_BYTES < length (canonical_json (en_scope sample_note))" "en_manifest_id sample_note = Some ''m1''"
    "en_schema_version sample_note = 1" "strip (en_provider sample_note) = ''nba''" "strip (en_observation_type sample_note) = ''synergy_play_types''"
    "strip (en_client_observation_id sample_note) = ''rc-1''" "strip ''m1'' = ''m1''"
    "payload_checksum (co_wire delivery_codec) (en_payload sample_note) = ''43''"
    by code_simp+
  from collector_envelope_read [OF sample_note_made sample_note_wire sample_transport sample_payload l, of sample_claims]
  show ?thesis by (auto simp: c)
qed


theorem expiry_never_reported_witness:
  "\<exists>e. read_receipt (Inr (fst (answer_upload stored_inflater delivery_codec sample_service (tn_clock sample_turn) (tn_surroundings sample_turn)
        (Inl (TokenRefused ''invalid_token'')) True [] sample_db))) = Inl (HttpError e) \<and> he_reason e \<noteq> ''token_expired''"
proof -
  let ?a = "answer_upload stored_inflater delivery_codec sample_service (tn_clock sample_turn) (tn_surroundings sample_turn)
        (Inl (TokenRefused ''invalid_token'')) True [] sample_db"
  have u: "?a = (error_response (app_failure 401 ''invalid_token''), sample_db)"
    by (simp add: answer_upload_def token_answer_def control_or_limit_def control_answer_def)
  obtain e where e: "read_receipt (Inr (error_response (app_failure 401 ''invalid_token''))) = Inl (HttpError e)"
    using read_error_response [of "app_failure 401 ''invalid_token''"] by (auto simp: plain_answer_def ANSWER_CODES_def)
  from expiry_never_reported [OF u e] e u show ?thesis by simp
qed

end
