(* ===== verification/Spec2Isabelle.thy ===== *)
theory Spec2Isabelle
  imports Publisher Segments Odds_Schedule Report_Edits Market_Contract Publication_Control Delivery
begin

text \<open>
  A verification of the core logic of the statsplus backend.

  \<^bold>\<open>The program.\<close> The backend collects basketball data and market prices, derives statistics from
  them, publishes tables and serves them over HTTP. Most of its lines are queries, pandas frames
  and adapters of upstream formats; its own logic sits in a few pure or transactional modules, and
  these are modelled here, one theory or two per module. All paths are below \<open>src/app\<close>.

  \<^bold>\<open>How the parts interact.\<close> The collection control plane keeps the publications: versions of each
  stream's facts and the fenced pointer that names the one that is served. Refresh work runs as
  durable jobs; a job that publishes does so through the table publisher, which asks the job's fence
  inside its transaction. A residential collector sends observations from an outbox, in envelopes
  whose canonical form and checksum the outbox checks again; it authenticates with a short-lived token
  of its identity, and the control plane validates the payload, takes the collector's lease, stores the
  observation once and queues the compositions it feeds. Play-by-play feeds become rotations,
  and rotations and feeds become lineup segments. The odds schedule decides which market calls a
  beat may spend. Provider markets enter through a contract that normalises them and are compared by
  content keys and by freshness windows. Reports are validated when they are published, edited by
  their author and shown to readers.

  \<^bold>\<open>The theories.\<close>

  \<^item> \<open>Prelude\<close>: the result monad with its loops, tables as lists of rows, the locales \<open>fenced_lease\<close>
    (a counter that only grows outlives every superseded holder), \<open>retained_store\<close> (an invariant and
    the items that only named operations remove) and \<open>keyed_loop\<close> (a loop over items with different
    keys, each step of which leaves the other keys alone).
  \<^item> \<open>Publications\<close> (\<open>services/collection_control.py\<close>, \<open>PublicationService\<close>;
    \<open>domain/publication_integrity.py\<close>, \<open>services/publication_authority.py\<close>, \<open>services/serving_season.py\<close>):
    the tables of publications and every operation on them. \<open>Publication_Safety\<close>: what an update
    changes of what is observed, the invariant, and that compositions, corrections, rollbacks and
    moves keep it. \<open>Publication_Recovery\<close>: families, activation, repair groups and the revert of a
    cutover, each loop an instance of \<open>keyed_loop\<close>. \<open>Publication_Cutover\<close>: the season cutover, what
    the tables keep of it, and the prune. \<open>Publication_Control\<close>: the operations as an inductive step
    relation, an instance of \<open>fenced_lease\<close> for the pointers' fences, and C1 to C9: what is served is
    intact and accounted for, what was withdrawn never returns, a cutover can be undone at once and
    as long as no pointer moved, a prune takes nothing a recovery needs, a correction takes exactly
    what rests on replaced evidence, compositions stay in the season, a stale fence is refused for
    good, a family moves together.
  \<^item> \<open>Payloads\<close> (\<open>services/collection_control.py\<close>, the validators; \<open>domain/nba_teams.py\<close>): documents
    with floats and unbounded integers, and every check of an uploaded payload with the Python
    exceptions it can leave with. C21 and C22: the shape check is exact, accepted records are sound.
  \<^item> \<open>Collector_Tokens\<close> (\<open>services/collection_control.py\<close>, \<open>CollectorTokenService\<close>): identities,
    tokens, revocation, rotation and delivery of secrets, with base64. Its facts that no later
    operation takes back are an instance of \<open>retained_store\<close>. C16 to C19: what a validated token
    allows, revocation is final, an issued token validates, a rotation hands over.
  \<^item> \<open>Ingestion\<close> (\<open>services/collection_control.py\<close>, \<open>ObservationIngestionService\<close> and the queue of
    \<open>PublicationService\<close>; \<open>routes/collection_routes.py\<close>): bounded decompression, envelope, manifest and
    stream checks, the collector's lease, storage, replays and conflicts, the queue. It interprets
    \<open>fenced_lease\<close> for the uploads. C11 to C14: a superseded upload stores nothing, an observation is
    stored once and queues what it feeds, decompression is bounded.
  \<^item> \<open>Drain\<close> (\<open>collector/runner.py\<close>, \<open>collector/client.py\<close>): how the collector empties its outbox in a
    world given by the locale \<open>delivery_world\<close> (a receipt promises that the item is recorded, nothing
    takes it back). \<open>Delivery\<close> (\<open>routes/collection_routes.py\<close>, \<open>app/errors.py\<close>): the answers of the
    upload route as the client reads them, and the ingestion of \<open>Ingestion\<close> as an instance of that
    world. C10, C15 and C20: what left the outbox is stored, the server reads what the collector
    wrote, an expired token is never reported as such.
  \<^item> \<open>Jobs\<close> (\<open>services/job_service.py\<close>, \<open>models/job.py\<close>): the job table, claim, lease, progress, fence,
    finish, fail, dispatch, start and shutdown, as functions on the rows and an inductive step
    relation of concurrent workers. It interprets \<open>fenced_lease\<close>. C23 to C25: the invariant of every
    reachable table, fencing of superseded claims, recorded outcomes; and bounded claims, final rows,
    a dispatch that drains the queue.
  \<^item> \<open>Publisher\<close> (\<open>services/table_publisher.py\<close>): staging and the fenced swap. C26 and C27: all or
    nothing, and no publication by a superseded worker.
  \<^item> \<open>Pyvalue\<close> and \<open>Calendar\<close>: the language's values. JSON values with their access, text and number
    conversions, canonical JSON text and UTF-8, rounding of doubles; proleptic Gregorian dates and
    ISO text with the order of that text.
  \<^item> \<open>Rotation\<close> (\<open>services/rotation_derivation.py\<close>): clocks, rosters, replay of substitutions, stints,
    minutes, the five-on-court check. C28 and C29.
  \<^item> \<open>Segments\<close> (\<open>services/lineup_segments.py\<close>): lineup segments with counts, fouls, possessions.
    C30 and C31: durations add up to the game, possessions are conserved.
  \<^item> \<open>Odds_Schedule\<close> (\<open>services/odds_schedule.py\<close>): windows, cadence, budget, tiers, the plan of a
    beat, the monthly reset. C32 and C33.
  \<^item> \<open>Contracts\<close> (\<open>collector/contracts.py\<close>) and \<open>Outbox\<close> (\<open>collector/outbox.py\<close>): envelopes, their
    checks and wire form; the outbox with its quota, receipts, pruning and process lease. \<open>Outbox\<close>
    interprets \<open>retained_store\<close>. C34 to C36.
  \<^item> \<open>Reports\<close> and \<open>Report_Edits\<close> (\<open>domain/report_document.py\<close>): the report schema with its limits,
    the publish body, notes, edits and what a reader sees. C37 and C38: what an accepted report
    holds, the cards and calls of an edited report; and stability of the normal form.
  \<^item> \<open>Decimals\<close> and \<open>Market_Content\<close> (\<open>domain/market_content.py\<close>): decimals, canonical tokens, the
    canonical encoding, the facts of a market and its keys. The locale \<open>self_delimiting_code\<close> states
    what the keys rely on, and the encoding interprets it. The token is exact, the
    encoding injective and self-delimiting; C39: the content key is equal exactly for the same
    offering.
  \<^item> \<open>Freshness\<close> (\<open>domain/freshness.py\<close>): exact durations and windows. The boundary of a cache
    policy is exact.
  \<^item> \<open>Market_Contract\<close> (\<open>providers/dfs.py\<close>): vocabularies, numbers, prices, construction of
    selections and markets. C40: a selection built again from its fields; and one price form.

  \<^bold>\<open>Conventions.\<close> An exception is the left part of a sum, with a constructor per class the code tells
  apart; the order of checks is the code's. A database transaction is a function on the rows that
  returns the new rows or leaves them. A record is named like its class and an operation like its
  function, with a suffix where HOL has the name. Instants are microseconds since the epoch. Clocks,
  identifiers, allocation of pages, time zones, hashing, compression and handlers are arguments.
  A hypothesis about such an argument is stated in the theorem that needs it, and its witness
  instantiates it.

  \<^bold>\<open>Bounds and termination.\<close> No fuel is used. Loops are structural recursion on their list (the
  dispatch of \<open>Jobs\<close> on its candidates, the replays of \<open>Rotation\<close> and \<open>Segments\<close> on the feed) or
  terminate by a measure: searching a year or a month in \<open>Calendar\<close>, trailing zeroes in \<open>Decimals\<close>,
  formatting marks and nested blocks in \<open>Reports\<close>, the payload traversals in \<open>Contracts\<close> and
  \<open>Payloads\<close>, the chunks of \<open>Ingestion\<close>, the base64 scan. The retries of \<open>Drain\<close> are counted down from
  the code's own limit. Texts are of characters below 256; JSON numbers are integers, but floats and
  integers in \<open>Payloads\<close>. Doubles are rationals rounded to 53 bits where the code computes with them.

  \<^bold>\<open>Findings.\<close> C36: pruning compares ISO texts, so an item of the cutoff's own full second is removed
  although its cutoff is later. \<open>stated_price_is_not_content\<close>: the stated price of a selection is in
  neither key. C40: a payout multiplier of zero or less is accepted when derived and refused when the
  same selection is built again, as the decoder of the snapshot cache does.
  \<open>reactivation_loses_rollback_target\<close>: activating a parity stream with the publication it serves
  makes that publication its own rollback target. C20: the drain renews an expired token only for a
  code that the server never sends. \<open>default_checksum_refused\<close>: the checksum that the upload route
  fills in is of the payload with sorted keys, the one compared with it is of the payload as received.
  \<open>huge_integer_raises\<close> and \<open>foreign_signature_raises\<close>: an integer beyond the range of a double, and a
  token whose signature is not ASCII, leave the service as exceptions that no handler names, so the
  answer is a server error instead of the refusal.

  \<^bold>\<open>Not modelled.\<close> The rest of \<open>services/collection_control.py\<close>, \<open>projection_archive.py\<close>,
  \<open>canonical_game_ledger.py\<close> and the repositories, which are SQL around state that is not separated
  from its queries; the matchup, slate and ledger statistics, computed by pandas; the natural-language
  parser; provider adapters, the other routes, configuration, migrations and operational scripts. In the
  components that are modelled, the catalog uploads of the ingestion and the reconciliation of pending
  compositions are left out. Of the rest the catalogs with their publication, the comparison board and
  the event and athlete resolvers would come next.
\<close>

end
